(* ===== verification/Prelude.thy ===== *)
theory Prelude
  imports Complex_Main "HOL-Library.AList" "HOL-Library.Multiset" "HOL-Library.Sublist"
    "HOL-Library.Product_Lexorder" "HOL-Library.List_Lexorder" "HOL-Library.Char_ord"
begin

text \<open>
  What every component of the model shares: Python's dynamic values and the primitives of its
  standard library that the source calls, the rounding functions, insertion-ordered dictionaries,
  the first minimum and maximum under a key, and the generic lemmas about them.

  A Python \<open>float\<close> is a \<open>real\<close> (arithmetic is exact; NaN and the infinities have no value
  here, and a component that uses \<open>float("inf")\<close> says how it models it), a Python \<open>int\<close> is an
  \<open>int\<close>, a \<open>str\<close> is a \<open>string\<close>, an aware \<open>datetime\<close> is its POSIX timestamp (a \<open>real\<close>),
  a \<open>dict\<close> whose order is observable is an association list with distinct keys.
\<close>

named_theorems fl_simps \<open>characteristic equations of the model's operations\<close>
named_theorems fl_inv \<open>preservation lemmas\<close>

subsection \<open>Dynamic values\<close>

text \<open>The values a row of source data, an event payload or a geometry column may hold; \<open>VTime\<close> is
  an aware \<open>datetime\<close>.\<close>

datatype py_val =
    VNone
  | VBool bool
  | VInt int
  | VFloat real
  | VTime real
  | VStr string
  | VList "py_val list"
  | VDict "(string \<times> py_val) list"

text \<open>
  The conversions of the Python standard library that depend on text formats are gathered in one
  record, and every definition that needs one takes the record as an argument, so that each
  theorem holds for whichever formats the interpreter's version accepts:
  \<open>fromisoformat\<close> is \<open>datetime.fromisoformat(s).timestamp()\<close>, \<open>None\<close> for its
  \<open>ValueError\<close>; \<open>literal_eval\<close> is \<open>ast.literal_eval\<close>, \<open>None\<close> for its \<open>ValueError\<close> or
  \<open>SyntaxError\<close>; \<open>float_of_str\<close> is \<open>float(s)\<close> on a string, \<open>None\<close> for \<open>ValueError\<close>;
  \<open>str_of_val\<close> is \<open>str(v)\<close> on a value that is not a string.
\<close>

record runtime =
  fromisoformat :: "string \<Rightarrow> real option"
  literal_eval :: "string \<Rightarrow> py_val option"
  float_of_str :: "string \<Rightarrow> real option"
  str_of_val :: "py_val \<Rightarrow> string"

text \<open>\<open>bool(v)\<close>, the truth value of a Python value.\<close>

fun truthy :: "py_val \<Rightarrow> bool" where
  "truthy VNone = False"
| "truthy (VBool b) = b"
| "truthy (VInt i) = (i \<noteq> 0)"
| "truthy (VFloat r) = (r \<noteq> 0)"
| "truthy (VTime r) = True"
| "truthy (VStr s) = (s \<noteq> [])"
| "truthy (VList xs) = (xs \<noteq> [])"
| "truthy (VDict d) = (d \<noteq> [])"

text \<open>\<open>str(v)\<close>.\<close>

fun py_str :: "runtime \<Rightarrow> py_val \<Rightarrow> string" where
  "py_str rt (VStr s) = s"
| "py_str rt v = str_of_val rt v"

text \<open>\<open>float(v)\<close>; \<open>None\<close> is the \<open>TypeError\<close> or \<open>ValueError\<close> it raises.\<close>

fun py_float :: "runtime \<Rightarrow> py_val \<Rightarrow> real option" where
  "py_float rt (VBool b) = Some (if b then 1 else 0)"
| "py_float rt (VInt i) = Some (real_of_int i)"
| "py_float rt (VFloat r) = Some r"
| "py_float rt (VStr s) = float_of_str rt s"
| "py_float rt _ = None"

text \<open>\<open>int(x)\<close> on a float truncates towards zero.\<close>

definition py_int :: "real \<Rightarrow> int" where
  "py_int x = (if x < 0 then \<lceil>x\<rceil> else \<lfloor>x\<rfloor>)"

lemma py_int_mono: "x \<le> y \<Longrightarrow> py_int x \<le> py_int y"
  unfolding py_int_def using ceiling_mono [of x y] floor_mono [of x y]
  by (smt (verit) ceiling_le_zero zero_le_floor)

lemma py_int_of_int [simp]: "py_int (real_of_int i) = i"
  by (simp add: py_int_def)

lemma py_int_numeral [simp]: "py_int 0 = 0" "py_int 1 = 1" "py_int (numeral n) = numeral n"
  by (simp_all add: py_int_def)

text \<open>A concrete runtime for the closed instances of the theorems: four timestamps, no literals.\<close>

definition sample_runtime :: runtime where
  "sample_runtime =
     \<lparr>fromisoformat = map_of [(''t0'', 0), (''t1'', 100), (''t2'', 200), (''t3'', 300)],
      literal_eval = Map.empty, float_of_str = Map.empty, str_of_val = (\<lambda>_. ''value'')\<rparr>"

subsection \<open>Rounding\<close>

text \<open>Python's \<open>round\<close> rounds halves to the even neighbour.\<close>

definition round_half_even :: "real \<Rightarrow> int" where
  "round_half_even y =
     (let f = \<lfloor>y\<rfloor>; d = y - real_of_int f in
      if d < 1/2 then f else if d > 1/2 then f + 1 else if even f then f else f + 1)"

definition py_round :: "nat \<Rightarrow> real \<Rightarrow> real" where
  "py_round n x = real_of_int (round_half_even (x * 10 ^ n)) / 10 ^ n"

lemma round_half_even_bounds: "\<lfloor>y\<rfloor> \<le> round_half_even y" "round_half_even y \<le> \<lfloor>y\<rfloor> + 1"
  by (auto simp: round_half_even_def Let_def)

lemma round_half_even_mono:
  assumes "x \<le> y" shows "round_half_even x \<le> round_half_even y"
proof (cases "\<lfloor>x\<rfloor> = \<lfloor>y\<rfloor>")
  case True
  with assms show ?thesis by (auto simp: round_half_even_def Let_def)
next
  case False
  with floor_mono [OF assms] have "\<lfloor>x\<rfloor> + 1 \<le> \<lfloor>y\<rfloor>" by linarith
  with round_half_even_bounds show ?thesis by (meson order_trans)
qed

lemma round_half_even_of_int [simp]: "round_half_even (real_of_int i) = i"
  by (simp add: round_half_even_def)

lemma round_half_even_zero [simp]: "round_half_even 0 = 0"
  using round_half_even_of_int [of 0] by simp

lemma round_half_even_close: "\<bar>real_of_int (round_half_even y) - y\<bar> \<le> 1/2"
  by (auto simp: round_half_even_def Let_def)

lemma py_round_mono: "x \<le> y \<Longrightarrow> py_round n x \<le> py_round n y"
  by (simp add: py_round_def divide_right_mono mult_right_mono round_half_even_mono)

lemma py_round_of_int [simp]: "py_round n (real_of_int i) = real_of_int i"
proof -
  have "real_of_int i * 10 ^ n = real_of_int (i * 10 ^ n)" by simp
  then show ?thesis unfolding py_round_def by (metis (no_types, opaque_lifting)
    round_half_even_of_int nonzero_mult_div_cancel_right power_not_zero zero_neq_numeral of_int_mult
    of_int_power of_int_numeral)
qed

lemma py_round_zero [simp]: "py_round n 0 = 0"
  using py_round_of_int [of n 0] by simp

lemma py_round_one [simp]: "py_round n 1 = 1"
  using py_round_of_int [of n 1] by simp

lemma py_round_nonneg: "0 \<le> x \<Longrightarrow> 0 \<le> py_round n x"
  using py_round_mono [of 0 x n] by simp

lemma py_round_le_one: "x \<le> 1 \<Longrightarrow> py_round n x \<le> 1"
  using py_round_mono [of x 1 n] by simp

lemma py_round_close: "\<bar>py_round n x - x\<bar> \<le> 1 / (2 * 10 ^ n)"
proof -
  have "py_round n x - x = (real_of_int (round_half_even (x * 10 ^ n)) - x * 10 ^ n) / 10 ^ n"
    by (simp add: py_round_def field_simps)
  then have "\<bar>py_round n x - x\<bar> =
      \<bar>real_of_int (round_half_even (x * 10 ^ n)) - x * 10 ^ n\<bar> / 10 ^ n"
    by (simp add: abs_divide)
  also have "\<dots> \<le> (1/2) / 10 ^ n"
    by (rule divide_right_mono [OF round_half_even_close]) simp
  finally show ?thesis by (simp add: field_simps)
qed

subsection \<open>Strings\<close>

text \<open>ASCII whitespace, \<open>str.strip()\<close> and \<open>str.split(c, 1)\<close>.\<close>

definition is_space :: "char \<Rightarrow> bool" where
  "is_space c \<longleftrightarrow> (let n = of_char c :: nat in 9 \<le> n \<and> n \<le> 13 \<or> 28 \<le> n \<and> n \<le> 32)"

definition py_strip :: "string \<Rightarrow> string" where
  "py_strip s = rev (dropWhile is_space (rev (dropWhile is_space s)))"

definition split_once :: "char \<Rightarrow> string \<Rightarrow> (string \<times> string) option" where
  "split_once c s =
     (case dropWhile (\<lambda>x. x \<noteq> c) s of
        [] \<Rightarrow> None
      | _ # rest \<Rightarrow> Some (takeWhile (\<lambda>x. x \<noteq> c) s, rest))"

lemma dropWhile_idem: "dropWhile P (dropWhile P xs) = dropWhile P xs"
  by (induction xs) auto

lemma dropWhile_hd: "dropWhile P xs = y # ys \<Longrightarrow> \<not> P y"
  by (induction xs) (auto split: if_splits)

lemma py_strip_Nil [simp]: "py_strip [] = []"
  by (simp add: py_strip_def)

lemma py_strip_idem [simp]: "py_strip (py_strip s) = py_strip s"
proof -
  have drop: "dropWhile P (rev (dropWhile P (rev (dropWhile P xs)))) =
      rev (dropWhile P (rev (dropWhile P xs)))" for P :: "char \<Rightarrow> bool" and xs
  proof (cases "rev (dropWhile P (rev (dropWhile P xs)))")
    case Nil
    then show ?thesis by (simp del: dropWhile_eq_Nil_conv)
  next
    case (Cons y ys)
    let ?d = "dropWhile P xs"
    obtain zs where "rev ?d = zs @ dropWhile P (rev ?d)"
      by (metis takeWhile_dropWhile_id)
    then have "?d = rev (dropWhile P (rev ?d)) @ rev zs"
      by (metis rev_append rev_rev_ident)
    with Cons have "dropWhile P xs = y # (ys @ rev zs)" by simp
    then have "\<not> P y" by (rule dropWhile_hd)
    with Cons show ?thesis by simp
  qed
  show ?thesis
    unfolding py_strip_def drop by (simp add: dropWhile_idem)
qed

subsection \<open>Insertion-ordered dictionaries\<close>

text \<open>
  \<open>d.get(k)\<close> is \<open>map_of d k\<close>; \<open>d[k] = v\<close> is \<open>AList.update k v d\<close>, which keeps the position of
  an existing key and appends a new one; \<open>d.pop(k, None)\<close> is \<open>AList.delete k d\<close>.
\<close>

type_synonym ('k, 'v) dict = "('k \<times> 'v) list"

definition dget_default :: "('k, 'v) dict \<Rightarrow> 'k \<Rightarrow> 'v \<Rightarrow> 'v" where
  "dget_default d k v = (case map_of d k of None \<Rightarrow> v | Some w \<Rightarrow> w)"

text \<open>\<open>d.setdefault(k, []).append(x)\<close>.\<close>

definition dappend :: "'k \<Rightarrow> 'v \<Rightarrow> ('k, 'v list) dict \<Rightarrow> ('k, 'v list) dict" where
  "dappend k x d = AList.update k (dget_default d k [] @ [x]) d"

definition wf_dict :: "('k, 'v) dict \<Rightarrow> bool" where
  "wf_dict d \<longleftrightarrow> distinct (map fst d)"

lemma map_of_update: "map_of (AList.update k v d) = (map_of d)(k \<mapsto> v)"
  by (rule update_conv')

lemma wf_dict_update [simp]: "wf_dict d \<Longrightarrow> wf_dict (AList.update k v d)"
  by (simp add: wf_dict_def distinct_update)

lemma wf_dict_Nil [simp]: "wf_dict []"
  by (simp add: wf_dict_def)

lemma wf_dict_dappend [simp]: "wf_dict d \<Longrightarrow> wf_dict (dappend k x d)"
  by (simp add: dappend_def)

lemma wf_dict_map_of: "wf_dict d \<Longrightarrow> (k, v) \<in> set d \<longleftrightarrow> map_of d k = Some v"
  by (simp add: wf_dict_def)

lemma dget_default_dappend:
  "dget_default (dappend k x d) j [] =
     (if j = k then dget_default d k [] @ [x] else dget_default d j [])"
  by (simp add: dget_default_def dappend_def map_of_update)

lemma keys_update: "fst ` set (AList.update k v d) = insert k (fst ` set d)"
  by (simp add: dom_update flip: dom_map_of_conv_image_fst) (auto simp: update_conv')

lemma mset_map_filter_split:
  "mset (map f xs) = mset (map f (filter (\<lambda>x. \<not> P x) xs)) + mset (map f (filter P xs))"
  by (induction xs) auto

lemma nonempty_mem: "xs \<noteq> [] \<Longrightarrow> \<exists>x. x \<in> set xs"
  by (cases xs) auto

subsection \<open>First minimum and maximum\<close>

text \<open>\<open>min(xs, key=k)\<close> and \<open>max(xs, key=k)\<close> return the first of equal candidates.\<close>

fun min_by :: "('a \<Rightarrow> 'b::linorder) \<Rightarrow> 'a list \<Rightarrow> 'a option" where
  "min_by k [] = None"
| "min_by k (x # xs) =
     (case min_by k xs of None \<Rightarrow> Some x | Some y \<Rightarrow> if k y < k x then Some y else Some x)"

fun max_by :: "('a \<Rightarrow> 'b::linorder) \<Rightarrow> 'a list \<Rightarrow> 'a option" where
  "max_by k [] = None"
| "max_by k (x # xs) =
     (case max_by k xs of None \<Rightarrow> Some x | Some y \<Rightarrow> if k x < k y then Some y else Some x)"

lemma min_by_None [simp]: "min_by k xs = None \<longleftrightarrow> xs = []"
  by (cases xs) (auto split: option.splits)

lemma max_by_None [simp]: "max_by k xs = None \<longleftrightarrow> xs = []"
  by (cases xs) (auto split: option.splits)

lemma min_by_Some: "min_by k xs = Some y \<Longrightarrow> y \<in> set xs \<and> (\<forall>x\<in>set xs. k y \<le> k x)"
  by (induction xs arbitrary: y) (fastforce split: option.splits if_splits)+

lemma max_by_Some: "max_by k xs = Some y \<Longrightarrow> y \<in> set xs \<and> (\<forall>x\<in>set xs. k x \<le> k y)"
  by (induction xs arbitrary: y) (fastforce split: option.splits if_splits)+

end
