(* ===== verification/Intervals.thy ===== *)
theory Intervals
  imports Prelude
begin

text \<open>
  Integer time intervals: \<open>merge_intervals\<close> and \<open>subtract_intervals\<close> of
  \<open>solver/restrictions.py\<close> (closed intervals), \<open>_merge_busy\<close> and \<open>_intervals_overlap\<close> of
  \<open>solver/enforcement.py\<close> (half-open intervals). The abstraction is the set of seconds an
  interval list covers; the lemmas show that each routine computes the set operation and that a
  merged list is the only normal form of its set. The locale \<open>interval_ops\<close> is the interface
  the filters of the solver chain use.
\<close>

type_synonym interval = "int \<times> int"

subsection \<open>The routines\<close>

text \<open>
  The loop of both merges: \<open>acc\<close> is the Python list \<open>merged\<close> with its last element first, and an
  interval joins the last one when it starts at most \<open>gap\<close> after its end.
\<close>

fun merge_loop :: "int \<Rightarrow> interval list \<Rightarrow> interval list \<Rightarrow> interval list" where
  "merge_loop gap acc [] = rev acc"
| "merge_loop gap [] (iv # ivs) = merge_loop gap [iv] ivs"
| "merge_loop gap ((s0, e0) # acc) ((s, e) # ivs) =
     (if s \<le> e0 + gap then merge_loop gap ((s0, max e0 e) # acc) ivs
      else merge_loop gap ((s, e) # (s0, e0) # acc) ivs)"

definition merge_intervals :: "interval list \<Rightarrow> interval list" where
  "merge_intervals ivs = merge_loop 1 [] (sort (filter (\<lambda>i. fst i \<le> snd i) ivs))"

definition merge_busy :: "interval list \<Rightarrow> interval list" where
  "merge_busy ivs = merge_loop 0 [] (sort ivs)"

text \<open>The pieces of \<open>a\<close> outside one blocked interval: the body of the inner loop.\<close>

fun cut_one :: "interval \<Rightarrow> interval \<Rightarrow> interval list" where
  "cut_one (b_start, b_end) (a_start, a_end) =
     (if b_end < a_start \<or> b_start > a_end then [(a_start, a_end)]
      else (if a_start < b_start then [(a_start, b_start - 1)] else [])
         @ (if b_end < a_end then [(b_end + 1, a_end)] else []))"

definition subtract_intervals :: "interval list \<Rightarrow> interval list \<Rightarrow> interval list" where
  "subtract_intervals allowed blocked =
     fold (\<lambda>b result. concat (map (cut_one b) result)) (merge_intervals blocked)
       (merge_intervals allowed)"

definition intervals_overlap :: "interval list \<Rightarrow> interval list \<Rightarrow> bool" where
  "intervals_overlap left right \<longleftrightarrow>
     list_ex (\<lambda>(start_l, end_l). list_ex (\<lambda>(start_r, end_r).
       start_l < end_r \<and> start_r < end_l) right) left"

subsection \<open>The sets they stand for\<close>

text \<open>The seconds of closed and of half-open intervals, and the normal form of a closed list.\<close>

definition pts :: "interval list \<Rightarrow> int set" where
  "pts ivs = (\<Union>(s, e)\<in>set ivs. {s..e})"

definition hpts :: "interval list \<Rightarrow> int set" where
  "hpts ivs = (\<Union>(s, e)\<in>set ivs. {s..<e})"

definition normal :: "int \<Rightarrow> interval list \<Rightarrow> bool" where
  "normal gap ivs \<longleftrightarrow>
     (\<forall>i\<in>set ivs. fst i \<le> snd i) \<and> sorted_wrt (\<lambda>a b. snd a + gap < fst b) ivs"

lemma pts_simps [simp]:
  "pts [] = {}" "pts ((s, e) # ivs) = {s..e} \<union> pts ivs" "pts (xs @ ys) = pts xs \<union> pts ys"
  "pts (rev xs) = pts xs"
  by (auto simp: pts_def)

lemma hpts_simps [simp]:
  "hpts [] = {}" "hpts ((s, e) # ivs) = {s..<e} \<union> hpts ivs" "hpts (xs @ ys) = hpts xs \<union> hpts ys"
  "hpts (rev xs) = hpts xs"
  by (auto simp: hpts_def)

lemma normal_Nil [simp]: "normal g []"
  by (simp add: normal_def)

lemma normal_Cons:
  "normal g ((s, e) # ivs) \<longleftrightarrow> s \<le> e \<and> (\<forall>i\<in>set ivs. e + g < fst i) \<and> normal g ivs"
  by (auto simp: normal_def)

lemma pts_mset: "mset xs = mset ys \<Longrightarrow> pts xs = pts ys"
  unfolding pts_def using mset_eq_setD by blast

lemma pts_iff: "x \<in> pts ivs \<longleftrightarrow> (\<exists>i\<in>set ivs. fst i \<le> x \<and> x \<le> snd i)"
  by (simp add: pts_def split_beta)

lemma hpts_iff: "x \<in> hpts ivs \<longleftrightarrow> (\<exists>i\<in>set ivs. fst i \<le> x \<and> x < snd i)"
  by (simp add: hpts_def split_beta)

lemma pts_filter_valid: "pts (filter (\<lambda>i. fst i \<le> snd i) ivs) = pts ivs"
  unfolding set_eq_iff pts_iff by fastforce

text \<open>Sorting by the pair sorts by the start.\<close>

lemma sorted_fst: "sorted (ivs :: interval list) \<Longrightarrow> sorted (map fst ivs)"
proof (induction ivs)
  case (Cons i ivs)
  then have "\<forall>j\<in>set ivs. i \<le> j" by simp
  then have "\<forall>j\<in>set ivs. fst i \<le> fst j"
    by (metis less_eq_prod_def order_le_less)
  with Cons show ?case by simp
qed simp

subsection \<open>Merging\<close>

lemma merge_loop_hd:
  "sorted (map fst ivs) \<Longrightarrow> (\<forall>i\<in>set ivs. s0 \<le> fst i) \<Longrightarrow>
   pts (merge_loop 1 ((s0, e0) # acc) ivs) = pts acc \<union> {s0..e0} \<union> pts ivs"
proof (induction ivs arbitrary: s0 e0 acc)
  case (Cons i ivs)
  obtain s e where i: "i = (s, e)" by (cases i)
  from Cons.prems i have srt: "sorted (map fst ivs)" "\<forall>j\<in>set ivs. s \<le> fst j" "s0 \<le> s"
    by auto
  show ?case
  proof (cases "s \<le> e0 + 1")
    case True
    have "{s0..max e0 e} = {s0..e0} \<union> {s..e}" using True srt(3) by auto
    with True i Cons.IH [of s0 "max e0 e" acc] srt show ?thesis by force
  next
    case False
    with i Cons.IH [of s e "(s0, e0) # acc"] srt show ?thesis by auto
  qed
qed auto

lemma merge_loop_hd_half_open:
  "sorted (map fst ivs) \<Longrightarrow> (\<forall>i\<in>set ivs. s0 \<le> fst i) \<Longrightarrow>
   hpts (merge_loop 0 ((s0, e0) # acc) ivs) = hpts acc \<union> {s0..<e0} \<union> hpts ivs"
proof (induction ivs arbitrary: s0 e0 acc)
  case (Cons i ivs)
  obtain s e where i: "i = (s, e)" by (cases i)
  from Cons.prems i have srt: "sorted (map fst ivs)" "\<forall>j\<in>set ivs. s \<le> fst j" "s0 \<le> s"
    by auto
  show ?case
  proof (cases "s \<le> e0")
    case True
    have "{s0..<max e0 e} = {s0..<e0} \<union> {s..<e}" using True srt(3) by auto
    with True i Cons.IH [of s0 "max e0 e" acc] srt show ?thesis by force
  next
    case False
    with i Cons.IH [of s e "(s0, e0) # acc"] srt show ?thesis by auto
  qed
qed auto

text \<open>The accumulator of the loop, read from its last element, is a normal form.\<close>

definition normal_acc :: "int \<Rightarrow> interval list \<Rightarrow> bool" where
  "normal_acc g acc \<longleftrightarrow>
     (\<forall>i\<in>set acc. fst i \<le> snd i) \<and> sorted_wrt (\<lambda>a b. snd b + g < fst a) acc"

lemma normal_rev: "normal g (rev acc) \<longleftrightarrow> normal_acc g acc"
  by (simp add: normal_def normal_acc_def sorted_wrt_rev)

lemma normal_acc_extend:
  "normal_acc g ((s0, e0) # acc) \<Longrightarrow> e0 \<le> e \<Longrightarrow> normal_acc g ((s0, e) # acc)"
  by (auto simp: normal_acc_def)

lemma normal_acc_push:
  assumes "normal_acc g ((s0, e0) # acc)" "e0 + g < s" "s \<le> e" "0 \<le> g"
  shows "normal_acc g ((s, e) # (s0, e0) # acc)"
  using assms by (fastforce simp: normal_acc_def)

lemma merge_loop_normal:
  "0 \<le> g \<Longrightarrow> \<forall>i\<in>set ivs. fst i \<le> snd i \<Longrightarrow> normal_acc g acc \<Longrightarrow>
   normal g (merge_loop g acc ivs)"
proof (induction g acc ivs rule: merge_loop.induct)
  case (3 gap s0 e0 acc s e ivs)
  then show ?case
    using normal_acc_extend [of gap s0 e0 acc "max e0 e"] normal_acc_push [of gap s0 e0 acc s e]
    by auto
qed (auto simp: normal_rev normal_acc_def)

lemma pts_merge_loop: "sorted ivs \<Longrightarrow> pts (merge_loop 1 [] ivs) = pts ivs"
  by (cases ivs) (use sorted_fst [of ivs] in \<open>auto simp: merge_loop_hd\<close>)

lemma hpts_merge_loop: "sorted ivs \<Longrightarrow> hpts (merge_loop 0 [] ivs) = hpts ivs"
  by (cases ivs) (use sorted_fst [of ivs] in \<open>auto simp: merge_loop_hd_half_open\<close>)

lemma pts_merge_intervals [simp, fl_simps]: "pts (merge_intervals ivs) = pts ivs"
  by (simp add: merge_intervals_def pts_merge_loop pts_mset [OF mset_sort] pts_filter_valid)

lemma hpts_mset: "mset xs = mset ys \<Longrightarrow> hpts xs = hpts ys"
  unfolding hpts_def using mset_eq_setD by blast

lemma hpts_merge_busy [simp, fl_simps]: "hpts (merge_busy ivs) = hpts ivs"
  by (simp add: merge_busy_def hpts_merge_loop hpts_mset [OF mset_sort])

lemma normal_merge_intervals [simp, fl_inv]: "normal 1 (merge_intervals ivs)"
  by (simp add: merge_intervals_def merge_loop_normal normal_acc_def)

lemma normal_merge_busy: "\<forall>i\<in>set ivs. fst i \<le> snd i \<Longrightarrow> normal 0 (merge_busy ivs)"
  by (simp add: merge_busy_def merge_loop_normal normal_acc_def)

subsection \<open>Normal forms are unique\<close>

lemma normal_pts_lower: "normal 1 ((s, e) # ivs) \<Longrightarrow> x \<in> pts ivs \<Longrightarrow> e + 1 < x"
  by (fastforce simp: normal_Cons pts_iff)

lemma normal_pts_Nil: "normal g ivs \<Longrightarrow> pts ivs = {} \<Longrightarrow> ivs = []"
  by (cases ivs) (auto simp: normal_Cons)

text \<open>The first interval of a normal form is determined by the set it covers.\<close>

lemma normal_first:
  assumes n1: "normal 1 ((s, e) # xs)" and n2: "normal 1 ((t, f) # ys)"
    and eq: "pts ((s, e) # xs) = pts ((t, f) # ys)"
  shows "s = t \<and> e = f"
proof -
  from n1 n2 have le: "s \<le> e" "t \<le> f" by (auto simp: normal_Cons)
  have sx: "x \<in> pts ((s, e) # xs) \<Longrightarrow> s \<le> x \<and> (x \<le> e \<or> e + 1 < x)" for x
    using normal_pts_lower [OF n1] le by fastforce
  have ty: "x \<in> pts ((t, f) # ys) \<Longrightarrow> t \<le> x \<and> (x \<le> f \<or> f + 1 < x)" for x
    using normal_pts_lower [OF n2] le by fastforce
  have "s \<in> pts ((t, f) # ys)" "t \<in> pts ((s, e) # xs)"
    using le eq by auto
  with sx [of t] ty [of s] have st: "s = t" by linarith
  have "e \<le> f"
  proof (rule ccontr)
    assume "\<not> e \<le> f"
    with st le have "f + 1 \<in> pts ((s, e) # xs)" by simp
    with eq ty [of "f + 1"] show False by simp
  qed
  moreover have "f \<le> e"
  proof (rule ccontr)
    assume "\<not> f \<le> e"
    with st le have "e + 1 \<in> pts ((t, f) # ys)" by simp
    with eq sx [of "e + 1"] show False by simp
  qed
  ultimately show ?thesis using st by simp
qed

lemma normal_unique:
  "normal 1 xs \<Longrightarrow> normal 1 ys \<Longrightarrow> pts xs = pts ys \<Longrightarrow> xs = ys"
proof (induction xs arbitrary: ys)
  case Nil
  then show ?case using normal_pts_Nil by fastforce
next
  case (Cons x xs)
  obtain s e where x: "x = (s, e)" by (cases x)
  have "s \<in> pts (x # xs)" using Cons.prems(1) x by (auto simp: normal_Cons)
  then have "ys \<noteq> []" using Cons.prems(3) by auto
  then obtain t f zs where ys: "ys = (t, f) # zs" by (metis list.exhaust surj_pair)
  have same: "s = t \<and> e = f"
    using normal_first Cons.prems x ys by blast
  have dis: "pts xs = pts (x # xs) - {s..e}" "pts zs = pts ys - {s..e}"
    using normal_pts_lower [of s e xs] normal_pts_lower [of s e zs] Cons.prems(1,2) x ys same
    by fastforce+
  then have "pts xs = pts zs" using Cons.prems(3) by simp
  then show ?case using Cons.IH [of zs] Cons.prems x ys same by (simp add: normal_Cons)
qed

lemma merge_intervals_normal_id [simp]: "normal 1 ivs \<Longrightarrow> merge_intervals ivs = ivs"
  by (rule normal_unique) simp_all

subsection \<open>Subtraction\<close>

lemma pts_cut_one: "pts (cut_one b a) = {fst a..snd a} - {fst b..snd b}"
  if "fst b \<le> snd b"
  using that by (cases a; cases b) auto

lemma pts_concat_cut:
  "fst b \<le> snd b \<Longrightarrow> pts (concat (map (cut_one b) as)) = pts as - {fst b..snd b}"
  by (induction as) (auto simp: pts_cut_one)

lemma cut_one_within:
  "fst b \<le> snd b \<Longrightarrow> fst a \<le> snd a \<Longrightarrow> i \<in> set (cut_one b a) \<Longrightarrow>
   fst a \<le> fst i \<and> snd i \<le> snd a \<and> fst i \<le> snd i"
  by (cases a; cases b) (auto split: if_splits)

lemma normal_cut_one: "fst b \<le> snd b \<Longrightarrow> fst a \<le> snd a \<Longrightarrow> normal 1 (cut_one b a)"
  by (cases a; cases b) (auto simp: normal_Cons)

lemma normal_append:
  "normal g xs \<Longrightarrow> normal g ys \<Longrightarrow> \<forall>x\<in>set xs. \<forall>y\<in>set ys. snd x + g < fst y \<Longrightarrow> normal g (xs @ ys)"
  by (auto simp: normal_def sorted_wrt_append)

lemma normal_concat_cut:
  "fst b \<le> snd b \<Longrightarrow> normal 1 as \<Longrightarrow> normal 1 (concat (map (cut_one b) as))"
proof (induction as)
  case (Cons a as)
  from Cons.prems have a: "fst a \<le> snd a" and rest: "\<forall>i\<in>set as. snd a + 1 < fst i"
    and nas: "normal 1 as"
    by (auto simp: normal_def)
  have "\<forall>x\<in>set (cut_one b a). \<forall>y\<in>set (concat (map (cut_one b) as)). snd x + 1 < fst y"
  proof (intro ballI)
    fix x y assume x: "x \<in> set (cut_one b a)" and "y \<in> set (concat (map (cut_one b) as))"
    then obtain a' where a': "a' \<in> set as" "y \<in> set (cut_one b a')" by auto
    have "fst a' \<le> snd a'" using nas a'(1) by (auto simp: normal_def)
    then have "fst a' \<le> fst y" using cut_one_within Cons.prems(1) a'(2) by blast
    moreover have "snd x \<le> snd a" using cut_one_within Cons.prems(1) a x by blast
    ultimately show "snd x + 1 < fst y" using rest a'(1) by fastforce
  qed
  with Cons.IH [OF Cons.prems(1) nas] normal_cut_one [OF Cons.prems(1) a]
  show ?case by (simp add: normal_append)
qed simp

lemma fold_cut:
  "\<forall>b\<in>set bs. fst b \<le> snd b \<Longrightarrow> normal 1 as \<Longrightarrow>
   pts (fold (\<lambda>b r. concat (map (cut_one b) r)) bs as) = pts as - pts bs
   \<and> normal 1 (fold (\<lambda>b r. concat (map (cut_one b) r)) bs as)"
proof (induction bs arbitrary: as)
  case (Cons b bs)
  have "normal 1 (concat (map (cut_one b) as))"
    using Cons.prems normal_concat_cut by simp
  with Cons.IH [of "concat (map (cut_one b) as)"] Cons.prems
  show ?case by (cases b) (auto simp: pts_concat_cut)
qed simp

lemma merge_intervals_valid: "i \<in> set (merge_intervals ivs) \<Longrightarrow> fst i \<le> snd i"
  using normal_merge_intervals [of ivs] by (auto simp: normal_def)

lemma pts_subtract_intervals [simp, fl_simps]:
  "pts (subtract_intervals allowed blocked) = pts allowed - pts blocked"
  using fold_cut [of "merge_intervals blocked" "merge_intervals allowed"]
  by (simp add: subtract_intervals_def merge_intervals_valid)

lemma normal_subtract_intervals [simp, fl_inv]: "normal 1 (subtract_intervals allowed blocked)"
  using fold_cut [of "merge_intervals blocked" "merge_intervals allowed"]
  by (simp add: subtract_intervals_def merge_intervals_valid)

lemma subtract_intervals_empty_iff:
  "subtract_intervals allowed blocked = [] \<longleftrightarrow> pts allowed \<subseteq> pts blocked"
  using normal_pts_Nil [OF normal_subtract_intervals [of allowed blocked]]
  by (metis Diff_eq_empty_iff pts_simps(1) pts_subtract_intervals)

subsection \<open>Overlap of half-open calendars\<close>

lemma intervals_overlap_iff:
  assumes "\<forall>i\<in>set left. fst i < snd i" "\<forall>i\<in>set right. fst i < snd i"
  shows "intervals_overlap left right \<longleftrightarrow> hpts left \<inter> hpts right \<noteq> {}"
proof
  assume "intervals_overlap left right"
  then obtain a b where ab: "a \<in> set left" "b \<in> set right" "fst a < snd b" "fst b < snd a"
    by (auto simp: intervals_overlap_def list_ex_iff)
  let ?x = "max (fst a) (fst b)"
  have "?x \<in> hpts left" "?x \<in> hpts right"
    using ab assms unfolding hpts_iff by force+
  then show "hpts left \<inter> hpts right \<noteq> {}" by blast
next
  assume "hpts left \<inter> hpts right \<noteq> {}"
  then obtain x a b where "a \<in> set left" "b \<in> set right" "fst a \<le> x" "x < snd a" "fst b \<le> x" "x < snd b"
    by (auto simp: hpts_iff)
  then show "intervals_overlap left right"
    by (force simp: intervals_overlap_def list_ex_iff split_beta)
qed

subsection \<open>The interface the filters use\<close>

text \<open>
  A filter that computes admissible or blocked times relies on nothing but the sets: merging keeps
  the set and removes empty intervals, subtraction is set difference.
\<close>

locale interval_ops =
  fixes merge :: "interval list \<Rightarrow> interval list"
    and subtract :: "interval list \<Rightarrow> interval list \<Rightarrow> interval list"
  assumes merge_pts: "pts (merge ivs) = pts ivs"
    and merge_valid: "i \<in> set (merge ivs) \<Longrightarrow> fst i \<le> snd i"
    and subtract_pts: "pts (subtract as bs) = pts as - pts bs"
    and subtract_valid: "i \<in> set (subtract as bs) \<Longrightarrow> fst i \<le> snd i"
begin

lemma merge_empty_iff: "merge ivs = [] \<longleftrightarrow> pts ivs = {}"
proof
  assume e: "pts ivs = {}"
  show "merge ivs = []"
  proof (rule ccontr)
    assume "merge ivs \<noteq> []"
    then obtain i where "i \<in> set (merge ivs)" using nonempty_mem by blast
    then have "fst i \<in> pts (merge ivs)" using merge_valid by (fastforce simp: pts_iff)
    with e show False by (simp add: merge_pts)
  qed
qed (metis merge_pts pts_simps(1))

lemma subtract_empty_iff: "subtract as bs = [] \<longleftrightarrow> pts as \<subseteq> pts bs"
proof -
  have "subtract as bs = [] \<longleftrightarrow> pts (subtract as bs) = {}"
  proof
    assume e: "pts (subtract as bs) = {}"
    show "subtract as bs = []"
    proof (rule ccontr)
      assume "subtract as bs \<noteq> []"
      then obtain i where "i \<in> set (subtract as bs)" using nonempty_mem by blast
      then have "fst i \<in> pts (subtract as bs)" using subtract_valid by (fastforce simp: pts_iff)
      with e show False by simp
    qed
  qed simp
  then show ?thesis by (simp add: subtract_pts)
qed

text \<open>What is left after taking the compliant times out of a horizon is exactly the gaps.\<close>

lemma gaps_partition:
  "pts ivs \<subseteq> pts hz \<Longrightarrow> pts (subtract hz (merge ivs)) \<union> pts ivs = pts hz
     \<and> pts (subtract hz (merge ivs)) \<inter> pts ivs = {}"
  by (auto simp: subtract_pts merge_pts)

end

interpretation iv: interval_ops merge_intervals subtract_intervals
proof unfold_locales
  show "i \<in> set (subtract_intervals as bs) \<Longrightarrow> fst i \<le> snd i" for i as bs
    using normal_subtract_intervals [of as bs] by (auto simp: normal_def)
qed (auto simp: merge_intervals_valid)

subsection \<open>Properties\<close>

text \<open>\<open>merge_intervals\<close> returns the canonical form of a set of seconds: whatever the input
  (unsorted, overlapping, adjacent or inverted intervals), the result is the only list of valid
  intervals, in ascending order and more than one second apart, that covers the same seconds.\<close>

theorem merge_intervals_canonical:
  "normal 1 ns \<and> pts ns = pts ivs \<longleftrightarrow> ns = merge_intervals ivs"
  using normal_unique [of ns "merge_intervals ivs"] by auto

text \<open>\<open>subtract_intervals\<close> is exact: the result covers a second iff the allowed intervals cover
  it and no blocked interval does, and the result is in canonical form.\<close>

theorem subtract_intervals_exact:
  "pts (subtract_intervals allowed blocked) = pts allowed - pts blocked
   \<and> normal 1 (subtract_intervals allowed blocked)"
  by simp

end
