(* ===== verification/Rows.thy ===== *)
theory Rows
  imports Prelude
begin

text \<open>
  The typed rows of the solver chain (\<open>solver/types.py\<close>) and the canonical enumerations and plan
  records (\<open>canonical/enums.py\<close>, \<open>canonical/plan.py\<close>) the model's operations read and write, with
  the shared parsers of the loosely typed columns.
\<close>

subsection \<open>Enumerations\<close>

datatype reason_code =
    NO_COMPATIBLE_BUNDLE | INSUFFICIENT_POWER | NO_AVAILABLE_OPERATOR | NO_AVAILABLE_ASSET
  | NO_VALID_WEATHER_WINDOW | INSUFFICIENT_MATERIAL | CONTRACT_WINDOW_INFEASIBLE
  | PREDECESSOR_UNSERVED | RESTRICTED_ZONE | LOCATION_DATA_INVALID | FIELD_GEOMETRY_INVALID
  | QUALITY_POLICY_BLOCK | MANUAL_OVERRIDE_CONFLICT | OPTIMIZATION_TRADEOFF | UNKNOWN

datatype reservation_status = PROVISIONAL | CONFIRMED | CONSUMED | RELEASED

datatype corrective_action_type =
    REASSIGNED_AFTER_ASSET_LOSS | SERVICE_WITHDRAWN | SERVICE_ESCALATED

subsection \<open>Loosely typed columns\<close>

text \<open>
  A list column (time windows, operation codes) holds nothing, a string (a CSV source keeps a
  stringified list) or a list.
\<close>

datatype raw_items = RNone | RText string | RItems "py_val list"

text \<open>\<open>_as_list\<close>: a string that is not a literal list stands for itself.\<close>

fun as_list :: "runtime \<Rightarrow> raw_items \<Rightarrow> py_val list" where
  "as_list rt RNone = []"
| "as_list rt (RText raw) =
     (if py_strip raw = [] then []
      else case literal_eval rt raw of
             Some (VList parsed) \<Rightarrow> parsed
           | _ \<Rightarrow> [VStr raw])"
| "as_list rt (RItems xs) = xs"

text \<open>A workable window: its start and, unless it is open-ended, its end.\<close>

type_synonym time_window = "real \<times> real option"

definition parse_window :: "runtime \<Rightarrow> py_val \<Rightarrow> time_window option" where
  "parse_window rt item =
     (case split_once (CHR ''/'') (py_str rt item) of
        None \<Rightarrow> None
      | Some (p0, p1) \<Rightarrow>
          if p0 = [] then None
          else case fromisoformat rt p0 of
                 None \<Rightarrow> None
               | Some start \<Rightarrow>
                   if p1 = [] then Some (start, None)
                   else case fromisoformat rt p1 of
                          None \<Rightarrow> None
                        | Some end \<Rightarrow> Some (start, Some end))"

definition parse_time_windows :: "runtime \<Rightarrow> raw_items \<Rightarrow> time_window list" where
  "parse_time_windows rt raw = List.map_filter (parse_window rt) (as_list rt raw)"

definition parse_deadline :: "runtime \<Rightarrow> string option \<Rightarrow> real option" where
  "parse_deadline rt raw =
     (case raw of None \<Rightarrow> None | Some s \<Rightarrow> if s = [] then None else fromisoformat rt s)"

text \<open>ASCII \<open>str.upper()\<close> and \<open>str.lower()\<close>.\<close>

definition upper_char :: "char \<Rightarrow> char" where
  "upper_char c = (let n = of_char c :: nat in if 97 \<le> n \<and> n \<le> 122 then char_of (n - 32) else c)"

definition lower_char :: "char \<Rightarrow> char" where
  "lower_char c = (let n = of_char c :: nat in if 65 \<le> n \<and> n \<le> 90 then char_of (n + 32) else c)"

definition py_upper :: "string \<Rightarrow> string" where
  "py_upper s = map upper_char s"

definition py_lower :: "string \<Rightarrow> string" where
  "py_lower s = map lower_char s"

text \<open>
  \<open>operation_set\<close> / \<open>_as_strings\<close> (\<open>ops_set\<close> in \<open>enforcement.py\<close>): the normalised operation codes,
  as a list without repetitions (the source builds a set and only tests membership and counts).
\<close>

fun operation_items :: "runtime \<Rightarrow> raw_items \<Rightarrow> py_val list" where
  "operation_items rt RNone = [VNone]"
| "operation_items rt (RText raw) =
     (case literal_eval rt raw of
        None \<Rightarrow> [VStr raw]
      | Some (VList xs) \<Rightarrow> xs
      | Some v \<Rightarrow> [v])"
| "operation_items rt (RItems xs) = xs"

definition ops_set :: "runtime \<Rightarrow> raw_items \<Rightarrow> string list" where
  "ops_set rt raw =
     remdups (map (\<lambda>item. py_upper (py_str rt item))
       (filter (\<lambda>item. truthy item \<and> py_str rt item \<noteq> []) (operation_items rt raw)))"

subsection \<open>Solver rows\<close>

text \<open>
  Every row class, with all its fields in the order of the source. A list-valued column of
  operation codes or windows is a \<open>raw_items\<close>, a column that holds a mapping or a geometry is a
  \<open>py_val\<close>.
\<close>

record prime_mover_row =
  pm_asset_id :: string
  pm_asset_type :: string
  pm_name :: string
  pm_home_depot_ref :: string
  pm_lat :: real
  pm_lon :: real
  rated_power :: real
  fuel_tank_volume :: real
  fuel_consumption_rate :: real
  pm_energy_resource_type :: string
  pm_energy_unit :: string
  energy_capacity :: real
  energy_consumption_rate :: real
  machine_wear_eur_per_h :: real
  travel_speed :: real
  load_capacity :: real
  load_capacities :: py_val
  pm_compatible_operations :: raw_items

record related_row =
  rel_asset_id :: string
  rel_asset_type :: string
  rel_name :: string
  rel_home_depot_ref :: string
  required_power :: real
  working_width :: real
  min_speed :: real
  max_speed :: real
  material_capacity :: real
  work_rates :: py_val
  rel_compatible_operations :: raw_items

record operator_row =
  op_asset_id :: string
  op_name :: string
  op_home_depot_ref :: string
  shift_start :: string
  shift_end :: string
  wage_eur_per_h :: real
  certified_operations :: raw_items

record site_row =
  site_id :: string
  site_location_type :: string
  site_name :: string
  site_lat :: real
  site_lon :: real
  site_area :: real
  soil_type :: string
  site_polygon :: py_val
  restricted_operations :: raw_items
  restriction_windows :: raw_items

record depot_row =
  depot_id :: string
  depot_name :: string
  depot_lat :: real
  depot_lon :: real
  inventory_fuel :: real
  inventory_material :: real
  inventory_energy :: real
  depot_energy_resource_type :: string
  depot_energy_unit :: string

record forecast_row =
  forecast_id :: string
  fc_lat :: real
  fc_lon :: real
  valid_from :: "string option"
  valid_to :: "string option"
  wind_speed :: "real option"
  precipitation_rate :: "real option"
  soil_moisture :: "real option"

record task_row =
  task_id :: string
  order_ref :: string
  alternative_group_ref :: string
  location_ref :: string
  operation_type :: string
  area :: real
  work_area_geometry :: py_val
  covered_geometry :: py_val
  work_quantity :: real
  work_quantity_unit :: string
  service_duration_min :: real
  time_windows :: raw_items
  depends_on_task_ref :: string
  load_demand :: real
  load_material :: string
  pickup_location_ref :: string
  deadline :: "string option"
  penalty_per_day :: real
  priority_class :: string
  task_status :: string
  revenue :: real

text \<open>Concrete rows for the closed instances of the theorems; a field that is not set has the
  default of its class.\<close>

definition sample_task :: task_row where
  "sample_task =
     \<lparr>task_id = ''A'', order_ref = '''', alternative_group_ref = '''', location_ref = ''field'',
      operation_type = ''SPRAY'', area = 10, work_area_geometry = VList [],
      covered_geometry = VList [], work_quantity = 0, work_quantity_unit = '''',
      service_duration_min = 0, time_windows = RItems [], depends_on_task_ref = '''',
      load_demand = 0, load_material = '''', pickup_location_ref = '''', deadline = None,
      penalty_per_day = 5, priority_class = '''', task_status = '''', revenue = 100\<rparr>"

definition sample_operator :: operator_row where
  "sample_operator =
     \<lparr>op_asset_id = ''op1'', op_name = '''', op_home_depot_ref = ''depot'', shift_start = '''',
      shift_end = '''', wage_eur_per_h = 0, certified_operations = RItems []\<rparr>"

definition sample_depot :: depot_row where
  "sample_depot =
     \<lparr>depot_id = ''depot'', depot_name = '''', depot_lat = 0, depot_lon = 0, inventory_fuel = 0,
      inventory_material = 30, inventory_energy = 0, depot_energy_resource_type = '''',
      depot_energy_unit = ''''\<rparr>"

text \<open>
  A cluster specification. \<open>operator_ref\<close> is \<open>''''\<close> when the key is absent (the source reads it
  with \<open>get("operator_ref")\<close> and tests its truth), \<open>task_operators\<close> and
  \<open>shared_backup_operators\<close> are \<open>[]\<close> when absent.
\<close>

record cluster_spec =
  cluster_id :: string
  depot_ref :: string
  task_ids :: "string list"
  allocated_prime_related :: "(string, string list) dict"
  operator_ref :: string
  task_operators :: "(string, string) dict"
  shared_backup_operators :: "string list"
  total_penalty_per_day :: real

definition sample_cluster :: cluster_spec where
  "sample_cluster =
     \<lparr>cluster_id = ''c1'', depot_ref = ''depot'', task_ids = [''A''], allocated_prime_related = [],
      operator_ref = ''op1'', task_operators = [], shared_backup_operators = [],
      total_penalty_per_day = 5\<rparr>"

subsection \<open>Infeasible tasks\<close>

text \<open>
  The human-readable \<open>detail\<close> of an exclusion is the message's template with its arguments.
\<close>

datatype detail =
    NoWorkableWindow
  | PredecessorExcluded string
  | PredecessorNotServed string
  | OperationProhibited string string
  | IntersectsRestricted string string string
  | RestrictedShare string string real
  | WindowsBlockStart string
  | NoForecastWindow "string list" string
  | NoForecastCoverage int int string
  | NoQualifiedOperator string string
  | NotEnoughMaterial real string string real
  | NotAssigned
  | NoAlternativeRouted string "string list"
  | OrdersNotFound
  | DepotNotFound string
  | NoFeasiblePairs
  | BundleCannotServe string string
  | NoSolutionInTime
  | NoTasks
  | UnhandledException string
  | WorkerCrashed string
  | NotCompletedWithin int
  | GroupNotCompletedWithin int
  | NoDeliveryAlternative string "string list"

record infeasible =
  inf_task_id :: string
  inf_cluster_id :: string
  reason :: reason_code
  inf_detail :: detail

definition mk_infeasible :: "string \<Rightarrow> string \<Rightarrow> reason_code \<Rightarrow> detail \<Rightarrow> infeasible" where
  "mk_infeasible t c r d = \<lparr>inf_task_id = t, inf_cluster_id = c, reason = r, inf_detail = d\<rparr>"

lemma mk_infeasible_sel [simp]:
  "inf_task_id (mk_infeasible t c r d) = t" "inf_cluster_id (mk_infeasible t c r d) = c"
  "reason (mk_infeasible t c r d) = r" "inf_detail (mk_infeasible t c r d) = d"
  by (simp_all add: mk_infeasible_def)

subsection \<open>Lemmas about the parsers\<close>

lemma parse_time_windows_Nil [simp]:
  "parse_time_windows rt RNone = []" "parse_time_windows rt (RItems []) = []"
  by (simp_all add: parse_time_windows_def List.map_filter_def)

lemma parse_time_windows_RItems:
  "parse_time_windows rt (RItems xs) = List.map_filter (parse_window rt) xs"
  by (simp add: parse_time_windows_def)

lemma distinct_ops_set [simp]: "distinct (ops_set rt raw)"
  by (simp add: ops_set_def)

lemma ops_set_nonempty: "[] \<notin> set (ops_set rt raw)"
  by (auto simp: ops_set_def py_upper_def)

lemma ops_set_RNone [simp]: "ops_set rt RNone = []"
  by (simp add: ops_set_def)

end
