(* ===== verification/TaskRelations.thy ===== *)
theory TaskRelations
  imports Rows
begin

text \<open>
  Workable windows and precedence (\<open>solver/task_relations.py\<close>): the pre-solve filter on time
  windows, the transitive exclusion of the dependents of an excluded task, and the post-solve
  withdrawal of dispatches whose predecessor is not served. The lemmas characterise the two
  loops as the least set of doomed tasks and as the greatest set of dispatches closed under
  precedence.
\<close>

subsection \<open>Time-window filter\<close>

definition window_usable :: "real \<Rightarrow> real option \<Rightarrow> time_window \<Rightarrow> bool" where
  "window_usable now dl w =
     ((case snd w of None \<Rightarrow> True | Some end \<Rightarrow> end > now)
      \<and> (case dl of None \<Rightarrow> True | Some d \<Rightarrow> fst w \<le> d))"

fun apply_time_window_filter ::
  "runtime \<Rightarrow> task_row list \<Rightarrow> real \<Rightarrow> task_row list \<times> infeasible list" where
  "apply_time_window_filter rt [] now = ([], [])"
| "apply_time_window_filter rt (order # orders) now =
     (let (kept, infs) = apply_time_window_filter rt orders now;
          windows = parse_time_windows rt (time_windows order)
      in if windows = [] then (order # kept, infs)
         else if list_ex (window_usable now (parse_deadline rt (deadline order))) windows
         then (order # kept, infs)
         else (kept, mk_infeasible (task_id order) '''' CONTRACT_WINDOW_INFEASIBLE NoWorkableWindow
                       # infs))"

subsection \<open>Dependency filter\<close>

text \<open>One pass of the loop: the remaining tasks, the new exclusions and the excluded ids.\<close>

fun dependency_pass ::
  "task_row list \<Rightarrow> string set \<Rightarrow> task_row list \<times> infeasible list \<times> string set" where
  "dependency_pass [] excluded = ([], [], excluded)"
| "dependency_pass (order # kept) excluded =
     (let predecessor = depends_on_task_ref order in
      if predecessor \<noteq> [] \<and> predecessor \<in> excluded then
        (let (remaining, infs, ex) = dependency_pass kept (insert (task_id order) excluded)
         in (remaining,
             mk_infeasible (task_id order) '''' PREDECESSOR_UNSERVED
               (PredecessorExcluded predecessor) # infs, ex))
      else
        (let (remaining, infs, ex) = dependency_pass kept excluded
         in (order # remaining, infs, ex)))"

lemma dependency_pass_length:
  "length (fst (dependency_pass kept ex)) + length (fst (snd (dependency_pass kept ex))) = length kept"
  by (induction kept ex rule: dependency_pass.induct) (auto simp: Let_def split: prod.splits)

text \<open>The \<open>while changed\<close> loop: a pass changed something exactly when it excluded a task.\<close>

function dependency_loop ::
  "task_row list \<Rightarrow> infeasible list \<Rightarrow> string set \<Rightarrow> task_row list \<times> infeasible list" where
  "dependency_loop kept infs excluded =
     (case dependency_pass kept excluded of (remaining, new, ex) \<Rightarrow>
        if new = [] then (remaining, infs) else dependency_loop remaining (infs @ new) ex)"
  by pat_completeness auto
termination
proof (relation "measure (\<lambda>(kept, infs, ex). length kept)", goal_cases)
  case (2 kept infs excluded remaining y new ex)
  then show ?case
    using dependency_pass_length [of kept excluded] by (cases new) (auto dest!: sym [of "(_, _)"])
qed simp

declare dependency_loop.simps [simp del]

definition apply_dependency_filter ::
  "task_row list \<Rightarrow> string set \<Rightarrow> task_row list \<times> infeasible list" where
  "apply_dependency_filter orders excluded_task_ids = dependency_loop orders [] excluded_task_ids"

subsection \<open>Dependency outcomes\<close>

text \<open>The fields of a dispatch package this pass reads.\<close>

record dispatch =
  d_task_id :: string
  d_cluster_id :: string

text \<open>\<open>predecessor_of\<close>: a later row with the same task id wins, as in the dict comprehension.\<close>

definition predecessor_of :: "task_row list \<Rightarrow> string \<Rightarrow> string" where
  "predecessor_of orders t =
     (case map_of (rev (map (\<lambda>r. (task_id r, depends_on_task_ref r)) orders)) t of
        None \<Rightarrow> '''' | Some p \<Rightarrow> p)"

definition violates :: "task_row list \<Rightarrow> 'a dispatch_scheme list \<Rightarrow> 'a dispatch_scheme \<Rightarrow> bool" where
  "violates orders out d \<longleftrightarrow>
     (let p = predecessor_of orders (d_task_id d) in
      p \<noteq> [] \<and> p \<in> task_id ` set orders \<and> p \<notin> d_task_id ` set out)"

definition withdrawal :: "task_row list \<Rightarrow> 'a dispatch_scheme \<Rightarrow> infeasible" where
  "withdrawal orders d =
     mk_infeasible (d_task_id d) (d_cluster_id d) PREDECESSOR_UNSERVED
       (PredecessorNotServed (predecessor_of orders (d_task_id d)))"

lemma fold_remove1_filter: "fold remove1 (filter P xs) xs = filter (\<lambda>x. \<not> P x) xs"
proof -
  have keep: "\<not> P x \<Longrightarrow> \<forall>y\<in>set ys. P y \<Longrightarrow> fold remove1 ys (x # xs) = x # fold remove1 ys xs"
    for x and ys xs :: "'a list"
    by (induction ys arbitrary: xs) auto
  show ?thesis by (induction xs) (auto simp: keep)
qed

function outcome_loop ::
  "task_row list \<Rightarrow> 'a dispatch_scheme list \<Rightarrow> infeasible list \<Rightarrow> 'a dispatch_scheme list \<times> infeasible list" where
  "outcome_loop orders out extra =
     (let violating = filter (violates orders out) out in
      if violating = [] then (out, extra)
      else outcome_loop orders (fold remove1 violating out)
             (extra @ map (withdrawal orders) violating))"
  by pat_completeness auto
termination
proof (relation "measure (\<lambda>(orders, out, extra). length out)")
  fix orders out extra and violating :: "'a dispatch_scheme list"
  assume v: "violating = filter (violates orders out) out" "violating \<noteq> []"
  then have "filter (\<lambda>x. \<not> violates orders out x) out \<noteq> out"
    by (metis filter_False filter_id_conv)
  then have "length (filter (\<lambda>x. \<not> violates orders out x) out) < length out"
    by (metis (no_types, lifting) length_filter_le length_filter_less filter_id_conv le_neq_implies_less)
  then show "((orders, fold remove1 violating out, extra @ map (withdrawal orders) violating),
      orders, out, extra) \<in> measure (\<lambda>(orders, out, extra). length out)"
    by (simp add: v(1) fold_remove1_filter)
qed simp

declare outcome_loop.simps [simp del]

definition enforce_dependency_outcomes ::
  "'a dispatch_scheme list \<Rightarrow> infeasible list \<Rightarrow> task_row list \<Rightarrow> 'a dispatch_scheme list \<times> infeasible list" where
  "enforce_dependency_outcomes dispatch infeasible orders =
     (case outcome_loop orders dispatch [] of (out, extra) \<Rightarrow> (out, infeasible @ extra))"

subsection \<open>The time-window filter splits the tasks\<close>

definition meets_window :: "runtime \<Rightarrow> real \<Rightarrow> task_row \<Rightarrow> bool" where
  "meets_window rt now t \<longleftrightarrow>
     parse_time_windows rt (time_windows t) = [] \<or>
     (\<exists>w\<in>set (parse_time_windows rt (time_windows t)).
        window_usable now (parse_deadline rt (deadline t)) w)"

lemma time_window_filter_eq [fl_simps]:
  "apply_time_window_filter rt orders now =
     (filter (meets_window rt now) orders,
      map (\<lambda>t. mk_infeasible (task_id t) '''' CONTRACT_WINDOW_INFEASIBLE NoWorkableWindow)
        (filter (\<lambda>t. \<not> meets_window rt now t) orders))"
  by (induction rt orders now rule: apply_time_window_filter.induct)
     (auto simp: Let_def meets_window_def list_ex_iff)

subsection \<open>The dependency filter computes the least set of doomed tasks\<close>

inductive doomed :: "task_row list \<Rightarrow> string set \<Rightarrow> string \<Rightarrow> bool" for orders ex where
  excluded: "p \<in> ex \<Longrightarrow> doomed orders ex p"
| dependent: "t \<in> set orders \<Longrightarrow> depends_on_task_ref t \<noteq> [] \<Longrightarrow>
    doomed orders ex (depends_on_task_ref t) \<Longrightarrow> doomed orders ex (task_id t)"

definition survives :: "task_row list \<Rightarrow> string set \<Rightarrow> task_row \<Rightarrow> bool" where
  "survives orders ex t \<longleftrightarrow>
     depends_on_task_ref t = [] \<or> \<not> doomed orders ex (depends_on_task_ref t)"

text \<open>One pass, stated with the ids it may exclude (\<open>D\<close>) and what it leaves behind.\<close>

lemma dependency_pass_spec:
  assumes "dependency_pass kept ex = (remaining, new, ex')"
    and "ex \<subseteq> Collect D"
    and "\<And>t. t \<in> set kept \<Longrightarrow> depends_on_task_ref t \<noteq> [] \<Longrightarrow> D (depends_on_task_ref t) \<Longrightarrow> D (task_id t)"
  shows "ex \<subseteq> ex' \<and> ex' \<subseteq> Collect D \<and> set remaining \<subseteq> set kept
    \<and> (\<forall>t\<in>set kept - set remaining. depends_on_task_ref t \<noteq> [] \<and> D (depends_on_task_ref t)
          \<and> task_id t \<in> ex')
    \<and> filter (\<lambda>t. depends_on_task_ref t = [] \<or> \<not> D (depends_on_task_ref t)) remaining
        = filter (\<lambda>t. depends_on_task_ref t = [] \<or> \<not> D (depends_on_task_ref t)) kept
    \<and> (new = [] \<longrightarrow> remaining = kept \<and> ex' = ex
          \<and> (\<forall>t\<in>set kept. depends_on_task_ref t = [] \<or> depends_on_task_ref t \<notin> ex))
    \<and> (\<forall>i\<in>set new. reason i = PREDECESSOR_UNSERVED)"
  using assms
proof (induction kept arbitrary: ex remaining new ex')
  case Nil
  then show ?case by auto
next
  case (Cons t kept)
  let ?p = "depends_on_task_ref t"
  have D: "\<And>u. u \<in> set kept \<Longrightarrow> depends_on_task_ref u \<noteq> [] \<Longrightarrow> D (depends_on_task_ref u) \<Longrightarrow> D (task_id u)"
    using Cons.prems(3) by auto
  show ?case
  proof (cases "?p \<noteq> [] \<and> ?p \<in> ex")
    case True
    obtain r n e where p: "dependency_pass kept (insert (task_id t) ex) = (r, n, e)"
      by (metis prod_cases3)
    have Dp: "D ?p" "D (task_id t)" using True Cons.prems(2,3) by auto
    then have "insert (task_id t) ex \<subseteq> Collect D" using Cons.prems(2) by auto
    from Cons.IH [OF p this D] True p Cons.prems(1) Dp show ?thesis
      by (auto simp: Let_def)
  next
    case False
    obtain r n e where p: "dependency_pass kept ex = (r, n, e)"
      by (metis prod_cases3)
    from Cons.IH [OF p Cons.prems(2) D] False p Cons.prems(1) show ?thesis
      by (auto simp: Let_def split: if_splits)
  qed
qed

lemma dependency_loop_spec:
  assumes "ex \<subseteq> Collect (doomed orders ex0)" "ex0 \<subseteq> ex" "set kept \<subseteq> set orders"
    and "\<forall>t\<in>set orders - set kept. depends_on_task_ref t \<noteq> [] \<and>
           doomed orders ex0 (depends_on_task_ref t) \<and> task_id t \<in> ex"
    and "filter (survives orders ex0) kept = filter (survives orders ex0) orders"
  shows "fst (dependency_loop kept infs ex) = filter (survives orders ex0) orders
    \<and> (\<exists>new. snd (dependency_loop kept infs ex) = infs @ new
          \<and> (\<forall>i\<in>set new. reason i = PREDECESSOR_UNSERVED))"
  using assms
proof (induction kept infs ex rule: dependency_loop.induct)
  case (1 kept infs ex)
  let ?D = "doomed orders ex0"
  obtain remaining new ex' where p: "dependency_pass kept ex = (remaining, new, ex')"
    by (metis prod_cases3)
  have step: "t \<in> set kept \<Longrightarrow> depends_on_task_ref t \<noteq> [] \<Longrightarrow> ?D (depends_on_task_ref t) \<Longrightarrow>
      ?D (task_id t)" for t
    using "1.prems"(3) doomed.dependent by blast
  note spec = dependency_pass_spec [OF p "1.prems"(1) step]
  have surv: "survives orders ex0 = (\<lambda>t. depends_on_task_ref t = [] \<or> \<not> ?D (depends_on_task_ref t))"
    by (auto simp: survives_def)
  show ?case
  proof (cases "new = []")
    case True
    have closed: "?D x \<Longrightarrow> x \<in> ex" for x
    proof (induction rule: doomed.induct)
      case (excluded q)
      then show ?case using "1.prems"(2) by auto
    next
      case (dependent t)
      then show ?case using spec True "1.prems"(4) by (cases "t \<in> set kept") auto
    qed
    then have "filter (survives orders ex0) kept = kept"
      using spec True by (auto simp: surv filter_id_conv)
    then show ?thesis
      using True p spec "1.prems"(5) by (simp add: dependency_loop.simps [of kept])
  next
    case False
    have "fst (dependency_loop remaining (infs @ new) ex') = filter (survives orders ex0) orders
        \<and> (\<exists>n. snd (dependency_loop remaining (infs @ new) ex') = (infs @ new) @ n
              \<and> (\<forall>i\<in>set n. reason i = PREDECESSOR_UNSERVED))"
    proof (rule "1.IH" [OF p [symmetric] refl False])
      show "filter (survives orders ex0) remaining = filter (survives orders ex0) orders"
        using spec "1.prems"(5) by (simp add: surv)
    qed (use spec "1.prems" in \<open>auto simp: subset_iff\<close>)
    with False p spec show ?thesis
      by (auto simp: dependency_loop.simps [of kept])
  qed
qed

lemma dependency_filter_kept:
  "fst (apply_dependency_filter orders ex) = filter (survives orders ex) orders"
  using dependency_loop_spec [of ex orders ex orders "[]"]
  by (auto simp: apply_dependency_filter_def intro: doomed.excluded)

lemma dependency_filter_reasons:
  "i \<in> set (snd (apply_dependency_filter orders ex)) \<Longrightarrow> reason i = PREDECESSOR_UNSERVED"
  using dependency_loop_spec [of ex orders ex orders "[]"]
  by (auto simp: apply_dependency_filter_def intro: doomed.excluded)

lemma dependency_pass_count:
  "length (fst (dependency_loop kept infs ex)) + length (snd (dependency_loop kept infs ex))
     = length kept + length infs"
proof (induction kept infs ex rule: dependency_loop.induct)
  case (1 kept infs ex)
  obtain remaining new ex' where p: "dependency_pass kept ex = (remaining, new, ex')"
    by (metis prod_cases3)
  have "length remaining + length new = length kept"
    using dependency_pass_length [of kept ex] p by simp
  with "1.IH" [OF p [symmetric] refl] p show ?case
    by (auto simp: dependency_loop.simps [of kept])
qed

subsection \<open>The outcome loop keeps the greatest closed set of dispatches\<close>

definition closed_under_precedence :: "task_row list \<Rightarrow> string set \<Rightarrow> bool" where
  "closed_under_precedence orders S \<longleftrightarrow>
     (\<forall>t\<in>S. predecessor_of orders t \<noteq> [] \<and> predecessor_of orders t \<in> task_id ` set orders
        \<longrightarrow> predecessor_of orders t \<in> S)"

lemma outcome_loop_closed:
  "closed_under_precedence orders (d_task_id ` set (fst (outcome_loop orders out extra)))"
proof (induction orders out extra rule: outcome_loop.induct)
  case (1 orders out extra)
  show ?case
  proof (cases "filter (violates orders out) out = []")
    case True
    then have "\<forall>d\<in>set out. \<not> violates orders out d" by (simp add: filter_empty_conv)
    with True show ?thesis
      by (subst outcome_loop.simps)
         (auto simp: closed_under_precedence_def violates_def Let_def)
  next
    case False
    with "1.IH" [OF refl False] show ?thesis by (subst outcome_loop.simps) (simp add: Let_def)
  qed
qed

lemma outcome_loop_greatest:
  "closed_under_precedence orders S \<Longrightarrow> S \<subseteq> d_task_id ` set out \<Longrightarrow>
   (\<And>d. d \<in> set out \<Longrightarrow> d_task_id d \<in> S \<Longrightarrow> d \<in> set (fst (outcome_loop orders out extra)))"
proof (induction orders out extra rule: outcome_loop.induct)
  case (1 orders out extra)
  show ?case
  proof (cases "filter (violates orders out) out = []")
    case True
    with "1.prems" show ?thesis by (subst outcome_loop.simps) (simp add: Let_def)
  next
    case False
    let ?out = "fold remove1 (filter (violates orders out) out) out"
    have keep: "e \<in> set ?out" if "e \<in> set out" "d_task_id e \<in> S" for e
      using that "1.prems"(1,2)
      by (auto simp: fold_remove1_filter violates_def closed_under_precedence_def Let_def)
    have "S \<subseteq> d_task_id ` set ?out"
      using "1.prems"(2) keep by blast
    with "1.IH" [OF refl False] "1.prems"(1,3,4) keep False show ?thesis
      by (subst outcome_loop.simps) (simp add: Let_def)
  qed
qed

lemma outcome_loop_mset:
  "mset (map d_task_id (fst (outcome_loop orders out extra)))
     + mset (map inf_task_id (snd (outcome_loop orders out extra)))
   = mset (map d_task_id out) + mset (map inf_task_id extra)"
proof (induction orders out extra rule: outcome_loop.induct)
  case (1 orders out extra)
  show ?case
  proof (cases "filter (violates orders out) out = []")
    case True
    then show ?thesis by (subst (1 2) outcome_loop.simps) (simp add: Let_def)
  next
    case False
    let ?P = "violates orders out"
    have split: "mset (map d_task_id out) =
        mset (map d_task_id (filter (\<lambda>x. \<not> ?P x) out)) + mset (map d_task_id (filter ?P out))"
      by (rule mset_map_filter_split)
    have "map inf_task_id (map (withdrawal orders) (filter ?P out)) = map d_task_id (filter ?P out)"
      by (simp add: withdrawal_def)
    with "1.IH" [OF refl False] False split show ?thesis
      by (subst (1 2) outcome_loop.simps) (simp add: Let_def fold_remove1_filter del: map_map mset_map)
  qed
qed

lemma outcome_loop_subset: "set (fst (outcome_loop orders out extra)) \<subseteq> set out"
proof (induction orders out extra rule: outcome_loop.induct)
  case (1 orders out extra)
  then show ?case
    by (subst outcome_loop.simps) (auto simp: Let_def fold_remove1_filter)
qed

subsection \<open>Properties\<close>

text \<open>the dependency filter excludes exactly the transitive dependents of the excluded tasks:
  whatever the order of the rows and whatever cycles the references form, the loop ends and keeps,
  in their order, the tasks whose predecessor is not in the least set containing the excluded ids
  and closed under dependence; nothing is lost.\<close>

theorem dependency_filter_least:
  "fst (apply_dependency_filter orders ex) = filter (survives orders ex) orders
   \<and> length (snd (apply_dependency_filter orders ex)) =
       length orders - length (filter (survives orders ex) orders)"
  using dependency_filter_kept [of orders ex] dependency_pass_count [of orders "[]" ex]
  by (simp add: apply_dependency_filter_def)

text \<open>C4: \<open>enforce_dependency_outcomes\<close> returns the greatest dispatch closed under precedence: no
  kept dispatch has a known predecessor that is not dispatched, every set of dispatched tasks closed
  under precedence is kept, and each dispatch is either kept or reported infeasible.\<close>

theorem dependency_outcomes_greatest:
  assumes "enforce_dependency_outcomes ds infs orders = (out, infs')"
  shows "closed_under_precedence orders (d_task_id ` set out)
    \<and> (\<forall>S. closed_under_precedence orders S \<longrightarrow> S \<subseteq> d_task_id ` set ds \<longrightarrow> S \<subseteq> d_task_id ` set out)
    \<and> mset (map d_task_id out) + mset (map inf_task_id infs') =
        mset (map d_task_id ds) + mset (map inf_task_id infs)"
proof -
  obtain extra where e: "outcome_loop orders ds [] = (out, extra)" "infs' = infs @ extra"
    using assms by (auto simp: enforce_dependency_outcomes_def split: prod.splits)
  have "S \<subseteq> d_task_id ` set out" if "closed_under_precedence orders S" "S \<subseteq> d_task_id ` set ds" for S
    using outcome_loop_greatest [OF that, of _ "[]"] that(2) e(1) by fastforce
  with outcome_loop_closed [of orders ds "[]"] outcome_loop_mset [of orders ds "[]"] e
  show ?thesis by simp
qed

definition sample_chain :: "task_row list" where
  "sample_chain = [sample_task, sample_task\<lparr>task_id := ''B'', depends_on_task_ref := ''A''\<rparr>,
     sample_task\<lparr>task_id := ''C'', depends_on_task_ref := ''B''\<rparr>]"

text \<open>Task \<open>A\<close> is not dispatched, so the dispatches of \<open>B\<close> and then of \<open>C\<close> are withdrawn.\<close>

lemma dependency_outcomes_greatest_witness:
  "let ds = [\<lparr>d_task_id = ''B'', d_cluster_id = ''c''\<rparr>, \<lparr>d_task_id = ''C'', d_cluster_id = ''c''\<rparr>];
       r = enforce_dependency_outcomes ds [] sample_chain
   in fst r = [] \<and> map inf_task_id (snd r) = [''B'', ''C'']
      \<and> closed_under_precedence sample_chain (d_task_id ` set (fst r))"
proof -
  let ?ds = "[\<lparr>d_task_id = ''B'', d_cluster_id = ''c''\<rparr>, \<lparr>d_task_id = ''C'', d_cluster_id = ''c''\<rparr>]"
  have "fst (enforce_dependency_outcomes ?ds [] sample_chain) = []
      \<and> map inf_task_id (snd (enforce_dependency_outcomes ?ds [] sample_chain)) = [''B'', ''C'']"
    by code_simp
  with dependency_outcomes_greatest [of ?ds "[]" sample_chain, OF surjective_pairing]
  show ?thesis by (simp add: Let_def)
qed

end
