(* ===== verification/Geometry.thy ===== *)
theory Geometry
  imports Rows "HOL-Library.Monad_Syntax"
begin

text \<open>
  Planar and geodesic geometry. The polygon predicates of \<open>solver/restrictions.py\<close> are written
  out; the area helpers of \<open>core/geometry.py\<close> wrap \<open>shapely\<close> and \<open>pyproj\<close>, whose primitives are
  the fields of the record \<open>shapely\<close>, an argument of every definition that uses them: nothing
  is assumed about them, because the wrappers clamp what they return.
\<close>

type_synonym point = "real \<times> real"

subsection \<open>The external primitives\<close>

text \<open>
  \<open>Polygon(ring)\<close>, \<open>g.is_valid\<close>, \<open>g.buffer(0)\<close>, \<open>g.area\<close>, \<open>g.is_empty\<close>, \<open>unary_union\<close>,
  \<open>g.intersection\<close>, \<open>g.difference\<close>, the signed area of \<open>Geod.geometry_area_perimeter\<close>, the
  buffered exterior ring of a swept path in scaled coordinates, \<open>cos(radians(x))\<close>, and the
  distance between two shapes given by their vertices (a \<open>Point\<close> or a \<open>LineString\<close>), and the
  distance in metres that \<open>Geod.inv\<close> returns for two \<open>(lat, lon)\<close> points.
\<close>

record 'g shapely =
  polygon_of :: "point list \<Rightarrow> 'g"
  is_valid :: "'g \<Rightarrow> bool"
  buffer0 :: "'g \<Rightarrow> 'g"
  planar_area :: "'g \<Rightarrow> real"
  is_empty_geom :: "'g \<Rightarrow> bool"
  unary_union :: "'g list \<Rightarrow> 'g"
  intersection :: "'g \<Rightarrow> 'g \<Rightarrow> 'g"
  difference :: "'g \<Rightarrow> 'g \<Rightarrow> 'g"
  geod_area_m2 :: "'g \<Rightarrow> real"
  buffered_ring :: "point list \<Rightarrow> real \<Rightarrow> point list"
  cos_degrees :: "real \<Rightarrow> real"
  shape_distance :: "point list \<Rightarrow> point list \<Rightarrow> real"
  geod_inv_m :: "point \<Rightarrow> point \<Rightarrow> real"

text \<open>A degenerate instance for closed examples: every geometry is empty.\<close>

definition sample_shapely :: "unit shapely" where
  "sample_shapely =
     \<lparr>polygon_of = (\<lambda>_. ()), is_valid = (\<lambda>_. True), buffer0 = id, planar_area = (\<lambda>_. 0),
      is_empty_geom = (\<lambda>_. True), unary_union = (\<lambda>_. ()), intersection = (\<lambda>_ _. ()),
      difference = (\<lambda>_ _. ()), geod_area_m2 = (\<lambda>_. 0), buffered_ring = (\<lambda>_ _. []),
      cos_degrees = (\<lambda>_. 1), shape_distance = (\<lambda>_ _. 0),
      geod_inv_m = (\<lambda>_ _. 0)\<rparr>"

definition repaired :: "'g shapely \<Rightarrow> point list \<Rightarrow> 'g" where
  "repaired sh ring =
     (let poly = polygon_of sh ring in if is_valid sh poly then poly else buffer0 sh poly)"

definition usable_rings :: "point list list \<Rightarrow> point list list" where
  "usable_rings rings = filter (\<lambda>r. 3 \<le> length r) rings"

definition unrestricted_area_fraction ::
  "'g shapely \<Rightarrow> point list \<Rightarrow> point list list \<Rightarrow> real" where
  "unrestricted_area_fraction sh site_ring restricted_polygons =
     (if length site_ring < 3 \<or> restricted_polygons = [] then 1
      else let site = repaired sh site_ring; total = planar_area sh site in
        if total \<le> 0 then 1
        else let polys = map (repaired sh) (usable_rings restricted_polygons) in
          if polys = [] then 1
          else let covered = planar_area sh (intersection sh site (unary_union sh polys)) in
            max 0 (min 1 ((total - covered) / total)))"

definition polygon_rings_area_km2 :: "'g shapely \<Rightarrow> point list list \<Rightarrow> real" where
  "polygon_rings_area_km2 sh rings =
     (let polys = filter (\<lambda>p. \<not> is_empty_geom sh p) (map (repaired sh) (usable_rings rings)) in
      if polys = [] then 0 else \<bar>geod_area_m2 sh (unary_union sh polys)\<bar> / 1000000)"

definition polygon_difference_area_km2 ::
  "'g shapely \<Rightarrow> point list \<Rightarrow> point list list \<Rightarrow> real" where
  "polygon_difference_area_km2 sh base_ring subtract_rings =
     (if length base_ring < 3 then 0
      else let base = repaired sh base_ring in
        if is_empty_geom sh base \<or> planar_area sh base \<le> 0 then 0
        else let subs = filter (\<lambda>p. \<not> is_empty_geom sh p)
                          (map (repaired sh) (usable_rings subtract_rings));
                 remainder = (if subs = [] then base
                              else difference sh base (unary_union sh subs)) in
          if is_empty_geom sh remainder then 0
          else \<bar>geod_area_m2 sh remainder\<bar> / 1000000)"

text \<open>\<open>METERS_PER_DEGREE_LAT\<close> is an argument of the sweep.\<close>

definition swept_polygon :: "'g shapely \<Rightarrow> real \<Rightarrow> point list \<Rightarrow> real \<Rightarrow> point list" where
  "swept_polygon sh m_per_deg path_latlon width_m =
     (if width_m \<le> 0 \<or> path_latlon = [] then []
      else let lat0 = sum_list (map fst path_latlon) / real (length path_latlon);
               scale = max (1 / 1000000) (cos_degrees sh lat0);
               half_deg = (width_m / 2) / m_per_deg;
               scaled = map (\<lambda>(lat, lon). (lon * scale, lat)) path_latlon
           in map (\<lambda>(x, y). (x / scale, y)) (buffered_ring sh scaled half_deg))"

text \<open>\<open>segment_min_distance_m\<close>: both segments projected into a local metre frame.\<close>

definition project_local :: "'g shapely \<Rightarrow> real \<Rightarrow> real \<Rightarrow> real \<Rightarrow> point \<Rightarrow> point" where
  "project_local sh m_per_deg lat0 lon0 p =
     ((snd p - lon0) * m_per_deg * max (1 / 1000000) (cos_degrees sh lat0),
      (fst p - lat0) * m_per_deg)"

definition segment_shape :: "'g shapely \<Rightarrow> real \<Rightarrow> real \<Rightarrow> real \<Rightarrow> point \<times> point \<Rightarrow> point list" where
  "segment_shape sh m_per_deg lat0 lon0 seg =
     (let p0 = project_local sh m_per_deg lat0 lon0 (fst seg);
          p1 = project_local sh m_per_deg lat0 lon0 (snd seg)
      in if p0 = p1 then [p0] else [p0, p1])"

definition segment_min_distance_m ::
  "'g shapely \<Rightarrow> real \<Rightarrow> point \<times> point \<Rightarrow> point \<times> point \<Rightarrow> real" where
  "segment_min_distance_m sh m_per_deg seg_a seg_b =
     (let pts = [fst seg_a, snd seg_a, fst seg_b, snd seg_b];
          lat0 = sum_list (map fst pts) / real (length pts);
          lon0 = sum_list (map snd pts) / real (length pts)
      in shape_distance sh (segment_shape sh m_per_deg lat0 lon0 seg_a)
           (segment_shape sh m_per_deg lat0 lon0 seg_b))"

text \<open>Distances; \<open>FALLBACK_TRAVEL_SPEED_KMH\<close> is the argument \<open>fallback\<close>.\<close>

definition haversine_km :: "'g shapely \<Rightarrow> point \<Rightarrow> point \<Rightarrow> real" where
  "haversine_km sh p q = geod_inv_m sh p q / 1000"

definition travel_time_seconds :: "'g shapely \<Rightarrow> real \<Rightarrow> point \<Rightarrow> point \<Rightarrow> real \<Rightarrow> int" where
  "travel_time_seconds sh fallback p q speed_kmh =
     (let safe_speed = (if speed_kmh > 0 then speed_kmh else fallback);
          seconds_per_km = 3600 / safe_speed
      in max 1 (py_int (haversine_km sh p q * seconds_per_km)))"

definition path_distance_km :: "'g shapely \<Rightarrow> point list \<Rightarrow> real" where
  "path_distance_km sh path = sum_list (map (\<lambda>(p, q). haversine_km sh p q) (zip path (tl path)))"

lemma unrestricted_area_fraction_bounds:
  "0 \<le> unrestricted_area_fraction sh p rs" "unrestricted_area_fraction sh p rs \<le> 1"
  by (auto simp: unrestricted_area_fraction_def Let_def)

lemma polygon_rings_area_nonneg [simp]: "0 \<le> polygon_rings_area_km2 sh rs"
  by (simp add: polygon_rings_area_km2_def Let_def)

lemma polygon_difference_area_nonneg [simp]: "0 \<le> polygon_difference_area_km2 sh p rs"
  by (simp add: polygon_difference_area_km2_def Let_def)

subsection \<open>Parsing polygons\<close>

text \<open>Subscripting and iterating a dynamic value; \<open>None\<close> is the exception it raises.\<close>

fun index_zero :: "py_val \<Rightarrow> py_val option" where
  "index_zero (VList (x # xs)) = Some x"
| "index_zero (VStr (c # cs)) = Some (VStr [c])"
| "index_zero _ = None"

fun iterate :: "py_val \<Rightarrow> py_val list option" where
  "iterate (VList xs) = Some xs"
| "iterate (VStr s) = Some (map (\<lambda>c. VStr [c]) s)"
| "iterate (VDict d) = Some (map (\<lambda>kv. VStr (fst kv)) d)"
| "iterate _ = None"

text \<open>The pairs of a coordinate list, in the given order or flipped; other items are skipped.\<close>

fun coord_pairs :: "runtime \<Rightarrow> bool \<Rightarrow> py_val list \<Rightarrow> point list option" where
  "coord_pairs rt flip [] = Some []"
| "coord_pairs rt flip (VList (a # b # cs) # rest) =
     do { p0 \<leftarrow> py_float rt (if flip then b else a);
          p1 \<leftarrow> py_float rt (if flip then a else b);
          ps \<leftarrow> coord_pairs rt flip rest;
          Some ((p0, p1) # ps) }"
| "coord_pairs rt flip (_ # rest) = coord_pairs rt flip rest"

definition drop_closing :: "point list \<Rightarrow> point list" where
  "drop_closing points =
     (if 2 \<le> length points \<and> hd points = last points then butlast points else points)"

definition polygon_of_list :: "runtime \<Rightarrow> py_val list \<Rightarrow> point list option" where
  "polygon_of_list rt items =
     map_option (\<lambda>points. let ps = drop_closing points in if 3 \<le> length ps then ps else [])
       (coord_pairs rt True items)"

definition geojson_ring :: "runtime \<Rightarrow> (string \<times> py_val) list \<Rightarrow> point list option" where
  "geojson_ring rt d =
     (let c = (case map_of d ''coordinates'' of None \<Rightarrow> VNone | Some v \<Rightarrow> v);
          rings = (if truthy c then c else VList [VList []])
      in do { ring \<leftarrow> index_zero rings; items \<leftarrow> iterate ring; coord_pairs rt False items })"

fun polygon_of_value :: "runtime \<Rightarrow> py_val \<Rightarrow> point list option" where
  "polygon_of_value rt (VDict d) =
     (if map_of d ''type'' = Some (VStr ''Polygon'') then geojson_ring rt d else Some [])"
| "polygon_of_value rt (VList items) = polygon_of_list rt items"
| "polygon_of_value rt _ = Some []"

definition parse_polygon :: "runtime \<Rightarrow> py_val \<Rightarrow> point list option" where
  "parse_polygon rt raw =
     (if \<not> truthy raw then Some []
      else case raw of
             VStr s \<Rightarrow> (case literal_eval rt s of None \<Rightarrow> Some [] | Some v \<Rightarrow> polygon_of_value rt v)
           | v \<Rightarrow> polygon_of_value rt v)"

lemma parse_polygon_VNone [simp]: "parse_polygon rt VNone = Some []"
  by (simp add: parse_polygon_def)

lemma parse_polygon_empty_list [simp]: "parse_polygon rt (VList []) = Some []"
  by (simp add: parse_polygon_def)

lemma polygon_of_list_length:
  "polygon_of_list rt items = Some ps \<Longrightarrow> ps = [] \<or> 3 \<le> length ps"
  by (auto simp: polygon_of_list_def Let_def split: if_splits)

subsection \<open>Points, segments and polygons\<close>

definition bbox :: "point list \<Rightarrow> real \<times> real \<times> real \<times> real" where
  "bbox poly =
     (let xs = set (map fst poly); ys = set (map snd poly) in (Min xs, Min ys, Max xs, Max ys))"

definition bbox_intersects :: "point list \<Rightarrow> point list \<Rightarrow> bool" where
  "bbox_intersects a b =
     (case (bbox a, bbox b) of
        ((amin_x, amin_y, amax_x, amax_y), (bmin_x, bmin_y, bmax_x, bmax_y)) \<Rightarrow>
          \<not> (amax_x < bmin_x \<or> bmax_x < amin_x \<or> amax_y < bmin_y \<or> bmax_y < amin_y))"

definition edges :: "point list \<Rightarrow> (point \<times> point) list" where
  "edges poly = zip poly (tl poly @ [hd poly])"

definition orientation :: "point \<Rightarrow> point \<Rightarrow> point \<Rightarrow> real" where
  "orientation a b c =
     (snd b - snd a) * (fst c - fst b) - (fst b - fst a) * (snd c - snd b)"

definition geometry_eps :: real where
  "geometry_eps = 1 / 10 ^ 12"

definition point_on_segment :: "point \<Rightarrow> point \<Rightarrow> point \<Rightarrow> bool" where
  "point_on_segment p a b =
     (let eps = geometry_eps;
          cross = (snd p - snd a) * (fst b - fst a) - (fst p - fst a) * (snd b - snd a)
      in if \<bar>cross\<bar> > eps then False
         else min (fst a) (fst b) - eps \<le> fst p \<and> fst p \<le> max (fst a) (fst b) + eps
            \<and> min (snd a) (snd b) - eps \<le> snd p \<and> snd p \<le> max (snd a) (snd b) + eps)"

definition segments_intersect :: "point \<Rightarrow> point \<Rightarrow> point \<Rightarrow> point \<Rightarrow> bool" where
  "segments_intersect p1 q1 p2 q2 =
     (let o1 = orientation p1 q1 p2; o2 = orientation p1 q1 q2;
          o3 = orientation p2 q2 p1; o4 = orientation p2 q2 q1
      in if (o1 > 0) \<noteq> (o2 > 0) \<and> (o3 > 0) \<noteq> (o4 > 0) then True
         else point_on_segment p2 p1 q1 \<or> point_on_segment q2 p1 q1
            \<or> point_on_segment p1 p2 q2 \<or> point_on_segment q1 p2 q2)"

text \<open>The ray-casting loop: \<open>prev\<close> and \<open>inside\<close> are the loop's variables.\<close>

fun ray_cast :: "point \<Rightarrow> point \<Rightarrow> bool \<Rightarrow> point list \<Rightarrow> bool" where
  "ray_cast p prev inside [] = inside"
| "ray_cast p prev inside (cur # rest) =
     (if point_on_segment p prev cur then True
      else let x = fst p; y = snd p; xi = fst cur; yi = snd cur; xj = fst prev; yj = snd prev;
               inside' =
                 (if (yi > y) \<noteq> (yj > y) then
                    (let dy = (if yj - yi = 0 then geometry_eps else yj - yi);
                         x_at_y = (xj - xi) * (y - yi) / dy + xi
                     in if x \<le> x_at_y then \<not> inside else inside)
                  else inside)
           in ray_cast p cur inside' rest)"

definition point_in_polygon :: "point \<Rightarrow> point list \<Rightarrow> bool" where
  "point_in_polygon p polygon =
     (if length polygon < 3 then False else ray_cast p (last polygon) False polygon)"

definition polygons_intersect :: "point list \<Rightarrow> point list \<Rightarrow> bool" where
  "polygons_intersect a b =
     (if length a < 3 \<or> length b < 3 then False
      else if \<not> bbox_intersects a b then False
      else if list_ex (\<lambda>(pa1, pa2). list_ex (\<lambda>(pb1, pb2). segments_intersect pa1 pa2 pb1 pb2) (edges b))
                (edges a) then True
      else point_in_polygon (hd a) b \<or> point_in_polygon (hd b) a)"

subsection \<open>Properties of the predicates\<close>

lemma bbox_intersects_sym: "bbox_intersects a b = bbox_intersects b a"
  by (auto simp: bbox_intersects_def split: prod.splits)

lemma segments_intersect_sym:
  "segments_intersect p1 q1 p2 q2 = segments_intersect p2 q2 p1 q1"
  by (auto simp: segments_intersect_def Let_def)

lemma polygons_intersect_sym: "polygons_intersect a b = polygons_intersect b a"
proof -
  have "list_ex (\<lambda>(pa1, pa2). list_ex (\<lambda>(pb1, pb2). segments_intersect pa1 pa2 pb1 pb2) (edges b))
          (edges a) =
        list_ex (\<lambda>(pb1, pb2). list_ex (\<lambda>(pa1, pa2). segments_intersect pb1 pb2 pa1 pa2) (edges a))
          (edges b)"
    unfolding list_ex_iff split_beta by (subst segments_intersect_sym) blast
  then show ?thesis
    unfolding polygons_intersect_def by (simp add: bbox_intersects_sym [of a b] disj_commute)
qed

lemma point_on_segment_end [simp]: "point_on_segment q p q" "point_on_segment p p q"
  by (simp_all add: point_on_segment_def Let_def geometry_eps_def min_def max_def)

lemma ray_cast_vertex: "v \<in> set poly \<Longrightarrow> ray_cast v prev inside poly"
  by (induction poly arbitrary: prev inside) (auto simp: Let_def)

lemma vertex_in_polygon: "v \<in> set poly \<Longrightarrow> 3 \<le> length poly \<Longrightarrow> point_in_polygon v poly"
  by (simp add: point_in_polygon_def ray_cast_vertex)

lemma polygons_intersect_self: "3 \<le> length poly \<Longrightarrow> polygons_intersect poly poly"
proof -
  assume l: "3 \<le> length poly"
  have mm: "Min (f ` set poly) \<le> Max (f ` set poly)" for f :: "point \<Rightarrow> real"
  proof -
    have "f (hd poly) \<in> f ` set poly" using l by (cases poly) auto
    then show ?thesis by (meson Max_ge Min_le List.finite_set finite_imageI order_trans)
  qed
  then have "bbox_intersects poly poly"
    by (simp add: bbox_intersects_def bbox_def Let_def not_less)
  moreover have "point_in_polygon (hd poly) poly"
    using l vertex_in_polygon [of "hd poly" poly] by (cases poly) auto
  ultimately show ?thesis using l by (simp add: polygons_intersect_def)
qed

text \<open>A point the ray cast accepts is never above or below the whole polygon by more than eps.\<close>

lemma ray_cast_height:
  assumes "ray_cast p prev inside poly" "\<not> inside"
  shows "\<exists>v\<in>insert prev (set poly). snd v \<le> snd p + geometry_eps"
    and "\<exists>v\<in>insert prev (set poly). snd p - geometry_eps \<le> snd v"
proof -
  have e: "0 < geometry_eps" by (simp add: geometry_eps_def)
  have "(\<exists>v\<in>insert prev (set poly). snd v \<le> snd p + geometry_eps) \<and>
        (\<exists>v\<in>insert prev (set poly). snd p - geometry_eps \<le> snd v)"
    using assms
  proof (induction poly arbitrary: prev inside)
    case (Cons cur rest)
    show ?case
    proof (cases "point_on_segment p prev cur")
      case True
      then show ?thesis
        by (auto simp: point_on_segment_def Let_def min_def max_def split: if_splits)
    next
      case ns: False
      show ?thesis
      proof (cases "(snd cur > snd p) = (snd prev > snd p)")
        case True
        with ns Cons.prems have "ray_cast p cur inside rest" by (simp add: Let_def)
        from Cons.IH [OF this Cons.prems(2)] show ?thesis by auto
      next
        case False
        then show ?thesis using e by (auto intro: less_imp_le order_trans)
      qed
    qed
  qed simp
  then show "\<exists>v\<in>insert prev (set poly). snd v \<le> snd p + geometry_eps"
    and "\<exists>v\<in>insert prev (set poly). snd p - geometry_eps \<le> snd v" by blast+
qed

end
