(* ===== verification/Restrictions.thy ===== *)
theory Restrictions
  imports Geometry Intervals
begin

text \<open>
  Location restrictions (\<open>solver/restrictions.py\<close>): the admissible start intervals of a task, the
  restricted areas its site overlaps, the clip of its work to the unrestricted remainder, and the
  filter that splits off blocked tasks. An exception that a malformed geometry raises
  (\<open>float\<close> of a non-number) is the outcome \<open>None\<close>. The constants \<open>ROUTING_HORIZON_S\<close> and
  \<open>RESTRICTION_MIN_WORKABLE_AREA_FRACTION\<close> (an environment setting) appear as
  \<open>routing_horizon_s\<close> and as the argument \<open>min_frac\<close>.
\<close>

definition routing_horizon_s :: int where
  "routing_horizon_s = 30 * 24 * 3600"

definition default_min_workable_area_fraction :: real where
  "default_min_workable_area_fraction = 2 / 100"

subsection \<open>Admissible starts\<close>

definition epoch_intervals :: "runtime \<Rightarrow> raw_items \<Rightarrow> int \<Rightarrow> int \<Rightarrow> interval list" where
  "epoch_intervals rt raw_windows clamp_start clamp_end =
     List.map_filter (\<lambda>w.
       let start_s = max clamp_start (py_int (fst w));
           end_s = (case snd w of None \<Rightarrow> clamp_end | Some e \<Rightarrow> min clamp_end (py_int e))
       in if end_s \<ge> start_s then Some (start_s, end_s) else None)
     (parse_time_windows rt raw_windows)"

definition allowed_start_intervals ::
  "runtime \<Rightarrow> task_row \<Rightarrow> site_row option \<Rightarrow> int \<Rightarrow> int \<Rightarrow> interval list" where
  "allowed_start_intervals rt order site now_epoch deadline_epoch =
     (let workable = epoch_intervals rt (time_windows order) now_epoch deadline_epoch;
          base = (if parse_time_windows rt (time_windows order) \<noteq> [] then workable
                  else [(now_epoch, deadline_epoch)]);
          blocked = (case site of
                       None \<Rightarrow> []
                     | Some s \<Rightarrow> epoch_intervals rt (restriction_windows s) now_epoch deadline_epoch)
      in subtract_intervals base blocked)"

text \<open>\<open>str(order.deadline)\<close> is \<open>"None"\<close> when the row has no deadline.\<close>

definition deadline_text :: "string option \<Rightarrow> string" where
  "deadline_text d = (case d of None \<Rightarrow> ''None'' | Some s \<Rightarrow> s)"

definition deadline_epoch :: "runtime \<Rightarrow> task_row \<Rightarrow> int \<Rightarrow> int" where
  "deadline_epoch rt order now_epoch =
     (case fromisoformat rt (deadline_text (deadline order)) of
        Some d \<Rightarrow> py_int d
      | None \<Rightarrow> now_epoch + routing_horizon_s)"

subsection \<open>Restricted areas\<close>

text \<open>The loop over the sites; \<open>overlapping\<close> grows at its end, a point block stops it.\<close>

fun overlap_loop ::
  "runtime \<Rightarrow> task_row \<Rightarrow> site_row \<Rightarrow> point list \<Rightarrow> site_row list \<Rightarrow> point list list
     \<Rightarrow> (point list list \<times> string option) option" where
  "overlap_loop rt order site ring [] overlapping = Some (overlapping, None)"
| "overlap_loop rt order site ring (zone # zones) overlapping =
     (if site_id zone = site_id site
         \<or> operation_type order \<notin> set (ops_set rt (restricted_operations zone))
      then overlap_loop rt order site ring zones overlapping
      else do {
        zone_ring \<leftarrow> parse_polygon rt (site_polygon zone);
        if zone_ring = [] then overlap_loop rt order site ring zones overlapping
        else if ring \<noteq> [] then
          overlap_loop rt order site ring zones
            (if polygons_intersect ring zone_ring then overlapping @ [zone_ring] else overlapping)
        else if point_in_polygon (site_lon site, site_lat site) zone_ring
        then Some (overlapping, Some (site_id zone))
        else overlap_loop rt order site ring zones overlapping })"

definition restricted_overlap ::
  "runtime \<Rightarrow> task_row \<Rightarrow> site_row \<Rightarrow> site_row list \<Rightarrow> (point list list \<times> string option) option" where
  "restricted_overlap rt order site sites =
     do { ring \<leftarrow> parse_polygon rt (site_polygon site);
          overlap_loop rt order site ring sites [] }"

definition residual_clip_fractions ::
  "'g shapely \<Rightarrow> runtime \<Rightarrow> task_row \<Rightarrow> site_row \<Rightarrow> point list list \<Rightarrow> (real \<times> real) option" where
  "residual_clip_fractions sh rt order site overlapping =
     do { task_work_ring \<leftarrow> parse_polygon rt (work_area_geometry order);
          covered_ring \<leftarrow> parse_polygon rt (covered_geometry order);
          if length task_work_ring < 3 \<and> length covered_ring < 3 then
            do { site_ring \<leftarrow> parse_polygon rt (site_polygon site);
                 let fraction = unrestricted_area_fraction sh site_ring overlapping;
                 Some (fraction, fraction) }
          else do {
            work_ring \<leftarrow> (if 3 \<le> length task_work_ring then Some task_work_ring
                          else parse_polygon rt (site_polygon site));
            if length work_ring < 3 then Some (1, 1)
            else (let work_area = polygon_rings_area_km2 sh [work_ring] in
              if work_area \<le> 0 then Some (1, 1)
              else let covered_rings = (if 3 \<le> length covered_ring then [covered_ring] else []);
                       uncovered_area = polygon_difference_area_km2 sh work_ring covered_rings;
                       residual_area = polygon_difference_area_km2 sh work_ring
                                         (overlapping @ covered_rings);
                       restriction_fraction =
                         (if uncovered_area > 0 then residual_area / uncovered_area else 0);
                       area_fraction = residual_area / work_area
                   in Some (min 1 restriction_fraction, max 0 (min 1 area_fraction))) } }"

definition clip_order_to_area_fraction :: "task_row \<Rightarrow> real \<Rightarrow> task_row" where
  "clip_order_to_area_fraction order fraction =
     (let new_area = py_round 6 (area order * fraction);
          unit = py_lower (py_strip (work_quantity_unit order));
          new_quantity =
            (if work_quantity order > 0 \<and> (unit = '''' \<or> unit = ''ha'')
             then py_round 6 (work_quantity order * fraction) else work_quantity order);
          new_revenue = py_round 6 (revenue order * fraction)
      in order\<lparr>area := new_area, work_quantity := new_quantity, revenue := new_revenue\<rparr>)"

subsection \<open>The filter\<close>

text \<open>What the loop body does with one task: keeps it (perhaps clipped) or excludes it.\<close>

definition restrict_order ::
  "'g shapely \<Rightarrow> runtime \<Rightarrow> real \<Rightarrow> site_row list \<Rightarrow> int \<Rightarrow> task_row \<Rightarrow> (task_row + infeasible) option" where
  "restrict_order sh rt min_frac sites now_epoch order =
     (case map_of (rev (map (\<lambda>s. (site_id s, s)) sites)) (location_ref order) of
        None \<Rightarrow> Some (Inl order)
      | Some site \<Rightarrow>
          let excluded = (\<lambda>d. Some (Inr (mk_infeasible (task_id order) '''' RESTRICTED_ZONE d))) in
          if operation_type order \<in> set (ops_set rt (restricted_operations site))
          then excluded (OperationProhibited (operation_type order) (location_ref order))
          else do {
            (overlapping, point_block_id) \<leftarrow> restricted_overlap rt order site sites;
            case point_block_id of
              Some blocker \<Rightarrow>
                excluded (IntersectsRestricted (operation_type order) (location_ref order) blocker)
            | None \<Rightarrow> do {
                covered_ring \<leftarrow> parse_polygon rt (covered_geometry order);
                clip \<leftarrow>
                  (if overlapping \<noteq> [] \<or> 3 \<le> length covered_ring
                   then residual_clip_fractions sh rt order site overlapping
                   else Some (1, 1));
                if (overlapping \<noteq> [] \<or> 3 \<le> length covered_ring) \<and> fst clip \<le> min_frac
                then excluded (RestrictedShare (operation_type order) (location_ref order)
                                 ((1 - fst clip) * 100))
                else let order' = (if (overlapping \<noteq> [] \<or> 3 \<le> length covered_ring) \<and> snd clip < 1
                                   then clip_order_to_area_fraction order (snd clip) else order)
                  in if allowed_start_intervals rt order' (Some site) now_epoch
                          (deadline_epoch rt order' now_epoch) = []
                     then excluded (WindowsBlockStart (location_ref order))
                     else Some (Inl order') } })"

fun apply_location_restrictions ::
  "'g shapely \<Rightarrow> runtime \<Rightarrow> real \<Rightarrow> task_row list \<Rightarrow> site_row list \<Rightarrow> real
     \<Rightarrow> (task_row list \<times> infeasible list) option" where
  "apply_location_restrictions sh rt min_frac [] sites now = Some ([], [])"
| "apply_location_restrictions sh rt min_frac (order # orders) sites now =
     do { verdict \<leftarrow> restrict_order sh rt min_frac sites (py_int now) order;
          (kept, infs) \<leftarrow> apply_location_restrictions sh rt min_frac orders sites now;
          Some (case verdict of Inl t \<Rightarrow> (t # kept, infs) | Inr i \<Rightarrow> (kept, i # infs)) }"

subsection \<open>Lemmas\<close>

text \<open>A second of \<open>[a, b]\<close> is inside a parsed window.\<close>

definition in_window :: "int \<Rightarrow> time_window \<Rightarrow> bool" where
  "in_window x w \<longleftrightarrow>
     py_int (fst w) \<le> x \<and> (case snd w of None \<Rightarrow> True | Some e \<Rightarrow> x \<le> py_int e)"

lemma pts_epoch_intervals [fl_simps]:
  "x \<in> pts (epoch_intervals rt raw a b) \<longleftrightarrow>
     a \<le> x \<and> x \<le> b \<and> (\<exists>w\<in>set (parse_time_windows rt raw). in_window x w)"
proof -
  have "x \<in> pts (epoch_intervals rt raw a b) \<longleftrightarrow>
      (\<exists>w\<in>set (parse_time_windows rt raw).
         max a (py_int (fst w)) \<le> x \<and>
         x \<le> (case snd w of None \<Rightarrow> b | Some e \<Rightarrow> min b (py_int e)))"
    unfolding pts_iff epoch_intervals_def List.map_filter_def
    by (force simp: Let_def split: if_splits)
  also have "\<dots> \<longleftrightarrow> a \<le> x \<and> x \<le> b \<and> (\<exists>w\<in>set (parse_time_windows rt raw). in_window x w)"
    by (auto simp: in_window_def split: option.splits)
  finally show ?thesis .
qed

lemma pts_allowed_start [fl_simps]:
  "x \<in> pts (allowed_start_intervals rt order site now dl) \<longleftrightarrow>
     now \<le> x \<and> x \<le> dl
     \<and> (parse_time_windows rt (time_windows order) = []
        \<or> (\<exists>w\<in>set (parse_time_windows rt (time_windows order)). in_window x w))
     \<and> (\<forall>s. site = Some s \<longrightarrow>
          (\<forall>w\<in>set (parse_time_windows rt (restriction_windows s)). \<not> in_window x w))"
  by (cases site) (auto simp: allowed_start_intervals_def Let_def iv.subtract_pts pts_epoch_intervals)

lemma allowed_start_empty_iff:
  "allowed_start_intervals rt order site now dl = [] \<longleftrightarrow>
     (\<forall>x. x \<notin> pts (allowed_start_intervals rt order site now dl))"
  by (simp only: allowed_start_intervals_def Let_def subtract_intervals_empty_iff
      pts_subtract_intervals) blast

lemma clip_preserves [simp]:
  "task_id (clip_order_to_area_fraction t f) = task_id t"
  "operation_type (clip_order_to_area_fraction t f) = operation_type t"
  "location_ref (clip_order_to_area_fraction t f) = location_ref t"
  "time_windows (clip_order_to_area_fraction t f) = time_windows t"
  "deadline (clip_order_to_area_fraction t f) = deadline t"
  "depends_on_task_ref (clip_order_to_area_fraction t f) = depends_on_task_ref t"
  "penalty_per_day (clip_order_to_area_fraction t f) = penalty_per_day t"
  by (simp_all add: clip_order_to_area_fraction_def Let_def)

lemma residual_clip_bounds:
  "residual_clip_fractions sh rt t s ov = Some (r, a) \<Longrightarrow> 0 \<le> r \<and> r \<le> 1 \<and> 0 \<le> a \<and> a \<le> 1"
  by (auto simp: residual_clip_fractions_def Let_def unrestricted_area_fraction_bounds
      split: Option.bind_splits if_splits)

lemma scaled_round_bounds:
  assumes "0 \<le> x" "0 \<le> f" "f \<le> 1"
  shows "0 \<le> py_round 6 (x * f)" "py_round 6 (x * f) \<le> py_round 6 x"
proof -
  have "0 \<le> x * f" "x * f \<le> x" using assms by (simp_all add: mult_left_le)
  then show "0 \<le> py_round 6 (x * f)" "py_round 6 (x * f) \<le> py_round 6 x"
    by (simp_all add: py_round_nonneg py_round_mono)
qed

lemma clip_revenue:
  "0 \<le> revenue t \<Longrightarrow> 0 \<le> f \<Longrightarrow> f \<le> 1 \<Longrightarrow>
   0 \<le> revenue (clip_order_to_area_fraction t f)
   \<and> revenue (clip_order_to_area_fraction t f) \<le> py_round 6 (revenue t)"
  by (simp add: clip_order_to_area_fraction_def Let_def scaled_round_bounds)

text \<open>What a kept task satisfies.\<close>

definition site_of :: "site_row list \<Rightarrow> task_row \<Rightarrow> site_row option" where
  "site_of sites t = map_of (rev (map (\<lambda>s. (site_id s, s)) sites)) (location_ref t)"

lemma restrict_order_kept:
  assumes "restrict_order sh rt mf sites now t = Some (Inl t')"
  shows "task_id t' = task_id t \<and> operation_type t' = operation_type t
    \<and> location_ref t' = location_ref t
    \<and> (t' = t \<or> (\<exists>f. 0 \<le> f \<and> f < 1 \<and> t' = clip_order_to_area_fraction t f))
    \<and> (\<forall>s. site_of sites t = Some s \<longrightarrow>
          operation_type t \<notin> set (ops_set rt (restricted_operations s))
          \<and> allowed_start_intervals rt t' (Some s) now (deadline_epoch rt t' now) \<noteq> [])"
proof (cases "site_of sites t")
  case None
  with assms show ?thesis by (simp add: restrict_order_def site_of_def)
next
  case (Some site)
  with assms show ?thesis
    by (auto simp: restrict_order_def site_of_def Let_def
        split: Option.bind_splits if_splits option.splits) (metis residual_clip_bounds)+
qed

lemma restrict_order_task_id:
  "restrict_order sh rt mf sites now t = Some v \<Longrightarrow>
   (case v of Inl t' \<Rightarrow> task_id t' | Inr i \<Rightarrow> inf_task_id i) = task_id t"
  by (auto simp: restrict_order_def Let_def split: Option.bind_splits if_splits option.splits)

lemma restrict_order_excluded:
  "restrict_order sh rt mf sites now t = Some (Inr i) \<Longrightarrow>
     inf_task_id i = task_id t \<and> reason i = RESTRICTED_ZONE"
  by (auto simp: restrict_order_def Let_def split: Option.bind_splits if_splits option.splits)

lemma apply_restrictions_kept:
  "apply_location_restrictions sh rt mf orders sites now = Some (kept, infs) \<Longrightarrow> t' \<in> set kept \<Longrightarrow>
   \<exists>t\<in>set orders. restrict_order sh rt mf sites (py_int now) t = Some (Inl t')"
  by (induction orders arbitrary: kept infs)
     (fastforce split: Option.bind_splits sum.splits)+

lemma apply_restrictions_excluded:
  "apply_location_restrictions sh rt mf orders sites now = Some (kept, infs) \<Longrightarrow> i \<in> set infs \<Longrightarrow>
   \<exists>t\<in>set orders. restrict_order sh rt mf sites (py_int now) t = Some (Inr i)"
  by (induction orders arbitrary: kept infs)
     (fastforce split: Option.bind_splits sum.splits)+

lemma apply_restrictions_partition:
  "apply_location_restrictions sh rt mf orders sites now = Some (kept, infs) \<Longrightarrow>
   mset (map task_id kept) + mset (map inf_task_id infs) = mset (map task_id orders)"
  by (induction orders arbitrary: kept infs)
     (auto split: Option.bind_splits sum.splits dest!: restrict_order_task_id)

subsection \<open>Properties\<close>

text \<open>C5: a task the location filter keeps is the task that came in, or its clip to a fraction below
  one; its operation is not prohibited at its site, and it can start: some second between now and its
  deadline lies in one of its workable windows (when it has any) and outside every restriction window
  of the site.\<close>

theorem location_restrictions_startable:
  assumes "apply_location_restrictions sh rt mf orders sites now = Some (kept, infs)"
    and "t' \<in> set kept" "site_of sites t' = Some s"
  shows "(\<exists>t\<in>set orders. task_id t' = task_id t \<and>
            (t' = t \<or> (\<exists>f. 0 \<le> f \<and> f < 1 \<and> t' = clip_order_to_area_fraction t f)))
    \<and> operation_type t' \<notin> set (ops_set rt (restricted_operations s))
    \<and> (\<exists>x. py_int now \<le> x \<and> x \<le> deadline_epoch rt t' (py_int now)
        \<and> (parse_time_windows rt (time_windows t') = []
           \<or> (\<exists>w\<in>set (parse_time_windows rt (time_windows t')). in_window x w))
        \<and> (\<forall>w\<in>set (parse_time_windows rt (restriction_windows s)). \<not> in_window x w))"
proof -
  from apply_restrictions_kept [OF assms(1,2)] obtain t where t: "t \<in> set orders"
    "restrict_order sh rt mf sites (py_int now) t = Some (Inl t')" by blast
  note k = restrict_order_kept [OF t(2)]
  then have "site_of sites t = Some s" using assms(3) by (simp add: site_of_def)
  with k have a: "operation_type t' \<notin> set (ops_set rt (restricted_operations s))"
    "allowed_start_intervals rt t' (Some s) (py_int now) (deadline_epoch rt t' (py_int now)) \<noteq> []"
    by auto
  from a(2) obtain x where
    "x \<in> pts (allowed_start_intervals rt t' (Some s) (py_int now) (deadline_epoch rt t' (py_int now)))"
    unfolding allowed_start_empty_iff by blast
  with k t(1) a(1) show ?thesis unfolding pts_allowed_start by blast
qed

definition sample_site :: site_row where
  "sample_site =
     \<lparr>site_id = ''field'', site_location_type = ''field'', site_name = '''', site_lat = 0,
      site_lon = 0, site_area = 0, soil_type = '''', site_polygon = VNone,
      restricted_operations = RItems [VStr ''MOW''], restriction_windows = RItems [VStr ''t0/t1'']\<rparr>"

definition sample_windowed :: task_row where
  "sample_windowed = sample_task\<lparr>time_windows := RItems [VStr ''t0/t2'']\<rparr>"

lemma location_restrictions_startable_witness:
  "\<exists>x. py_int 0 \<le> x \<and> x \<le> deadline_epoch sample_runtime sample_windowed (py_int 0)
     \<and> (parse_time_windows sample_runtime (time_windows sample_windowed) = []
        \<or> (\<exists>w\<in>set (parse_time_windows sample_runtime (time_windows sample_windowed)). in_window x w))
     \<and> (\<forall>w\<in>set (parse_time_windows sample_runtime (restriction_windows sample_site)).
           \<not> in_window x w)"
proof -
  have "apply_location_restrictions sample_shapely sample_runtime (1/50) [sample_windowed]
      [sample_site] 0 = Some ([sample_windowed], [])" by code_simp
  moreover have "site_of [sample_site] sample_windowed = Some sample_site" by code_simp
  ultimately show ?thesis
    using location_restrictions_startable [of sample_shapely sample_runtime "1/50" "[sample_windowed]"
        "[sample_site]" 0 "[sample_windowed]" "[]" sample_windowed sample_site]
    by (simp only: list.set insert_iff) blast
qed

text \<open>the admissible start intervals of a task are exact: a second is admissible iff it is
  between now and the deadline, in some workable window (if the task has any) and in no restriction
  window of the site.\<close>

theorem allowed_start_exact:
  "x \<in> pts (allowed_start_intervals rt order site now dl) \<longleftrightarrow>
     now \<le> x \<and> x \<le> dl
     \<and> \<not> (parse_time_windows rt (time_windows order) \<noteq> []
          \<and> \<not> list_ex (in_window x) (parse_time_windows rt (time_windows order)))
     \<and> (case site of None \<Rightarrow> True
        | Some s \<Rightarrow> \<not> list_ex (in_window x) (parse_time_windows rt (restriction_windows s)))"
  by (auto simp: pts_allowed_start list_ex_iff split: option.splits)

end
