(* ===== verification/Weather.thy ===== *)
theory Weather
  imports Restrictions
begin

text \<open>
  Weather-window enforcement (first part of \<open>solver/enforcement.py\<close>): the policy taken from the
  profile, the compliance test of one forecast window, the lenient filter that blocks the
  non-compliant windows of a kept task, and the conservative filter that blocks every second not
  proven safe. The conservative filter is a client of the interface \<open>interval_ops\<close>.
\<close>

subsection \<open>The policy\<close>

record weather_policy =
  maxWindMs :: real
  maxRainMmPerH :: real
  maxSoilMoisturePct :: real
  sensitivity :: "(string, string list) dict"
  requireForecastCoverage :: bool

record material_spec =
  material :: string
  perAreaHa :: real

text \<open>What \<open>from_profile\<close> reads of an optimization profile.\<close>

record profile =
  enforced_constraints :: "string list"
  weatherPolicy :: weather_policy
  materialDemand :: "(string, material_spec) dict"

record enforcement_policy =
  ep_weather :: "weather_policy option"
  operator_qualification :: bool
  material_demand :: "(string, material_spec) dict"

definition from_profile :: "profile \<Rightarrow> enforcement_policy" where
  "from_profile p =
     (let enforced = set (enforced_constraints p) in
      \<lparr>ep_weather = (if ''respect-weather-window'' \<in> enforced then Some (weatherPolicy p) else None),
       operator_qualification = (''operator-qualified'' \<in> enforced),
       material_demand = (if ''required-material-available'' \<in> enforced then materialDemand p else [])\<rparr>)"

subsection \<open>One forecast window\<close>

definition exceeds :: "real option \<Rightarrow> real \<Rightarrow> bool" where
  "exceeds v limit \<longleftrightarrow> (case v of None \<Rightarrow> False | Some x \<Rightarrow> x > limit)"

definition window_ok :: "forecast_row \<Rightarrow> string list \<Rightarrow> weather_policy \<Rightarrow> bool" where
  "window_ok forecast dims weather \<longleftrightarrow>
     \<not> (''wind'' \<in> set dims \<and> exceeds (wind_speed forecast) (maxWindMs weather))
     \<and> \<not> (''rain'' \<in> set dims \<and> exceeds (precipitation_rate forecast) (maxRainMmPerH weather))
     \<and> \<not> (''soil-moisture'' \<in> set dims \<and> exceeds (soil_moisture forecast) (maxSoilMoisturePct weather))"

definition forecast_epoch_interval :: "runtime \<Rightarrow> forecast_row \<Rightarrow> interval option" where
  "forecast_epoch_interval rt forecast =
     (case fromisoformat rt (deadline_text (valid_from forecast)) of
        None \<Rightarrow> None
      | Some s \<Rightarrow>
          let start = py_int s;
              end = (case fromisoformat rt (deadline_text (valid_to forecast)) of
                       None \<Rightarrow> start + routing_horizon_s
                     | Some e \<Rightarrow> py_int e)
          in if end < start then None else Some (start, end))"

definition coverage_horizon :: "runtime \<Rightarrow> task_row \<Rightarrow> int \<Rightarrow> interval" where
  "coverage_horizon rt order now_epoch =
     (now_epoch,
      max now_epoch
        (case fromisoformat rt (deadline_text (deadline order)) of
           None \<Rightarrow> now_epoch + routing_horizon_s
         | Some d \<Rightarrow> py_int d))"

subsection \<open>The filter\<close>

text \<open>\<open>by_location\<close>: forecasts grouped by coordinates in order of first appearance.\<close>

definition group_forecasts :: "forecast_row list \<Rightarrow> (point, forecast_row list) dict" where
  "group_forecasts forecasts =
     fold (\<lambda>f d. dappend (fc_lat f, fc_lon f) f d) forecasts []"

definition nearest_windows ::
  "site_row list \<Rightarrow> (point, forecast_row list) dict \<Rightarrow> string \<Rightarrow> forecast_row list" where
  "nearest_windows sites by_location loc =
     (case map_of (rev (map (\<lambda>s. (site_id s, (site_lat s, site_lon s))) sites)) loc of
        None \<Rightarrow> []
      | Some coords \<Rightarrow>
          (case min_by (\<lambda>c. (fst c - fst coords)\<^sup>2 + (snd c - snd coords)\<^sup>2) (map fst by_location) of
             None \<Rightarrow> []
           | Some key \<Rightarrow> dget_default by_location key []))"

text \<open>What happens to one task: it is kept with blocked intervals, or excluded.\<close>

datatype weather_verdict = KeepTask "interval list" | DropTask infeasible

definition compliant_intervals ::
  "runtime \<Rightarrow> interval \<Rightarrow> string list \<Rightarrow> weather_policy \<Rightarrow> forecast_row list \<Rightarrow> interval list" where
  "compliant_intervals rt horizon dims weather windows =
     List.map_filter (\<lambda>w.
       if \<not> window_ok w dims weather then None
       else case forecast_epoch_interval rt w of
              None \<Rightarrow> None
            | Some i \<Rightarrow>
                let start = max (fst i) (fst horizon); end = min (snd i) (snd horizon)
                in if end \<ge> start then Some (start, end) else None) windows"

definition filter_conservative ::
  "runtime \<Rightarrow> task_row \<Rightarrow> string list \<Rightarrow> forecast_row list \<Rightarrow> weather_policy \<Rightarrow> int \<Rightarrow> weather_verdict" where
  "filter_conservative rt order dims windows weather now_epoch =
     (let horizon = coverage_horizon rt order now_epoch;
          compliant = merge_intervals (compliant_intervals rt horizon dims weather windows)
      in if compliant = [] then
           DropTask (mk_infeasible (task_id order) '''' NO_VALID_WEATHER_WINDOW
             (NoForecastCoverage (fst horizon) (snd horizon) (operation_type order)))
         else KeepTask (subtract_intervals [horizon] compliant))"

definition filter_lenient ::
  "runtime \<Rightarrow> task_row \<Rightarrow> string list \<Rightarrow> forecast_row list \<Rightarrow> weather_policy \<Rightarrow> weather_verdict" where
  "filter_lenient rt order dims windows weather =
     (if windows = [] \<or> list_ex (\<lambda>w. window_ok w dims weather) windows then
        KeepTask (List.map_filter (\<lambda>w. if window_ok w dims weather then None
                                    else forecast_epoch_interval rt w) windows)
      else DropTask (mk_infeasible (task_id order) '''' NO_VALID_WEATHER_WINDOW
             (NoForecastWindow dims (operation_type order))))"

definition weather_task ::
  "runtime \<Rightarrow> site_row list \<Rightarrow> forecast_row list \<Rightarrow> weather_policy \<Rightarrow> int \<Rightarrow> task_row \<Rightarrow> weather_verdict" where
  "weather_task rt sites forecasts weather now_epoch order =
     (let dims = dget_default (sensitivity weather) (operation_type order) [] in
      if dims = [] then KeepTask []
      else let windows = nearest_windows sites (group_forecasts forecasts) (location_ref order) in
        if requireForecastCoverage weather
        then filter_conservative rt order dims windows weather now_epoch
        else filter_lenient rt order dims windows weather)"

type_synonym blocked_windows = "(string, interval list) dict"

text \<open>The loop over the tasks, with \<open>kept\<close>, \<open>infeasible\<close> and \<open>blocked\<close> growing.\<close>

definition weather_step ::
  "runtime \<Rightarrow> site_row list \<Rightarrow> forecast_row list \<Rightarrow> weather_policy \<Rightarrow> int \<Rightarrow> task_row
     \<Rightarrow> task_row list \<times> infeasible list \<times> blocked_windows
     \<Rightarrow> task_row list \<times> infeasible list \<times> blocked_windows" where
  "weather_step rt sites forecasts weather now_epoch order st =
     (case st of (kept, infs, blocked) \<Rightarrow>
        (case weather_task rt sites forecasts weather now_epoch order of
           KeepTask ivs \<Rightarrow>
             (kept @ [order], infs,
              if ivs = [] then blocked else AList.update (task_id order) ivs blocked)
         | DropTask i \<Rightarrow> (kept, infs @ [i], blocked)))"

definition apply_weather_filter ::
  "runtime \<Rightarrow> task_row list \<Rightarrow> site_row list \<Rightarrow> forecast_row list \<Rightarrow> weather_policy option \<Rightarrow> real
     \<Rightarrow> task_row list \<times> infeasible list \<times> blocked_windows" where
  "apply_weather_filter rt orders sites forecasts weather now =
     (case weather of
        None \<Rightarrow> (orders, [], [])
      | Some w \<Rightarrow>
          if sensitivity w = [] \<or> forecasts = [] then (orders, [], [])
          else fold (weather_step rt sites forecasts w (py_int now)) orders ([], [], []))"

subsection \<open>Lemmas\<close>

lemma forecast_epoch_interval_valid:
  "forecast_epoch_interval rt w = Some i \<Longrightarrow> fst i \<le> snd i"
  by (auto simp: forecast_epoch_interval_def Let_def split: option.splits if_splits)

lemma pts_compliant:
  "x \<in> pts (compliant_intervals rt (a, b) dims weather windows) \<longleftrightarrow>
     a \<le> x \<and> x \<le> b \<and> (\<exists>w\<in>set windows. window_ok w dims weather \<and>
        (\<exists>i. forecast_epoch_interval rt w = Some i \<and> fst i \<le> x \<and> x \<le> snd i))"
  unfolding pts_iff compliant_intervals_def List.map_filter_def
  by (force simp: Let_def split: if_splits option.splits)

text \<open>
  Conservative mode: the blocked intervals of a kept task are exactly the seconds of its horizon
  no compliant forecast window covers.
\<close>

lemma filter_conservative_blocked:
  assumes "filter_conservative rt order dims windows weather now = KeepTask blocked"
    and "coverage_horizon rt order now = (a, b)"
  shows "x \<in> pts blocked \<longleftrightarrow> a \<le> x \<and> x \<le> b \<and>
     \<not> (\<exists>w\<in>set windows. window_ok w dims weather \<and>
          (\<exists>i. forecast_epoch_interval rt w = Some i \<and> fst i \<le> x \<and> x \<le> snd i))"
proof -
  have "blocked = subtract_intervals [(a, b)] (merge_intervals (compliant_intervals rt (a, b) dims weather windows))"
    using assms by (auto simp: filter_conservative_def Let_def split: if_splits)
  then show ?thesis by (simp add: pts_compliant) blast
qed

lemma filter_conservative_kept_iff:
  assumes "coverage_horizon rt order now = (a, b)"
  shows "(\<exists>bl. filter_conservative rt order dims windows weather now = KeepTask bl) \<longleftrightarrow>
     (\<exists>x w i. a \<le> x \<and> x \<le> b \<and> w \<in> set windows \<and> window_ok w dims weather \<and>
        forecast_epoch_interval rt w = Some i \<and> fst i \<le> x \<and> x \<le> snd i)"
proof -
  have "(\<exists>bl. filter_conservative rt order dims windows weather now = KeepTask bl) \<longleftrightarrow>
      pts (compliant_intervals rt (a, b) dims weather windows) \<noteq> {}"
    using assms by (simp add: filter_conservative_def Let_def iv.merge_empty_iff)
  then show ?thesis unfolding set_eq_iff pts_compliant by blast
qed

lemma weather_fold:
  assumes "fold (weather_step rt sites fcs w now) orders (k0, i0, b0) = (kept, infs, blocked)"
  shows "kept = k0 @ filter (\<lambda>t. \<exists>bl. weather_task rt sites fcs w now t = KeepTask bl) orders
    \<and> infs = i0 @ List.map_filter (\<lambda>t. case weather_task rt sites fcs w now t of
                                   KeepTask _ \<Rightarrow> None | DropTask i \<Rightarrow> Some i) orders"
  using assms
proof (induction orders arbitrary: k0 i0 b0)
  case (Cons t orders)
  obtain k i b where st: "weather_step rt sites fcs w now t (k0, i0, b0) = (k, i, b)"
    by (metis prod_cases3)
  with Cons.prems Cons.IH [of k i b] show ?case
    by (auto simp: weather_step_def List.map_filter_def split: weather_verdict.splits)
qed (simp add: List.map_filter_def)

text \<open>With distinct task ids the recorded intervals are those of the task's own verdict.\<close>

lemma weather_fold_blocked:
  assumes "fold (weather_step rt sites fcs w now) orders (k0, i0, b0) = (kept, infs, blocked)"
    and "distinct (map task_id orders)" "t \<in> set orders"
    and "\<forall>t\<in>set orders. map_of b0 (task_id t) = None"
  shows "map_of blocked (task_id t) =
     (case weather_task rt sites fcs w now t of
        KeepTask [] \<Rightarrow> None | KeepTask ivs \<Rightarrow> Some ivs | DropTask i \<Rightarrow> None)"
proof -
  have other: "map_of b (task_id t) = map_of b0 (task_id t)"
    if "fold (weather_step rt sites fcs w now) ts (k0, i0, b0) = (k, i, b)"
      "task_id t \<notin> task_id ` set ts" for ts k0 i0 b0 k i b and t :: task_row
    using that
  proof (induction ts arbitrary: k0 i0 b0)
    case (Cons u ts)
    obtain k' i' b' where st: "weather_step rt sites fcs w now u (k0, i0, b0) = (k', i', b')"
      by (metis prod_cases3)
    then have "map_of b' (task_id t) = map_of b0 (task_id t)"
      using Cons.prems(2)
      by (auto simp: weather_step_def map_of_update split: weather_verdict.splits if_splits)
    with Cons.IH [of k' i' b'] Cons.prems st show ?case by simp
  qed simp
  show ?thesis
    using assms
  proof (induction orders arbitrary: k0 i0 b0)
    case (Cons u orders)
    obtain k i b where st: "weather_step rt sites fcs w now u (k0, i0, b0) = (k, i, b)"
      by (metis prod_cases3)
    have rest: "fold (weather_step rt sites fcs w now) orders (k, i, b) = (kept, infs, blocked)"
      using Cons.prems(1) st by simp
    have b: "map_of b (task_id v) = (if task_id v = task_id u then
        (case weather_task rt sites fcs w now u of
           KeepTask [] \<Rightarrow> None | KeepTask ivs \<Rightarrow> Some ivs | DropTask i \<Rightarrow> None)
        else map_of b0 (task_id v))" for v :: task_row
      using st Cons.prems(4)
      by (auto simp: weather_step_def map_of_update split: weather_verdict.splits list.splits if_splits)
    show ?case
    proof (cases "t = u")
      case True
      with Cons.prems(2) have "task_id t \<notin> task_id ` set orders" by auto
      from other [OF rest this] b True show ?thesis by simp
    next
      case False
      with Cons.prems have "t \<in> set orders" "distinct (map task_id orders)" by auto
      moreover have "\<forall>v\<in>set orders. map_of b (task_id v) = None"
        using b Cons.prems(2,4) by (auto simp: image_iff)
      ultimately show ?thesis using Cons.IH [OF rest] by blast
    qed
  qed simp
qed

subsection \<open>Properties\<close>

text \<open>conservative weather coverage is exact: when a task is kept, a second of its horizon is
  blocked iff no compliant forecast window covers it.\<close>

theorem conservative_blocking_exact:
  assumes "filter_conservative rt order dims windows weather now = KeepTask blocked"
    and "coverage_horizon rt order now = (a, b)"
  shows "x \<in> pts blocked \<longleftrightarrow> a \<le> x \<and> x \<le> b \<and>
     \<not> (\<exists>w\<in>set windows. window_ok w dims weather \<and>
          (\<exists>i. forecast_epoch_interval rt w = Some i \<and> fst i \<le> x \<and> x \<le> snd i))"
  by (rule filter_conservative_blocked [OF assms])

definition sample_policy :: weather_policy where
  "sample_policy =
     \<lparr>maxWindMs = 5, maxRainMmPerH = 1, maxSoilMoisturePct = 30,
      sensitivity = [(''SPRAY'', [''wind''])], requireForecastCoverage = True\<rparr>"

definition sample_forecast :: forecast_row where
  "sample_forecast =
     \<lparr>forecast_id = ''f1'', fc_lat = 0, fc_lon = 0, valid_from = Some ''t1'', valid_to = Some ''t2'',
      wind_speed = Some 3, precipitation_rate = None, soil_moisture = None\<rparr>"

text \<open>One calm forecast over \<open>[100, 200]\<close> in a horizon of \<open>[0, 300]\<close>: second 250 is blocked.\<close>

lemma conservative_blocking_exact_witness:
  "250 \<in> pts [(0, 99), (201, 300)]"
proof -
  let ?t = "sample_task\<lparr>deadline := Some ''t3''\<rparr>"
  have "filter_conservative sample_runtime ?t [''wind''] [sample_forecast] sample_policy 0
      = KeepTask [(0, 99), (201, 300)]" by code_simp
  moreover have "coverage_horizon sample_runtime ?t 0 = (0, 300)" by code_simp
  moreover have "forecast_epoch_interval sample_runtime sample_forecast = Some (100, 200)" by code_simp
  ultimately show ?thesis
    using conservative_blocking_exact [of sample_runtime ?t "[''wind'']" "[sample_forecast]"
        sample_policy 0 "[(0, 99), (201, 300)]" 0 300 250]
    by simp
qed

end
