(* ===== verification/Operators.thy ===== *)
theory Operators
  imports Restrictions
begin

text \<open>
  Operator qualification (second part of \<open>solver/enforcement.py\<close>): the demand window of an
  operation, the claim of a backup operator against the calendars of earlier claims, the pass
  over the clusters, and the stamping of clusters that share an operator over an overlapping
  window. The setting \<open>OPERATOR_SHARING_SEQUENTIAL\<close> is the argument \<open>allow_overlap\<close>. A Python
  set that is iterated (the overlap-shared operators) is a list in order of first insertion.
\<close>

subsection \<open>Demand windows\<close>

definition window_interval :: "int \<Rightarrow> int \<Rightarrow> time_window \<Rightarrow> interval option" where
  "window_interval now_epoch horizon_end w =
     (let start_epoch = max now_epoch (py_int (fst w));
          end_epoch = (case snd w of None \<Rightarrow> horizon_end | Some e \<Rightarrow> min horizon_end (py_int e))
      in if end_epoch > start_epoch then Some (start_epoch, end_epoch) else None)"

text \<open>\<open>None\<close>: some order has no usable windows, and the whole horizon is returned at once.\<close>

fun demand_intervals :: "runtime \<Rightarrow> int \<Rightarrow> int \<Rightarrow> task_row option list \<Rightarrow> interval list option" where
  "demand_intervals rt now_epoch horizon_end [] = Some []"
| "demand_intervals rt now_epoch horizon_end (order # orders) =
     (let windows = (case order of None \<Rightarrow> [] | Some t \<Rightarrow> parse_time_windows rt (time_windows t))
      in if windows = [] then None
         else map_option (\<lambda>rest. List.map_filter (window_interval now_epoch horizon_end) windows @ rest)
                (demand_intervals rt now_epoch horizon_end orders))"

definition operator_demand_window ::
  "runtime \<Rightarrow> task_row option list \<Rightarrow> int \<Rightarrow> int \<Rightarrow> interval list" where
  "operator_demand_window rt orders now_epoch horizon_end =
     (case demand_intervals rt now_epoch horizon_end orders of
        None \<Rightarrow> [(now_epoch, horizon_end)]
      | Some intervals \<Rightarrow>
          if intervals = [] then [(now_epoch, horizon_end)] else merge_busy intervals)"

subsection \<open>Claiming a backup operator\<close>

type_synonym calendar = "(string, interval list) dict"

text \<open>The loop's best candidates: the freest free operator and the freest overlapping one.\<close>

record claim_best =
  free_best :: "string option"
  free_best_score :: real
  overlap_best :: "string option"
  overlap_best_score :: real

definition claim_scan ::
  "runtime \<Rightarrow> string \<Rightarrow> string set \<Rightarrow> calendar \<Rightarrow> interval list \<Rightarrow> (string, real) dict
     \<Rightarrow> string \<times> operator_row \<Rightarrow> claim_best \<Rightarrow> claim_best" where
  "claim_scan rt operation main_claimed backup_busy demand free_capacity cand b =
     (case cand of (operator_id, operator) \<Rightarrow>
        if operator_id \<in> main_claimed then b
        else if operation \<notin> set (ops_set rt (certified_operations operator)) then b
        else let free = dget_default free_capacity operator_id 1 in
          if intervals_overlap (dget_default backup_busy operator_id []) demand then
            (if free > overlap_best_score b
             then b\<lparr>overlap_best := Some operator_id, overlap_best_score := free\<rparr> else b)
          else if free > free_best_score b
          then b\<lparr>free_best := Some operator_id, free_best_score := free\<rparr> else b)"

definition claim_backup_operator ::
  "runtime \<Rightarrow> string \<Rightarrow> (string, operator_row) dict \<Rightarrow> string set \<Rightarrow> calendar \<Rightarrow> interval list
     \<Rightarrow> (string, real) dict \<Rightarrow> bool \<Rightarrow> (string option \<times> bool) \<times> calendar" where
  "claim_backup_operator rt operation operators_by_id main_claimed backup_busy demand free_capacity
      allow_overlap =
     (let b = fold (claim_scan rt operation main_claimed backup_busy demand free_capacity)
                operators_by_id
                \<lparr>free_best = None, free_best_score = -1, overlap_best = None, overlap_best_score = -1\<rparr>;
          (chosen, is_overlap) =
            (if free_best b = None \<and> allow_overlap then (overlap_best b, True)
             else (free_best b, False))
      in ((chosen, is_overlap),
          case chosen of
            None \<Rightarrow> backup_busy
          | Some c \<Rightarrow>
              AList.update c (merge_busy (dget_default backup_busy c [] @ demand)) backup_busy))"

subsection \<open>The pass over the clusters\<close>

record qual_state =
  backup_busy :: calendar
  operator_claimants :: "(string, string list) dict"
  operator_overlap :: "string list"
  excluded :: "infeasible list"

text \<open>First pass over a cluster's tasks: id, operation (if any) and whether it is certified here.\<close>

type_synonym plan_entry = "string \<times> string option \<times> bool"

definition plan_task ::
  "(string \<Rightarrow> task_row option) \<Rightarrow> string list \<Rightarrow> string \<Rightarrow> plan_entry" where
  "plan_task order_index certified t =
     (let order = order_index t;
          op_text = (case order of None \<Rightarrow> '''' | Some r \<Rightarrow> py_upper (operation_type r));
          operation = (if op_text = [] then None else Some op_text)
      in (t, operation,
          order \<noteq> None \<and> (case operation of None \<Rightarrow> False | Some p \<Rightarrow> p \<in> set certified)))"

definition needs_backup :: "plan_entry list \<Rightarrow> (string, string list) dict" where
  "needs_backup plan =
     fold (\<lambda>(t, operation, certified_here) d.
        (case operation of
           Some p \<Rightarrow> if certified_here then d else dappend p t d
         | None \<Rightarrow> d)) plan []"

text \<open>The loop that claims one backup per operation.\<close>

fun claim_operations ::
  "runtime \<Rightarrow> (string \<Rightarrow> task_row option) \<Rightarrow> (string, operator_row) dict \<Rightarrow> string set
     \<Rightarrow> (string, real) dict \<Rightarrow> bool \<Rightarrow> int \<Rightarrow> int \<Rightarrow> string \<Rightarrow> (string, string list) dict
     \<Rightarrow> qual_state \<Rightarrow> (string, string) dict \<Rightarrow> (string, string) dict \<times> qual_state" where
  "claim_operations rt oi ops main fc ao now hz cid [] st backups = (backups, st)"
| "claim_operations rt oi ops main fc ao now hz cid ((operation, ts) # rest) st backups =
     (let demand = operator_demand_window rt (map oi ts) now hz;
          ((chosen, is_overlap), busy) =
            claim_backup_operator rt operation ops main (backup_busy st) demand fc ao
      in case chosen of
           None \<Rightarrow> claim_operations rt oi ops main fc ao now hz cid rest
                     (st\<lparr>backup_busy := busy\<rparr>) backups
         | Some b \<Rightarrow>
             (let claimants = dget_default (operator_claimants st) b [];
                  claimants' = (if cid \<in> set claimants then claimants else claimants @ [cid]);
                  overlap' = (if is_overlap then List.insert b (operator_overlap st)
                              else operator_overlap st)
              in claim_operations rt oi ops main fc ao now hz cid rest
                   (st\<lparr>backup_busy := busy,
                       operator_claimants := AList.update b claimants' (operator_claimants st),
                       operator_overlap := overlap'\<rparr>)
                   (AList.update operation b backups)))"

text \<open>Second pass: a task stays, gets its backup, or is excluded.\<close>

fun assign_tasks ::
  "string \<Rightarrow> string \<Rightarrow> (string, string) dict \<Rightarrow> plan_entry list
     \<Rightarrow> string list \<times> (string, string) dict \<times> infeasible list" where
  "assign_tasks cid oref backups [] = ([], [], [])"
| "assign_tasks cid oref backups ((t, operation, certified_here) # plan) =
     (let (kept, task_ops, infs) = assign_tasks cid oref backups plan;
          backup = (case operation of None \<Rightarrow> None | Some p \<Rightarrow> map_of backups p)
      in if certified_here then (t # kept, task_ops, infs)
         else case backup of
                Some b \<Rightarrow> (t # kept, (t, b) # AList.delete t task_ops, infs)
              | None \<Rightarrow>
                  (kept, task_ops,
                   mk_infeasible t cid NO_AVAILABLE_OPERATOR
                     (NoQualifiedOperator oref (case operation of None \<Rightarrow> ''<unknown>'' | Some p \<Rightarrow> p))
                   # infs))"

definition qualify_cluster ::
  "runtime \<Rightarrow> (string \<Rightarrow> task_row option) \<Rightarrow> (string, operator_row) dict \<Rightarrow> string set
     \<Rightarrow> (string, real) dict \<Rightarrow> bool \<Rightarrow> int \<Rightarrow> int \<Rightarrow> cluster_spec \<Rightarrow> qual_state
     \<Rightarrow> cluster_spec \<times> qual_state" where
  "qualify_cluster rt oi ops main fc ao now hz cluster st =
     (if allocated_prime_related cluster = [] \<and> operator_ref cluster = [] then (cluster, st)
      else
        let certified = (case map_of ops (operator_ref cluster) of
                           None \<Rightarrow> []
                         | Some operator \<Rightarrow> ops_set rt (certified_operations operator));
            plan = map (plan_task oi certified) (task_ids cluster);
            (backups, st') =
              claim_operations rt oi ops main fc ao now hz (cluster_id cluster) (needs_backup plan) st [];
            (kept, task_ops, infs) = assign_tasks (cluster_id cluster) (operator_ref cluster) backups plan
        in (cluster\<lparr>task_ids := kept,
                    task_operators := (if task_ops = [] then task_operators cluster else task_ops)\<rparr>,
            st'\<lparr>excluded := excluded st' @ infs\<rparr>))"

fun qualify_clusters ::
  "runtime \<Rightarrow> (string \<Rightarrow> task_row option) \<Rightarrow> (string, operator_row) dict \<Rightarrow> string set
     \<Rightarrow> (string, real) dict \<Rightarrow> bool \<Rightarrow> int \<Rightarrow> int \<Rightarrow> cluster_spec list \<Rightarrow> qual_state
     \<Rightarrow> cluster_spec list \<times> qual_state" where
  "qualify_clusters rt oi ops main fc ao now hz [] st = ([], st)"
| "qualify_clusters rt oi ops main fc ao now hz (c # cs) st =
     (let (c', st1) = qualify_cluster rt oi ops main fc ao now hz c st;
          (cs', st2) = qualify_clusters rt oi ops main fc ao now hz cs st1
      in (c' # cs', st2))"

text \<open>Stamping: the last cluster with the claimant's id gets the operator, once.\<close>

fun update_first :: "('a \<Rightarrow> bool) \<Rightarrow> ('a \<Rightarrow> 'a) \<Rightarrow> 'a list \<Rightarrow> 'a list" where
  "update_first P f [] = []"
| "update_first P f (x # xs) = (if P x then f x # xs else x # update_first P f xs)"

definition stamp_cluster :: "string \<Rightarrow> string \<Rightarrow> cluster_spec list \<Rightarrow> cluster_spec list" where
  "stamp_cluster operator_id claimant_id clusters =
     rev (update_first (\<lambda>c. cluster_id c = claimant_id)
       (\<lambda>c. if operator_id \<in> set (shared_backup_operators c) then c
            else c\<lparr>shared_backup_operators := shared_backup_operators c @ [operator_id]\<rparr>)
       (rev clusters))"

definition stamp_all :: "qual_state \<Rightarrow> cluster_spec list \<Rightarrow> cluster_spec list" where
  "stamp_all st clusters =
     fold (\<lambda>operator_id cs.
        fold (\<lambda>claimant cs. stamp_cluster operator_id claimant cs)
          (dget_default (operator_claimants st) operator_id []) cs)
       (operator_overlap st) clusters"

definition init_qual :: qual_state where
  "init_qual = \<lparr>backup_busy = [], operator_claimants = [], operator_overlap = [], excluded = []\<rparr>"

definition apply_operator_qualification ::
  "runtime \<Rightarrow> cluster_spec list \<Rightarrow> (string \<Rightarrow> task_row option) \<Rightarrow> (string, operator_row) dict
     \<Rightarrow> (string, real) dict \<Rightarrow> bool \<Rightarrow> real \<Rightarrow> cluster_spec list \<times> infeasible list" where
  "apply_operator_qualification rt clusters order_index ops free_capacity allow_overlap now =
     (let now_epoch = py_int now;
          main = operator_ref ` {c \<in> set clusters. operator_ref c \<noteq> []};
          (cs, st) = qualify_clusters rt order_index ops main free_capacity allow_overlap now_epoch
                       (now_epoch + routing_horizon_s) clusters init_qual
      in (stamp_all st cs, excluded st))"

subsection \<open>Demand windows are valid half-open intervals\<close>

definition valid_calendar :: "interval list \<Rightarrow> bool" where
  "valid_calendar ivs \<longleftrightarrow> (\<forall>i\<in>set ivs. fst i < snd i)"

lemma merge_loop_valid_strict:
  "\<forall>i\<in>set ivs. fst i < snd i \<Longrightarrow> \<forall>i\<in>set acc. fst i < snd i \<Longrightarrow>
   \<forall>i\<in>set (merge_loop g acc ivs). fst i < snd i"
  by (induction g acc ivs rule: merge_loop.induct) (auto simp: less_max_iff_disj)

lemma valid_merge_busy: "valid_calendar ivs \<Longrightarrow> valid_calendar (merge_busy ivs)"
  using merge_loop_valid_strict [of "sort ivs" "[]" 0]
  by (simp add: valid_calendar_def merge_busy_def)

lemma valid_calendar_append [simp]:
  "valid_calendar (xs @ ys) \<longleftrightarrow> valid_calendar xs \<and> valid_calendar ys"
  by (auto simp: valid_calendar_def)

lemma valid_window_intervals: "valid_calendar (List.map_filter (window_interval now hz) ws)"
  by (auto simp: valid_calendar_def List.map_filter_def window_interval_def Let_def
      split: if_splits)

lemma demand_intervals_valid:
  "demand_intervals rt now hz os = Some ivs \<Longrightarrow> valid_calendar ivs"
proof (induction os arbitrary: ivs)
  case (Cons t ts)
  from Cons.prems obtain ws rest where "demand_intervals rt now hz ts = Some rest"
      "ivs = List.map_filter (window_interval now hz) ws @ rest"
    by (auto simp: Let_def split: if_splits)
  with Cons.IH show ?case by (simp add: valid_window_intervals)
qed (simp add: valid_calendar_def)

lemma operator_demand_valid: "now < hz \<Longrightarrow> valid_calendar (operator_demand_window rt os now hz)"
  by (auto simp: operator_demand_window_def valid_merge_busy demand_intervals_valid
      split: option.splits) (simp_all add: valid_calendar_def)

text \<open>What one task needs of its operator: its workable windows inside the horizon.\<close>

definition workable :: "runtime \<Rightarrow> int \<Rightarrow> int \<Rightarrow> task_row option \<Rightarrow> int set" where
  "workable rt now hz order =
     (let ws = (case order of None \<Rightarrow> [] | Some t \<Rightarrow> parse_time_windows rt (time_windows t))
      in if ws = [] then {now..<hz} else hpts (List.map_filter (window_interval now hz) ws))"

lemma hpts_Un [simp]: "hpts (xs @ ys) = hpts xs \<union> hpts ys"
  by (auto simp: hpts_iff)

lemma window_intervals_range: "hpts (List.map_filter (window_interval now hz) ws) \<subseteq> {now..<hz}"
proof
  fix x assume "x \<in> hpts (List.map_filter (window_interval now hz) ws)"
  then obtain w i where "window_interval now hz w = Some i" "fst i \<le> x" "x < snd i"
    by (auto simp: hpts_iff List.map_filter_def)
  then show "x \<in> {now..<hz}"
    by (cases "snd w") (auto simp: window_interval_def Let_def split: if_splits)
qed

lemma demand_intervals_workable:
  "demand_intervals rt now hz os = Some ivs \<Longrightarrow> order \<in> set os \<Longrightarrow> workable rt now hz order \<subseteq> hpts ivs"
proof (induction os arbitrary: ivs)
  case (Cons t ts)
  let ?ws = "case t of None \<Rightarrow> [] | Some t \<Rightarrow> parse_time_windows rt (time_windows t)"
  from Cons.prems(1) obtain rest where rest: "?ws \<noteq> []" "demand_intervals rt now hz ts = Some rest"
      "ivs = List.map_filter (window_interval now hz) ?ws @ rest"
    by (auto simp: Let_def split: if_splits)
  show ?case
  proof (cases "order = t")
    case True
    with rest show ?thesis by (simp add: workable_def Let_def)
  next
    case False
    with Cons.prems(2) Cons.IH [OF rest(2)] have "workable rt now hz order \<subseteq> hpts rest" by simp
    with rest(3) show ?thesis by auto
  qed
qed simp

lemma operator_demand_workable:
  assumes "order \<in> set os"
  shows "workable rt now hz order \<subseteq> hpts (operator_demand_window rt os now hz)"
proof (cases "demand_intervals rt now hz os")
  case None
  then show ?thesis
    using window_intervals_range by (auto simp: operator_demand_window_def workable_def Let_def hpts_iff)
next
  case (Some ivs)
  from demand_intervals_workable [OF Some assms] show ?thesis
    using Some by (auto simp: operator_demand_window_def hpts_iff)
qed

subsection \<open>A claim is sound\<close>

definition eligible :: "runtime \<Rightarrow> string \<Rightarrow> string set \<Rightarrow> string \<times> operator_row \<Rightarrow> bool" where
  "eligible rt operation main cand \<longleftrightarrow>
     fst cand \<notin> main \<and> operation \<in> set (ops_set rt (certified_operations (snd cand)))"

lemma claim_scan_free:
  assumes "fold (claim_scan rt p main busy demand fc) ops b0 = b"
  shows "(free_best b = free_best b0 \<and> free_best_score b = free_best_score b0
        \<or> (\<exists>c\<in>set ops. eligible rt p main c \<and> free_best b = Some (fst c)
             \<and> \<not> intervals_overlap (dget_default busy (fst c) []) demand
             \<and> free_best_score b = dget_default fc (fst c) 1))
    \<and> free_best_score b0 \<le> free_best_score b
    \<and> (\<forall>c\<in>set ops. eligible rt p main c \<longrightarrow>
          \<not> intervals_overlap (dget_default busy (fst c) []) demand \<longrightarrow>
          dget_default fc (fst c) 1 \<le> free_best_score b)"
  using assms
proof (induction ops arbitrary: b0)
  case (Cons c ops)
  let ?b1 = "claim_scan rt p main busy demand fc c b0"
  have step: "(if eligible rt p main c \<and> \<not> intervals_overlap (dget_default busy (fst c) []) demand
        \<and> dget_default fc (fst c) 1 > free_best_score b0
      then free_best ?b1 = Some (fst c) \<and> free_best_score ?b1 = dget_default fc (fst c) 1
      else free_best ?b1 = free_best b0 \<and> free_best_score ?b1 = free_best_score b0)"
    by (cases c) (auto simp: claim_scan_def eligible_def Let_def)
  have "fold (claim_scan rt p main busy demand fc) ops ?b1 = b" using Cons.prems by simp
  from Cons.IH [OF this] step show ?case
    by (auto split: if_splits)
qed simp

lemma claim_scan_overlap:
  assumes "fold (claim_scan rt p main busy demand fc) ops b0 = b"
  shows "overlap_best b = overlap_best b0
        \<or> (\<exists>c\<in>set ops. eligible rt p main c \<and> overlap_best b = Some (fst c)
             \<and> intervals_overlap (dget_default busy (fst c) []) demand)"
  using assms
proof (induction ops arbitrary: b0)
  case (Cons c ops)
  let ?b1 = "claim_scan rt p main busy demand fc c b0"
  have step: "overlap_best ?b1 = overlap_best b0
      \<or> eligible rt p main c \<and> overlap_best ?b1 = Some (fst c)
        \<and> intervals_overlap (dget_default busy (fst c) []) demand"
    by (cases c) (auto simp: claim_scan_def eligible_def Let_def)
  have "fold (claim_scan rt p main busy demand fc) ops ?b1 = b" using Cons.prems by simp
  from Cons.IH [OF this] step show ?case by auto
qed simp

lemma claim_none:
  "claim_backup_operator rt p ops main busy demand fc ao = ((None, ov), busy') \<Longrightarrow> busy' = busy"
  by (auto simp: claim_backup_operator_def Let_def split: if_splits option.splits)

lemma claim_sound:
  assumes "claim_backup_operator rt p ops main busy demand fc ao = ((Some b, ov), busy')"
  shows "\<exists>r. (b, r) \<in> set ops \<and> eligible rt p main (b, r)"
    and "ov \<Longrightarrow> ao"
    and "\<not> ov \<Longrightarrow> \<not> intervals_overlap (dget_default busy b []) demand"
    and "busy' = AList.update b (merge_busy (dget_default busy b [] @ demand)) busy"
proof -
  let ?start = "\<lparr>free_best = None, free_best_score = -1, overlap_best = None, overlap_best_score = -1\<rparr>"
  let ?b = "fold (claim_scan rt p main busy demand fc) ops ?start"
  have free: "free_best ?b = None \<or> (\<exists>c\<in>set ops. eligible rt p main c \<and> free_best ?b = Some (fst c)
      \<and> \<not> intervals_overlap (dget_default busy (fst c) []) demand)"
    using claim_scan_free [where rt = rt and p = p and main = main and busy = busy and demand = demand and fc = fc
        and ops = ops and ?b0.0 = ?start, OF refl] by auto
  have over: "overlap_best ?b = None \<or> (\<exists>c\<in>set ops. eligible rt p main c \<and> overlap_best ?b = Some (fst c))"
    using claim_scan_overlap [where rt = rt and p = p and main = main and busy = busy and demand = demand and fc = fc
        and ops = ops and ?b0.0 = ?start, OF refl] by auto
  show "busy' = AList.update b (merge_busy (dget_default busy b [] @ demand)) busy"
    using assms by (auto simp: claim_backup_operator_def Let_def split: prod.splits if_splits)
  show "ov \<Longrightarrow> ao"
    using assms by (auto simp: claim_backup_operator_def Let_def split: if_splits)
  have two: "(overlap_best ?b = Some b \<and> ov) \<or> (free_best ?b = Some b \<and> \<not> ov)"
    using assms by (auto simp: claim_backup_operator_def Let_def split: if_splits)
  then show "\<exists>r. (b, r) \<in> set ops \<and> eligible rt p main (b, r)"
    using free over by fastforce
  show "\<not> ov \<Longrightarrow> \<not> intervals_overlap (dget_default busy b []) demand"
    using two free by fastforce
qed

subsection \<open>The claims of one cluster\<close>

definition valid_busy :: "calendar \<Rightarrow> bool" where
  "valid_busy busy \<longleftrightarrow> (\<forall>b. valid_calendar (dget_default busy b []))"

definition busy_pts :: "calendar \<Rightarrow> string \<Rightarrow> int set" where
  "busy_pts busy b = hpts (dget_default busy b [])"

lemma busy_pts_claim:
  "busy_pts (AList.update b (merge_busy (dget_default busy b [] @ demand)) busy) k =
     busy_pts busy k \<union> (if k = b then hpts demand else {})"
  by (simp add: busy_pts_def dget_default_def map_of_update)

lemma valid_busy_claim:
  "valid_busy busy \<Longrightarrow> valid_calendar demand \<Longrightarrow>
   valid_busy (AList.update b (merge_busy (dget_default busy b [] @ demand)) busy)"
  using valid_merge_busy [of "dget_default busy b [] @ demand"]
  by (simp add: valid_busy_def dget_default_def map_of_update)

lemma overlap_busy:
  "valid_busy busy \<Longrightarrow> valid_calendar demand \<Longrightarrow>
   intervals_overlap (dget_default busy b []) demand \<longleftrightarrow> busy_pts busy b \<inter> hpts demand \<noteq> {}"
  unfolding busy_pts_def
  by (rule intervals_overlap_iff) (auto simp: valid_busy_def valid_calendar_def)

lemma claim_operations_sound:
  assumes "claim_operations rt oi ops main fc ao now hz cid needs st bs = (bs', st')"
    and "now < hz" "valid_busy (backup_busy st)"
  shows "valid_busy (backup_busy st') \<and> excluded st' = excluded st
    \<and> (\<forall>b. busy_pts (backup_busy st) b \<subseteq> busy_pts (backup_busy st') b)
    \<and> (\<forall>p b. map_of bs' p = Some b \<longrightarrow> map_of bs p = Some b \<or>
         (\<exists>ts r. (p, ts) \<in> set needs \<and> (b, r) \<in> set ops \<and> eligible rt p main (b, r)
            \<and> hpts (operator_demand_window rt (map oi ts) now hz) \<subseteq> busy_pts (backup_busy st') b
            \<and> (\<not> ao \<longrightarrow> hpts (operator_demand_window rt (map oi ts) now hz)
                  \<inter> busy_pts (backup_busy st) b = {})))"
  using assms(1,3)
proof (induction needs arbitrary: st bs)
  case (Cons need needs)
  obtain p ts where need: "need = (p, ts)" by (cases need)
  define demand where "demand = operator_demand_window rt (map oi ts) now hz"
  obtain chosen ov busy where claim:
    "claim_backup_operator rt p ops main (backup_busy st) demand fc ao = ((chosen, ov), busy)"
    by (metis prod.collapse)
  have vd: "valid_calendar demand" unfolding demand_def using assms(2) by (rule operator_demand_valid)
  show ?case
  proof (cases chosen)
    case None
    with claim have "busy = backup_busy st" using claim_none by blast
    with Cons.prems None claim need have
      "claim_operations rt oi ops main fc ao now hz cid needs st bs = (bs', st')"
      by (simp add: demand_def)
    from Cons.IH [OF this Cons.prems(2)] need show ?thesis by fastforce
  next
    case (Some b)
    from claim_sound [OF claim [unfolded Some]] obtain r where
      r: "(b, r) \<in> set ops" "eligible rt p main (b, r)" and ov: "ov \<Longrightarrow> ao"
      and dis: "\<not> ov \<Longrightarrow> \<not> intervals_overlap (dget_default (backup_busy st) b []) demand"
      and busy: "busy = AList.update b (merge_busy (dget_default (backup_busy st) b [] @ demand)) (backup_busy st)"
      by blast
    from Cons.prems(1) claim Some need obtain st1 where st1: "backup_busy st1 = busy" "excluded st1 = excluded st"
      "claim_operations rt oi ops main fc ao now hz cid needs st1 (AList.update p b bs) = (bs', st')"
      by (simp add: demand_def Let_def) (erule that [rotated 2]; simp)
    have v1: "valid_busy (backup_busy st1)"
      using st1(1) busy valid_busy_claim [OF Cons.prems(2) vd] by simp
    note ih = Cons.IH [OF st1(3) v1]
    have grow: "busy_pts (backup_busy st1) k = busy_pts (backup_busy st) k \<union> (if k = b then hpts demand else {})" for k
      by (simp add: st1(1) busy busy_pts_claim)
    have free: "\<not> ao \<longrightarrow> hpts demand \<inter> busy_pts (backup_busy st) b = {}"
      using ov dis overlap_busy [OF Cons.prems(2) vd] by blast
    have cur: "hpts demand \<subseteq> busy_pts (backup_busy st') b" using ih grow [of b] by auto
    have "map_of bs q = Some c \<or> (\<exists>ts r. (q, ts) \<in> set (need # needs) \<and> (c, r) \<in> set ops \<and> eligible rt q main (c, r)
        \<and> hpts (operator_demand_window rt (map oi ts) now hz) \<subseteq> busy_pts (backup_busy st') c
        \<and> (\<not> ao \<longrightarrow> hpts (operator_demand_window rt (map oi ts) now hz) \<inter> busy_pts (backup_busy st) c = {}))"
      if q: "map_of bs' q = Some c" for q c
    proof -
      from ih q consider "map_of (AList.update p b bs) q = Some c"
        | ts' r' where "(q, ts') \<in> set needs" "(c, r') \<in> set ops" "eligible rt q main (c, r')"
          "hpts (operator_demand_window rt (map oi ts') now hz) \<subseteq> busy_pts (backup_busy st') c"
          "\<not> ao \<longrightarrow> hpts (operator_demand_window rt (map oi ts') now hz) \<inter> busy_pts (backup_busy st1) c = {}"
        by blast
      then show ?thesis
      proof cases
        case 1
        with r cur free need show ?thesis
          by (cases "q = p") (auto simp: map_of_update demand_def)
      next
        case 2
        then show ?thesis using grow [of c] by (intro disjI2 exI [of _ ts'] exI [of _ r']) auto
      qed
    qed
    with ih grow st1(2) show ?thesis by auto
  qed
qed simp

lemma claim_operations_no_overlap:
  "claim_operations rt oi ops main fc False now hz cid needs st bs = (bs', st') \<Longrightarrow>
   operator_overlap st' = operator_overlap st"
proof (induction needs arbitrary: st bs)
  case (Cons need needs)
  then show ?case
    by (cases need) (auto simp: Let_def claim_backup_operator_def split: prod.splits option.splits)
qed simp

subsection \<open>Demand groups and the second pass\<close>

lemma needs_backup_fold:
  fixes plan :: "plan_entry list"
  defines "step \<equiv> \<lambda>(t :: string, operation, certified_here) d.
        (case operation of
           Some p \<Rightarrow> if certified_here then d else dappend p t d
         | None \<Rightarrow> d)"
  shows "wf_dict d \<Longrightarrow> wf_dict (fold step plan d)"
    and "dget_default (fold step plan d) p [] =
      dget_default d p [] @ map fst (filter (\<lambda>(t, q, c). q = Some p \<and> \<not> c) plan)"
proof (induction plan arbitrary: d)
  case (Cons e plan)
  obtain t q c where e: "e = (t, q, c)" by (cases e) auto
  {
    case 1
    then have "wf_dict (step e d)" by (auto simp: e step_def split: option.splits)
    with Cons(1) show ?case by simp
  next
    case 2
    have "dget_default (step e d) p [] = dget_default d p [] @ (if q = Some p \<and> \<not> c then [t] else [])"
      by (auto simp: e step_def dget_default_dappend split: option.splits)
    with Cons(2) [of "step e d"] show ?case by (auto simp: e)
  }
qed simp_all

lemma needs_backup_group:
  assumes "(p, ts) \<in> set (needs_backup plan)" "(t, Some p, False) \<in> set plan"
  shows "t \<in> set ts"
proof -
  have "wf_dict (needs_backup plan)"
    unfolding needs_backup_def by (rule needs_backup_fold) simp
  with assms(1) have "dget_default (needs_backup plan) p [] = ts"
    by (simp add: wf_dict_map_of dget_default_def)
  then have "ts = map fst (filter (\<lambda>(t, q, c). q = Some p \<and> \<not> c) plan)"
    unfolding needs_backup_def needs_backup_fold(2) by (simp add: dget_default_def)
  with assms(2) show ?thesis by force
qed

lemma assign_tasks_sound:
  assumes "assign_tasks cid oref bs plan = (kept, tops, infs)"
  shows "mset (map fst plan) = mset kept + mset (map inf_task_id infs)
    \<and> (\<forall>t b. map_of tops t = Some b \<longrightarrow> (\<exists>p. (t, Some p, False) \<in> set plan \<and> map_of bs p = Some b))
    \<and> (\<forall>t\<in>set kept. (\<exists>q. (t, q, True) \<in> set plan) \<or> map_of tops t \<noteq> None)
    \<and> (\<forall>i\<in>set infs. reason i = NO_AVAILABLE_OPERATOR \<and> inf_cluster_id i = cid)"
  using assms
proof (induction plan arbitrary: kept tops infs)
  case (Cons e plan)
  obtain t q c where e: "e = (t, q, c)" by (cases e) auto
  obtain kept' tops' infs' where r: "assign_tasks cid oref bs plan = (kept', tops', infs')"
    by (metis prod_cases3)
  note ih = Cons.IH [OF r]
  show ?case
  proof (cases c)
    case True
    then have "kept = t # kept'" "tops = tops'" "infs = infs'" using Cons.prems r by (auto simp: e Let_def)
    with ih True show ?thesis by (auto simp: e)
  next
    case False
    show ?thesis
    proof (cases "case q of None \<Rightarrow> None | Some p \<Rightarrow> map_of bs p")
      case None
      then have "kept = kept'" "tops = tops'"
        "infs = mk_infeasible t cid NO_AVAILABLE_OPERATOR
           (NoQualifiedOperator oref (case q of None \<Rightarrow> ''<unknown>'' | Some p \<Rightarrow> p)) # infs'"
        using Cons.prems r False by (auto simp: e Let_def)
      with ih show ?thesis unfolding mk_infeasible_def by (simp add: e) blast
    next
      case (Some b)
      then obtain p where p: "q = Some p" "map_of bs p = Some b" by (cases q) auto
      with Some have "kept = t # kept'" "tops = (t, b) # AList.delete t tops'" "infs = infs'"
        using Cons.prems r False by (auto simp: e Let_def)
      with ih p False show ?thesis by (auto simp: e delete_conv' split: if_splits)
    qed
  qed
qed simp

subsection \<open>The pass over the clusters\<close>

text \<open>The task's operation as the qualification reads it, and the set the cluster's own operator is
  certified for.\<close>

definition task_operation :: "(string \<Rightarrow> task_row option) \<Rightarrow> string \<Rightarrow> string option" where
  "task_operation oi t = fst (snd (plan_task oi [] t))"

definition cluster_certified ::
  "runtime \<Rightarrow> (string, operator_row) dict \<Rightarrow> cluster_spec \<Rightarrow> string list" where
  "cluster_certified rt ops c =
     (case map_of ops (operator_ref c) of
        None \<Rightarrow> [] | Some operator \<Rightarrow> ops_set rt (certified_operations operator))"

definition skipped_cluster :: "cluster_spec \<Rightarrow> bool" where
  "skipped_cluster c \<longleftrightarrow> allocated_prime_related c = [] \<and> operator_ref c = []"

text \<open>The backup a pass gives a task: an entry of the cluster's new operator map.\<close>

definition certified_or_backed ::
  "runtime \<Rightarrow> (string \<Rightarrow> task_row option) \<Rightarrow> (string, operator_row) dict \<Rightarrow> string set
     \<Rightarrow> cluster_spec \<Rightarrow> cluster_spec \<Rightarrow> string \<Rightarrow> bool" where
  "certified_or_backed rt oi ops main c c' t \<longleftrightarrow>
     (\<exists>p. task_operation oi t = Some p \<and>
        (p \<in> set (cluster_certified rt ops c) \<or>
         (\<exists>b r. map_of (task_operators c') t = Some b \<and> (b, r) \<in> set ops \<and> eligible rt p main (b, r))))"

lemma plan_task_simps:
  "fst (plan_task oi cert t) = t" "fst (snd (plan_task oi cert t)) = task_operation oi t"
  "snd (snd (plan_task oi cert t)) \<longleftrightarrow> (\<exists>p. task_operation oi t = Some p \<and> p \<in> set cert)"
  by (auto simp: plan_task_def task_operation_def Let_def py_upper_def split: option.splits if_splits)

lemma qualify_cluster_sound:
  assumes "qualify_cluster rt oi ops main fc ao now hz c st = (c', st')"
    and "now < hz" "valid_busy (backup_busy st)"
  shows "valid_busy (backup_busy st')"
    and "busy_pts (backup_busy st) b \<subseteq> busy_pts (backup_busy st') b"
    and "\<exists>infs. excluded st' = excluded st @ infs
           \<and> mset (task_ids c) = mset (task_ids c') + mset (map inf_task_id infs)"
    and "\<not> skipped_cluster c \<Longrightarrow> t \<in> set (task_ids c') \<Longrightarrow> certified_or_backed rt oi ops main c c' t"
    and "\<not> skipped_cluster c \<Longrightarrow> t \<in> set (task_ids c') \<Longrightarrow>
           task_operation oi t = Some p \<Longrightarrow> p \<notin> set (cluster_certified rt ops c) \<Longrightarrow>
           map_of (task_operators c') t = Some b \<Longrightarrow>
           workable rt now hz (oi t) \<subseteq> busy_pts (backup_busy st') b
           \<and> (\<not> ao \<longrightarrow> workable rt now hz (oi t) \<inter> busy_pts (backup_busy st) b = {})"
proof -
  have base: "valid_busy (backup_busy st') \<and> busy_pts (backup_busy st) b \<subseteq> busy_pts (backup_busy st') b
    \<and> (\<exists>infs. excluded st' = excluded st @ infs
           \<and> mset (task_ids c) = mset (task_ids c') + mset (map inf_task_id infs))
    \<and> (\<not> skipped_cluster c \<longrightarrow> t \<in> set (task_ids c') \<longrightarrow>
        certified_or_backed rt oi ops main c c' t
        \<and> (\<forall>p b. task_operation oi t = Some p \<longrightarrow> p \<notin> set (cluster_certified rt ops c) \<longrightarrow>
           map_of (task_operators c') t = Some b \<longrightarrow>
           workable rt now hz (oi t) \<subseteq> busy_pts (backup_busy st') b
           \<and> (\<not> ao \<longrightarrow> workable rt now hz (oi t) \<inter> busy_pts (backup_busy st) b = {})))"
    for t b
  proof (cases "skipped_cluster c")
    case True
    with assms show ?thesis by (auto simp: qualify_cluster_def skipped_cluster_def)
  next
    case False
    let ?cert = "cluster_certified rt ops c"
    let ?plan = "map (plan_task oi ?cert) (task_ids c)"
    obtain bs st1 where claims:
      "claim_operations rt oi ops main fc ao now hz (cluster_id c) (needs_backup ?plan) st [] = (bs, st1)"
      by (metis prod.collapse)
    obtain kept tops infs where asg:
      "assign_tasks (cluster_id c) (operator_ref c) bs ?plan = (kept, tops, infs)"
      by (metis prod_cases3)
    from False assms(1) claims asg have c': "c' = c\<lparr>task_ids := kept,
        task_operators := (if tops = [] then task_operators c else tops)\<rparr>"
      and st': "st' = st1\<lparr>excluded := excluded st1 @ infs\<rparr>"
      by (auto simp: qualify_cluster_def skipped_cluster_def cluster_certified_def Let_def
          split: if_splits)
    note cl = claim_operations_sound [OF claims assms(2,3)]
    note as = assign_tasks_sound [OF asg]
    have planD: "e \<in> set ?plan \<Longrightarrow> fst (snd e) = task_operation oi (fst e)
      \<and> (snd (snd e) \<longleftrightarrow> (\<exists>p. task_operation oi (fst e) = Some p \<and> p \<in> set ?cert))" for e
      by (auto simp: plan_task_simps)
    have backed: "\<exists>r. (b, r) \<in> set ops \<and> eligible rt p main (b, r)
        \<and> workable rt now hz (oi t) \<subseteq> busy_pts (backup_busy st1) b
        \<and> (\<not> ao \<longrightarrow> workable rt now hz (oi t) \<inter> busy_pts (backup_busy st) b = {})"
      if tb: "map_of tops t = Some b" and p: "task_operation oi t = Some p" for b p
    proof -
      from as tb obtain q where q: "(t, Some q, False) \<in> set ?plan" "map_of bs q = Some b" by blast
      with planD [OF q(1)] p have [simp]: "q = p" by simp
      from cl q(2) obtain ts r where ts: "(p, ts) \<in> set (needs_backup ?plan)" "(b, r) \<in> set ops"
        "eligible rt p main (b, r)"
        "hpts (operator_demand_window rt (map oi ts) now hz) \<subseteq> busy_pts (backup_busy st1) b"
        "\<not> ao \<longrightarrow> hpts (operator_demand_window rt (map oi ts) now hz) \<inter> busy_pts (backup_busy st) b = {}"
        by fastforce
      have "t \<in> set ts" using needs_backup_group [OF ts(1)] q(1) by simp
      then have "workable rt now hz (oi t) \<subseteq> hpts (operator_demand_window rt (map oi ts) now hz)"
        by (intro operator_demand_workable) simp
      with ts show ?thesis by blast
    qed
    have kept: "certified_or_backed rt oi ops main c c' t
        \<and> (\<forall>p b. task_operation oi t = Some p \<longrightarrow> p \<notin> set ?cert \<longrightarrow>
           map_of (task_operators c') t = Some b \<longrightarrow>
           workable rt now hz (oi t) \<subseteq> busy_pts (backup_busy st') b
           \<and> (\<not> ao \<longrightarrow> workable rt now hz (oi t) \<inter> busy_pts (backup_busy st) b = {}))"
      if "t \<in> set kept"
    proof -
      from as that consider q where "(t, q, True) \<in> set ?plan" | b where "map_of tops t = Some b" by blast
      then show ?thesis
      proof cases
        case 1
        with planD [OF 1] show ?thesis by (auto simp: certified_or_backed_def)
      next
        case 2
        then have tops: "tops \<noteq> []" by auto
        from as 2 obtain q where "(t, Some q, False) \<in> set ?plan" by blast
        with planD [OF this] have "task_operation oi t = Some q" by simp
        with 2 tops backed [OF 2] show ?thesis
          by (simp add: certified_or_backed_def c' st') blast
      qed
    qed
    have "map fst ?plan = task_ids c" by (induction "task_ids c") (simp_all add: plan_task_simps o_def)
    with as have m: "mset (task_ids c) = mset (task_ids c') + mset (map inf_task_id infs)"
      by (metis (no_types, lifting) c' cluster_spec.select_convs(3) cluster_spec.surjective cluster_spec.update_convs(3,6))
    have ex: "excluded st' = excluded st @ infs" using cl by (simp add: st')
    have "valid_busy (backup_busy st')" "busy_pts (backup_busy st) b \<subseteq> busy_pts (backup_busy st') b"
      using cl by (simp_all add: st')
    moreover have "t \<in> set kept" if "t \<in> set (task_ids c')" using that by (simp add: c')
    ultimately show ?thesis using m ex kept by blast
  qed
  show "valid_busy (backup_busy st')"
    "busy_pts (backup_busy st) b \<subseteq> busy_pts (backup_busy st') b"
    "\<exists>infs. excluded st' = excluded st @ infs
           \<and> mset (task_ids c) = mset (task_ids c') + mset (map inf_task_id infs)"
    using base by blast+
  show "\<not> skipped_cluster c \<Longrightarrow> t \<in> set (task_ids c') \<Longrightarrow> certified_or_backed rt oi ops main c c' t"
    using base by blast
  show "\<not> skipped_cluster c \<Longrightarrow> t \<in> set (task_ids c') \<Longrightarrow>
           task_operation oi t = Some p \<Longrightarrow> p \<notin> set (cluster_certified rt ops c) \<Longrightarrow>
           map_of (task_operators c') t = Some b \<Longrightarrow>
           workable rt now hz (oi t) \<subseteq> busy_pts (backup_busy st') b
           \<and> (\<not> ao \<longrightarrow> workable rt now hz (oi t) \<inter> busy_pts (backup_busy st) b = {})"
    using base by blast
qed

text \<open>Task \<open>t\<close>, kept in \<open>c'\<close>, is served by backup operator \<open>b\<close>: the cluster's own operator is not
  certified for it.\<close>

definition backed_by ::
  "runtime \<Rightarrow> (string \<Rightarrow> task_row option) \<Rightarrow> (string, operator_row) dict \<Rightarrow> cluster_spec
     \<Rightarrow> cluster_spec \<Rightarrow> string \<Rightarrow> string \<Rightarrow> bool" where
  "backed_by rt oi ops c c' t b \<longleftrightarrow>
     \<not> skipped_cluster c \<and> t \<in> set (task_ids c') \<and> map_of (task_operators c') t = Some b
     \<and> (\<exists>p. task_operation oi t = Some p \<and> p \<notin> set (cluster_certified rt ops c))"

lemma backed_by_busy:
  assumes "qualify_cluster rt oi ops main fc ao now hz c st = (c', st')"
    and "now < hz" "valid_busy (backup_busy st)" "backed_by rt oi ops c c' t b"
  shows "workable rt now hz (oi t) \<subseteq> busy_pts (backup_busy st') b"
    and "\<not> ao \<Longrightarrow> workable rt now hz (oi t) \<inter> busy_pts (backup_busy st) b = {}"
  using qualify_cluster_sound(5) [OF assms(1-3)] assms(4) unfolding backed_by_def by blast+

lemma qualify_clusters_step:
  assumes "qualify_clusters rt oi ops main fc ao now hz (c # cs) st = (ds, st')"
  obtains c' st1 cs' where "qualify_cluster rt oi ops main fc ao now hz c st = (c', st1)"
    "qualify_clusters rt oi ops main fc ao now hz cs st1 = (cs', st')" "ds = c' # cs'"
  using assms by (auto split: prod.splits)

lemma qualify_clusters_sound:
  assumes "qualify_clusters rt oi ops main fc ao now hz cs st = (cs', st')"
    and "now < hz" "valid_busy (backup_busy st)"
  shows "length cs' = length cs
    \<and> (\<exists>infs. excluded st' = excluded st @ infs \<and>
         mset (concat (map task_ids cs)) = mset (concat (map task_ids cs')) + mset (map inf_task_id infs))
    \<and> (\<forall>(c, c')\<in>set (zip cs cs'). \<not> skipped_cluster c \<longrightarrow>
         (\<forall>t\<in>set (task_ids c'). certified_or_backed rt oi ops main c c' t))"
  using assms(1,3)
proof (induction cs arbitrary: st cs')
  case (Cons c cs)
  from qualify_clusters_step [OF Cons.prems(1)] obtain c' st1 ds where
    q: "qualify_cluster rt oi ops main fc ao now hz c st = (c', st1)"
    and r: "qualify_clusters rt oi ops main fc ao now hz cs st1 = (ds, st')" and cs': "cs' = c' # ds" .
  note one = qualify_cluster_sound [OF q assms(2) Cons.prems(2)]
  from one(3) obtain infs1 where i1: "excluded st1 = excluded st @ infs1"
    "mset (task_ids c) = mset (task_ids c') + mset (map inf_task_id infs1)" by blast
  from Cons.IH [OF r one(1)] obtain infs2 where i2: "excluded st' = excluded st1 @ infs2"
    "mset (concat (map task_ids cs)) = mset (concat (map task_ids ds)) + mset (map inf_task_id infs2)"
    by blast
  have "\<exists>infs. excluded st' = excluded st @ infs \<and>
      mset (concat (map task_ids (c # cs))) = mset (concat (map task_ids cs')) + mset (map inf_task_id infs)"
    using i1 i2 by (intro exI [of _ "infs1 @ infs2"]) (simp add: cs')
  moreover have "length cs' = length (c # cs)" using Cons.IH [OF r one(1)] cs' by simp
  moreover have "\<forall>(d, d')\<in>set (zip (c # cs) cs'). \<not> skipped_cluster d \<longrightarrow>
      (\<forall>t\<in>set (task_ids d'). certified_or_backed rt oi ops main d d' t)"
    using Cons.IH [OF r one(1)] one(4) by (simp add: cs')
  ultimately show ?case by blast
qed simp

lemma qualify_clusters_busy:
  assumes "qualify_clusters rt oi ops main fc ao now hz cs st = (cs', st')"
    and "now < hz" "valid_busy (backup_busy st)" "\<not> ao"
    and "j < length cs" "backed_by rt oi ops (cs ! j) (cs' ! j) u b"
  shows "workable rt now hz (oi u) \<inter> busy_pts (backup_busy st) b = {}"
  using assms(1,3,5,6)
proof (induction cs arbitrary: st cs' j)
  case (Cons c cs)
  from qualify_clusters_step [OF Cons.prems(1)] obtain c' st1 ds where
    q: "qualify_cluster rt oi ops main fc ao now hz c st = (c', st1)"
    and r: "qualify_clusters rt oi ops main fc ao now hz cs st1 = (ds, st')" and cs': "cs' = c' # ds" .
  note one = qualify_cluster_sound [OF q assms(2) Cons.prems(2)]
  show ?case
  proof (cases j)
    case 0
    with backed_by_busy(2) [OF q assms(2) Cons.prems(2) _ assms(4)] Cons.prems(4) cs' show ?thesis by simp
  next
    case (Suc k)
    with Cons.IH [OF r one(1), of k] Cons.prems(3,4) cs' one(2) [of b] show ?thesis by fastforce
  qed
qed simp

lemma qualify_clusters_disjoint:
  assumes "qualify_clusters rt oi ops main fc ao now hz cs st = (cs', st')"
    and "now < hz" "valid_busy (backup_busy st)" "\<not> ao"
    and "i < j" "j < length cs"
    and "backed_by rt oi ops (cs ! i) (cs' ! i) t b" "backed_by rt oi ops (cs ! j) (cs' ! j) u b"
  shows "workable rt now hz (oi t) \<inter> workable rt now hz (oi u) = {}"
  using assms(1,3,5-)
proof (induction cs arbitrary: st cs' i j)
  case (Cons c cs)
  from qualify_clusters_step [OF Cons.prems(1)] obtain c' st1 ds where
    q: "qualify_cluster rt oi ops main fc ao now hz c st = (c', st1)"
    and r: "qualify_clusters rt oi ops main fc ao now hz cs st1 = (ds, st')" and cs': "cs' = c' # ds" .
  note one = qualify_cluster_sound [OF q assms(2) Cons.prems(2)]
  from Cons.prems(3) obtain k where j: "j = Suc k" by (cases j) auto
  show ?case
  proof (cases i)
    case 0
    have "workable rt now hz (oi t) \<subseteq> busy_pts (backup_busy st1) b"
      using backed_by_busy(1) [OF q assms(2) Cons.prems(2)] Cons.prems(5) 0 cs' by simp
    moreover have "workable rt now hz (oi u) \<inter> busy_pts (backup_busy st1) b = {}"
      using qualify_clusters_busy [OF r assms(2) one(1) assms(4), of k] Cons.prems(4,6) j cs' by simp
    ultimately show ?thesis by blast
  next
    case (Suc h)
    with Cons.IH [OF r one(1), of h k] Cons.prems(3-) j cs' show ?thesis by simp
  qed
qed simp

subsection \<open>Stamping keeps the assignments\<close>

definition unstamped :: "cluster_spec \<Rightarrow> cluster_spec" where
  "unstamped c = c\<lparr>shared_backup_operators := []\<rparr>"

lemma map_update_first: "(\<And>x. g (f x) = g x) \<Longrightarrow> map g (update_first P f xs) = map g xs"
  by (induction xs) auto

lemma unstamped_stamp_cluster [simp]:
  "map unstamped (stamp_cluster b cid cs) = map unstamped cs"
  by (simp add: stamp_cluster_def rev_map [symmetric] map_update_first unstamped_def)

lemma unstamped_stamp_all: "map unstamped (stamp_all st cs) = map unstamped cs"
proof -
  have inner: "map unstamped (fold (\<lambda>claimant cs. stamp_cluster b claimant cs) xs cs) = map unstamped cs"
    for b xs cs by (induction xs arbitrary: cs) auto
  have "map unstamped (fold (\<lambda>operator_id cs.
        fold (\<lambda>claimant cs. stamp_cluster operator_id claimant cs) (f operator_id) cs) ys cs)
      = map unstamped cs" for f :: "string \<Rightarrow> string list" and ys
    by (induction ys arbitrary: cs) (auto simp: inner)
  then show ?thesis by (simp add: stamp_all_def)
qed

lemma stamp_all_nth:
  assumes "length (stamp_all st cs) = length cs" "i < length cs"
  shows "task_ids (stamp_all st cs ! i) = task_ids (cs ! i)"
    and "task_operators (stamp_all st cs ! i) = task_operators (cs ! i)"
proof -
  have "unstamped (stamp_all st cs ! i) = unstamped (cs ! i)"
    using unstamped_stamp_all [of st cs] assms by (metis nth_map)
  then show "task_ids (stamp_all st cs ! i) = task_ids (cs ! i)"
    "task_operators (stamp_all st cs ! i) = task_operators (cs ! i)"
    by (simp_all add: unstamped_def) (metis cluster_spec.ext_inject cluster_spec.surjective
      cluster_spec.update_convs(7))+
qed

lemma length_stamp_all [simp]: "length (stamp_all st cs) = length cs"
  using unstamped_stamp_all [of st cs] by (metis length_map)

subsection \<open>The qualification\<close>

definition main_operators :: "cluster_spec list \<Rightarrow> string set" where
  "main_operators clusters = operator_ref ` {c \<in> set clusters. operator_ref c \<noteq> []}"

lemma valid_init_qual [simp]: "valid_busy (backup_busy init_qual)" "excluded init_qual = []"
  by (simp_all add: init_qual_def valid_busy_def dget_default_def valid_calendar_def)

lemma apply_qualification_unfold:
  assumes "apply_operator_qualification rt clusters oi ops fc ao now = (cs, infs)"
  obtains ds st where
    "qualify_clusters rt oi ops (main_operators clusters) fc ao (py_int now)
       (py_int now + routing_horizon_s) clusters init_qual = (ds, st)"
    "cs = stamp_all st ds" "infs = excluded st" "py_int now < py_int now + routing_horizon_s"
  using assms
  by (auto simp: apply_operator_qualification_def main_operators_def Let_def routing_horizon_s_def
      split: prod.splits)

lemma concat_task_ids_stamp: "concat (map task_ids (stamp_all st ds)) = concat (map task_ids ds)"
proof -
  have "map task_ids (stamp_all st ds) = map task_ids ds"
    by (rule nth_equalityI) (simp_all add: stamp_all_nth)
  then show ?thesis by simp
qed

lemma qualification_partition:
  assumes "apply_operator_qualification rt clusters oi ops fc ao now = (cs, infs)"
  shows "length cs = length clusters"
    and "mset (concat (map task_ids clusters)) =
      mset (concat (map task_ids cs)) + mset (map inf_task_id infs)"
proof -
  from assms obtain ds st where q: "qualify_clusters rt oi ops (main_operators clusters) fc ao (py_int now)
       (py_int now + routing_horizon_s) clusters init_qual = (ds, st)"
    and cs: "cs = stamp_all st ds" "infs = excluded st" and hz: "py_int now < py_int now + routing_horizon_s"
    by (rule apply_qualification_unfold)
  from qualify_clusters_sound [OF q hz valid_init_qual(1)] cs
  show "length cs = length clusters" "mset (concat (map task_ids clusters)) =
      mset (concat (map task_ids cs)) + mset (map inf_task_id infs)"
    by (auto simp: concat_task_ids_stamp)
qed

lemma certified_or_backed_stamp:
  "i < length ds \<Longrightarrow> certified_or_backed rt oi ops main c (stamp_all st ds ! i) t =
     certified_or_backed rt oi ops main c (ds ! i) t"
  "i < length ds \<Longrightarrow> backed_by rt oi ops c (stamp_all st ds ! i) t b = backed_by rt oi ops c (ds ! i) t b"
  by (simp_all add: certified_or_backed_def backed_by_def stamp_all_nth)

lemma qualification_kept_certified:
  assumes "apply_operator_qualification rt clusters oi ops fc ao now = (cs, infs)"
    and "i < length clusters" "\<not> skipped_cluster (clusters ! i)" "t \<in> set (task_ids (cs ! i))"
  shows "certified_or_backed rt oi ops (main_operators clusters) (clusters ! i) (cs ! i) t"
proof -
  from assms(1) obtain ds st where q: "qualify_clusters rt oi ops (main_operators clusters) fc ao (py_int now)
       (py_int now + routing_horizon_s) clusters init_qual = (ds, st)"
    and cs: "cs = stamp_all st ds" "infs = excluded st" and hz: "py_int now < py_int now + routing_horizon_s"
    by (rule apply_qualification_unfold)
  note s = qualify_clusters_sound [OF q hz valid_init_qual(1)]
  then have len: "length ds = length clusters" by blast
  with assms(2) have "(clusters ! i, ds ! i) \<in> set (zip clusters ds)"
    by (metis in_set_zip fst_conv snd_conv)
  with s assms(2-) len cs show ?thesis by (fastforce simp: certified_or_backed_stamp stamp_all_nth)
qed

lemma qualification_disjoint:
  assumes "apply_operator_qualification rt clusters oi ops fc False now = (cs, infs)"
    and "i < j" "j < length clusters"
    and "backed_by rt oi ops (clusters ! i) (cs ! i) t b" "backed_by rt oi ops (clusters ! j) (cs ! j) u b"
  shows "workable rt (py_int now) (py_int now + routing_horizon_s) (oi t) \<inter>
    workable rt (py_int now) (py_int now + routing_horizon_s) (oi u) = {}"
proof -
  from assms(1) obtain ds st where q: "qualify_clusters rt oi ops (main_operators clusters) fc False (py_int now)
       (py_int now + routing_horizon_s) clusters init_qual = (ds, st)"
    and cs: "cs = stamp_all st ds" "infs = excluded st" and hz: "py_int now < py_int now + routing_horizon_s"
    by (rule apply_qualification_unfold)
  have len: "length ds = length clusters"
    using qualify_clusters_sound [OF q hz valid_init_qual(1)] by blast
  show ?thesis
    using qualify_clusters_disjoint [OF q hz valid_init_qual(1) _ assms(2,3)] assms len cs
    by (simp add: certified_or_backed_stamp)
qed

subsection \<open>Properties\<close>

definition sample_operators :: "(string, operator_row) dict" where
  "sample_operators =
     [(''op1'', sample_operator),
      (''op2'', sample_operator\<lparr>op_asset_id := ''op2'',
                 certified_operations := RItems [VStr ''spray'']\<rparr>)]"

definition sample_index :: "string \<Rightarrow> task_row option" where
  "sample_index = map_of
     [(''A'', sample_task\<lparr>time_windows := RItems [VStr ''t0/t1'']\<rparr>),
      (''B'', sample_task\<lparr>task_id := ''B'', time_windows := RItems [VStr ''t2/t3'']\<rparr>)]"

definition sample_clusters :: "cluster_spec list" where
  "sample_clusters = [sample_cluster,
     sample_cluster\<lparr>cluster_id := ''c2'', task_ids := [''B''], operator_ref := ''op3''\<rparr>]"

definition sample_qualified :: "cluster_spec list \<times> infeasible list" where
  "sample_qualified = apply_operator_qualification sample_runtime sample_clusters sample_index
     sample_operators [] False 0"

lemma sample_qualified_run:
  "apply_operator_qualification sample_runtime sample_clusters sample_index
      sample_operators [] False 0 = (fst sample_qualified, snd sample_qualified)"
  by (simp add: sample_qualified_def)

text \<open>qualification loses no task: over all clusters, the kept tasks and the excluded ones are
  the tasks that came in, with their multiplicities.\<close>

theorem operator_qualification_partition:
  "mset (concat (map task_ids clusters)) =
     mset (concat (map task_ids (fst (apply_operator_qualification rt clusters oi ops fc ao now))))
     + mset (map inf_task_id (snd (apply_operator_qualification rt clusters oi ops fc ao now)))"
  by (rule qualification_partition(2) [OF surjective_pairing])

text \<open>C2: after qualification every task kept in an allocated cluster has a certified operator: the
  cluster's own operator holds its operation, or the cluster's operator map names a backup who holds
  it and is the prime operator of no cluster.\<close>

theorem operator_qualification_certified:
  assumes "apply_operator_qualification rt clusters oi ops fc ao now = (cs, infs)"
    and "i < length clusters" "\<not> skipped_cluster (clusters ! i)" "t \<in> set (task_ids (cs ! i))"
  shows "certified_or_backed rt oi ops (main_operators clusters) (clusters ! i) (cs ! i) t"
  by (rule qualification_kept_certified [OF assms])

lemma operator_qualification_certified_witness:
  "certified_or_backed sample_runtime sample_index sample_operators (main_operators sample_clusters)
     (sample_clusters ! 1) (fst sample_qualified ! 1) ''B''"
proof (rule operator_qualification_certified [OF sample_qualified_run])
  show "1 < length sample_clusters" "\<not> skipped_cluster (sample_clusters ! 1)"
    "''B'' \<in> set (task_ids (fst sample_qualified ! 1))" by code_simp+
qed

text \<open>C1: without sequential sharing no backup operator is double-booked: two tasks of different
  clusters served by the same backup have disjoint workable windows inside the planning horizon (a
  task without windows needs the whole horizon).\<close>

theorem operator_qualification_disjoint:
  assumes "apply_operator_qualification rt clusters oi ops fc False now = (cs, infs)"
    and "i < j" "j < length clusters"
    and "backed_by rt oi ops (clusters ! i) (cs ! i) t b" "backed_by rt oi ops (clusters ! j) (cs ! j) u b"
  shows "workable rt (py_int now) (py_int now + routing_horizon_s) (oi t) \<inter>
    workable rt (py_int now) (py_int now + routing_horizon_s) (oi u) = {}"
  by (rule qualification_disjoint [OF assms])

lemma operator_qualification_disjoint_witness:
  "workable sample_runtime (py_int 0) (py_int 0 + routing_horizon_s) (sample_index ''A'') \<inter>
   workable sample_runtime (py_int 0) (py_int 0 + routing_horizon_s) (sample_index ''B'') = {}"
proof (rule operator_qualification_disjoint [OF sample_qualified_run])
  show "(0::nat) < 1" "1 < length sample_clusters" by code_simp+
  show "backed_by sample_runtime sample_index sample_operators (sample_clusters ! 0)
      (fst sample_qualified ! 0) ''A'' ''op2''"
    "backed_by sample_runtime sample_index sample_operators (sample_clusters ! 1)
      (fst sample_qualified ! 1) ''B'' ''op2''"
    unfolding backed_by_def by (intro conjI exI [of _ "''SPRAY''"]; code_simp)+
qed

end
