(* ===== verification/Materials.thy ===== *)
theory Materials
  imports Operators Weather
begin

text \<open>
  Material availability (last part of \<open>solver/enforcement.py\<close>): the consumable demand of every
  task is charged against the inventory of its cluster's depot in descending order of penalty,
  and the reservations recorded at admission are settled against the final dispatch.
\<close>

subsection \<open>Charging the inventory\<close>

definition area_ha_for_material :: "task_row \<Rightarrow> real" where
  "area_ha_for_material order =
     (let a = max 0 (area order) in
      if a > 0 then a
      else if py_lower (py_strip (work_quantity_unit order)) \<in> {'''', ''ha'', ''hectare'', ''hectares''}
      then max 0 (work_quantity order)
      else 0)"

record reservation =
  reservation_id :: string
  res_task_id :: string
  material_type :: string
  inventory_location_ref :: string
  quantity :: real
  canonical_unit :: string
  status :: reservation_status
  reserved_window :: "(string \<times> string) option"

text \<open>The state of the pass: the inventory left, the exclusions and the reservations.\<close>

record material_state =
  remaining :: "(string, real) dict"
  mat_infeasible :: "infeasible list"
  reservations :: "reservation list"

definition split_demanding ::
  "(string \<Rightarrow> task_row option) \<Rightarrow> (string, material_spec) dict \<Rightarrow> string list
     \<Rightarrow> (task_row \<times> material_spec) list \<times> string list" where
  "split_demanding oi md ts =
     (let spec = (\<lambda>t. case oi t of None \<Rightarrow> None
                    | Some r \<Rightarrow> map_option (Pair r) (map_of md (operation_type r)))
      in (List.map_filter spec ts, filter (\<lambda>t. spec t = None) ts))"

definition task_demand :: "task_row \<times> material_spec \<Rightarrow> real" where
  "task_demand p = perAreaHa (snd p) * area_ha_for_material (fst p)"

text \<open>The loop over the demanding tasks of a cluster, in the sorted order.\<close>

definition charge_task ::
  "string \<Rightarrow> string \<Rightarrow> task_row \<times> material_spec \<Rightarrow> string list \<times> material_state
     \<Rightarrow> string list \<times> material_state" where
  "charge_task cid depot p acc =
     (case (p, acc) of ((order, spec), (kept_ids, st)) \<Rightarrow>
       let demand = task_demand (order, spec) in
       if demand \<le> 0 then (kept_ids @ [task_id order], st)
       else
         let available = dget_default (remaining st) depot 0 in
         if demand \<le> available then
           (kept_ids @ [task_id order],
            st\<lparr>remaining := AList.update depot (available - demand) (remaining st),
               reservations := reservations st @
                 [\<lparr>reservation_id = ''res-'' @ task_id order, res_task_id = task_id order,
                   material_type = material spec, inventory_location_ref = depot,
                   quantity = py_round 2 demand, canonical_unit = ''kg'',
                   status = PROVISIONAL, reserved_window = None\<rparr>]\<rparr>)
         else
           (kept_ids,
            st\<lparr>mat_infeasible := mat_infeasible st @
                 [mk_infeasible (task_id order) cid INSUFFICIENT_MATERIAL
                    (NotEnoughMaterial demand (material spec) depot available)]\<rparr>))"

definition charge_cluster ::
  "(string \<Rightarrow> task_row option) \<Rightarrow> (string, material_spec) dict \<Rightarrow> cluster_spec \<Rightarrow> material_state
     \<Rightarrow> cluster_spec \<times> material_state" where
  "charge_cluster oi md cluster st =
     (let (demanding, passthrough) = split_demanding oi md (task_ids cluster);
          (kept_ids, st') =
            fold (charge_task (cluster_id cluster) (depot_ref cluster))
              (sort_key (\<lambda>p. - penalty_per_day (fst p)) demanding) (passthrough, st)
      in (cluster\<lparr>task_ids := filter (\<lambda>t. t \<in> set kept_ids) (task_ids cluster)\<rparr>, st'))"

fun charge_clusters ::
  "(string \<Rightarrow> task_row option) \<Rightarrow> (string, material_spec) dict \<Rightarrow> cluster_spec list
     \<Rightarrow> material_state \<Rightarrow> cluster_spec list \<times> material_state" where
  "charge_clusters oi md [] st = ([], st)"
| "charge_clusters oi md (c # cs) st =
     (let (c', st1) = charge_cluster oi md c st;
          (cs', st2) = charge_clusters oi md cs st1
      in (c' # cs', st2))"

definition initial_inventory :: "depot_row list \<Rightarrow> (string, real) dict" where
  "initial_inventory depots = fold (\<lambda>d. AList.update (depot_id d) (inventory_material d)) depots []"

definition apply_material_limits ::
  "cluster_spec list \<Rightarrow> (string \<Rightarrow> task_row option) \<Rightarrow> depot_row list \<Rightarrow> (string, material_spec) dict
     \<Rightarrow> cluster_spec list \<times> infeasible list \<times> reservation list" where
  "apply_material_limits clusters oi depots md =
     (if md = [] then (clusters, [], [])
      else
        let (cs, st) = charge_clusters oi md clusters
              \<lparr>remaining = initial_inventory depots, mat_infeasible = [], reservations = []\<rparr>
        in (cs, mat_infeasible st, reservations st))"

subsection \<open>Settling the reservations\<close>

text \<open>A dispatch package as \<open>finalize_material_reservations\<close> reads it: the task and its window.\<close>

definition finalize_material_reservations ::
  "reservation list \<Rightarrow> (string \<times> (string \<times> string)) list \<Rightarrow> reservation list" where
  "finalize_material_reservations rs packages =
     (let dispatched = fold (\<lambda>(t, w). AList.update t w) packages [] in
      map (\<lambda>r. case map_of dispatched (res_task_id r) of
                 Some w \<Rightarrow> r\<lparr>status := CONFIRMED, reserved_window := Some w\<rparr>
               | None \<Rightarrow> r\<lparr>status := RELEASED\<rparr>) rs)"

subsection \<open>Every admitted demand is covered\<close>

lemma area_ha_nonneg: "0 \<le> area_ha_for_material t"
  unfolding area_ha_for_material_def Let_def by auto

text \<open>An order index that files every row under the row's own identifier.\<close>

definition keyed_index :: "(string \<Rightarrow> task_row option) \<Rightarrow> bool" where
  "keyed_index oi \<longleftrightarrow> (\<forall>t r. oi t = Some r \<longrightarrow> task_id r = t)"

text \<open>The exact demand of a task, and what the reservations at a depot add up to.\<close>

definition exact_demand ::
  "(string \<Rightarrow> task_row option) \<Rightarrow> (string, material_spec) dict \<Rightarrow> string \<Rightarrow> real" where
  "exact_demand oi md t =
     (case oi t of None \<Rightarrow> 0
      | Some r \<Rightarrow> (case map_of md (operation_type r) of None \<Rightarrow> 0 | Some s \<Rightarrow> task_demand (r, s)))"

definition charged_at ::
  "(string \<Rightarrow> task_row option) \<Rightarrow> (string, material_spec) dict \<Rightarrow> reservation list \<Rightarrow> string \<Rightarrow> real" where
  "charged_at oi md rs loc =
     sum_list (map (\<lambda>r. exact_demand oi md (res_task_id r))
       (filter (\<lambda>r. inventory_location_ref r = loc) rs))"

lemma charged_at_append [simp]:
  "charged_at oi md (rs @ qs) loc = charged_at oi md rs loc + charged_at oi md qs loc"
  by (simp add: charged_at_def)

definition good_reservation ::
  "(string \<Rightarrow> task_row option) \<Rightarrow> (string, material_spec) dict \<Rightarrow> reservation \<Rightarrow> bool" where
  "good_reservation oi md r \<longleftrightarrow>
     status r = PROVISIONAL \<and> 0 < exact_demand oi md (res_task_id r)
     \<and> quantity r = py_round 2 (exact_demand oi md (res_task_id r))"

definition material_inv ::
  "(string \<Rightarrow> task_row option) \<Rightarrow> (string, material_spec) dict \<Rightarrow> (string, real) dict
     \<Rightarrow> material_state \<Rightarrow> bool" where
  "material_inv oi md inventory st \<longleftrightarrow>
     (\<forall>loc. dget_default (remaining st) loc 0 + charged_at oi md (reservations st) loc
          = dget_default inventory loc 0)
     \<and> (\<forall>loc. 0 \<le> dget_default (remaining st) loc 0)
     \<and> (\<forall>r\<in>set (reservations st). good_reservation oi md r)"

lemma split_demanding_mem:
  assumes "keyed_index oi" "(r, s) \<in> set (fst (split_demanding oi md ts))"
  shows "exact_demand oi md (task_id r) = task_demand (r, s)" and "task_id r \<in> set ts"
  using assms
  by (auto simp: split_demanding_def Let_def List.map_filter_def exact_demand_def keyed_index_def
      split: option.splits)

lemma charge_task_inv [fl_inv]:
  assumes "material_inv oi md inventory st" "exact_demand oi md (task_id (fst p)) = task_demand p"
  shows "material_inv oi md inventory (snd (charge_task cid depot p (kept, st)))"
  using assms
  by (cases p) (auto simp: charge_task_def material_inv_def Let_def charged_at_def
      good_reservation_def dget_default_def map_of_update)

lemma charge_fold_inv [fl_inv]:
  assumes "material_inv oi md inventory (snd acc)"
    and "\<forall>p\<in>set ps. exact_demand oi md (task_id (fst p)) = task_demand p"
  shows "material_inv oi md inventory (snd (fold (charge_task cid depot) ps acc))"
  using assms
proof (induction ps arbitrary: acc)
  case (Cons p ps)
  then have "material_inv oi md inventory (snd (charge_task cid depot p acc))"
    using charge_task_inv by (metis list.set_intros(1) surjective_pairing)
  with Cons show ?case by simp
qed simp

lemma charge_cluster_inv [fl_inv]:
  assumes "keyed_index oi" "material_inv oi md inventory st" "charge_cluster oi md c st = (c', st')"
  shows "material_inv oi md inventory st'"
proof -
  let ?ps = "sort_key (\<lambda>p. - penalty_per_day (fst p)) (fst (split_demanding oi md (task_ids c)))"
  have "st' = snd (fold (charge_task (cluster_id c) (depot_ref c)) ?ps
      (snd (split_demanding oi md (task_ids c)), st))"
    using assms(3) by (auto simp: charge_cluster_def Let_def split: prod.splits)
  moreover have "\<forall>p\<in>set ?ps. exact_demand oi md (task_id (fst p)) = task_demand p"
    using split_demanding_mem(1) [OF assms(1)] by auto
  ultimately show ?thesis using charge_fold_inv assms(2) by (metis snd_conv)
qed

lemma charge_clusters_inv [fl_inv]:
  "keyed_index oi \<Longrightarrow> material_inv oi md inventory st \<Longrightarrow> charge_clusters oi md cs st = (cs', st')
   \<Longrightarrow> material_inv oi md inventory st'"
  by (induction cs arbitrary: st cs') (auto split: prod.splits dest: charge_cluster_inv)

lemma material_admission_covered:
  assumes "keyed_index oi" "\<forall>d\<in>set depots. 0 \<le> inventory_material d"
    and "apply_material_limits clusters oi depots md = (cs, infs, rs)"
  shows "charged_at oi md rs loc \<le> dget_default (initial_inventory depots) loc 0"
    and "\<forall>r\<in>set rs. good_reservation oi md r"
proof -
  have nonneg: "\<forall>loc. 0 \<le> dget_default d loc 0 \<Longrightarrow>
      \<forall>loc. 0 \<le> dget_default (fold (\<lambda>d. AList.update (depot_id d) (inventory_material d)) ds d) loc 0"
    if "\<forall>d\<in>set ds. 0 \<le> inventory_material d" for ds and d :: "(string, real) dict"
    using that by (induction ds arbitrary: d) (simp_all add: dget_default_def map_of_update)
  have inv0: "\<forall>loc. 0 \<le> dget_default (initial_inventory depots) loc 0"
    unfolding initial_inventory_def by (rule nonneg [OF assms(2)]) (simp add: dget_default_def)
  have "charged_at oi md rs loc \<le> dget_default (initial_inventory depots) loc 0
      \<and> (\<forall>r\<in>set rs. good_reservation oi md r)"
  proof (cases "md = []")
    case True
    with assms(3) inv0 show ?thesis by (simp add: apply_material_limits_def charged_at_def)
  next
    case False
    with assms(3) obtain st where st: "charge_clusters oi md clusters
        \<lparr>remaining = initial_inventory depots, mat_infeasible = [], reservations = []\<rparr> = (cs, st)"
        "rs = reservations st"
      by (auto simp: apply_material_limits_def split: prod.splits)
    have "material_inv oi md (initial_inventory depots)
        \<lparr>remaining = initial_inventory depots, mat_infeasible = [], reservations = []\<rparr>"
      using inv0 by (simp add: material_inv_def charged_at_def)
    from charge_clusters_inv [OF assms(1) this st(1)] st(2)
    show ?thesis by (simp add: material_inv_def) (metis le_add_same_cancel2)
  qed
  then show "charged_at oi md rs loc \<le> dget_default (initial_inventory depots) loc 0"
    "\<forall>r\<in>set rs. good_reservation oi md r" by blast+
qed

subsection \<open>Kept and excluded tasks\<close>

lemma charge_fold_mset:
  assumes "fold (charge_task cid depot) ps (kept, st) = (kept', st')"
  shows "\<exists>infs. mat_infeasible st' = mat_infeasible st @ infs
    \<and> mset kept' + mset (map inf_task_id infs) = mset kept + mset (map (\<lambda>p. task_id (fst p)) ps)"
  using assms
proof (induction ps arbitrary: kept st)
  case (Cons p ps)
  obtain kept1 st1 where one: "charge_task cid depot p (kept, st) = (kept1, st1)" by fastforce
  have step: "\<exists>infs. mat_infeasible st1 = mat_infeasible st @ infs
      \<and> mset kept1 + mset (map inf_task_id infs) = mset kept + {#task_id (fst p)#}"
    using one by (cases p) (auto simp: charge_task_def Let_def split: if_splits)
  from Cons.prems one have "fold (charge_task cid depot) ps (kept1, st1) = (kept', st')" by simp
  from Cons.IH [OF this] step obtain i1 i2 where
    i: "mat_infeasible st' = mat_infeasible st @ i1 @ i2"
    and k2: "mset kept' + mset (map inf_task_id i2) = mset kept1 + mset (map (\<lambda>p. task_id (fst p)) ps)"
    and k1: "mset kept1 + mset (map inf_task_id i1) = mset kept + {#task_id (fst p)#}" by auto
  have "mset kept' + mset (map inf_task_id (i1 @ i2)) =
      (mset kept' + mset (map inf_task_id i2)) + mset (map inf_task_id i1)" by (simp add: ac_simps)
  also have "\<dots> = (mset kept1 + mset (map inf_task_id i1)) + mset (map (\<lambda>p. task_id (fst p)) ps)"
    unfolding k2 by (simp add: ac_simps)
  also have "\<dots> = mset kept + mset (map (\<lambda>p. task_id (fst p)) (p # ps))"
    unfolding k1 by (simp add: ac_simps)
  finally show ?case using i by blast
qed simp

lemma split_demanding_mset:
  assumes "keyed_index oi"
  shows "mset ts = mset (snd (split_demanding oi md ts))
    + mset (map (\<lambda>p. task_id (fst p)) (fst (split_demanding oi md ts)))"
  using assms
  by (induction ts) (auto simp: split_demanding_def Let_def List.map_filter_simps keyed_index_def
      split: option.splits)

lemma charge_cluster_partition:
  assumes "keyed_index oi" "distinct (task_ids c)" "charge_cluster oi md c st = (c', st')"
  shows "\<exists>infs. mat_infeasible st' = mat_infeasible st @ infs
    \<and> mset (task_ids c) = mset (task_ids c') + mset (map inf_task_id infs)"
proof -
  let ?ps = "sort_key (\<lambda>p. - penalty_per_day (fst p)) (fst (split_demanding oi md (task_ids c)))"
  obtain kept where f: "fold (charge_task (cluster_id c) (depot_ref c)) ?ps
      (snd (split_demanding oi md (task_ids c)), st) = (kept, st')"
    and c': "task_ids c' = filter (\<lambda>t. t \<in> set kept) (task_ids c)"
    using assms(3) by (auto simp: charge_cluster_def Let_def split: prod.splits)
  from charge_fold_mset [OF f] obtain infs where infs: "mat_infeasible st' = mat_infeasible st @ infs"
    "mset kept + mset (map inf_task_id infs) =
     mset (snd (split_demanding oi md (task_ids c))) + mset (map (\<lambda>p. task_id (fst p)) ?ps)" by blast
  then have all: "mset kept + mset (map inf_task_id infs) = mset (task_ids c)"
    using split_demanding_mset [OF assms(1), of "task_ids c" md] by simp
  have sub: "set kept \<subseteq> set (task_ids c)"
    using all by (metis Un_iff set_mset_mset set_mset_union subsetI)
  have dk: "distinct kept"
    using all assms(2) by (metis distinct_append mset_append mset_eq_imp_distinct_iff)
  have "mset (task_ids c') = mset kept"
    unfolding c' using sub dk assms(2)
    by (intro set_eq_iff_mset_eq_distinct [THEN iffD1]) (auto simp: distinct_filter)
  with all infs(1) show ?thesis by metis
qed

lemma charge_clusters_partition:
  assumes "keyed_index oi" "\<forall>c\<in>set cs. distinct (task_ids c)"
    and "charge_clusters oi md cs st = (cs', st')"
  shows "\<exists>infs. mat_infeasible st' = mat_infeasible st @ infs
    \<and> mset (concat (map task_ids cs)) = mset (concat (map task_ids cs')) + mset (map inf_task_id infs)"
  using assms(2,3)
proof (induction cs arbitrary: st cs')
  case (Cons c cs)
  obtain c1 st1 where one: "charge_cluster oi md c st = (c1, st1)" by fastforce
  obtain cs2 where two: "charge_clusters oi md cs st1 = (cs2, st')" and cs': "cs' = c1 # cs2"
    using Cons.prems(2) one by (auto split: prod.splits)
  from charge_cluster_partition [OF assms(1) _ one] Cons.prems(1) obtain i1 where
    "mat_infeasible st1 = mat_infeasible st @ i1"
    "mset (task_ids c) = mset (task_ids c1) + mset (map inf_task_id i1)" by auto
  moreover from Cons.IH [OF _ two] Cons.prems(1) obtain i2 where
    "mat_infeasible st' = mat_infeasible st1 @ i2"
    "mset (concat (map task_ids cs)) = mset (concat (map task_ids cs2)) + mset (map inf_task_id i2)"
    by auto
  ultimately show ?case
    by (intro exI [of _ "i1 @ i2"]) (simp add: cs')
qed simp

lemma material_partition:
  assumes "keyed_index oi" "\<forall>c\<in>set clusters. distinct (task_ids c)"
    and "apply_material_limits clusters oi depots md = (cs, infs, rs)"
  shows "mset (concat (map task_ids clusters)) =
    mset (concat (map task_ids cs)) + mset (map inf_task_id infs)"
  using charge_clusters_partition [OF assms(1,2)] assms(3)
  by (fastforce simp: apply_material_limits_def split: if_splits prod.splits)

subsection \<open>Settlement\<close>

lemma dispatched_fold:
  "t \<in> dom (map_of (fold (\<lambda>(t, w). AList.update t w) ps d)) \<longleftrightarrow>
     t \<in> fst ` set ps \<or> t \<in> dom (map_of d)"
  by (induction ps arbitrary: d) (auto simp: map_of_update split: if_splits)

lemma finalize_statuses:
  assumes "r' \<in> set (finalize_material_reservations rs packages)"
  shows "status r' = (if res_task_id r' \<in> fst ` set packages then CONFIRMED else RELEASED)"
proof -
  let ?d = "fold (\<lambda>(t, w). AList.update t w) packages []"
  from assms obtain r where r: "r \<in> set rs" "r' = (case map_of ?d (res_task_id r) of
      Some w \<Rightarrow> r\<lparr>status := CONFIRMED, reserved_window := Some w\<rparr> | None \<Rightarrow> r\<lparr>status := RELEASED\<rparr>)"
    by (auto simp: finalize_material_reservations_def Let_def)
  show ?thesis
    using r(2) dispatched_fold [of "res_task_id r" packages "[]"]
    by (cases "map_of ?d (res_task_id r)") (auto simp: dom_def)
qed

subsection \<open>Properties\<close>

text \<open>C3: admission never overdraws a depot: the exact demands of the tasks with a reservation at a
  depot add up to no more than its inventory, and every reservation is provisional, of a positive
  demand, with that demand rounded to two decimals.\<close>

theorem material_never_overdrawn:
  assumes "keyed_index oi" "\<forall>d\<in>set depots. 0 \<le> inventory_material d"
    and "apply_material_limits clusters oi depots md = (cs, infs, rs)"
  shows "charged_at oi md rs loc \<le> dget_default (initial_inventory depots) loc 0
    \<and> (\<forall>r\<in>set rs. good_reservation oi md r)"
  using material_admission_covered [OF assms] by blast

definition sample_two_tasks :: "string \<Rightarrow> task_row option" where
  "sample_two_tasks = map_of
     [(''A'', sample_task), (''B'', sample_task\<lparr>task_id := ''B'', penalty_per_day := 9\<rparr>)]"

definition sample_demand :: "(string, material_spec) dict" where
  "sample_demand = [(''SPRAY'', \<lparr>material = ''fluid'', perAreaHa = 2\<rparr>)]"

definition sample_charged :: "cluster_spec list \<times> infeasible list \<times> reservation list" where
  "sample_charged = apply_material_limits [sample_cluster\<lparr>task_ids := [''A'', ''B'']\<rparr>] sample_two_tasks
     [sample_depot] sample_demand"

text \<open>Two tasks demand 20 units each of 30: the one with the higher penalty is admitted.\<close>

lemma material_never_overdrawn_witness:
  "map res_task_id (snd (snd sample_charged)) = [''B''] \<and> map inf_task_id (fst (snd sample_charged)) = [''A'']
   \<and> charged_at sample_two_tasks sample_demand (snd (snd sample_charged)) ''depot'' \<le> 30"
proof -
  have "keyed_index sample_two_tasks"
    by (auto simp: keyed_index_def sample_two_tasks_def sample_task_def split: if_splits)
  moreover have "\<forall>d\<in>set [sample_depot]. 0 \<le> inventory_material d" by (simp add: sample_depot_def)
  moreover have "apply_material_limits [sample_cluster\<lparr>task_ids := [''A'', ''B'']\<rparr>] sample_two_tasks
      [sample_depot] sample_demand = (fst sample_charged, fst (snd sample_charged), snd (snd sample_charged))"
    by (simp add: sample_charged_def)
  ultimately have "charged_at sample_two_tasks sample_demand (snd (snd sample_charged)) ''depot''
      \<le> dget_default (initial_inventory [sample_depot]) ''depot'' 0"
    using material_never_overdrawn by blast
  moreover have "dget_default (initial_inventory [sample_depot]) ''depot'' 0 = 30" by code_simp
  moreover have "map res_task_id (snd (snd sample_charged)) = [''B'']"
    "map inf_task_id (fst (snd sample_charged)) = [''A'']" by code_simp+
  ultimately show ?thesis by simp
qed

text \<open>material admission loses no task: kept and excluded tasks together are the tasks that came
  in, provided each cluster lists a task once.\<close>

theorem material_admission_partition:
  assumes "keyed_index oi" "\<forall>c\<in>set clusters. distinct (task_ids c)"
    and "apply_material_limits clusters oi depots md = (cs, infs, rs)"
  shows "mset (concat (map task_ids clusters)) =
    mset (concat (map task_ids cs)) + mset (map inf_task_id infs)"
  by (rule material_partition [OF assms])

lemma material_admission_partition_witness:
  "mset (concat (map task_ids [sample_cluster\<lparr>task_ids := [''A'', ''B'']\<rparr>])) =
    mset (concat (map task_ids (fst sample_charged))) + mset (map inf_task_id (fst (snd sample_charged)))"
proof (rule material_admission_partition)
  show "keyed_index sample_two_tasks"
    by (auto simp: keyed_index_def sample_two_tasks_def sample_task_def split: if_splits)
  show "\<forall>c\<in>set [sample_cluster\<lparr>task_ids := [''A'', ''B'']\<rparr>]. distinct (task_ids c)" by simp
  show "apply_material_limits [sample_cluster\<lparr>task_ids := [''A'', ''B'']\<rparr>] sample_two_tasks
      [sample_depot] sample_demand = (fst sample_charged, fst (snd sample_charged), snd (snd sample_charged))"
    by (simp add: sample_charged_def)
qed

text \<open>settlement decides every reservation: after the final dispatch a reservation is confirmed
  if its task was dispatched and released otherwise; none stays provisional.\<close>

theorem material_settlement:
  assumes "r \<in> set (finalize_material_reservations rs packages)"
  shows "status r = (if res_task_id r \<in> fst ` set packages then CONFIRMED else RELEASED)"
  by (rule finalize_statuses [OF assms])

lemma material_settlement_witness:
  "status (finalize_material_reservations (snd (snd sample_charged)) [(''B'', (''t0'', ''t1''))] ! 0) = CONFIRMED"
proof -
  let ?f = "finalize_material_reservations (snd (snd sample_charged)) [(''B'', (''t0'', ''t1''))]"
  have "?f ! 0 \<in> set ?f" by code_simp
  note settled = material_settlement [OF this]
  have "res_task_id (?f ! 0) = ''B''" by code_simp
  with settled show ?thesis by simp
qed

end
