(* ===== verification/Canonical.thy ===== *)
theory Canonical
  imports Rows
begin

text \<open>
  The canonical, solver-neutral model (\<open>canonical/\<close>): the immutable entities a snapshot holds and
  the plan a solver adapter returns. Every class keeps all its fields in the order of the source;
  a field name is prefixed where two classes share it. A \<open>datetime\<close> is its POSIX timestamp, a
  mapping with values of any type a dictionary of \<open>py_val\<close>.
\<close>

subsection \<open>Enumerations\<close>

datatype planning_mode = PERIODIC | ROLLING

datatype health_status = HEALTHY | DEGRADED | FAILED | HEALTH_UNKNOWN

datatype plan_status = DRAFT | APPROVED | PUBLISHED | SUPERSEDED | REJECTED

datatype commitment_hardness = HARD | MEDIUM | SOFT

datatype quality_severity = INFO | WARNING | ERROR | CRITICAL

text \<open>\<open>TaskStatus\<close>: a task carries the text value.\<close>

definition task_status_values :: "string list" where
  "task_status_values = [''pending'', ''started'', ''completed'', ''infeasible'']"

subsection \<open>Shared value objects\<close>

record time_interval =
  ti_from :: real
  ti_to :: "real option"

record version_dimensions =
  contract_versions :: "(string, string) dict"
  avro_schema_versions :: "(string, string) dict"
  mapping_versions :: "(string, string) dict"
  quality_policy_versions :: "(string, string) dict"
  optimization_profile_version :: string
  adapter_compatibility_version :: string
  integer_scaling_policy_version :: string

record quality_finding =
  quality_finding_id :: string
  rule_id :: string
  qf_severity :: quality_severity
  qf_entity_ref :: string
  field_ref :: "string option"
  detected_at :: real
  action_applied :: string
  original_value :: py_val
  normalized_value :: py_val
  planning_impact :: string
  qf_source_ref :: string

record quality_summary =
  n_findings :: nat
  by_severity :: "(string, nat) dict"
  n_entities_excluded :: nat
  n_imputed :: nat
  observation_error_rates :: "(string, real) dict"

record risk_summary =
  n_contract_deadlines_at_risk :: nat
  n_weather_restricted_tasks :: nat
  total_penalty_exposure_eur :: real

subsection \<open>Entities\<close>

record capability =
  capability_id :: string
  semantic_term :: string
  cap_value :: py_val
  cap_unit :: "string option"
  cap_confidence :: "real option"
  cap_source_ref :: string

record geo_location =
  gl_lat :: real
  gl_lon :: real
  gl_location_ref :: "string option"

record asset =
  asset_id :: string
  asset_type :: string
  roles :: "string list"
  asset_status :: string
  mobility :: string
  capabilities :: "capability list"
  asset_location :: "geo_location option"
  home_depot_ref :: "string option"
  availability :: "time_interval list"
  asset_name :: string
  asset_source_ref :: string
  asset_valid_from :: "real option"
  asset_valid_to :: "real option"

definition asset_capability :: "asset \<Rightarrow> string \<Rightarrow> capability option" where
  "asset_capability a term = find (\<lambda>cap. semantic_term cap = term) (capabilities a)"

definition capability_value :: "asset \<Rightarrow> string \<Rightarrow> py_val" where
  "capability_value a term =
     (case asset_capability a term of None \<Rightarrow> VNone | Some cap \<Rightarrow> cap_value cap)"

record location =
  location_id :: string
  location_type :: string
  loc_lat :: real
  loc_lon :: real
  loc_name :: string
  area_ha :: "real option"
  loc_soil_type :: string
  loc_polygon :: "real list list"
  loc_restricted_operations :: "string list"
  loc_restriction_windows :: "time_interval list"
  charging_power_kw :: "real option"
  charging_slots :: "int option"
  loc_source_ref :: string
  loc_extra :: "(string, py_val) dict"

record task_requirement =
  tr_term :: string
  tr_operator :: string
  tr_value :: py_val

record material_requirement =
  mr_type :: string
  mr_quantity :: real
  mr_unit :: string

record task =
  tk_id :: string
  tk_order_id :: string
  tk_alternative_group_ref :: string
  tk_operation_type :: string
  tk_location_ref :: string
  tk_area_ha :: "real option"
  tk_work_area_geometry :: "real list list"
  tk_covered_geometry :: "real list list"
  tk_work_quantity :: "real option"
  tk_work_quantity_unit :: string
  tk_service_duration_minutes :: "int option"
  tk_load_demand_kg :: "real option"
  tk_load_material :: string
  tk_pickup_location_ref :: "string option"
  tk_time_windows :: "time_interval list"
  tk_depends_on_task_ref :: "string option"
  tk_deadline :: "real option"
  tk_priority_class :: int
  tk_mandatory :: bool
  tk_requirements :: "task_requirement list"
  tk_material_requirements :: "material_requirement list"
  tk_revenue_value_eur :: real
  tk_penalty_per_day_eur :: real
  tk_status :: string
  tk_source_ref :: string

record observation =
  observation_id :: string
  entity_ref :: string
  metric :: string
  obs_value :: "real option"
  state_value :: string
  obs_unit :: "string option"
  observed_at :: "real option"
  ingested_at :: "real option"
  quality_flag :: string
  obs_confidence :: "real option"
  obs_source_ref :: string
  window_min :: "real option"
  window_mean :: "real option"
  window_max :: "real option"
  window_n :: "int option"

record commitment =
  commitment_id :: string
  contract_id :: string
  com_task_id :: "string option"
  commitment_type :: string
  hardness :: commitment_hardness
  com_value :: "(string, py_val) dict"
  penalty_rule_ref :: "string option"
  com_valid_from :: "real option"
  com_valid_to :: "real option"

record inventory_position =
  ip_location_ref :: string
  ip_material_type :: string
  available_quantity :: real
  ip_unit :: string
  reserved_quantity :: real

record cost_rate =
  cost_rate_id :: string
  rate_type :: string
  unit_price_eur :: real
  per_unit :: string
  cr_valid_from :: "real option"
  cr_valid_to :: "real option"
  cr_source_ref :: string

record travel_link =
  link_id :: string
  from_location_ref :: string
  to_location_ref :: string
  travel_time_s :: real
  distance_km :: "real option"
  network_mode :: string
  route_geometry :: "real list list"
  toll_eur :: real
  tl_source_ref :: string

subsection \<open>Plans\<close>

record corrective_action =
  ca_action :: corrective_action_type
  ca_task_id :: string
  ca_detail :: string
  evidence :: "(string, py_val) dict"

record assignment =
  assignment_id :: string
  as_task_id :: string
  bundle_id :: string
  asset_ids :: "string list"
  operator_ids :: "string list"
  planned_start :: real
  planned_finish :: real
  route_ref :: "string option"
  material_reservation_refs :: "string list"
  is_frozen :: bool
  is_pinned :: bool
  expected_revenue_eur :: real
  expected_cost_eur :: real
  expected_margin_eur :: real
  previous_bundle_id :: "string option"
  previous_start_time :: "real option"
  change_penalty :: int
  as_explanation_ref :: string

record unassigned_task =
  ua_task_id :: string
  ua_reason_code :: reason_code
  ua_details :: "(string, py_val) dict"
  recommended_action :: "string option"
  ua_explanation_ref :: string

record material_reservation =
  mrv_reservation_id :: string
  mrv_task_id :: string
  mrv_material_type :: string
  inventory_location_ref :: string
  mrv_quantity :: real
  mrv_canonical_unit :: string
  reserved_from :: "real option"
  reserved_to :: "real option"
  mrv_status :: reservation_status

record plan =
  plan_id :: string
  revision_id :: string
  parent_revision_id :: "string option"
  origin_plan_id :: string
  pl_planning_mode :: planning_mode
  pl_snapshot_id :: string
  pl_snapshot_hash :: string
  pl_version_dimensions :: version_dimensions
  adapter_id :: string
  adapter_version :: string
  solver_version :: string
  pl_generated_at :: real
  effective_from :: real
  effective_to :: "real option"
  pl_status :: plan_status
  assignments :: "assignment list"
  unassigned_tasks :: "unassigned_task list"
  material_reservations :: "material_reservation list"
  corrective_actions :: "corrective_action list"
  pl_source_watermarks :: "(string, real) dict"
  score :: "(string, py_val) dict"
  pl_quality_summary :: quality_summary
  pl_risk_summary :: risk_summary
  pl_lineage_ref :: string

subsection \<open>Snapshots\<close>

record forecast =
  forecast_id :: string
  forecast_type :: string
  fc_location :: "(string, real) dict option"
  issued_at :: "real option"
  forecast_for :: "time_interval option"
  fc_value :: "(string, py_val) dict"
  fc_confidence :: "real option"
  fc_source_ref :: string

record bundle_summary =
  n_prime_movers :: nat
  n_related_equipment :: nat
  n_feasible_pairs :: nat
  pairs_by_operation :: "(string, nat) dict"
  n_unmatched_prime_movers :: nat
  n_unmatched_related_equipment :: nat
  tasks_by_operation :: "(string, nat) dict"
  scarce_operations :: "string list"

record planning_snapshot =
  snapshot_id :: string
  effective_at :: real
  generated_at :: real
  sn_planning_mode :: planning_mode
  planning_horizon :: time_interval
  sn_version_dimensions :: version_dimensions
  sn_assets :: "asset list"
  sn_locations :: "location list"
  sn_bundle_summary :: bundle_summary
  sn_tasks :: "task list"
  sn_inventory :: "inventory_position list"
  sn_forecasts :: "forecast list"
  sn_observations :: "observation list"
  sn_commitments :: "commitment list"
  sn_travel_links :: "travel_link list"
  sn_cost_rates :: "cost_rate list"
  manual_overrides :: "(string, py_val) dict list"
  sn_source_watermarks :: "(string, real) dict"
  quality_findings :: "quality_finding list"
  sn_quality_summary :: quality_summary
  snapshot_hash :: string
  sn_lineage_ref :: string

subsection \<open>Samples\<close>

definition sample_assignment :: assignment where
  "sample_assignment =
     \<lparr>assignment_id = ''a1'', as_task_id = ''A'', bundle_id = ''b1'', asset_ids = [''v1''],
      operator_ids = [''op1''], planned_start = 0, planned_finish = 100, route_ref = None,
      material_reservation_refs = [], is_frozen = False, is_pinned = False,
      expected_revenue_eur = 0, expected_cost_eur = 0, expected_margin_eur = 0,
      previous_bundle_id = None, previous_start_time = None, change_penalty = 0,
      as_explanation_ref = ''''\<rparr>"

definition sample_versions :: version_dimensions where
  "sample_versions =
     \<lparr>contract_versions = [], avro_schema_versions = [], mapping_versions = [],
      quality_policy_versions = [], optimization_profile_version = [],
      adapter_compatibility_version = [], integer_scaling_policy_version = []\<rparr>"

definition sample_quality :: quality_summary where
  "sample_quality =
     \<lparr>n_findings = 0, by_severity = [], n_entities_excluded = 0, n_imputed = 0,
      observation_error_rates = []\<rparr>"

definition sample_risk :: risk_summary where
  "sample_risk =
     \<lparr>n_contract_deadlines_at_risk = 0, n_weather_restricted_tasks = 0,
      total_penalty_exposure_eur = 0\<rparr>"

definition sample_plan :: "string \<Rightarrow> assignment list \<Rightarrow> plan" where
  "sample_plan rid xs =
     \<lparr>plan_id = ''p'', revision_id = rid, parent_revision_id = None, origin_plan_id = ''p'',
      pl_planning_mode = ROLLING, pl_snapshot_id = ''s'', pl_snapshot_hash = ''h'',
      pl_version_dimensions = sample_versions, adapter_id = ''a'', adapter_version = ''1'',
      solver_version = [], pl_generated_at = 0, effective_from = 0, effective_to = None,
      pl_status = DRAFT, assignments = xs, unassigned_tasks = [], material_reservations = [],
      corrective_actions = [], pl_source_watermarks = [], score = [],
      pl_quality_summary = sample_quality, pl_risk_summary = sample_risk, pl_lineage_ref = []\<rparr>"

end
