(* ===== verification/Sweep.thy ===== *)
theory Sweep
  imports Prelude
begin

text \<open>
  The sweep line both post-solve passes use to count simultaneous occupants
  (\<open>_max_concurrent\<close> of \<open>planning/charging.py\<close> and \<open>planning/airspace.py\<close>, \<open>_peak_queue_depth\<close> of
  \<open>planning/charging.py\<close>): every interval contributes a start event \<open>+1\<close> and an end event \<open>-1\<close>, the
  events are sorted by time with ends first at a tie, and the running sum's maximum is returned.
  The theorem shows that the result is the largest number of half-open intervals \<open>[s, e)\<close> that hold
  one instant.
\<close>

subsection \<open>The sweep\<close>

definition sweep_events :: "(real \<times> real) list \<Rightarrow> (real \<times> int) list" where
  "sweep_events ivs = concat (map (\<lambda>(s, e). [(s, 1), (e, -1)]) ivs)"

definition sweep_step :: "real \<times> int \<Rightarrow> int \<times> int \<Rightarrow> int \<times> int" where
  "sweep_step ev acc = (let current = fst acc + snd ev in (current, max (snd acc) current))"

definition sweep_peak :: "(real \<times> real) list \<Rightarrow> int" where
  "sweep_peak ivs = snd (fold sweep_step (sort (sweep_events ivs)) (0, 0))"

text \<open>How many intervals hold the instant \<open>t\<close>.\<close>

definition active :: "(real \<times> real) list \<Rightarrow> real \<Rightarrow> int" where
  "active ivs t = int (length (filter (\<lambda>(s, e). s \<le> t \<and> t < e) ivs))"

subsection \<open>The running sum\<close>

abbreviation total :: "(real \<times> int) list \<Rightarrow> int" where
  "total evs \<equiv> sum_list (map snd evs)"

lemma sweep_fold_bounds:
  "snd acc \<le> snd (fold sweep_step evs acc)
   \<and> (\<forall>xs ys. evs = xs @ ys \<longrightarrow> xs \<noteq> [] \<longrightarrow> fst acc + total xs \<le> snd (fold sweep_step evs acc))
   \<and> (snd (fold sweep_step evs acc) = snd acc
       \<or> (\<exists>xs ys. evs = xs @ ys \<and> xs \<noteq> [] \<and> snd (fold sweep_step evs acc) = fst acc + total xs))"
proof (induction evs arbitrary: acc)
  case (Cons ev evs)
  let ?acc = "sweep_step ev acc"
  let ?r = "snd (fold sweep_step evs ?acc)"
  have a: "fst ?acc = fst acc + snd ev" "snd ?acc = max (snd acc) (fst acc + snd ev)"
    by (simp_all add: sweep_step_def Let_def)
  note ih = Cons.IH [of ?acc]
  have low: "snd acc \<le> ?r" "fst acc + snd ev \<le> ?r" using ih a by auto
  have pre: "fst acc + total xs \<le> ?r" if "ev # evs = xs @ ys" "xs \<noteq> []" for xs ys
  proof -
    obtain xs' where xs: "xs = ev # xs'" "evs = xs' @ ys" using \<open>ev # evs = xs @ ys\<close> \<open>xs \<noteq> []\<close>
      by (cases xs) auto
    show ?thesis
    proof (cases "xs' = []")
      case True with xs low show ?thesis by simp
    next
      case False
      with ih xs(2) have "fst ?acc + total xs' \<le> ?r" by blast
      with xs a show ?thesis by simp
    qed
  qed
  have "?r = snd acc \<or> (\<exists>xs ys. ev # evs = xs @ ys \<and> xs \<noteq> [] \<and> ?r = fst acc + total xs)"
  proof (cases "?r = snd ?acc")
    case True
    show ?thesis
    proof (cases "snd acc \<le> fst acc + snd ev")
      case True
      with \<open>?r = snd ?acc\<close> a have "?r = fst acc + total [ev]" by simp
      then show ?thesis by (metis append_Cons append_Nil list.distinct(1))
    next
      case False
      with \<open>?r = snd ?acc\<close> a show ?thesis by simp
    qed
  next
    case False
    with ih obtain xs ys where "evs = xs @ ys" "?r = fst ?acc + total xs" by blast
    with a have "ev # evs = (ev # xs) @ ys" "?r = fst acc + total (ev # xs)" by simp_all
    then show ?thesis by blast
  qed
  moreover have "fold sweep_step (ev # evs) acc = fold sweep_step evs ?acc" by simp
  ultimately show ?case using low pre by (simp only:) blast
qed simp

lemma total_mset: "mset xs = mset ys \<Longrightarrow> total xs = total ys"
  by (metis mset_map sum_mset_sum_list)

lemma total_due:
  "\<forall>(s, e)\<in>set ivs. s \<le> e \<Longrightarrow> total (filter (\<lambda>ev. fst ev \<le> t) (sweep_events ivs)) = active ivs t"
proof (induction ivs)
  case (Cons i ivs)
  obtain s e where i: "i = (s, e)" by fastforce
  have "total (filter (\<lambda>ev. fst ev \<le> t) [(s, 1), (e, -1)]) = (if s \<le> t \<and> t < e then 1 else 0)"
    using Cons.prems i by auto
  with Cons i show ?case by (simp add: sweep_events_def active_def)
qed (simp add: sweep_events_def active_def)

lemma sorted_due_prefix:
  fixes evs :: "(real \<times> int) list"
  shows "sorted evs \<Longrightarrow> \<exists>ys. evs = filter (\<lambda>ev. fst ev \<le> t) evs @ ys"
proof (induction evs)
  case (Cons ev evs)
  then obtain ys where ys: "evs = filter (\<lambda>ev. fst ev \<le> t) evs @ ys" by auto
  show ?case
  proof (cases "fst ev \<le> t")
    case True
    then show ?thesis using ys by auto
  next
    case False
    with Cons.prems have "\<forall>x\<in>set evs. \<not> fst x \<le> t"
      by (auto simp: less_eq_prod_def)
    then have "filter (\<lambda>ev. fst ev \<le> t) (ev # evs) = []" using False by (simp add: filter_empty_conv)
    then show ?thesis by simp
  qed
qed simp

text \<open>A prefix that ends with a start event is dominated by the sum over the whole instant.\<close>

lemma sorted_prefix_le_due:
  fixes evs :: "(real \<times> int) list"
  assumes "sorted evs" "evs = xs @ (t, 1) # ys" "\<forall>ev\<in>set evs. snd ev \<in> {1, -1}"
  shows "total (xs @ [(t, 1)]) \<le> total (filter (\<lambda>ev. fst ev \<le> t) evs)"
proof -
  have xs: "\<forall>x\<in>set xs. fst x \<le> t"
    using assms(1,2) by (auto simp: sorted_append less_eq_prod_def)
  have ys: "\<forall>y\<in>set ys. fst y \<le> t \<longrightarrow> 0 \<le> snd y"
    using assms by (fastforce simp: sorted_append less_eq_prod_def)
  have "0 \<le> total (filter (\<lambda>ev. fst ev \<le> t) ys)"
    by (rule sum_list_nonneg) (use ys in auto)
  moreover have "filter (\<lambda>ev. fst ev \<le> t) xs = xs" using xs by (simp add: filter_id_conv)
  ultimately show ?thesis by (simp add: assms(2))
qed

lemma sweep_events_snd: "ev \<in> set (sweep_events ivs) \<Longrightarrow> snd ev \<in> {1, -1}"
  by (auto simp: sweep_events_def)

lemma prefix_le_active:
  assumes "\<forall>(s, e)\<in>set ivs. s \<le> e" "sort (sweep_events ivs) = xs @ ys"
  shows "total xs \<le> 0 \<or> (\<exists>t. total xs \<le> active ivs t)"
  using assms(2)
proof (induction xs arbitrary: ys rule: rev_induct)
  case (snoc ev xs)
  let ?evs = "sort (sweep_events ivs)"
  have all: "\<forall>ev\<in>set ?evs. snd ev \<in> {1, -1}" using sweep_events_snd by simp
  with snoc.prems have "snd ev \<in> {1, -1}" by (metis append_assoc in_set_conv_decomp append_Cons)
  then consider "snd ev = 1" | "snd ev = -1" by auto
  then show ?case
  proof cases
    case 1
    let ?t = "fst ev"
    have "?evs = xs @ (?t, 1) # ys" using snoc.prems 1 by (metis append_assoc append_Cons append_Nil prod.collapse)
    from sorted_prefix_le_due [OF sorted_sort this all]
    have "total (xs @ [(?t, 1)]) \<le> total (filter (\<lambda>ev. fst ev \<le> ?t) ?evs)" .
    moreover have "total (filter (\<lambda>ev. fst ev \<le> ?t) ?evs) = total (filter (\<lambda>ev. fst ev \<le> ?t) (sweep_events ivs))"
      by (rule total_mset) simp
    ultimately show ?thesis using total_due [OF assms(1), of ?t] 1 by (metis prod.collapse)
  next
    case 2
    have "?evs = xs @ (ev # ys)" using snoc.prems by simp
    from snoc.IH [OF this] 2 show ?thesis by (smt (verit) map_append sum_list_append list.map sum_list.Cons sum_list.Nil)
  qed
qed simp

theorem sweep_peak_max:
  assumes "\<forall>(s, e)\<in>set ivs. s \<le> e"
  shows "active ivs t \<le> sweep_peak ivs" and "sweep_peak ivs = 0 \<or> (\<exists>t. sweep_peak ivs = active ivs t)"
proof -
  let ?evs = "sort (sweep_events ivs)"
  note b = sweep_fold_bounds [of "(0, 0)" ?evs, folded sweep_peak_def]
  have upper: "active ivs t \<le> sweep_peak ivs" for t
  proof -
    obtain ys where "?evs = filter (\<lambda>ev. fst ev \<le> t) ?evs @ ys" using sorted_due_prefix [of ?evs t] by auto
    moreover have "total (filter (\<lambda>ev. fst ev \<le> t) ?evs) = active ivs t"
      using total_mset [of "filter (\<lambda>ev. fst ev \<le> t) ?evs" "filter (\<lambda>ev. fst ev \<le> t) (sweep_events ivs)"]
        total_due [OF assms] by simp
    ultimately show ?thesis using b
      by (metis (no_types, lifting) add_0 fst_conv list.simps(8) snd_conv sum_list.Nil)
  qed
  then show "active ivs t \<le> sweep_peak ivs" .
  show "sweep_peak ivs = 0 \<or> (\<exists>t. sweep_peak ivs = active ivs t)"
  proof (cases "sweep_peak ivs = 0")
    case False
    with b obtain xs ys where xs: "?evs = xs @ ys" "sweep_peak ivs = total xs" by auto
    have "0 \<le> sweep_peak ivs" using b by simp
    with False xs(2) prefix_le_active [OF assms xs(1)] upper show ?thesis by (metis antisym_conv1 order.trans linorder_not_less)
  qed simp
qed

end
