(* ===== verification/Charging.thy ===== *)
theory Charging
  imports Canonical Sweep "HOL-Library.Option_ord"
begin

text \<open>
  The charging-station pass (\<open>planning/charging.py\<close>): the energy each used asset has to replenish,
  the scheduling of its recharge into the bays of its home hub, and the summary. A bay's free time
  \<open>float("-inf")\<close> is \<open>None\<close>, the least element of the ordered option type, so that the choice of
  the earliest-free bay is the source's minimum over \<open>(slot_free[idx], idx)\<close>. The environment
  settings are the record \<open>charging_config\<close>.
\<close>

record charging_config =
  default_slots :: int
  default_power_kw :: real
  min_session_kwh :: real
  turnaround_risk_s :: real

definition energy_rate_term :: string where
  "energy_rate_term = ''urn:xopt:capability:energy-consumption-rate''"

definition energy_capacity_term :: string where
  "energy_capacity_term = ''urn:xopt:capability:energy-capacity''"

subsection \<open>Sessions\<close>

record session =
  s_asset_id :: string
  s_hub_id :: string
  energy_kwh :: real
  arrival_s :: real
  duration_s :: real
  slot :: int
  charge_start_s :: real
  charge_end_s :: real

definition wait_s :: "session \<Rightarrow> real" where
  "wait_s s = max 0 (charge_start_s s - arrival_s s)"

definition turnaround_s :: "session \<Rightarrow> real" where
  "turnaround_s s = max 0 (charge_end_s s - arrival_s s)"

definition at_turnaround_risk :: "charging_config \<Rightarrow> session \<Rightarrow> bool" where
  "at_turnaround_risk cfg s \<longleftrightarrow> turnaround_s s > turnaround_risk_s cfg"

subsection \<open>Energy demands\<close>

definition capability_float :: "runtime \<Rightarrow> asset \<Rightarrow> string \<Rightarrow> real" where
  "capability_float rt a term =
     (case capability_value a term of
        VNone \<Rightarrow> 0
      | v \<Rightarrow> (case py_float rt v of None \<Rightarrow> 0 | Some x \<Rightarrow> x))"

text \<open>The first loop: busy seconds and latest arrival per asset, in order of first use.\<close>

definition busy_step ::
  "assignment \<Rightarrow> (string, real) dict \<times> (string, real) dict \<Rightarrow> (string, real) dict \<times> (string, real) dict" where
  "busy_step a acc =
     (case asset_ids a of
        [] \<Rightarrow> acc
      | asset # _ \<Rightarrow>
          let start = planned_start a; end = planned_finish a in
          (AList.update asset (dget_default (fst acc) asset 0 + max 0 (end - start)) (fst acc),
           AList.update asset (max (dget_default (snd acc) asset end) end) (snd acc)))"

definition energy_demands ::
  "runtime \<Rightarrow> assignment list \<Rightarrow> (string \<Rightarrow> asset option)
     \<Rightarrow> (string \<times> string \<times> real \<times> real) list" where
  "energy_demands rt asgs asset_by_id =
     (let (busy_s, arrival) = fold busy_step asgs ([], []) in
      List.map_filter (\<lambda>(aid, busy).
        case asset_by_id aid of
          None \<Rightarrow> None
        | Some a \<Rightarrow>
            (case home_depot_ref a of
               None \<Rightarrow> None
             | Some hub \<Rightarrow>
                 let rate = capability_float rt a energy_rate_term in
                 if rate \<le> 0 then None
                 else let energy = rate * (busy / 3600);
                          capacity = capability_float rt a energy_capacity_term
                      in Some (aid, hub, if capacity > 0 then min energy capacity else energy,
                               dget_default arrival aid 0))) busy_s)"

subsection \<open>Scheduling one hub\<close>

text \<open>The body of the loop over the ordered sessions.\<close>

definition place_session ::
  "real \<Rightarrow> real option list \<Rightarrow> session \<Rightarrow> real option list \<times> session" where
  "place_session per_slot_power slot_free s =
     (let duration = (if per_slot_power > 0 then energy_kwh s / per_slot_power * 3600
                      else duration_s s);
          k = (case min_by (\<lambda>idx. (slot_free ! idx, idx)) [0..<length slot_free] of
                 None \<Rightarrow> 0 | Some idx \<Rightarrow> idx);
          start = (case slot_free ! k of None \<Rightarrow> arrival_s s | Some f \<Rightarrow> max (arrival_s s) f)
      in (slot_free[k := Some (start + duration)],
          s\<lparr>duration_s := duration, slot := int k, charge_start_s := start,
            charge_end_s := start + duration\<rparr>))"

fun place_all :: "real \<Rightarrow> real option list \<Rightarrow> session list \<Rightarrow> session list" where
  "place_all per_slot_power slot_free [] = []"
| "place_all per_slot_power slot_free (s # ss) =
     (let (slot_free', s') = place_session per_slot_power slot_free s
      in s' # place_all per_slot_power slot_free' ss)"

definition hub_slots :: "charging_config \<Rightarrow> location \<Rightarrow> nat" where
  "hub_slots cfg hub =
     nat (max 1 (case charging_slots hub of
                   None \<Rightarrow> default_slots cfg | Some n \<Rightarrow> if n = 0 then default_slots cfg else n))"

definition hub_power :: "charging_config \<Rightarrow> location \<Rightarrow> real" where
  "hub_power cfg hub =
     (case charging_power_kw hub of
        None \<Rightarrow> default_power_kw cfg | Some p \<Rightarrow> if p = 0 then default_power_kw cfg else p)"

definition per_slot_power :: "charging_config \<Rightarrow> location \<Rightarrow> real" where
  "per_slot_power cfg hub =
     (if hub_power cfg hub > 0 then hub_power cfg hub / real (hub_slots cfg hub) else 0)"

definition ordered_sessions :: "session list \<Rightarrow> session list" where
  "ordered_sessions sessions = sort_key (\<lambda>s. (arrival_s s, s_asset_id s)) sessions"

definition hub_sessions :: "charging_config \<Rightarrow> location \<Rightarrow> session list \<Rightarrow> session list" where
  "hub_sessions cfg hub sessions =
     place_all (per_slot_power cfg hub) (replicate (hub_slots cfg hub) None)
       (ordered_sessions sessions)"

subsection \<open>Reports\<close>

definition waiting_intervals :: "session list \<Rightarrow> (real \<times> real) list" where
  "waiting_intervals sessions =
     map (\<lambda>s. (arrival_s s, charge_start_s s))
       (filter (\<lambda>s. \<not> charge_start_s s \<le> arrival_s s) sessions)"

definition peak_queue_depth :: "session list \<Rightarrow> int" where
  "peak_queue_depth sessions = sweep_peak (waiting_intervals sessions)"

definition charge_intervals :: "session list \<Rightarrow> (real \<times> real) list" where
  "charge_intervals sessions = map (\<lambda>s. (charge_start_s s, charge_end_s s)) sessions"

definition max_concurrent :: "session list \<Rightarrow> int" where
  "max_concurrent sessions = sweep_peak (charge_intervals sessions)"

text \<open>\<open>round(max(xs), 1) if xs else 0.0\<close>.\<close>

definition rounded_max :: "real list \<Rightarrow> real" where
  "rounded_max xs = (if xs = [] then 0 else py_round 1 (Max (set xs)))"

record hub_report =
  hr_slots :: nat
  hr_power_kw :: real
  hr_per_slot_power_kw :: real
  hr_n_sessions :: nat
  hr_energy_kwh :: real
  hr_total_charge_time_s :: real
  hr_total_queue_wait_s :: real
  hr_max_queue_wait_s :: real
  hr_n_queued_sessions :: nat
  hr_peak_queue_depth :: int
  hr_max_turnaround_s :: real
  hr_n_turnaround_at_risk :: nat
  hr_utilization_pct :: real

definition schedule_hub :: "charging_config \<Rightarrow> location \<Rightarrow> session list \<Rightarrow> hub_report \<times> session list" where
  "schedule_hub cfg hub sessions =
     (let ordered = hub_sessions cfg hub sessions;
          slots = hub_slots cfg hub;
          busy = sum_list (map duration_s ordered);
          waits = map wait_s ordered;
          turnarounds = map turnaround_s ordered;
          window = (if ordered \<noteq> [] then Max (set (map charge_end_s ordered))
                                         - Min (set (map charge_start_s ordered)) else 0);
          utilization = (if window > 0 then busy / (real slots * window) * 100 else 0)
      in (\<lparr>hr_slots = slots, hr_power_kw = py_round 2 (hub_power cfg hub),
           hr_per_slot_power_kw = py_round 2 (per_slot_power cfg hub),
           hr_n_sessions = length ordered,
           hr_energy_kwh = py_round 2 (sum_list (map energy_kwh ordered)),
           hr_total_charge_time_s = py_round 1 busy,
           hr_total_queue_wait_s = py_round 1 (sum_list waits),
           hr_max_queue_wait_s = rounded_max waits,
           hr_n_queued_sessions = length (filter (\<lambda>w. w > 0) waits),
           hr_peak_queue_depth = peak_queue_depth ordered,
           hr_max_turnaround_s = rounded_max turnarounds,
           hr_n_turnaround_at_risk = length (filter (at_turnaround_risk cfg) ordered),
           hr_utilization_pct = py_round 2 utilization\<rparr>, ordered))"

subsection \<open>The schedule\<close>

record session_row =
  row_asset_id :: string
  row_hub_id :: string
  row_slot :: int
  row_energy_kwh :: real
  row_wait_s :: real
  row_charge_time_s :: real
  row_turnaround_s :: real
  row_ready_at_s :: real

record charging_schedule =
  n_charging_sessions :: nat
  n_hubs_with_charging :: nat
  total_energy_charged_kwh :: real
  total_queue_wait_s :: real
  max_queue_wait_s :: real
  mean_queue_wait_s :: real
  n_queued_sessions :: nat
  queued_share_pct :: real
  max_concurrent_charging :: int
  cs_peak_queue_depth :: int
  max_turnaround_s :: real
  mean_turnaround_s :: real
  n_turnaround_at_risk :: nat
  hub_utilization :: "(string \<times> hub_report) list"
  session_rows :: "session_row list"

definition session_row_of :: "session \<Rightarrow> session_row" where
  "session_row_of s =
     \<lparr>row_asset_id = s_asset_id s, row_hub_id = s_hub_id s, row_slot = slot s,
      row_energy_kwh = energy_kwh s, row_wait_s = py_round 1 (wait_s s),
      row_charge_time_s = py_round 1 (duration_s s), row_turnaround_s = py_round 1 (turnaround_s s),
      row_ready_at_s = py_round 1 (charge_end_s s)\<rparr>"

definition summarize_charging ::
  "charging_config \<Rightarrow> session list \<Rightarrow> (string \<times> hub_report) list \<Rightarrow> charging_schedule" where
  "summarize_charging cfg sessions reports =
     (let waits = map wait_s sessions; turnarounds = map turnaround_s sessions;
          n_queued = length (filter (\<lambda>w. w > 0) waits);
          n = real (length sessions)
      in \<lparr>n_charging_sessions = length sessions, n_hubs_with_charging = length reports,
          total_energy_charged_kwh = py_round 2 (sum_list (map energy_kwh sessions)),
          total_queue_wait_s = py_round 1 (sum_list waits),
          max_queue_wait_s = rounded_max waits,
          mean_queue_wait_s = (if waits = [] then 0 else py_round 1 (sum_list waits / n)),
          n_queued_sessions = n_queued,
          queued_share_pct = py_round 2 (real n_queued / n * 100),
          max_concurrent_charging = max_concurrent sessions,
          cs_peak_queue_depth =
            (if reports = [] then 0 else Max (set (map (\<lambda>r. hr_peak_queue_depth (snd r)) reports))),
          max_turnaround_s = rounded_max turnarounds,
          mean_turnaround_s = (if turnarounds = [] then 0 else py_round 1 (sum_list turnarounds / n)),
          n_turnaround_at_risk = length (filter (at_turnaround_risk cfg) sessions),
          hub_utilization = sort_key fst reports,
          session_rows = map session_row_of (sort_key (\<lambda>s. (s_hub_id s, arrival_s s)) sessions)\<rparr>)"

text \<open>The sessions of the schedule before it is placed, in the order of the demands.\<close>

definition new_session :: "string \<times> string \<times> real \<times> real \<Rightarrow> session" where
  "new_session d =
     (case d of (aid, hub, energy, arrival) \<Rightarrow>
        \<lparr>s_asset_id = aid, s_hub_id = hub, energy_kwh = py_round 3 energy, arrival_s = arrival,
         duration_s = 0, slot = -1, charge_start_s = 0, charge_end_s = 0\<rparr>)"

definition initial_sessions ::
  "charging_config \<Rightarrow> (string \<Rightarrow> location option) \<Rightarrow> (string \<times> string \<times> real \<times> real) list
     \<Rightarrow> session list" where
  "initial_sessions cfg hub_by_id demands =
     map new_session (filter (\<lambda>(aid, hub, energy, arrival).
       hub_by_id hub \<noteq> None \<and> energy \<ge> min_session_kwh cfg) demands)"

text \<open>
  \<open>_schedule_hub\<close> updates the session objects that the list of all sessions holds: an asset has one
  session, so the updated one is found by its asset.
\<close>

definition updated_session :: "session list \<Rightarrow> session \<Rightarrow> session" where
  "updated_session placed s =
     (case find (\<lambda>p. s_asset_id p = s_asset_id s) placed of None \<Rightarrow> s | Some p \<Rightarrow> p)"

definition build_charging_schedule ::
  "runtime \<Rightarrow> charging_config \<Rightarrow> asset list \<Rightarrow> location list \<Rightarrow> assignment list
     \<Rightarrow> charging_schedule option" where
  "build_charging_schedule rt cfg assets locations asgs =
     (let asset_by_id = map_of (rev (map (\<lambda>a. (asset_id a, a)) assets));
          hub_by_id = map_of (rev (map (\<lambda>l. (location_id l, l))
                        (filter (\<lambda>l. location_type l = ''depot'') locations)));
          sessions = initial_sessions cfg hub_by_id (energy_demands rt asgs asset_by_id)
      in if sessions = [] then None
         else
           let per_hub = fold (\<lambda>s. dappend (s_hub_id s) s) sessions [];
               scheduled = map (\<lambda>(hub, ss). (hub, schedule_hub cfg (the (hub_by_id hub)) ss)) per_hub;
               placed = concat (map (\<lambda>(hub, report, ss). ss) scheduled)
           in Some (summarize_charging cfg (map (updated_session placed) sessions)
                (map (\<lambda>(hub, report, ss). (hub, report)) scheduled)))"

subsection \<open>The invariant of the placement loop\<close>

text \<open>Session \<open>d\<close> occupies bay \<open>i\<close> at the instant \<open>t\<close>.\<close>

definition holds_bay :: "session \<Rightarrow> nat \<Rightarrow> real \<Rightarrow> bool" where
  "holds_bay d i t \<longleftrightarrow> slot d = int i \<and> charge_start_s d \<le> t \<and> t < charge_end_s d"

text \<open>
  \<open>D\<close> are the sessions placed so far, in placement order, and \<open>a\<close> bounds their arrivals: a bay is
  free only after its sessions, sessions of one bay follow each other, a bay is busy from \<open>a\<close> until
  it is free, and a session waits only while every bay is busy.
\<close>

definition bays_inv :: "nat \<Rightarrow> real option list \<Rightarrow> session list \<Rightarrow> real \<Rightarrow> bool" where
  "bays_inv n free D a \<longleftrightarrow>
     length free = n
     \<and> (\<forall>d\<in>set D. \<exists>i<n. slot d = int i \<and> (\<exists>f. free ! i = Some f \<and> charge_end_s d \<le> f))
     \<and> sorted_wrt (\<lambda>d e. slot d = slot e \<longrightarrow> charge_end_s d \<le> charge_start_s e) D
     \<and> (\<forall>i<n. \<forall>f t. free ! i = Some f \<longrightarrow> a \<le> t \<longrightarrow> t < f \<longrightarrow> (\<exists>d\<in>set D. holds_bay d i t))
     \<and> (\<forall>d\<in>set D. arrival_s d \<le> charge_start_s d \<and> charge_start_s d \<le> charge_end_s d
          \<and> (\<forall>t. arrival_s d \<le> t \<longrightarrow> t < charge_start_s d \<longrightarrow> (\<forall>i<n. \<exists>e\<in>set D. holds_bay e i t)))
     \<and> sorted (map charge_start_s D)
     \<and> (\<forall>d\<in>set D. charge_start_s d \<le> a \<or> (\<forall>i<n. \<exists>f. free ! i = Some f \<and> charge_start_s d \<le> f))"

lemma bays_inv_initial: "bays_inv n (replicate n None) [] a"
  by (simp add: bays_inv_def)

lemma earliest_bay:
  assumes "0 < n" "length free = n"
  obtains k where "min_by (\<lambda>idx. (free ! idx, idx)) [0..<length free] = Some k" "k < n"
    "\<forall>i<n. free ! k \<le> free ! i"
proof -
  have "[0..<length free] \<noteq> []" using assms by simp
  then obtain k where k: "min_by (\<lambda>idx. (free ! idx, idx)) [0..<length free] = Some k"
    by (metis min_by_None not_Some_eq)
  from min_by_Some [OF this] have "k < n" "\<forall>i<n. (free ! k, k) \<le> (free ! i, i)"
    using assms(2) by auto
  then have "\<forall>i<n. free ! k \<le> free ! i" by (auto simp: less_eq_prod_def less_le)
  with k \<open>k < n\<close> that show ?thesis by blast
qed

lemma place_session_inv:
  assumes inv: "bays_inv n free D a" and "0 < n" "a \<le> arrival_s s"
    and "0 \<le> energy_kwh s" "0 \<le> duration_s s"
    and "place_session p free s = (free', s')"
  shows "bays_inv n free' (D @ [s']) (arrival_s s)"
proof -
  have len: "length free = n" using inv by (simp add: bays_inv_def)
  from earliest_bay [OF assms(2) len] obtain k where
    k: "min_by (\<lambda>idx. (free ! idx, idx)) [0..<length free] = Some k" "k < n" "\<forall>i<n. free ! k \<le> free ! i" .
  define start where "start = (case free ! k of None \<Rightarrow> arrival_s s | Some f \<Rightarrow> max (arrival_s s) f)"
  define dur where "dur = (if p > 0 then energy_kwh s / p * 3600 else duration_s s)"
  have dur: "0 \<le> dur" using assms(4,5) by (simp add: dur_def)
  have s': "s' = s\<lparr>duration_s := dur, slot := int k, charge_start_s := start, charge_end_s := start + dur\<rparr>"
    and free': "free' = free[k := Some (start + dur)]"
    using assms(6) k(1) by (auto simp: place_session_def Let_def start_def dur_def)
  have fields: "slot s' = int k" "charge_start_s s' = start" "charge_end_s s' = start + dur"
    "arrival_s s' = arrival_s s" by (simp_all add: s')
  have start_ge: "arrival_s s \<le> start" by (auto simp: start_def split: option.splits)
  have start_free: "free ! k = Some f \<Longrightarrow> f \<le> start" for f by (simp add: start_def)
  have busy_all: "\<exists>f. free ! i = Some f \<and> t < f" if "i < n" "arrival_s s \<le> t" "t < start" for i t
  proof -
    from that obtain f where f: "free ! k = Some f" "t < f"
      by (auto simp: start_def split: option.splits)
    with k(3) that(1) have "Some f \<le> free ! i" by metis
    then show ?thesis using f(2) by (cases "free ! i") auto
  qed
  have covered: "\<exists>d\<in>set D. holds_bay d i t" if "i < n" "arrival_s s \<le> t" "t < start" for i t
  proof -
    from busy_all [OF that] obtain f where "free ! i = Some f" "t < f" by blast
    with inv that assms(3) show ?thesis unfolding bays_inv_def by (meson order_trans)
  qed
  have free_mono: "\<exists>f'. free' ! i = Some f' \<and> f \<le> f'" if "free ! i = Some f" "i < n" for i f
    using that start_free [of f] dur by (cases "i = k") (auto simp: free' len)
  have c1: "\<exists>i<n. slot d = int i \<and> (\<exists>f. free' ! i = Some f \<and> charge_end_s d \<le> f)"
    if "d \<in> set (D @ [s'])" for d
  proof (cases "d = s'")
    case True
    then show ?thesis using k(2) fields by (intro exI [of _ k]) (simp add: free' len)
  next
    case False
    with that inv obtain i f where "i < n" "slot d = int i" "free ! i = Some f" "charge_end_s d \<le> f"
      by (auto simp: bays_inv_def)
    with free_mono show ?thesis by (meson order_trans)
  qed
  have c2: "sorted_wrt (\<lambda>d e. slot d = slot e \<longrightarrow> charge_end_s d \<le> charge_start_s e) (D @ [s'])"
  proof -
    have "charge_end_s d \<le> start" if "d \<in> set D" "slot d = int k" for d
    proof -
      from inv that obtain f where "free ! k = Some f" "charge_end_s d \<le> f"
        by (fastforce simp: bays_inv_def)
      with start_free show ?thesis by (meson order_trans)
    qed
    with inv show ?thesis by (auto simp: bays_inv_def sorted_wrt_append fields)
  qed
  have c3: "\<exists>d\<in>set (D @ [s']). holds_bay d i t"
    if "i < n" "free' ! i = Some f" "arrival_s s \<le> t" "t < f" for i f t
  proof (cases "i = k \<and> start \<le> t")
    case True
    then have "holds_bay s' i t" using that by (simp add: holds_bay_def fields free' len)
    then show ?thesis by auto
  next
    case False
    show ?thesis
    proof (cases "i = k")
      case True
      with False covered [OF that(1,3)] show ?thesis by auto
    next
      case False
      with that have "free ! i = Some f" by (simp add: free')
      with inv that assms(3) have "\<exists>d\<in>set D. holds_bay d i t"
        unfolding bays_inv_def by (meson order_trans)
      then show ?thesis by auto
    qed
  qed
  have c4: "arrival_s d \<le> charge_start_s d \<and> charge_start_s d \<le> charge_end_s d
      \<and> (\<forall>t. arrival_s d \<le> t \<longrightarrow> t < charge_start_s d \<longrightarrow> (\<forall>i<n. \<exists>e\<in>set (D @ [s']). holds_bay e i t))"
    if "d \<in> set (D @ [s'])" for d
  proof (cases "d = s'")
    case True
    with covered start_ge dur show ?thesis by (auto simp: fields)
  next
    case False
    with that inv show ?thesis by (fastforce simp: bays_inv_def)
  qed
  have before: "charge_start_s d \<le> start" if "d \<in> set D" for d
  proof -
    from inv that consider "charge_start_s d \<le> a" | f where "free ! k = Some f" "charge_start_s d \<le> f"
      using k(2) unfolding bays_inv_def by blast
    then show ?thesis using start_ge start_free assms(3) by cases (meson order_trans)+
  qed
  have c5: "sorted (map charge_start_s (D @ [s']))"
    using inv before by (auto simp: bays_inv_def sorted_append fields)
  have c6: "charge_start_s d \<le> arrival_s s \<or> (\<forall>i<n. \<exists>f. free' ! i = Some f \<and> charge_start_s d \<le> f)"
    if "d \<in> set (D @ [s'])" for d
  proof -
    have "charge_start_s d \<le> start" using that before by (auto simp: fields)
    moreover have "\<exists>f. free' ! i = Some f \<and> start \<le> f" if "arrival_s s < start" "i < n" for i
    proof -
      from that(1) obtain f where f: "free ! k = Some f" "start = f"
        by (auto simp: start_def max_def split: option.splits if_splits)
      from k(3) that(2) f(1) have "Some f \<le> free ! i" by metis
      then obtain g where "free ! i = Some g" "f \<le> g" by (cases "free ! i") auto
      with free_mono that(2) f(2) show ?thesis by (meson order_trans)
    qed
    ultimately show ?thesis by (meson linorder_not_le order_trans)
  qed
  show ?thesis
    unfolding bays_inv_def using c1 c2 c3 c4 c5 c6 by (auto simp: free' len)
qed

lemma place_all_inv:
  assumes "bays_inv n free D a" "0 < n"
    and "sorted (map arrival_s ss)" "\<forall>s\<in>set ss. a \<le> arrival_s s"
    and "\<forall>s\<in>set ss. 0 \<le> energy_kwh s \<and> 0 \<le> duration_s s"
  shows "\<exists>free' a'. bays_inv n free' (D @ place_all p free ss) a'"
  using assms
proof (induction ss arbitrary: free D a)
  case Nil
  then show ?case by auto
next
  case (Cons s ss)
  obtain free1 s1 where one: "place_session p free s = (free1, s1)" by fastforce
  have "bays_inv n free1 (D @ [s1]) (arrival_s s)"
    using place_session_inv [OF Cons.prems(1,2) _ _ _ one] Cons.prems(4,5) by simp
  from Cons.IH [OF this Cons.prems(2)] Cons.prems(3,5) one show ?case by simp
qed

lemma place_all_keeps:
  "map arrival_s (place_all p free ss) = map arrival_s ss"
  "map s_asset_id (place_all p free ss) = map s_asset_id ss"
  "map energy_kwh (place_all p free ss) = map energy_kwh ss"
  by (induction ss arbitrary: free) (auto simp: place_session_def Let_def split: prod.splits)

lemma sorted_ordered_sessions: "sorted (map arrival_s (ordered_sessions sessions))"
proof -
  have "sorted (map (\<lambda>s. (arrival_s s, s_asset_id s)) (ordered_sessions sessions))"
    by (simp add: ordered_sessions_def)
  then show ?thesis
  proof (induction "ordered_sessions sessions" rule: list.induct)
    case Nil then show ?case by simp
  next
    case (Cons x xs)
    have "sorted_wrt (\<lambda>s u. (arrival_s s, s_asset_id s) \<le> (arrival_s u, s_asset_id u)) (ordered_sessions sessions)"
      using Cons.prems by (simp add: sorted_wrt_map)
    then have "sorted_wrt (\<lambda>s u. arrival_s s \<le> arrival_s u) (ordered_sessions sessions)"
      by (rule sorted_wrt_mono_rel [rotated]) (auto simp: less_eq_prod_def)
    then show ?case by (simp add: sorted_wrt_map)
  qed
qed

lemma hub_slots_pos [simp]: "0 < hub_slots cfg hub"
  by (simp add: hub_slots_def)

lemma hub_sessions_inv:
  assumes "\<forall>s\<in>set sessions. 0 \<le> energy_kwh s \<and> 0 \<le> duration_s s"
  obtains free a where "bays_inv (hub_slots cfg hub) free (hub_sessions cfg hub sessions) a"
proof -
  let ?o = "ordered_sessions sessions"
  obtain a where a: "\<forall>s\<in>set ?o. a \<le> arrival_s s"
  proof (cases "sessions = []")
    case False
    have "\<forall>s\<in>set ?o. Min (arrival_s ` set sessions) \<le> arrival_s s"
      by (simp add: ordered_sessions_def)
    with that show ?thesis .
  qed (simp add: ordered_sessions_def that)
  have "\<forall>s\<in>set ?o. 0 \<le> energy_kwh s \<and> 0 \<le> duration_s s"
    using assms by (simp add: ordered_sessions_def)
  from place_all_inv [OF bays_inv_initial hub_slots_pos sorted_ordered_sessions a this,
      of cfg hub "per_slot_power cfg hub"] that
  show ?thesis by (fastforce simp: hub_sessions_def)
qed

text \<open>The sessions that charge at \<open>t\<close> sit in different bays.\<close>

lemma bays_inv_active_le:
  assumes "bays_inv n free D a"
  shows "active (charge_intervals D) t \<le> int n"
proof -
  let ?at = "filter (\<lambda>d. charge_start_s d \<le> t \<and> t < charge_end_s d) D"
  have sw: "sorted_wrt (\<lambda>d e. slot d = slot e \<longrightarrow> charge_end_s d \<le> charge_start_s e) ?at"
    using assms by (simp add: bays_inv_def sorted_wrt_filter)
  have "distinct (map slot ?at)"
    using sw
  proof (induction D)
    case (Cons d D)
    then show ?case by (fastforce split: if_splits)
  qed simp
  moreover have "set (map slot ?at) \<subseteq> int ` {..<n}"
    using assms by (fastforce simp: bays_inv_def)
  ultimately have "length (map slot ?at) \<le> card (int ` {..<n})"
    by (metis card_mono distinct_card finite_imageI finite_lessThan)
  also have "\<dots> = n" by (simp add: card_image)
  finally have "length ?at \<le> n" by simp
  moreover have "length ?at = length (filter (\<lambda>(s, e). s \<le> t \<and> t < e) (charge_intervals D))"
    by (simp add: charge_intervals_def filter_map o_def)
  ultimately show ?thesis by (simp add: active_def)
qed

lemma bays_inv_active_ge:
  assumes "\<forall>i<n. \<exists>e\<in>set D. holds_bay e i t"
  shows "int n \<le> active (charge_intervals D) t"
proof -
  let ?at = "filter (\<lambda>d. charge_start_s d \<le> t \<and> t < charge_end_s d) D"
  have sub: "int ` {..<n} \<subseteq> set (map slot ?at)"
  proof
    fix x assume "x \<in> int ` {..<n}"
    then obtain i where "x = int i" "i < n" by blast
    with assms obtain e where "e \<in> set D" "holds_bay e i t" by blast
    with \<open>x = int i\<close> show "x \<in> set (map slot ?at)" by (auto simp: holds_bay_def image_iff)
  qed
  have "n = card (int ` {..<n})" by (simp add: card_image)
  also have "\<dots> \<le> card (set (map slot ?at))" by (rule card_mono [OF List.finite_set sub])
  also have "\<dots> \<le> length (map slot ?at)" by (rule card_length)
  also have "\<dots> = length (filter (\<lambda>(s, e). s \<le> t \<and> t < e) (charge_intervals D))"
    by (simp add: charge_intervals_def filter_map o_def)
  finally show ?thesis by (simp add: active_def)
qed

subsection \<open>Properties\<close>

text \<open>C6: the bays of a hub are never over-committed: every session gets one of the hub's bays, the
  sessions of a bay follow one another, and at no instant do more sessions charge than there are
  bays.\<close>

theorem charging_bays_exclusive:
  assumes "\<forall>s\<in>set sessions. 0 \<le> energy_kwh s \<and> 0 \<le> duration_s s"
  shows "sorted_wrt (\<lambda>d e. slot d = slot e \<longrightarrow> charge_end_s d \<le> charge_start_s e)
           (hub_sessions cfg hub sessions)
    \<and> (\<forall>s\<in>set (hub_sessions cfg hub sessions). 0 \<le> slot s \<and> slot s < int (hub_slots cfg hub)
          \<and> arrival_s s \<le> charge_start_s s)
    \<and> max_concurrent (hub_sessions cfg hub sessions) \<le> int (hub_slots cfg hub)"
proof -
  obtain free a where inv: "bays_inv (hub_slots cfg hub) free (hub_sessions cfg hub sessions) a"
    using hub_sessions_inv [OF assms] .
  let ?ivs = "charge_intervals (hub_sessions cfg hub sessions)"
  have "\<forall>(s, e)\<in>set ?ivs. s \<le> e" using inv by (auto simp: bays_inv_def charge_intervals_def)
  from sweep_peak_max(2) [OF this] bays_inv_active_le [OF inv]
  have "sweep_peak ?ivs \<le> int (hub_slots cfg hub)" by (metis of_nat_0_le_iff)
  with inv show ?thesis by (fastforce simp: bays_inv_def max_concurrent_def)
qed

text \<open>C7: the charging queue is work-conserving and first come, first served: while a session waits,
  every bay of the hub is charging, and sessions start in the order of their arrival.\<close>

theorem charging_work_conserving:
  assumes "\<forall>s\<in>set sessions. 0 \<le> energy_kwh s \<and> 0 \<le> duration_s s"
    and "s \<in> set (hub_sessions cfg hub sessions)" "arrival_s s \<le> t" "t < charge_start_s s"
  shows "active (charge_intervals (hub_sessions cfg hub sessions)) t = int (hub_slots cfg hub)
    \<and> sorted (map arrival_s (hub_sessions cfg hub sessions))
    \<and> sorted (map charge_start_s (hub_sessions cfg hub sessions))"
proof -
  obtain free a where inv: "bays_inv (hub_slots cfg hub) free (hub_sessions cfg hub sessions) a"
    using hub_sessions_inv [OF assms(1)] .
  then have "\<forall>i<hub_slots cfg hub. \<exists>e\<in>set (hub_sessions cfg hub sessions). holds_bay e i t"
    using assms(2-) unfolding bays_inv_def by blast
  from bays_inv_active_ge [OF this] bays_inv_active_le [OF inv, of t] inv
  show ?thesis by (simp add: bays_inv_def hub_sessions_def place_all_keeps sorted_ordered_sessions)
qed

text \<open>the reported concurrency of a sweep is exact for any sessions that end no earlier than they
  start: it bounds the number charging at every instant and is reached at some instant.\<close>

theorem charging_concurrency_exact:
  assumes "\<forall>s\<in>set sessions. charge_start_s s \<le> charge_end_s s"
  shows "active (charge_intervals sessions) t \<le> max_concurrent sessions
    \<and> (max_concurrent sessions = 0 \<or> (\<exists>t. max_concurrent sessions = active (charge_intervals sessions) t))"
proof -
  have "\<forall>(s, e)\<in>set (charge_intervals sessions). s \<le> e" using assms by (auto simp: charge_intervals_def)
  from sweep_peak_max [OF this] show ?thesis by (simp add: max_concurrent_def)
qed

definition sample_config :: charging_config where
  "sample_config = \<lparr>default_slots = 2, default_power_kw = 50, min_session_kwh = 1/2,
     turnaround_risk_s = 7200\<rparr>"

definition sample_hub :: location where
  "sample_hub =
     \<lparr>location_id = ''hub'', location_type = ''depot'', loc_lat = 0, loc_lon = 0, loc_name = '''',
      area_ha = None, loc_soil_type = '''', loc_polygon = [], loc_restricted_operations = [],
      loc_restriction_windows = [], charging_power_kw = Some 36, charging_slots = Some 1,
      loc_source_ref = '''', loc_extra = []\<rparr>"

definition sample_sessions :: "session list" where
  "sample_sessions = map new_session [(''v2'', ''hub'', 1, 50), (''v1'', ''hub'', 1, 0)]"

text \<open>One bay at 36 kW charges 1 kWh in 100 s: the second drone, back at 50, waits until 100.\<close>

lemma sample_hub_sessions:
  "map (\<lambda>s. (s_asset_id s, charge_start_s s, charge_end_s s)) (hub_sessions sample_config sample_hub sample_sessions)
     = [(''v1'', 0, 100), (''v2'', 100, 200)]"
  by code_simp

lemma charging_bays_exclusive_witness:
  "max_concurrent (hub_sessions sample_config sample_hub sample_sessions)
     \<le> int (hub_slots sample_config sample_hub)"
proof -
  have "\<forall>s\<in>set sample_sessions. 0 \<le> energy_kwh s \<and> 0 \<le> duration_s s" by code_simp
  from charging_bays_exclusive [OF this] show ?thesis by blast
qed

lemma charging_work_conserving_witness:
  "active (charge_intervals (hub_sessions sample_config sample_hub sample_sessions)) 60 = 1"
proof -
  have "\<forall>s\<in>set sample_sessions. 0 \<le> energy_kwh s \<and> 0 \<le> duration_s s" by code_simp
  moreover have "hub_sessions sample_config sample_hub sample_sessions ! 1
      \<in> set (hub_sessions sample_config sample_hub sample_sessions)" by code_simp
  moreover have "arrival_s (hub_sessions sample_config sample_hub sample_sessions ! 1) \<le> 60"
    "60 < charge_start_s (hub_sessions sample_config sample_hub sample_sessions ! 1)"
    "hub_slots sample_config sample_hub = 1" by code_simp+
  ultimately show ?thesis
    using charging_work_conserving [of sample_sessions _ sample_config sample_hub 60] by simp
qed

lemma charging_concurrency_exact_witness:
  "active (charge_intervals (hub_sessions sample_config sample_hub sample_sessions)) 60
     \<le> max_concurrent (hub_sessions sample_config sample_hub sample_sessions)"
proof -
  have "\<forall>s\<in>set (hub_sessions sample_config sample_hub sample_sessions). charge_start_s s \<le> charge_end_s s"
    by code_simp
  from charging_concurrency_exact [OF this] show ?thesis by blast
qed

end
