(* ===== verification/Airspace.thy ===== *)
theory Airspace
  imports Canonical Geometry Sweep "HOL-Library.Option_ord"
begin

text \<open>
  Airspace deconfliction (\<open>planning/airspace.py\<close>): the conflict graph of the aerial flights, the
  greedy assignment of altitude corridors, the temporal separation of the flights that still share
  one, the report, and the holds applied to the dispatch. An unbounded slack (\<open>float("inf")\<close>) and
  the distance of two flights without segments are \<open>None\<close>. The environment settings are the record
  \<open>airspace_config\<close>; choosing a corridor among none (a corridor count of 0) is the \<open>ValueError\<close>
  \<open>None\<close>.
\<close>

record airspace_config =
  corridor_count :: nat
  base_altitude_m :: real
  vertical_separation_m :: real
  horizontal_separation_m :: real
  time_buffer_s :: real
  metres_per_degree :: real

subsection \<open>Flights\<close>

record flight =
  fl_task_id :: string
  fl_asset_id :: string
  path :: "point list"
  entry_s :: real
  exit_s :: real
  slack_s :: "real option"
  corridor :: int
  delay_s :: real

definition eff_entry :: "flight \<Rightarrow> real" where
  "eff_entry f = entry_s f + delay_s f"

definition eff_exit :: "flight \<Rightarrow> real" where
  "eff_exit f = exit_s f + delay_s f"

definition segments :: "flight \<Rightarrow> (point \<times> point) list" where
  "segments f =
     (if length (path f) < 2
      then (if path f = [] then [] else [(hd (path f), hd (path f))])
      else zip (path f) (tl (path f)))"

text \<open>\<open>_flight_path\<close>: origin, pickup and drop, without consecutive duplicates.\<close>

fun dedup_points :: "point list \<Rightarrow> point list \<Rightarrow> point list" where
  "dedup_points acc [] = rev acc"
| "dedup_points acc (p # ps) =
     (if acc = [] \<or> hd acc \<noteq> p then dedup_points (p # acc) ps else dedup_points acc ps)"

definition flight_path ::
  "task \<Rightarrow> string \<Rightarrow> (string \<Rightarrow> point option) \<Rightarrow> (string \<Rightarrow> point option)
     \<Rightarrow> (string \<Rightarrow> string option) \<Rightarrow> point list" where
  "flight_path tk aid location_coords asset_coords asset_home =
     (let home = (case asset_home aid of None \<Rightarrow> None
                  | Some r \<Rightarrow> if r = [] then None else location_coords r);
          origin = (case home of Some p \<Rightarrow> [p]
                    | None \<Rightarrow> (case asset_coords aid of Some p \<Rightarrow> [p] | None \<Rightarrow> []));
          pickup = (case tk_pickup_location_ref tk of None \<Rightarrow> []
                    | Some r \<Rightarrow> if r = [] then []
                               else (case location_coords r of Some p \<Rightarrow> [p] | None \<Rightarrow> []));
          drop = (case location_coords (tk_location_ref tk) of Some p \<Rightarrow> [p] | None \<Rightarrow> [])
      in dedup_points [] (origin @ pickup @ drop))"

definition inbound_travel_s :: "'g shapely \<Rightarrow> point list \<Rightarrow> real \<Rightarrow> real" where
  "inbound_travel_s sh pts speed_kmh =
     (if speed_kmh \<le> 0 \<or> length pts < 2 then 0
      else sum_list (map (\<lambda>k. haversine_km sh (pts ! k) (pts ! (k + 1))) [0..<length pts - 1])
             / speed_kmh * 3600)"

definition deadline_slack_s :: "task \<Rightarrow> real \<Rightarrow> bool \<Rightarrow> real option" where
  "deadline_slack_s tk exit frozen =
     (if frozen then Some 0
      else case tk_deadline tk of None \<Rightarrow> None | Some d \<Rightarrow> Some (max 0 (d - exit)))"

definition air_capability_float :: "runtime \<Rightarrow> asset \<Rightarrow> string \<Rightarrow> real" where
  "air_capability_float rt a term =
     (case capability_value a term of
        VNone \<Rightarrow> 0
      | v \<Rightarrow> (case py_float rt v of None \<Rightarrow> 0 | Some x \<Rightarrow> x))"

text \<open>What a snapshot gives the pass.\<close>

record airspace_input =
  in_locations :: "location list"
  in_assets :: "asset list"
  in_tasks :: "task list"

definition last_by :: "('a \<Rightarrow> string) \<Rightarrow> ('a \<Rightarrow> 'b) \<Rightarrow> 'a list \<Rightarrow> string \<Rightarrow> 'b option" where
  "last_by k v xs = map_of (rev (map (\<lambda>x. (k x, v x)) xs))"

definition flight_of ::
  "'g shapely \<Rightarrow> runtime \<Rightarrow> airspace_input \<Rightarrow> assignment \<Rightarrow> flight option" where
  "flight_of sh rt inp a =
     (let location_coords = last_by location_id (\<lambda>l. (loc_lat l, loc_lon l)) (in_locations inp);
          asset_coords = last_by fst snd (List.map_filter (\<lambda>x.
            map_option (\<lambda>g. (asset_id x, (gl_lat g, gl_lon g))) (asset_location x)) (in_assets inp));
          asset_home = (\<lambda>x. case last_by asset_id home_depot_ref (in_assets inp) x of
                              None \<Rightarrow> None | Some h \<Rightarrow> h);
          asset_speed = last_by asset_id
            (\<lambda>x. air_capability_float rt x ''urn:xopt:capability:travel-speed'') (in_assets inp)
      in case last_by tk_id id (in_tasks inp) (as_task_id a) of
           None \<Rightarrow> None
         | Some tk \<Rightarrow>
             if tk_operation_type tk \<noteq> ''UAV_DELIVERY'' then None
             else
               let aid = (case asset_ids a of [] \<Rightarrow> '''' | x # _ \<Rightarrow> x);
                   pts = flight_path tk aid location_coords asset_coords asset_home
               in if pts = [] then None
                  else
                    let exit = planned_finish a;
                        speed = (case asset_speed aid of None \<Rightarrow> 0 | Some v \<Rightarrow> v)
                    in Some \<lparr>fl_task_id = as_task_id a, fl_asset_id = aid, path = pts,
                             entry_s = planned_start a - inbound_travel_s sh pts speed,
                             exit_s = exit,
                             slack_s = deadline_slack_s tk exit (is_frozen a \<or> is_pinned a),
                             corridor = -1, delay_s = 0\<rparr>)"

definition build_flights ::
  "'g shapely \<Rightarrow> runtime \<Rightarrow> airspace_input \<Rightarrow> assignment list \<Rightarrow> flight list" where
  "build_flights sh rt inp asgs = List.map_filter (flight_of sh rt inp) asgs"

subsection \<open>Conflicts\<close>

definition overlap :: "airspace_config \<Rightarrow> real \<Rightarrow> real \<Rightarrow> real \<Rightarrow> real \<Rightarrow> bool" where
  "overlap cfg a0 a1 b0 b1 \<longleftrightarrow> a1 + time_buffer_s cfg > b0 \<and> b1 + time_buffer_s cfg > a0"

text \<open>The two loops over the segments, left as soon as the best distance is 0.\<close>

fun lateral_loop ::
  "'g shapely \<Rightarrow> airspace_config \<Rightarrow> real option \<Rightarrow> ((point \<times> point) \<times> (point \<times> point)) list
     \<Rightarrow> real option" where
  "lateral_loop sh cfg best [] = best"
| "lateral_loop sh cfg best ((sa, sb) # rest) =
     (let d = segment_min_distance_m sh (metres_per_degree cfg) sa sb;
          best' = (case best of None \<Rightarrow> d | Some b \<Rightarrow> min b d)
      in if best' = 0 then Some 0 else lateral_loop sh cfg (Some best') rest)"

definition lateral_min_distance ::
  "'g shapely \<Rightarrow> airspace_config \<Rightarrow> flight \<Rightarrow> flight \<Rightarrow> real option" where
  "lateral_min_distance sh cfg a b =
     lateral_loop sh cfg None (List.product (segments a) (segments b))"

definition conflicting :: "'g shapely \<Rightarrow> airspace_config \<Rightarrow> flight \<Rightarrow> flight \<Rightarrow> bool" where
  "conflicting sh cfg a b \<longleftrightarrow>
     overlap cfg (entry_s a) (exit_s a) (entry_s b) (exit_s b)
     \<and> (case lateral_min_distance sh cfg a b of
          None \<Rightarrow> False | Some d \<Rightarrow> d < horizontal_separation_m cfg)"

definition conflict_pairs :: "'g shapely \<Rightarrow> airspace_config \<Rightarrow> flight list \<Rightarrow> (nat \<times> nat) list" where
  "conflict_pairs sh cfg flights =
     concat (map (\<lambda>i. map (Pair i)
       (filter (\<lambda>j. conflicting sh cfg (flights ! i) (flights ! j)) [i + 1..<length flights]))
       [0..<length flights])"

subsection \<open>Corridors\<close>

text \<open>The neighbours of a flight, in index order (a set in the source; only counted).\<close>

definition neighbors :: "nat \<Rightarrow> (nat \<times> nat) list \<Rightarrow> nat \<Rightarrow> nat list" where
  "neighbors n conflicts i =
     filter (\<lambda>j. (i, j) \<in> set conflicts \<or> (j, i) \<in> set conflicts) [0..<n]"

text \<open>\<open>used_by_neighbor.get(c, 0)\<close> for the corridors \<open>corr\<close> assigned so far.\<close>

definition used_by_neighbor :: "int list \<Rightarrow> nat list \<Rightarrow> int \<Rightarrow> nat" where
  "used_by_neighbor corr ns c = length (filter (\<lambda>n. corr ! n \<ge> 0 \<and> corr ! n = c) ns)"

definition first_free_corridor :: "airspace_config \<Rightarrow> (int \<Rightarrow> nat) \<Rightarrow> int option" where
  "first_free_corridor cfg used = find (\<lambda>c. used c = 0) (map int [0..<corridor_count cfg])"

definition choose_corridor :: "airspace_config \<Rightarrow> (int \<Rightarrow> nat) \<Rightarrow> int option" where
  "choose_corridor cfg used =
     (case first_free_corridor cfg used of
        Some c \<Rightarrow> Some c
      | None \<Rightarrow> min_by (\<lambda>c. (used c, c)) (map int [0..<corridor_count cfg]))"

text \<open>The loop over the flights in decreasing degree; \<open>corr\<close> is the corridor of every flight.\<close>

fun corridor_loop ::
  "airspace_config \<Rightarrow> (nat \<Rightarrow> nat list) \<Rightarrow> nat list \<Rightarrow> int list \<Rightarrow> int list option" where
  "corridor_loop cfg nb [] corr = Some corr"
| "corridor_loop cfg nb (i # order) corr =
     (case choose_corridor cfg (used_by_neighbor corr (nb i)) of
        None \<Rightarrow> None
      | Some c \<Rightarrow> corridor_loop cfg nb order (corr[i := c]))"

definition colouring_order :: "flight list \<Rightarrow> (nat \<Rightarrow> nat list) \<Rightarrow> nat list" where
  "colouring_order flights nb =
     sort_key (\<lambda>i. (- int (length (nb i)), entry_s (flights ! i), fl_task_id (flights ! i)))
       [0..<length flights]"

definition assign_corridors ::
  "airspace_config \<Rightarrow> flight list \<Rightarrow> (nat \<times> nat) list \<Rightarrow> flight list option" where
  "assign_corridors cfg flights conflicts =
     (let nb = neighbors (length flights) conflicts in
      map_option (\<lambda>corr. map2 (\<lambda>f c. f\<lparr>corridor := c\<rparr>) flights corr)
        (corridor_loop cfg nb (colouring_order flights nb) (map corridor flights)))"

subsection \<open>Temporal separation\<close>

definition same_corridor :: "flight list \<Rightarrow> (nat \<times> nat) list \<Rightarrow> (nat \<times> nat) list" where
  "same_corridor flights conflicts =
     filter (\<lambda>(i, j). corridor (flights ! i) = corridor (flights ! j)) conflicts"

definition adjacent :: "(nat \<times> nat) list \<Rightarrow> nat \<Rightarrow> nat \<Rightarrow> bool" where
  "adjacent pairs i j \<longleftrightarrow> (i, j) \<in> set pairs \<or> (j, i) \<in> set pairs"

text \<open>The hold of flight \<open>i\<close> behind the flights already placed in its corridor.\<close>

definition required_entry ::
  "airspace_config \<Rightarrow> (nat \<times> nat) list \<Rightarrow> flight list \<Rightarrow> nat list \<Rightarrow> nat \<Rightarrow> real" where
  "required_entry cfg adj flights placed i =
     fold (\<lambda>j r. if adjacent adj i j then max r (eff_exit (flights ! j) + time_buffer_s cfg) else r)
       placed (entry_s (flights ! i))"

definition hold_flight ::
  "airspace_config \<Rightarrow> (nat \<times> nat) list \<Rightarrow> flight list \<Rightarrow> nat list \<Rightarrow> nat \<Rightarrow> flight" where
  "hold_flight cfg adj flights placed i =
     (let desired = max 0 (required_entry cfg adj flights placed i - entry_s (flights ! i))
      in (flights ! i)\<lparr>delay_s :=
            (case slack_s (flights ! i) of None \<Rightarrow> desired | Some s \<Rightarrow> min desired s)\<rparr>)"

fun separate_members ::
  "airspace_config \<Rightarrow> (nat \<times> nat) list \<Rightarrow> nat list \<Rightarrow> nat list \<Rightarrow> flight list \<Rightarrow> flight list" where
  "separate_members cfg adj placed [] flights = flights"
| "separate_members cfg adj placed (i # members) flights =
     separate_members cfg adj (placed @ [i]) members
       (flights[i := hold_flight cfg adj flights placed i])"

text \<open>The corridors in order of first appearance.\<close>

definition corridors_in_order :: "flight list \<Rightarrow> int list" where
  "corridors_in_order flights = rev (remdups (rev (map corridor flights)))"

definition members_in_order :: "flight list \<Rightarrow> int \<Rightarrow> nat list" where
  "members_in_order flights c =
     sort_key (\<lambda>k. (entry_s (flights ! k), fl_task_id (flights ! k)))
       (filter (\<lambda>k. corridor (flights ! k) = c) [0..<length flights])"

definition apply_temporal_separation ::
  "airspace_config \<Rightarrow> flight list \<Rightarrow> (nat \<times> nat) list \<Rightarrow> flight list" where
  "apply_temporal_separation cfg flights conflicts =
     (let adj = same_corridor flights conflicts in
      if adj = [] then flights
      else fold (\<lambda>c fs. separate_members cfg adj [] (members_in_order flights c) fs)
             (corridors_in_order flights) flights)"

subsection \<open>The report\<close>

definition corridor_altitude :: "airspace_config \<Rightarrow> int \<Rightarrow> real" where
  "corridor_altitude cfg c =
     py_round 1 (base_altitude_m cfg + real_of_int (max 0 c) * vertical_separation_m cfg)"

definition max_concurrent_flights :: "flight list \<Rightarrow> int" where
  "max_concurrent_flights flights = sweep_peak (map (\<lambda>f. (eff_entry f, eff_exit f)) flights)"

datatype pair_outcome = CorridorSeparated | TimeSeparated | Residual

definition pair_outcome :: "airspace_config \<Rightarrow> flight list \<Rightarrow> nat \<times> nat \<Rightarrow> pair_outcome" where
  "pair_outcome cfg flights p =
     (let f = flights ! fst p; g = flights ! snd p in
      if corridor f \<noteq> corridor g then CorridorSeparated
      else if overlap cfg (eff_entry f) (eff_exit f) (eff_entry g) (eff_exit g) then Residual
      else TimeSeparated)"

record flight_row =
  frow_task_id :: string
  frow_asset_id :: string
  frow_corridor :: int
  frow_altitude_m :: real
  frow_delay_s :: real

record airspace_report =
  n_aerial_flights :: nat
  corridors_available :: nat
  corridors_used :: nat
  ar_vertical_separation_m :: real
  ar_horizontal_separation_m :: real
  n_conflict_pairs :: nat
  n_corridor_separated_pairs :: nat
  n_time_separated_pairs :: nat
  n_deconflicted_pairs :: nat
  n_residual_conflict_pairs :: nat
  n_flights_held :: nat
  total_deconfliction_delay_s :: real
  max_deconfliction_delay_s :: real
  ar_max_concurrent_flights :: int
  fully_deconflicted :: bool
  holds_applied_to_dispatch :: bool
  corridor_altitudes_m :: "(int \<times> real) list"
  flight_rows :: "flight_row list"

definition airspace_report_of ::
  "airspace_config \<Rightarrow> flight list \<Rightarrow> (nat \<times> nat) list \<Rightarrow> airspace_report" where
  "airspace_report_of cfg flights conflicts =
     (let outcomes = map (pair_outcome cfg flights) conflicts;
          count = (\<lambda>x. length (filter (\<lambda>y. y = x) outcomes));
          used = sort (remdups (map corridor flights));
          delays = map delay_s flights
      in \<lparr>n_aerial_flights = length flights, corridors_available = corridor_count cfg,
          corridors_used = length used,
          ar_vertical_separation_m = vertical_separation_m cfg,
          ar_horizontal_separation_m = horizontal_separation_m cfg,
          n_conflict_pairs = length conflicts,
          n_corridor_separated_pairs = count CorridorSeparated,
          n_time_separated_pairs = count TimeSeparated,
          n_deconflicted_pairs = count CorridorSeparated + count TimeSeparated,
          n_residual_conflict_pairs = count Residual,
          n_flights_held = length (filter (\<lambda>d. d > 0) delays),
          total_deconfliction_delay_s = py_round 1 (sum_list delays),
          max_deconfliction_delay_s = (if delays = [] then 0 else py_round 1 (Max (set delays))),
          ar_max_concurrent_flights = max_concurrent_flights flights,
          fully_deconflicted = (count Residual = 0), holds_applied_to_dispatch = True,
          corridor_altitudes_m = map (\<lambda>c. (c, corridor_altitude cfg c)) used,
          flight_rows = map (\<lambda>f. \<lparr>frow_task_id = fl_task_id f, frow_asset_id = fl_asset_id f,
             frow_corridor = corridor f, frow_altitude_m = corridor_altitude cfg (corridor f),
             frow_delay_s = py_round 1 (delay_s f)\<rparr>) flights\<rparr>)"

text \<open>The whole pass: the report (absent without flights), the holds, and the final flights.\<close>

definition deconflict_flights ::
  "'g shapely \<Rightarrow> airspace_config \<Rightarrow> flight list \<Rightarrow> (flight list \<times> (nat \<times> nat) list) option" where
  "deconflict_flights sh cfg flights =
     (let conflicts = conflict_pairs sh cfg flights in
      map_option (\<lambda>coloured. (apply_temporal_separation cfg coloured conflicts, conflicts))
        (assign_corridors cfg flights conflicts))"

definition holds_of :: "flight list \<Rightarrow> (string, real) dict" where
  "holds_of flights =
     fold (\<lambda>f. AList.update (fl_task_id f) (delay_s f)) (filter (\<lambda>f. delay_s f > 0) flights) []"

definition deconflict_airspace ::
  "'g shapely \<Rightarrow> runtime \<Rightarrow> airspace_config \<Rightarrow> airspace_input \<Rightarrow> assignment list
     \<Rightarrow> (airspace_report option \<times> (string, real) dict) option" where
  "deconflict_airspace sh rt cfg inp asgs =
     (let flights = build_flights sh rt inp asgs in
      if flights = [] then Some (None, [])
      else map_option (\<lambda>(final, conflicts).
             (Some (airspace_report_of cfg final conflicts), holds_of final))
             (deconflict_flights sh cfg flights))"

definition apply_airspace_holds ::
  "assignment list \<Rightarrow> (string, real) dict \<Rightarrow> assignment list" where
  "apply_airspace_holds asgs holds =
     (if holds = [] then asgs
      else map (\<lambda>a.
        let delay = dget_default holds (as_task_id a) 0 in
        if delay > 0 \<and> \<not> is_frozen a \<and> \<not> is_pinned a
        then a\<lparr>planned_start := planned_start a + delay, planned_finish := planned_finish a + delay\<rparr>
        else a) asgs)"

subsection \<open>The colouring\<close>

definition corridors_inv ::
  "airspace_config \<Rightarrow> nat \<Rightarrow> (nat \<Rightarrow> nat list) \<Rightarrow> nat set \<Rightarrow> int list \<Rightarrow> bool" where
  "corridors_inv cfg n nb S corr \<longleftrightarrow>
     length corr = n
     \<and> (\<forall>i<n. i \<notin> S \<longrightarrow> corr ! i < 0)
     \<and> (\<forall>i\<in>S. i < n \<and> 0 \<le> corr ! i \<and> corr ! i < int (corridor_count cfg))
     \<and> (\<forall>i\<in>S. \<forall>j\<in>S. j \<in> set (nb i) \<longrightarrow> corr ! i = corr ! j \<longrightarrow>
          corridor_count cfg \<le> length (nb i) \<or> corridor_count cfg \<le> length (nb j))"

lemma choose_corridor_range:
  "choose_corridor cfg used = Some c \<Longrightarrow> 0 \<le> c \<and> c < int (corridor_count cfg)"
  by (auto simp: choose_corridor_def first_free_corridor_def find_Some_iff dest!: min_by_Some
      split: option.splits)

lemma choose_corridor_total: "0 < corridor_count cfg \<Longrightarrow> choose_corridor cfg used \<noteq> None"
proof -
  assume "0 < corridor_count cfg"
  then have "map int [0..<corridor_count cfg] \<noteq> []" by simp
  then obtain c where "min_by (\<lambda>c. (used c, c)) (map int [0..<corridor_count cfg]) = Some c"
    by (metis min_by_None not_Some_eq)
  then show ?thesis by (cases "first_free_corridor cfg used") (simp_all add: choose_corridor_def)
qed

text \<open>A corridor in use by a neighbour is chosen only when the neighbours use all of them.\<close>

lemma choose_corridor_contended:
  assumes "choose_corridor cfg (used_by_neighbor corr ns) = Some c"
    and "used_by_neighbor corr ns c \<noteq> 0"
  shows "corridor_count cfg \<le> length ns"
proof -
  let ?used = "used_by_neighbor corr ns"
  have "first_free_corridor cfg ?used = None"
    using assms by (auto simp: choose_corridor_def first_free_corridor_def find_Some_iff split: option.splits)
  then have all: "\<forall>k<corridor_count cfg. ?used (int k) \<noteq> 0"
    by (auto simp: first_free_corridor_def find_None_iff)
  have "int ` {..<corridor_count cfg} \<subseteq> set (map (\<lambda>n. corr ! n) ns)"
  proof
    fix x assume "x \<in> int ` {..<corridor_count cfg}"
    then obtain k where k: "x = int k" "k < corridor_count cfg" by blast
    with all have "filter (\<lambda>n. corr ! n \<ge> 0 \<and> corr ! n = x) ns \<noteq> []"
      by (auto simp: used_by_neighbor_def)
    then show "x \<in> set (map (\<lambda>n. corr ! n) ns)" by (auto simp: filter_empty_conv)
  qed
  then have "card (int ` {..<corridor_count cfg}) \<le> card (set (map (\<lambda>n. corr ! n) ns))"
    by (rule card_mono [OF List.finite_set])
  also have "\<dots> \<le> length ns" using card_length [of "map (\<lambda>n. corr ! n) ns"] by simp
  finally show ?thesis by (simp add: card_image)
qed

lemma corridor_step_inv:
  assumes "corridors_inv cfg n nb S corr" "i < n" "i \<notin> S"
    and "\<And>j. j \<in> set (nb i) \<Longrightarrow> j < n" "\<And>j. j < n \<Longrightarrow> i \<in> set (nb j) \<longleftrightarrow> j \<in> set (nb i)"
    and "i \<notin> set (nb i)"
    and "choose_corridor cfg (used_by_neighbor corr (nb i)) = Some c"
  shows "corridors_inv cfg n nb (insert i S) (corr[i := c])"
proof -
  have len: "length corr = n" using assms(1) by (simp add: corridors_inv_def)
  have rng: "0 \<le> c" "c < int (corridor_count cfg)" using choose_corridor_range [OF assms(7)] by auto
  have contended: "corridor_count cfg \<le> length (nb i)"
    if "j \<in> S" "j \<in> set (nb i)" "corr ! j = c" for j
  proof (rule choose_corridor_contended [OF assms(7)])
    have "filter (\<lambda>n. corr ! n \<ge> 0 \<and> corr ! n = c) (nb i) \<noteq> []"
      using that rng by (auto simp: filter_empty_conv)
    then show "used_by_neighbor corr (nb i) c \<noteq> 0" by (simp add: used_by_neighbor_def)
  qed
  have pair: "corridor_count cfg \<le> length (nb a) \<or> corridor_count cfg \<le> length (nb b)"
    if ab: "a \<in> insert i S" "b \<in> insert i S"
      and that: "b \<in> set (nb a)" "corr[i := c] ! a = corr[i := c] ! b" for a b
  proof -
    have S: "x \<in> S \<Longrightarrow> x < n \<and> x \<noteq> i" for x using assms(1,3) by (auto simp: corridors_inv_def)
    consider "a = i" "b \<in> S" | "b = i" "a \<in> S" | "a \<in> S" "b \<in> S" | "a = i" "b = i"
      using ab by blast
    then show ?thesis
    proof cases
      case 1
      with that S [of b] contended [of b] assms(2) len show ?thesis by simp
    next
      case 2
      with that S [of a] assms(2,5) len contended [of a] show ?thesis by simp
    next
      case 3
      with that S [of a] S [of b] assms(1) show ?thesis by (auto simp: corridors_inv_def)
    next
      case 4
      with that(1) assms(6) show ?thesis by simp
    qed
  qed
  show ?thesis
    unfolding corridors_inv_def
  proof (intro conjI ballI allI impI)
    show "length (corr[i := c]) = n" using len by simp
    show "corr[i := c] ! k < 0" if "k < n" "k \<notin> insert i S" for k
      using that assms(1) by (auto simp: corridors_inv_def)
    show "k < n" if "k \<in> insert i S" for k using that assms(1,2) by (auto simp: corridors_inv_def)
    show "0 \<le> corr[i := c] ! k" "corr[i := c] ! k < int (corridor_count cfg)" if "k \<in> insert i S" for k
      using that assms(1-3) rng len by (auto simp: corridors_inv_def nth_list_update)
  qed (use pair in blast)
qed

lemma corridor_loop_inv:
  assumes "corridors_inv cfg n nb S corr" "distinct order" "set order \<inter> S = {}" "set order \<subseteq> {..<n}"
    and "\<And>i j. i < n \<Longrightarrow> j \<in> set (nb i) \<Longrightarrow> j < n"
    and "\<And>i j. i < n \<Longrightarrow> j < n \<Longrightarrow> i \<in> set (nb j) \<longleftrightarrow> j \<in> set (nb i)"
    and "\<And>i. i < n \<Longrightarrow> i \<notin> set (nb i)"
    and "corridor_loop cfg nb order corr = Some corr'"
  shows "corridors_inv cfg n nb (set order \<union> S) corr'"
  using assms(1-4,8)
proof (induction order arbitrary: S corr)
  case (Cons i order)
  from Cons.prems(5) obtain c where c: "choose_corridor cfg (used_by_neighbor corr (nb i)) = Some c"
    and rest: "corridor_loop cfg nb order (corr[i := c]) = Some corr'"
    by (auto split: option.splits)
  have i: "i < n" "i \<notin> S" using Cons.prems(3,4) by auto
  have "corridors_inv cfg n nb (insert i S) (corr[i := c])"
    using corridor_step_inv [OF Cons.prems(1) i assms(5) [OF i(1)] assms(6) [OF i(1)] assms(7) [OF i(1)] c]
    by blast
  then have "corridors_inv cfg n nb (set order \<union> insert i S) corr'"
    by (rule Cons.IH [OF _ _ _ _ rest]) (use Cons.prems(2-4) in auto)
  then show ?case by simp
qed simp

lemma corridor_loop_total:
  "0 < corridor_count cfg \<Longrightarrow> corridor_loop cfg nb order corr \<noteq> None"
proof (induction order arbitrary: corr)
  case (Cons i order)
  obtain c where c: "choose_corridor cfg (used_by_neighbor corr (nb i)) = Some c"
    using choose_corridor_total [OF Cons.prems] by (meson not_Some_eq)
  show ?case using Cons.IH [OF Cons.prems, of "corr[i := c]"] by (simp add: c)
qed simp

definition valid_pairs :: "nat \<Rightarrow> (nat \<times> nat) list \<Rightarrow> bool" where
  "valid_pairs n pairs \<longleftrightarrow> (\<forall>(i, j)\<in>set pairs. i < j \<and> j < n)"

lemma valid_conflict_pairs: "valid_pairs (length flights) (conflict_pairs sh cfg flights)"
  by (auto simp: valid_pairs_def conflict_pairs_def)

lemma conflict_pairs_iff:
  "(i, j) \<in> set (conflict_pairs sh cfg flights) \<longleftrightarrow>
     i < j \<and> j < length flights \<and> conflicting sh cfg (flights ! i) (flights ! j)"
  unfolding conflict_pairs_def by force

lemma assign_corridors_spec:
  assumes "valid_pairs (length flights) conflicts" "\<forall>f\<in>set flights. corridor f = -1"
    and "assign_corridors cfg flights conflicts = Some fs"
  shows "length fs = length flights
    \<and> (\<forall>i<length flights. \<exists>c. fs ! i = (flights ! i)\<lparr>corridor := c\<rparr> \<and> 0 \<le> c \<and> c < int (corridor_count cfg))
    \<and> (\<forall>(i, j)\<in>set conflicts. corridor (fs ! i) = corridor (fs ! j) \<longrightarrow>
         corridor_count cfg \<le> length (neighbors (length flights) conflicts i)
         \<or> corridor_count cfg \<le> length (neighbors (length flights) conflicts j))"
proof -
  let ?n = "length flights" let ?nb = "neighbors ?n conflicts"
  from assms(3) obtain corr where
    run: "corridor_loop cfg ?nb (colouring_order flights ?nb) (map corridor flights) = Some corr"
    and fs: "fs = map2 (\<lambda>f c. f\<lparr>corridor := c\<rparr>) flights corr"
    by (auto simp: assign_corridors_def Let_def)
  have order: "distinct (colouring_order flights ?nb)" "set (colouring_order flights ?nb) = {..<?n}"
    by (auto simp: colouring_order_def)
  have "corridors_inv cfg ?n ?nb {} (map corridor flights)"
    using assms(2) by (simp add: corridors_inv_def)
  then have inv: "corridors_inv cfg ?n ?nb ({..<?n} \<union> {}) corr"
  proof (rule corridor_loop_inv [where order = "colouring_order flights ?nb", unfolded order(2)])
    show "distinct (colouring_order flights ?nb)" by (rule order)
    show "i \<notin> set (?nb i)" for i
      using assms(1) by (auto simp: neighbors_def valid_pairs_def)
  qed (use run in \<open>auto simp: neighbors_def\<close>)
  have len: "length corr = ?n" using inv by (simp add: corridors_inv_def)
  have nth: "fs ! i = (flights ! i)\<lparr>corridor := corr ! i\<rparr>" if "i < ?n" for i
    using that len by (simp add: fs)
  have same: "corridor_count cfg \<le> length (?nb i) \<or> corridor_count cfg \<le> length (?nb j)"
    if "(i, j) \<in> set conflicts" "corridor (fs ! i) = corridor (fs ! j)" for i j
  proof -
    have ij: "i < ?n" "j < ?n" using assms(1) that(1) by (auto simp: valid_pairs_def)
    then have "j \<in> set (?nb i)" using that(1) by (simp add: neighbors_def)
    with inv ij that(2) show ?thesis by (simp add: corridors_inv_def nth)
  qed
  show ?thesis using inv nth same len by (auto simp: corridors_inv_def fs)
qed

subsection \<open>The holds\<close>

text \<open>Two flights differ in their delay at most.\<close>

definition same_plan :: "flight \<Rightarrow> flight \<Rightarrow> bool" where
  "same_plan f g \<longleftrightarrow> f\<lparr>delay_s := 0\<rparr> = g\<lparr>delay_s := 0\<rparr>"

lemma same_plan_refl [simp]: "same_plan f f"
  by (simp add: same_plan_def)

lemma same_plan_fields:
  assumes "same_plan f g"
  shows "fl_task_id f = fl_task_id g" "fl_asset_id f = fl_asset_id g" "path f = path g"
    "entry_s f = entry_s g" "exit_s f = exit_s g" "slack_s f = slack_s g" "corridor f = corridor g"
proof -
  have eq: "f\<lparr>delay_s := 0\<rparr> = g\<lparr>delay_s := 0\<rparr>" using assms by (simp add: same_plan_def)
  show "fl_task_id f = fl_task_id g" "fl_asset_id f = fl_asset_id g" "path f = path g"
    "entry_s f = entry_s g" "exit_s f = exit_s g" "slack_s f = slack_s g" "corridor f = corridor g"
    using arg_cong [OF eq, of fl_task_id] arg_cong [OF eq, of fl_asset_id] arg_cong [OF eq, of path]
      arg_cong [OF eq, of entry_s] arg_cong [OF eq, of exit_s] arg_cong [OF eq, of slack_s]
      arg_cong [OF eq, of corridor] by simp_all
qed

lemma same_plan_update [simp]: "same_plan (f\<lparr>delay_s := d\<rparr>) f"
  by (simp add: same_plan_def)

lemma same_plan_eq:
  "same_plan f g \<Longrightarrow> f\<lparr>delay_s := d\<rparr> = g\<lparr>delay_s := d\<rparr>"
  by (cases f, cases g) (simp add: same_plan_def)

text \<open>A hold only reads the plan of its flight and the placed flights.\<close>

lemma required_entry_cong:
  assumes "\<forall>j\<in>set placed. fs ! j = gs ! j" "same_plan (fs ! i) (gs ! i)"
  shows "required_entry cfg adj fs placed i = required_entry cfg adj gs placed i"
proof -
  have "entry_s (fs ! i) = entry_s (gs ! i)" by (rule same_plan_fields [OF assms(2)])
  then show ?thesis
    unfolding required_entry_def by (intro fold_cong) (use assms(1) in auto)
qed

lemma hold_flight_cong:
  assumes "\<forall>j\<in>set placed. fs ! j = gs ! j" "same_plan (fs ! i) (gs ! i)"
  shows "hold_flight cfg adj fs placed i = hold_flight cfg adj gs placed i"
  using required_entry_cong [OF assms] same_plan_fields [OF assms(2)] same_plan_eq [OF assms(2)]
  by (simp add: hold_flight_def Let_def)

lemma same_plan_hold: "same_plan (hold_flight cfg adj fs placed i) (fs ! i)"
  by (simp add: hold_flight_def Let_def)

lemma separate_members_other:
  "k \<notin> set ms \<Longrightarrow> separate_members cfg adj placed ms fs ! k = fs ! k"
  by (induction cfg adj placed ms fs rule: separate_members.induct) auto

lemma separate_members_length [simp]:
  "length (separate_members cfg adj placed ms fs) = length fs"
  by (induction cfg adj placed ms fs rule: separate_members.induct) auto

lemma separate_members_same_plan:
  "set ms \<subseteq> {..<length fs} \<Longrightarrow> k < length fs \<Longrightarrow>
   same_plan (separate_members cfg adj placed ms fs ! k) (fs ! k)"
proof (induction cfg adj placed ms fs rule: separate_members.induct)
  case (2 cfg adj placed i ms fs)
  have "same_plan (separate_members cfg adj (placed @ [i]) ms (fs[i := hold_flight cfg adj fs placed i]) ! k)
      (fs[i := hold_flight cfg adj fs placed i] ! k)"
    using 2 by simp
  moreover have "same_plan (fs[i := hold_flight cfg adj fs placed i] ! k) (fs ! k)"
    using same_plan_hold 2(2,3) by (cases "k = i") auto
  ultimately show ?case by (simp add: same_plan_def)
qed simp

text \<open>In the result every member has the hold its own predecessors in the result require.\<close>

lemma separate_members_fixpoint:
  assumes "distinct (placed @ ms)" "set ms \<subseteq> {..<length fs}" "ms = before @ i # after"
  shows "separate_members cfg adj placed ms fs ! i =
    hold_flight cfg adj (separate_members cfg adj placed ms fs) (placed @ before) i"
  using assms
proof (induction ms arbitrary: placed fs before)
  case (Cons m ms)
  let ?fs = "fs[m := hold_flight cfg adj fs placed m]"
  let ?r = "separate_members cfg adj (placed @ [m]) ms ?fs"
  show ?case
  proof (cases before)
    case Nil
    then have m: "m = i" "i \<notin> set ms" "i \<notin> set placed" using Cons.prems by auto
    then have "?r ! i = hold_flight cfg adj fs placed i"
      using Cons.prems(2) by (simp add: separate_members_other)
    also have "\<dots> = hold_flight cfg adj ?r placed i"
    proof (rule hold_flight_cong)
      show "\<forall>j\<in>set placed. fs ! j = ?r ! j"
      proof
        fix j assume j: "j \<in> set placed"
        then have "j \<notin> set ms" "j \<noteq> m" using Cons.prems(1) by auto
        then show "fs ! j = ?r ! j" by (simp add: separate_members_other)
      qed
      show "same_plan (fs ! i) (?r ! i)"
        using \<open>?r ! i = hold_flight cfg adj fs placed i\<close> same_plan_hold [of cfg adj fs placed i]
        by (simp add: same_plan_def)
    qed
    finally show ?thesis using Nil m by simp
  next
    case (Cons b before')
    then have "b = m" "ms = before' @ i # after" using Cons.prems(3) by auto
    with Cons.IH [of "placed @ [m]" ?fs before'] Cons.prems(1,2) Cons show ?thesis by simp
  qed
qed simp

text \<open>The fold over the corridors.\<close>

definition separation ::
  "airspace_config \<Rightarrow> (nat \<times> nat) list \<Rightarrow> flight list \<Rightarrow> int list \<Rightarrow> flight list \<Rightarrow> flight list" where
  "separation cfg adj base cs fs =
     fold (\<lambda>c fs. separate_members cfg adj [] (members_in_order base c) fs) cs fs"

lemma members_in_order:
  "distinct (members_in_order base c)"
  "set (members_in_order base c) = {k. k < length base \<and> corridor (base ! k) = c}"
  by (auto simp: members_in_order_def)

lemma separation_length [simp]: "length (separation cfg adj base cs fs) = length fs"
  by (induction cs arbitrary: fs) (simp_all add: separation_def)

lemma separation_other:
  "corridor (base ! k) \<notin> set cs \<Longrightarrow> separation cfg adj base cs fs ! k = fs ! k"
  by (induction cs arbitrary: fs)
     (simp_all add: separation_def separate_members_other members_in_order)

lemma separation_same_plan:
  "length fs = length base \<Longrightarrow> k < length base \<Longrightarrow> same_plan (separation cfg adj base cs fs ! k) (fs ! k)"
proof (induction cs arbitrary: fs)
  case (Cons c cs)
  let ?fs = "separate_members cfg adj [] (members_in_order base c) fs"
  have "same_plan (?fs ! k) (fs ! k)"
    by (rule separate_members_same_plan) (use Cons.prems in \<open>auto simp: members_in_order\<close>)
  moreover have "same_plan (separation cfg adj base cs ?fs ! k) (?fs ! k)"
    using Cons by simp
  ultimately show ?case by (simp add: separation_def same_plan_def)
qed (simp add: separation_def)

lemma separation_fixpoint:
  assumes "distinct cs" "length fs = length base" "k < length base" "corridor (base ! k) \<in> set cs"
    and "members_in_order base (corridor (base ! k)) = before @ k # after"
  shows "separation cfg adj base cs fs ! k = hold_flight cfg adj (separation cfg adj base cs fs) before k"
  using assms
proof (induction cs arbitrary: fs)
  case (Cons c cs)
  let ?fs = "separate_members cfg adj [] (members_in_order base c) fs"
  have eq: "separation cfg adj base (c # cs) fs = separation cfg adj base cs ?fs" by (simp add: separation_def)
  show ?case
  proof (cases "corridor (base ! k) = c")
    case True
    then have other: "corridor (base ! j) = c \<Longrightarrow> separation cfg adj base cs ?fs ! j = ?fs ! j" for j
      using Cons.prems(1) by (simp add: separation_other)
    have "?fs ! k = hold_flight cfg adj ?fs ([] @ before) k"
    proof (rule separate_members_fixpoint [of "[]" "members_in_order base c"])
      show "distinct ([] @ members_in_order base c)" by (simp add: members_in_order)
      show "set (members_in_order base c) \<subseteq> {..<length fs}"
        using Cons.prems(2) by (auto simp: members_in_order)
      show "members_in_order base c = before @ k # after" using Cons.prems(5) True by simp
    qed
    moreover have "hold_flight cfg adj ?fs before k = hold_flight cfg adj (separation cfg adj base cs ?fs) before k"
    proof (rule hold_flight_cong)
      have "set before \<subseteq> set (members_in_order base c)" using Cons.prems(5) True by auto
      then show "\<forall>j\<in>set before. ?fs ! j = separation cfg adj base cs ?fs ! j"
        using other by (auto simp: members_in_order)
      show "same_plan (?fs ! k) (separation cfg adj base cs ?fs ! k)" using other True by simp
    qed
    ultimately show ?thesis using other [of k] True by (simp add: eq)
  next
    case False
    with Cons show ?thesis by (simp add: eq)
  qed
qed simp

lemma corridors_in_order: "distinct (corridors_in_order fs)" "set (corridors_in_order fs) = corridor ` set fs"
  by (auto simp: corridors_in_order_def)

lemma required_entry_ge:
  "entry_s (fs ! i) \<le> required_entry cfg adj fs placed i"
  "j \<in> set placed \<Longrightarrow> adjacent adj i j \<Longrightarrow> eff_exit (fs ! j) + time_buffer_s cfg \<le> required_entry cfg adj fs placed i"
proof -
  let ?step = "\<lambda>j r. if adjacent adj i j then max r (eff_exit (fs ! j) + time_buffer_s cfg) else r"
  have ge: "r \<le> fold ?step xs r" for xs r
  proof (induction xs arbitrary: r)
    case (Cons x xs)
    have "r \<le> ?step x r" by simp
    also have "\<dots> \<le> fold ?step xs (?step x r)" by (rule Cons.IH)
    finally show ?case by simp
  qed simp
  have mem: "eff_exit (fs ! j) + time_buffer_s cfg \<le> fold ?step xs r"
    if "j \<in> set xs" "adjacent adj i j" for xs r
    using that
  proof (induction xs arbitrary: r)
    case (Cons x xs)
    then show ?case using ge [of "?step x r" xs] by (cases "x = j") auto
  qed simp
  show "entry_s (fs ! i) \<le> required_entry cfg adj fs placed i"
    unfolding required_entry_def by (rule ge)
  show "j \<in> set placed \<Longrightarrow> adjacent adj i j \<Longrightarrow>
      eff_exit (fs ! j) + time_buffer_s cfg \<le> required_entry cfg adj fs placed i"
    unfolding required_entry_def by (rule mem)
qed

text \<open>Flights with a non-negative slack and no hold yet.\<close>

definition unheld :: "flight \<Rightarrow> bool" where
  "unheld f \<longleftrightarrow> delay_s f = 0 \<and> (case slack_s f of None \<Rightarrow> True | Some s \<Rightarrow> 0 \<le> s)"

definition within_slack :: "flight \<Rightarrow> bool" where
  "within_slack f \<longleftrightarrow> 0 \<le> delay_s f \<and> (case slack_s f of None \<Rightarrow> True | Some s \<Rightarrow> delay_s f \<le> s)"

lemma hold_flight_within:
  "case slack_s (fs ! i) of None \<Rightarrow> True | Some s \<Rightarrow> 0 \<le> s \<Longrightarrow> within_slack (hold_flight cfg adj fs placed i)"
  by (auto simp: within_slack_def hold_flight_def Let_def split: option.splits)

text \<open>A held flight clears every placed neighbour unless its hold used up the slack.\<close>

lemma hold_flight_clears:
  assumes "j \<in> set placed" "adjacent adj i j"
    and "f = hold_flight cfg adj fs placed i" "slack_s f \<noteq> Some (delay_s f)"
  shows "eff_exit (fs ! j) + time_buffer_s cfg \<le> eff_entry f"
proof -
  let ?r = "required_entry cfg adj fs placed i"
  have "delay_s f = max 0 (?r - entry_s (fs ! i))"
    using assms(3,4) by (auto simp: hold_flight_def Let_def min_def split: option.splits if_splits)
  moreover have "entry_s f = entry_s (fs ! i)" using assms(3) by (simp add: hold_flight_def Let_def)
  ultimately have "?r \<le> eff_entry f" by (simp add: eff_entry_def)
  with required_entry_ge(2) [OF assms(1,2)] show ?thesis by (meson order_trans)
qed

lemma temporal_separation_spec:
  assumes "valid_pairs (length flights) conflicts" "\<forall>f\<in>set flights. unheld f"
    and "final = apply_temporal_separation cfg flights conflicts"
  shows "length final = length flights
    \<and> (\<forall>k<length flights. same_plan (final ! k) (flights ! k) \<and> within_slack (final ! k))
    \<and> (\<forall>(i, j)\<in>set conflicts. pair_outcome cfg final (i, j) = Residual \<longrightarrow>
         slack_s (final ! i) = Some (delay_s (final ! i)) \<or> slack_s (final ! j) = Some (delay_s (final ! j)))"
proof (cases "same_corridor flights conflicts = []")
  case True
  then have f: "final = flights" using assms(3) by (simp add: apply_temporal_separation_def)
  have "pair_outcome cfg flights p = CorridorSeparated" if "p \<in> set conflicts" for p
    using True that by (auto simp: same_corridor_def pair_outcome_def Let_def filter_empty_conv split: prod.splits)
  then show ?thesis using assms(2) by (fastforce simp: f unheld_def within_slack_def split: option.splits)
next
  case False
  let ?adj = "same_corridor flights conflicts" let ?cs = "corridors_in_order flights"
  have f: "final = separation cfg ?adj flights ?cs flights"
    using False assms(3) by (simp add: apply_temporal_separation_def separation_def)
  have plan: "same_plan (final ! k) (flights ! k)" if "k < length flights" for k
    using that by (simp add: f separation_same_plan)
  have fix_: "final ! k = hold_flight cfg ?adj final before k"
    if "k < length flights" "members_in_order flights (corridor (flights ! k)) = before @ k # after" for k before after
    using that separation_fixpoint [OF corridors_in_order(1), of flights flights k]
    by (simp add: f corridors_in_order)
  have mem: "\<exists>before after. members_in_order flights (corridor (flights ! k)) = before @ k # after"
    if "k < length flights" for k
    using that by (metis (mono_tags, lifting) CollectI members_in_order(2) split_list)
  have within: "within_slack (final ! k)" if k: "k < length flights" for k
  proof -
    from mem [OF k] obtain before after where "members_in_order flights (corridor (flights ! k)) = before @ k # after" by blast
    from fix_ [OF k this] have "final ! k = hold_flight cfg ?adj final before k" .
    moreover have "case slack_s (final ! k) of None \<Rightarrow> True | Some s \<Rightarrow> 0 \<le> s"
      using assms(2) k same_plan_fields(6) [OF plan [OF k]] by (simp add: unheld_def)
    ultimately show ?thesis using hold_flight_within by metis
  qed
  have clear: "eff_exit (final ! j) + time_buffer_s cfg \<le> eff_entry (final ! i)"
    if "i < length flights" "members_in_order flights (corridor (flights ! i)) = before @ i # after"
      "j \<in> set before" "adjacent ?adj i j" "slack_s (final ! i) \<noteq> Some (delay_s (final ! i))" for i j before after
    using hold_flight_clears [OF that(3,4) fix_ [OF that(1,2)] that(5)] .
  have res: "slack_s (final ! i) = Some (delay_s (final ! i)) \<or> slack_s (final ! j) = Some (delay_s (final ! j))"
    if ij: "(i, j) \<in> set conflicts" and r: "pair_outcome cfg final (i, j) = Residual" for i j
  proof (rule ccontr)
    assume no: "\<not> ?thesis"
    have lt: "i < length flights" "j < length flights" "i \<noteq> j" using assms(1) ij by (auto simp: valid_pairs_def)
    have cor: "corridor (flights ! i) = corridor (flights ! j)"
      and ov: "overlap cfg (eff_entry (final ! i)) (eff_exit (final ! i)) (eff_entry (final ! j)) (eff_exit (final ! j))"
      using r same_plan_fields(7) [OF plan [OF lt(1)]] same_plan_fields(7) [OF plan [OF lt(2)]]
      by (auto simp: pair_outcome_def Let_def split: if_splits)
    have adj: "adjacent ?adj i j" "adjacent ?adj j i"
      using ij cor by (auto simp: adjacent_def same_corridor_def)
    from mem [OF lt(1)] obtain before after where
      s: "members_in_order flights (corridor (flights ! i)) = before @ i # after" by blast
    have "j \<in> set (members_in_order flights (corridor (flights ! i)))"
      using lt cor by (simp add: members_in_order)
    with s lt(3) consider "j \<in> set before" | "j \<in> set after" by auto
    then show False
    proof cases
      case 1
      from clear [OF lt(1) s this adj(1)] no ov show False by (simp add: overlap_def)
    next
      case 2
      then obtain a1 a2 where "after = a1 @ j # a2" by (meson split_list)
      with s cor have "members_in_order flights (corridor (flights ! j)) = (before @ i # a1) @ j # a2" by simp
      from clear [OF lt(2) this _ adj(2)] no ov show False by (simp add: overlap_def)
    qed
  qed
  show ?thesis using plan within res by (auto simp: f)
qed

subsection \<open>The whole pass\<close>

definition fresh_flight :: "flight \<Rightarrow> bool" where
  "fresh_flight f \<longleftrightarrow> corridor f = -1 \<and> unheld f"

lemma flight_of_fields:
  assumes "flight_of sh rt inp a = Some f"
  obtains tk where "last_by tk_id id (in_tasks inp) (as_task_id a) = Some tk"
    "fl_task_id f = as_task_id a" "exit_s f = planned_finish a"
    "slack_s f = deadline_slack_s tk (planned_finish a) (is_frozen a \<or> is_pinned a)" "fresh_flight f"
  using assms
  by (auto simp: flight_of_def Let_def fresh_flight_def unheld_def deadline_slack_s_def
      split: option.splits if_splits)

lemma fresh_build_flights: "\<forall>f\<in>set (build_flights sh rt inp asgs). fresh_flight f"
  by (auto simp: build_flights_def List.map_filter_def elim: flight_of_fields)

lemma deconflict_flights_spec:
  assumes "\<forall>f\<in>set flights. fresh_flight f" "deconflict_flights sh cfg flights = Some (final, conflicts)"
  shows "conflicts = conflict_pairs sh cfg flights \<and> length final = length flights
    \<and> (\<forall>k<length flights. within_slack (final ! k) \<and> 0 \<le> corridor (final ! k)
         \<and> corridor (final ! k) < int (corridor_count cfg)
         \<and> (final ! k)\<lparr>corridor := -1, delay_s := 0\<rparr> = flights ! k)
    \<and> (\<forall>(i, j)\<in>set conflicts. corridor (final ! i) = corridor (final ! j) \<longrightarrow>
         corridor_count cfg \<le> length (neighbors (length flights) conflicts i)
         \<or> corridor_count cfg \<le> length (neighbors (length flights) conflicts j))
    \<and> (\<forall>(i, j)\<in>set conflicts. pair_outcome cfg final (i, j) = Residual \<longrightarrow>
         slack_s (final ! i) = Some (delay_s (final ! i)) \<or> slack_s (final ! j) = Some (delay_s (final ! j)))"
proof -
  from assms(2) obtain mid where
    mid: "assign_corridors cfg flights conflicts = Some mid" "conflicts = conflict_pairs sh cfg flights"
      "final = apply_temporal_separation cfg mid conflicts"
    by (auto simp: deconflict_flights_def Let_def)
  have vp: "valid_pairs (length flights) conflicts" using mid(2) valid_conflict_pairs by simp
  have cs: "length mid = length flights"
    "\<And>i. i < length flights \<Longrightarrow> \<exists>c. mid ! i = (flights ! i)\<lparr>corridor := c\<rparr> \<and> 0 \<le> c \<and> c < int (corridor_count cfg)"
    "\<And>i j. (i, j) \<in> set conflicts \<Longrightarrow> corridor (mid ! i) = corridor (mid ! j) \<Longrightarrow>
         corridor_count cfg \<le> length (neighbors (length flights) conflicts i)
         \<or> corridor_count cfg \<le> length (neighbors (length flights) conflicts j)"
    using assign_corridors_spec [OF vp _ mid(1)] assms(1) by (auto simp: fresh_flight_def)
  have "\<forall>f\<in>set mid. unheld f"
  proof
    fix f assume "f \<in> set mid"
    then obtain i where i: "i < length flights" "f = mid ! i" by (metis cs(1) in_set_conv_nth)
    with cs(2) [OF i(1)] assms(1) show "unheld f" by (auto simp: fresh_flight_def unheld_def)
  qed
  note ts = temporal_separation_spec [OF vp [folded cs(1)] this mid(3)]
  have plan: "same_plan (final ! k) (mid ! k)" "within_slack (final ! k)" if "k < length flights" for k
    using ts that cs(1) by auto
  have base: "(final ! k)\<lparr>corridor := -1, delay_s := 0\<rparr> = flights ! k
      \<and> 0 \<le> corridor (final ! k) \<and> corridor (final ! k) < int (corridor_count cfg)"
    if k: "k < length flights" for k
  proof -
    obtain c where c: "mid ! k = (flights ! k)\<lparr>corridor := c\<rparr>" "0 \<le> c" "c < int (corridor_count cfg)"
      using cs(2) [OF k] by blast
    have fr: "fresh_flight (flights ! k)" using assms(1) k by simp
    have "(final ! k)\<lparr>delay_s := 0\<rparr> = (mid ! k)\<lparr>delay_s := 0\<rparr>" using plan(1) [OF k] by (simp add: same_plan_def)
    then have "(final ! k)\<lparr>corridor := -1, delay_s := 0\<rparr> = (mid ! k)\<lparr>corridor := -1, delay_s := 0\<rparr>"
      by (cases "final ! k", cases "mid ! k") simp
    also have "\<dots> = flights ! k" using fr c(1) by (cases "flights ! k") (simp add: fresh_flight_def unheld_def)
    finally show ?thesis using same_plan_fields(7) [OF plan(1) [OF k]] c by simp
  qed
  have same: "corridor_count cfg \<le> length (neighbors (length flights) conflicts i)
         \<or> corridor_count cfg \<le> length (neighbors (length flights) conflicts j)"
    if "(i, j) \<in> set conflicts" "corridor (final ! i) = corridor (final ! j)" for i j
  proof -
    have "i < length flights" "j < length flights" using vp that(1) by (auto simp: valid_pairs_def)
    with that cs(3) same_plan_fields(7) [OF plan(1)] show ?thesis by metis
  qed
  have pairs: "\<forall>(i, j)\<in>set conflicts. corridor (final ! i) = corridor (final ! j) \<longrightarrow>
         corridor_count cfg \<le> length (neighbors (length flights) conflicts i)
         \<or> corridor_count cfg \<le> length (neighbors (length flights) conflicts j)"
    using same by blast
  have each: "\<forall>k<length flights. within_slack (final ! k) \<and> 0 \<le> corridor (final ! k)
         \<and> corridor (final ! k) < int (corridor_count cfg)
         \<and> (final ! k)\<lparr>corridor := -1, delay_s := 0\<rparr> = flights ! k"
    using plan(2) base by blast
  from ts cs(1) have "length final = length flights" by simp
  with mid(2) each pairs ts show ?thesis by blast
qed

lemma deconflict_flights_total:
  "0 < corridor_count cfg \<Longrightarrow> deconflict_flights sh cfg flights \<noteq> None"
  using corridor_loop_total by (simp add: deconflict_flights_def assign_corridors_def Let_def)

lemma holds_of_fold:
  "map_of (fold (\<lambda>f. AList.update (fl_task_id f) (delay_s f)) fs d) t = Some x \<Longrightarrow>
   map_of d t = Some x \<or> (\<exists>f\<in>set fs. fl_task_id f = t \<and> delay_s f = x)"
  by (induction fs arbitrary: d) (fastforce simp: map_of_update split: if_splits)+

lemma holds_of_Some:
  "map_of (holds_of fs) t = Some x \<Longrightarrow> 0 < x \<and> (\<exists>f\<in>set fs. fl_task_id f = t \<and> delay_s f = x)"
  using holds_of_fold [of "filter (\<lambda>f. delay_s f > 0) fs" "[]" t x] by (auto simp: holds_of_def)

text \<open>A hold belongs to the flight of an assignment of the task and respects its slack.\<close>

lemma deconflict_airspace_hold:
  assumes "deconflict_airspace sh rt cfg inp asgs = Some (report, holds)"
    and "map_of holds t = Some d"
  obtains a f where "a \<in> set asgs" "as_task_id a = t" "flight_of sh rt inp a = Some f"
    "0 < d" "case slack_s f of None \<Rightarrow> True | Some s \<Rightarrow> d \<le> s"
proof -
  let ?flights = "build_flights sh rt inp asgs"
  from assms obtain final conflicts where run: "deconflict_flights sh cfg ?flights = Some (final, conflicts)"
    and h: "holds = holds_of final"
    by (auto simp: deconflict_airspace_def Let_def split: if_splits)
  from holds_of_Some [of final t d] assms(2) h obtain g where
    g: "g \<in> set final" "fl_task_id g = t" "delay_s g = d" "0 < d" by auto
  note spec = deconflict_flights_spec [OF fresh_build_flights run]
  from g(1) spec obtain k where k: "k < length ?flights" "g = final ! k" by (auto simp: in_set_conv_nth)
  let ?f = "?flights ! k"
  have eq: "g\<lparr>corridor := -1, delay_s := 0\<rparr> = ?f" and w: "within_slack g" using spec k by auto
  have f: "fl_task_id ?f = t" "slack_s ?f = slack_s g" using g(2) by (simp_all add: eq [symmetric])
  have "?f \<in> set ?flights" using k(1) by simp
  then obtain a where a: "a \<in> set asgs" "flight_of sh rt inp a = Some ?f"
    by (auto simp: build_flights_def List.map_filter_def)
  have "as_task_id a = t" using a(2) f(1) by (auto elim: flight_of_fields)
  with that a f(2) g(3,4) w show ?thesis by (auto simp: within_slack_def split: option.splits)
qed

subsection \<open>Properties\<close>



text \<open>applying the holds keeps the plan's promises: every assignment keeps its task and its
  duration, is never moved earlier, is not moved at all when frozen or pinned, and still finishes by
  its task's deadline unless it already finished later.\<close>

theorem airspace_holds_meet_deadline:
  assumes "deconflict_airspace sh rt cfg inp asgs = Some (report, holds)"
    and "distinct (map as_task_id asgs)" "k < length asgs"
    and "a = asgs ! k" "a' = apply_airspace_holds asgs holds ! k"
  shows "as_task_id a' = as_task_id a
    \<and> planned_finish a' - planned_start a' = planned_finish a - planned_start a
    \<and> planned_start a \<le> planned_start a'
    \<and> (is_frozen a \<or> is_pinned a \<longrightarrow> a' = a)
    \<and> (\<forall>tk d. last_by tk_id id (in_tasks inp) (as_task_id a) = Some tk \<longrightarrow> tk_deadline tk = Some d \<longrightarrow>
         planned_finish a' \<le> max (planned_finish a) d)"
proof -
  let ?d = "dget_default holds (as_task_id a) 0"
  have a': "a' = (if holds \<noteq> [] \<and> ?d > 0 \<and> \<not> is_frozen a \<and> \<not> is_pinned a
      then a\<lparr>planned_start := planned_start a + ?d, planned_finish := planned_finish a + ?d\<rparr> else a)"
    using assms(3-5) by (simp add: apply_airspace_holds_def Let_def)
  have slack: "?d \<le> max 0 (d - planned_finish a)"
    if "?d > 0" "\<not> is_frozen a" "\<not> is_pinned a" "last_by tk_id id (in_tasks inp) (as_task_id a) = Some tk"
      "tk_deadline tk = Some d" for tk d
  proof -
    from that(1) have "map_of holds (as_task_id a) = Some ?d"
      by (auto simp: dget_default_def split: option.splits)
    from deconflict_airspace_hold [OF assms(1) this] obtain b f where
      b: "b \<in> set asgs" "as_task_id b = as_task_id a" "flight_of sh rt inp b = Some f"
      "case slack_s f of None \<Rightarrow> True | Some s \<Rightarrow> ?d \<le> s" by metis
    have "b = a" using b(1,2) assms(2,3,4) by (metis (no_types, lifting) distinct_map inj_on_def nth_mem)
    with b(3) that have "slack_s f = Some (max 0 (d - planned_finish a))"
      by (auto simp: deadline_slack_s_def elim!: flight_of_fields)
    with b(4) show ?thesis by simp
  qed
  show ?thesis
  proof (cases "holds \<noteq> [] \<and> ?d > 0 \<and> \<not> is_frozen a \<and> \<not> is_pinned a")
    case True
    then have "a' = a\<lparr>planned_start := planned_start a + ?d, planned_finish := planned_finish a + ?d\<rparr>"
      using a' by simp
    moreover have "planned_finish a + ?d \<le> max (planned_finish a) d"
      if "last_by tk_id id (in_tasks inp) (as_task_id a) = Some tk" "tk_deadline tk = Some d" for tk d
      using slack [OF _ _ _ that] True by (auto simp: max_def split: if_splits)
    ultimately show ?thesis using True by simp
  next
    case False
    with a' have "a' = a" by (simp only: if_False)
    then show ?thesis by simp
  qed
qed

subsection \<open>Closed instances\<close>

definition sample_airspace :: airspace_config where
  "sample_airspace =
     \<lparr>corridor_count = 1, base_altitude_m = 60, vertical_separation_m = 30,
      horizontal_separation_m = 150, time_buffer_s = 60, metres_per_degree = 111320\<rparr>"

definition sample_flight :: flight where
  "sample_flight =
     \<lparr>fl_task_id = ''A'', fl_asset_id = ''d1'', path = [(0, 0)], entry_s = 0, exit_s = 100,
      slack_s = None, corridor = -1, delay_s = 0\<rparr>"

text \<open>Three flights over one point: the second overlaps the first, the third follows the second.\<close>

definition sample_flights :: "flight list" where
  "sample_flights =
     [sample_flight, sample_flight\<lparr>fl_task_id := ''B'', entry_s := 50, exit_s := 150, slack_s := Some 110\<rparr>,
      sample_flight\<lparr>fl_task_id := ''C'', entry_s := 220, exit_s := 300\<rparr>]"

definition sample_tight :: "flight list" where
  "sample_tight = [sample_flight, sample_flight\<lparr>fl_task_id := ''B'', entry_s := 50, exit_s := 150,
     slack_s := Some 10\<rparr>]"



definition sample_uav :: "string \<Rightarrow> real option \<Rightarrow> task" where
  "sample_uav t d =
     \<lparr>tk_id = t, tk_order_id = '''', tk_alternative_group_ref = '''', tk_operation_type = ''UAV_DELIVERY'',
      tk_location_ref = ''site'', tk_area_ha = None, tk_work_area_geometry = [],
      tk_covered_geometry = [], tk_work_quantity = None, tk_work_quantity_unit = '''',
      tk_service_duration_minutes = None, tk_load_demand_kg = None, tk_load_material = '''',
      tk_pickup_location_ref = None, tk_time_windows = [], tk_depends_on_task_ref = None,
      tk_deadline = d, tk_priority_class = 5, tk_mandatory = False, tk_requirements = [],
      tk_material_requirements = [], tk_revenue_value_eur = 0, tk_penalty_per_day_eur = 0,
      tk_status = ''pending'', tk_source_ref = ''''\<rparr>"

definition sample_place :: location where
  "sample_place =
     \<lparr>location_id = ''site'', location_type = ''field'', loc_lat = 0, loc_lon = 0, loc_name = '''',
      area_ha = None, loc_soil_type = '''', loc_polygon = [], loc_restricted_operations = [],
      loc_restriction_windows = [], charging_power_kw = None, charging_slots = None,
      loc_source_ref = '''', loc_extra = []\<rparr>"

definition sample_airspace_input :: airspace_input where
  "sample_airspace_input =
     \<lparr>in_locations = [sample_place], in_assets = [],
      in_tasks = [sample_uav ''A'' None, sample_uav ''B'' (Some 300)]\<rparr>"

definition sample_air_plan :: "assignment list" where
  "sample_air_plan =
     [sample_assignment, sample_assignment\<lparr>as_task_id := ''B'', planned_start := 50, planned_finish := 150\<rparr>]"

lemma airspace_holds_meet_deadline_witness:
  "planned_finish (apply_airspace_holds sample_air_plan [(''B'', 110)] ! 1) \<le> max 150 300"
proof -
  have "map_option snd (deconflict_airspace sample_shapely sample_runtime sample_airspace
      sample_airspace_input sample_air_plan) = Some [(''B'', 110)]" by code_simp
  then obtain report where run: "deconflict_airspace sample_shapely sample_runtime sample_airspace
      sample_airspace_input sample_air_plan = Some (report, [(''B'', 110)])" by auto
  have d: "distinct (map as_task_id sample_air_plan)" and l: "1 < length sample_air_plan" by code_simp+
  have "last_by tk_id id (in_tasks sample_airspace_input) (as_task_id (sample_air_plan ! 1))
      = Some (sample_uav ''B'' (Some 300))" by code_simp
  moreover have "tk_deadline (sample_uav ''B'' (Some 300)) = Some 300" by code_simp
  moreover have "planned_finish (sample_air_plan ! 1) = 150" by code_simp
  ultimately show ?thesis
    using airspace_holds_meet_deadline [OF run d l refl refl] by metis
qed

text \<open>
  The report looks only at the conflicts of the planned windows. Holding the second flight clear of
  the first moves it into the third, in the only corridor and over the same point: the pass calls
  the airspace fully deconflicted although two flights overlap.
\<close>

theorem airspace_hold_conflict_unreported:
  "\<exists>final conflicts. deconflict_flights sample_shapely sample_airspace sample_flights = Some (final, conflicts)
     \<and> fully_deconflicted (airspace_report_of sample_airspace final conflicts)
     \<and> corridor (final ! 1) = corridor (final ! 2)
     \<and> lateral_min_distance sample_shapely sample_airspace (final ! 1) (final ! 2) = Some 0
     \<and> overlap sample_airspace (eff_entry (final ! 1)) (eff_exit (final ! 1))
         (eff_entry (final ! 2)) (eff_exit (final ! 2))"
proof -
  obtain final conflicts where
    run: "deconflict_flights sample_shapely sample_airspace sample_flights = Some (final, conflicts)"
    using deconflict_flights_total [of sample_airspace sample_shapely sample_flights]
    by (auto simp: sample_airspace_def)
  have "map_option (\<lambda>r. (fully_deconflicted (airspace_report_of sample_airspace (fst r) (snd r)),
        corridor (fst r ! 1) = corridor (fst r ! 2),
        lateral_min_distance sample_shapely sample_airspace (fst r ! 1) (fst r ! 2),
        overlap sample_airspace (eff_entry (fst r ! 1)) (eff_exit (fst r ! 1))
          (eff_entry (fst r ! 2)) (eff_exit (fst r ! 2))))
      (deconflict_flights sample_shapely sample_airspace sample_flights) = Some (True, True, Some 0, True)"
    by code_simp
  with run show ?thesis by simp
qed

end
