(* ===== verification/Events.thy ===== *)
theory Events
  imports Geometry
begin

text \<open>
  Execution events and their application to the source rows (\<open>stream/source.py\<close>,
  \<open>mapping/bindings.py\<close>, \<open>stream/coverage.py\<close>, \<open>stream/apply.py\<close>). A physical row is an
  insertion-ordered dictionary of dynamic values; the sources map a contract id to its rows. Handlers
  pass the applicator's state explicitly; the \<open>ValueError\<close> or \<open>TypeError\<close> a malformed geometry raises
  inside a handler is the outcome \<open>None\<close>. A payload is a mapping, as its annotation says. What the
  handlers read of the registry (binding tables in registry order) and of the environment is the
  record \<open>applicator\<close>.
\<close>

subsection \<open>Events\<close>

datatype event_type =
    TaskStarted | TaskProgress | TaskCompleted | OrderCreated | OrderCancelled | AssetUnavailable
  | ForecastUpdated | ObservationRecorded | EntityCorrected | InventoryAdjusted
  | OtherEvent string

type_synonym row = "(string, py_val) dict"

record event =
  event_id :: string
  event_type :: event_type
  observed_text :: string
  ev_entity_ref :: string
  payload :: row
  ingested_text :: string

definition supported_events :: "(string \<times> event_type) list" where
  "supported_events =
     [(''task.started'', TaskStarted), (''task.progress'', TaskProgress),
      (''task.completed'', TaskCompleted), (''order.created'', OrderCreated),
      (''order.cancelled'', OrderCancelled), (''asset.unavailable'', AssetUnavailable),
      (''forecast.updated'', ForecastUpdated), (''observation.recorded'', ObservationRecorded),
      (''entity.corrected'', EntityCorrected), (''inventory.adjusted'', InventoryAdjusted)]"

text \<open>A raw record: absent text keys are \<open>''''\<close>; \<open>json\<close> is \<open>json.loads\<close>, \<open>None\<close> its error.\<close>

record raw_event =
  raw_payload :: "py_val option"
  raw_payload_json :: "py_val option"
  raw_event_type :: string
  raw_event_id :: string
  raw_observed_at :: string
  raw_entity_ref :: string
  raw_ingested_at :: string

definition raw_payload_value :: "(string \<Rightarrow> py_val option) \<Rightarrow> raw_event \<Rightarrow> py_val option" where
  "raw_payload_value json r =
     (case raw_payload r of
        Some v \<Rightarrow> if v \<noteq> VNone then Some v
                  else (case raw_payload_json r of
                          None \<Rightarrow> json ''{}''
                        | Some (VStr s) \<Rightarrow> json s
                        | Some w \<Rightarrow> Some (if truthy w then w else VDict []))
      | None \<Rightarrow> (case raw_payload_json r of
                    None \<Rightarrow> json ''{}''
                  | Some (VStr s) \<Rightarrow> json s
                  | Some w \<Rightarrow> Some (if truthy w then w else VDict [])))"

definition parse_event :: "(string \<Rightarrow> py_val option) \<Rightarrow> raw_event \<Rightarrow> event option" where
  "parse_event json r =
     (case raw_payload_value json r of
        Some (VDict d) \<Rightarrow>
          (case map_of supported_events (raw_event_type r) of
             None \<Rightarrow> None
           | Some t \<Rightarrow>
               Some \<lparr>event_id = raw_event_id r, event_type = t, observed_text = raw_observed_at r,
                     ev_entity_ref = raw_entity_ref r, payload = d,
                     ingested_text = raw_ingested_at r\<rparr>)
      | _ \<Rightarrow> None)"

text \<open>\<open>render\<close> renders a broker arrival time in milliseconds.\<close>

definition stamp_broker_ingested :: "(real \<Rightarrow> string) \<Rightarrow> event \<Rightarrow> real option \<Rightarrow> event" where
  "stamp_broker_ingested render e arrival_epoch_ms =
     (case arrival_epoch_ms of
        None \<Rightarrow> e
      | Some ms \<Rightarrow> if ingested_text e \<noteq> [] \<or> ms \<le> 0 then e else e\<lparr>ingested_text := render (ms / 1000)\<rparr>)"

text \<open>\<open>s.replace("Z", "+00:00")\<close> and the observed time of an event.\<close>

definition replace_z :: "string \<Rightarrow> string" where
  "replace_z s = concat (map (\<lambda>c. if c = CHR ''Z'' then ''+00:00'' else [c]) s)"

definition parse_observed :: "runtime \<Rightarrow> event \<Rightarrow> real option" where
  "parse_observed rt e =
     (if observed_text e = [] then None else fromisoformat rt (replace_z (observed_text e)))"

subsection \<open>Binding tables\<close>

record field_binding =
  source_field :: string
  binding_path :: string
  planning_use :: "string list"

record binding_table =
  bt_contract_id :: string
  canonical_entity :: string
  asset_role :: "string option"
  bindings :: "field_binding list"
  metric_codes :: "(string, string) dict"

definition by_binding_path :: "binding_table \<Rightarrow> string \<Rightarrow> field_binding option" where
  "by_binding_path t = map_of (rev (map (\<lambda>b. (binding_path b, b)) (bindings t)))"

definition entity_key_field :: "binding_table \<Rightarrow> string option" where
  "entity_key_field t =
     map_option source_field (find (\<lambda>b. ''identity'' \<in> set (planning_use b)) (bindings t))"

subsection \<open>The applicator\<close>

type_synonym sources = "(string, row list) dict"

text \<open>\<open>tables\<close>: the binding tables of the mapped contracts, in registry order.\<close>

record 'g applicator =
  tables :: "(string, binding_table) dict"
  geo :: "'g shapely"
  metres_per_degree :: real
  coverage_complete_fraction :: real

record coverage_entry =
  rings :: "point list list"
  originals :: "(string, real) dict"
  original_area_ha :: real
  n_passes :: nat

record completion =
  c_task_id :: string
  c_completed_at :: string
  c_via :: string
  c_deadline :: py_val

record coverage_state =
  covered_fraction :: real
  covered_area_ha :: real
  remaining_area_ha :: real

record coverage_report =
  cr_task_id :: string
  cr_observed_at :: string
  cr_n_passes :: nat
  cr_original_area_ha :: real
  cr_state :: coverage_state

record app_state =
  srcs :: sources
  seen_event_ids :: "string list"
  watermarks :: "(string, real) dict"
  completions :: "completion list"
  coverage :: "(string, coverage_entry) dict"
  coverage_reports :: "coverage_report list"

definition rows_of :: "sources \<Rightarrow> string \<Rightarrow> row list" where
  "rows_of s cid = dget_default s cid []"

definition set_rows :: "string \<Rightarrow> row list \<Rightarrow> app_state \<Rightarrow> app_state" where
  "set_rows cid rows st = st\<lparr>srcs := AList.update cid rows (srcs st)\<rparr>"

definition row_get :: "row \<Rightarrow> string \<Rightarrow> py_val" where
  "row_get r k = dget_default r k VNone"

definition contracts_for :: "'g applicator \<Rightarrow> string \<Rightarrow> sources \<Rightarrow> string list" where
  "contracts_for ap entity s =
     filter (\<lambda>cid. cid \<in> fst ` set s)
       (map fst (filter (\<lambda>(cid, t). canonical_entity t = entity) (tables ap)))"

text \<open>\<open>None\<close> for a missing or empty field name: both are false in the handlers' guards.\<close>

definition nonempty_field :: "string option \<Rightarrow> string option" where
  "nonempty_field f = (case f of Some (c # cs) \<Rightarrow> Some (c # cs) | _ \<Rightarrow> None)"

definition bound_field :: "'g applicator \<Rightarrow> string \<Rightarrow> string \<Rightarrow> string option" where
  "bound_field ap cid p =
     (case map_of (tables ap) cid of
        None \<Rightarrow> None
      | Some t \<Rightarrow> map_option source_field (by_binding_path t p))"

definition key_field :: "'g applicator \<Rightarrow> string \<Rightarrow> string option" where
  "key_field ap cid =
     (case map_of (tables ap) cid of None \<Rightarrow> None | Some t \<Rightarrow> nonempty_field (entity_key_field t))"

definition status_field :: "'g applicator \<Rightarrow> string \<Rightarrow> string option" where
  "status_field ap cid = nonempty_field (bound_field ap cid ''task.status'')"

definition work_fields :: "'g applicator \<Rightarrow> string \<Rightarrow> string list" where
  "work_fields ap cid =
     fold (\<lambda>p fs. case bound_field ap cid p of
                    None \<Rightarrow> fs | Some f \<Rightarrow> if f \<in> set fs then fs else fs @ [f])
       [''task.workQuantity'', ''task.areaHa''] []"

definition row_is :: "runtime \<Rightarrow> string \<Rightarrow> string \<Rightarrow> row \<Rightarrow> bool" where
  "row_is rt key ref r \<longleftrightarrow> py_str rt (row_get r key) = ref"

text \<open>Update the matching rows of one contract.\<close>

definition map_matching ::
  "runtime \<Rightarrow> string \<Rightarrow> string \<Rightarrow> (row \<Rightarrow> row) \<Rightarrow> string \<Rightarrow> app_state \<Rightarrow> app_state" where
  "map_matching rt key ref f cid st =
     set_rows cid (map (\<lambda>r. if row_is rt key ref r then f r else r) (rows_of (srcs st) cid)) st"

definition set_status :: "string option \<Rightarrow> row \<Rightarrow> row" where
  "set_status status r =
     (case status of None \<Rightarrow> r | Some f \<Rightarrow> AList.update f (VStr ''started'') r)"

subsection \<open>Starting and removing tasks\<close>

definition set_task_started :: "'g applicator \<Rightarrow> runtime \<Rightarrow> event \<Rightarrow> app_state \<Rightarrow> app_state" where
  "set_task_started ap rt e st =
     fold (\<lambda>cid st.
       case (key_field ap cid, status_field ap cid) of
         (Some key, Some status) \<Rightarrow>
           map_matching rt key (ev_entity_ref e) (set_status (Some status)) cid st
       | _ \<Rightarrow> st) (contracts_for ap ''task'' (srcs st)) st"

definition remove_by_key ::
  "'g applicator \<Rightarrow> runtime \<Rightarrow> string \<Rightarrow> string \<Rightarrow> app_state \<Rightarrow> app_state" where
  "remove_by_key ap rt ref entity st =
     fold (\<lambda>cid st.
       case key_field ap cid of
         None \<Rightarrow> st
       | Some key \<Rightarrow> set_rows cid (filter (\<lambda>r. \<not> row_is rt key ref r) (rows_of (srcs st) cid)) st)
       (contracts_for ap entity (srcs st)) st"

text \<open>The deadline of a finished task: each contract with a matching row overwrites it.\<close>

definition completion_deadline :: "'g applicator \<Rightarrow> runtime \<Rightarrow> sources \<Rightarrow> string \<Rightarrow> py_val" where
  "completion_deadline ap rt s ref =
     fold (\<lambda>cid deadline.
       case key_field ap cid of
         None \<Rightarrow> deadline
       | Some key \<Rightarrow>
           (case find (row_is rt key ref) (rows_of s cid) of
              None \<Rightarrow> deadline
            | Some r \<Rightarrow> (case bound_field ap cid ''task.deadline'' of
                           None \<Rightarrow> deadline | Some f \<Rightarrow> row_get r f)))
       (contracts_for ap ''task'' s) VNone"

definition complete_task ::
  "'g applicator \<Rightarrow> runtime \<Rightarrow> string \<Rightarrow> string \<Rightarrow> string \<Rightarrow> app_state \<Rightarrow> app_state" where
  "complete_task ap rt ref completed_at via st =
     remove_by_key ap rt ref ''task''
       (st\<lparr>completions := completions st @
             [\<lparr>c_task_id = ref, c_completed_at = completed_at, c_via = via,
               c_deadline = completion_deadline ap rt (srcs st) ref\<rparr>]\<rparr>)"

subsection \<open>Scalar progress\<close>

definition scale_field :: "runtime \<Rightarrow> real \<Rightarrow> string \<Rightarrow> row \<Rightarrow> row" where
  "scale_field rt fraction f r =
     (case py_float rt (dget_default r f (VFloat 0)) of
        None \<Rightarrow> r
      | Some x \<Rightarrow> AList.update f (VFloat (py_round 2 (x * (1 - fraction)))) r)"

definition scale_row ::
  "runtime \<Rightarrow> real \<Rightarrow> real option \<Rightarrow> string list \<Rightarrow> string option \<Rightarrow> row \<Rightarrow> row" where
  "scale_row rt fraction remaining cols status r =
     set_status status
       (case remaining of
          Some x \<Rightarrow> AList.update (hd cols) (VFloat (py_round 2 x)) r
        | None \<Rightarrow> fold (scale_field rt fraction) cols r)"

definition scale_task_work ::
  "'g applicator \<Rightarrow> runtime \<Rightarrow> string \<Rightarrow> real \<Rightarrow> real option \<Rightarrow> app_state \<Rightarrow> app_state" where
  "scale_task_work ap rt ref fraction remaining st =
     fold (\<lambda>cid st.
       case key_field ap cid of
         None \<Rightarrow> st
       | Some key \<Rightarrow>
           if work_fields ap cid = [] then st
           else map_matching rt key ref
                  (scale_row rt fraction remaining (work_fields ap cid) (status_field ap cid)) cid st)
       (contracts_for ap ''task'' (srcs st)) st"

subsection \<open>Coverage passes\<close>

definition has_coverage_payload :: "row \<Rightarrow> bool" where
  "has_coverage_payload p \<longleftrightarrow>
     truthy (row_get p ''covered_polygon'') \<or> truthy (row_get p ''covered_path'')"

text \<open>\<open>_path_latlon\<close>: pairs that do not convert are skipped.\<close>

fun path_points :: "runtime \<Rightarrow> py_val list \<Rightarrow> point list" where
  "path_points rt [] = []"
| "path_points rt (VList (a # b # cs) # rest) =
     (case (py_float rt a, py_float rt b) of
        (Some x, Some y) \<Rightarrow> (x, y) # path_points rt rest
      | _ \<Rightarrow> path_points rt rest)"
| "path_points rt (_ # rest) = path_points rt rest"

definition path_latlon :: "runtime \<Rightarrow> py_val \<Rightarrow> point list" where
  "path_latlon rt raw =
     (case (case raw of VStr s \<Rightarrow> literal_eval rt s | v \<Rightarrow> Some v) of
        Some (VList xs) \<Rightarrow> path_points rt xs
      | _ \<Rightarrow> [])"

text \<open>Outer \<open>None\<close>: the polygon parser raises; \<open>Some None\<close>: no usable ring.\<close>

definition ring_or_none :: "point list \<Rightarrow> point list option" where
  "ring_or_none ring = (if ring = [] then None else Some ring)"

definition pass_ring_from_payload ::
  "'g applicator \<Rightarrow> runtime \<Rightarrow> row \<Rightarrow> point list option option" where
  "pass_ring_from_payload ap rt p =
     (let polygon = row_get p ''covered_polygon''; pth = row_get p ''covered_path'' in
      if truthy polygon then map_option ring_or_none (parse_polygon rt polygon)
      else if \<not> truthy pth then Some None
      else case py_float rt (row_get p ''swath_width_m'') of
             None \<Rightarrow> Some None
           | Some width \<Rightarrow>
               let latlon = path_latlon rt pth in
               if latlon = [] then Some None
               else Some (ring_or_none (swept_polygon (geo ap) (metres_per_degree ap) latlon width)))"

text \<open>\<open>HECTARES_PER_SQUARE_KM\<close> is 100.\<close>

definition work_area_area_ha :: "'g applicator \<Rightarrow> runtime \<Rightarrow> py_val \<Rightarrow> real option" where
  "work_area_area_ha ap rt geometry =
     map_option (\<lambda>ring. if length ring < 3 then 0 else polygon_rings_area_km2 (geo ap) [ring] * 100)
       (parse_polygon rt geometry)"

definition coverage_state_of :: "'g applicator \<Rightarrow> point list list \<Rightarrow> real \<Rightarrow> coverage_state" where
  "coverage_state_of ap accumulated original =
     (let covered_ha = polygon_rings_area_km2 (geo ap) accumulated * 100;
          fraction = (if original > 0 then min 1 (covered_ha / original) else 0);
          remaining_ha = (if original > 0 then max 0 (original - covered_ha) else 0)
      in \<lparr>covered_fraction = py_round 6 fraction, covered_area_ha = py_round 4 covered_ha,
          remaining_area_ha = py_round 4 remaining_ha\<rparr>)"

text \<open>\<open>float(row.get(f, 0.0) or 0.0)\<close>.\<close>

definition float_or_zero :: "runtime \<Rightarrow> row \<Rightarrow> string \<Rightarrow> real option" where
  "float_or_zero rt r f =
     (let v = dget_default r f (VFloat 0) in if truthy v then py_float rt v else Some 0)"

definition capture_originals :: "runtime \<Rightarrow> string list \<Rightarrow> row \<Rightarrow> (string, real) dict" where
  "capture_originals rt cols r =
     fold (\<lambda>f d. case float_or_zero rt r f of None \<Rightarrow> d | Some x \<Rightarrow> AList.update f x d) cols []"

definition capture_area ::
  "'g applicator \<Rightarrow> runtime \<Rightarrow> string \<Rightarrow> row \<Rightarrow> (string, real) dict \<Rightarrow> real option" where
  "capture_area ap rt cid r origs =
     (let from_geometry = (case bound_field ap cid ''task.workAreaGeometry'' of
                             None \<Rightarrow> Some 0 | Some f \<Rightarrow> work_area_area_ha ap rt (row_get r f))
      in case from_geometry of
           None \<Rightarrow> None
         | Some a0 \<Rightarrow>
             let a1 = (if a0 \<le> 0 then
                         (case bound_field ap cid ''task.areaHa'' of
                            None \<Rightarrow> a0
                          | Some f \<Rightarrow> (case float_or_zero rt r f of None \<Rightarrow> 0 | Some x \<Rightarrow> x))
                       else a0)
             in Some (if a1 \<le> 0 \<and> work_fields ap cid \<noteq> []
                      then dget_default origs (hd (work_fields ap cid)) 0 else a1))"

text \<open>The first matching row of the first contract that has one.\<close>

fun capture_work_state ::
  "'g applicator \<Rightarrow> runtime \<Rightarrow> sources \<Rightarrow> string \<Rightarrow> string list \<Rightarrow> ((string, real) dict \<times> real) option" where
  "capture_work_state ap rt s ref [] = Some ([], 0)"
| "capture_work_state ap rt s ref (cid # cids) =
     (case key_field ap cid of
        None \<Rightarrow> capture_work_state ap rt s ref cids
      | Some key \<Rightarrow>
          (case find (row_is rt key ref) (rows_of s cid) of
             None \<Rightarrow> capture_work_state ap rt s ref cids
           | Some r \<Rightarrow>
               let origs = capture_originals rt (work_fields ap cid) r
               in map_option (Pair origs) (capture_area ap rt cid r origs)))"

definition restore_row :: "(string, real) dict \<Rightarrow> real \<Rightarrow> string option \<Rightarrow> row \<Rightarrow> row" where
  "restore_row origs uncovered status r =
     set_status status
       (fold (\<lambda>(f, original) r.
          if f \<in> fst ` set r then AList.update f (VFloat (py_round 2 (original * uncovered))) r else r)
          origs r)"

definition set_remaining_from_originals ::
  "'g applicator \<Rightarrow> runtime \<Rightarrow> string \<Rightarrow> (string, real) dict \<Rightarrow> real \<Rightarrow> app_state \<Rightarrow> app_state" where
  "set_remaining_from_originals ap rt ref origs fraction st =
     fold (\<lambda>cid st.
       case key_field ap cid of
         None \<Rightarrow> st
       | Some key \<Rightarrow>
           map_matching rt key ref (restore_row origs (max 0 (1 - fraction)) (status_field ap cid)) cid st)
       (contracts_for ap ''task'' (srcs st)) st"

text \<open>One pass: whether it was used, and the new state.\<close>

definition accumulate_pass ::
  "'g applicator \<Rightarrow> runtime \<Rightarrow> string \<Rightarrow> string \<Rightarrow> point list \<Rightarrow> coverage_entry \<Rightarrow> app_state \<Rightarrow> app_state" where
  "accumulate_pass ap rt ref observed ring entry st =
     (let entry' = entry\<lparr>rings := rings entry @ [ring], n_passes := n_passes entry + 1\<rparr>;
          state = coverage_state_of ap (rings entry') (original_area_ha entry');
          st' = st\<lparr>coverage := AList.update ref entry' (coverage st),
                   coverage_reports := coverage_reports st @
                     [\<lparr>cr_task_id = ref, cr_observed_at = observed, cr_n_passes = n_passes entry',
                       cr_original_area_ha = py_round 4 (original_area_ha entry'),
                       cr_state = state\<rparr>]\<rparr>
      in if covered_fraction state \<ge> coverage_complete_fraction ap
         then (let st'' = complete_task ap rt ref observed ''coverage'' st'
               in st''\<lparr>coverage := AList.delete ref (coverage st'')\<rparr>)
         else set_remaining_from_originals ap rt ref (originals entry') (covered_fraction state) st')"

definition apply_coverage_pass ::
  "'g applicator \<Rightarrow> runtime \<Rightarrow> string \<Rightarrow> row \<Rightarrow> string \<Rightarrow> app_state \<Rightarrow> (bool \<times> app_state) option" where
  "apply_coverage_pass ap rt ref p observed st =
     (case pass_ring_from_payload ap rt p of
        None \<Rightarrow> None
      | Some None \<Rightarrow> Some (False, st)
      | Some (Some ring) \<Rightarrow>
          (case map_of (coverage st) ref of
             Some entry \<Rightarrow> Some (True, accumulate_pass ap rt ref observed ring entry st)
           | None \<Rightarrow>
               (case capture_work_state ap rt (srcs st) ref (contracts_for ap ''task'' (srcs st)) of
                  None \<Rightarrow> None
                | Some (origs, original_area) \<Rightarrow>
                    if original_area \<le> 0 then Some (False, st)
                    else Some (True, accumulate_pass ap rt ref observed ring
                           \<lparr>rings = [], originals = origs, original_area_ha = original_area,
                             n_passes = 0\<rparr> st))))"

subsection \<open>Progress events\<close>

definition payload_float :: "runtime \<Rightarrow> row \<Rightarrow> string \<Rightarrow> real option" where
  "payload_float rt p k = (case map_of p k of None \<Rightarrow> None | Some v \<Rightarrow> py_float rt v)"

definition scalar_progress :: "'g applicator \<Rightarrow> runtime \<Rightarrow> event \<Rightarrow> app_state \<Rightarrow> app_state" where
  "scalar_progress ap rt e st =
     (let remaining = payload_float rt (payload e) ''remaining_quantity'';
          fraction = (case remaining of
                        Some _ \<Rightarrow> Some 0
                      | None \<Rightarrow> py_float rt (dget_default (payload e) ''completed_fraction'' (VFloat 0)))
      in case fraction of
           None \<Rightarrow> st
         | Some f \<Rightarrow>
             if (case remaining of None \<Rightarrow> False | Some x \<Rightarrow> x \<le> 0) \<or> f \<ge> 1
             then complete_task ap rt (ev_entity_ref e) (observed_text e) ''progress'' st
             else scale_task_work ap rt (ev_entity_ref e) f remaining st)"

definition apply_task_progress ::
  "'g applicator \<Rightarrow> runtime \<Rightarrow> event \<Rightarrow> app_state \<Rightarrow> app_state option" where
  "apply_task_progress ap rt e st =
     (if has_coverage_payload (payload e) then
        (case apply_coverage_pass ap rt (ev_entity_ref e) (payload e) (observed_text e) st of
           None \<Rightarrow> None
         | Some (True, st') \<Rightarrow> Some st'
         | Some (False, st') \<Rightarrow> Some (scalar_progress ap rt e st'))
      else Some (scalar_progress ap rt e st))"

subsection \<open>Upserts\<close>

fun replace_first :: "('a \<Rightarrow> bool) \<Rightarrow> 'a \<Rightarrow> 'a list \<Rightarrow> 'a list" where
  "replace_first P y [] = []"
| "replace_first P y (x # xs) = (if P x then y # xs else x # replace_first P y xs)"

definition upsert_row :: "runtime \<Rightarrow> string option \<Rightarrow> row \<Rightarrow> row list \<Rightarrow> row list" where
  "upsert_row rt key p rows =
     (case key of
        Some k \<Rightarrow>
          if k \<in> fst ` set p \<and> list_ex (row_is rt k (py_str rt (row_get p k))) rows
          then replace_first (row_is rt k (py_str rt (row_get p k))) p rows
          else rows @ [p]
      | None \<Rightarrow> rows @ [p])"

definition fill_blanks :: "runtime \<Rightarrow> (string \<times> string) option \<Rightarrow> row \<Rightarrow> row" where
  "fill_blanks rt extra p =
     (case extra of
        None \<Rightarrow> p
      | Some (f, v) \<Rightarrow>
          if py_str rt (dget_default p f (VStr [])) = [] then AList.update f (VStr v) p else p)"

definition append_payload ::
  "'g applicator \<Rightarrow> runtime \<Rightarrow> event \<Rightarrow> string \<Rightarrow> (string \<times> string) option \<Rightarrow> app_state \<Rightarrow> app_state" where
  "append_payload ap rt e entity extra st =
     (case contracts_for ap entity (srcs st) of
        [] \<Rightarrow> st
      | cid # _ \<Rightarrow>
          set_rows cid (upsert_row rt (key_field ap cid) (fill_blanks rt extra (payload e))
                          (rows_of (srcs st) cid)) st)"

definition observation_ingested_extra ::
  "'g applicator \<Rightarrow> event \<Rightarrow> sources \<Rightarrow> (string \<times> string) option" where
  "observation_ingested_extra ap e s =
     (let ingested = (if ingested_text e \<noteq> [] then ingested_text e else observed_text e) in
      if ingested = [] then None
      else case contracts_for ap ''observation'' s of
             [] \<Rightarrow> None
           | cid # _ \<Rightarrow> map_option (\<lambda>f. (f, ingested)) (bound_field ap cid ''observation.ingestedAt''))"

text \<open>Progress derived from a work-progress reading: the first contract that yields a task reference
  decides.\<close>

fun derive_progress ::
  "'g applicator \<Rightarrow> runtime \<Rightarrow> event \<Rightarrow> string list \<Rightarrow> app_state \<Rightarrow> app_state option" where
  "derive_progress ap rt e [] st = Some st"
| "derive_progress ap rt e (cid # cids) st =
     (case (bound_field ap cid ''observation.metric'', bound_field ap cid ''observation.value'',
            bound_field ap cid ''observation.entityRef'') of
        (Some mf, Some vf, Some rf) \<Rightarrow>
          let raw = py_str rt (dget_default (payload e) mf (VStr []));
              codes = (case map_of (tables ap) cid of None \<Rightarrow> [] | Some t \<Rightarrow> metric_codes t);
              met = dget_default codes raw raw;
              ref = py_str rt (dget_default (payload e) rf (VStr []))
          in if met \<noteq> ''work-progress'' \<or> ref = [] then derive_progress ap rt e cids st
             else
               (let scalar = (\<lambda>st.
                      case py_float rt (row_get (payload e) vf) of
                        None \<Rightarrow> st
                      | Some pct \<Rightarrow>
                          if pct \<ge> 100 then complete_task ap rt ref (observed_text e) ''telemetry'' st
                          else scale_task_work ap rt ref (max 0 pct / 100) None st)
                in if has_coverage_payload (payload e) then
                     (case apply_coverage_pass ap rt ref (payload e) (observed_text e) st of
                        None \<Rightarrow> None
                      | Some (True, st') \<Rightarrow> Some st'
                      | Some (False, st') \<Rightarrow> Some (scalar st'))
                   else Some (scalar st))
      | _ \<Rightarrow> derive_progress ap rt e cids st)"

definition append_observation ::
  "'g applicator \<Rightarrow> runtime \<Rightarrow> event \<Rightarrow> app_state \<Rightarrow> app_state option" where
  "append_observation ap rt e st =
     (let st' = append_payload ap rt e ''observation'' (observation_ingested_extra ap e (srcs st)) st
      in derive_progress ap rt e (contracts_for ap ''observation'' (srcs st')) st')"

subsection \<open>Watermarks\<close>

definition bump_watermark :: "string \<Rightarrow> real option \<Rightarrow> app_state \<Rightarrow> app_state" where
  "bump_watermark cid observed st =
     (case observed of
        None \<Rightarrow> st
      | Some t \<Rightarrow>
          (case map_of (watermarks st) cid of
             None \<Rightarrow> st\<lparr>watermarks := AList.update cid t (watermarks st)\<rparr>
           | Some current \<Rightarrow>
               if t > current then st\<lparr>watermarks := AList.update cid t (watermarks st)\<rparr> else st))"

fun event_entity :: "event_type \<Rightarrow> string option" where
  "event_entity TaskStarted = Some ''task''"
| "event_entity TaskProgress = Some ''task''"
| "event_entity TaskCompleted = Some ''task''"
| "event_entity OrderCreated = Some ''task''"
| "event_entity OrderCancelled = Some ''task''"
| "event_entity AssetUnavailable = Some ''asset''"
| "event_entity InventoryAdjusted = Some ''location''"
| "event_entity ForecastUpdated = Some ''forecast''"
| "event_entity ObservationRecorded = Some ''observation''"
| "event_entity _ = None"

definition advance_watermarks :: "'g applicator \<Rightarrow> runtime \<Rightarrow> event \<Rightarrow> app_state \<Rightarrow> app_state" where
  "advance_watermarks ap rt e st =
     (case event_entity (event_type e) of
        None \<Rightarrow> st
      | Some entity \<Rightarrow>
          (case parse_observed rt e of
             None \<Rightarrow> st
           | Some t \<Rightarrow> fold (\<lambda>cid. bump_watermark cid (Some t)) (contracts_for ap entity (srcs st)) st))"

subsection \<open>Corrections and inventory\<close>

fun correct_existing ::
  "'g applicator \<Rightarrow> runtime \<Rightarrow> row \<Rightarrow> real option \<Rightarrow> string list \<Rightarrow> app_state \<Rightarrow> app_state option" where
  "correct_existing ap rt p observed [] st = None"
| "correct_existing ap rt p observed (cid # cids) st =
     (case key_field ap cid of
        None \<Rightarrow> correct_existing ap rt p observed cids st
      | Some k \<Rightarrow>
          if list_ex (row_is rt k (py_str rt (row_get p k))) (rows_of (srcs st) cid)
          then Some (bump_watermark cid observed
                 (set_rows cid (replace_first (row_is rt k (py_str rt (row_get p k))) p
                                  (rows_of (srcs st) cid)) st))
          else correct_existing ap rt p observed cids st)"

definition correction_candidates :: "'g applicator \<Rightarrow> row \<Rightarrow> sources \<Rightarrow> string list" where
  "correction_candidates ap p s =
     map fst (filter (\<lambda>(cid, t). cid \<in> fst ` set s \<and>
       (case key_field ap cid of None \<Rightarrow> False | Some k \<Rightarrow> k \<in> fst ` set p)) (tables ap))"

definition upsert_entity :: "'g applicator \<Rightarrow> runtime \<Rightarrow> event \<Rightarrow> app_state \<Rightarrow> app_state" where
  "upsert_entity ap rt e st =
     (case correction_candidates ap (payload e) (srcs st) of
        [] \<Rightarrow> st
      | target # others \<Rightarrow>
          (case correct_existing ap rt (payload e) (parse_observed rt e) (target # others) st of
             Some st' \<Rightarrow> st'
           | None \<Rightarrow> bump_watermark target (parse_observed rt e)
                       (set_rows target (rows_of (srcs st) target @ [payload e]) st)))"

definition merge_row :: "row \<Rightarrow> row \<Rightarrow> row" where
  "merge_row p r = fold (\<lambda>(k, v). AList.update k v) p r"

fun merge_first :: "(row \<Rightarrow> bool) \<Rightarrow> row \<Rightarrow> row list \<Rightarrow> row list" where
  "merge_first P p [] = []"
| "merge_first P p (r # rs) = (if P r then merge_row p r # rs else r # merge_first P p rs)"

fun merge_inventory_in ::
  "'g applicator \<Rightarrow> runtime \<Rightarrow> row \<Rightarrow> string list \<Rightarrow> app_state \<Rightarrow> app_state" where
  "merge_inventory_in ap rt p [] st = st"
| "merge_inventory_in ap rt p (cid # cids) st =
     (case key_field ap cid of
        None \<Rightarrow> merge_inventory_in ap rt p cids st
      | Some k \<Rightarrow>
          if k \<in> fst ` set p \<and> list_ex (row_is rt k (py_str rt (row_get p k))) (rows_of (srcs st) cid)
          then set_rows cid (merge_first (row_is rt k (py_str rt (row_get p k))) p
                               (rows_of (srcs st) cid)) st
          else merge_inventory_in ap rt p cids st)"

definition merge_inventory :: "'g applicator \<Rightarrow> runtime \<Rightarrow> event \<Rightarrow> app_state \<Rightarrow> app_state" where
  "merge_inventory ap rt e st =
     merge_inventory_in ap rt (payload e) (contracts_for ap ''location'' (srcs st)) st"

definition update_forecast :: "'g applicator \<Rightarrow> runtime \<Rightarrow> event \<Rightarrow> app_state \<Rightarrow> app_state" where
  "update_forecast ap rt e st =
     (if payload e \<noteq> [] then append_payload ap rt e ''forecast'' None st else st)"

subsection \<open>Dispatch\<close>

fun handle :: "'g applicator \<Rightarrow> runtime \<Rightarrow> event_type \<Rightarrow> event \<Rightarrow> app_state \<Rightarrow> app_state option" where
  "handle ap rt TaskStarted e st = Some (set_task_started ap rt e st)"
| "handle ap rt TaskProgress e st = apply_task_progress ap rt e st"
| "handle ap rt TaskCompleted e st =
     Some (complete_task ap rt (ev_entity_ref e) (observed_text e) ''event'' st)"
| "handle ap rt OrderCreated e st = Some (append_payload ap rt e ''task'' None st)"
| "handle ap rt OrderCancelled e st = Some (remove_by_key ap rt (ev_entity_ref e) ''task'' st)"
| "handle ap rt AssetUnavailable e st = Some (remove_by_key ap rt (ev_entity_ref e) ''asset'' st)"
| "handle ap rt ForecastUpdated e st = Some (update_forecast ap rt e st)"
| "handle ap rt ObservationRecorded e st = append_observation ap rt e st"
| "handle ap rt EntityCorrected e st = Some (upsert_entity ap rt e st)"
| "handle ap rt InventoryAdjusted e st = Some (merge_inventory ap rt e st)"
| "handle ap rt (OtherEvent _) e st = Some st"

text \<open>
  \<open>apply\<close>: whether the event was applied, and the new state. \<open>published\<close> is membership in the durable
  store; an event without an id is always applied.
\<close>

definition apply_event ::
  "'g applicator \<Rightarrow> runtime \<Rightarrow> (string \<Rightarrow> bool) \<Rightarrow> event \<Rightarrow> app_state \<Rightarrow> (bool \<times> app_state) option" where
  "apply_event ap rt published e st =
     (if event_id e \<noteq> [] \<and> (event_id e \<in> set (seen_event_ids st) \<or> published (event_id e))
      then Some (False, st)
      else
        let st0 = (if event_id e \<noteq> [] then st\<lparr>seen_event_ids := event_id e # seen_event_ids st\<rparr> else st)
        in case event_type e of
             OtherEvent _ \<Rightarrow> Some (True, st0)
           | t \<Rightarrow> map_option (\<lambda>st'. (True, advance_watermarks ap rt e st')) (handle ap rt t e st0))"

subsection \<open>What the handlers leave alone\<close>

lemma fold_keeps: "(\<And>x st. g (f x st) = g st) \<Longrightarrow> g (fold f xs st) = g st"
  by (induction xs arbitrary: st) auto

text \<open>The fields that only the dispatch changes, and the domain of the sources.\<close>

definition book :: "app_state \<Rightarrow> string list \<times> (string, real) dict" where
  "book st = (seen_event_ids st, watermarks st)"

named_theorems book_simps \<open>handlers that keep the seen ids and the watermarks\<close>

lemma book_set_rows [book_simps]: "book (set_rows cid rows st) = book st"
  by (simp add: book_def set_rows_def)

lemma book_map_matching [book_simps]: "book (map_matching rt key ref f cid st) = book st"
  by (simp add: map_matching_def book_simps)

lemma book_set_task_started [book_simps]: "book (set_task_started ap rt e st) = book st"
  unfolding set_task_started_def
  by (rule fold_keeps) (auto simp: book_simps split: option.splits)

lemma book_remove_by_key [book_simps]: "book (remove_by_key ap rt ref en st) = book st"
  unfolding remove_by_key_def
  by (rule fold_keeps) (auto simp: book_simps split: option.splits)

lemma book_complete_task [book_simps]: "book (complete_task ap rt ref tm via st) = book st"
  by (simp add: complete_task_def book_simps) (simp add: book_def)

lemma book_scale_task_work [book_simps]: "book (scale_task_work ap rt ref f rm st) = book st"
  unfolding scale_task_work_def
  by (rule fold_keeps) (auto simp: book_simps split: option.splits)

lemma book_set_remaining [book_simps]: "book (set_remaining_from_originals ap rt ref orig f st) = book st"
  unfolding set_remaining_from_originals_def
  by (rule fold_keeps) (auto simp: book_simps split: option.splits)

lemma book_accumulate [book_simps]: "book (accumulate_pass ap rt ref obs ring en st) = book st"
proof -
  have c: "book (st\<lparr>coverage := c\<rparr>) = book st" for st c by (simp add: book_def)
  have r: "book (st\<lparr>coverage := c, coverage_reports := r\<rparr>) = book st" for st c r by (simp add: book_def)
  show ?thesis by (simp add: accumulate_pass_def Let_def book_simps c r)
qed

lemma book_coverage_pass:
  "apply_coverage_pass ap rt ref p obs st = Some (b, st') \<Longrightarrow> book st' = book st"
  by (auto simp: apply_coverage_pass_def book_simps split: option.splits if_splits)

lemma book_scalar_progress [book_simps]: "book (scalar_progress ap rt e st) = book st"
  by (simp add: scalar_progress_def Let_def book_simps split: option.split)

lemma book_append_payload [book_simps]: "book (append_payload ap rt e en extra st) = book st"
  by (simp add: append_payload_def book_simps split: list.split)

lemma book_task_progress:
  assumes "apply_task_progress ap rt e st = Some st'"
  shows "book st' = book st"
proof (cases "has_coverage_payload (payload e)")
  case False
  with assms show ?thesis by (auto simp: apply_task_progress_def book_simps)
next
  case True
  with assms obtain b s where
    s: "apply_coverage_pass ap rt (ev_entity_ref e) (payload e) (observed_text e) st = Some (b, s)"
    and st': "st' = (if b then s else scalar_progress ap rt e s)"
    by (auto simp: apply_task_progress_def split: option.splits bool.splits prod.splits)
  show ?thesis using book_coverage_pass [OF s] by (simp add: st' book_simps)
qed

lemma book_derive_progress: "derive_progress ap rt e cids st = Some st' \<Longrightarrow> book st' = book st"
proof (induction ap rt e cids st rule: derive_progress.induct)
  case (2 ap rt e cid cids st)
  have c: "book s = book st" if "apply_coverage_pass ap rt ref p obs st = Some (b, s)" for ref p obs b s
    using that by (rule book_coverage_pass)
  from 2 show ?case
    by (auto simp: Let_def book_simps c split: option.splits if_splits bool.splits prod.splits)
qed simp

lemma book_merge_inventory [book_simps]: "book (merge_inventory_in ap rt p cids st) = book st"
  by (induction ap rt p cids st rule: merge_inventory_in.induct) (auto simp: book_simps split: option.splits)

subsection \<open>Seen ids\<close>

lemma bump_watermark_seen [simp]: "seen_event_ids (bump_watermark cid t st) = seen_event_ids st"
  by (auto simp: bump_watermark_def split: option.splits)

lemma advance_watermarks_seen [simp]: "seen_event_ids (advance_watermarks ap rt e st) = seen_event_ids st"
  unfolding advance_watermarks_def
  by (auto intro!: fold_keeps split: option.splits)

lemma correct_existing_seen:
  "correct_existing ap rt p t cids st = Some st' \<Longrightarrow> seen_event_ids st' = seen_event_ids st"
  by (induction ap rt p t cids st rule: correct_existing.induct)
     (auto simp: set_rows_def split: option.splits if_splits)

lemma upsert_entity_seen: "seen_event_ids (upsert_entity ap rt e st) = seen_event_ids st"
  by (auto simp: upsert_entity_def set_rows_def dest: correct_existing_seen split: list.splits option.splits)

lemma book_fst: "book a = book b \<Longrightarrow> seen_event_ids a = seen_event_ids b"
  "book a = book b \<Longrightarrow> watermarks a = watermarks b"
  by (simp_all add: book_def)

lemma book_handle:
  assumes "handle ap rt t e st = Some st'" "t \<noteq> EntityCorrected"
  shows "book st' = book st"
  using assms
  by (cases t)
     (auto simp: book_simps append_observation_def merge_inventory_def update_forecast_def Let_def
        dest: book_task_progress dest!: book_derive_progress)

lemma handle_seen: "handle ap rt t e st = Some st' \<Longrightarrow> seen_event_ids st' = seen_event_ids st"
  by (cases "t = EntityCorrected") (auto simp: upsert_entity_seen dest: book_handle book_fst)

lemma apply_event_cases:
  assumes "apply_event ap rt pub e st = Some (b, st')"
  obtains (skipped) "b = False" "st' = st" "event_id e \<noteq> []"
      "event_id e \<in> set (seen_event_ids st) \<or> pub (event_id e)"
  | (applied) st0 st1 where "b = True"
      "event_id e = [] \<or> (event_id e \<notin> set (seen_event_ids st) \<and> \<not> pub (event_id e))"
      "st0 = (if event_id e \<noteq> [] then st\<lparr>seen_event_ids := event_id e # seen_event_ids st\<rparr> else st)"
      "handle ap rt (event_type e) e st0 = Some st1"
      "st' = advance_watermarks ap rt e st1"
proof (cases "event_id e \<noteq> [] \<and> (event_id e \<in> set (seen_event_ids st) \<or> pub (event_id e))")
  case True
  with assms skipped show thesis by (auto simp: apply_event_def)
next
  case False
  let ?st0 = "if event_id e \<noteq> [] then st\<lparr>seen_event_ids := event_id e # seen_event_ids st\<rparr> else st"
  have adv: "advance_watermarks ap rt e s = s" if "event_type e = OtherEvent x" for x s
    using that by (simp add: advance_watermarks_def)
  have "\<exists>st1. handle ap rt (event_type e) e ?st0 = Some st1 \<and> st' = advance_watermarks ap rt e st1 \<and> b"
    using assms False adv by (auto simp: apply_event_def Let_def split: event_type.splits if_splits)
  with False applied show thesis by blast
qed

lemma apply_event_seen:
  assumes "apply_event ap rt pub e st = Some (b, st')"
  shows "set (seen_event_ids st') =
    (if b \<and> event_id e \<noteq> [] then insert (event_id e) (set (seen_event_ids st)) else set (seen_event_ids st))"
  using assms by (cases rule: apply_event_cases) (auto dest!: handle_seen)

lemma apply_event_flag:
  assumes "apply_event ap rt pub e st = Some (b, st')"
  shows "b \<longleftrightarrow> event_id e = [] \<or> (event_id e \<notin> set (seen_event_ids st) \<and> \<not> pub (event_id e))"
  using assms by (cases rule: apply_event_cases) auto

subsection \<open>Watermarks only move forward\<close>

definition horizon_le :: "app_state \<Rightarrow> app_state \<Rightarrow> bool" where
  "horizon_le a b \<longleftrightarrow>
     (\<forall>cid t. map_of (watermarks a) cid = Some t \<longrightarrow> (\<exists>u. map_of (watermarks b) cid = Some u \<and> t \<le> u))"

lemma horizon_le_refl [simp]: "horizon_le a a"
  by (simp add: horizon_le_def)

lemma horizon_le_trans: "horizon_le a b \<Longrightarrow> horizon_le b c \<Longrightarrow> horizon_le a c"
  unfolding horizon_le_def by (meson order_trans)

lemma horizon_le_watermarks: "watermarks a = watermarks b \<Longrightarrow> horizon_le a b"
  by (simp add: horizon_le_def)

lemma bump_watermark_le: "horizon_le st (bump_watermark cid t st)"
  by (auto simp: horizon_le_def bump_watermark_def map_of_update split: option.splits)

lemma bump_watermark_reaches:
  "\<exists>u. map_of (watermarks (bump_watermark cid (Some t) st)) cid = Some u \<and> t \<le> u"
  by (auto simp: bump_watermark_def map_of_update split: option.splits)

lemma fold_bump_le: "horizon_le st (fold (\<lambda>cid. bump_watermark cid t) cids st)"
proof (induction cids arbitrary: st)
  case (Cons c cids)
  show ?case using horizon_le_trans [OF bump_watermark_le Cons.IH] by simp
qed simp

lemma fold_bump_reaches:
  "cid \<in> set cids \<Longrightarrow>
   \<exists>u. map_of (watermarks (fold (\<lambda>cid. bump_watermark cid (Some t)) cids st)) cid = Some u \<and> t \<le> u"
proof (induction cids arbitrary: st)
  case (Cons c cids)
  show ?case
  proof (cases "cid = c")
    case True
    obtain u where u: "map_of (watermarks (bump_watermark c (Some t) st)) c = Some u" "t \<le> u"
      using bump_watermark_reaches by blast
    have le: "horizon_le (bump_watermark c (Some t) st)
        (fold (\<lambda>cid. bump_watermark cid (Some t)) cids (bump_watermark c (Some t) st))"
      by (rule fold_bump_le)
    then obtain v where "map_of (watermarks (fold (\<lambda>cid. bump_watermark cid (Some t)) cids
        (bump_watermark c (Some t) st))) c = Some v" "u \<le> v"
      using u(1) unfolding horizon_le_def by fast
    with u(2) True show ?thesis by auto
  next
    case False
    with Cons show ?thesis by simp
  qed
qed simp

lemma advance_watermarks_le: "horizon_le st (advance_watermarks ap rt e st)"
  by (auto simp: advance_watermarks_def fold_bump_le split: option.split)

lemma correct_existing_le: "correct_existing ap rt p t cids st = Some st' \<Longrightarrow> horizon_le st st'"
proof (induction ap rt p t cids st rule: correct_existing.induct)
  case (2 ap rt p t cid cids st)
  have "horizon_le st (bump_watermark cid t (set_rows cid rows st))" for rows
    using bump_watermark_le [of "set_rows cid rows st" cid t] by (simp add: horizon_le_def set_rows_def)
  with 2 show ?case by (auto split: option.splits if_splits)
qed simp

lemma upsert_entity_le: "horizon_le st (upsert_entity ap rt e st)"
proof -
  have "horizon_le st (bump_watermark cid t (set_rows cid rows st))" for cid t rows
    using bump_watermark_le [of "set_rows cid rows st" cid t] by (simp add: horizon_le_def set_rows_def)
  then show ?thesis
    by (auto simp: upsert_entity_def dest: correct_existing_le split: list.splits option.splits)
qed

lemma handle_le:
  assumes "handle ap rt t e st = Some st'"
  shows "horizon_le st st'"
proof (cases "t = EntityCorrected")
  case True
  with assms show ?thesis by (auto simp: upsert_entity_le)
next
  case False
  show ?thesis by (rule horizon_le_watermarks [OF book_fst(2) [OF book_handle [OF assms False, symmetric]]])
qed

lemma apply_event_le:
  assumes "apply_event ap rt pub e st = Some (b, st')"
  shows "horizon_le st st'"
  using assms
proof (cases rule: apply_event_cases)
  case (applied st0 st1)
  have a: "horizon_le st st0" unfolding applied(3) by (simp add: horizon_le_def)
  have b: "horizon_le st0 st1" by (rule handle_le) (rule applied(4))
  have c: "horizon_le st1 st'" unfolding applied(5) by (rule advance_watermarks_le)
  show ?thesis by (rule horizon_le_trans [OF horizon_le_trans [OF a b] c])
qed simp

subsection \<open>Batches\<close>

text \<open>Events applied one after the other, as the driver applies a batch.\<close>

fun apply_events ::
  "'g applicator \<Rightarrow> runtime \<Rightarrow> (string \<Rightarrow> bool) \<Rightarrow> event list \<Rightarrow> app_state \<Rightarrow> app_state option" where
  "apply_events ap rt pub [] st = Some st"
| "apply_events ap rt pub (e # es) st =
     (case apply_event ap rt pub e st of None \<Rightarrow> None | Some (_, st') \<Rightarrow> apply_events ap rt pub es st')"

lemma apply_events_seen:
  "apply_events ap rt pub es st = Some st' \<Longrightarrow> set (seen_event_ids st) \<subseteq> set (seen_event_ids st')"
proof (induction es arbitrary: st)
  case (Cons e es)
  from Cons.prems obtain b s where s: "apply_event ap rt pub e st = Some (b, s)"
    "apply_events ap rt pub es s = Some st'" by (auto split: option.splits)
  from Cons.IH [OF s(2)] apply_event_seen [OF s(1)] show ?case by (auto split: if_splits)
qed simp

subsection \<open>Concrete instances\<close>

definition sample_table :: binding_table where
  "sample_table =
     \<lparr>bt_contract_id = ''orders'', canonical_entity = ''task'', asset_role = None,
      bindings =
        [\<lparr>source_field = ''id'', binding_path = ''task.taskId'', planning_use = [''identity'']\<rparr>,
         \<lparr>source_field = ''state'', binding_path = ''task.status'', planning_use = []\<rparr>,
         \<lparr>source_field = ''area'', binding_path = ''task.areaHa'', planning_use = []\<rparr>,
         \<lparr>source_field = ''due'', binding_path = ''task.deadline'', planning_use = []\<rparr>],
      metric_codes = []\<rparr>"

definition sample_applicator :: "unit applicator" where
  "sample_applicator =
     \<lparr>tables = [(''orders'', sample_table)], geo = sample_shapely, metres_per_degree = 111320,
      coverage_complete_fraction = 999 / 1000\<rparr>"

definition sample_row :: "string \<Rightarrow> real \<Rightarrow> row" where
  "sample_row i x = [(''id'', VStr i), (''state'', VStr ''new''), (''area'', VFloat x), (''due'', VStr ''t3'')]"

definition sample_app_state :: app_state where
  "sample_app_state =
     \<lparr>srcs = [(''orders'', [sample_row ''a'' 4, sample_row ''b'' 6])], seen_event_ids = [],
      watermarks = [], completions = [], coverage = [], coverage_reports = []\<rparr>"

definition sample_event :: "string \<Rightarrow> event_type \<Rightarrow> string \<Rightarrow> row \<Rightarrow> event" where
  "sample_event i t ref p =
     \<lparr>event_id = i, event_type = t, observed_text = ''t1'', ev_entity_ref = ref, payload = p,
      ingested_text = []\<rparr>"

text \<open>The state after one event on \<open>sample_app_state\<close>.\<close>

definition sample_after :: "event \<Rightarrow> app_state" where
  "sample_after e =
     (case apply_event sample_applicator sample_runtime (\<lambda>_. False) e sample_app_state of
        None \<Rightarrow> sample_app_state | Some (_, st) \<Rightarrow> st)"

lemma sample_after_run:
  assumes "apply_event sample_applicator sample_runtime (\<lambda>_. False) e sample_app_state \<noteq> None"
    and "event_id e \<noteq> []"
  shows "apply_event sample_applicator sample_runtime (\<lambda>_. False) e sample_app_state =
    Some (True, sample_after e)"
proof -
  from assms(1) obtain b st where
    r: "apply_event sample_applicator sample_runtime (\<lambda>_. False) e sample_app_state = Some (b, st)"
    by auto
  from apply_event_flag [OF r] have b by (simp add: sample_app_state_def)
  with r show ?thesis by (simp add: sample_after_def)
qed

subsection \<open>Replays\<close>

text \<open>C10: A redelivered event changes nothing: once an event with an id has been handled (applied, or
  found already published), then after any further events the same event is refused and the state is
  returned unchanged; and an event is applied exactly when it has no id or its id was neither seen in
  this run nor published by an earlier one.\<close>

theorem event_replay_is_noop:
  assumes "apply_event ap rt pub e st = Some (b, st1)" "apply_events ap rt pub es st1 = Some st2"
  shows "(b \<longleftrightarrow> event_id e = [] \<or> (event_id e \<notin> set (seen_event_ids st) \<and> \<not> pub (event_id e))) \<and>
    (event_id e = [] \<or> apply_event ap rt pub e st2 = Some (False, st2))"
proof -
  have flag: "b \<longleftrightarrow> event_id e = [] \<or> (event_id e \<notin> set (seen_event_ids st) \<and> \<not> pub (event_id e))"
    by (rule apply_event_flag [OF assms(1)])
  have "event_id e \<noteq> [] \<Longrightarrow> event_id e \<in> set (seen_event_ids st2) \<or> pub (event_id e)"
    using flag apply_event_seen [OF assms(1)] apply_events_seen [OF assms(2)]
    by (auto split: if_splits)
  then have "event_id e = [] \<or> apply_event ap rt pub e st2 = Some (False, st2)"
    by (auto simp: apply_event_def)
  with flag show ?thesis by blast
qed

lemma event_replay_is_noop_witness:
  "apply_event sample_applicator sample_runtime (\<lambda>_. False)
     (sample_event ''e1'' TaskCompleted ''a'' [])
     (sample_after (sample_event ''e1'' TaskCompleted ''a'' [])) =
   Some (False, sample_after (sample_event ''e1'' TaskCompleted ''a'' []))"
proof -
  have r: "apply_event sample_applicator sample_runtime (\<lambda>_. False)
      (sample_event ''e1'' TaskCompleted ''a'' []) sample_app_state =
    Some (True, sample_after (sample_event ''e1'' TaskCompleted ''a'' []))"
    by (rule sample_after_run) code_simp+
  show ?thesis
    using event_replay_is_noop [OF r apply_events.simps(1)] by (simp add: sample_event_def)
qed

subsection \<open>What each handler writes\<close>

text \<open>A fold of per-contract updates, row list by row list.\<close>

lemma rows_of_update:
  "rows_of (AList.update c rows s) d = (if d = c then rows else rows_of s d)"
  by (simp add: rows_of_def dget_default_def map_of_update)

lemma fold_rows:
  assumes g: "\<And>c st. srcs (g c st) =
      (if upd c then AList.update c (h c (rows_of (srcs st) c)) (srcs st) else srcs st)"
    and "distinct cids"
  shows "rows_of (srcs (fold g cids st)) c =
    (if c \<in> set cids \<and> upd c then h c (rows_of (srcs st) c) else rows_of (srcs st) c)"
  using assms(2) by (induction cids arbitrary: st) (auto simp: g rows_of_update)

lemma fold_doms:
  assumes g: "\<And>c st. srcs (g c st) =
      (if upd c then AList.update c (h c (rows_of (srcs st) c)) (srcs st) else srcs st)"
    and "set cids \<subseteq> fst ` set (srcs st)"
  shows "fst ` set (srcs (fold g cids st)) = fst ` set (srcs st)"
  using assms(2)
proof (induction cids arbitrary: st)
  case (Cons c cids)
  have "fst ` set (srcs (g c st)) = fst ` set (srcs st)"
    using Cons.prems by (auto simp: g keys_update)
  with Cons show ?case by simp
qed simp

lemma contracts_for_sub: "set (contracts_for ap en s) \<subseteq> fst ` set s"
  by (auto simp: contracts_for_def)

lemma contracts_for_keys: "fst ` set s = fst ` set s' \<Longrightarrow> contracts_for ap en s = contracts_for ap en s'"
  by (simp add: contracts_for_def)

lemma contracts_for_distinct: "wf_dict (tables ap) \<Longrightarrow> distinct (contracts_for ap en s)"
  unfolding contracts_for_def wf_dict_def
  by (intro distinct_filter) (simp add: distinct_map_filter)

definition removed_rows :: "'g applicator \<Rightarrow> runtime \<Rightarrow> string \<Rightarrow> string \<Rightarrow> row list \<Rightarrow> row list" where
  "removed_rows ap rt ref cid rows =
     (case key_field ap cid of None \<Rightarrow> rows | Some key \<Rightarrow> filter (\<lambda>r. \<not> row_is rt key ref r) rows)"

lemma remove_by_key_rows:
  assumes "wf_dict (tables ap)"
  shows "rows_of (srcs (remove_by_key ap rt ref en st)) c =
    (if c \<in> set (contracts_for ap en (srcs st)) then removed_rows ap rt ref c (rows_of (srcs st) c)
     else rows_of (srcs st) c)"
  unfolding remove_by_key_def
  by (subst fold_rows [where upd = "\<lambda>c. key_field ap c \<noteq> None" and h = "removed_rows ap rt ref"])
     (auto simp: removed_rows_def set_rows_def contracts_for_distinct [OF assms] split: option.splits)

lemma remove_by_key_doms: "fst ` set (srcs (remove_by_key ap rt ref en st)) = fst ` set (srcs st)"
  unfolding remove_by_key_def
  by (subst fold_doms [where upd = "\<lambda>c. key_field ap c \<noteq> None" and h = "removed_rows ap rt ref"])
     (auto simp: removed_rows_def set_rows_def contracts_for_sub split: option.splits)

lemma remove_by_key_log [simp]:
  "completions (remove_by_key ap rt ref en st) = completions st"
  "coverage (remove_by_key ap rt ref en st) = coverage st"
  unfolding remove_by_key_def
  by (rule fold_keeps; auto simp: set_rows_def split: option.splits)+

subsection \<open>Which contracts an event may write\<close>

definition touches :: "string set \<Rightarrow> app_state \<Rightarrow> app_state \<Rightarrow> bool" where
  "touches S st st' \<longleftrightarrow> fst ` set (srcs st') = fst ` set (srcs st) \<and>
     (\<forall>c. c \<notin> S \<longrightarrow> map_of (srcs st') c = map_of (srcs st) c)"

lemma touches_refl [simp, intro]: "touches S st st"
  by (simp add: touches_def)

lemma touches_trans: "touches S a b \<Longrightarrow> touches S b c \<Longrightarrow> touches S a c"
  by (simp add: touches_def)

lemma touches_mono: "touches S a b \<Longrightarrow> S \<subseteq> T \<Longrightarrow> touches T a b"
  by (auto simp: touches_def)

lemma touches_srcs: "srcs st' = srcs st \<Longrightarrow> touches S st st'"
  by (simp add: touches_def)

lemma touches_coverage_update [simp]: "touches S a (b\<lparr>coverage := c\<rparr>) = touches S a b"
  by (simp add: touches_def)

lemma touches_set_rows: "c \<in> S \<Longrightarrow> c \<in> fst ` set (srcs st) \<Longrightarrow> touches S st (set_rows c rows st)"
  by (auto simp: touches_def set_rows_def keys_update map_of_update)

lemma touches_map_matching:
  "c \<in> S \<Longrightarrow> c \<in> fst ` set (srcs st) \<Longrightarrow> touches S st (map_matching rt key ref f c st)"
  by (simp add: map_matching_def touches_set_rows)

lemma touches_contracts: "touches S st st' \<Longrightarrow> contracts_for ap en (srcs st') = contracts_for ap en (srcs st)"
  by (rule contracts_for_keys) (simp add: touches_def)

lemma touches_fold:
  assumes "\<And>c st. c \<in> set cids \<Longrightarrow> c \<in> fst ` set (srcs st) \<Longrightarrow> touches S st (g c st)"
    and "set cids \<subseteq> fst ` set (srcs st)"
  shows "touches S st (fold g cids st)"
  using assms
proof (induction cids arbitrary: st)
  case (Cons c cids)
  have t: "touches S st (g c st)" using Cons.prems by simp
  then have "set cids \<subseteq> fst ` set (srcs (g c st))" using Cons.prems(2) by (simp add: touches_def)
  with Cons have "touches S (g c st) (fold g cids (g c st))" by simp
  with t show ?case by (auto intro: touches_trans)
qed simp

abbreviation entity_contracts :: "'g applicator \<Rightarrow> string \<Rightarrow> app_state \<Rightarrow> string set" where
  "entity_contracts ap en st \<equiv> set (contracts_for ap en (srcs st))"

lemma touches_set_task_started: "touches (entity_contracts ap ''task'' st) st (set_task_started ap rt e st)"
  unfolding set_task_started_def
  by (rule touches_fold) (auto simp: contracts_for_sub touches_map_matching split: option.splits)

lemma touches_remove_by_key: "touches (entity_contracts ap en st) st (remove_by_key ap rt ref en st)"
  unfolding remove_by_key_def
  by (rule touches_fold) (auto simp: contracts_for_sub touches_set_rows split: option.splits)

lemma touches_complete_task:
  "touches (entity_contracts ap ''task'' st) st (complete_task ap rt ref tm via st)"
proof -
  have "touches (entity_contracts ap ''task'' s) s (remove_by_key ap rt ref ''task'' s)" for s
    by (rule touches_remove_by_key)
  then show ?thesis by (simp add: complete_task_def touches_def)
qed

lemma touches_scale_task_work:
  "touches (entity_contracts ap ''task'' st) st (scale_task_work ap rt ref f rm st)"
  unfolding scale_task_work_def
  by (rule touches_fold) (auto simp: contracts_for_sub touches_map_matching split: option.splits)

lemma touches_set_remaining:
  "touches (entity_contracts ap ''task'' st) st (set_remaining_from_originals ap rt ref orig f st)"
  unfolding set_remaining_from_originals_def
  by (rule touches_fold) (auto simp: contracts_for_sub touches_map_matching split: option.splits)

lemma touches_accumulate:
  "touches (entity_contracts ap ''task'' st) st (accumulate_pass ap rt ref obs ring en st)"
proof -
  have "touches (entity_contracts ap ''task'' st) st (complete_task ap rt ref obs via s)"
    "touches (entity_contracts ap ''task'' st) st (set_remaining_from_originals ap rt ref orig f s)"
    if "srcs s = srcs st" for s via orig f
    using touches_complete_task [of ap s rt ref obs via]
      touches_set_remaining [of ap s rt ref orig f] that by (simp_all add: touches_def)
  then show ?thesis
    by (auto simp: accumulate_pass_def Let_def)
qed

lemma touches_coverage_pass:
  assumes "apply_coverage_pass ap rt ref p obs st = Some (b, st')"
  shows "touches (entity_contracts ap ''task'' st) st st'"
  using assms by (auto simp: apply_coverage_pass_def touches_accumulate split: option.splits if_splits)

lemma touches_scalar_progress: "touches (entity_contracts ap ''task'' st) st (scalar_progress ap rt e st)"
  by (auto simp: scalar_progress_def Let_def touches_complete_task touches_scale_task_work split: option.split)

lemma touches_task_progress:
  assumes "apply_task_progress ap rt e st = Some st'"
  shows "touches (entity_contracts ap ''task'' st) st st'"
proof (cases "has_coverage_payload (payload e)")
  case False
  with assms show ?thesis by (auto simp: apply_task_progress_def touches_scalar_progress)
next
  case True
  with assms obtain b s where
    s: "apply_coverage_pass ap rt (ev_entity_ref e) (payload e) (observed_text e) st = Some (b, s)"
    and st': "st' = (if b then s else scalar_progress ap rt e s)"
    by (auto simp: apply_task_progress_def split: option.splits bool.splits prod.splits)
  note t = touches_coverage_pass [OF s]
  have "touches (entity_contracts ap ''task'' st) s (scalar_progress ap rt e s)"
    using touches_scalar_progress [of ap s rt e] by (simp add: touches_contracts [OF t])
  with t show ?thesis by (auto simp: st' intro: touches_trans)
qed

lemma touches_append_payload: "touches (entity_contracts ap en st) st (append_payload ap rt e en extra st)"
proof (cases "contracts_for ap en (srcs st)")
  case (Cons c cs)
  then have "c \<in> fst ` set (srcs st)" using contracts_for_sub [of ap en "srcs st"] by auto
  with Cons show ?thesis by (simp add: append_payload_def touches_set_rows)
qed (simp add: append_payload_def)

lemma touches_merge_inventory:
  "set cids \<subseteq> S \<Longrightarrow> set cids \<subseteq> fst ` set (srcs st) \<Longrightarrow> touches S st (merge_inventory_in ap rt p cids st)"
  by (induction ap rt p cids st rule: merge_inventory_in.induct)
     (auto simp: touches_set_rows split: option.splits)

lemma touches_derive_progress:
  assumes "derive_progress ap rt e cids st = Some st'"
  shows "touches (entity_contracts ap ''task'' st) st st'"
  using assms
proof (induction ap rt e cids st rule: derive_progress.induct)
  case (2 ap rt e cid cids st)
  let ?S = "entity_contracts ap ''task'' st"
  have ct: "touches ?S st s" if "apply_coverage_pass ap rt ref p obs st = Some (b, s)" for ref p obs b s
    by (rule touches_coverage_pass) (rule that)
  have s: "touches ?S st (complete_task ap rt ref tm via s)" "touches ?S st (scale_task_work ap rt ref f rm s)"
    if "touches ?S st s" for s ref tm via f rm
    using touches_trans [OF that] touches_complete_task [of ap s rt ref tm via]
      touches_scale_task_work [of ap s rt ref f rm] by (simp_all add: touches_contracts [OF that])
  from 2 show ?case
    by (auto simp: Let_def intro: s dest: ct split: option.splits if_splits bool.splits prod.splits)
qed simp

text \<open>The contracts the sources hold of the entity an event type names; a reading may also move the
  progress of a task.\<close>

definition event_contracts :: "'g applicator \<Rightarrow> event_type \<Rightarrow> app_state \<Rightarrow> string set" where
  "event_contracts ap t st =
     (case event_entity t of None \<Rightarrow> {} | Some en \<Rightarrow> entity_contracts ap en st) \<union>
     (if t = ObservationRecorded then entity_contracts ap ''task'' st else {})"

lemma touches_append_observation:
  assumes "append_observation ap rt e st = Some st'"
  shows "touches (entity_contracts ap ''observation'' st \<union> entity_contracts ap ''task'' st) st st'"
proof -
  let ?s = "append_payload ap rt e ''observation'' (observation_ingested_extra ap e (srcs st)) st"
  have a: "touches (entity_contracts ap ''observation'' st) st ?s" by (rule touches_append_payload)
  have "derive_progress ap rt e (contracts_for ap ''observation'' (srcs ?s)) ?s = Some st'"
    using assms by (simp add: append_observation_def Let_def)
  then have "touches (entity_contracts ap ''task'' ?s) ?s st'" by (rule touches_derive_progress)
  then have "touches (entity_contracts ap ''task'' st) ?s st'" by (simp add: touches_contracts [OF a])
  with a show ?thesis by (meson touches_mono touches_trans Un_upper1 Un_upper2)
qed

lemma touches_handle:
  assumes "handle ap rt t e st = Some st'" "t \<noteq> EntityCorrected"
  shows "touches (event_contracts ap t st) st st'"
proof -
  have inv: "touches (entity_contracts ap ''location'' st) st (merge_inventory ap rt e st)"
    unfolding merge_inventory_def
    by (rule touches_merge_inventory) (auto simp: contracts_for_sub)
  have fc: "touches (entity_contracts ap ''forecast'' st) st (update_forecast ap rt e st)"
    by (simp add: update_forecast_def touches_append_payload)
  show ?thesis
    using assms inv fc
    by (cases t)
       (auto simp: event_contracts_def touches_set_task_started touches_complete_task
          touches_append_payload touches_remove_by_key
          intro: touches_task_progress touches_append_observation)
qed

lemma touches_bump_watermark [simp]: "srcs (bump_watermark cid t st) = srcs st"
  by (auto simp: bump_watermark_def split: option.splits)

lemma advance_watermarks_srcs [simp]: "srcs (advance_watermarks ap rt e st) = srcs st"
  unfolding advance_watermarks_def by (auto intro!: fold_keeps split: option.splits)

lemma advance_watermarks_log [simp]:
  "completions (advance_watermarks ap rt e st) = completions st"
  "coverage (advance_watermarks ap rt e st) = coverage st"
proof -
  have "completions (bump_watermark cid t st) = completions st" "coverage (bump_watermark cid t st) = coverage st"
    for cid t st by (auto simp: bump_watermark_def split: option.splits)
  then show "completions (advance_watermarks ap rt e st) = completions st"
    "coverage (advance_watermarks ap rt e st) = coverage st"
    unfolding advance_watermarks_def by (auto intro!: fold_keeps split: option.splits)
qed

lemma touches_correct_existing:
  assumes "correct_existing ap rt p t cids st = Some st'" "set cids \<subseteq> fst ` set (srcs st)"
  shows "\<exists>c\<in>set cids. touches {c} st st'"
  using assms
proof (induction ap rt p t cids st rule: correct_existing.induct)
  case (2 ap rt p t cid cids st)
  have "touches {cid} st (bump_watermark cid t (set_rows cid rows st))" for rows
    using 2(4) touches_set_rows [of cid "{cid}" st rows] by (simp add: touches_def)
  with 2 show ?case by (auto split: option.splits if_splits)
qed simp

lemma candidates_sub: "set (correction_candidates ap p s) \<subseteq> fst ` set s"
  by (force simp: correction_candidates_def)

lemma touches_upsert_entity:
  "upsert_entity ap rt e st = st \<or>
   (\<exists>c\<in>set (correction_candidates ap (payload e) (srcs st)). touches {c} st (upsert_entity ap rt e st))"
proof (cases "correction_candidates ap (payload e) (srcs st)")
  case (Cons c cs)
  have "c \<in> fst ` set (srcs st)" using candidates_sub [of ap "payload e" "srcs st"] Cons by auto
  then have "touches {c} st (set_rows c rows st)" for rows by (simp add: touches_set_rows)
  then have "touches {c} st (bump_watermark c t (set_rows c rows st))" for rows t
    by (simp add: touches_def)
  with Cons touches_correct_existing [of ap rt "payload e" "parse_observed rt e" "c # cs" st]
    candidates_sub [of ap "payload e" "srcs st"]
  show ?thesis by (auto simp: upsert_entity_def split: option.splits)
qed (simp add: upsert_entity_def)

text \<open>An event writes only the collections of its own entity. Whatever the payload, applying an event
  neither adds nor drops a source collection and leaves every collection as it was except those of
  the canonical entity its type names (tasks too for a sensor reading, whose progress they carry), and a
  correction, which names no entity, changes at most one collection, one whose key column the payload
  carries.\<close>

theorem event_writes_own_entity:
  assumes "apply_event ap rt pub e st = Some (b, st')"
  shows "fst ` set (srcs st') = fst ` set (srcs st) \<and>
    (if event_type e = EntityCorrected
     then \<exists>c k. (srcs st' = srcs st \<or> key_field ap c = Some k \<and> k \<in> fst ` set (payload e)) \<and>
       (\<forall>d. d \<noteq> c \<longrightarrow> map_of (srcs st') d = map_of (srcs st) d)
     else \<forall>c. c \<notin> event_contracts ap (event_type e) st \<longrightarrow> map_of (srcs st') c = map_of (srcs st) c)"
  using assms
proof (cases rule: apply_event_cases)
  case (applied st0 st1)
  have st0: "srcs st0 = srcs st" "event_contracts ap t st0 = event_contracts ap t st" for t
    by (auto simp: applied(3) event_contracts_def split: option.splits)
  show ?thesis
  proof (cases "event_type e = EntityCorrected")
    case False
    with touches_handle [OF applied(4)] show ?thesis
      by (simp add: touches_def applied(5) st0)
  next
    case True
    then have st1: "st1 = upsert_entity ap rt e st0" using applied(4) by simp
    from touches_upsert_entity [of ap rt e st0] show ?thesis
    proof
      assume "upsert_entity ap rt e st0 = st0"
      with True st1 show ?thesis by (simp add: applied(5) st0)
    next
      assume "\<exists>c\<in>set (correction_candidates ap (payload e) (srcs st0)).
        touches {c} st0 (upsert_entity ap rt e st0)"
      then obtain c where c: "c \<in> set (correction_candidates ap (payload e) (srcs st0))"
        "touches {c} st0 st1" by (auto simp: st1)
      then obtain k where "key_field ap c = Some k" "k \<in> fst ` set (payload e)"
        by (auto simp: correction_candidates_def split: option.splits)
      with c(2) True show ?thesis unfolding touches_def by (auto simp: applied(5) st0)
    qed
  qed
qed auto

lemma event_writes_own_entity_witness:
  "fst ` set (srcs (sample_after (sample_event ''e1'' TaskStarted ''a'' []))) = {''orders''}"
proof -
  have r: "apply_event sample_applicator sample_runtime (\<lambda>_. False)
      (sample_event ''e1'' TaskStarted ''a'' []) sample_app_state =
    Some (True, sample_after (sample_event ''e1'' TaskStarted ''a'' []))"
    by (rule sample_after_run) code_simp+
  show ?thesis
    using event_writes_own_entity [OF r] by (simp add: sample_app_state_def)
qed

subsection \<open>The visibility horizon\<close>

lemma bump_watermark_value:
  "map_of (watermarks (bump_watermark cid (Some t) st)) c =
     (if c = cid then Some (case map_of (watermarks st) c of None \<Rightarrow> t | Some u \<Rightarrow> max u t)
      else map_of (watermarks st) c)"
  by (auto simp: bump_watermark_def map_of_update max_def split: option.splits)

lemma fold_bump_value:
  "map_of (watermarks (fold (\<lambda>cid. bump_watermark cid (Some t)) cids st)) c =
     (if c \<in> set cids then Some (case map_of (watermarks st) c of None \<Rightarrow> t | Some u \<Rightarrow> max u t)
      else map_of (watermarks st) c)"
  by (induction cids arbitrary: st) (auto simp: bump_watermark_value split: option.splits)

text \<open>The visibility horizon of a source is the newest observed time applied to it. An applied event
  with a readable observed time sets the watermark of every collection of its entity to the later of
  that time and the watermark before, touches no other watermark, and no event, applied or skipped,
  ever moves a watermark back.\<close>

theorem watermark_is_newest:
  assumes "apply_event ap rt pub e st = Some (b, st')"
  shows "(\<forall>c u. map_of (watermarks st) c = Some u \<longrightarrow> (\<exists>v. map_of (watermarks st') c = Some v \<and> u \<le> v)) \<and>
    (\<forall>en t c. b \<longrightarrow> event_entity (event_type e) = Some en \<longrightarrow> parse_observed rt e = Some t \<longrightarrow>
       map_of (watermarks st') c =
         (if c \<in> entity_contracts ap en st
          then Some (case map_of (watermarks st) c of None \<Rightarrow> t | Some u \<Rightarrow> max u t)
          else map_of (watermarks st) c))"
proof
  show "\<forall>c u. map_of (watermarks st) c = Some u \<longrightarrow> (\<exists>v. map_of (watermarks st') c = Some v \<and> u \<le> v)"
    using apply_event_le [OF assms] by (simp add: horizon_le_def)
  show "\<forall>en t c. b \<longrightarrow> event_entity (event_type e) = Some en \<longrightarrow> parse_observed rt e = Some t \<longrightarrow>
       map_of (watermarks st') c =
         (if c \<in> entity_contracts ap en st
          then Some (case map_of (watermarks st) c of None \<Rightarrow> t | Some u \<Rightarrow> max u t)
          else map_of (watermarks st) c)"
    using assms
  proof (cases rule: apply_event_cases)
    case (applied st0 st1)
    show ?thesis
    proof (intro allI impI)
      fix en t c
      assume en: "event_entity (event_type e) = Some en" and t: "parse_observed rt e = Some t"
      then have ne: "event_type e \<noteq> EntityCorrected" by auto
      have w: "watermarks st1 = watermarks st"
        using book_fst(2) [OF book_handle [OF applied(4) ne]] by (simp add: applied(3) split: if_splits)
      have "entity_contracts ap en st1 = entity_contracts ap en st"
        using touches_contracts [OF touches_handle [OF applied(4) ne], of ap en]
        by (simp add: applied(3) split: if_splits)
      then show "map_of (watermarks st') c =
         (if c \<in> entity_contracts ap en st
          then Some (case map_of (watermarks st) c of None \<Rightarrow> t | Some u \<Rightarrow> max u t)
          else map_of (watermarks st) c)"
        using en t by (simp add: applied(5) advance_watermarks_def fold_bump_value w)
    qed
  qed simp
qed

lemma watermark_is_newest_witness:
  "map_of (watermarks (sample_after (sample_event ''e1'' TaskStarted ''a'' []))) ''orders'' = Some 100"
proof -
  have r: "apply_event sample_applicator sample_runtime (\<lambda>_. False)
      (sample_event ''e1'' TaskStarted ''a'' []) sample_app_state =
    Some (True, sample_after (sample_event ''e1'' TaskStarted ''a'' []))"
    by (rule sample_after_run) code_simp+
  have p: "parse_observed sample_runtime (sample_event ''e1'' TaskStarted ''a'' []) = Some 100"
    by code_simp
  have c: "contracts_for sample_applicator ''task'' (srcs sample_app_state) = [''orders'']" by code_simp
  show ?thesis
    using watermark_is_newest [OF r] p c by (simp add: sample_event_def sample_app_state_def)
qed

subsection \<open>Removals\<close>

text \<open>A completed, cancelled or unavailable entity leaves its collections and takes nothing with it.
  After task.completed, order.cancelled or asset.unavailable, the rows of every collection of that
  entity are exactly the former rows whose key column does not read as the event's reference, in their
  order; every other collection is as before; and the completion log grows by one record, carrying the task,
  the observed time and the deadline its row had, for a completion and by none otherwise.\<close>

theorem removal_is_exact:
  assumes "wf_dict (tables ap)"
    and "event_type e \<in> {TaskCompleted, OrderCancelled, AssetUnavailable}"
    and "event_entity (event_type e) = Some en"
    and "apply_event ap rt pub e st = Some (True, st')"
  shows "rows_of (srcs st') c =
      (if c \<in> entity_contracts ap en st then removed_rows ap rt (ev_entity_ref e) c (rows_of (srcs st) c)
       else rows_of (srcs st) c) \<and>
    completions st' = completions st @
      (if event_type e = TaskCompleted
       then [\<lparr>c_task_id = ev_entity_ref e, c_completed_at = observed_text e, c_via = ''event'',
              c_deadline = completion_deadline ap rt (srcs st) (ev_entity_ref e)\<rparr>]
       else [])"
  using assms(4)
proof (cases rule: apply_event_cases)
  case (applied st0 st1)
  have st0: "srcs st0 = srcs st" "completions st0 = completions st" by (simp_all add: applied(3))
  have en: "en = (if event_type e = AssetUnavailable then ''asset'' else ''task'')" using assms(2,3) by auto
  have "st1 = (if event_type e = TaskCompleted
      then complete_task ap rt (ev_entity_ref e) (observed_text e) ''event'' st0
      else remove_by_key ap rt (ev_entity_ref e) en st0)"
    using assms(2) applied(4) en by auto
  then show ?thesis
    using en by (simp add: applied(5) remove_by_key_rows [OF assms(1)] complete_task_def st0)
qed (simp add: assms)

lemma removal_is_exact_witness:
  "rows_of (srcs (sample_after (sample_event ''e1'' TaskCompleted ''a'' []))) ''orders'' =
     [sample_row ''b'' 6] \<and>
   map c_deadline (completions (sample_after (sample_event ''e1'' TaskCompleted ''a'' []))) = [VStr ''t3'']"
proof -
  let ?e = "sample_event ''e1'' TaskCompleted ''a'' []"
  have r: "apply_event sample_applicator sample_runtime (\<lambda>_. False) ?e sample_app_state =
    Some (True, sample_after ?e)"
    by (rule sample_after_run) code_simp+
  have w: "wf_dict (tables sample_applicator)" by code_simp
  have t: "event_type ?e \<in> {TaskCompleted, OrderCancelled, AssetUnavailable}"
    "event_entity (event_type ?e) = Some ''task''" by (simp_all add: sample_event_def)
  have x: "contracts_for sample_applicator ''task'' (srcs sample_app_state) = [''orders'']"
    "removed_rows sample_applicator sample_runtime ''a'' ''orders'' (rows_of (srcs sample_app_state) ''orders'')
      = [sample_row ''b'' 6]"
    "completion_deadline sample_applicator sample_runtime (srcs sample_app_state) ''a'' = VStr ''t3''"
    by code_simp+
  show ?thesis
    using removal_is_exact [OF w t r, of "''orders''"] x by (simp add: sample_event_def sample_app_state_def)
qed

subsection \<open>Upserts converge\<close>

definition keyed :: "runtime \<Rightarrow> string \<Rightarrow> row \<Rightarrow> row \<Rightarrow> bool" where
  "keyed rt k p = row_is rt k (py_str rt (row_get p k))"

lemma keyed_self [simp]: "keyed rt k p p"
  by (simp add: keyed_def row_is_def)

lemma replace_first_filter:
  assumes "P y"
  shows "filter (\<lambda>x. \<not> P x) (replace_first P y xs) = filter (\<lambda>x. \<not> P x) xs"
    and "list_ex P xs \<Longrightarrow> filter P (replace_first P y xs) = y # drop 1 (filter P xs)"
  using assms by (induction xs) auto

lemma replace_first_twice:
  "P y \<Longrightarrow> replace_first P z (replace_first P y xs) = replace_first P z xs"
  by (induction xs) auto

lemma replace_first_ex: "P y \<Longrightarrow> list_ex P (replace_first P y xs) = list_ex P xs"
  by (induction xs) auto

lemma replace_first_append: "\<not> list_ex P xs \<Longrightarrow> P y \<Longrightarrow> replace_first P z (xs @ [y]) = xs @ [z]"
  by (induction xs) auto

lemma upsert_row_keyed:
  assumes "k \<in> fst ` set p"
  shows "upsert_row rt (Some k) p rows =
    (if list_ex (keyed rt k p) rows then replace_first (keyed rt k p) p rows else rows @ [p])"
  using assms by (simp add: upsert_row_def keyed_def)

lemma upsert_row_last:
  assumes "k \<in> fst ` set p" "k \<in> fst ` set q" "py_str rt (row_get p k) = py_str rt (row_get q k)"
  shows "upsert_row rt (Some k) q (upsert_row rt (Some k) p rows) = upsert_row rt (Some k) q rows"
proof -
  have e: "keyed rt k q = keyed rt k p" by (simp add: keyed_def assms(3))
  show ?thesis
    by (simp add: upsert_row_keyed assms(1,2) e replace_first_twice replace_first_ex replace_first_append)
qed

text \<open>Reports of one entity converge on the last. Two payloads with the same identifier, added one
  after the other to a collection, leave the state the second would have left alone; that collection
  then holds the last payload where its first row of that identifier was (at the end when there was
  none), its remaining rows of the identifier, and every row of another identifier, in their order.\<close>

theorem upserts_converge:
  assumes "contracts_for ap en (srcs st) = c # cs" and "key_field ap c = Some k"
    and "k \<in> fst ` set (payload e)" and "k \<in> fst ` set (payload e')"
    and "py_str rt (row_get (payload e) k) = py_str rt (row_get (payload e') k)"
  shows "append_payload ap rt e' en None (append_payload ap rt e en None st) =
      append_payload ap rt e' en None st \<and>
    (let rows = rows_of (srcs st) c; rows' = rows_of (srcs (append_payload ap rt e' en None st)) c;
         same = row_is rt k (py_str rt (row_get (payload e') k)) in
     filter same rows' = payload e' # drop 1 (filter same rows) \<and>
     filter (\<lambda>r. \<not> same r) rows' = filter (\<lambda>r. \<not> same r) rows)"
proof
  have c: "contracts_for ap en (srcs (append_payload ap rt e en None st)) = c # cs"
    using touches_contracts [OF touches_append_payload, of ap en ap rt e en None st] assms(1) by simp
  have rows: "rows_of (srcs (append_payload ap rt e en None st)) c =
      upsert_row rt (Some k) (payload e) (rows_of (srcs st) c)" for e
    using assms(1,2) by (simp add: append_payload_def set_rows_def rows_of_update fill_blanks_def)
  show "append_payload ap rt e' en None (append_payload ap rt e en None st) =
      append_payload ap rt e' en None st"
    unfolding append_payload_def [of ap rt e' en None "append_payload ap rt e en None st"] c
    using assms upsert_row_last [OF assms(3,4,5)] rows [of e]
    by (simp add: append_payload_def set_rows_def rows_of_update fill_blanks_def)
  have P: "keyed rt k (payload e') (payload e')" by simp
  show "let rows = rows_of (srcs st) c; rows' = rows_of (srcs (append_payload ap rt e' en None st)) c;
         same = row_is rt k (py_str rt (row_get (payload e') k)) in
     filter same rows' = payload e' # drop 1 (filter same rows) \<and>
     filter (\<lambda>r. \<not> same r) rows' = filter (\<lambda>r. \<not> same r) rows"
    using replace_first_filter [of "keyed rt k (payload e')", OF P, of "rows_of (srcs st) c"]
    by (auto simp: Let_def rows upsert_row_keyed assms(4) keyed_def row_is_def list_ex_iff filter_empty_conv)
qed

lemma upserts_converge_witness:
  "append_payload sample_applicator sample_runtime (sample_event ''e2'' OrderCreated [] (sample_row ''c'' 2))
     ''task'' None
     (append_payload sample_applicator sample_runtime
        (sample_event ''e1'' OrderCreated [] (sample_row ''c'' 1)) ''task'' None sample_app_state) =
   append_payload sample_applicator sample_runtime (sample_event ''e2'' OrderCreated [] (sample_row ''c'' 2))
     ''task'' None sample_app_state"
proof -
  have c: "contracts_for sample_applicator ''task'' (srcs sample_app_state) = [''orders'']"
    "key_field sample_applicator ''orders'' = Some ''id''" by code_simp+
  have p: "''id'' \<in> fst ` set (payload (sample_event ''e1'' OrderCreated [] (sample_row ''c'' 1)))"
    "''id'' \<in> fst ` set (payload (sample_event ''e2'' OrderCreated [] (sample_row ''c'' 2)))"
    by code_simp+
  have k: "py_str sample_runtime (row_get (payload (sample_event ''e1'' OrderCreated [] (sample_row ''c'' 1))) ''id'')
    = py_str sample_runtime (row_get (payload (sample_event ''e2'' OrderCreated [] (sample_row ''c'' 2))) ''id'')"
    by code_simp
  show ?thesis using upserts_converge [OF c p k] by blast
qed

subsection \<open>Partial progress\<close>

text \<open>A progress report with a negative \<open>completed_fraction\<close> makes the task's remaining work grow: nothing
  bounds the fraction from below.\<close>

theorem negative_fraction_grows_work:
  "rows_of (srcs (sample_after (sample_event ''e1'' TaskProgress ''a'' [(''completed_fraction'', VFloat (- 1))]))) ''orders'' =
     [[(''id'', VStr ''a''), (''state'', VStr ''started''), (''area'', VFloat 8), (''due'', VStr ''t3'')],
      sample_row ''b'' 6]"
  by code_simp

text \<open>A coverage entry outlives its task. After a pass over a task of 4 hectares, its cancellation, and a new
  order that reuses its identifier with 50 hectares, the next pass (which covers nothing) sets the new
  task's remaining area back to 4: the originals of the cancelled task are still the reference.\<close>

definition sample_pass :: row where
  "sample_pass = [(''covered_polygon'', VList [VList [VFloat 0, VFloat 0], VList [VFloat 0, VFloat 1],
     VList [VFloat 1, VFloat 1]])]"

theorem stale_coverage_overwrites_new_order:
  "map_option (\<lambda>st. map (\<lambda>r. row_get r ''area'') (rows_of (srcs st) ''orders''))
     (apply_events sample_applicator sample_runtime (\<lambda>_. False)
       [sample_event ''e1'' TaskProgress ''a'' sample_pass, sample_event ''e2'' OrderCancelled ''a'' [],
        sample_event ''e3'' OrderCreated ''a'' (sample_row ''a'' 50),
        sample_event ''e4'' TaskProgress ''a'' sample_pass] sample_app_state) =
   Some [VFloat 6, VFloat 4]"
  by code_simp

subsection \<open>Accumulated coverage\<close>

definition entry_ok :: "coverage_entry \<Rightarrow> bool" where
  "entry_ok en \<longleftrightarrow> 0 < original_area_ha en \<and> n_passes en = length (rings en) \<and> 0 < n_passes en"

definition report_ok :: "coverage_report \<Rightarrow> bool" where
  "report_ok r \<longleftrightarrow> 0 \<le> covered_fraction (cr_state r) \<and> covered_fraction (cr_state r) \<le> 1 \<and>
     0 \<le> covered_area_ha (cr_state r) \<and> 0 \<le> remaining_area_ha (cr_state r) \<and> 0 < cr_n_passes r"

definition cov_ok :: "app_state \<Rightarrow> bool" where
  "cov_ok st \<longleftrightarrow> wf_dict (coverage st) \<and> (\<forall>(ref, en)\<in>set (coverage st). entry_ok en) \<and>
     (\<forall>r\<in>set (coverage_reports st). report_ok r)"

definition cov :: "app_state \<Rightarrow> (string, coverage_entry) dict \<times> coverage_report list" where
  "cov st = (coverage st, coverage_reports st)"

lemma cov_ok_cov: "cov a = cov b \<Longrightarrow> cov_ok a = cov_ok b"
  by (simp add: cov_ok_def cov_def)

named_theorems cov_simps \<open>handlers that keep the coverage\<close>

lemma cov_set_rows [cov_simps]: "cov (set_rows cid rows st) = cov st"
  by (simp add: cov_def set_rows_def)

lemma cov_map_matching [cov_simps]: "cov (map_matching rt key ref f cid st) = cov st"
  by (simp add: map_matching_def cov_simps)

lemma cov_set_task_started [cov_simps]: "cov (set_task_started ap rt e st) = cov st"
  unfolding set_task_started_def
  by (rule fold_keeps) (auto simp: cov_simps split: option.splits)

lemma cov_remove_by_key [cov_simps]: "cov (remove_by_key ap rt ref en st) = cov st"
  unfolding remove_by_key_def
  by (rule fold_keeps) (auto simp: cov_simps split: option.splits)

lemma cov_complete_task [cov_simps]: "cov (complete_task ap rt ref tm via st) = cov st"
  by (simp add: complete_task_def cov_simps) (simp add: cov_def)

lemma cov_scale_task_work [cov_simps]: "cov (scale_task_work ap rt ref f rm st) = cov st"
  unfolding scale_task_work_def
  by (rule fold_keeps) (auto simp: cov_simps split: option.splits)

lemma cov_set_remaining [cov_simps]: "cov (set_remaining_from_originals ap rt ref orig f st) = cov st"
  unfolding set_remaining_from_originals_def
  by (rule fold_keeps) (auto simp: cov_simps split: option.splits)

lemma cov_append_payload [cov_simps]: "cov (append_payload ap rt e en extra st) = cov st"
  by (simp add: append_payload_def cov_simps split: list.split)

lemma cov_scalar_progress [cov_simps]: "cov (scalar_progress ap rt e st) = cov st"
  by (simp add: scalar_progress_def Let_def cov_simps split: option.split)

lemma cov_merge_inventory [cov_simps]: "cov (merge_inventory_in ap rt p cids st) = cov st"
  by (induction ap rt p cids st rule: merge_inventory_in.induct) (auto simp: cov_simps split: option.splits)

lemma cov_bump_watermark [cov_simps]: "cov (bump_watermark cid t st) = cov st"
  by (auto simp: cov_def bump_watermark_def split: option.splits)

lemma cov_advance_watermarks [cov_simps]: "cov (advance_watermarks ap rt e st) = cov st"
  unfolding advance_watermarks_def
  by (auto intro!: fold_keeps simp: cov_simps split: option.splits)

lemma cov_correct_existing: "correct_existing ap rt p t cids st = Some st' \<Longrightarrow> cov st' = cov st"
  by (induction ap rt p t cids st rule: correct_existing.induct)
     (auto simp: cov_simps split: option.splits if_splits)

lemma cov_upsert_entity [cov_simps]: "cov (upsert_entity ap rt e st) = cov st"
  by (auto simp: upsert_entity_def cov_simps dest: cov_correct_existing split: list.splits option.splits)

lemma ring_area_nonneg: "0 \<le> polygon_rings_area_km2 sh rs"
  by (simp add: polygon_rings_area_km2_def Let_def)

lemma coverage_state_bounds:
  assumes "0 < original"
  shows "0 \<le> covered_fraction (coverage_state_of ap acc original)"
    "covered_fraction (coverage_state_of ap acc original) \<le> 1"
    "0 \<le> covered_area_ha (coverage_state_of ap acc original)"
    "0 \<le> remaining_area_ha (coverage_state_of ap acc original)"
  using assms ring_area_nonneg [of "geo ap" acc]
  by (auto simp: coverage_state_of_def Let_def intro!: py_round_nonneg py_round_le_one)

lemma snd_update_all: "P v \<Longrightarrow> \<forall>(j, e)\<in>set d. P e \<Longrightarrow> \<forall>(j, e)\<in>set (AList.update k v d). P e"
  by (induction d) auto

lemma snd_delete_sub: "set (AList.delete k d) \<subseteq> set d"
  by (induction d) auto

lemma wf_dict_delete [simp]: "wf_dict d \<Longrightarrow> wf_dict (AList.delete k d)"
  by (simp add: wf_dict_def distinct_delete)

lemma cov_ok_accumulate:
  assumes "cov_ok st" "0 < original_area_ha en" "n_passes en = length (rings en)"
  shows "cov_ok (accumulate_pass ap rt ref obs ring en st)"
proof -
  let ?en = "en\<lparr>rings := rings en @ [ring], n_passes := n_passes en + 1\<rparr>"
  let ?r = "\<lparr>cr_task_id = ref, cr_observed_at = obs, cr_n_passes = n_passes ?en,
    cr_original_area_ha = py_round 4 (original_area_ha ?en),
    cr_state = coverage_state_of ap (rings ?en) (original_area_ha ?en)\<rparr>"
  let ?s = "st\<lparr>coverage := AList.update ref ?en (coverage st), coverage_reports := coverage_reports st @ [?r]\<rparr>"
  have "entry_ok ?en" using assms by (simp add: entry_ok_def)
  moreover have "report_ok ?r"
    using coverage_state_bounds [OF assms(2), of ap "rings en @ [ring]"] by (simp add: report_ok_def)
  ultimately have s: "cov_ok ?s"
    using assms(1) snd_update_all [of entry_ok ?en "coverage st" ref] by (simp add: cov_ok_def)
  have del: "cov_ok (t\<lparr>coverage := AList.delete ref (coverage t)\<rparr>)" if "cov_ok t" for t
    using that snd_delete_sub [of ref "coverage t"] by (fastforce simp: cov_ok_def)
  have "cov_ok (complete_task ap rt ref obs via ?s)"
    "cov_ok (set_remaining_from_originals ap rt ref o' f ?s)" for via o' f
    using s by (simp_all add: cov_ok_cov [OF cov_complete_task] cov_ok_cov [OF cov_set_remaining])
  then show ?thesis unfolding accumulate_pass_def Let_def by (auto intro: del)
qed

lemma cov_ok_coverage_pass:
  assumes "apply_coverage_pass ap rt ref p obs st = Some (b, st')" "cov_ok st"
  shows "cov_ok st'"
proof -
  have "0 < original_area_ha en \<and> n_passes en = length (rings en)" if "map_of (coverage st) ref = Some en" for en
    using assms(2) map_of_SomeD [OF that] by (force simp: cov_ok_def entry_ok_def)
  with assms show ?thesis
    by (auto simp: apply_coverage_pass_def intro!: cov_ok_accumulate split: option.splits if_splits)
qed

lemma cov_ok_task_progress:
  assumes "apply_task_progress ap rt e st = Some st'" "cov_ok st"
  shows "cov_ok st'"
proof (cases "has_coverage_payload (payload e)")
  case False
  with assms show ?thesis
    by (auto simp: apply_task_progress_def cov_ok_cov [OF cov_scalar_progress])
next
  case True
  with assms obtain b s where
    s: "apply_coverage_pass ap rt (ev_entity_ref e) (payload e) (observed_text e) st = Some (b, s)"
    and st': "st' = (if b then s else scalar_progress ap rt e s)"
    by (auto simp: apply_task_progress_def split: option.splits bool.splits prod.splits)
  show ?thesis
    using cov_ok_coverage_pass [OF s assms(2)] by (simp add: st' cov_ok_cov [OF cov_scalar_progress])
qed

lemma cov_ok_derive_progress:
  assumes "derive_progress ap rt e cids st = Some st'" "cov_ok st"
  shows "cov_ok st'"
  using assms
proof (induction ap rt e cids st rule: derive_progress.induct)
  case (2 ap rt e cid cids st)
  have ct: "cov_ok s" if "apply_coverage_pass ap rt ref p obs st = Some (b, s)" for ref p obs b s
    by (rule cov_ok_coverage_pass [OF that \<open>cov_ok st\<close>])
  from 2 show ?case
    by (auto simp: Let_def cov_ok_cov [OF cov_complete_task] cov_ok_cov [OF cov_scale_task_work] dest: ct
        split: option.splits if_splits bool.splits prod.splits)
qed simp

lemma cov_ok_handle:
  assumes "handle ap rt t e st = Some st'" "cov_ok st"
  shows "cov_ok st'"
proof -
  have k: "cov_ok s" if "cov s = cov st" for s using cov_ok_cov [OF that] assms(2) by simp
  have obs: "cov_ok st'" if "append_observation ap rt e st = Some st'"
    using cov_ok_derive_progress [OF that [unfolded append_observation_def Let_def] k [OF cov_append_payload]] .
  show ?thesis
  proof (cases "t = TaskProgress \<or> t = ObservationRecorded")
    case True
    with assms show ?thesis by (auto intro: cov_ok_task_progress obs)
  next
    case False
    with assms(1) have "cov st' = cov st"
      by (cases t) (auto simp: cov_simps merge_inventory_def update_forecast_def)
    then show ?thesis by (rule k)
  qed
qed

text \<open>C11: The accumulated coverage stays consistent. From a state in which every coverage entry has a
  positive reference area and as many rings as it counts passes, and every reported covered share lies
  in [0, 1] with non-negative areas, every event, whatever its payload geometry, leads to such a
  state.\<close>

theorem coverage_stays_consistent:
  assumes "cov_ok st" "apply_event ap rt pub e st = Some (b, st')"
  shows "cov_ok st'"
  using assms(2)
proof (cases rule: apply_event_cases)
  case (applied st0 st1)
  have "cov_ok st0" using assms(1) by (simp add: applied(3) cov_ok_def)
  from cov_ok_handle [OF applied(4) this] show ?thesis
    by (simp add: applied(5) cov_ok_cov [OF cov_advance_watermarks])
qed (simp add: assms)

lemma coverage_stays_consistent_witness:
  "cov_ok (sample_after (sample_event ''e1'' TaskProgress ''a'' sample_pass)) \<and>
   coverage (sample_after (sample_event ''e1'' TaskProgress ''a'' sample_pass)) \<noteq> []"
proof -
  have r: "apply_event sample_applicator sample_runtime (\<lambda>_. False)
      (sample_event ''e1'' TaskProgress ''a'' sample_pass) sample_app_state =
    Some (True, sample_after (sample_event ''e1'' TaskProgress ''a'' sample_pass))"
    by (rule sample_after_run) code_simp+
  have "cov_ok sample_app_state" by code_simp
  from coverage_stays_consistent [OF this r] show ?thesis by (intro conjI) (assumption, code_simp)
qed

end
