(* ===== verification/Dedup.thy ===== *)
theory Dedup
  imports Prelude
begin

text \<open>
  The durable event-id store (\<open>stream/dedup.py\<close>). The file is the list of its lines; an id holds no
  line break, so a line is an id. The set \<open>_seen\<close> is only tested for membership and only grows or is
  rebuilt, and is kept as a list. The locale \<open>dedup_store\<close> states what the stream layer relies on: a
  store never invents an id, and remembers what was just recorded.
\<close>

subsection \<open>The store\<close>

record dedup =
  ids :: "string list"
  seen :: "string list"
  lines_on_disk :: "string list"

text \<open>\<open>__init__\<close>: reload the ids of an existing file.\<close>

fun load_lines :: "string list \<Rightarrow> string list \<Rightarrow> string list" where
  "load_lines acc [] = rev acc"
| "load_lines acc (line # rest) =
     (let event_id = py_strip line in
      if event_id \<noteq> [] \<and> event_id \<notin> set acc then load_lines (event_id # acc) rest
      else load_lines acc rest)"

definition open_store :: "string list \<Rightarrow> dedup" where
  "open_store file = \<lparr>ids = load_lines [] file, seen = load_lines [] file, lines_on_disk = file\<rparr>"

definition contains :: "dedup \<Rightarrow> string \<Rightarrow> bool" where
  "contains s event_id \<longleftrightarrow> event_id \<in> set (seen s)"

text \<open>\<open>_ids[-n:]\<close>, which is the whole list when \<open>n\<close> is 0.\<close>

definition last_n :: "nat \<Rightarrow> 'a list \<Rightarrow> 'a list" where
  "last_n n xs = (if n = 0 then xs else drop (length xs - n) xs)"

definition compact :: "nat \<Rightarrow> dedup \<Rightarrow> dedup" where
  "compact max_ids s =
     (let keep = last_n max_ids (ids s)
      in s\<lparr>ids := keep, seen := keep, lines_on_disk := keep\<rparr>)"

fun new_ids :: "string list \<Rightarrow> string list \<Rightarrow> string list" where
  "new_ids known [] = []"
| "new_ids known (event_id # rest) =
     (if event_id \<noteq> [] \<and> event_id \<notin> set known then event_id # new_ids (event_id # known) rest
      else new_ids known rest)"

definition record_published :: "nat \<Rightarrow> string list \<Rightarrow> dedup \<Rightarrow> dedup" where
  "record_published max_ids event_ids s =
     (let fresh = new_ids (seen s) event_ids in
      if fresh = [] then s
      else let s' = s\<lparr>ids := ids s @ fresh, seen := seen s @ fresh,
                      lines_on_disk := lines_on_disk s @ fresh\<rparr>
           in if length (ids s') > max_ids then compact max_ids s' else s')"

subsection \<open>Lemmas\<close>

lemma new_ids_spec:
  "set (new_ids known xs) = {x \<in> set xs. x \<noteq> [] \<and> x \<notin> set known}"
  "distinct (new_ids known xs)"
proof -
  have s: "set (new_ids known xs) = {x \<in> set xs. x \<noteq> [] \<and> x \<notin> set known}" for known xs
    by (induction xs arbitrary: known) auto
  then show "set (new_ids known xs) = {x \<in> set xs. x \<noteq> [] \<and> x \<notin> set known}" .
  show "distinct (new_ids known xs)"
    by (induction xs arbitrary: known) (auto simp: s)
qed

text \<open>A clean id survives the round trip through the file.\<close>

definition clean :: "string \<Rightarrow> bool" where
  "clean x \<longleftrightarrow> x \<noteq> [] \<and> py_strip x = x"

lemma load_lines_clean:
  "\<forall>x\<in>set xs. clean x \<Longrightarrow> distinct (acc @ xs) \<Longrightarrow> load_lines acc xs = rev acc @ xs"
proof (induction xs arbitrary: acc)
  case (Cons x xs)
  then have "py_strip x = x" "x \<noteq> []" "x \<notin> set acc" by (auto simp: clean_def)
  with Cons.IH [of "x # acc"] Cons.prems show ?case by (simp add: Let_def)
qed simp

lemma load_lines_mem:
  "distinct acc \<Longrightarrow> \<forall>x\<in>set acc. clean x \<Longrightarrow>
   distinct (load_lines acc xs) \<and> (\<forall>x\<in>set (load_lines acc xs). clean x)"
proof (induction xs arbitrary: acc)
  case (Cons x xs)
  have "py_strip x \<noteq> [] \<Longrightarrow> clean (py_strip x)" by (simp add: clean_def)
  with Cons.IH [of "py_strip x # acc"] Cons.IH [of acc] Cons.prems show ?case by (simp add: Let_def)
qed simp

lemma load_lines_idem: "load_lines [] (load_lines [] xs) = load_lines [] xs"
  using load_lines_mem [where acc = "[]" and xs = xs] load_lines_clean [of "load_lines [] xs" "[]"] by simp

lemma load_lines_append:
  "load_lines acc (xs @ ys) = load_lines (rev (load_lines acc xs)) ys"
  by (induction xs arbitrary: acc) (simp_all add: Let_def)

lemma set_last_n: "set (last_n n xs) \<subseteq> set xs"
  by (auto simp: last_n_def dest: in_set_dropD)

text \<open>The invariant: the ids are distinct and clean, \<open>_seen\<close> holds the same ids, and reopening the
  file gives them back in order.\<close>

definition store_ok :: "dedup \<Rightarrow> bool" where
  "store_ok s \<longleftrightarrow>
     distinct (ids s) \<and> (\<forall>x\<in>set (ids s). clean x) \<and> seen s = ids s
     \<and> load_lines [] (lines_on_disk s) = ids s"

lemma open_store_ok: "store_ok (open_store file)"
  using load_lines_mem [where acc = "[]" and xs = "file"] by (simp add: store_ok_def open_store_def)

lemma record_published_ok [fl_inv]:
  assumes "store_ok s" "\<forall>x\<in>set event_ids. x \<noteq> [] \<longrightarrow> clean x"
  shows "store_ok (record_published n event_ids s)"
proof -
  let ?fresh = "new_ids (seen s) event_ids"
  let ?s = "s\<lparr>ids := ids s @ ?fresh, seen := seen s @ ?fresh, lines_on_disk := lines_on_disk s @ ?fresh\<rparr>"
  have fresh: "\<forall>x\<in>set ?fresh. clean x" "distinct ?fresh" "set ?fresh \<inter> set (ids s) = {}"
    using assms new_ids_spec [of "seen s" event_ids] by (auto simp: store_ok_def)
  have "load_lines [] (lines_on_disk s @ ?fresh) = ids s @ ?fresh"
  proof -
    have "distinct (rev (ids s) @ ?fresh)" using assms(1) fresh by (auto simp: store_ok_def)
    from load_lines_clean [OF fresh(1) this] assms(1) show ?thesis
      by (simp add: load_lines_append store_ok_def)
  qed
  with assms(1) fresh have ok: "store_ok ?s" by (auto simp: store_ok_def)
  have "store_ok (compact n t)" if "store_ok t" for t
  proof -
    have "distinct (last_n n (ids t))" "\<forall>x\<in>set (last_n n (ids t)). clean x"
      using that set_last_n [of n "ids t"] by (auto simp: store_ok_def last_n_def)
    then show ?thesis by (simp add: store_ok_def compact_def Let_def load_lines_clean)
  qed
  with ok assms(1) show ?thesis by (simp add: record_published_def Let_def)
qed

lemma record_published_sound:
  "contains (record_published n event_ids s) x \<Longrightarrow> store_ok s \<Longrightarrow> contains s x \<or> x \<in> set event_ids"
  using set_last_n [of n "ids s @ new_ids (seen s) event_ids"] new_ids_spec(1) [of "seen s" event_ids]
  by (auto simp: record_published_def contains_def compact_def Let_def store_ok_def split: if_splits)

lemma record_published_complete:
  assumes "store_ok s" "x \<in> set event_ids" "x \<noteq> []"
    and "length (ids s) + length (new_ids (seen s) event_ids) \<le> n"
  shows "contains (record_published n event_ids s) x"
proof (cases "x \<in> set (seen s)")
  case True
  with assms(4) show ?thesis by (simp add: record_published_def contains_def Let_def)
next
  case False
  then have "x \<in> set (new_ids (seen s) event_ids)" using assms(2,3) by (simp add: new_ids_spec)
  with assms(4) show ?thesis
    by (cases "new_ids (seen s) event_ids") (auto simp: record_published_def contains_def Let_def)
qed

lemma record_published_keeps:
  assumes "store_ok s" "contains s x"
    and "length (ids s) + length (new_ids (seen s) event_ids) \<le> n"
  shows "contains (record_published n event_ids s) x"
  using assms by (simp add: record_published_def contains_def Let_def)

subsection \<open>The interface of the stream layer\<close>

locale dedup_store =
  fixes member :: "'s \<Rightarrow> string \<Rightarrow> bool"
    and publish :: "string list \<Rightarrow> 's \<Rightarrow> 's"
    and ok :: "'s \<Rightarrow> bool"
    and good_id :: "string \<Rightarrow> bool"
    and room :: "'s \<Rightarrow> string list \<Rightarrow> bool"
  assumes publish_ok: "ok s \<Longrightarrow> \<forall>x\<in>set xs. good_id x \<Longrightarrow> ok (publish xs s)"
    and sound: "ok s \<Longrightarrow> member (publish xs s) x \<Longrightarrow> member s x \<or> x \<in> set xs"
    and complete: "ok s \<Longrightarrow> room s xs \<Longrightarrow> x \<in> set xs \<Longrightarrow> good_id x \<Longrightarrow> member (publish xs s) x"
    and keeps: "ok s \<Longrightarrow> room s xs \<Longrightarrow> member s x \<Longrightarrow> member (publish xs s) x"
begin

text \<open>A batch published after another, both fitting the retention: membership is exact.\<close>

lemma member_publish_iff:
  "ok s \<Longrightarrow> room s xs \<Longrightarrow> \<forall>x\<in>set xs. good_id x \<Longrightarrow>
   member (publish xs s) x \<longleftrightarrow> member s x \<or> x \<in> set xs"
  using sound complete keeps by blast

text \<open>
  Ids delivered in rounds and published unless already a member: whatever the store does with old
  ids, no id is published twice while the rounds fit the retention.
\<close>

fun rounds :: "string list list \<Rightarrow> 's \<Rightarrow> string list list \<times> 's" where
  "rounds [] s = ([], s)"
| "rounds (xs # xss) s =
     (let batch = remdups (filter (\<lambda>x. \<not> member s x) xs);
          (rest, s') = rounds xss (publish batch s)
      in (batch # rest, s'))"

fun fits :: "string list list \<Rightarrow> 's \<Rightarrow> bool" where
  "fits [] s = True"
| "fits (xs # xss) s =
     (let batch = remdups (filter (\<lambda>x. \<not> member s x) xs)
      in room s batch \<and> fits xss (publish batch s))"

lemma rounds_once:
  assumes "ok s" "\<forall>xs\<in>set xss. \<forall>x\<in>set xs. good_id x" "fits xss s"
  shows "distinct (concat (fst (rounds xss s)))
    \<and> (\<forall>x\<in>set (concat (fst (rounds xss s))). \<not> member s x)"
  using assms
proof (induction xss arbitrary: s)
  case (Cons xs xss)
  let ?batch = "remdups (filter (\<lambda>x. \<not> member s x) xs)"
  obtain rest s' where r: "rounds xss (publish ?batch s) = (rest, s')" by fastforce
  have good: "\<forall>x\<in>set ?batch. good_id x" using Cons.prems(2) by auto
  have room: "room s ?batch" and fit: "fits xss (publish ?batch s)" using Cons.prems(3) by (auto simp: Let_def)
  have "ok (publish ?batch s)" by (rule publish_ok [OF Cons.prems(1) good])
  from Cons.IH [OF this _ fit] Cons.prems(2) r
  have ih: "distinct (concat rest)" "\<forall>x\<in>set (concat rest). \<not> member (publish ?batch s) x" by auto
  have "member (publish ?batch s) x" if "x \<in> set ?batch \<or> member s x" for x
    using that complete [OF Cons.prems(1) room] keeps [OF Cons.prems(1) room] good by blast
  with ih r show ?case by (auto simp: Let_def)
qed simp

end

interpretation ds: dedup_store contains "record_published n" store_ok clean
  "\<lambda>s xs. length (ids s) + length (new_ids (seen s) xs) \<le> n" for n
proof unfold_locales
  show "store_ok (record_published n xs s)" if "store_ok s" "\<forall>x\<in>set xs. clean x" for s xs
    using that by (intro record_published_ok) auto
  show "contains s x \<or> x \<in> set xs" if "store_ok s" "contains (record_published n xs s) x" for s xs x
    using record_published_sound that by blast
  show "contains (record_published n xs s) x"
    if "store_ok s" "length (ids s) + length (new_ids (seen s) xs) \<le> n" "x \<in> set xs" "clean x" for s xs x
    using record_published_complete [OF that(1,3)] that by (simp add: clean_def)
  show "contains (record_published n xs s) x"
    if "store_ok s" "length (ids s) + length (new_ids (seen s) xs) \<le> n" "contains s x" for s xs x
    using record_published_keeps that by blast
qed

subsection \<open>Restart\<close>

lemma store_ok_reopen: "store_ok s \<Longrightarrow> open_store (lines_on_disk s) = s"
  by (cases s) (simp add: store_ok_def open_store_def)

lemma record_published_length:
  "0 < n \<Longrightarrow> length (ids (record_published n xs s)) \<le> max (length (ids s)) n"
  by (auto simp: record_published_def compact_def last_n_def Let_def)

lemma fold_published:
  assumes "store_ok s" "\<forall>xs\<in>set batches. \<forall>x\<in>set xs. x = [] \<or> clean x"
  shows "store_ok (fold (record_published n) batches s)"
    and "0 < n \<Longrightarrow> length (ids (fold (record_published n) batches s)) \<le> max (length (ids s)) n"
proof -
  show "store_ok (fold (record_published n) batches s)"
    using assms by (induction batches arbitrary: s) (auto intro!: record_published_ok)
  show "length (ids (fold (record_published n) batches s)) \<le> max (length (ids s)) n" if "0 < n"
  proof (induction batches arbitrary: s)
    case (Cons xs batches)
    from Cons [of "record_published n xs s"] record_published_length [OF that, of xs s]
    show ?case by (simp add: le_max_iff_disj) linarith
  qed simp
qed



text \<open>An id with surrounding blanks is stripped when the file is reloaded: after a restart it is not recognised.\<close>

lemma padded_id_forgotten:
  "let s = record_published 10 ['' e1''] (open_store [])
   in contains s '' e1'' \<and> \<not> contains (open_store (lines_on_disk s)) '' e1''"
  by code_simp

end
