(* ===== verification/Profiles.thy ===== *)
theory Profiles
  imports Weather
begin

text \<open>
  Optimization profiles and their composition (\<open>contracts/profile.py\<close>): the monitoring policy with
  its layered overrides, and \<open>composed_with\<close>, which folds the profiles of several active domains
  into one. A Python dictionary literal \<open>{**x, **y}\<close> is \<open>dict_merge x y\<close>. Fields a document may
  carry beyond the declared ones (\<open>extra="allow"\<close>) stay the primary profile's and are not modelled.
\<close>

subsection \<open>Dictionary merging\<close>

definition dict_merge :: "('k, 'v) dict \<Rightarrow> ('k, 'v) dict \<Rightarrow> ('k, 'v) dict" where
  "dict_merge x y = fold (\<lambda>(k, v). AList.update k v) y x"

lemma dict_merge_keys: "wf_dict y \<Longrightarrow> map fst (dict_merge x y) = map fst x @ filter (\<lambda>k. k \<notin> fst ` set x) (map fst y)"
proof (induction y arbitrary: x)
  case (Cons p y)
  obtain j u where p: "p = (j, u)" by fastforce
  from Cons.prems have w: "wf_dict y" and jy: "j \<notin> set (map fst y)" by (auto simp: wf_dict_def p)
  have filt: "filter (\<lambda>k. k \<notin> insert j K) (map fst y) = filter (\<lambda>k. k \<notin> K) (map fst y)" for K
    using jy by (intro filter_cong) auto
  show ?case
    using Cons.IH [OF w, of "AList.update j u x"] filt [of "fst ` set x"]
    by (simp add: dict_merge_def p update_keys keys_update insert_absorb)
qed (simp add: dict_merge_def)

lemma wf_dict_merge [simp]: "wf_dict x \<Longrightarrow> wf_dict (dict_merge x y)"
  unfolding dict_merge_def by (induction y arbitrary: x) auto

lemma map_of_merge:
  "wf_dict y \<Longrightarrow> map_of (dict_merge x y) k = (case map_of y k of None \<Rightarrow> map_of x k | Some v \<Rightarrow> Some v)"
proof (induction y arbitrary: x)
  case (Cons p y)
  obtain j v where p: "p = (j, v)" by fastforce
  from Cons.prems have w: "wf_dict y" and j: "j \<notin> fst ` set y" by (auto simp: wf_dict_def p)
  then have "map_of y j = None" by (simp add: map_of_eq_None_iff)
  with Cons.IH [OF w, of "AList.update j v x"] show ?case
    by (auto simp: p dict_merge_def map_of_update split: option.splits)
qed (simp add: dict_merge_def)

lemma dict_eqI: "wf_dict x \<Longrightarrow> map fst x = map fst y \<Longrightarrow> (\<And>k. map_of x k = map_of y k) \<Longrightarrow> x = y"
proof (induction x arbitrary: y)
  case (Cons p x)
  obtain k v where p: "p = (k, v)" by fastforce
  from Cons.prems(2) obtain w y' where y: "y = (k, w) # y'" "map fst x = map fst y'" by (cases y) (auto simp: p)
  have k: "k \<notin> set (map fst x)" and wf: "wf_dict x" using Cons.prems(1) by (auto simp: wf_dict_def p)
  have "map_of x j = map_of y' j" for j
  proof (cases "j = k")
    case True
    with k y(2) show ?thesis by (metis map_of_eq_None_iff set_map)
  next
    case False
    with Cons.prems(3) [of j] show ?thesis by (simp add: p y(1))
  qed
  from Cons.IH [OF wf y(2) this] Cons.prems(3) [of k] show ?case by (simp add: p y(1))
qed simp

lemma dict_merge_assoc:
  assumes "wf_dict x" "wf_dict y" "wf_dict z"
  shows "dict_merge (dict_merge x y) z = dict_merge x (dict_merge y z)"
proof (rule dict_eqI)
  show "wf_dict (dict_merge (dict_merge x y) z)" using assms by simp
  have k: "fst ` set (dict_merge x y) = fst ` set x \<union> fst ` set y"
    using arg_cong [OF dict_merge_keys [OF assms(2), of x], of set] by auto
  show "map fst (dict_merge (dict_merge x y) z) = map fst (dict_merge x (dict_merge y z))"
    using assms by (auto simp: dict_merge_keys k intro!: filter_cong)
  show "map_of (dict_merge (dict_merge x y) z) k = map_of (dict_merge x (dict_merge y z)) k" for k
    using assms by (simp add: map_of_merge split: option.split)
qed

subsection \<open>The monitoring policy\<close>

record monitoring_override =
  o_batteryLowThresholdPct :: "real option"
  o_batteryCriticalThresholdPct :: "real option"
  o_batteryForecastHorizonDays :: "real option"
  o_minObservationConfidence :: "real option"
  o_compositeHealthThreshold :: "real option"
  o_compositeWeightBattery :: "real option"
  o_compositeWeightHealth :: "real option"
  o_compositeWeightService :: "real option"
  o_compositeWeightDrift :: "real option"
  o_compositeBatteryHeadroomPct :: "real option"
  o_compositeServiceHeadroomDays :: "real option"
  o_serviceOperationType :: "string option"
  o_servicePriorityClass :: "int option"
  o_serviceDeadlineDays :: "int option"
  o_servicePenaltyPerDayEur :: "real option"
  o_serviceNominalAreaHa :: "real option"
  o_serviceDurationMinutes :: "real option"
  o_escalatedPriorityClass :: "int option"
  o_escalatedDeadlineDays :: "int option"
  o_monitorMobileAssets :: "bool option"

record monitoring_policy =
  batteryLowThresholdPct :: real
  batteryCriticalThresholdPct :: real
  batteryForecastHorizonDays :: real
  minObservationConfidence :: real
  compositeHealthThreshold :: real
  compositeWeightBattery :: real
  compositeWeightHealth :: real
  compositeWeightService :: real
  compositeWeightDrift :: real
  compositeBatteryHeadroomPct :: real
  compositeServiceHeadroomDays :: real
  serviceOperationType :: string
  servicePriorityClass :: int
  serviceDeadlineDays :: int
  servicePenaltyPerDayEur :: real
  serviceNominalAreaHa :: real
  serviceDurationMinutes :: real
  escalatedPriorityClass :: int
  escalatedDeadlineDays :: int
  monitorMobileAssets :: bool
  assetTypeOverrides :: "(string, monitoring_override) dict"
  assetOverrides :: "(string, monitoring_override) dict"

definition pick :: "'a option \<Rightarrow> 'a \<Rightarrow> 'a" where
  "pick u v = (case u of None \<Rightarrow> v | Some w \<Rightarrow> w)"

definition merged :: "monitoring_policy \<Rightarrow> monitoring_override option \<Rightarrow> monitoring_policy" where
  "merged p override =
     (case override of
        None \<Rightarrow> p
      | Some ov \<Rightarrow>
          p\<lparr>batteryLowThresholdPct := pick (o_batteryLowThresholdPct ov) (batteryLowThresholdPct p),
            batteryCriticalThresholdPct := pick (o_batteryCriticalThresholdPct ov) (batteryCriticalThresholdPct p),
            batteryForecastHorizonDays := pick (o_batteryForecastHorizonDays ov) (batteryForecastHorizonDays p),
            minObservationConfidence := pick (o_minObservationConfidence ov) (minObservationConfidence p),
            compositeHealthThreshold := pick (o_compositeHealthThreshold ov) (compositeHealthThreshold p),
            compositeWeightBattery := pick (o_compositeWeightBattery ov) (compositeWeightBattery p),
            compositeWeightHealth := pick (o_compositeWeightHealth ov) (compositeWeightHealth p),
            compositeWeightService := pick (o_compositeWeightService ov) (compositeWeightService p),
            compositeWeightDrift := pick (o_compositeWeightDrift ov) (compositeWeightDrift p),
            compositeBatteryHeadroomPct := pick (o_compositeBatteryHeadroomPct ov) (compositeBatteryHeadroomPct p),
            compositeServiceHeadroomDays := pick (o_compositeServiceHeadroomDays ov) (compositeServiceHeadroomDays p),
            serviceOperationType := pick (o_serviceOperationType ov) (serviceOperationType p),
            servicePriorityClass := pick (o_servicePriorityClass ov) (servicePriorityClass p),
            serviceDeadlineDays := pick (o_serviceDeadlineDays ov) (serviceDeadlineDays p),
            servicePenaltyPerDayEur := pick (o_servicePenaltyPerDayEur ov) (servicePenaltyPerDayEur p),
            serviceNominalAreaHa := pick (o_serviceNominalAreaHa ov) (serviceNominalAreaHa p),
            serviceDurationMinutes := pick (o_serviceDurationMinutes ov) (serviceDurationMinutes p),
            escalatedPriorityClass := pick (o_escalatedPriorityClass ov) (escalatedPriorityClass p),
            escalatedDeadlineDays := pick (o_escalatedDeadlineDays ov) (escalatedDeadlineDays p),
            monitorMobileAssets := pick (o_monitorMobileAssets ov) (monitorMobileAssets p)\<rparr>)"

text \<open>The engine-wide defaults (\<open>core/constants.py\<close>).\<close>

definition default_monitoring :: monitoring_policy where
  "default_monitoring =
     \<lparr>batteryLowThresholdPct = 20,
      batteryCriticalThresholdPct = 5,
      batteryForecastHorizonDays = 3,
      minObservationConfidence = 1 / 2,
      compositeHealthThreshold = 35 / 100,
      compositeWeightBattery = 35 / 100,
      compositeWeightHealth = 35 / 100,
      compositeWeightService = 2 / 10,
      compositeWeightDrift = 1 / 10,
      compositeBatteryHeadroomPct = 30,
      compositeServiceHeadroomDays = 30,
      serviceOperationType = ''EQUIPMENT_SERVICE'',
      servicePriorityClass = 2,
      serviceDeadlineDays = 3,
      servicePenaltyPerDayEur = 150,
      serviceNominalAreaHa = 1,
      serviceDurationMinutes = 45,
      escalatedPriorityClass = 1,
      escalatedDeadlineDays = 1,
      monitorMobileAssets = False,
      assetTypeOverrides = [], assetOverrides = []\<rparr>"

definition no_override :: monitoring_override where
  "no_override =
     \<lparr>o_batteryLowThresholdPct = None,
      o_batteryCriticalThresholdPct = None,
      o_batteryForecastHorizonDays = None,
      o_minObservationConfidence = None,
      o_compositeHealthThreshold = None,
      o_compositeWeightBattery = None,
      o_compositeWeightHealth = None,
      o_compositeWeightService = None,
      o_compositeWeightDrift = None,
      o_compositeBatteryHeadroomPct = None,
      o_compositeServiceHeadroomDays = None,
      o_serviceOperationType = None,
      o_servicePriorityClass = None,
      o_serviceDeadlineDays = None,
      o_servicePenaltyPerDayEur = None,
      o_serviceNominalAreaHa = None,
      o_serviceDurationMinutes = None,
      o_escalatedPriorityClass = None,
      o_escalatedDeadlineDays = None,
      o_monitorMobileAssets = None\<rparr>"

definition for_asset_type :: "monitoring_policy \<Rightarrow> string \<Rightarrow> monitoring_policy" where
  "for_asset_type p t = merged p (map_of (assetTypeOverrides p) t)"

definition for_asset :: "monitoring_policy \<Rightarrow> string \<Rightarrow> string \<Rightarrow> monitoring_policy" where
  "for_asset p t i =
     (let q = for_asset_type p t in merged q (map_of (assetOverrides q) i))"

definition compose_monitoring :: "monitoring_policy \<Rightarrow> monitoring_policy \<Rightarrow> monitoring_policy" where
  "compose_monitoring p other =
     p\<lparr>assetTypeOverrides := dict_merge (assetTypeOverrides other) (assetTypeOverrides p),
       assetOverrides := dict_merge (assetOverrides other) (assetOverrides p)\<rparr>"

definition compose_weather :: "weather_policy \<Rightarrow> weather_policy \<Rightarrow> weather_policy" where
  "compose_weather w other =
     \<lparr>maxWindMs = min (maxWindMs w) (maxWindMs other),
      maxRainMmPerH = min (maxRainMmPerH w) (maxRainMmPerH other),
      maxSoilMoisturePct = min (maxSoilMoisturePct w) (maxSoilMoisturePct other),
      sensitivity = dict_merge (sensitivity other) (sensitivity w),
      requireForecastCoverage = (requireForecastCoverage w \<or> requireForecastCoverage other)\<rparr>"

subsection \<open>Optimization profiles\<close>

record profile_metadata =
  pm_id :: string
  pm_version :: string
  semanticModelRef :: string

record mode_binding =
  mb_id :: string
  mb_adapter :: string

record constraint_spec =
  cs_id :: string
  cs_severity :: string
  cs_enforced :: bool

record objective_spec =
  ob_mode :: string
  ob_priorities :: "string list"

record planning_defaults =
  periodicHorizonDays :: "int option"
  rollingHorizonHours :: "int option"
  freezeWindowMinutes :: "int option"
  maxAssignmentRoutingIterations :: "int option"

record optimization_profile =
  op_apiVersion :: string
  op_kind :: string
  op_metadata :: profile_metadata
  inputContracts :: "string list"
  planningModes :: "mode_binding list"
  constraints :: "constraint_spec list"
  objectives :: "objective_spec option"
  planningDefaults :: "planning_defaults option"
  monitoring :: monitoring_policy
  op_weatherPolicy :: weather_policy
  op_materialDemand :: "(string, material_spec) dict"
  countPriority :: real
  outputContracts :: "string list"

definition adapter_for_mode :: "optimization_profile \<Rightarrow> string \<Rightarrow> string option" where
  "adapter_for_mode p mode = map_option mb_adapter (find (\<lambda>m. mb_id m = mode) (planningModes p))"

definition op_enforced_constraints :: "optimization_profile \<Rightarrow> string list" where
  "op_enforced_constraints p = map cs_id (filter cs_enforced (constraints p))"

text \<open>\<open>_union_preserving_order\<close> and the planning modes: the unseen entries of the second list follow.\<close>

fun append_new :: "('a \<Rightarrow> 'b) \<Rightarrow> 'a list \<Rightarrow> 'a list \<Rightarrow> 'a list" where
  "append_new key acc [] = acc"
| "append_new key acc (x # xs) =
     append_new key (if key x \<in> set (map key acc) then acc else acc @ [x]) xs"

definition union_preserving_order :: "string list \<Rightarrow> string list \<Rightarrow> string list" where
  "union_preserving_order primary secondary = append_new id primary secondary"

definition compose_modes :: "mode_binding list \<Rightarrow> mode_binding list \<Rightarrow> mode_binding list" where
  "compose_modes modes other = append_new mb_id modes other"

definition merge_constraint ::
  "constraint_spec \<Rightarrow> (string, constraint_spec) dict \<Rightarrow> (string, constraint_spec) dict" where
  "merge_constraint spec by_id =
     (case map_of by_id (cs_id spec) of
        None \<Rightarrow> by_id @ [(cs_id spec, spec)]
      | Some existing \<Rightarrow>
          if cs_enforced spec \<and> \<not> cs_enforced existing
          then AList.update (cs_id spec) spec by_id else by_id)"

definition merge_constraints :: "constraint_spec list \<Rightarrow> constraint_spec list \<Rightarrow> constraint_spec list" where
  "merge_constraints primary secondary =
     map snd (fold merge_constraint (primary @ secondary) [])"

definition composed_with :: "optimization_profile \<Rightarrow> optimization_profile \<Rightarrow> optimization_profile" where
  "composed_with p other =
     p\<lparr>inputContracts := union_preserving_order (inputContracts p) (inputContracts other),
       outputContracts := union_preserving_order (outputContracts p) (outputContracts other),
       planningModes := compose_modes (planningModes p) (planningModes other),
       constraints := merge_constraints (constraints p) (constraints other),
       monitoring := compose_monitoring (monitoring p) (monitoring other),
       op_weatherPolicy := compose_weather (op_weatherPolicy p) (op_weatherPolicy other),
       op_materialDemand := dict_merge (op_materialDemand other) (op_materialDemand p)\<rparr>"

text \<open>The part of a profile that enforcement reads.\<close>

definition enforcement_view :: "optimization_profile \<Rightarrow> profile" where
  "enforcement_view p =
     \<lparr>enforced_constraints = op_enforced_constraints p, weatherPolicy = op_weatherPolicy p,
      materialDemand = op_materialDemand p\<rparr>"

subsection \<open>Associativity\<close>

lemma append_new_keys: "set (map key (append_new key acc xs)) = set (map key acc) \<union> set (map key xs)"
  by (induction xs arbitrary: acc) auto

lemma append_new_snoc:
  "append_new key acc (xs @ [x]) =
     (let ys = append_new key acc xs in if key x \<in> set (map key ys) then ys else ys @ [x])"
  by (induction xs arbitrary: acc) (simp_all add: Let_def)

lemma append_new_assoc:
  "append_new key (append_new key a b) c = append_new key a (append_new key b c)"
proof (induction c arbitrary: b)
  case (Cons x c)
  have step: "append_new key (append_new key a b) [x] =
      append_new key a (if key x \<in> set (map key b) then b else b @ [x])"
  proof (cases "key x \<in> set (map key b)")
    case True
    then have "key x \<in> set (map key (append_new key a b))" by (simp only: append_new_keys) simp
    with True show ?thesis by simp
  qed (simp add: append_new_snoc Let_def)
  have "append_new key (append_new key a b) (x # c) =
      append_new key (append_new key (append_new key a b) [x]) c" by simp
  also have "\<dots> = append_new key a (append_new key (if key x \<in> set (map key b) then b else b @ [x]) c)"
    unfolding step by (rule Cons.IH)
  also have "\<dots> = append_new key a (append_new key b (x # c))" by simp
  finally show ?case .
qed simp

text \<open>The constraint that wins for one id: an enforced one beats the first.\<close>

definition stronger :: "constraint_spec \<Rightarrow> constraint_spec option \<Rightarrow> constraint_spec option" where
  "stronger s e = (case e of None \<Rightarrow> Some s
                 | Some t \<Rightarrow> if cs_enforced s \<and> \<not> cs_enforced t then Some s else Some t)"

definition keyed_ok :: "(string, constraint_spec) dict \<Rightarrow> bool" where
  "keyed_ok d \<longleftrightarrow> wf_dict d \<and> (\<forall>(k, s)\<in>set d. k = cs_id s)"

lemma merge_constraint_map_of:
  "map_of (merge_constraint s d) k = (if k = cs_id s then stronger s (map_of d k) else map_of d k)"
  by (auto simp: merge_constraint_def stronger_def map_of_update map_add_def split: option.split)

lemma merge_constraint_ok: "keyed_ok d \<Longrightarrow> keyed_ok (merge_constraint s d)"
proof -
  assume d: "keyed_ok d"
  have "\<forall>(k, v)\<in>set (AList.update (cs_id s) s d). k = cs_id v" using d unfolding keyed_ok_def
    by (induction d) (auto simp: wf_dict_def)
  with d show ?thesis
    using wf_dict_update [of d "cs_id s" s]
    by (auto simp: merge_constraint_def keyed_ok_def map_of_eq_None_iff split: option.splits)
       (simp add: wf_dict_def)
qed

lemma merge_constraint_keys:
  "map fst (merge_constraint s d) = append_new id (map fst d) [cs_id s]"
proof (cases "map_of d (cs_id s)")
  case None
  then have "cs_id s \<notin> fst ` set d" by (simp add: map_of_eq_None_iff)
  with None show ?thesis by (simp add: merge_constraint_def)
next
  case (Some t)
  then have "cs_id s \<in> fst ` set d" by (metis domI dom_map_of_conv_image_fst)
  with Some show ?thesis by (simp add: merge_constraint_def update_keys)
qed

lemma fold_constraints_keys:
  "map fst (fold merge_constraint xs d) = append_new id (map fst d) (map cs_id xs)"
proof (induction xs arbitrary: d)
  case (Cons s xs)
  then show ?case
    using append_new_assoc [of id "map fst d" "[cs_id s]" "map cs_id xs"]
    by (simp add: merge_constraint_keys)
qed simp

lemma fold_constraints_map_of:
  "map_of (fold merge_constraint xs d) k = fold stronger (filter (\<lambda>s. cs_id s = k) xs) (map_of d k)"
  by (induction xs arbitrary: d) (simp_all add: merge_constraint_map_of)

lemma fold_constraints_ok: "keyed_ok d \<Longrightarrow> keyed_ok (fold merge_constraint xs d)"
  by (induction xs arbitrary: d) (simp_all add: merge_constraint_ok)

lemma keyed_ok_filter:
  "keyed_ok d \<Longrightarrow> filter (\<lambda>s. cs_id s = k) (map snd d) = (case map_of d k of None \<Rightarrow> [] | Some s \<Rightarrow> [s])"
proof (induction d)
  case (Cons p d)
  obtain j s where p: "p = (j, s)" by fastforce
  from Cons.prems have ok: "keyed_ok d" and js: "j = cs_id s" and j: "map_of d j = None"
    by (auto simp: keyed_ok_def wf_dict_def p map_of_eq_None_iff)
  from Cons.IH [OF ok] j js show ?case by (auto simp: p)
qed simp

lemma keyed_ok_ids: "keyed_ok d \<Longrightarrow> map cs_id (map snd d) = map fst d"
  by (auto simp: keyed_ok_def)

lemma stronger_assoc: "stronger x (case v of None \<Rightarrow> e | Some w \<Rightarrow> stronger w e) =
    (case stronger x v of None \<Rightarrow> e | Some w \<Rightarrow> stronger w e)"
  by (cases v; cases e) (auto simp: stronger_def)

lemma fold_stronger: "fold stronger xs e = (case fold stronger xs None of None \<Rightarrow> e | Some v \<Rightarrow> stronger v e)"
  by (induction xs rule: rev_induct) (simp_all add: stronger_assoc)

lemma merge_constraints_absorb:
  assumes "keyed_ok d"
  shows "fold merge_constraint (map snd (fold merge_constraint xs [])) d = fold merge_constraint xs d"
proof (rule dict_eqI)
  let ?M = "fold merge_constraint xs []"
  have M: "keyed_ok ?M" by (rule fold_constraints_ok) (simp add: keyed_ok_def)
  show "wf_dict (fold merge_constraint (map snd ?M) d)"
    using fold_constraints_ok [OF assms] by (simp add: keyed_ok_def)
  show "map fst (fold merge_constraint (map snd ?M) d) = map fst (fold merge_constraint xs d)"
    using append_new_assoc [of id "map fst d" "[]" "map cs_id xs"]
    by (simp only: fold_constraints_keys keyed_ok_ids [OF M]) simp
  show "map_of (fold merge_constraint (map snd ?M) d) k = map_of (fold merge_constraint xs d) k" for k
    using fold_stronger [of "filter (\<lambda>s. cs_id s = k) xs" "map_of d k"]
    by (simp only: fold_constraints_map_of keyed_ok_filter [OF M]) (simp split: option.split)
qed

lemma merge_constraints_assoc:
  "merge_constraints (merge_constraints a b) c = merge_constraints a (merge_constraints b c)"
proof -
  have ok: "keyed_ok []" "keyed_ok (fold merge_constraint a [])"
    by (simp_all add: fold_constraints_ok keyed_ok_def [of "[]"])
  show ?thesis
    using merge_constraints_absorb [OF ok(1), of "a @ b"] merge_constraints_absorb [OF ok(2), of "b @ c"]
    by (simp add: merge_constraints_def)
qed

definition wf_profile :: "optimization_profile \<Rightarrow> bool" where
  "wf_profile p \<longleftrightarrow> wf_dict (op_materialDemand p) \<and> wf_dict (sensitivity (op_weatherPolicy p))
     \<and> wf_dict (assetTypeOverrides (monitoring p)) \<and> wf_dict (assetOverrides (monitoring p))"

definition sample_profile :: "string \<Rightarrow> string \<Rightarrow> bool \<Rightarrow> optimization_profile" where
  "sample_profile i mode enforced =
     \<lparr>op_apiVersion = ''v1'', op_kind = ''OptimizationProfile'',
      op_metadata = \<lparr>pm_id = i, pm_version = ''1'', semanticModelRef = []\<rparr>,
      inputContracts = [''assets'', i], planningModes = [\<lparr>mb_id = mode, mb_adapter = i\<rparr>],
      constraints = [\<lparr>cs_id = ''operator-qualified'', cs_severity = ''hard'', cs_enforced = enforced\<rparr>],
      objectives = None, planningDefaults = None, monitoring = default_monitoring,
      op_weatherPolicy = sample_policy, op_materialDemand = [(i, \<lparr>material = i, perAreaHa = 1\<rparr>)],
      countPriority = 1, outputContracts = []\<rparr>"

text \<open>C12: Composition of domain profiles does not depend on how the fold is bracketed: composing a third
  profile onto the composite of the first two gives, field by field and entry order included, the composite of the
  first with the composite of the other two.\<close>

theorem composition_associative:
  assumes "wf_profile p" "wf_profile q" "wf_profile r"
  shows "composed_with (composed_with p q) r = composed_with p (composed_with q r)"
proof -
  have w: "compose_weather (compose_weather a b) c = compose_weather a (compose_weather b c)"
    if "wf_dict (sensitivity a)" "wf_dict (sensitivity b)" "wf_dict (sensitivity c)" for a b c
    using that by (simp add: compose_weather_def dict_merge_assoc min.assoc)
  have m: "compose_monitoring (compose_monitoring a b) c = compose_monitoring a (compose_monitoring b c)"
    if "wf_dict (assetTypeOverrides a)" "wf_dict (assetTypeOverrides b)" "wf_dict (assetTypeOverrides c)"
      "wf_dict (assetOverrides a)" "wf_dict (assetOverrides b)" "wf_dict (assetOverrides c)" for a b c
    using that by (simp add: compose_monitoring_def dict_merge_assoc)
  show ?thesis
    using assms unfolding wf_profile_def
    by (simp add: composed_with_def w m merge_constraints_assoc union_preserving_order_def
        compose_modes_def append_new_assoc dict_merge_assoc)
qed

lemma composition_associative_witness:
  "composed_with (composed_with (sample_profile ''a'' ''rolling'' False) (sample_profile ''b'' ''periodic'' True))
     (sample_profile ''c'' ''rolling'' False) =
   composed_with (sample_profile ''a'' ''rolling'' False)
     (composed_with (sample_profile ''b'' ''periodic'' True) (sample_profile ''c'' ''rolling'' False))"
  by (rule composition_associative) code_simp+

subsection \<open>Safety of the composite\<close>

lemma fold_stronger_enforced:
  "(\<exists>s. fold stronger xs e = Some s \<and> cs_enforced s) \<longleftrightarrow>
   (\<exists>s. e = Some s \<and> cs_enforced s) \<or> (\<exists>s\<in>set xs. cs_enforced s)"
  by (induction xs arbitrary: e) (auto simp: stronger_def split: option.splits)

lemma merge_constraints_enforced:
  "i \<in> set (map cs_id (filter cs_enforced (merge_constraints a b))) \<longleftrightarrow>
   (\<exists>s\<in>set (a @ b). cs_id s = i \<and> cs_enforced s)"
proof -
  let ?M = "fold merge_constraint (a @ b) []"
  have ok: "keyed_ok ?M" by (rule fold_constraints_ok) (simp add: keyed_ok_def)
  have "i \<in> set (map cs_id (filter cs_enforced (map snd ?M))) \<longleftrightarrow>
      (\<exists>s\<in>set (filter (\<lambda>s. cs_id s = i) (map snd ?M)). cs_enforced s)" by auto
  also have "\<dots> \<longleftrightarrow> (\<exists>s. map_of ?M i = Some s \<and> cs_enforced s)"
    by (simp only: keyed_ok_filter [OF ok]) (cases "map_of ?M i", auto)
  also have "\<dots> \<longleftrightarrow> (\<exists>s\<in>set (filter (\<lambda>s. cs_id s = i) (a @ b)). cs_enforced s)"
    by (simp only: fold_constraints_map_of fold_stronger_enforced) simp
  finally show ?thesis by (auto simp: merge_constraints_def)
qed

text \<open>A composite never relaxes a domain's safety policy: its enforced constraints are exactly those either
  profile enforces; it accepts a forecast window for a set of weather dimensions exactly when both
  policies do; and it demands forecast coverage whenever one of them does.\<close>

theorem composite_never_relaxes:
  "set (op_enforced_constraints (composed_with p q)) =
      set (op_enforced_constraints p) \<union> set (op_enforced_constraints q) \<and>
    (window_ok f dims (op_weatherPolicy (composed_with p q)) \<longleftrightarrow>
       (window_ok f dims (op_weatherPolicy p) \<and> window_ok f dims (op_weatherPolicy q))) \<and>
    requireForecastCoverage (op_weatherPolicy (composed_with p q)) =
      (requireForecastCoverage (op_weatherPolicy p) \<or> requireForecastCoverage (op_weatherPolicy q))"
proof (intro conjI)
  show "set (op_enforced_constraints (composed_with p q)) =
      set (op_enforced_constraints p) \<union> set (op_enforced_constraints q)"
  proof (rule set_eqI)
    fix i
    show "i \<in> set (op_enforced_constraints (composed_with p q)) \<longleftrightarrow>
        i \<in> set (op_enforced_constraints p) \<union> set (op_enforced_constraints q)"
    proof -
      have "i \<in> set (op_enforced_constraints p) \<union> set (op_enforced_constraints q) \<longleftrightarrow>
          (\<exists>s\<in>set (constraints p @ constraints q). cs_id s = i \<and> cs_enforced s)"
        by (auto simp: op_enforced_constraints_def image_iff)
      then show ?thesis
        using merge_constraints_enforced [of i "constraints p" "constraints q"]
        by (simp add: op_enforced_constraints_def composed_with_def)
    qed
  qed
  show "window_ok f dims (op_weatherPolicy (composed_with p q)) \<longleftrightarrow>
       (window_ok f dims (op_weatherPolicy p) \<and> window_ok f dims (op_weatherPolicy q))"
    by (auto simp: composed_with_def compose_weather_def window_ok_def exceeds_def split: option.splits)
  show "requireForecastCoverage (op_weatherPolicy (composed_with p q)) =
      (requireForecastCoverage (op_weatherPolicy p) \<or> requireForecastCoverage (op_weatherPolicy q))"
    by (simp add: composed_with_def compose_weather_def)
qed

end
