(* ===== verification/Monitoring.thy ===== *)
theory Monitoring
  imports Canonical Profiles
begin

text \<open>
  Predictive maintenance (\<open>snapshot/monitoring.py\<close>): which assets need a service visit, and the
  canonical task each of them gets. The \<open>ValueError\<close> of a non-numeric service interval and the
  division by zero of a policy whose headrooms or weights are 0 are the outcome \<open>None\<close>. \<open>iso_date\<close>
  renders the date of a timestamp; \<open>datetime.min\<close> (UTC) is the timestamp \<open>-62135596800\<close>.
\<close>

subsection \<open>Text\<close>

definition lower_char :: "char \<Rightarrow> char" where
  "lower_char c = (let n = of_char c :: nat in if 65 \<le> n \<and> n \<le> 90 then char_of (n + 32) else c)"

text \<open>\<open>str.lower()\<close> on ASCII text.\<close>

definition py_lower :: "string \<Rightarrow> string" where
  "py_lower s = map lower_char s"

fun digits :: "nat \<Rightarrow> string" where
  "digits n = (if n < 10 then [char_of (48 + n)] else digits (n div 10) @ [char_of (48 + n mod 10)])"

declare digits.simps [simp del]

text \<open>\<open>f"{x:.kf}"\<close>.\<close>

definition fixed_point :: "nat \<Rightarrow> real \<Rightarrow> string" where
  "fixed_point k x =
     (let r = nat (round_half_even (\<bar>x\<bar> * 10 ^ k)); f = digits (r mod 10 ^ k) in
      (if x < 0 then ''-'' else '''') @ digits (r div 10 ^ k) @
      (if k = 0 then '''' else CHR ''.'' # replicate (k - length f) CHR ''0'' @ f))"

text \<open>\<open>s.replace("Z", "+00:00")\<close>.\<close>

definition zulu :: "string \<Rightarrow> string" where
  "zulu s = concat (map (\<lambda>c. if c = CHR ''Z'' then ''+00:00'' else [c]) s)"

fun join_with :: "string \<Rightarrow> string list \<Rightarrow> string" where
  "join_with sep [] = []"
| "join_with sep [x] = x"
| "join_with sep (x # xs) = x @ sep @ join_with sep xs"

subsection \<open>Observation series\<close>

definition observed_ts :: "observation \<Rightarrow> real" where
  "observed_ts obs = (case observed_at obs of None \<Rightarrow> - 62135596800 | Some t \<Rightarrow> t)"

type_synonym history = "(string \<times> string, observation list) dict"

definition observation_history :: "observation list \<Rightarrow> history" where
  "observation_history observations =
     map (\<lambda>(k, series). (k, sort_key observed_ts series))
       (fold (\<lambda>obs. dappend (entity_ref obs, metric obs) obs) observations [])"

definition latest_observations :: "observation list \<Rightarrow> (string \<times> string, observation) dict" where
  "latest_observations observations = map (\<lambda>(k, series). (k, last series)) (observation_history observations)"

definition confident :: "monitoring_policy \<Rightarrow> observation \<Rightarrow> bool" where
  "confident policy obs =
     (case obs_confidence obs of None \<Rightarrow> True | Some c \<Rightarrow> c \<ge> minObservationConfidence policy)"

definition series_of :: "history \<Rightarrow> asset \<Rightarrow> string \<Rightarrow> observation list" where
  "series_of history a m = dget_default history (asset_id a, m) []"

text \<open>The newest reading, when it is confident.\<close>

definition newest :: "monitoring_policy \<Rightarrow> observation list \<Rightarrow> observation option" where
  "newest policy series =
     (if series = [] \<or> \<not> confident policy (last series) then None else Some (last series))"

subsection \<open>The rules\<close>

definition battery_reason :: "asset \<Rightarrow> history \<Rightarrow> monitoring_policy \<Rightarrow> string option" where
  "battery_reason a history policy =
     (case newest policy (series_of history a ''battery-level'') of
        None \<Rightarrow> None
      | Some obs \<Rightarrow>
          (case obs_value obs of
             None \<Rightarrow> None
           | Some level \<Rightarrow>
               if level \<le> batteryCriticalThresholdPct policy
               then Some (''escalated:battery-critical:'' @ fixed_point 1 level @ ''pct'')
               else if level \<le> batteryLowThresholdPct policy
               then Some (''battery-low:'' @ fixed_point 1 level @ ''pct'') else None))"

text \<open>The confident, valued readings of the battery series, oldest first.\<close>

definition drain_readings :: "asset \<Rightarrow> history \<Rightarrow> monitoring_policy \<Rightarrow> (real \<times> real) list" where
  "drain_readings a history policy =
     List.map_filter (\<lambda>obs. case obs_value obs of None \<Rightarrow> None
                       | Some v \<Rightarrow> if confident policy obs then Some (observed_ts obs, v) else None)
       (series_of history a ''battery-level'')"

definition battery_forecast_reason :: "asset \<Rightarrow> history \<Rightarrow> monitoring_policy \<Rightarrow> string option" where
  "battery_forecast_reason a history policy =
     (let series = drain_readings a history policy in
      if length series < 2 then None
      else let (t0, v0) = hd series; (t1, v1) = last series; span_days = (t1 - t0) / 86400 in
        if span_days \<le> 0 then None
        else let drain_per_day = (v0 - v1) / span_days in
          if drain_per_day \<le> 0 then None
          else let projected = v1 - drain_per_day * batteryForecastHorizonDays policy in
            if projected \<le> batteryLowThresholdPct policy
            then Some (''battery-forecast:'' @ fixed_point 1 projected @ ''pct-in-'' @
                       fixed_point 0 (batteryForecastHorizonDays policy) @ ''d'')
            else None)"

definition health_reason :: "asset \<Rightarrow> history \<Rightarrow> monitoring_policy \<Rightarrow> string option" where
  "health_reason a history policy =
     (case newest policy (series_of history a ''health-status'') of
        None \<Rightarrow> None
      | Some obs \<Rightarrow>
          let state = py_lower (state_value obs) in
          if state = ''failed'' then Some (''escalated:health:'' @ state)
          else if state = ''degraded'' then Some (''health:'' @ state) else None)"

text \<open>Outer \<open>None\<close>: the interval does not convert; \<open>Some None\<close>: no due date.\<close>

definition service_due :: "runtime \<Rightarrow> asset \<Rightarrow> real option option" where
  "service_due rt a =
     (let last_raw = capability_value a ''urn:xopt:maintenance:last-service-at'';
          interval_days = capability_value a ''urn:xopt:maintenance:service-interval''
      in if last_raw = VNone \<or> interval_days = VNone then Some None
         else case fromisoformat rt (zulu (py_str rt last_raw)) of
                None \<Rightarrow> Some None
              | Some t \<Rightarrow> map_option (\<lambda>d. Some (t + d * 86400)) (py_float rt interval_days))"

definition service_overdue_reason ::
  "runtime \<Rightarrow> (real \<Rightarrow> string) \<Rightarrow> asset \<Rightarrow> real \<Rightarrow> string option option" where
  "service_overdue_reason rt iso_date a now =
     map_option (\<lambda>due. case due of None \<Rightarrow> None
                  | Some d \<Rightarrow> if d \<le> now then Some (''service-overdue:due-'' @ iso_date d) else None)
       (service_due rt a)"

definition clamp01 :: "real \<Rightarrow> real" where
  "clamp01 value = max 0 (min 1 value)"

definition health_score :: "string \<Rightarrow> real" where
  "health_score state =
     (case map_of [(''healthy'', 1), (''unknown'', 7 / 10), (''degraded'', 3 / 10), (''failed'', 0)] state of
        None \<Rightarrow> 7 / 10 | Some s \<Rightarrow> s)"

text \<open>The weighted signals of the composite rule; \<open>None\<close> for a headroom of 0.\<close>

definition battery_signal :: "asset \<Rightarrow> history \<Rightarrow> monitoring_policy \<Rightarrow> (real \<times> real) list option" where
  "battery_signal a history policy =
     (case newest policy (series_of history a ''battery-level'') of
        None \<Rightarrow> Some []
      | Some obs \<Rightarrow>
          (case obs_value obs of
             None \<Rightarrow> Some []
           | Some v \<Rightarrow>
               if compositeBatteryHeadroomPct policy = 0 then None
               else Some [(compositeWeightBattery policy,
                           clamp01 ((v - batteryLowThresholdPct policy) / compositeBatteryHeadroomPct policy))]))"

definition health_signal :: "asset \<Rightarrow> history \<Rightarrow> monitoring_policy \<Rightarrow> (real \<times> real) list" where
  "health_signal a history policy =
     (case newest policy (series_of history a ''health-status'') of
        None \<Rightarrow> []
      | Some obs \<Rightarrow>
          if state_value obs = [] then []
          else [(compositeWeightHealth policy, health_score (py_lower (state_value obs)))])"

definition service_signal ::
  "monitoring_policy \<Rightarrow> real \<Rightarrow> real option \<Rightarrow> (real \<times> real) list option" where
  "service_signal policy now due =
     (case due of
        None \<Rightarrow> Some []
      | Some d \<Rightarrow>
          if compositeServiceHeadroomDays policy = 0 then None
          else Some [(compositeWeightService policy,
                      clamp01 ((d - now) / 86400 / compositeServiceHeadroomDays policy))])"

definition composite_of_signals :: "monitoring_policy \<Rightarrow> (real \<times> real) list \<Rightarrow> string option option" where
  "composite_of_signals policy signals =
     (if length signals < 2 then Some None
      else let weight = sum_list (map fst signals) in
        if weight = 0 then None
        else let s = sum_list (map (\<lambda>(w, s). w * s) signals) / weight in
          Some (if s < compositeHealthThreshold policy
                then Some (''composite-health:'' @ fixed_point 2 s) else None))"

definition composite_reason ::
  "runtime \<Rightarrow> asset \<Rightarrow> history \<Rightarrow> monitoring_policy \<Rightarrow> real \<Rightarrow> string list \<Rightarrow> string option option" where
  "composite_reason rt a history policy now drifting =
     (case battery_signal a history policy of
        None \<Rightarrow> None
      | Some battery \<Rightarrow>
          (case service_due rt a of
             None \<Rightarrow> None
           | Some due \<Rightarrow>
               (case service_signal policy now due of
                  None \<Rightarrow> None
                | Some service \<Rightarrow>
                    composite_of_signals policy
                      (battery @ health_signal a history policy @ service @
                       (if drifting = [] then [] else [(compositeWeightDrift policy, 0)])))))"

subsection \<open>Service tasks\<close>

definition option_list :: "'a option \<Rightarrow> 'a list" where
  "option_list v = (case v of None \<Rightarrow> [] | Some x \<Rightarrow> [x])"

text \<open>The reasons of the individual rules, then the composite rule's when there is none.\<close>

definition rule_reasons ::
  "runtime \<Rightarrow> (real \<Rightarrow> string) \<Rightarrow> asset \<Rightarrow> history \<Rightarrow> monitoring_policy \<Rightarrow> real \<Rightarrow> string list
   \<Rightarrow> string list option" where
  "rule_reasons rt iso_date a history policy now drifting =
     map_option (\<lambda>overdue.
       option_list (battery_reason a history policy) @
       (case battery_reason a history policy of
          Some _ \<Rightarrow> [] | None \<Rightarrow> option_list (battery_forecast_reason a history policy)) @
       option_list (health_reason a history policy) @ option_list overdue @
       map (\<lambda>m. ''calibration:'' @ m @ ''-drift'') drifting)
       (service_overdue_reason rt iso_date a now)"

definition asset_reasons ::
  "runtime \<Rightarrow> (real \<Rightarrow> string) \<Rightarrow> asset \<Rightarrow> history \<Rightarrow> monitoring_policy \<Rightarrow> real \<Rightarrow> string list
   \<Rightarrow> string list option" where
  "asset_reasons rt iso_date a history policy now drifting =
     (case rule_reasons rt iso_date a history policy now drifting of
        None \<Rightarrow> None
      | Some [] \<Rightarrow> map_option option_list (composite_reason rt a history policy now drifting)
      | Some rs \<Rightarrow> Some rs)"

definition escalated_reason :: "string \<Rightarrow> bool" where
  "escalated_reason r = prefix ''escalated:'' r"

definition service_task ::
  "asset \<Rightarrow> string \<Rightarrow> monitoring_policy \<Rightarrow> real \<Rightarrow> string list \<Rightarrow> task" where
  "service_task a depot policy now reasons =
     (let escalated = list_ex escalated_reason reasons in
      \<lparr>tk_id = ''service-'' @ asset_id a, tk_order_id = ''monitoring-'' @ asset_id a,
       tk_alternative_group_ref = [], tk_operation_type = serviceOperationType policy,
       tk_location_ref = depot, tk_area_ha = Some (serviceNominalAreaHa policy),
       tk_work_area_geometry = [], tk_covered_geometry = [], tk_work_quantity = None,
       tk_work_quantity_unit = [],
       tk_service_duration_minutes = Some (py_int (serviceDurationMinutes policy)),
       tk_load_demand_kg = None, tk_load_material = [], tk_pickup_location_ref = None,
       tk_time_windows = [], tk_depends_on_task_ref = None,
       tk_deadline = Some (now + real_of_int (if escalated then escalatedDeadlineDays policy
                                              else serviceDeadlineDays policy) * 86400),
       tk_priority_class = (if escalated then escalatedPriorityClass policy else servicePriorityClass policy),
       tk_mandatory = False, tk_requirements = [], tk_material_requirements = [],
       tk_revenue_value_eur = 0, tk_penalty_per_day_eur = servicePenaltyPerDayEur policy,
       tk_status = ''pending'',
       tk_source_ref = ''monitoring:'' @ asset_id a @ '':'' @ join_with '','' reasons\<rparr>)"

definition monitored :: "monitoring_policy \<Rightarrow> asset \<Rightarrow> bool" where
  "monitored policy a \<longleftrightarrow> mobility a = ''stationary'' \<or> monitorMobileAssets policy"

definition anchor :: "asset \<Rightarrow> string option" where
  "anchor a = (case home_depot_ref a of Some (c # cs) \<Rightarrow> Some (c # cs) | _ \<Rightarrow> None)"

definition service_task_for ::
  "runtime \<Rightarrow> (real \<Rightarrow> string) \<Rightarrow> history \<Rightarrow> monitoring_policy \<Rightarrow> real \<Rightarrow> (string, string list) dict
   \<Rightarrow> asset \<Rightarrow> task option option" where
  "service_task_for rt iso_date history policy now needs a =
     (let effective = for_asset policy (asset_type a) (asset_id a) in
      if \<not> monitored effective a then Some None
      else case asset_reasons rt iso_date a history effective now (dget_default needs (asset_id a) []) of
             None \<Rightarrow> None
           | Some [] \<Rightarrow> Some None
           | Some reasons \<Rightarrow>
               Some (map_option (\<lambda>depot. service_task a depot effective now reasons) (anchor a)))"

fun derive_loop ::
  "runtime \<Rightarrow> (real \<Rightarrow> string) \<Rightarrow> history \<Rightarrow> monitoring_policy \<Rightarrow> real \<Rightarrow> (string, string list) dict
   \<Rightarrow> asset list \<Rightarrow> task list option" where
  "derive_loop rt iso_date history policy now needs [] = Some []"
| "derive_loop rt iso_date history policy now needs (a # rest) =
     (case service_task_for rt iso_date history policy now needs a of
        None \<Rightarrow> None
      | Some t \<Rightarrow> map_option (\<lambda>ts. option_list t @ ts)
                    (derive_loop rt iso_date history policy now needs rest))"

definition derive_service_tasks ::
  "runtime \<Rightarrow> (real \<Rightarrow> string) \<Rightarrow> asset list \<Rightarrow> observation list \<Rightarrow> real \<Rightarrow> monitoring_policy
   \<Rightarrow> (string, string list) dict \<Rightarrow> task list option" where
  "derive_service_tasks rt iso_date assets observations now policy needs =
     derive_loop rt iso_date (observation_history observations) policy now needs assets"

subsection \<open>Series are grouped and sorted\<close>

lemma grouped_series:
  "map_of (fold (\<lambda>obs. dappend (entity_ref obs, metric obs) obs) observations d) k =
     (if map_of d k = None \<and> filter (\<lambda>o'. (entity_ref o', metric o') = k) observations = [] then None
      else Some (dget_default d k [] @ filter (\<lambda>o'. (entity_ref o', metric o') = k) observations))"
  by (induction observations arbitrary: d)
     (auto simp: dappend_def map_of_update dget_default_def split: option.splits)

lemma observation_history_map_of:
  "map_of (observation_history observations) k =
     (let series = filter (\<lambda>o'. (entity_ref o', metric o') = k) observations in
      if series = [] then None else Some (sort_key observed_ts series))"
  unfolding observation_history_def map_of_map
  by (simp add: grouped_series dget_default_def Let_def)

lemma sort_key_Nil [simp]: "sort_key f xs = [] \<longleftrightarrow> xs = []"
  by (metis length_0_conv length_sort)

lemma last_sorted: "xs \<noteq> [] \<Longrightarrow> x \<in> set xs \<Longrightarrow> f x \<le> f (last (sort_key f xs))"
proof -
  assume xs: "xs \<noteq> []" "x \<in> set xs"
  let ?s = "sort_key f xs"
  have s: "?s \<noteq> []" "x \<in> set ?s" "sorted (map f ?s)" using xs by auto
  have last: "?s = butlast ?s @ [last ?s]" using s(1) by simp
  have "sorted (map f (butlast ?s @ [last ?s]))" using s(3) last by simp
  then have "\<forall>y\<in>set (butlast ?s). f y \<le> f (last ?s)" by (simp add: sorted_append)
  moreover have "x \<in> set (butlast ?s) \<or> x = last ?s" using s(2) last by (metis Un_iff insert_iff set_append list.set(2) empty_iff list.set(1))
  ultimately show ?thesis by auto
qed

lemma latest_observations_map_of:
  "map_of (latest_observations observations) k =
     (let series = filter (\<lambda>o'. (entity_ref o', metric o') = k) observations in
      if series = [] then None else Some (last (sort_key observed_ts series)))"
  unfolding latest_observations_def map_of_map by (simp add: observation_history_map_of Let_def)

text \<open>The latest observation of an entity and metric is a reading of them that no other one of theirs postdates, and
  one is reported exactly when there is a reading.\<close>

theorem latest_observation_is_newest:
  "case map_of (latest_observations observations) (e, m) of
     None \<Rightarrow> \<forall>obs\<in>set observations. (entity_ref obs, metric obs) \<noteq> (e, m)
   | Some n \<Rightarrow> n \<in> set observations \<and> entity_ref n = e \<and> metric n = m \<and>
       (\<forall>obs\<in>set observations. (entity_ref obs, metric obs) = (e, m) \<longrightarrow> observed_ts obs \<le> observed_ts n)"
proof (cases "filter (\<lambda>o'. (entity_ref o', metric o') = (e, m)) observations")
  case Nil
  then show ?thesis by (auto simp: latest_observations_map_of filter_empty_conv)
next
  case (Cons o1 os)
  let ?xs = "filter (\<lambda>o'. (entity_ref o', metric o') = (e, m)) observations"
  have ne: "?xs \<noteq> []" using Cons by simp
  have "last (sort_key observed_ts ?xs) \<in> set (sort_key observed_ts ?xs)"
    using ne by (intro last_in_set) simp
  then have mem: "last (sort_key observed_ts ?xs) \<in> set ?xs" by simp
  moreover have "observed_ts x \<le> observed_ts (last (sort_key observed_ts ?xs))" if "x \<in> set ?xs" for x
    by (rule last_sorted [OF ne that])
  ultimately show ?thesis using ne by (auto simp: latest_observations_map_of)
qed

definition sample_reading :: "string \<Rightarrow> string \<Rightarrow> real \<Rightarrow> real option \<Rightarrow> real option \<Rightarrow> observation" where
  "sample_reading e m t v c =
     \<lparr>observation_id = ''o'', entity_ref = e, metric = m, obs_value = v, state_value = [],
      obs_unit = None, observed_at = Some t, ingested_at = None, quality_flag = [],
      obs_confidence = c, obs_source_ref = [], window_min = None, window_mean = None,
      window_max = None, window_n = None\<rparr>"

definition sample_station :: "string \<Rightarrow> asset" where
  "sample_station i =
     \<lparr>asset_id = i, asset_type = ''station'', roles = [], asset_status = ''active'',
      mobility = ''stationary'', capabilities = [], asset_location = None,
      home_depot_ref = Some ''d1'', availability = [], asset_name = [], asset_source_ref = [],
      asset_valid_from = None, asset_valid_to = None\<rparr>"

lemma latest_observation_is_newest_witness:
  "\<exists>n. map_of (latest_observations
      [sample_reading ''s1'' ''battery-level'' 100 (Some 3) None,
       sample_reading ''s1'' ''battery-level'' 0 (Some 50) None]) (''s1'', ''battery-level'') = Some n \<and>
     observed_ts n \<ge> 100"
proof -
  let ?obs = "[sample_reading ''s1'' ''battery-level'' 100 (Some 3) None,
       sample_reading ''s1'' ''battery-level'' 0 (Some 50) None]"
  show ?thesis
    using latest_observation_is_newest [of ?obs "''s1''" "''battery-level''"]
    by (cases "map_of (latest_observations ?obs) (''s1'', ''battery-level'')")
       (auto simp: sample_reading_def observed_ts_def)
qed

subsection \<open>Who is serviced\<close>

lemma series_of_observations:
  "series_of (observation_history observations) a m =
     sort_key observed_ts (filter (\<lambda>o'. (entity_ref o', metric o') = (asset_id a, m)) observations)"
  by (simp add: series_of_def dget_default_def observation_history_map_of Let_def)

lemma newest_Some:
  "newest policy series = Some obs \<Longrightarrow> obs \<in> set series \<and> confident policy obs"
  by (auto simp: newest_def split: if_splits)

lemma newest_untrusted:
  assumes "\<forall>obs\<in>set observations. entity_ref obs = asset_id a \<longrightarrow> \<not> confident policy obs"
  shows "newest policy (series_of (observation_history observations) a m) = None"
proof (rule ccontr)
  assume "newest policy (series_of (observation_history observations) a m) \<noteq> None"
  then obtain obs where "newest policy (series_of (observation_history observations) a m) = Some obs" by auto
  from newest_Some [OF this] assms show False by (auto simp: series_of_observations)
qed

text \<open>An asset whose every reading stays below the policy's minimum confidence, that has no maintenance schedule and
  no drifting metric, gets no service task, whatever its readings say.\<close>

theorem untrusted_readings_derive_nothing:
  assumes "\<forall>obs\<in>set observations. entity_ref obs = asset_id a \<longrightarrow>
      \<not> confident (for_asset policy (asset_type a) (asset_id a)) obs"
    and "service_due rt a = Some None" and "dget_default needs (asset_id a) [] = []"
  shows "service_task_for rt iso_date (observation_history observations) policy now needs a = Some None"
proof -
  let ?p = "for_asset policy (asset_type a) (asset_id a)"
  let ?h = "observation_history observations"
  have n: "newest ?p (series_of ?h a m) = None" for m by (rule newest_untrusted [OF assms(1)])
  have "drain_readings a ?h ?p = []"
  proof -
    have "\<forall>obs\<in>set (series_of ?h a ''battery-level''). \<not> confident ?p obs"
      using assms(1) by (auto simp: series_of_observations)
    then show ?thesis
      unfolding drain_readings_def
      by (induction "series_of ?h a ''battery-level''") (auto simp: List.map_filter_def split: option.splits)
  qed
  then have f: "battery_forecast_reason a ?h ?p = None" by (simp add: battery_forecast_reason_def)
  show ?thesis
    using assms(2,3)
    by (simp add: service_task_for_def Let_def asset_reasons_def rule_reasons_def option_list_def n f
        battery_reason_def health_reason_def service_overdue_reason_def composite_reason_def
        battery_signal_def health_signal_def service_signal_def composite_of_signals_def)
qed

lemma untrusted_readings_derive_nothing_witness:
  "service_task_for sample_runtime (\<lambda>_. ''day'') (observation_history
      [sample_reading ''s1'' ''battery-level'' 100 (Some 1) (Some (1 / 10))]) default_monitoring 200 []
      (sample_station ''s1'') = Some None"
proof (rule untrusted_readings_derive_nothing)
  show "\<forall>obs\<in>set [sample_reading ''s1'' ''battery-level'' 100 (Some 1) (Some (1 / 10))].
      entity_ref obs = asset_id (sample_station ''s1'') \<longrightarrow>
      \<not> confident (for_asset default_monitoring (asset_type (sample_station ''s1'')) (asset_id (sample_station ''s1''))) obs"
    by code_simp
qed code_simp+

lemma derive_loop_mem:
  assumes "derive_loop rt iso_date history policy now needs assets = Some ts" "a \<in> set assets"
    and "service_task_for rt iso_date history policy now needs a = Some (Some t)"
  shows "t \<in> set ts"
  using assms by (induction assets arbitrary: ts) (auto simp: option_list_def split: option.splits)

lemma derive_loop_ids:
  assumes "derive_loop rt iso_date history policy now needs assets = Some ts"
  shows "set (map tk_id ts) \<subseteq> (\<lambda>a. ''service-'' @ asset_id a) ` set assets"
    and "distinct (map asset_id assets) \<Longrightarrow> distinct (map tk_id ts)"
proof -
  have one: "tk_id t = ''service-'' @ asset_id a"
    if "service_task_for rt iso_date history policy now needs a = Some (Some t)" for a t
    using that by (auto simp: service_task_for_def service_task_def Let_def anchor_def
        split: option.splits if_splits list.splits)
  have sub': "tk_id t \<in> (\<lambda>a. ''service-'' @ asset_id a) ` set as"
    if "derive_loop rt iso_date history policy now needs as = Some us" "t \<in> set us" for as us t
    using that
  proof (induction as arbitrary: us)
    case (Cons a as)
    then obtain x vs where s: "service_task_for rt iso_date history policy now needs a = Some x"
      "derive_loop rt iso_date history policy now needs as = Some vs" "us = option_list x @ vs"
      by (auto split: option.splits)
    from Cons.prems(2) s(3) consider "x = Some t" | "t \<in> set vs"
      by (cases x) (auto simp: option_list_def)
    then show ?case
    proof cases
      case 1
      with one s(1) have "tk_id t = ''service-'' @ asset_id a" by simp
      then show ?thesis by simp
    next
      case 2
      from Cons.IH [OF s(2) this] show ?thesis by auto
    qed
  qed simp
  show "set (map tk_id ts) \<subseteq> (\<lambda>a. ''service-'' @ asset_id a) ` set assets"
    using sub' [OF assms] by auto
  show "distinct (map asset_id assets) \<Longrightarrow> distinct (map tk_id ts)"
    using assms
  proof (induction assets arbitrary: ts)
    case (Cons a assets)
    then obtain t us where s: "service_task_for rt iso_date history policy now needs a = Some t"
      "derive_loop rt iso_date history policy now needs assets = Some us" "ts = option_list t @ us"
      by (auto split: option.splits)
    have "distinct (map tk_id us)" using Cons s by simp
    moreover have "tk_id u \<noteq> ''service-'' @ asset_id a" if "u \<in> set us" for u
      using sub' [OF s(2) that] Cons.prems(1) by auto
    moreover have "tk_id x = ''service-'' @ asset_id a" if "t = Some x" for x using one s(1) that by simp
    ultimately show ?case
      unfolding s(3) by (cases t) (force simp: option_list_def simp del: append.simps)+
  qed simp
qed

text \<open>A critical battery is always answered. When the newest battery reading of a monitored, anchored asset is confident and
  at or below the critical threshold of the asset's own layered policy, the derived tasks contain one for the
  asset, at its anchor, with the escalated deadline and priority; and no two derived tasks share an id
  when the assets do not.\<close>

theorem critical_battery_escalates:
  assumes "derive_service_tasks rt iso_date assets observations now policy needs = Some ts"
    and "a \<in> set assets" and "distinct (map asset_id assets)"
    and "effective = for_asset policy (asset_type a) (asset_id a)"
    and "monitored effective a" and "anchor a = Some depot"
    and "map_of (latest_observations observations) (asset_id a, ''battery-level'') = Some obs"
    and "confident effective obs" and "obs_value obs = Some level"
    and "level \<le> batteryCriticalThresholdPct effective"
  shows "distinct (map tk_id ts) \<and>
    (\<exists>t\<in>set ts. tk_id t = ''service-'' @ asset_id a \<and> tk_location_ref t = depot \<and>
       tk_deadline t = Some (now + real_of_int (escalatedDeadlineDays effective) * 86400) \<and>
       tk_priority_class t = escalatedPriorityClass effective)"
proof
  let ?h = "observation_history observations"
  have d: "derive_loop rt iso_date ?h policy now needs assets = Some ts"
    using assms(1) by (simp add: derive_service_tasks_def)
  show "distinct (map tk_id ts)" by (rule derive_loop_ids(2) [OF d assms(3)])
  let ?xs = "filter (\<lambda>o'. (entity_ref o', metric o') = (asset_id a, ''battery-level'')) observations"
  have "?xs \<noteq> []" "obs = last (sort_key observed_ts ?xs)"
    using assms(7) by (auto simp: latest_observations_map_of Let_def split: if_splits)
  then have n: "newest effective (series_of ?h a ''battery-level'') = Some obs"
    using assms(8) by (simp add: newest_def series_of_observations)
  let ?r = "''escalated:battery-critical:'' @ fixed_point 1 level @ ''pct''"
  have b: "battery_reason a ?h effective = Some ?r"
    using assms(9,10) by (simp add: battery_reason_def n)
  obtain x where x: "service_task_for rt iso_date ?h policy now needs a = Some x"
    using d assms(2)
    by (induction assets arbitrary: ts) (auto split: option.splits)
  then obtain rs where rs: "asset_reasons rt iso_date a ?h effective now (dget_default needs (asset_id a) []) = Some (?r # rs)"
    and t: "x = Some (service_task a depot effective now (?r # rs))"
    using assms(5,6) unfolding service_task_for_def Let_def assms(4) [symmetric]
    by (auto simp: asset_reasons_def rule_reasons_def b option_list_def split: option.splits)
  have "service_task a depot effective now (?r # rs) \<in> set ts"
    by (rule derive_loop_mem [OF d assms(2)]) (simp add: x t)
  then show "\<exists>t\<in>set ts. tk_id t = ''service-'' @ asset_id a \<and> tk_location_ref t = depot \<and>
       tk_deadline t = Some (now + real_of_int (escalatedDeadlineDays effective) * 86400) \<and>
       tk_priority_class t = escalatedPriorityClass effective"
    by (intro bexI) (auto simp: service_task_def Let_def escalated_reason_def)
qed

definition sample_derived :: "task list" where
  "sample_derived =
     (case derive_service_tasks sample_runtime (\<lambda>_. ''day'') [sample_station ''s1'']
        [sample_reading ''s1'' ''battery-level'' 0 (Some 3) None] 100 default_monitoring [] of
        None \<Rightarrow> [] | Some ts \<Rightarrow> ts)"

lemma critical_battery_escalates_witness:
  "\<exists>t\<in>set sample_derived. tk_id t = ''service-s1'' \<and> tk_deadline t = Some (100 + 86400)"
proof -
  let ?a = "sample_station ''s1''" and ?o = "sample_reading ''s1'' ''battery-level'' 0 (Some 3) None"
  let ?p = "for_asset default_monitoring (asset_type ?a) (asset_id ?a)"
  have d: "derive_service_tasks sample_runtime (\<lambda>_. ''day'') [?a] [?o] 100 default_monitoring [] =
      Some sample_derived" by code_simp
  have a: "?a \<in> set [?a]" "distinct (map asset_id [?a])" by simp_all
  have m: "monitored ?p ?a" "anchor ?a = Some ''d1''"
    "map_of (latest_observations [?o]) (asset_id ?a, ''battery-level'') = Some ?o"
    "confident ?p ?o" "obs_value ?o = Some 3" "3 \<le> batteryCriticalThresholdPct ?p"
    "escalatedDeadlineDays ?p = 1" "asset_id ?a = ''s1''"
    by code_simp+
  from critical_battery_escalates [OF d a refl m(1-6)] m(7,8) show ?thesis by auto
qed

text \<open>A newest reading below the minimum confidence hides the confident ones before it: the battery stood at 1 percent
  in a trusted reading, the next reading is distrusted, and no task is derived.\<close>

theorem distrusted_reading_hides_trusted_one:
  "derive_service_tasks sample_runtime (\<lambda>_. ''day'') [sample_station ''s1'']
     [sample_reading ''s1'' ''battery-level'' 0 (Some 1) (Some 1)] 200 default_monitoring [] \<noteq> Some [] \<and>
   derive_service_tasks sample_runtime (\<lambda>_. ''day'') [sample_station ''s1'']
     [sample_reading ''s1'' ''battery-level'' 0 (Some 1) (Some 1),
      sample_reading ''s1'' ''battery-level'' 100 (Some 90) (Some (1 / 10))] 200 default_monitoring [] = Some []"
  by (intro conjI) code_simp+

end
