(* ===== verification/Rolling.thy ===== *)
theory Rolling
  imports Monitoring Airspace
begin

text \<open>
  The rolling-dispatch adapter (\<open>adapters/rolling/corrective.py\<close>, \<open>compiler.py\<close>, \<open>normalizer.py\<close>,
  \<open>state.py\<close>, the conversions of \<open>adapters/base.py\<close> and \<open>ortools_rolling.py\<close>): which assignments of
  the previous revision are frozen, carried or released, the corrective actions recorded, the tasks
  that are solved again with the busy windows of the held assets, and the new revision. A Python set
  is a list without duplicates; its iteration order is not specified by the language, and no theorem
  depends on the order chosen here. The solver chain, the bundle hash, the identifiers and the clock
  are arguments.
\<close>

subsection \<open>Corrective detection\<close>

definition is_service_task_id :: "string \<Rightarrow> bool" where
  "is_service_task_id t = prefix ''service-'' t"

definition contains_text :: "string \<Rightarrow> string \<Rightarrow> bool" where
  "contains_text needle s = sublist needle s"

definition service_task_reasons :: "planning_snapshot \<Rightarrow> (string, string) dict" where
  "service_task_reasons snapshot =
     fold (\<lambda>t. AList.update (tk_id t) (tk_source_ref t))
       (filter (\<lambda>t. prefix ''monitoring-'' (tk_order_id t)) (sn_tasks snapshot)) []"

definition service_asset_id :: "string \<Rightarrow> string" where
  "service_asset_id t = drop (length ''service-'') t"

definition current_readings :: "planning_snapshot \<Rightarrow> string \<Rightarrow> (string, py_val) dict" where
  "current_readings snapshot asset =
     (let latest = latest_observations (sn_observations snapshot);
          battery = (case map_of latest (asset, ''battery-level'') of
                       None \<Rightarrow> []
                     | Some obs \<Rightarrow> (case obs_value obs of None \<Rightarrow> [] | Some v \<Rightarrow> [(''battery_level_pct'', VFloat v)]));
          health = (case map_of latest (asset, ''health-status'') of
                      None \<Rightarrow> []
                    | Some obs \<Rightarrow> if state_value obs = [] then [] else [(''health_status'', VStr (state_value obs))])
      in battery @ health)"

definition lost_assets :: "assignment \<Rightarrow> string list \<Rightarrow> string list" where
  "lost_assets a available = sort (remdups (filter (\<lambda>i. i \<notin> set available) (asset_ids a)))"

text \<open>\<open>str\<close> of a list of strings.\<close>

definition text_list :: "runtime \<Rightarrow> string list \<Rightarrow> string" where
  "text_list rt xs = py_str rt (VList (map VStr xs))"

definition asset_loss_action :: "runtime \<Rightarrow> string \<Rightarrow> string \<Rightarrow> assignment \<Rightarrow> string list \<Rightarrow> corrective_action" where
  "asset_loss_action rt before after a lost =
     \<lparr>ca_action = REASSIGNED_AFTER_ASSET_LOSS, ca_task_id = as_task_id a,
      ca_detail = before @ text_list rt lost @ after,
      evidence = [(''lost_assets'', VList (map VStr lost)), (''bundle_id'', VStr (bundle_id a))]\<rparr>"

text \<open>The lost assets of a frozen task, when its assignment is known and the task still exists.\<close>

definition released :: "(string, assignment) dict \<Rightarrow> string list \<Rightarrow> string list \<Rightarrow> string \<Rightarrow> bool" where
  "released previous_by_task available current t =
     (case map_of previous_by_task t of
        None \<Rightarrow> False
      | Some prev \<Rightarrow> t \<in> set current \<and> lost_assets prev available \<noteq> [])"

definition release_lost_asset_assignments ::
  "runtime \<Rightarrow> string list \<Rightarrow> (string, assignment) dict \<Rightarrow> string list \<Rightarrow> string list
   \<Rightarrow> string list \<times> corrective_action list" where
  "release_lost_asset_assignments rt frozen previous_by_task available current =
     (filter (\<lambda>t. \<not> released previous_by_task available current t) frozen,
      List.map_filter (\<lambda>t.
        if released previous_by_task available current t
        then map_option (\<lambda>prev. (asset_loss_action rt ''frozen assignment lost assets ''
               ''; released for re-solve'' prev (lost_assets prev available))\<lparr>ca_task_id := t\<rparr>)
               (map_of previous_by_task t)
        else None) (sort frozen))"

definition carried_asset_loss_actions ::
  "runtime \<Rightarrow> assignment list \<Rightarrow> string list \<Rightarrow> string list \<Rightarrow> string list \<Rightarrow> corrective_action list" where
  "carried_asset_loss_actions rt previous frozen current available =
     List.map_filter (\<lambda>prev.
       if as_task_id prev \<in> set frozen \<or> as_task_id prev \<notin> set current
          \<or> lost_assets prev available = [] then None
       else Some (asset_loss_action rt ''assignment lost assets '' ''; task re-solved'' prev
                    (lost_assets prev available))) previous"

definition withdrawn_service_actions ::
  "plan option \<Rightarrow> string list \<Rightarrow> planning_snapshot \<Rightarrow> (string, string) dict \<Rightarrow> corrective_action list" where
  "withdrawn_service_actions previous_plan current snapshot reasons =
     (case previous_plan of
        None \<Rightarrow> []
      | Some p \<Rightarrow>
          let previous_ids = remdups (filter is_service_task_id
                (map as_task_id (assignments p) @ map ua_task_id (unassigned_tasks p)))
          in map (\<lambda>t. \<lparr>ca_action = SERVICE_WITHDRAWN, ca_task_id = t,
                        ca_detail = dget_default reasons t ''derived in a previous revision'',
                        evidence = current_readings snapshot (service_asset_id t)\<rparr>)
               (sort (filter (\<lambda>t. t \<notin> set current) previous_ids)))"

definition escalated_task :: "task \<Rightarrow> bool" where
  "escalated_task t \<longleftrightarrow>
     prefix ''monitoring:'' (tk_source_ref t) \<and> contains_text ''escalated:'' (tk_source_ref t)"

definition escalated_service_tasks ::
  "planning_snapshot \<Rightarrow> (string, string) dict \<Rightarrow> (string, assignment) dict
   \<Rightarrow> string list \<times> corrective_action list" where
  "escalated_service_tasks snapshot reasons previous_by_task =
     (let ts = filter escalated_task (sn_tasks snapshot) in
      (remdups (map tk_id (filter (\<lambda>t. tk_id t \<in> fst ` set previous_by_task) ts)),
       List.map_filter (\<lambda>t.
         case map_of reasons (tk_id t) of
           None \<Rightarrow> None
         | Some prev \<Rightarrow>
             if contains_text ''escalated:'' prev then None
             else Some \<lparr>ca_action = SERVICE_ESCALATED, ca_task_id = tk_id t,
                        ca_detail = ''was: '' @ prev @ ''; now: '' @ tk_source_ref t,
                        evidence = current_readings snapshot (service_asset_id (tk_id t))\<rparr>) ts))"

definition by_task :: "assignment list \<Rightarrow> (string, assignment) dict" where
  "by_task xs = fold (\<lambda>a. AList.update (as_task_id a) a) xs []"

definition reconcile_previous_plan ::
  "plan option \<Rightarrow> planning_snapshot \<Rightarrow> (string, string) dict \<Rightarrow> corrective_action list" where
  "reconcile_previous_plan previous_plan snapshot reasons =
     (case previous_plan of
        None \<Rightarrow> []
      | Some p \<Rightarrow>
          withdrawn_service_actions previous_plan (remdups (map tk_id (sn_tasks snapshot))) snapshot reasons
          @ snd (escalated_service_tasks snapshot reasons (by_task (assignments p))))"

subsection \<open>Freezing and carrying\<close>

text \<open>\<open>freeze_s\<close> is the freeze window in seconds.\<close>

definition frozen_task_ids :: "real \<Rightarrow> planning_snapshot \<Rightarrow> (string, assignment) dict \<Rightarrow> real \<Rightarrow> string list" where
  "frozen_task_ids freeze_s snapshot previous_by_task now =
     remdups (map tk_id (filter (\<lambda>t. tk_status t = ''started'') (sn_tasks snapshot)) @
              map fst (filter (\<lambda>(t, prev). planned_start prev \<le> now + freeze_s) previous_by_task))"

definition carried_forward_assignments ::
  "assignment list \<Rightarrow> string list \<Rightarrow> string list \<Rightarrow> string list \<Rightarrow> string list \<Rightarrow> assignment list" where
  "carried_forward_assignments previous frozen current available force =
     map (\<lambda>a. a\<lparr>is_frozen := False\<rparr>)
       (filter (\<lambda>a. as_task_id a \<notin> set frozen \<and> as_task_id a \<in> set current \<and> as_task_id a \<notin> set force
                 \<and> set (asset_ids a) \<subseteq> set available) previous)"

definition held_asset_windows :: "assignment list \<Rightarrow> string list \<Rightarrow> (string, (int \<times> int) list) dict" where
  "held_asset_windows held known =
     fold (\<lambda>a d. fold (\<lambda>i d. if i \<in> set known
                            then dappend i (py_int (planned_start a), py_int (planned_finish a)) d else d)
                  (asset_ids a @ operator_ids a) d) held []"

text \<open>The sections of the solver rows; the remaining ones travel along in \<open>'r\<close>.\<close>

record 'r solver_rows =
  prime_movers :: "prime_mover_row list"
  related_equipment :: "related_row list"
  operators :: "operator_row list"
  task_rows :: "task_row list"
  other_sections :: 'r

text \<open>What the compiler passes to the solver chain, \<open>None\<close> when nothing is to be solved.\<close>

definition resolve_request ::
  "'r solver_rows \<Rightarrow> string list \<Rightarrow> assignment list
   \<Rightarrow> ('r solver_rows \<times> (string, (int \<times> int) list) dict) option" where
  "resolve_request rows tasks_to_resolve held =
     (if tasks_to_resolve = [] then None
      else Some (rows\<lparr>task_rows := filter (\<lambda>r. task_id r \<in> set tasks_to_resolve) (task_rows rows)\<rparr>,
                 held_asset_windows held
                   (map pm_asset_id (prime_movers rows) @ map rel_asset_id (related_equipment rows) @
                    map op_asset_id (operators rows))))"

record 'c rolling_result =
  chain_result :: "'c option"
  frozen_assignments :: "assignment list"
  carried_forward :: "assignment list"
  previous_by_task :: "(string, assignment) dict"
  rr_now :: real
  rr_change_penalty :: int
  rr_corrective_actions :: "corrective_action list"
  carried_reservations :: "material_reservation list"

text \<open>The decision of a compile: frozen ids after release, the preserved assignments, the actions, and the
  tasks to solve.\<close>

record rolling_decision =
  kept_frozen :: "string list"
  dec_frozen :: "assignment list"
  dec_carried :: "assignment list"
  dec_actions :: "corrective_action list"
  to_resolve :: "string list"

definition previous_assignments :: "plan option \<Rightarrow> assignment list" where
  "previous_assignments p = (case p of None \<Rightarrow> [] | Some q \<Rightarrow> assignments q)"

definition decide_rolling ::
  "runtime \<Rightarrow> real \<Rightarrow> planning_snapshot \<Rightarrow> plan option \<Rightarrow> (string, string) dict \<Rightarrow> real \<Rightarrow> rolling_decision" where
  "decide_rolling rt freeze_s snapshot previous_plan reasons now =
     (let previous = previous_assignments previous_plan;
          previous_map = by_task previous;
          current = remdups (map tk_id (sn_tasks snapshot));
          available = remdups (map asset_id (sn_assets snapshot));
          (frozen, released_actions) = release_lost_asset_assignments rt
             (frozen_task_ids freeze_s snapshot previous_map now) previous_map available current;
          (force, escalations) = escalated_service_tasks snapshot reasons previous_map;
          carried = carried_forward_assignments previous frozen current available force;
          preserved = frozen @ map as_task_id carried
      in \<lparr>kept_frozen = frozen,
          dec_frozen = map (\<lambda>a. a\<lparr>is_frozen := True\<rparr>) (List.map_filter (map_of previous_map) frozen),
          dec_carried = carried,
          dec_actions = released_actions @ carried_asset_loss_actions rt previous frozen current available @
             escalations @ withdrawn_service_actions previous_plan current snapshot reasons,
          to_resolve = filter (\<lambda>t. t \<notin> set preserved) current\<rparr>)"

text \<open>\<open>build_rows\<close> is \<open>build_solver_inputs\<close>, \<open>chain\<close> the solver chain at the revision's time origin;
  \<open>change_penalty\<close> is the configured penalty, \<open>default_penalty\<close> its default.\<close>

definition compile_rolling_state ::
  "runtime \<Rightarrow> real \<Rightarrow> int \<Rightarrow> (planning_snapshot \<Rightarrow> 'r solver_rows)
   \<Rightarrow> ('r solver_rows \<Rightarrow> (string, (int \<times> int) list) dict \<Rightarrow> real \<Rightarrow> 'c)
   \<Rightarrow> planning_snapshot \<Rightarrow> plan option \<Rightarrow> (string, string) dict \<Rightarrow> real option \<Rightarrow> int \<Rightarrow> 'c rolling_result" where
  "compile_rolling_state rt freeze_s default_penalty build_rows chain snapshot previous_plan reasons now penalty =
     (let t = (case now of None \<Rightarrow> effective_at snapshot | Some x \<Rightarrow> x);
          d = decide_rolling rt freeze_s snapshot previous_plan reasons t;
          preserved = kept_frozen d @ map as_task_id (dec_carried d)
      in \<lparr>chain_result = map_option (\<lambda>(rows, held). chain rows held t)
             (resolve_request (build_rows snapshot) (to_resolve d) (dec_frozen d @ dec_carried d)),
          frozen_assignments = dec_frozen d, carried_forward = dec_carried d,
          previous_by_task = by_task (previous_assignments previous_plan), rr_now = t,
          rr_change_penalty = (if penalty = 0 then default_penalty else penalty),
          rr_corrective_actions = dec_actions d,
          carried_reservations = filter (\<lambda>r. mrv_task_id r \<in> set preserved)
             (case previous_plan of None \<Rightarrow> [] | Some p \<Rightarrow> material_reservations p)\<rparr>)"

subsection \<open>Solver outputs\<close>

text \<open>The fields of a dispatch package, an infeasibility record and a reservation record the adapters read; an
  absent text is \<open>''''\<close>, an absent dispatch id is \<open>None\<close>.\<close>

record dispatch_package =
  dp_dispatch_id :: "string option"
  dp_task_id :: string
  dp_cluster_id :: string
  dp_prime_asset_id :: string
  dp_related_asset_id :: string
  dp_operator_asset_id :: string
  dp_scheduled_start :: string
  dp_scheduled_end :: string
  dp_estimated_margin_eur :: real

record infeasible_record =
  ir_task_id :: string
  ir_cluster_id :: string
  ir_reason_code :: "reason_code option"
  ir_detail :: string

record raw_reservation =
  rr_reservation_id :: string
  rr_task_id :: string
  rr_material_type :: string
  rr_inventory_location_ref :: string
  rr_quantity :: real
  rr_canonical_unit :: string
  rr_reserved_from :: string
  rr_reserved_to :: string
  rr_status :: "reservation_status option"

record chain_output =
  co_dispatch :: "dispatch_package list"
  co_infeasible :: "infeasible_record list"
  co_kpis :: "(string, py_val) dict"
  co_n_greedy :: nat
  co_n_clusters :: nat
  co_reservations :: "raw_reservation list"
  co_telemetry :: py_val

text \<open>\<open>_parse_ts\<close>: the wall clock for an empty text; \<open>None\<close> is the \<open>ValueError\<close>.\<close>

definition parse_ts :: "runtime \<Rightarrow> real \<Rightarrow> string \<Rightarrow> real option" where
  "parse_ts rt clock v = (if v = [] then Some clock else fromisoformat rt v)"

definition parse_optional_ts :: "runtime \<Rightarrow> string \<Rightarrow> real option" where
  "parse_optional_ts rt v = (if v = [] then None else fromisoformat rt v)"

text \<open>\<open>hash_bundle\<close> is \<open>compute_bundle_id\<close> on the asset ids.\<close>

definition dispatch_to_assignment ::
  "runtime \<Rightarrow> (string list \<Rightarrow> string) \<Rightarrow> real \<Rightarrow> dispatch_package \<Rightarrow> assignment option" where
  "dispatch_to_assignment rt hash_bundle clock dp =
     (case (parse_ts rt clock (dp_scheduled_start dp), parse_ts rt clock (dp_scheduled_end dp)) of
        (Some start, Some finish) \<Rightarrow>
          Some \<lparr>assignment_id = (case dp_dispatch_id dp of None \<Rightarrow> ''assign-'' @ dp_task_id dp | Some i \<Rightarrow> i),
                as_task_id = dp_task_id dp,
                bundle_id = hash_bundle [dp_prime_asset_id dp, dp_related_asset_id dp],
                asset_ids = filter (\<lambda>a. a \<noteq> []) [dp_prime_asset_id dp, dp_related_asset_id dp],
                operator_ids = (if dp_operator_asset_id dp = [] then [] else [dp_operator_asset_id dp]),
                planned_start = start, planned_finish = finish, route_ref = None,
                material_reservation_refs = [], is_frozen = False, is_pinned = False,
                expected_revenue_eur = 0, expected_cost_eur = 0,
                expected_margin_eur = dp_estimated_margin_eur dp,
                previous_bundle_id = None, previous_start_time = None, change_penalty = 0,
                as_explanation_ref = ''explain://assignment/'' @ dp_task_id dp\<rparr>
      | _ \<Rightarrow> None)"

definition reservation_to_canonical :: "runtime \<Rightarrow> raw_reservation \<Rightarrow> material_reservation" where
  "reservation_to_canonical rt r =
     \<lparr>mrv_reservation_id = rr_reservation_id r, mrv_task_id = rr_task_id r,
      mrv_material_type = rr_material_type r, inventory_location_ref = rr_inventory_location_ref r,
      mrv_quantity = rr_quantity r, mrv_canonical_unit = rr_canonical_unit r,
      reserved_from = parse_optional_ts rt (rr_reserved_from r),
      reserved_to = parse_optional_ts rt (rr_reserved_to r),
      mrv_status = (case rr_status r of None \<Rightarrow> PROVISIONAL | Some s \<Rightarrow> s)\<rparr>"

definition link_reservation_refs :: "assignment list \<Rightarrow> material_reservation list \<Rightarrow> assignment list" where
  "link_reservation_refs asgs rs =
     (let refs = fold (\<lambda>r. dappend (mrv_task_id r) (mrv_reservation_id r)) rs [] in
      map (\<lambda>a. case map_of refs (as_task_id a) of
                 None \<Rightarrow> a | Some ids \<Rightarrow> a\<lparr>material_reservation_refs := ids\<rparr>) asgs)"

definition infeasible_to_unassigned :: "infeasible_record \<Rightarrow> unassigned_task" where
  "infeasible_to_unassigned r =
     \<lparr>ua_task_id = ir_task_id r,
      ua_reason_code = (case ir_reason_code r of None \<Rightarrow> UNKNOWN | Some c \<Rightarrow> c),
      ua_details = [(''detail'', VStr (ir_detail r)), (''cluster_id'', VStr (ir_cluster_id r))],
      recommended_action = None, ua_explanation_ref = ''explain://unassigned/'' @ ir_task_id r\<rparr>"

subsection \<open>Normalisation\<close>

text \<open>Mark an assignment whose bundle differs from the previous revision's.\<close>

definition mark_change :: "'c rolling_result \<Rightarrow> assignment \<Rightarrow> assignment" where
  "mark_change r a =
     (case map_of (previous_by_task r) (as_task_id a) of
        None \<Rightarrow> a
      | Some prev \<Rightarrow>
          if bundle_id prev \<noteq> bundle_id a
          then a\<lparr>previous_bundle_id := Some (bundle_id prev),
                 previous_start_time := Some (planned_start prev),
                 change_penalty := rr_change_penalty r\<rparr>
          else a)"

definition map_all :: "('a \<Rightarrow> 'b option) \<Rightarrow> 'a list \<Rightarrow> 'b list option" where
  "map_all f xs = (if list_all (\<lambda>x. f x \<noteq> None) xs then Some (map (the \<circ> f) xs) else None)"

definition normalize_chain_delta ::
  "runtime \<Rightarrow> (string list \<Rightarrow> string) \<Rightarrow> real \<Rightarrow> chain_output rolling_result
   \<Rightarrow> (assignment list \<times> unassigned_task list \<times> (string, py_val) dict) option" where
  "normalize_chain_delta rt hash_bundle clock r =
     (case chain_result r of
        None \<Rightarrow> Some ([], [], [])
      | Some chain \<Rightarrow>
          map_option (\<lambda>asgs. (map (mark_change r) asgs, map infeasible_to_unassigned (co_infeasible chain),
                             co_kpis chain))
            (map_all (dispatch_to_assignment rt hash_bundle clock) (co_dispatch chain)))"

text \<open>The figures copied from the chain's KPIs, with their defaults.\<close>

definition kpi_defaults :: "(string \<times> py_val) list" where
  "kpi_defaults =
     [(''total_estimated_margin_eur'', VFloat 0),
      (''greedy_baseline_margin_eur'', VFloat 0),
      (''solver_improvement_eur'', VFloat 0),
      (''total_completion_time_s'', VFloat 0),
      (''avg_completion_time_s'', VFloat 0),
      (''p95_completion_time_s'', VFloat 0),
      (''max_completion_time_s'', VFloat 0),
      (''n_tasks_with_deadlines'', VInt 0),
      (''n_on_time'', VInt 0),
      (''on_time_rate_pct'', VFloat 0),
      (''n_late'', VInt 0),
      (''total_fuel_l'', VFloat 0),
      (''total_fuel_cost_eur'', VFloat 0),
      (''total_energy_cost_eur'', VFloat 0),
      (''total_energy_quantity_by_type'', VDict []),
      (''total_energy_quantity_by_unit'', VDict []),
      (''total_fertilizer_kg'', VFloat 0),
      (''total_material_cost_eur'', VFloat 0),
      (''total_distance_km'', VFloat 0),
      (''total_labor_cost_eur'', VFloat 0),
      (''total_machine_wear_cost_eur'', VFloat 0),
      (''total_toll_cost_eur'', VFloat 0)]"

definition count_action :: "corrective_action_type \<Rightarrow> corrective_action list \<Rightarrow> nat" where
  "count_action t cas = length (filter (\<lambda>ca. ca_action ca = t) cas)"

definition build_score ::
  "chain_output rolling_result \<Rightarrow> assignment list \<Rightarrow> unassigned_task list \<Rightarrow> (string, py_val) dict
   \<Rightarrow> (string, py_val) dict \<Rightarrow> (string, py_val) dict" where
  "build_score r asgs un kpis attribution =
     (let n_changed = length (filter (\<lambda>a. change_penalty a > 0) asgs);
          n_new = length (filter (\<lambda>a. as_task_id a \<notin> fst ` set (previous_by_task r)) asgs);
          cas = rr_corrective_actions r; n = (\<lambda>k. VInt (int k))
      in [(''optimization_objective'', dget_default kpis ''optimization_objective'' (VStr ''cost'')),
          (''n_frozen'', n (length (frozen_assignments r))),
          (''n_carried_forward'', n (length (carried_forward r))),
          (''n_replanned'', n (length asgs)), (''n_new_tasks'', n n_new),
          (''n_changed_after_freeze'', n n_changed),
          (''n_repaired_after_asset_loss'', n (count_action REASSIGNED_AFTER_ASSET_LOSS cas)),
          (''n_service_withdrawn'', n (count_action SERVICE_WITHDRAWN cas)),
          (''n_service_escalated'', n (count_action SERVICE_ESCALATED cas)),
          (''plan_instability_penalty'', VInt (int n_changed * rr_change_penalty r))] @
         map (\<lambda>(k, v). (k, dget_default kpis k v)) kpi_defaults @
         [(''n_unassigned'', n (length un)),
          (''n_clusters'', n (case chain_result r of None \<Rightarrow> 0 | Some c \<Rightarrow> co_n_clusters c)),
          (''n_greedy_warm_start_assignments'',
             n (case chain_result r of None \<Rightarrow> 0 | Some c \<Rightarrow> co_n_greedy c)),
          (''solve_telemetry'', case chain_result r of None \<Rightarrow> VDict [] | Some c \<Rightarrow> co_telemetry c)] @
         attribution)"

text \<open>What the normaliser takes from outside: the hash of a bundle, the wall clock, a fresh revision suffix, the
  adapter's versions, the attribution of a solver result and the logistics KPIs of a plan.\<close>

record 'g normalizer_env =
  hash_bundle :: "string list \<Rightarrow> string"
  clock :: real
  fresh_suffix :: string
  env_adapter_version :: string
  env_solver_version :: string
  attribution_of :: "chain_output option \<Rightarrow> (string, py_val) dict"
  logistics_kpis :: "planning_snapshot \<Rightarrow> assignment list \<Rightarrow> unassigned_task list
     \<Rightarrow> airspace_report option \<Rightarrow> py_val option"
  airspace_cfg :: airspace_config
  env_geo :: "'g shapely"

definition airspace_input_of :: "planning_snapshot \<Rightarrow> airspace_input" where
  "airspace_input_of s = \<lparr>in_locations = sn_locations s, in_assets = sn_assets s, in_tasks = sn_tasks s\<rparr>"

definition revision_assignments ::
  "chain_output rolling_result \<Rightarrow> runtime \<Rightarrow> assignment list \<Rightarrow> assignment list" where
  "revision_assignments r rt fresh =
     (let rs = map (reservation_to_canonical rt)
                 (case chain_result r of None \<Rightarrow> [] | Some c \<Rightarrow> co_reservations c)
      in frozen_assignments r @ carried_forward r @ link_reservation_refs fresh rs)"

definition normalize_rolling_result ::
  "'g normalizer_env \<Rightarrow> runtime \<Rightarrow> chain_output rolling_result \<Rightarrow> planning_snapshot \<Rightarrow> plan option" where
  "normalize_rolling_result env rt r snapshot =
     (case normalize_chain_delta rt (hash_bundle env) (clock env) r of
        None \<Rightarrow> None
      | Some (fresh, un, kpis) \<Rightarrow>
          let fresh_rs = map (reservation_to_canonical rt)
                (case chain_result r of None \<Rightarrow> [] | Some c \<Rightarrow> co_reservations c);
              asgs = revision_assignments r rt fresh;
              sc = build_score r (link_reservation_refs fresh fresh_rs) un kpis
                     (attribution_of env (chain_result r))
          in (case deconflict_airspace (env_geo env) rt (airspace_cfg env) (airspace_input_of snapshot) asgs of
                None \<Rightarrow> None
              | Some (report, holds) \<Rightarrow>
                  let held = apply_airspace_holds asgs holds;
                      pid = ''plan-rolling-'' @ take 8 (snapshot_hash snapshot);
                      sc' = (case logistics_kpis env snapshot held un report of
                               None \<Rightarrow> sc
                             | Some k \<Rightarrow> AList.update ''drone_logistics_kpis'' k sc)
                  in Some \<lparr>plan_id = pid, revision_id = ''rev-'' @ fresh_suffix env,
                        parent_revision_id = None, origin_plan_id = pid,
                        pl_planning_mode = ROLLING, pl_snapshot_id = snapshot_id snapshot,
                        pl_snapshot_hash = snapshot_hash snapshot,
                        pl_version_dimensions = sn_version_dimensions snapshot,
                        adapter_id = ''ortools-rolling'', adapter_version = env_adapter_version env,
                        solver_version = env_solver_version env, pl_generated_at = clock env,
                        effective_from = effective_at snapshot,
                        effective_to = ti_to (planning_horizon snapshot), pl_status = DRAFT,
                        assignments = held, unassigned_tasks = un,
                        material_reservations = carried_reservations r @ fresh_rs,
                        corrective_actions = rr_corrective_actions r,
                        pl_source_watermarks = sn_source_watermarks snapshot, score = sc',
                        pl_quality_summary = sn_quality_summary snapshot,
                        pl_risk_summary = \<lparr>n_contract_deadlines_at_risk = length un,
                          n_weather_restricted_tasks = 0, total_penalty_exposure_eur = 0\<rparr>,
                        pl_lineage_ref = sn_lineage_ref snapshot\<rparr>))"

text \<open>The adapter's \<open>plan\<close>: compile, normalise, and link the revision to its parent.\<close>

definition link_parent :: "plan option \<Rightarrow> plan \<Rightarrow> plan" where
  "link_parent previous p =
     (case previous of
        None \<Rightarrow> p
      | Some q \<Rightarrow> p\<lparr>parent_revision_id := Some (revision_id q), origin_plan_id := origin_plan_id q\<rparr>)"

definition rolling_plan ::
  "'g normalizer_env \<Rightarrow> runtime \<Rightarrow> real \<Rightarrow> int \<Rightarrow> (planning_snapshot \<Rightarrow> 'r solver_rows)
   \<Rightarrow> ('r solver_rows \<Rightarrow> (string, (int \<times> int) list) dict \<Rightarrow> real \<Rightarrow> chain_output)
   \<Rightarrow> planning_snapshot \<Rightarrow> plan option \<Rightarrow> (string, string) dict \<Rightarrow> real option \<Rightarrow> int \<Rightarrow> plan option" where
  "rolling_plan env rt freeze_s default_penalty build_rows chain snapshot previous reasons now penalty =
     map_option (link_parent previous)
       (normalize_rolling_result env rt
          (compile_rolling_state rt freeze_s default_penalty build_rows chain snapshot previous reasons now penalty)
          snapshot)"

subsection \<open>Lemmas\<close>

lemma by_task_fold:
  "map_of (fold (\<lambda>a. AList.update (as_task_id a) a) xs d) t = Some a \<Longrightarrow>
   (a \<in> set xs \<and> as_task_id a = t) \<or> map_of d t = Some a"
proof (induction xs arbitrary: d)
  case (Cons x xs)
  from Cons.IH [of "AList.update (as_task_id x) x d"] Cons.prems show ?case
    by (cases "t = as_task_id x") (auto simp: update_conv')
qed simp

lemma by_task_Some: "map_of (by_task xs) t = Some a \<Longrightarrow> a \<in> set xs \<and> as_task_id a = t"
  using by_task_fold [of xs "[]" t a] unfolding by_task_def by simp

lemma by_task_distinct:
  assumes "distinct (map as_task_id xs)" "a \<in> set xs"
  shows "map_of (by_task xs) (as_task_id a) = Some a"
proof -
  have "map_of (fold (\<lambda>a. AList.update (as_task_id a) a) xs d) t =
      (case find (\<lambda>a. as_task_id a = t) xs of None \<Rightarrow> map_of d t | Some a \<Rightarrow> Some a)" for d t
    using assms(1)
  proof (induction xs arbitrary: d)
    case (Cons x xs)
    have "find (\<lambda>a. as_task_id a = as_task_id x) xs = None"
      unfolding find_None_iff using Cons.prems by (metis distinct.simps(2) imageI list.set_map list.simps(9))
    with Cons show ?case by (auto simp: update_conv' split: option.splits)
  qed simp
  moreover have "find (\<lambda>b. as_task_id b = as_task_id a) xs = Some a"
    using assms
  proof (induction xs)
    case (Cons x xs)
    then show ?case by (cases "as_task_id x = as_task_id a") (auto simp: image_iff)
  qed simp
  ultimately show ?thesis by (simp add: by_task_def)
qed

lemma lost_assets_empty: "lost_assets a available = [] \<longleftrightarrow> set (asset_ids a) \<subseteq> set available"
  by (auto simp: lost_assets_def filter_empty_conv simp flip: set_empty)

lemma map_filter_mem: "y \<in> set (List.map_filter f xs) \<longleftrightarrow> (\<exists>x\<in>set xs. f x = Some y)"
  by (force simp: List.map_filter_def image_iff)

lemma distinct_map_filter_keys:
  assumes "distinct xs" "\<And>x y. f x = Some y \<Longrightarrow> key y = x"
  shows "distinct (map key (List.map_filter f xs))" "set (map key (List.map_filter f xs)) \<subseteq> set xs"
proof -
  show s: "set (map key (List.map_filter f xs)) \<subseteq> set xs"
    using assms(2) by (auto simp: map_filter_mem)
  show "distinct (map key (List.map_filter f xs))"
    using assms
  proof (induction xs)
    case (Cons x xs)
    then have "x \<notin> set (map key (List.map_filter f xs))" by (auto simp: map_filter_mem)
    with Cons show ?case by (cases "f x") (auto simp: map_filter_simps)
  qed (simp add: map_filter_simps)
qed

text \<open>The components of a decision.\<close>

lemma decide_rolling_fields:
  assumes "d = decide_rolling rt freeze_s snapshot previous_plan reasons now"
    and "prev = previous_assignments previous_plan"
    and "cur = remdups (map tk_id (sn_tasks snapshot))" and "av = remdups (map asset_id (sn_assets snapshot))"
    and "fr = frozen_task_ids freeze_s snapshot (by_task prev) now"
  shows "kept_frozen d = filter (\<lambda>t. \<not> released (by_task prev) av cur t) fr"
    and "dec_frozen d = map (\<lambda>a. a\<lparr>is_frozen := True\<rparr>) (List.map_filter (map_of (by_task prev)) (kept_frozen d))"
    and "dec_carried d = carried_forward_assignments prev (kept_frozen d) cur av
           (fst (escalated_service_tasks snapshot reasons (by_task prev)))"
    and "to_resolve d = filter (\<lambda>t. t \<notin> set (kept_frozen d @ map as_task_id (dec_carried d))) cur"
    and "set (snd (release_lost_asset_assignments rt fr (by_task prev) av cur)) \<subseteq> set (dec_actions d)"
    and "set (carried_asset_loss_actions rt prev (kept_frozen d) cur av) \<subseteq> set (dec_actions d)"
  by (auto simp: assms decide_rolling_def Let_def release_lost_asset_assignments_def split: prod.splits)

lemma frozen_distinct: "distinct (frozen_task_ids freeze_s snapshot m now)"
  by (simp add: frozen_task_ids_def)

lemma carried_mem:
  "a \<in> set (carried_forward_assignments prev frozen cur av force) \<longleftrightarrow>
   (\<exists>p\<in>set prev. a = p\<lparr>is_frozen := False\<rparr> \<and> as_task_id p \<notin> set frozen \<and> as_task_id p \<in> set cur \<and>
      as_task_id p \<notin> set force \<and> set (asset_ids p) \<subseteq> set av)"
  by (auto simp: carried_forward_assignments_def)

lemma carried_ids:
  "map as_task_id (carried_forward_assignments prev frozen cur av force) =
   map as_task_id (filter (\<lambda>a. as_task_id a \<notin> set frozen \<and> as_task_id a \<in> set cur \<and> as_task_id a \<notin> set force
      \<and> set (asset_ids a) \<subseteq> set av) prev)"
  by (simp add: carried_forward_assignments_def)

lemma dec_frozen_mem:
  assumes "a \<in> set (map (\<lambda>a. a\<lparr>is_frozen := True\<rparr>) (List.map_filter (map_of (by_task prev)) ts))"
  obtains p where "p \<in> set prev" "a = p\<lparr>is_frozen := True\<rparr>" "as_task_id a \<in> set ts"
    "map_of (by_task prev) (as_task_id a) = Some p"
proof -
  from assms obtain p t where "t \<in> set ts" "map_of (by_task prev) t = Some p" "a = p\<lparr>is_frozen := True\<rparr>"
    by (auto simp: map_filter_mem)
  with by_task_Some [of prev t p] show thesis by (intro that [of p]) auto
qed

subsection \<open>What a rolling revision preserves\<close>

lemma preserved_distinct:
  assumes "d = decide_rolling rt freeze_s snapshot previous_plan reasons now"
    and "distinct (map as_task_id (previous_assignments previous_plan))"
  shows "distinct (map as_task_id (dec_frozen d @ dec_carried d))"
proof -
  let ?prev = "previous_assignments previous_plan"
  note f = decide_rolling_fields [OF assms(1) refl refl refl refl]
  have kf: "distinct (kept_frozen d)" unfolding f(1) by (rule distinct_filter) (rule frozen_distinct)
  have fd: "distinct (map as_task_id (List.map_filter (map_of (by_task ?prev)) (kept_frozen d)))"
    "set (map as_task_id (List.map_filter (map_of (by_task ?prev)) (kept_frozen d))) \<subseteq> set (kept_frozen d)"
    by (rule distinct_map_filter_keys [OF kf]; simp add: by_task_Some)+
  have "map as_task_id (dec_frozen d) = map as_task_id (List.map_filter (map_of (by_task ?prev)) (kept_frozen d))"
    by (simp add: f(2))
  with fd have frozen: "distinct (map as_task_id (dec_frozen d))"
    "set (map as_task_id (dec_frozen d)) \<subseteq> set (kept_frozen d)" by simp_all
  have carried: "distinct (map as_task_id (dec_carried d))"
    unfolding f(3) carried_ids by (rule distinct_map_filter) (rule assms(2))
  have "as_task_id a \<notin> set (kept_frozen d)" if "a \<in> set (dec_carried d)" for a
    using that unfolding f(3) carried_mem by auto
  with frozen carried show "distinct (map as_task_id (dec_frozen d @ dec_carried d))" by auto
qed


text \<open>C14: Asset loss is always repaired and recorded. An assignment of the previous revision whose task still exists but
  one of whose assets does not is not preserved: its task is in the set to solve, and a corrective action
  records the loss.\<close>

theorem asset_loss_is_resolved:
  assumes "d = decide_rolling rt freeze_s snapshot previous_plan reasons now"
    and "distinct (map as_task_id (previous_assignments previous_plan))"
    and "p \<in> set (previous_assignments previous_plan)"
    and "as_task_id p \<in> set (map tk_id (sn_tasks snapshot))"
    and "\<not> set (asset_ids p) \<subseteq> set (map asset_id (sn_assets snapshot))"
  shows "as_task_id p \<in> set (to_resolve d) \<and>
    (\<exists>ca\<in>set (dec_actions d). ca_action ca = REASSIGNED_AFTER_ASSET_LOSS \<and> ca_task_id ca = as_task_id p)"
proof
  let ?prev = "previous_assignments previous_plan" and ?t = "as_task_id p"
  let ?cur = "remdups (map tk_id (sn_tasks snapshot))" and ?av = "remdups (map asset_id (sn_assets snapshot))"
  note f = decide_rolling_fields [OF assms(1) refl refl refl refl]
  have m: "map_of (by_task ?prev) ?t = Some p" by (rule by_task_distinct [OF assms(2,3)])
  have lost: "lost_assets p ?av \<noteq> []" using assms(5) by (simp add: lost_assets_empty)
  with m assms(4) have r: "released (by_task ?prev) ?av ?cur ?t" by (simp add: released_def)
  then have nf: "?t \<notin> set (kept_frozen d)" by (simp add: f(1))
  have "?t \<notin> as_task_id ` set (dec_carried d)"
  proof
    assume "?t \<in> as_task_id ` set (dec_carried d)"
    then obtain b where b: "b \<in> set (dec_carried d)" "as_task_id b = ?t" by auto
    from b(1) obtain q where "q \<in> set ?prev" "b = q\<lparr>is_frozen := False\<rparr>" "set (asset_ids q) \<subseteq> set ?av"
      unfolding f(3) carried_mem by blast
    with b(2) have q: "q \<in> set ?prev" "as_task_id q = ?t" "set (asset_ids q) \<subseteq> set ?av" by simp_all
    from trans [OF by_task_distinct [OF assms(2) q(1), unfolded q(2), symmetric] m] have "q = p"
      by (rule option.inject [THEN iffD1])
    with q(3) assms(5) show False by simp
  qed
  with nf assms(4) show "?t \<in> set (to_resolve d)" by (simp add: f(4))
  have "asset_loss_action rt ''assignment lost assets '' ''; task re-solved'' p (lost_assets p ?av)
      \<in> set (carried_asset_loss_actions rt ?prev (kept_frozen d) ?cur ?av)"
    unfolding carried_asset_loss_actions_def map_filter_mem
    using assms(3,4) nf lost by (intro bexI [of _ p]) auto
  with f(6) show "\<exists>ca\<in>set (dec_actions d). ca_action ca = REASSIGNED_AFTER_ASSET_LOSS \<and> ca_task_id ca = ?t"
    by (intro bexI [of _ "asset_loss_action rt ''assignment lost assets '' ''; task re-solved'' p (lost_assets p ?av)"])
       (auto simp: asset_loss_action_def)
qed

subsection \<open>Held windows\<close>

lemma dappend_same: "dget_default (fold (\<lambda>i d. if P i then dappend i w d else d) is d) k [] =
   dget_default d k [] @ (if P k then replicate (count_list is k) w else [])"
proof (induction "is" arbitrary: d)
  case (Cons i "is")
  then show ?case by (auto simp: dget_default_dappend replicate_app_Cons_same)
qed simp

text \<open>The held windows are a calendar: each known asset or operator has the window of every preserved assignment
  that names it, in order, once per mention; an unknown one has none.\<close>

lemma held_asset_windows_exact:
  "dget_default (held_asset_windows held known) i [] =
   (if i \<in> set known
    then concat (map (\<lambda>a. replicate (count_list (asset_ids a @ operator_ids a) i)
           (py_int (planned_start a), py_int (planned_finish a))) held)
    else [])"
proof -
  have "dget_default (fold (\<lambda>a d. fold (\<lambda>i d. if i \<in> set known
            then dappend i (py_int (planned_start a), py_int (planned_finish a)) d else d)
          (asset_ids a @ operator_ids a) d) held d) i [] =
        dget_default d i [] @ (if i \<in> set known
          then concat (map (\<lambda>a. replicate (count_list (asset_ids a @ operator_ids a) i)
             (py_int (planned_start a), py_int (planned_finish a))) held) else [])" for d
  proof (induction held arbitrary: d)
    case (Cons a held)
    show ?case
      unfolding fold.simps comp_def Cons.IH dappend_same [where P = "\<lambda>i. i \<in> set known"] by simp
  qed simp
  from this [of "[]"] show ?thesis by (simp add: held_asset_windows_def dget_default_def)
qed

subsection \<open>The revision\<close>

lemma apply_holds_ids: "map as_task_id (apply_airspace_holds asgs holds) = map as_task_id asgs"
  by (simp add: apply_airspace_holds_def Let_def)

lemma link_refs_ids: "map as_task_id (link_reservation_refs asgs rs) = map as_task_id asgs"
  by (simp add: link_reservation_refs_def Let_def split: option.splits)

lemma mark_change_id [simp]: "as_task_id (mark_change r a) = as_task_id a"
  by (simp add: mark_change_def split: option.splits)

lemma dispatch_id: "dispatch_to_assignment rt h c dp = Some a \<Longrightarrow> as_task_id a = dp_task_id dp"
  by (auto simp: dispatch_to_assignment_def split: option.splits)

lemma map_all_Some: "map_all f xs = Some ys \<Longrightarrow> map f xs = map Some ys"
  by (auto simp: map_all_def list_all_iff split: if_splits)

lemma map_all_ids:
  assumes "map_all (dispatch_to_assignment rt h c) dps = Some asgs"
  shows "map as_task_id asgs = map dp_task_id dps"
proof (rule nth_equalityI)
  note m = map_all_Some [OF assms]
  then show l: "length (map as_task_id asgs) = length (map dp_task_id dps)"
    by (metis length_map)
  fix i assume "i < length (map as_task_id asgs)"
  with l have i: "i < length asgs" "i < length dps" by simp_all
  with m have "dispatch_to_assignment rt h c (dps ! i) = Some (asgs ! i)" by (metis nth_map)
  with i show "map as_task_id asgs ! i = map dp_task_id dps ! i" by (simp add: dispatch_id)
qed

lemma chain_delta_ids:
  assumes "normalize_chain_delta rt h c r = Some (fresh, un, kpis)"
  shows "map as_task_id fresh =
    (case chain_result r of None \<Rightarrow> [] | Some ch \<Rightarrow> map dp_task_id (co_dispatch ch))"
proof (cases "chain_result r")
  case None
  with assms show ?thesis by (simp add: normalize_chain_delta_def)
next
  case (Some ch)
  with assms obtain asgs where "map_all (dispatch_to_assignment rt h c) (co_dispatch ch) = Some asgs"
    "fresh = map (mark_change r) asgs" by (auto simp: normalize_chain_delta_def)
  with Some show ?thesis by (simp add: map_all_ids comp_def)
qed

lemma normalized_ids:
  assumes "normalize_rolling_result env rt r snapshot = Some p"
  shows "map as_task_id (assignments p) = map as_task_id (frozen_assignments r) @
    map as_task_id (carried_forward r) @
    (case chain_result r of None \<Rightarrow> [] | Some ch \<Rightarrow> map dp_task_id (co_dispatch ch))"
proof -
  from assms obtain fresh un kpis where d: "normalize_chain_delta rt (hash_bundle env) (clock env) r = Some (fresh, un, kpis)"
    by (auto simp: normalize_rolling_result_def split: option.splits)
  with assms obtain holds where "assignments p = apply_airspace_holds (revision_assignments r rt fresh) holds"
    by (auto simp: normalize_rolling_result_def Let_def split: option.splits)
  then show ?thesis by (simp add: apply_holds_ids revision_assignments_def link_refs_ids chain_delta_ids [OF d])
qed

lemma frozen_carried_ids:
  assumes "d = decide_rolling rt freeze_s snapshot previous_plan reasons now"
  shows "set (map as_task_id (dec_frozen d)) \<subseteq> set (kept_frozen d)"
    and "t \<in> set (to_resolve d) \<Longrightarrow> t \<notin> set (map as_task_id (dec_frozen d @ dec_carried d))"
proof -
  note f = decide_rolling_fields [OF assms refl refl refl refl]
  show s: "set (map as_task_id (dec_frozen d)) \<subseteq> set (kept_frozen d)"
    by (auto simp: f(2) map_filter_mem dest!: by_task_Some)
  show "t \<in> set (to_resolve d) \<Longrightarrow> t \<notin> set (map as_task_id (dec_frozen d @ dec_carried d))"
    using s by (auto simp: f(4))
qed

lemma resolve_request_tasks:
  "resolve_request rows ts held = Some (rows', w) \<Longrightarrow> task_id ` set (task_rows rows') \<subseteq> set ts"
  by (auto simp: resolve_request_def split: if_splits)

text \<open>C15: A revision assigns no task twice and extends its parent. When the solver chain dispatches each task it is given at most
  once and no other, and the previous revision had no task twice, the new revision has none twice either,
  frozen, carried and freshly solved work together; and it names the previous revision as its parent and
  keeps its origin.\<close>

theorem rolling_revision_single_assignment:
  assumes "rolling_plan env rt freeze_s default_penalty build_rows chain snapshot (Some previous) reasons now penalty = Some p"
    and chain: "\<forall>rows held t. distinct (map dp_task_id (co_dispatch (chain rows held t))) \<and>
      set (map dp_task_id (co_dispatch (chain rows held t))) \<subseteq> task_id ` set (task_rows rows)"
    and prev: "distinct (map as_task_id (assignments previous))"
  shows "distinct (map as_task_id (assignments p)) \<and> parent_revision_id p = Some (revision_id previous) \<and>
    origin_plan_id p = origin_plan_id previous"
proof -
  let ?t = "case now of None \<Rightarrow> effective_at snapshot | Some x \<Rightarrow> x"
  let ?r = "compile_rolling_state rt freeze_s default_penalty build_rows chain snapshot (Some previous) reasons now penalty"
  define d where "d = decide_rolling rt freeze_s snapshot (Some previous) reasons ?t"
  have r: "frozen_assignments ?r = dec_frozen d" "carried_forward ?r = dec_carried d"
    "chain_result ?r = map_option (\<lambda>(rows, held). chain rows held ?t)
       (resolve_request (build_rows snapshot) (to_resolve d) (dec_frozen d @ dec_carried d))"
    by (simp_all add: compile_rolling_state_def Let_def d_def)
  from assms(1) obtain q where q: "normalize_rolling_result env rt ?r snapshot = Some q" "p = link_parent (Some previous) q"
    by (auto simp: rolling_plan_def)
  have pres: "distinct (map as_task_id (dec_frozen d @ dec_carried d))"
    using preserved_distinct [OF d_def] prev by (simp add: previous_assignments_def)
  have fresh: "distinct ts \<and> set ts \<inter> set (map as_task_id (dec_frozen d @ dec_carried d)) = {}"
    if "ts = (case chain_result ?r of None \<Rightarrow> [] | Some ch \<Rightarrow> map dp_task_id (co_dispatch ch))" for ts
  proof (cases "chain_result ?r")
    case None
    with that show ?thesis by simp
  next
    case (Some ch)
    then obtain rows held where c: "resolve_request (build_rows snapshot) (to_resolve d) (dec_frozen d @ dec_carried d)
        = Some (rows, held)" "ch = chain rows held ?t" unfolding r(3) by auto
    from resolve_request_tasks [OF c(1)] chain c(2) have "distinct (map dp_task_id (co_dispatch ch))"
      "set (map dp_task_id (co_dispatch ch)) \<subseteq> set (to_resolve d)" by blast+
    with frozen_carried_ids(2) [OF d_def] that Some show ?thesis by fastforce
  qed
  have "map as_task_id (assignments q) = map as_task_id (dec_frozen d @ dec_carried d) @
      (case chain_result ?r of None \<Rightarrow> [] | Some ch \<Rightarrow> map dp_task_id (co_dispatch ch))"
    using normalized_ids [OF q(1)] by (simp add: r(1,2))
  with pres fresh [OF refl] have "distinct (map as_task_id (assignments q))"
    by (metis distinct_append inf_commute)
  with q(2) show ?thesis by (simp add: link_parent_def)
qed

subsection \<open>Instances\<close>

definition sample_asset :: "string \<Rightarrow> asset" where
  "sample_asset i =
     \<lparr>asset_id = i, asset_type = ''uav'', roles = [], asset_status = ''available'', mobility = '''',
      capabilities = [], asset_location = None, home_depot_ref = None, availability = [],
      asset_name = '''', asset_source_ref = '''', asset_valid_from = None, asset_valid_to = None\<rparr>"

definition sample_snapshot :: "task list \<Rightarrow> asset list \<Rightarrow> planning_snapshot" where
  "sample_snapshot ts as =
     \<lparr>snapshot_id = ''s'', effective_at = 0, generated_at = 0, sn_planning_mode = ROLLING,
      planning_horizon = \<lparr>ti_from = 0, ti_to = None\<rparr>, sn_version_dimensions = sample_versions,
      sn_assets = as, sn_locations = [sample_place],
      sn_bundle_summary = \<lparr>n_prime_movers = 0, n_related_equipment = 0, n_feasible_pairs = 0,
        pairs_by_operation = [], n_unmatched_prime_movers = 0, n_unmatched_related_equipment = 0,
        tasks_by_operation = [], scarce_operations = []\<rparr>,
      sn_tasks = ts, sn_inventory = [], sn_forecasts = [], sn_observations = [], sn_commitments = [],
      sn_travel_links = [], sn_cost_rates = [], manual_overrides = [], sn_source_watermarks = [],
      quality_findings = [], sn_quality_summary = sample_quality, snapshot_hash = ''h'',
      sn_lineage_ref = []\<rparr>"

definition sample_task_row :: "task \<Rightarrow> task_row" where
  "sample_task_row t = sample_task\<lparr>task_id := tk_id t\<rparr>"

definition sample_rows :: "planning_snapshot \<Rightarrow> unit solver_rows" where
  "sample_rows s =
     \<lparr>prime_movers = [], related_equipment = [], operators = [],
      task_rows = map sample_task_row (sn_tasks s), other_sections = ()\<rparr>"

definition sample_dispatch :: "string \<Rightarrow> dispatch_package" where
  "sample_dispatch t =
     \<lparr>dp_dispatch_id = None, dp_task_id = t, dp_cluster_id = ''c'', dp_prime_asset_id = ''v1'',
      dp_related_asset_id = [], dp_operator_asset_id = [], dp_scheduled_start = ''t1'',
      dp_scheduled_end = ''t2'', dp_estimated_margin_eur = 0\<rparr>"

text \<open>A chain that dispatches the first task it is given.\<close>

definition sample_chain :: "unit solver_rows \<Rightarrow> (string, (int \<times> int) list) dict \<Rightarrow> real \<Rightarrow> chain_output" where
  "sample_chain rows held t =
     \<lparr>co_dispatch = (case task_rows rows of [] \<Rightarrow> [] | r # _ \<Rightarrow> [sample_dispatch (task_id r)]), co_infeasible = [],
      co_kpis = [], co_n_greedy = 0, co_n_clusters = 1, co_reservations = [], co_telemetry = VDict []\<rparr>"

definition sample_env :: "unit normalizer_env" where
  "sample_env =
     \<lparr>hash_bundle = concat, clock = 0, fresh_suffix = ''1'', env_adapter_version = [],
      env_solver_version = [], attribution_of = (\<lambda>_. []), logistics_kpis = (\<lambda>_ _ _ _. None),
      airspace_cfg = sample_airspace, env_geo = sample_shapely\<rparr>"

text \<open>The previous revision flies A (in the freeze window) and B (later) on v1 and C on a lost asset.\<close>

definition sample_previous :: plan where
  "sample_previous = sample_plan ''r1''
     [sample_assignment, sample_assignment\<lparr>as_task_id := ''B'', planned_start := 5000, planned_finish := 6000\<rparr>,
      sample_assignment\<lparr>as_task_id := ''C'', asset_ids := [''v2''], planned_start := 5000, planned_finish := 6000\<rparr>]"

definition sample_now :: planning_snapshot where
  "sample_now = sample_snapshot (map (\<lambda>t. sample_uav t None) [''A'', ''B'', ''C'', ''D'']) [sample_asset ''v1'']"

definition sample_decision :: rolling_decision where
  "sample_decision = decide_rolling sample_runtime 3600 sample_now (Some sample_previous) [] 0"

lemma sample_decision_evaluated:
  "map as_task_id (dec_frozen sample_decision @ dec_carried sample_decision) = [''A'', ''B'']
   \<and> to_resolve sample_decision = [''C'', ''D'']"
  by code_simp

lemma sample_previous_distinct: "distinct (map as_task_id (previous_assignments (Some sample_previous)))"
  by code_simp


lemma asset_loss_is_resolved_witness:
  "''C'' \<in> set (to_resolve sample_decision) \<and>
   (\<exists>ca\<in>set (dec_actions sample_decision). ca_action ca = REASSIGNED_AFTER_ASSET_LOSS \<and> ca_task_id ca = ''C'')"
proof -
  define p where "p = assignments sample_previous ! 2"
  have "p \<in> set (previous_assignments (Some sample_previous))" "as_task_id p = ''C''"
    "as_task_id p \<in> set (map tk_id (sn_tasks sample_now))"
    "\<not> set (asset_ids p) \<subseteq> set (map asset_id (sn_assets sample_now))"
    unfolding p_def by code_simp+
  from asset_loss_is_resolved [OF sample_decision_def sample_previous_distinct this(1,3,4)] this(2)
  show ?thesis by simp
qed

lemma rolling_revision_single_assignment_witness:
  "\<exists>p. rolling_plan sample_env sample_runtime 3600 5 sample_rows sample_chain sample_now (Some sample_previous) [] None 0 = Some p
     \<and> map as_task_id (assignments p) = [''A'', ''B'', ''C''] \<and> distinct (map as_task_id (assignments p))"
proof -
  let ?run = "rolling_plan sample_env sample_runtime 3600 5 sample_rows sample_chain sample_now (Some sample_previous) [] None 0"
  have "map_option (\<lambda>p. map as_task_id (assignments p)) ?run = Some [''A'', ''B'', ''C'']" by code_simp
  then obtain p where p: "?run = Some p" "map as_task_id (assignments p) = [''A'', ''B'', ''C'']" by auto
  have "\<forall>rows held t. distinct (map dp_task_id (co_dispatch (sample_chain rows held t))) \<and>
      set (map dp_task_id (co_dispatch (sample_chain rows held t))) \<subseteq> task_id ` set (task_rows rows)"
    by (auto simp: sample_chain_def sample_dispatch_def split: list.splits)
  from rolling_revision_single_assignment [OF p(1) this] sample_previous_distinct p
  show ?thesis by (auto simp: previous_assignments_def)
qed

subsection \<open>Divergences\<close>

text \<open>A frozen assignment that loses an asset is recorded twice: the compiler removes it from the frozen ids before it
  asks for the lost assets of the others, so the score counts one repair as two.\<close>

definition sample_lost :: planning_snapshot where
  "sample_lost = sample_snapshot [sample_uav ''A'' None] [sample_asset ''v9'']"

lemma frozen_loss_recorded_twice:
  "count_action REASSIGNED_AFTER_ASSET_LOSS
     (dec_actions (decide_rolling sample_runtime 3600 sample_lost (Some (sample_plan ''r1'' [sample_assignment])) [] 0)) = 2"
  by code_simp

text \<open>An assignment of the freeze window whose task no longer exists (completed or cancelled) stays in the revision.\<close>

lemma removed_task_stays_frozen:
  "map as_task_id (dec_frozen (decide_rolling sample_runtime 3600 (sample_snapshot [] [sample_asset ''v1''])
     (Some (sample_plan ''r1'' [sample_assignment])) [] 0)) = [''A'']"
  by code_simp

text \<open>A started task that no previous revision assigned is preserved without an assignment: on a baseline build it is
  neither solved nor reported.\<close>

lemma started_task_dropped:
  "let d = decide_rolling sample_runtime 3600
        (sample_snapshot [(sample_uav ''A'' None)\<lparr>tk_status := ''started''\<rparr>] [sample_asset ''v1'']) None [] 0
   in to_resolve d = [] \<and> dec_frozen d = [] \<and> dec_carried d = []"
  by code_simp

end
