(* ===== verification/Broker.thy ===== *)
theory Broker
  imports Events
begin

text \<open>
  The event sources (\<open>stream/broker.py\<close>, \<open>stream/redis_stream.py\<close> and the file source of
  \<open>stream/source.py\<close>). The broker clients are not part of the program: a Kafka consumer is the list of
  the results of its polls, a Redis server the function from a cursor to the entries it answers with. A
  generator that raises ends in \<open>Crashed\<close>.
\<close>

subsection \<open>Intake of one message\<close>

text \<open>What \<open>json.loads\<close> returns: an object, with the keys \<open>parse_event\<close> reads, or another value, which has no
  \<open>get\<close>. A failing \<open>loads\<close> is \<open>None\<close>.\<close>

datatype json_value = JObject raw_event | JOther

text \<open>\<open>Rejected\<close> is the \<open>ValueError\<close> of a malformed body, \<open>Raised\<close> any other exception.\<close>

datatype intake = Accepted event | Rejected | Raised

record codec =
  loads :: "string \<Rightarrow> json_value option"
  payload_loads :: "string \<Rightarrow> py_val option"
  render_ts :: "real \<Rightarrow> string"

definition intake_text :: "codec \<Rightarrow> string \<Rightarrow> intake" where
  "intake_text cd body =
     (case loads cd body of
        None \<Rightarrow> Rejected
      | Some JOther \<Rightarrow> Raised
      | Some (JObject r) \<Rightarrow> (case parse_event (payload_loads cd) r of None \<Rightarrow> Rejected | Some e \<Rightarrow> Accepted e))"

definition stamped :: "codec \<Rightarrow> real option \<Rightarrow> intake \<Rightarrow> intake" where
  "stamped cd ms i =
     (case i of Accepted e \<Rightarrow> Accepted (stamp_broker_ingested (render_ts cd) e ms) | _ \<Rightarrow> i)"

subsection \<open>The file source\<close>

text \<open>\<open>None\<close> is the exception of the first bad line.\<close>

fun jsonl_events :: "codec \<Rightarrow> string list \<Rightarrow> event list option" where
  "jsonl_events cd [] = Some []"
| "jsonl_events cd (line # rest) =
     (if py_strip line = [] then jsonl_events cd rest
      else case intake_text cd (py_strip line) of
             Accepted e \<Rightarrow> map_option (Cons e) (jsonl_events cd rest)
           | _ \<Rightarrow> None)"

subsection \<open>Kafka\<close>

text \<open>The value of a record: text, bytes (with what \<open>decode("utf-8")\<close> gives) or null.\<close>

datatype message_value = ValueText string | ValueBytes "string option" | ValueNull

text \<open>What the \<open>timestamp\<close> method returns: \<open>None\<close> when there is none or it raises.\<close>

definition message_epoch_ms :: "(int \<times> real option) option \<Rightarrow> real option" where
  "message_epoch_ms ts =
     (case ts of
        None \<Rightarrow> None
      | Some (ts_type, ts_ms) \<Rightarrow> if ts_type = 0 then None else ts_ms)"

datatype poll = Empty | BrokerError | Message message_value "(int \<times> real option) option"

definition kafka_intake :: "codec \<Rightarrow> message_value \<Rightarrow> (int \<times> real option) option \<Rightarrow> intake" where
  "kafka_intake cd v ts =
     (case v of
        ValueText s \<Rightarrow> stamped cd (message_epoch_ms ts) (intake_text cd s)
      | ValueBytes (Some s) \<Rightarrow> stamped cd (message_epoch_ms ts) (intake_text cd s)
      | ValueBytes None \<Rightarrow> Raised
      | ValueNull \<Rightarrow> Raised)"

text \<open>How a source ends: the bound on empty polls, an exception, or not yet.\<close>

datatype ending = Stopped | Crashed | Running

definition bound_reached :: "nat option \<Rightarrow> nat \<Rightarrow> bool" where
  "bound_reached max_empty n = (case max_empty of None \<Rightarrow> False | Some m \<Rightarrow> m \<le> n)"

fun kafka_consume :: "codec \<Rightarrow> nat option \<Rightarrow> nat \<Rightarrow> poll list \<Rightarrow> event list \<times> ending" where
  "kafka_consume cd mx n [] = ([], if bound_reached mx n then Stopped else Running)"
| "kafka_consume cd mx n (p # ps) =
     (if bound_reached mx n then ([], Stopped)
      else case p of
        Empty \<Rightarrow> kafka_consume cd mx (Suc n) ps
      | BrokerError \<Rightarrow> kafka_consume cd mx n ps
      | Message v ts \<Rightarrow>
          (case kafka_intake cd v ts of
             Raised \<Rightarrow> ([], Crashed)
           | Rejected \<Rightarrow> kafka_consume cd mx 0 ps
           | Accepted e \<Rightarrow> (let (es, r) = kafka_consume cd mx 0 ps in (e # es, r))))"

text \<open>Offsets: \<open>consumed\<close> since the last commit is what a crash redelivers.\<close>

record kafka_source =
  kc_open :: bool
  kc_position :: nat
  kc_committed :: nat

definition commit_offsets :: "kafka_source \<Rightarrow> kafka_source" where
  "commit_offsets s = (if kc_open s then s\<lparr>kc_committed := kc_position s\<rparr> else s)"

definition kafka_commit :: "kafka_source \<Rightarrow> kafka_source" where
  "kafka_commit s = (if kc_open s then (commit_offsets s)\<lparr>kc_open := False\<rparr> else s)"

definition kafka_close :: "kafka_source \<Rightarrow> kafka_source" where
  "kafka_close s = (if kc_open s then s\<lparr>kc_open := False\<rparr> else s)"

subsection \<open>Redis streams\<close>

text \<open>An entry: its id and the body field, if present; \<open>json.loads(None)\<close> is a \<open>TypeError\<close>, which is caught.\<close>

type_synonym entry = "string \<times> string option"

text \<open>\<open>split("-", 1)[0]\<close> of the id.\<close>

definition entry_id_epoch_ms :: "runtime \<Rightarrow> string \<Rightarrow> real option" where
  "entry_id_epoch_ms rt i = float_of_str rt (takeWhile (\<lambda>c. c \<noteq> CHR ''-'') i)"

definition redis_parse :: "codec \<Rightarrow> runtime \<Rightarrow> entry \<Rightarrow> intake" where
  "redis_parse cd rt e =
     (case snd e of
        None \<Rightarrow> Rejected
      | Some body \<Rightarrow> stamped cd (entry_id_epoch_ms rt (fst e)) (intake_text cd body))"

text \<open>One \<open>_xreadgroup\<close>: the ids it appends, and the parsed events or \<open>None\<close> when an entry raises.\<close>

fun parse_batch :: "codec \<Rightarrow> runtime \<Rightarrow> entry list \<Rightarrow> string list \<times> event list option" where
  "parse_batch cd rt [] = ([], Some [])"
| "parse_batch cd rt (e # es) =
     (case redis_parse cd rt e of
        Raised \<Rightarrow> ([fst e], None)
      | Rejected \<Rightarrow> (let (ids, r) = parse_batch cd rt es in (fst e # ids, r))
      | Accepted ev \<Rightarrow> (let (ids, r) = parse_batch cd rt es in (fst e # ids, map_option (Cons ev) r)))"

text \<open>The read of the pending entries, from a cursor on: the ids read, the events yielded and whether it raised.
  It does not return when the server keeps answering.\<close>

partial_function (option) read_pending ::
  "codec \<Rightarrow> runtime \<Rightarrow> (string \<Rightarrow> entry list) \<Rightarrow> string \<Rightarrow> (string list \<times> event list \<times> bool) option" where
  "read_pending cd rt server cursor =
     (if server cursor = [] then Some ([], [], False)
      else case parse_batch cd rt (server cursor) of
             (ids, None) \<Rightarrow> Some (ids, [], True)
           | (ids, Some evs) \<Rightarrow>
               Option.bind (read_pending cd rt server (fst (last (server cursor))))
                 (\<lambda>(ids', evs', crashed). Some (ids @ ids', evs @ evs', crashed)))"

fun read_new :: "codec \<Rightarrow> runtime \<Rightarrow> nat option \<Rightarrow> nat \<Rightarrow> entry list list \<Rightarrow> string list \<times> event list \<times> ending" where
  "read_new cd rt mx n [] = ([], [], if bound_reached mx n then Stopped else Running)"
| "read_new cd rt mx n (batch # rest) =
     (if bound_reached mx n then ([], [], Stopped)
      else if batch = [] then read_new cd rt mx (Suc n) rest
      else case parse_batch cd rt batch of
             (ids, None) \<Rightarrow> (ids, [], Crashed)
           | (ids, Some evs) \<Rightarrow>
               (let (ids', evs', r) = read_new cd rt mx 0 rest in (ids @ ids', evs @ evs', r)))"

text \<open>A whole iteration: pending entries, then new ones.\<close>

definition redis_iter ::
  "codec \<Rightarrow> runtime \<Rightarrow> nat option \<Rightarrow> (string \<Rightarrow> entry list) \<Rightarrow> entry list list
   \<Rightarrow> (string list \<times> event list \<times> ending) option" where
  "redis_iter cd rt mx server new =
     map_option (\<lambda>(ids, evs, crashed).
        if crashed then (ids, evs, Crashed)
        else let (ids', evs', r) = read_new cd rt mx 0 new in (ids @ ids', evs @ evs', r))
       (read_pending cd rt server ''0'')"

record redis_source =
  rs_open :: bool
  rs_ids :: "string list"

text \<open>\<open>commit\<close>: the ids to acknowledge and the source afterwards.\<close>

definition redis_commit :: "redis_source \<Rightarrow> string list \<times> redis_source" where
  "redis_commit s =
     (if \<not> rs_open s \<or> rs_ids s = [] then ([], s\<lparr>rs_ids := []\<rparr>)
      else (rs_ids s, \<lparr>rs_open = False, rs_ids = []\<rparr>))"

definition redis_close :: "redis_source \<Rightarrow> redis_source" where
  "redis_close s = \<lparr>rs_open = False, rs_ids = []\<rparr>"

subsection \<open>The registry of sources\<close>

record 'f source_registry =
  factories :: "(string, 'f) dict"
  dedup_kinds :: "string list"

text \<open>\<open>None\<close> is the \<open>ValueError\<close>.\<close>

definition register_event_source ::
  "string \<Rightarrow> 'f \<Rightarrow> bool \<Rightarrow> 'f source_registry \<Rightarrow> 'f source_registry option" where
  "register_event_source kind factory uses_dedup_store r =
     (if kind = [] \<or> py_strip kind \<noteq> kind then None
      else Some (r\<lparr>factories := AList.update kind factory (factories r),
                   dedup_kinds := (if uses_dedup_store then List.insert kind (dedup_kinds r)
                                   else removeAll kind (dedup_kinds r))\<rparr>))"

definition registered_event_sources :: "'f source_registry \<Rightarrow> string list" where
  "registered_event_sources r = sort (map fst (factories r))"

definition open_event_source :: "'f source_registry \<Rightarrow> string \<Rightarrow> 'f option" where
  "open_event_source r kind = map_of (factories r) kind"

definition open_dedup_store :: "'f source_registry \<Rightarrow> string \<Rightarrow> bool \<Rightarrow> bool" where
  "open_dedup_store r kind enabled \<longleftrightarrow> kind \<in> set (dedup_kinds r) \<and> enabled"

subsection \<open>Lemmas\<close>

text \<open>The events of the accepted items, in order.\<close>

definition accepted :: "('a \<Rightarrow> intake) \<Rightarrow> 'a list \<Rightarrow> event list" where
  "accepted f xs = List.map_filter (\<lambda>x. case f x of Accepted e \<Rightarrow> Some e | _ \<Rightarrow> None) xs"

lemma accepted_simps [simp]:
  "accepted f [] = []"
  "accepted f (x # xs) = (case f x of Accepted e \<Rightarrow> e # accepted f xs | _ \<Rightarrow> accepted f xs)"
  "accepted f (xs @ ys) = accepted f xs @ accepted f ys"
  by (auto simp: accepted_def map_filter_simps map_filter_def split: intake.splits)

definition poll_intake :: "codec \<Rightarrow> poll \<Rightarrow> intake" where
  "poll_intake cd p = (case p of Message v ts \<Rightarrow> kafka_intake cd v ts | _ \<Rightarrow> Rejected)"

text \<open>Fewer than \<open>m\<close> empty polls between two messages, \<open>n\<close> of them already seen.\<close>

fun gap_below :: "nat \<Rightarrow> nat \<Rightarrow> poll list \<Rightarrow> bool" where
  "gap_below m n [] \<longleftrightarrow> n < m"
| "gap_below m n (Empty # ps) \<longleftrightarrow> n < m \<and> gap_below m (Suc n) ps"
| "gap_below m n (BrokerError # ps) \<longleftrightarrow> n < m \<and> gap_below m n ps"
| "gap_below m n (Message v ts # ps) \<longleftrightarrow> n < m \<and> gap_below m 0 ps"

lemma kafka_empty_polls: "snd (kafka_consume cd (Some m) n (replicate k Empty @ rest)) = Stopped
    \<and> fst (kafka_consume cd (Some m) n (replicate k Empty @ rest)) = []" if "m \<le> n + k"
  using that
proof (induction k arbitrary: n)
  case 0
  then show ?case by (cases rest) (simp_all add: bound_reached_def)
qed (simp add: bound_reached_def)

lemma kafka_prefix:
  "prefix (fst (kafka_consume cd mx n ps)) (accepted (poll_intake cd) ps)"
proof (induction cd mx n ps rule: kafka_consume.induct)
  case (2 cd mx n p ps)
  then show ?case
    by (auto simp: poll_intake_def split: poll.splits intake.splits prod.splits)
qed simp

lemma kafka_stops:
  assumes "\<forall>p\<in>set ps. poll_intake cd p \<noteq> Raised"
  shows "snd (kafka_consume cd (Some m) n (ps @ replicate m Empty @ rest)) = Stopped"
  using assms
proof (induction ps arbitrary: n)
  case Nil
  show ?case using kafka_empty_polls [of m n m] by simp
next
  case (Cons p ps)
  then show ?case
    by (auto simp: poll_intake_def split: poll.splits intake.splits prod.splits) (metis snd_conv)
qed

lemma kafka_complete:
  assumes "\<forall>p\<in>set ps. poll_intake cd p \<noteq> Raised" "gap_below m n ps"
  shows "fst (kafka_consume cd (Some m) n (ps @ replicate m Empty @ rest)) = accepted (poll_intake cd) ps"
  using assms
proof (induction ps arbitrary: n)
  case Nil
  show ?case using kafka_empty_polls [of m n m] by simp
next
  case (Cons p ps)
  then show ?case
    by (cases p) (auto simp: poll_intake_def bound_reached_def split: intake.splits prod.splits, metis fst_conv)
qed

lemma parse_batch_ok:
  "\<forall>e\<in>set es. redis_parse cd rt e \<noteq> Raised \<Longrightarrow>
   parse_batch cd rt es = (map fst es, Some (accepted (redis_parse cd rt) es))"
  by (induction es) (auto split: intake.splits)

text \<open>What a server with the pending entries \<open>es\<close> has after a cursor.\<close>

definition entries_after :: "string \<Rightarrow> entry list \<Rightarrow> entry list" where
  "entries_after cursor es =
     (if cursor = ''0'' then es else tl (dropWhile (\<lambda>e. fst e \<noteq> cursor) es))"

lemma entries_after_split:
  assumes "distinct (map fst (xs @ ys))" "xs \<noteq> []" "''0'' \<notin> fst ` set xs"
  shows "entries_after (fst (last xs)) (xs @ ys) = ys"
proof -
  obtain zs z where xs: "xs = zs @ [z]" using assms(2) by (cases xs rule: rev_cases) auto
  with assms(1) have "\<forall>e\<in>set zs. fst e \<noteq> fst z" by (auto simp: image_iff)
  then have "dropWhile (\<lambda>e. fst e \<noteq> fst z) (zs @ z # ys) = z # ys"
    by (subst dropWhile_append2) auto
  with xs assms(3) show ?thesis by (auto simp: entries_after_def)
qed

lemma read_pending_suffix:
  assumes server: "server = (\<lambda>c. take k (entries_after c es))" "0 < k"
    and ids: "distinct (map fst es)" "''0'' \<notin> fst ` set es" "\<forall>e\<in>set es. redis_parse cd rt e \<noteq> Raised"
  shows "es = xs @ ys \<Longrightarrow> read_pending cd rt server (if xs = [] then ''0'' else fst (last xs))
    = Some (map fst ys, accepted (redis_parse cd rt) ys, False)"
proof (induction ys arbitrary: xs rule: length_induct)
  case (1 ys)
  let ?c = "if xs = [] then ''0'' else fst (last xs)"
  have "entries_after ?c es = ys"
  proof (cases "xs = []")
    case False
    moreover have "''0'' \<notin> fst ` set xs" using ids(2) 1(2) by (simp add: image_Un)
    ultimately show ?thesis using entries_after_split [of xs ys] ids(1) 1(2) by simp
  qed (simp add: 1(2) entries_after_def)
  then have s: "server ?c = take k ys" by (simp add: server(1))
  show ?case
  proof (cases "ys = []")
    case True
    with s show ?thesis by (subst read_pending.simps) simp
  next
    case False
    with server(2) have ne: "take k ys \<noteq> []" by simp
    have batch: "parse_batch cd rt (take k ys) = (map fst (take k ys), Some (accepted (redis_parse cd rt) (take k ys)))"
      using ids(3) 1(2) by (intro parse_batch_ok) (auto dest: in_set_takeD)
    have "es = (xs @ take k ys) @ drop k ys" using 1(2) by simp
    moreover have "length (drop k ys) < length ys" using False server(2) by (cases ys) auto
    ultimately have "read_pending cd rt server (fst (last (take k ys)))
        = Some (map fst (drop k ys), accepted (redis_parse cd rt) (drop k ys), False)"
      using 1(1) [rule_format, of "drop k ys" "xs @ take k ys"] ne by (simp add: last_append)
    moreover have "accepted (redis_parse cd rt) (take k ys) @ accepted (redis_parse cd rt) (drop k ys)
        = accepted (redis_parse cd rt) ys" unfolding accepted_simps(3) [symmetric] by simp
    moreover have "map fst (take k ys) @ map fst (drop k ys) = map fst ys"
      unfolding map_append [symmetric] by simp
    ultimately show ?thesis using s ne batch by (subst read_pending.simps) simp
  qed
qed

subsection \<open>Draining a backlog\<close>



subsection \<open>Instances\<close>

definition sample_raw :: "string \<Rightarrow> raw_event" where
  "sample_raw i =
     \<lparr>raw_payload = Some (VDict []), raw_payload_json = None, raw_event_type = ''task.started'',
      raw_event_id = i, raw_observed_at = ''t1'', raw_entity_ref = ''A'', raw_ingested_at = ''t2''\<rparr>"

text \<open>A codec that reads the text \<open>e1\<close> as an event, \<open>[]\<close> as a JSON array, and nothing else.\<close>

definition sample_codec :: codec where
  "sample_codec =
     \<lparr>loads = map_of [(''e1'', JObject (sample_raw ''e1'')), (''e2'', JObject (sample_raw ''e2'')), (''[]'', JOther)],
      payload_loads = (\<lambda>_. None), render_ts = (\<lambda>_. ''t'')\<rparr>"

definition sample_polls :: "poll list" where
  "sample_polls = [Empty, Message (ValueText ''e1'') None, BrokerError, Message (ValueText ''junk'') None, Empty,
     Message (ValueBytes (Some ''e2'')) (Some (1, Some 5))]"


definition sample_entries :: "entry list" where
  "sample_entries = [(''1-0'', Some ''e1''), (''2-0'', Some ''junk''), (''3-0'', None), (''4-0'', Some ''e2'')]"


subsection \<open>Divergences\<close>

text \<open>The source promises to skip a malformed payload, but a body that is not UTF-8, or null, or a JSON value that
  is not an object, raises out of the loop: one bad message stops the stream.\<close>

lemma kafka_bad_bytes_crash:
  "kafka_consume sample_codec (Some 3) 0 [Message (ValueBytes None) None, Message (ValueText ''e1'') None] = ([], Crashed)"
  by code_simp

lemma kafka_json_array_crash:
  "kafka_consume sample_codec (Some 3) 0 [Message (ValueText ''[]'') None, Message (ValueText ''e1'') None] = ([], Crashed)"
  by code_simp

lemma redis_json_array_crash:
  "redis_iter sample_codec sample_runtime (Some 3) (\<lambda>_. []) [[(''1-0'', Some ''[]''), (''2-0'', Some ''e1'')]]
   = Some ([''1-0''], [], Crashed)"
proof -
  have "read_pending sample_codec sample_runtime (\<lambda>_. []) ''0'' = Some ([], [], False)"
    by (subst read_pending.simps) simp
  moreover have "read_new sample_codec sample_runtime (Some 3) 0 [[(''1-0'', Some ''[]''), (''2-0'', Some ''e1'')]]
      = ([''1-0''], [], Crashed)" by code_simp
  ultimately show ?thesis by (simp add: redis_iter_def)
qed

text \<open>A broker that keeps answering with errors keeps a bounded consumer running.\<close>

lemma error_polls_never_stop: "0 < m \<Longrightarrow> kafka_consume cd (Some m) 0 (replicate n BrokerError) = ([], Running)"
  by (induction n) (simp_all add: bound_reached_def)

end
