(* ===== verification/Driver.thy ===== *)
theory Driver
  imports Broker Dedup Rolling
begin

text \<open>
  The rolling stream (\<open>stream/driver.py\<close>, \<open>lead_time.py\<close>, \<open>prognosis.py\<close>, \<open>freshness.py\<close> and the rolling and
  watch runs of \<open>planning/plans.py\<close>): converged batches of events, one revision per batch that changed
  something, the feedback logs, and publication with record-then-commit. The snapshot builder and the
  adapter are arguments; what a revision callback changes (artifacts, the deduplication store) is the
  state \<open>'w\<close> it maps. An append-only log file is the list of its records. \<open>None\<close> is an exception.
\<close>

subsection \<open>Converged batches\<close>

definition event_now :: "runtime \<Rightarrow> real \<Rightarrow> event \<Rightarrow> real" where
  "event_now rt fallback e =
     (if observed_text e = [] then fallback
      else case fromisoformat rt (replace_z (observed_text e)) of None \<Rightarrow> fallback | Some t \<Rightarrow> t)"

fun extend_batches :: "('e \<Rightarrow> real) \<Rightarrow> real \<Rightarrow> 'e list list \<Rightarrow> 'e list \<Rightarrow> 'e list list" where
  "extend_batches at_time window batches [] = batches"
| "extend_batches at_time window batches (e # es) =
     (if \<bar>at_time e - at_time (last (last batches))\<bar> \<le> window
      then extend_batches at_time window (butlast batches @ [last batches @ [e]]) es
      else extend_batches at_time window (batches @ [[e]]) es)"

definition coalesce :: "runtime \<Rightarrow> event list \<Rightarrow> real \<Rightarrow> real \<Rightarrow> event list list" where
  "coalesce rt events window_s fallback =
     (if window_s \<le> 0 \<or> events = [] then map (\<lambda>e. [e]) events
      else extend_batches (event_now rt fallback) window_s [[hd events]] (tl events))"

subsection \<open>Lead times\<close>

record lead_record =
  lr_task_id :: string
  lr_via :: string
  lr_is_service :: bool
  lr_completed_at :: "real option"
  lr_deadline :: "real option"
  lead_time_s :: "real option"
  lr_planned_finish :: "real option"
  schedule_error_s :: "real option"

definition lead_parse_ts :: "runtime \<Rightarrow> py_val \<Rightarrow> real option" where
  "lead_parse_ts rt raw = (if truthy raw then fromisoformat rt (replace_z (py_str rt raw)) else None)"

definition lead_record_of :: "runtime \<Rightarrow> (string, assignment) dict \<Rightarrow> completion \<Rightarrow> lead_record" where
  "lead_record_of rt asgs c =
     (let completed = lead_parse_ts rt (VStr (c_completed_at c)); deadline = lead_parse_ts rt (c_deadline c);
          a = map_of asgs (c_task_id c)
      in \<lparr>lr_task_id = c_task_id c, lr_via = c_via c, lr_is_service = is_service_task_id (c_task_id c),
          lr_completed_at = completed, lr_deadline = deadline,
          lead_time_s = (case (deadline, completed) of
             (Some d, Some t) \<Rightarrow> Some (py_round 1 (d - t)) | _ \<Rightarrow> None),
          lr_planned_finish = map_option planned_finish a,
          schedule_error_s = (case (a, completed) of
             (Some x, Some t) \<Rightarrow> Some (py_round 1 (t - planned_finish x)) | _ \<Rightarrow> None)\<rparr>)"

definition record_completions :: "runtime \<Rightarrow> completion list \<Rightarrow> plan option \<Rightarrow> lead_record list" where
  "record_completions rt cs previous_plan =
     map (lead_record_of rt (by_task (previous_assignments previous_plan))) cs"

record lead_stats =
  n_completions :: nat
  n_with_lead :: nat
  lead_summary :: "(real \<times> real \<times> real \<times> real) option"
  service_summary :: "(nat \<times> real \<times> real) option"

definition share_late :: "real list \<Rightarrow> real" where
  "share_late xs = py_round 4 (real (length (filter (\<lambda>x. x < 0) xs)) / real (length xs))"

definition mean_of :: "real list \<Rightarrow> real" where
  "mean_of xs = py_round 1 (sum_list xs / real (length xs))"

definition lead_time_stats :: "lead_record list \<Rightarrow> lead_stats option" where
  "lead_time_stats entries =
     (let leads = List.map_filter lead_time_s entries;
          service = List.map_filter lead_time_s (filter lr_is_service entries)
      in if entries = [] then None
         else Some \<lparr>n_completions = length entries, n_with_lead = length leads,
           lead_summary = (if leads = [] then None
             else Some (mean_of leads, py_round 1 (Min (set leads)), py_round 1 (Max (set leads)), share_late leads)),
           service_summary = (if service = [] then None
             else Some (length service, mean_of service, share_late service))\<rparr>)"

subsection \<open>Prognosis outcomes\<close>

record outcome_counts =
  n_active :: nat
  n_withdrawn :: nat
  n_escalated :: nat

record prognosis_record =
  pr_generated_at :: real
  pr_revision_id :: string
  pr_counts :: outcome_counts
  pr_by_asset_type :: "(string, outcome_counts) dict"

definition service_task_ids :: "plan \<Rightarrow> string list" where
  "service_task_ids p =
     remdups (filter is_service_task_id (map as_task_id (assignments p) @ map ua_task_id (unassigned_tasks p)))"

definition action_task_ids :: "plan \<Rightarrow> corrective_action_type \<Rightarrow> string list" where
  "action_task_ids p t = map ca_task_id (filter (\<lambda>ca. ca_action ca = t) (corrective_actions p))"

definition count_type ::
  "(outcome_counts \<Rightarrow> outcome_counts) \<Rightarrow> (string, string) dict \<Rightarrow> string list
   \<Rightarrow> (string, outcome_counts) dict \<Rightarrow> (string, outcome_counts) dict" where
  "count_type bump asset_types names d =
     fold (\<lambda>t d. let ty = dget_default asset_types (service_asset_id t) '''' in
             if ty = '''' then d
             else AList.update ty (bump (dget_default d ty \<lparr>n_active = 0, n_withdrawn = 0, n_escalated = 0\<rparr>)) d)
       names d"

definition split_by_asset_type ::
  "string list \<Rightarrow> string list \<Rightarrow> string list \<Rightarrow> (string, string) dict \<Rightarrow> (string, outcome_counts) dict" where
  "split_by_asset_type active_ids withdrawn_ids escalated_ids asset_types =
     count_type (\<lambda>c. c\<lparr>n_escalated := n_escalated c + 1\<rparr>) asset_types escalated_ids
       (count_type (\<lambda>c. c\<lparr>n_withdrawn := n_withdrawn c + 1\<rparr>) asset_types withdrawn_ids
         (count_type (\<lambda>c. c\<lparr>n_active := n_active c + 1\<rparr>) asset_types active_ids []))"

definition record_prognosis_outcomes :: "plan \<Rightarrow> (string, string) dict \<Rightarrow> prognosis_record" where
  "record_prognosis_outcomes p asset_types =
     (let active_ids = service_task_ids p; withdrawn = action_task_ids p SERVICE_WITHDRAWN;
          escalated = action_task_ids p SERVICE_ESCALATED
      in \<lparr>pr_generated_at = pl_generated_at p, pr_revision_id = revision_id p,
          pr_counts = \<lparr>n_active = length active_ids, n_withdrawn = length withdrawn, n_escalated = length escalated\<rparr>,
          pr_by_asset_type = (if asset_types = [] then []
                              else split_by_asset_type active_ids withdrawn escalated asset_types)\<rparr>)"

text \<open>The rates: observed prognoses, false positives and false negatives per observed one.\<close>

definition rates :: "outcome_counts \<Rightarrow> (real \<times> real \<times> real) option" where
  "rates c =
     (let observed = n_active c + n_withdrawn c in
      if observed = 0 then None
      else Some (real observed, real (n_withdrawn c) / real observed, real (n_escalated c) / real observed))"

definition add_counts :: "outcome_counts \<Rightarrow> outcome_counts \<Rightarrow> outcome_counts" where
  "add_counts c d = \<lparr>n_active = n_active c + n_active d, n_withdrawn = n_withdrawn c + n_withdrawn d,
                     n_escalated = n_escalated c + n_escalated d\<rparr>"

definition prognosis_accuracy ::
  "prognosis_record list \<Rightarrow> ((real \<times> real \<times> real) \<times> (string, real \<times> real \<times> real) dict) option" where
  "prognosis_accuracy entries =
     (let zero = \<lparr>n_active = 0, n_withdrawn = 0, n_escalated = 0\<rparr>;
          overall = fold (\<lambda>r c. add_counts c (pr_counts r)) entries zero;
          by_type = fold (\<lambda>r d. fold (\<lambda>(ty, c) d. AList.update ty (add_counts (dget_default d ty zero) c) d)
                                  (pr_by_asset_type r) d) entries []
      in map_option (\<lambda>r. (r, List.map_filter (\<lambda>(ty, c). map_option (Pair ty) (rates c)) by_type)) (rates overall))"

text \<open>The recommendations: a scope with the alerts it raises.\<close>

definition recommendation :: "real \<Rightarrow> real \<Rightarrow> (real \<times> real \<times> real) \<Rightarrow> bool \<times> bool" where
  "recommendation fp_alert fn_alert r = (fst (snd r) > fp_alert, snd (snd r) > fn_alert)"

definition threshold_recommendations ::
  "real \<Rightarrow> real \<Rightarrow> ((real \<times> real \<times> real) \<times> (string, real \<times> real \<times> real) dict) option
   \<Rightarrow> (string \<times> bool \<times> bool) list" where
  "threshold_recommendations fp_alert fn_alert accuracy =
     (case accuracy of
        None \<Rightarrow> []
      | Some (overall, by_type) \<Rightarrow>
          ('''', recommendation fp_alert fn_alert overall)
          # map (\<lambda>(ty, r). (ty, recommendation fp_alert fn_alert r)) by_type)"

subsection \<open>Freshness\<close>

definition newly_visible_sources :: "plan \<Rightarrow> planning_snapshot \<Rightarrow> (string, real option \<times> real) dict" where
  "newly_visible_sources p snapshot =
     List.map_filter (\<lambda>(cid, visible).
       case map_of (pl_source_watermarks p) cid of
         None \<Rightarrow> Some (cid, (None, visible))
       | Some planned \<Rightarrow> if visible > planned then Some (cid, (Some planned, visible)) else None)
       (sn_source_watermarks snapshot)"

definition should_replan :: "plan \<Rightarrow> planning_snapshot \<Rightarrow> bool" where
  "should_replan p snapshot \<longleftrightarrow> newly_visible_sources p snapshot \<noteq> []"

subsection \<open>The session\<close>

record revision =
  rv_event :: "event option"
  rv_plan :: plan
  rv_snapshot_id :: string
  n_coalesced_events :: nat
  applied_event_ids :: "string list"

text \<open>\<open>dr_build\<close> is \<open>build_from_sources\<close> (sources, effective time, lineage, watermarks), \<open>dr_plan\<close> the adapter's
  \<open>plan\<close> (snapshot, previous plan, service reasons, now).\<close>

record 'g driver =
  dr_applicator :: "'g applicator"
  dr_runtime :: runtime
  dr_build :: "sources \<Rightarrow> real \<Rightarrow> string \<Rightarrow> (string, real) dict \<Rightarrow> planning_snapshot"
  dr_plan :: "planning_snapshot \<Rightarrow> plan option \<Rightarrow> (string, string) dict \<Rightarrow> real \<Rightarrow> plan option"

record stream_session =
  se_effective_at :: real
  se_app :: app_state
  se_previous_plan :: "plan option"
  se_service_reasons :: "(string, string) dict"
  lead_log :: "lead_record list"
  coverage_log :: "coverage_report list"
  prognosis_log :: "prognosis_record list"

definition fresh_app :: "sources \<Rightarrow> app_state" where
  "fresh_app s = \<lparr>srcs = s, seen_event_ids = [], watermarks = [], completions = [], coverage = [],
                   coverage_reports = []\<rparr>"

definition open_session :: "sources \<Rightarrow> real \<Rightarrow> stream_session" where
  "open_session s t =
     \<lparr>se_effective_at = t, se_app = fresh_app s, se_previous_plan = None, se_service_reasons = [],
      lead_log = [], coverage_log = [], prognosis_log = []\<rparr>"

text \<open>The baseline revision.\<close>

definition session_start :: "'g driver \<Rightarrow> stream_session \<Rightarrow> (revision \<times> stream_session) option" where
  "session_start D s =
     (let snapshot = dr_build D (srcs (se_app s)) (se_effective_at s) ''stream://initial'' [] in
      map_option (\<lambda>p.
        (\<lparr>rv_event = None, rv_plan = p, rv_snapshot_id = snapshot_id snapshot, n_coalesced_events = 1,
          applied_event_ids = []\<rparr>,
         s\<lparr>se_previous_plan := Some p, se_service_reasons := service_task_reasons snapshot\<rparr>))
       (dr_plan D snapshot None [] (se_effective_at s)))"

text \<open>Apply the events of a batch, with the flag of each.\<close>

fun apply_batch ::
  "'g driver \<Rightarrow> (string \<Rightarrow> bool) \<Rightarrow> event list \<Rightarrow> app_state \<Rightarrow> (bool list \<times> app_state) option" where
  "apply_batch D published [] st = Some ([], st)"
| "apply_batch D published (e # es) st =
     (case apply_event (dr_applicator D) (dr_runtime D) published e st of
        None \<Rightarrow> None
      | Some (b, st') \<Rightarrow> map_option (\<lambda>(bs, st''). (b # bs, st'')) (apply_batch D published es st'))"

definition applied_ids :: "event list \<Rightarrow> bool list \<Rightarrow> string list" where
  "applied_ids batch applied =
     map (\<lambda>(e, b). event_id e) (filter (\<lambda>(e, b). b \<and> event_id e \<noteq> []) (zip batch applied))"

text \<open>The logs drained behind a batch.\<close>

definition drain_logs :: "runtime \<Rightarrow> stream_session \<Rightarrow> stream_session" where
  "drain_logs rt s =
     s\<lparr>lead_log := lead_log s @ record_completions rt (completions (se_app s)) (se_previous_plan s),
       coverage_log := coverage_log s @ coverage_reports (se_app s),
       se_app := (se_app s)\<lparr>completions := [], coverage_reports := []\<rparr>\<rparr>"

text \<open>One batch: \<open>None\<close> for an exception, otherwise the revision, if any, and the session.\<close>

definition drain_batch ::
  "'g driver \<Rightarrow> (string \<Rightarrow> bool) \<Rightarrow> event list \<Rightarrow> stream_session \<Rightarrow> (revision option \<times> stream_session) option" where
  "drain_batch D published batch s =
     (case apply_batch D published batch (se_app s) of
        None \<Rightarrow> None
      | Some (applied, st) \<Rightarrow>
          let s1 = drain_logs (dr_runtime D) (s\<lparr>se_app := st\<rparr>) in
          if \<not> list_ex id applied then Some (None, s1)
          else
            let last_event = last batch;
                snapshot = dr_build D (srcs (se_app s1)) (se_effective_at s1)
                             (''stream://'' @ event_id last_event) (watermarks (se_app s1))
            in map_option (\<lambda>p.
                 (Some \<lparr>rv_event = Some last_event, rv_plan = p, rv_snapshot_id = snapshot_id snapshot,
                        n_coalesced_events = length (filter id applied),
                        applied_event_ids = applied_ids batch applied\<rparr>,
                  s1\<lparr>se_previous_plan := Some p, se_service_reasons := service_task_reasons snapshot,
                     prognosis_log := prognosis_log s1 @
                       [record_prognosis_outcomes p
                          (fold (\<lambda>a. AList.update (asset_id a) (asset_type a)) (sn_assets snapshot) [])]\<rparr>))
                 (dr_plan D snapshot (se_previous_plan s1) (se_service_reasons s1)
                    (event_now (dr_runtime D) (se_effective_at s1) last_event)))"

text \<open>The loop over the batches: \<open>publish\<close> is \<open>on_revision\<close>, \<open>member\<close> what the applicator asks of the store.\<close>

fun drain_batches ::
  "'g driver \<Rightarrow> ('w \<Rightarrow> string \<Rightarrow> bool) \<Rightarrow> (revision \<Rightarrow> 'w \<Rightarrow> 'w option) \<Rightarrow> event list list \<Rightarrow> stream_session \<times> 'w
   \<Rightarrow> (revision list \<times> stream_session \<times> 'w) option" where
  "drain_batches D member publish [] (s, w) = Some ([], s, w)"
| "drain_batches D member publish (batch # rest) (s, w) =
     (case drain_batch D (member w) batch s of
        None \<Rightarrow> None
      | Some (None, s') \<Rightarrow> drain_batches D member publish rest (s', w)
      | Some (Some r, s') \<Rightarrow>
          (case publish r w of
             None \<Rightarrow> None
           | Some w' \<Rightarrow> map_option (\<lambda>(rs, sw). (r # rs, sw)) (drain_batches D member publish rest (s', w'))))"

text \<open>\<open>None\<close> also when the session was not started.\<close>

definition drain ::
  "'g driver \<Rightarrow> ('w \<Rightarrow> string \<Rightarrow> bool) \<Rightarrow> (revision \<Rightarrow> 'w \<Rightarrow> 'w option) \<Rightarrow> event list \<Rightarrow> real \<Rightarrow> stream_session \<times> 'w
   \<Rightarrow> (revision list \<times> stream_session \<times> 'w) option" where
  "drain D member publish events window_s sw =
     (if se_previous_plan (fst sw) = None then None
      else drain_batches D member publish
             (coalesce (dr_runtime D) events window_s (se_effective_at (fst sw))) sw)"

definition driver_run ::
  "'g driver \<Rightarrow> ('w \<Rightarrow> string \<Rightarrow> bool) \<Rightarrow> sources \<Rightarrow> event list \<Rightarrow> real \<Rightarrow> real \<Rightarrow> 'w
   \<Rightarrow> (revision list \<times> stream_session) option" where
  "driver_run D member sources events effective window_s w =
     Option.bind (session_start D (open_session sources effective)) (\<lambda>(baseline, s).
       map_option (\<lambda>(rs, s', w'). (baseline # rs, s'))
         (drain D member (\<lambda>r w. Some w) events window_s (s, w)))"

subsection \<open>Publication\<close>

text \<open>What the runs write: the revisions in order and the deduplication store, if any.\<close>

record publisher =
  written :: "revision list"
  store :: "dedup option"

definition suppressed :: "publisher \<Rightarrow> string \<Rightarrow> bool" where
  "suppressed w i = (case store w of None \<Rightarrow> False | Some d \<Rightarrow> contains d i)"

definition write_revision :: "(plan \<Rightarrow> bool) \<Rightarrow> revision \<Rightarrow> publisher \<Rightarrow> publisher option" where
  "write_revision conforms r w =
     (if conforms (rv_plan r) then Some (w\<lparr>written := written w @ [r]\<rparr>) else None)"

definition record_ids :: "nat \<Rightarrow> string list \<Rightarrow> publisher \<Rightarrow> publisher" where
  "record_ids max_ids names w = w\<lparr>store := map_option (record_published max_ids names) (store w)\<rparr>"

text \<open>The watcher's callback: write, then record.\<close>

definition publish_revision :: "(plan \<Rightarrow> bool) \<Rightarrow> nat \<Rightarrow> revision \<Rightarrow> publisher \<Rightarrow> publisher option" where
  "publish_revision conforms max_ids r w =
     map_option (\<lambda>w'. if applied_event_ids r = [] then w' else record_ids max_ids (applied_event_ids r) w')
       (write_revision conforms r w)"

fun write_all :: "(plan \<Rightarrow> bool) \<Rightarrow> revision list \<Rightarrow> publisher \<Rightarrow> publisher option" where
  "write_all conforms [] w = Some w"
| "write_all conforms (r # rs) w = Option.bind (write_revision conforms r w) (write_all conforms rs)"

text \<open>\<open>run_plan_rolling\<close>: all revisions are written, then all their ids recorded; the offsets are committed
  after that.\<close>

definition run_plan_rolling ::
  "'g driver \<Rightarrow> (plan \<Rightarrow> bool) \<Rightarrow> nat \<Rightarrow> real \<Rightarrow> sources \<Rightarrow> event list \<Rightarrow> real \<Rightarrow> publisher
   \<Rightarrow> publisher option" where
  "run_plan_rolling D conforms max_ids window_s sources events effective w =
     Option.bind (driver_run D suppressed sources events effective window_s w) (\<lambda>(rs, s).
       map_option (record_ids max_ids (concat (map applied_event_ids rs))) (write_all conforms rs w))"

text \<open>One cycle of \<open>run_plan_watch\<close> on the events its source yields: the session and publisher, and whether the
  source is committed (otherwise it is closed).\<close>

definition watch_cycle ::
  "'g driver \<Rightarrow> (plan \<Rightarrow> bool) \<Rightarrow> nat \<Rightarrow> real \<Rightarrow> event list \<Rightarrow> stream_session \<times> publisher
   \<Rightarrow> (bool \<times> stream_session \<times> publisher) option" where
  "watch_cycle D conforms max_ids window_s events sw =
     (if events = [] then Some (False, sw)
      else map_option (\<lambda>(rs, sw'). (True, sw'))
             (drain D suppressed (publish_revision conforms max_ids) events window_s sw))"

definition watch_start ::
  "'g driver \<Rightarrow> (plan \<Rightarrow> bool) \<Rightarrow> nat \<Rightarrow> sources \<Rightarrow> real \<Rightarrow> publisher \<Rightarrow> (stream_session \<times> publisher) option" where
  "watch_start D conforms max_ids sources effective w =
     Option.bind (session_start D (open_session sources effective)) (\<lambda>(baseline, s).
       map_option (Pair s) (publish_revision conforms max_ids baseline w))"

subsection \<open>Lemmas on batches\<close>

lemma extend_batches_concat:
  "batches \<noteq> [] \<Longrightarrow> concat (extend_batches f w batches es) = concat batches @ es"
proof (induction f w batches es rule: extend_batches.induct)
  case (2 f w batches e es)
  have "concat (butlast batches) @ last batches = concat batches"
    using 2(3) by (metis append_butlast_last_id append_Nil2 concat.simps concat_append)
  then show ?case using 2 by simp
qed simp

text \<open>Within a batch consecutive events are close; between batches they are not.\<close>

definition converged :: "('e \<Rightarrow> real) \<Rightarrow> real \<Rightarrow> 'e list list \<Rightarrow> bool" where
  "converged f w batches \<longleftrightarrow>
     (\<forall>b\<in>set batches. b \<noteq> [] \<and> successively (\<lambda>x y. \<bar>f y - f x\<bar> \<le> w) b)
     \<and> successively (\<lambda>b c. \<bar>f (hd c) - f (last b)\<bar> > w) batches"

lemma extend_batches_converged:
  "batches \<noteq> [] \<Longrightarrow> converged f w batches \<Longrightarrow> converged f w (extend_batches f w batches es)"
proof (induction f w batches es rule: extend_batches.induct)
  case (2 f w batches e es)
  obtain bs b where b: "batches = bs @ [b]" using 2(3) by (cases batches rule: rev_cases) auto
  with 2(4) have ne: "b \<noteq> []" by (simp add: converged_def)
  show ?case
  proof (cases "\<bar>f e - f (last (last batches))\<bar> \<le> w")
    case True
    have "converged f w (bs @ [b @ [e]])"
      using 2(4) True ne by (auto simp: converged_def b successively_append_iff)
    with 2(1) [OF True] True show ?thesis by (simp add: b)
  next
    case False
    have "converged f w (batches @ [[e]])"
      using 2(4) False by (auto simp: converged_def b successively_append_iff)
    with 2(2) [OF False] False show ?thesis by simp
  qed
qed simp

lemma coalesce_concat: "concat (coalesce rt events window_s fallback) = events"
  using extend_batches_concat [of "[[hd events]]"] by (auto simp: coalesce_def)

text \<open>Convergence batches are exact. The batches are the events in their order, none lost or repeated; with a window each batch
  is a maximal run of events whose observed times follow one another within the window; without one every
  event is a batch of its own.\<close>

theorem coalesce_exact:
  "concat (coalesce rt events window_s fallback) = events \<and>
   (window_s \<le> 0 \<longrightarrow> coalesce rt events window_s fallback = map (\<lambda>e. [e]) events) \<and>
   (0 < window_s \<longrightarrow> converged (event_now rt fallback) window_s (coalesce rt events window_s fallback))"
proof (cases "window_s \<le> 0 \<or> events = []")
  case True
  then show ?thesis by (auto simp: coalesce_def converged_def)
next
  case False
  have "converged (event_now rt fallback) window_s [[hd events]]" by (simp add: converged_def)
  with False extend_batches_converged [of "[[hd events]]"] extend_batches_concat [of "[[hd events]]"]
  show ?thesis by (auto simp: coalesce_def)
qed

subsection \<open>What a batch applies\<close>

lemma apply_batch_spec:
  assumes "apply_batch D published es st = Some (bs, st')"
  shows "length bs = length es \<and> set (seen_event_ids st') = set (seen_event_ids st) \<union> set (applied_ids es bs) \<and>
    distinct (applied_ids es bs) \<and> set (applied_ids es bs) \<inter> set (seen_event_ids st) = {} \<and>
    (\<forall>i\<in>set (applied_ids es bs). \<not> published i \<and> i \<in> event_id ` set es \<and> i \<noteq> []) \<and>
    (\<forall>e\<in>set es. event_id e = [] \<or> event_id e \<in> set (seen_event_ids st') \<or> published (event_id e))"
  using assms
proof (induction es arbitrary: st bs)
  case Nil
  then show ?case by (simp add: applied_ids_def)
next
  case (Cons e es)
  from Cons.prems obtain b st1 bs' where
    step: "apply_event (dr_applicator D) (dr_runtime D) published e st = Some (b, st1)"
    and rest: "apply_batch D published es st1 = Some (bs', st')" and bs: "bs = b # bs'"
    by (auto split: option.splits)
  have ids: "applied_ids (e # es) (b # bs') =
      (if b \<and> event_id e \<noteq> [] then event_id e # applied_ids es bs' else applied_ids es bs')"
    by (simp add: applied_ids_def)
  note ih = Cons.IH [OF rest] and seen = apply_event_seen [OF step] and flag = apply_event_flag [OF step]
  show ?case
  proof (cases "b \<and> event_id e \<noteq> []")
    case True
    with ih seen flag show ?thesis unfolding bs ids by auto
  next
    case False
    with ih seen flag show ?thesis unfolding bs ids by auto
  qed
qed

definition ids_of :: "revision option \<Rightarrow> string list" where
  "ids_of ro = (case ro of None \<Rightarrow> [] | Some r \<Rightarrow> applied_event_ids r)"

lemma applied_ids_none: "\<not> list_ex id bs \<Longrightarrow> applied_ids es bs = []"
  by (auto simp: applied_ids_def list_ex_iff filter_empty_conv dest: set_zip_rightD)

lemma drain_batch_cases:
  assumes "drain_batch D published batch s = Some (ro, s')"
  obtains bs st where "apply_batch D published batch (se_app s) = Some (bs, st)"
    "seen_event_ids (se_app s') = seen_event_ids st" "ids_of ro = applied_ids batch bs"
proof -
  from assms obtain bs st where a: "apply_batch D published batch (se_app s) = Some (bs, st)"
    by (auto simp: drain_batch_def split: option.splits)
  have "seen_event_ids (se_app s') = seen_event_ids st \<and> ids_of ro = applied_ids batch bs"
    using assms a
    by (auto simp: drain_batch_def Let_def drain_logs_def ids_of_def applied_ids_none split: if_splits)
  with a that show thesis by blast
qed

subsection \<open>Publication and the store\<close>

definition written_ids :: "publisher \<Rightarrow> string list" where
  "written_ids w = concat (map applied_event_ids (written w))"

text \<open>The store holds exactly the ids of the written revisions, none twice, and every id the session saw.\<close>

definition tracked :: "string set \<Rightarrow> string list \<Rightarrow> publisher \<Rightarrow> bool" where
  "tracked S sn w \<longleftrightarrow>
     (\<exists>d. store w = Some d \<and> store_ok d \<and> set (ids d) = set (written_ids w)) \<and>
     distinct (written_ids w) \<and> set (written_ids w) \<subseteq> S \<and> set sn \<subseteq> set (written_ids w)"

lemma tracked_suppressed: "tracked S sn w \<Longrightarrow> suppressed w i \<longleftrightarrow> i \<in> set (written_ids w)"
  by (auto simp: tracked_def suppressed_def contains_def store_ok_def)

lemma store_room:
  assumes "store_ok d" "set (ids d) \<subseteq> S" "set xs \<subseteq> S" "finite S" "card S \<le> n"
  shows "length (ids d) + length (new_ids (seen d) xs) \<le> n"
proof -
  have n: "set (new_ids (seen d) xs) \<subseteq> S" "distinct (new_ids (seen d) xs)"
    "set (ids d) \<inter> set (new_ids (seen d) xs) = {}"
    using new_ids_spec [of "seen d" xs] assms(1,3) by (auto simp: store_ok_def)
  have "distinct (ids d @ new_ids (seen d) xs)" using assms(1) n by (simp add: store_ok_def)
  then have "length (ids d @ new_ids (seen d) xs) = card (set (ids d @ new_ids (seen d) xs))"
    by (rule distinct_card [symmetric])
  also have "\<dots> \<le> card S" using assms(2,4) n(1) by (intro card_mono) auto
  finally show ?thesis using assms(5) by simp
qed

lemma publish_tracked:
  assumes t: "tracked S sn w" and p: "publish_revision conforms n r w = Some w'"
    and new: "distinct (applied_event_ids r)" "set (applied_event_ids r) \<subseteq> S"
      "set (applied_event_ids r) \<inter> set (written_ids w) = {}"
    and S: "finite S" "card S \<le> n" "\<forall>i\<in>S. clean i"
    and sn: "set sn' \<subseteq> set sn \<union> set (applied_event_ids r)"
  shows "tracked S sn' w'" "written_ids w' = written_ids w @ applied_event_ids r"
proof -
  from t obtain d where d: "store w = Some d" "store_ok d" "set (ids d) = set (written_ids w)"
    and w: "distinct (written_ids w)" "set (written_ids w) \<subseteq> S" "set sn \<subseteq> set (written_ids w)"
    by (auto simp: tracked_def)
  show ids': "written_ids w' = written_ids w @ applied_event_ids r"
    using p by (auto simp: publish_revision_def write_revision_def written_ids_def record_ids_def split: if_splits)
  have "\<exists>d'. store w' = Some d' \<and> store_ok d' \<and> set (ids d') = set (written_ids w')"
  proof (cases "applied_event_ids r = []")
    case True
    with p have "store w' = store w"
      by (auto simp: publish_revision_def write_revision_def split: if_splits)
    with d True ids' show ?thesis by simp
  next
    case False
    let ?d = "record_published n (applied_event_ids r) d"
    have clean: "\<forall>x\<in>set (applied_event_ids r). clean x" using new(2) S(3) by blast
    have room: "length (ids d) + length (new_ids (seen d) (applied_event_ids r)) \<le> n"
      using store_room [OF d(2) _ new(2) S(1,2)] d(3) w(2) by simp
    have ok: "store_ok ?d" by (rule ds.publish_ok [OF d(2) clean])
    have "x \<in> set (ids ?d) \<longleftrightarrow> x \<in> set (ids d) \<or> x \<in> set (applied_event_ids r)" for x
      using ds.member_publish_iff [OF d(2) room clean, of x] d(2) ok
      by (simp add: contains_def store_ok_def)
    moreover have "store w' = Some ?d"
      using p d(1) False by (auto simp: publish_revision_def write_revision_def record_ids_def split: if_splits)
    ultimately show ?thesis using ok d(3) ids' by auto
  qed
  with w new(1,2,3) sn ids' show "tracked S sn' w'" by (auto simp: tracked_def)
qed

lemma drain_batches_tracked:
  assumes "drain_batches D suppressed (publish_revision conforms n) batches (s, w) = Some (rs, s', w')"
    and "tracked S (seen_event_ids (se_app s)) w"
    and "\<forall>e\<in>set (concat batches). event_id e = [] \<or> event_id e \<in> S"
    and "finite S" "card S \<le> n" "\<forall>i\<in>S. clean i"
  shows "tracked S (seen_event_ids (se_app s')) w' \<and> set (written_ids w) \<subseteq> set (written_ids w') \<and>
    (\<forall>e\<in>set (concat batches). event_id e = [] \<or> event_id e \<in> set (written_ids w'))"
  using assms(1-3)
proof (induction batches arbitrary: s w rs)
  case (Cons batch batches)
  from Cons.prems(1) obtain ro s1 where step: "drain_batch D (suppressed w) batch s = Some (ro, s1)"
    by (auto split: option.splits)
  then obtain bs st where app: "apply_batch D (suppressed w) batch (se_app s) = Some (bs, st)"
    and s1: "seen_event_ids (se_app s1) = seen_event_ids st" and new: "ids_of ro = applied_ids batch bs"
    by (rule drain_batch_cases)
  note spec = apply_batch_spec [OF app] and sup = tracked_suppressed [OF Cons.prems(2)]
  have fresh: "distinct (ids_of ro)" "set (ids_of ro) \<subseteq> S" "set (ids_of ro) \<inter> set (written_ids w) = {}"
    "set (seen_event_ids (se_app s1)) \<subseteq> set (seen_event_ids (se_app s)) \<union> set (ids_of ro)"
    using spec Cons.prems(3) unfolding new s1 sup by auto
  have seen: "set (seen_event_ids (se_app s)) \<subseteq> set (written_ids w)"
    using Cons.prems(2) by (simp add: tracked_def)
  obtain w1 rs1 where rest: "drain_batches D suppressed (publish_revision conforms n) batches (s1, w1) = Some (rs1, s', w')"
    and w1: "tracked S (seen_event_ids (se_app s1)) w1" "set (written_ids w1) = set (written_ids w) \<union> set (ids_of ro)"
  proof (cases ro)
    case None
    have "tracked S (seen_event_ids (se_app s1)) w"
      using Cons.prems(2) fresh(4) seen by (auto simp: tracked_def ids_of_def None)
    with None Cons.prems(1) step that show thesis by (auto simp: ids_of_def)
  next
    case (Some r)
    with Cons.prems(1) step obtain w2 rs2 where p: "publish_revision conforms n r w = Some w2"
      and "drain_batches D suppressed (publish_revision conforms n) batches (s1, w2) = Some (rs2, s', w')"
      by (auto split: option.splits)
    moreover have "ids_of ro = applied_event_ids r" by (simp add: ids_of_def Some)
    ultimately show thesis
      using that publish_tracked [OF Cons.prems(2) p, where sn' = "seen_event_ids (se_app s1)"] fresh assms(4-6)
      by auto
  qed
  from Cons.IH [OF rest w1(1)] Cons.prems(3)
  have ih: "tracked S (seen_event_ids (se_app s')) w'" "set (written_ids w1) \<subseteq> set (written_ids w')"
    "\<forall>e\<in>set (concat batches). event_id e = [] \<or> event_id e \<in> set (written_ids w')" by auto
  have "\<forall>e\<in>set batch. event_id e = [] \<or> event_id e \<in> set (written_ids w1)"
    using spec fresh(4) seen w1(2) unfolding s1 [symmetric] sup by (auto simp: new)
  with ih(2) have "\<forall>e\<in>set batch. event_id e = [] \<or> event_id e \<in> set (written_ids w')" by blast
  with ih w1(2) show ?case by simp blast
qed simp

subsection \<open>Restarts\<close>

text \<open>A watcher over a topic: the process is down or holds a session, the artifacts and the store are durable, and
  events from \<open>wd_committed\<close> on are redelivered. A crash may hit between any two batches of a cycle, before
  its offsets are committed.\<close>

record world =
  wd_session :: "stream_session option"
  wd_publisher :: publisher
  wd_committed :: nat

definition world0 :: world where
  "world0 = \<lparr>wd_session = None, wd_publisher = \<lparr>written = [], store = Some (open_store [])\<rparr>, wd_committed = 0\<rparr>"

inductive watch_step ::
  "'g driver \<Rightarrow> (plan \<Rightarrow> bool) \<Rightarrow> nat \<Rightarrow> real \<Rightarrow> sources \<Rightarrow> event list \<Rightarrow> world \<Rightarrow> world \<Rightarrow> bool"
  for D conforms n window_s sources topic
where
  start: "watch_start D conforms n sources effective p = Some (s, p') \<Longrightarrow>
    watch_step D conforms n window_s sources topic
      \<lparr>wd_session = None, wd_publisher = p, wd_committed = c\<rparr>
      \<lparr>wd_session = Some s, wd_publisher = p', wd_committed = c\<rparr>"
| cycle: "events = take visible (drop c topic) \<Longrightarrow>
    watch_cycle D conforms n window_s events (s, p) = Some (commit, s', p') \<Longrightarrow>
    watch_step D conforms n window_s sources topic
      \<lparr>wd_session = Some s, wd_publisher = p, wd_committed = c\<rparr>
      \<lparr>wd_session = Some s', wd_publisher = p', wd_committed = (if commit then c + length events else c)\<rparr>"
| crash: "batches = take k (coalesce (dr_runtime D) (take visible (drop c topic)) window_s (se_effective_at s)) \<Longrightarrow>
    drain_batches D suppressed (publish_revision conforms n) batches (s, p) = Some (rs, s', p') \<Longrightarrow>
    watch_step D conforms n window_s sources topic
      \<lparr>wd_session = Some s, wd_publisher = p, wd_committed = c\<rparr>
      \<lparr>wd_session = None, wd_publisher = p', wd_committed = c\<rparr>"

inductive watch_reachable ::
  "'g driver \<Rightarrow> (plan \<Rightarrow> bool) \<Rightarrow> nat \<Rightarrow> real \<Rightarrow> sources \<Rightarrow> event list \<Rightarrow> world \<Rightarrow> bool"
  for D conforms n window_s sources topic
where
  init: "watch_reachable D conforms n window_s sources topic world0"
| step: "watch_reachable D conforms n window_s sources topic v \<Longrightarrow>
    watch_step D conforms n window_s sources topic v v' \<Longrightarrow>
    watch_reachable D conforms n window_s sources topic v'"

text \<open>The invariant of the durable state and the session.\<close>

definition world_ok :: "string set \<Rightarrow> event list \<Rightarrow> world \<Rightarrow> bool" where
  "world_ok S topic v \<longleftrightarrow>
     tracked S (case wd_session v of None \<Rightarrow> [] | Some s \<Rightarrow> seen_event_ids (se_app s)) (wd_publisher v) \<and>
     (\<forall>e\<in>set (take (wd_committed v) topic). event_id e = [] \<or> event_id e \<in> set (written_ids (wd_publisher v)))"

lemma tracked_fewer: "tracked S sn w \<Longrightarrow> set sn' \<subseteq> set sn \<Longrightarrow> tracked S sn' w"
  by (auto simp: tracked_def)

lemma watch_start_ok:
  assumes "watch_start D conforms n sources effective p = Some (s, p')" "tracked S sn p"
  shows "tracked S (seen_event_ids (se_app s)) p'" "written_ids p' = written_ids p"
proof -
  from assms(1) obtain b where b: "session_start D (open_session sources effective) = Some (b, s)"
    "publish_revision conforms n b p = Some p'" by (auto simp: watch_start_def bind_eq_Some_conv)
  then have s: "applied_event_ids b = []" "seen_event_ids (se_app s) = []"
    by (auto simp: session_start_def Let_def open_session_def fresh_app_def)
  with b(2) have "store p' = store p" "written_ids p' = written_ids p"
    by (auto simp: publish_revision_def write_revision_def written_ids_def split: if_splits)
  with assms(2) s show "tracked S (seen_event_ids (se_app s)) p'" "written_ids p' = written_ids p"
    by (simp_all add: tracked_def)
qed

lemma take_events: "\<forall>e\<in>set topic. P e \<Longrightarrow> \<forall>e\<in>set (take visible (drop c topic)). P e"
  by (auto dest: in_set_takeD in_set_dropD)

lemma take_coalesce: "e \<in> set (concat (take k (coalesce rt es w f))) \<Longrightarrow> e \<in> set es"
  using coalesce_concat [of rt es w f] by (metis append_take_drop_id concat_append in_set_conv_decomp append_assoc UnCI set_append)

lemma watch_step_ok:
  assumes "watch_step D conforms n window_s sources topic v v'" "world_ok S topic v"
    and S: "finite S" "card S \<le> n" "\<forall>i\<in>S. clean i" and topic: "\<forall>e\<in>set topic. event_id e = [] \<or> event_id e \<in> S"
  shows "world_ok S topic v'"
  using assms(1)
proof cases
  case (start effective p s p' c)
  with assms(2) watch_start_ok [OF start(3)] show ?thesis by (auto simp: world_ok_def)
next
  case (cycle events visible c s p commit s' p')
  show ?thesis
  proof (cases "events = []")
    case True
    with cycle assms(2) show ?thesis by (auto simp: watch_cycle_def)
  next
    case False
    with cycle(4) obtain rs where d: "commit"
      "drain_batches D suppressed (publish_revision conforms n)
         (coalesce (dr_runtime D) events window_s (se_effective_at s)) (s, p) = Some (rs, s', p')"
      by (auto simp: watch_cycle_def drain_def split: if_splits)
    have "\<forall>e\<in>set events. event_id e = [] \<or> event_id e \<in> S" unfolding cycle(3) by (rule take_events [OF topic])
    with drain_batches_tracked [OF d(2) _ _ S] assms(2) cycle(1)
    have ok: "tracked S (seen_event_ids (se_app s')) p'" "set (written_ids p) \<subseteq> set (written_ids p')"
      "\<forall>e\<in>set events. event_id e = [] \<or> event_id e \<in> set (written_ids p')"
      by (auto simp: world_ok_def coalesce_concat)
    have "take (c + length events) topic = take c topic @ events"
      unfolding cycle(3) by (simp add: take_add min_def)
    with ok assms(2) d(1) cycle(1,2) show ?thesis by (auto simp: world_ok_def)
  qed
next
  case (crash batches k visible c s p rs s' p')
  have "\<forall>e\<in>set (concat batches). event_id e = [] \<or> event_id e \<in> S"
    using topic take_events [OF topic] take_coalesce unfolding crash(3) by blast
  with drain_batches_tracked [OF crash(4) _ _ S] assms(2) crash(1)
  have "tracked S (seen_event_ids (se_app s')) p'" "set (written_ids p) \<subseteq> set (written_ids p')"
    by (auto simp: world_ok_def)
  with assms(2) crash(1,2) tracked_fewer [of S _ p' "[]"] show ?thesis by (auto simp: world_ok_def)
qed

lemma world0_ok: "world_ok S topic world0"
  by (simp add: world_ok_def world0_def tracked_def written_ids_def open_store_ok) (simp add: open_store_def)


subsection \<open>Lineage\<close>

fun linked :: "plan \<Rightarrow> plan list \<Rightarrow> bool" where
  "linked p [] \<longleftrightarrow> True"
| "linked p (q # qs) \<longleftrightarrow>
     parent_revision_id q = Some (revision_id p) \<and> origin_plan_id q = origin_plan_id p \<and> linked q qs"

text \<open>The driver on the rolling adapter.\<close>

definition rolling_driver ::
  "'g applicator \<Rightarrow> (sources \<Rightarrow> real \<Rightarrow> string \<Rightarrow> (string, real) dict \<Rightarrow> planning_snapshot) \<Rightarrow> 'h normalizer_env
   \<Rightarrow> runtime \<Rightarrow> real \<Rightarrow> int \<Rightarrow> (planning_snapshot \<Rightarrow> 'r solver_rows)
   \<Rightarrow> ('r solver_rows \<Rightarrow> (string, (int \<times> int) list) dict \<Rightarrow> real \<Rightarrow> chain_output) \<Rightarrow> int \<Rightarrow> 'g driver" where
  "rolling_driver ap build env rt freeze_s default_penalty build_rows chain penalty =
     \<lparr>dr_applicator = ap, dr_runtime = rt, dr_build = build,
      dr_plan = (\<lambda>snapshot previous reasons now.
        rolling_plan env rt freeze_s default_penalty build_rows chain snapshot previous reasons (Some now) penalty)\<rparr>"

lemma rolling_plan_parent:
  "rolling_plan env rt freeze_s dp br chain snapshot (Some p) reasons now penalty = Some q \<Longrightarrow>
   parent_revision_id q = Some (revision_id p) \<and> origin_plan_id q = origin_plan_id p"
  by (auto simp: rolling_plan_def link_parent_def)

lemma some_true: "(\<exists>x\<in>set bs. x) \<longleftrightarrow> True \<in> set bs"
  by (metis (full_types))

lemma drain_batch_link:
  assumes "drain_batch (rolling_driver ap build env rt freeze_s dp br chain penalty) published batch s = Some (ro, s')"
    and "se_previous_plan s = Some p"
  shows "case ro of
      None \<Rightarrow> se_previous_plan s' = Some p
    | Some r \<Rightarrow> se_previous_plan s' = Some (rv_plan r) \<and> linked p [rv_plan r] \<and> 0 < n_coalesced_events r"
  using assms
  by (auto simp: drain_batch_def Let_def drain_logs_def rolling_driver_def list_ex_iff filter_empty_conv some_true
      dest!: rolling_plan_parent split: option.splits if_splits)

lemma drain_batches_link:
  assumes "drain_batches (rolling_driver ap build env rt freeze_s dp br chain penalty) member publish batches (s, w)
      = Some (rs, s', w')"
    and "se_previous_plan s = Some p"
  shows "linked p (map rv_plan rs) \<and> se_previous_plan s' = Some (last (p # map rv_plan rs)) \<and>
    (\<forall>r\<in>set rs. 0 < n_coalesced_events r)"
  using assms
proof (induction batches arbitrary: s w p rs)
  case (Cons batch batches)
  let ?D = "rolling_driver ap build env rt freeze_s dp br chain penalty"
  from Cons.prems(1) obtain ro s1 where step: "drain_batch ?D (member w) batch s = Some (ro, s1)"
    by (auto split: option.splits)
  note link = drain_batch_link [OF step Cons.prems(2)]
  show ?case
  proof (cases ro)
    case None
    with Cons.prems(1) step have "drain_batches ?D member publish batches (s1, w) = Some (rs, s', w')" by simp
    from Cons.IH [OF this] link None show ?thesis by simp
  next
    case (Some r)
    with Cons.prems(1) step obtain w1 rs1 where
      "drain_batches ?D member publish batches (s1, w1) = Some (rs1, s', w')" "rs = r # rs1"
      by (auto split: option.splits)
    with Cons.IH [OF this(1)] link Some show ?thesis by simp
  qed
qed simp

text \<open>C20: Revisions form one chain. The revisions a drain publishes are linked to one another and the first of them to the
  plan the session held, with one origin; the session then holds the last one; and every one of them
  applied at least one event.\<close>

theorem revisions_form_a_chain:
  assumes "drain (rolling_driver ap build env rt freeze_s dp br chain penalty) member publish events window_s (s, w)
      = Some (rs, s', w')"
  shows "\<exists>p. se_previous_plan s = Some p \<and> linked p (map rv_plan rs) \<and>
    se_previous_plan s' = Some (last (p # map rv_plan rs)) \<and> (\<forall>r\<in>set rs. 0 < n_coalesced_events r)"
proof -
  from assms obtain p where p: "se_previous_plan s = Some p" by (auto simp: drain_def split: if_splits)
  from assms p obtain batches where "drain_batches (rolling_driver ap build env rt freeze_s dp br chain penalty)
      member publish batches (s, w) = Some (rs, s', w')" by (auto simp: drain_def)
  from drain_batches_link [OF this p] p show ?thesis by blast
qed

subsection \<open>Freshness and rates\<close>

text \<open>A plan is not stale against the snapshot it was built from.\<close>

lemma own_snapshot_is_covered:
  assumes "wf_dict (sn_source_watermarks snapshot)" "pl_source_watermarks p = sn_source_watermarks snapshot"
  shows "\<not> should_replan p snapshot"
proof -
  have "newly_visible_sources p snapshot = []"
    using assms by (auto simp: newly_visible_sources_def map_filter_def filter_empty_conv wf_dict_map_of)
  then show ?thesis by (simp add: should_replan_def)
qed

lemma rates_bounds: "rates c = Some (n, fp, fn) \<Longrightarrow> 0 < n \<and> 0 \<le> fp \<and> fp \<le> 1 \<and> 0 \<le> fn"
  by (auto simp: rates_def Let_def divide_le_eq_1 split: if_splits)

subsection \<open>Instances\<close>

definition sample_orders :: sources where
  "sample_orders = [(''orders'', [sample_row ''a'' 4, sample_row ''b'' 6])]"

definition sample_driver :: "unit driver" where
  "sample_driver =
     \<lparr>dr_applicator = sample_applicator, dr_runtime = sample_runtime,
      dr_build = (\<lambda>s t lineage marks. sample_snapshot [] []),
      dr_plan = (\<lambda>snapshot previous reasons now. Some (sample_plan ''r'' []))\<rparr>"

text \<open>A redelivered start, an event without effect and a completion, the last one 200 seconds later.\<close>

definition sample_topic :: "event list" where
  "sample_topic =
     [sample_event ''e1'' TaskStarted ''a'' [], sample_event ''e1'' TaskStarted ''a'' [],
      (sample_event ''e2'' TaskCompleted ''a'' [])\<lparr>observed_text := ''t3''\<rparr>]"

definition sample_publisher :: publisher where
  "sample_publisher = \<lparr>written = [], store = Some (open_store [])\<rparr>"

text \<open>A run of the watcher: a crash after the first batch, a restart, and a full cycle.\<close>

definition sample_started :: "publisher \<Rightarrow> (stream_session \<times> publisher) option" where
  "sample_started w = watch_start sample_driver (\<lambda>_. True) 10 sample_orders 0 w"

definition sample_crashed :: "(stream_session \<times> publisher) option" where
  "sample_crashed =
     Option.bind (sample_started sample_publisher) (\<lambda>(s, w).
       map_option snd (drain_batches sample_driver suppressed (publish_revision (\<lambda>_. True) 10)
         (take 1 (coalesce sample_runtime sample_topic 50 0)) (s, w)))"

definition sample_finished :: "(bool \<times> stream_session \<times> publisher) option" where
  "sample_finished =
     Option.bind sample_crashed (\<lambda>(s, w). Option.bind (sample_started w)
       (watch_cycle sample_driver (\<lambda>_. True) 10 50 sample_topic))"

lemma sample_finished_ids:
  "map_option (\<lambda>(c, s, w). (c, written_ids w)) sample_finished = Some (True, [''e1'', ''e2''])"
  by code_simp

lemma coalesce_exact_witness:
  "converged (event_now sample_runtime 0) 50 (coalesce sample_runtime sample_topic 50 0) \<and>
   map length (coalesce sample_runtime sample_topic 50 0) = [2, 1]"
proof
  show "converged (event_now sample_runtime 0) 50 (coalesce sample_runtime sample_topic 50 0)"
    using coalesce_exact [of sample_runtime sample_topic 50 0] by simp
  show "map length (coalesce sample_runtime sample_topic 50 0) = [2, 1]" by code_simp
qed


definition sample_rolling :: "unit driver" where
  "sample_rolling = rolling_driver sample_applicator (\<lambda>s t lineage marks. sample_now) sample_env sample_runtime
     3600 5 sample_rows sample_chain 0"

lemma revisions_form_a_chain_witness:
  "\<exists>rs s' w'. drain sample_rolling (\<lambda>_ _. False) (\<lambda>r w. Some (w + 1)) sample_topic 50
      ((open_session sample_orders 0)\<lparr>se_previous_plan := Some sample_previous\<rparr>, 0::nat) = Some (rs, s', w') \<and>
    map (\<lambda>r. n_coalesced_events r) rs = [1, 1] \<and> linked sample_previous (map rv_plan rs)"
proof -
  let ?s = "(open_session sample_orders 0)\<lparr>se_previous_plan := Some sample_previous\<rparr>"
  let ?run = "drain sample_rolling (\<lambda>_ _. False) (\<lambda>r w. Some (w + 1)) sample_topic 50 (?s, 0::nat)"
  have "map_option (\<lambda>(rs, _). map (\<lambda>r. n_coalesced_events r) rs) ?run = Some [1, 1]" by code_simp
  then obtain rs s' w' where r: "?run = Some (rs, s', w')" "map (\<lambda>r. n_coalesced_events r) rs = [1, 1]" by auto
  from revisions_form_a_chain [OF r(1) [unfolded sample_rolling_def]] r show ?thesis by auto
qed

subsection \<open>Divergences\<close>

text \<open>A crash after a revision is written and before its ids are recorded: the redelivered event is applied again
  and written into a second revision.\<close>

lemma crash_between_write_and_record:
  "map_option (\<lambda>w. written_ids w)
     (Option.bind (sample_started sample_publisher) (\<lambda>(s1, w1).
      Option.bind (drain_batch sample_driver (suppressed w1) [hd sample_topic] s1) (\<lambda>(r1, _).
      Option.bind (write_revision (\<lambda>_. True) (the r1) w1) (\<lambda>w2.
      Option.bind (sample_started w2) (\<lambda>(s3, w3).
      map_option (\<lambda>(_, _, w4). w4) (watch_cycle sample_driver (\<lambda>_. True) 10 50 [hd sample_topic] (s3, w3)))))))
   = Some [''e1'', ''e1'']"
  by code_simp

text \<open>A watch cycle that reads only malformed Redis entries yields no events and is closed, not committed: the entries
  are never acknowledged and come back in every cycle.\<close>

lemma poison_only_cycle_not_acknowledged:
  "redis_iter sample_codec sample_runtime (Some 1) (\<lambda>_. []) [[(''1-0'', Some ''junk'')], []]
     = Some ([''1-0''], [], Stopped)
   \<and> watch_cycle sample_driver (\<lambda>_. True) 10 50 [] (s, w) = Some (False, s, w)
   \<and> redis_close \<lparr>rs_open = True, rs_ids = [''1-0'']\<rparr> = \<lparr>rs_open = False, rs_ids = []\<rparr>"
proof (intro conjI)
  have "read_pending sample_codec sample_runtime (\<lambda>_. []) ''0'' = Some ([], [], False)"
    by (subst read_pending.simps) simp
  moreover have "read_new sample_codec sample_runtime (Some 1) 0 [[(''1-0'', Some ''junk'')], []] = ([''1-0''], [], Stopped)"
    by code_simp
  ultimately show "redis_iter sample_codec sample_runtime (Some 1) (\<lambda>_. []) [[(''1-0'', Some ''junk'')], []]
     = Some ([''1-0''], [], Stopped)" by (simp add: redis_iter_def)
qed (simp_all add: watch_cycle_def redis_close_def)

end
