(* ===== verification/TravelTime.thy ===== *)
theory TravelTime
  imports Geometry
begin

text \<open>
  The travel network (\<open>solver/travel_time.py\<close>): the directed links, the shortest-path closure with one
  Dijkstra search per node, the composed route geometry, and the lookups with their mode, reverse and
  geometric fallbacks; and the service durations. A heap of \<open>heapq\<close> is the sorted list of its entries.
  Travel seconds are positive integers, kept as \<open>nat\<close>. The geodesic distance is a parameter (pyproj).
\<close>

subsection \<open>Links\<close>

record travel_link_row =
  tlr_link_id :: string
  tlr_from :: string
  tlr_to :: string
  tlr_travel_time_s :: real
  tlr_distance_km :: real
  tlr_network_mode :: string
  tlr_route_geometry :: py_val
  tlr_toll_eur :: real

type_synonym place_pair = "string \<times> string"
type_synonym seconds_lookup = "(place_pair, nat) dict"
type_synonym path_lookup = "(place_pair, point list) dict"
type_synonym measure_lookup = "(place_pair, real \<times> real) dict"

definition nonnegative :: "real \<Rightarrow> real" where
  "nonnegative x = max 0 x"

definition normalise_mode :: "string \<Rightarrow> string" where
  "normalise_mode mode =
     (let m = py_lower (py_strip (if mode = [] then ''any'' else mode))
      in if m \<in> set [''road'', ''air'', ''any''] then m else ''any'')"

text \<open>\<open>_coerce_route_geometry\<close>: \<open>pair_vertex\<close> is one vertex, consecutive duplicates are dropped.\<close>

definition vertex_float :: "runtime \<Rightarrow> py_val \<Rightarrow> real option" where
  "vertex_float rt v =
     (case v of VInt i \<Rightarrow> Some (of_int i) | VFloat r \<Rightarrow> Some r | VBool b \<Rightarrow> Some (if b then 1 else 0)
      | VStr s \<Rightarrow> float_of_str rt s | _ \<Rightarrow> None)"

definition pair_vertex :: "runtime \<Rightarrow> py_val \<Rightarrow> point option" where
  "pair_vertex rt v =
     (case v of
        VList (a # b # _) \<Rightarrow>
          (case (vertex_float rt a, vertex_float rt b) of (Some x, Some y) \<Rightarrow> Some (x, y) | _ \<Rightarrow> None)
      | _ \<Rightarrow> None)"

fun append_vertices :: "point list \<Rightarrow> point list \<Rightarrow> point list" where
  "append_vertices path [] = path"
| "append_vertices path (v # vs) =
     append_vertices (if path = [] \<or> v \<noteq> last path then path @ [v] else path) vs"

definition coerce_route_geometry :: "runtime \<Rightarrow> py_val \<Rightarrow> point list" where
  "coerce_route_geometry rt raw =
     (let parsed = (case raw of
           VStr s \<Rightarrow> if s = [] then VNone else (case literal_eval rt s of None \<Rightarrow> VNone | Some v \<Rightarrow> v)
         | v \<Rightarrow> v);
          path = (case parsed of VList xs \<Rightarrow> append_vertices [] (List.map_filter (pair_vertex rt) xs) | _ \<Rightarrow> [])
      in if 2 \<le> length path then path else [])"

definition path_distance_km :: "(point \<Rightarrow> point \<Rightarrow> real) \<Rightarrow> point list \<Rightarrow> real" where
  "path_distance_km geodesic path = sum_list (map (\<lambda>(a, b). geodesic a b) (zip path (tl path)))"

definition route_geometry_matches_distance ::
  "(point \<Rightarrow> point \<Rightarrow> real) \<Rightarrow> real \<Rightarrow> point list \<Rightarrow> real \<Rightarrow> bool" where
  "route_geometry_matches_distance geodesic max_ratio path dist_km \<longleftrightarrow>
     dist_km \<le> 0 \<or> path_distance_km geodesic path \<le> dist_km * max_ratio"

subsection \<open>The search from one node\<close>

record search_state =
  best :: "(string, nat) dict"
  predecessor :: "(string, string) dict"
  heap :: "(nat \<times> string) list"

definition adjacency :: "seconds_lookup \<Rightarrow> string \<Rightarrow> (string \<times> nat) list" where
  "adjacency direct node = map (\<lambda>((f, t), s). (t, s)) (filter (\<lambda>((f, t), s). f = node) direct)"

definition improves :: "search_state \<Rightarrow> string \<Rightarrow> nat \<Rightarrow> bool" where
  "improves st node candidate =
     (case map_of (best st) node of None \<Rightarrow> True | Some b \<Rightarrow> candidate < b)"

fun relax :: "nat \<Rightarrow> string \<Rightarrow> (string \<times> nat) list \<Rightarrow> search_state \<Rightarrow> search_state" where
  "relax cost node [] st = st"
| "relax cost node ((neighbor, seconds) # rest) st =
     relax cost node rest
       (if improves st neighbor (cost + seconds)
        then st\<lparr>best := AList.update neighbor (cost + seconds) (best st),
                predecessor := AList.update neighbor node (predecessor st),
                heap := insort (cost + seconds, neighbor) (heap st)\<rparr>
        else st)"

text \<open>The nodes without a distance, and the sum of the distances: one of them falls with every push.\<close>

definition open_targets :: "seconds_lookup \<Rightarrow> search_state \<Rightarrow> nat" where
  "open_targets direct st = card {t \<in> (snd \<circ> fst) ` set direct. map_of (best st) t = None}"

definition total_best :: "search_state \<Rightarrow> nat" where
  "total_best st = sum_list (map snd (best st))"

lemma total_best_update:
  "map_of d k = Some b \<Longrightarrow> v < (b :: nat) \<Longrightarrow> sum_list (map snd (AList.update k v d)) < sum_list (map snd d)"
  by (induction d) (auto split: if_splits)

lemma open_targets_less:
  assumes "t \<in> (snd \<circ> fst) ` set direct" "map_of (best st) t = None" "best st' = AList.update t v (best st)"
  shows "open_targets direct st' < open_targets direct st"
  unfolding open_targets_def
proof (rule psubset_card_mono)
  show "{t \<in> (snd \<circ> fst) ` set direct. map_of (best st') t = None}
      \<subset> {t \<in> (snd \<circ> fst) ` set direct. map_of (best st) t = None}"
    using assms by (auto simp: update_conv')
qed simp

lemma relax_decreases:
  assumes "\<forall>(t, s)\<in>set out. t \<in> (snd \<circ> fst) ` set direct"
  shows "relax cost node out st = st \<or>
    (open_targets direct (relax cost node out st), total_best (relax cost node out st))
      < (open_targets direct st, total_best st)"
  using assms
proof (induction out arbitrary: st)
  case (Cons e out)
  obtain t s where e: "e = (t, s)" by fastforce
  let ?st = "st\<lparr>best := AList.update t (cost + s) (best st), predecessor := AList.update t node (predecessor st),
                heap := insort (cost + s, t) (heap st)\<rparr>"
  show ?case
  proof (cases "improves st t (cost + s)")
    case True
    have "(open_targets direct ?st, total_best ?st) < (open_targets direct st, total_best st)"
    proof (cases "map_of (best st) t")
      case None
      with Cons.prems e show ?thesis by (simp add: open_targets_less [of t direct st ?st])
    next
      case (Some b)
      with True have "total_best ?st < total_best st"
        by (simp add: improves_def total_best_def total_best_update)
      moreover have "open_targets direct ?st = open_targets direct st"
        unfolding open_targets_def using Some by (intro arg_cong [where f = card]) (auto simp: update_conv')
      ultimately show ?thesis by simp
    qed
    with Cons.IH [of ?st] Cons.prems True e show ?thesis by (auto simp del: less_prod_simp)
  next
    case False
    with Cons.IH [of st] Cons.prems e show ?thesis by auto
  qed
qed simp

lemma adjacency_targets: "\<forall>(t, s)\<in>set (adjacency direct node). t \<in> (snd \<circ> fst) ` set direct"
  by (force simp: adjacency_def)

function search_loop :: "seconds_lookup \<Rightarrow> search_state \<Rightarrow> search_state" where
  "search_loop direct st =
     (case heap st of
        [] \<Rightarrow> st
      | (cost, node) # rest \<Rightarrow>
          let st' = st\<lparr>heap := rest\<rparr> in
          if (case map_of (best st) node of None \<Rightarrow> False | Some b \<Rightarrow> b < cost)
          then search_loop direct st'
          else search_loop direct (relax cost node (adjacency direct node) st'))"
  by pat_completeness auto

termination
proof (relation "inv_image (less_than <*lex*> less_than <*lex*> less_than)
    (\<lambda>(direct, st). (open_targets direct st, total_best st, length (heap st)))", goal_cases)
  case 1
  show ?case by (intro wf_inv_image wf_lex_prod wf_less_than)
next
  case (2 direct st x rest cost node st')
  then show ?case by (simp add: open_targets_def total_best_def)
next
  case (3 direct st x rest cost node st')
  have "open_targets direct st' = open_targets direct st" "total_best st' = total_best st" "length (heap st') < length (heap st)"
    using 3 by (simp_all add: open_targets_def total_best_def)
  with relax_decreases [OF adjacency_targets, of cost node direct node st'] show ?case by auto
qed

declare search_loop.simps [simp del]

definition search :: "seconds_lookup \<Rightarrow> string \<Rightarrow> search_state" where
  "search direct source =
     search_loop direct \<lparr>best = [(source, 0)], predecessor = [], heap = [(0, source)]\<rparr>"

text \<open>The links of the path found to \<open>cursor\<close>, following the predecessors; the fuel is the number of them.\<close>

fun trace_links :: "(string, string) dict \<Rightarrow> string \<Rightarrow> nat \<Rightarrow> string \<Rightarrow> place_pair list \<Rightarrow> string \<times> place_pair list" where
  "trace_links pred source 0 cursor acc = (cursor, acc)"
| "trace_links pred source (Suc n) cursor acc =
     (if cursor = source then (cursor, acc)
      else case map_of pred cursor of
             None \<Rightarrow> (cursor, acc)
           | Some previous \<Rightarrow> trace_links pred source n previous ((previous, cursor) # acc))"

fun join_segments :: "point list \<Rightarrow> point list list \<Rightarrow> point list" where
  "join_segments path [] = path"
| "join_segments path (segment # rest) =
     join_segments (path @ (if path = [] then segment else tl segment)) rest"

definition composed_path :: "path_lookup \<Rightarrow> search_state \<Rightarrow> string \<Rightarrow> string \<Rightarrow> point list option" where
  "composed_path direct_paths st source target =
     (case trace_links (predecessor st) source (length (predecessor st)) target [] of
        (cursor, links) \<Rightarrow>
          if cursor = source \<and> links \<noteq> [] \<and> list_all (\<lambda>l. map_of direct_paths l \<noteq> None) links
          then Some (join_segments [] (map (\<lambda>l. the (map_of direct_paths l)) links)) else None)"

subsection \<open>The closure\<close>

definition network_nodes :: "seconds_lookup \<Rightarrow> string list" where
  "network_nodes direct = sort (remdups (concat (map (\<lambda>((f, t), s). [f, t]) direct)))"

definition closure_from :: "seconds_lookup \<Rightarrow> string \<Rightarrow> seconds_lookup" where
  "closure_from direct source =
     map (\<lambda>(t, d). ((source, t), d)) (filter (\<lambda>(t, d). t \<noteq> source) (best (search direct source)))"

definition compose_network :: "nat \<Rightarrow> seconds_lookup \<Rightarrow> path_lookup \<Rightarrow> seconds_lookup \<times> path_lookup" where
  "compose_network cap direct direct_paths =
     (if direct = [] then ([], [])
      else if length (network_nodes direct) > cap then (direct, direct_paths)
      else (concat (map (closure_from direct) (network_nodes direct)),
            concat (map (\<lambda>source.
              List.map_filter (\<lambda>((s, t), d).
                map_option (Pair (s, t)) (composed_path direct_paths (search direct source) source t))
                (closure_from direct source)) (network_nodes direct))))"

subsection \<open>The lookup\<close>

record mode_links =
  ml_seconds :: seconds_lookup
  ml_paths :: path_lookup
  ml_measures :: measure_lookup

definition no_links :: mode_links where
  "no_links = \<lparr>ml_seconds = [], ml_paths = [], ml_measures = []\<rparr>"

definition faster :: "seconds_lookup \<Rightarrow> place_pair \<Rightarrow> nat \<Rightarrow> bool" where
  "faster d pair value = (case map_of d pair of None \<Rightarrow> True | Some existing \<Rightarrow> value < existing)"

definition set_path :: "place_pair \<Rightarrow> point list option \<Rightarrow> path_lookup \<Rightarrow> path_lookup" where
  "set_path pair path d = (case path of None \<Rightarrow> AList.delete pair d | Some p \<Rightarrow> AList.update pair p d)"

definition usable_geometry ::
  "(point \<Rightarrow> point \<Rightarrow> real) \<Rightarrow> real \<Rightarrow> runtime \<Rightarrow> travel_link_row \<Rightarrow> point list option" where
  "usable_geometry geodesic max_ratio rt l =
     (let path = coerce_route_geometry rt (tlr_route_geometry l) in
      if path \<noteq> [] \<and> route_geometry_matches_distance geodesic max_ratio path (tlr_distance_km l)
      then Some path else None)"

definition link_pair :: "travel_link_row \<Rightarrow> place_pair" where
  "link_pair l = (tlr_from l, tlr_to l)"

definition link_seconds :: "travel_link_row \<Rightarrow> nat" where
  "link_seconds l = max 1 (nat (py_int (nonnegative (tlr_travel_time_s l))))"

definition index_link ::
  "(point \<Rightarrow> point \<Rightarrow> real) \<Rightarrow> real \<Rightarrow> runtime \<Rightarrow> travel_link_row \<Rightarrow> mode_links \<Rightarrow> mode_links" where
  "index_link geodesic max_ratio rt l m =
     (if faster (ml_seconds m) (link_pair l) (link_seconds l)
      then \<lparr>ml_seconds = AList.update (link_pair l) (link_seconds l) (ml_seconds m),
            ml_paths = set_path (link_pair l) (usable_geometry geodesic max_ratio rt l) (ml_paths m),
            ml_measures = AList.update (link_pair l)
              (max 0 (tlr_distance_km l), max 0 (tlr_toll_eur l)) (ml_measures m)\<rparr>
      else m)"

definition index_links ::
  "(point \<Rightarrow> point \<Rightarrow> real) \<Rightarrow> real \<Rightarrow> runtime \<Rightarrow> travel_link_row list \<Rightarrow> mode_links \<times> (string, mode_links) dict" where
  "index_links geodesic max_ratio rt links =
     fold (\<lambda>l (any, modes).
         if tlr_travel_time_s l \<le> 0 then (any, modes)
         else let mode = normalise_mode (tlr_network_mode l) in
              if mode = ''any'' then (index_link geodesic max_ratio rt l any, modes)
              else (any, AList.update mode
                           (index_link geodesic max_ratio rt l (dget_default modes mode no_links)) modes))
       links (no_links, [])"

text \<open>The links of a mode over those of any mode.\<close>

definition merge_mode :: "mode_links \<Rightarrow> mode_links \<Rightarrow> seconds_lookup \<times> path_lookup" where
  "merge_mode any m =
     fold (\<lambda>(pair, seconds) (merged, paths).
         if faster merged pair seconds
         then (AList.update pair seconds merged, set_path pair (map_of (ml_paths m) pair) paths)
         else (merged, paths))
       (ml_seconds m) (ml_seconds any, ml_paths any)"

record travel_lookup =
  aggregate :: seconds_lookup
  by_mode :: "(string, seconds_lookup) dict"
  aggregate_paths :: path_lookup
  paths_by_mode :: "(string, path_lookup) dict"
  aggregate_measures :: measure_lookup
  measures_by_mode :: "(string, measure_lookup) dict"
  has_tolls :: bool

definition aggregate_modes ::
  "(string \<times> seconds_lookup \<times> path_lookup) list \<Rightarrow> seconds_lookup \<times> path_lookup" where
  "aggregate_modes modes =
     fold (\<lambda>(mode, lookup, paths). fold (\<lambda>(pair, seconds) (agg, agg_paths).
           if faster agg pair seconds
           then (AList.update pair seconds agg, set_path pair (map_of paths pair) agg_paths)
           else (agg, agg_paths)) lookup)
       modes ([], [])"

definition build_travel_lookup ::
  "nat \<Rightarrow> (point \<Rightarrow> point \<Rightarrow> real) \<Rightarrow> real \<Rightarrow> runtime \<Rightarrow> travel_link_row list \<Rightarrow> travel_lookup" where
  "build_travel_lookup cap geodesic max_ratio rt links =
     (let (any, modes) = index_links geodesic max_ratio rt links;
          composed = (''any'', compose_network cap (ml_seconds any) (ml_paths any))
            # map (\<lambda>(mode, m). let (s, p) = merge_mode any m in (mode, compose_network cap s p)) modes;
          (agg, agg_paths) = aggregate_modes composed;
          agg_measures = fold (\<lambda>(k, v). AList.update k v) (ml_measures any)
            (fold (\<lambda>(mode, m). fold (\<lambda>(k, v). AList.update k v) (ml_measures m)) modes [])
      in \<lparr>aggregate = agg, by_mode = map (\<lambda>(mode, s, p). (mode, s)) composed, aggregate_paths = agg_paths,
          paths_by_mode = map (\<lambda>(mode, s, p). (mode, p)) composed, aggregate_measures = agg_measures,
          measures_by_mode = (''any'', ml_measures any) # map (\<lambda>(mode, m). (mode, ml_measures m)) modes,
          has_tolls = list_ex (\<lambda>(k, dist_km, toll). toll > 0) agg_measures\<rparr>)"

text \<open>A lookup with a mode: the mode's own entry, then that of any mode.\<close>

definition mode_get :: "'v option \<Rightarrow> 'v option \<Rightarrow> 'v option" where
  "mode_get own any = (case own of Some v \<Rightarrow> Some v | None \<Rightarrow> any)"

definition lookup_in :: "(string, (place_pair, 'v) dict) dict \<Rightarrow> string \<Rightarrow> place_pair \<Rightarrow> 'v option" where
  "lookup_in tables mode pair = Option.bind (map_of tables mode) (\<lambda>d. map_of d pair)"

definition get_by_mode ::
  "(place_pair, 'v) dict \<Rightarrow> (string, (place_pair, 'v) dict) dict \<Rightarrow> string \<Rightarrow> string \<Rightarrow> string \<Rightarrow> 'v option" where
  "get_by_mode agg tables from_ref to_ref travel_mode =
     (let mode = normalise_mode travel_mode in
      if mode \<noteq> ''any''
      then mode_get (lookup_in tables mode (from_ref, to_ref)) (lookup_in tables ''any'' (from_ref, to_ref))
      else map_of agg (from_ref, to_ref))"

definition get_seconds :: "travel_lookup \<Rightarrow> string \<Rightarrow> string \<Rightarrow> string \<Rightarrow> nat option" where
  "get_seconds L f t mode = get_by_mode (aggregate L) (by_mode L) f t mode"

definition get_path :: "travel_lookup \<Rightarrow> string \<Rightarrow> string \<Rightarrow> string \<Rightarrow> point list option" where
  "get_path L f t mode = get_by_mode (aggregate_paths L) (paths_by_mode L) f t mode"

definition get_measure :: "travel_lookup \<Rightarrow> string \<Rightarrow> string \<Rightarrow> string \<Rightarrow> (real \<times> real) option" where
  "get_measure L f t mode = get_by_mode (aggregate_measures L) (measures_by_mode L) f t mode"

subsection \<open>Travel and service times\<close>

definition mode_circuity :: "real \<Rightarrow> real \<Rightarrow> string \<Rightarrow> real" where
  "mode_circuity air_factor ground_factor mode =
     (if normalise_mode mode = ''air'' then air_factor else ground_factor)"

definition vehicle_fallback_speed_kmh :: "real \<Rightarrow> prime_mover_row \<Rightarrow> real" where
  "vehicle_fallback_speed_kmh default_speed v =
     (if nonnegative (travel_speed v) > 0 then nonnegative (travel_speed v) else default_speed)"

definition travel_time_seconds :: "(point \<Rightarrow> point \<Rightarrow> real) \<Rightarrow> real \<Rightarrow> point \<Rightarrow> point \<Rightarrow> real \<Rightarrow> int" where
  "travel_time_seconds geodesic default_speed a b speed_kmh =
     max 1 (py_int (geodesic a b * (3600 / (if speed_kmh > 0 then speed_kmh else default_speed))))"

text \<open>\<open>_haversine_s\<close>.\<close>

definition fallback_seconds :: "(point \<Rightarrow> point \<Rightarrow> real) \<Rightarrow> real \<Rightarrow> point \<Rightarrow> point \<Rightarrow> real \<Rightarrow> real \<Rightarrow> int" where
  "fallback_seconds geodesic default_speed a b speed_kmh circuity =
     max 1 (round_half_even (of_int (travel_time_seconds geodesic default_speed a b speed_kmh) * circuity))"

definition network_seconds :: "travel_lookup \<Rightarrow> string \<Rightarrow> string \<Rightarrow> string \<Rightarrow> nat option" where
  "network_seconds L f t mode =
     (if aggregate L = [] \<or> f = [] \<or> t = [] \<or> f = t then None else get_seconds L f t mode)"

definition nonzero :: "nat option \<Rightarrow> nat option" where
  "nonzero x = (case x of Some (Suc n) \<Rightarrow> Some (Suc n) | _ \<Rightarrow> None)"

definition travel_seconds ::
  "(point \<Rightarrow> point \<Rightarrow> real) \<Rightarrow> real \<Rightarrow> real \<Rightarrow> real \<Rightarrow> string \<Rightarrow> string \<Rightarrow> point \<Rightarrow> point \<Rightarrow> travel_lookup
   \<Rightarrow> string \<Rightarrow> real \<Rightarrow> int" where
  "travel_seconds geodesic default_speed air_factor ground_factor f t a b L mode speed_kmh =
     (case mode_get (nonzero (network_seconds L f t mode)) (nonzero (network_seconds L t f mode)) of
        Some s \<Rightarrow> int s
      | None \<Rightarrow> fallback_seconds geodesic default_speed a b speed_kmh (mode_circuity air_factor ground_factor mode))"

definition network_measure :: "travel_lookup \<Rightarrow> string \<Rightarrow> string \<Rightarrow> string \<Rightarrow> (real \<times> real) option" where
  "network_measure L f t mode =
     (if f = [] \<or> t = [] \<or> f = t then None else get_measure L f t mode)"

definition network_distance_km :: "travel_lookup \<Rightarrow> string \<Rightarrow> string \<Rightarrow> string \<Rightarrow> real option" where
  "network_distance_km L f t mode =
     (case network_measure L f t mode of None \<Rightarrow> None | Some (d, toll) \<Rightarrow> if d \<le> 0 then None else Some d)"

definition network_toll_eur :: "travel_lookup \<Rightarrow> string \<Rightarrow> string \<Rightarrow> string \<Rightarrow> real option" where
  "network_toll_eur L f t mode = map_option snd (network_measure L f t mode)"

definition travel_network_nodes :: "travel_lookup \<Rightarrow> string list" where
  "travel_network_nodes L =
     (if aggregate L = [] then []
      else remdups (concat (map (\<lambda>((f, t), s). [f, t]) (aggregate L @ concat (map snd (by_mode L))))))"

definition travel_mode_for_vehicle :: "runtime \<Rightarrow> prime_mover_row \<Rightarrow> string" where
  "travel_mode_for_vehicle rt v =
     (let ty = py_upper (pm_asset_type v); ops = ops_set rt (pm_compatible_operations v) in
      if sublist ''UAV'' ty then ''air''
      else if sublist ''UGV'' ty then ''road''
      else if ''UAV_DELIVERY'' \<in> set ops then ''air''
      else if ''UGV_DELIVERY'' \<in> set ops then ''road'' else ''any'')"

definition travel_mode_for_operation :: "string \<Rightarrow> string" where
  "travel_mode_for_operation operation =
     (let op = py_upper operation in
      if prefix ''UAV_'' op then ''air'' else if prefix ''UGV_'' op then ''road'' else ''any'')"

definition iter_travel_lookup_items :: "travel_lookup \<Rightarrow> (string \<times> string \<times> string \<times> nat) list" where
  "iter_travel_lookup_items L =
     (if aggregate L = [] then []
      else concat (map (\<lambda>(mode, lookup). map (\<lambda>((f, t), s). (mode, f, t, s)) (sort_key fst lookup))
             (sort_key fst (by_mode L))))"

definition nonnegative_value :: "runtime \<Rightarrow> py_val \<Rightarrow> real" where
  "nonnegative_value rt v =
     (if truthy v then case vertex_float rt v of None \<Rightarrow> 0 | Some x \<Rightarrow> nonnegative x else 0)"

definition work_rate_for :: "runtime \<Rightarrow> related_row \<Rightarrow> string \<Rightarrow> real" where
  "work_rate_for rt implement unit =
     (case work_rates implement of
        VDict d \<Rightarrow> nonnegative_value rt (dget_default d (if unit = [] then ''ha'' else unit) VNone)
      | _ \<Rightarrow> 0)"

definition estimate_operation_seconds :: "runtime \<Rightarrow> task_row \<Rightarrow> related_row \<Rightarrow> int" where
  "estimate_operation_seconds rt order implement =
     (let minutes = nonnegative (service_duration_min order) in
      if minutes > 0 then py_int (minutes * 60)
      else
        let declared = nonnegative (work_quantity order);
            quantity = (if declared \<le> 0 then nonnegative (area order) else declared);
            unit = (if declared \<le> 0 then [] else py_strip (work_quantity_unit order));
            rate = work_rate_for rt implement unit;
            width = nonnegative (working_width implement); speed = nonnegative (max_speed implement)
        in if quantity > 0 \<and> rate > 0 then py_int (max (1/2) (min (quantity / rate) 24) * 3600)
           else if unit \<notin> set [[], ''ha''] then py_int (1 * 3600)
           else if width > 0 \<and> speed > 0
           then py_int (max (1/2) (min (quantity / (width / 1000 * speed * 10)) 24) * 3600)
           else py_int (1 * 3600))"

subsection \<open>Walks\<close>

inductive walk :: "seconds_lookup \<Rightarrow> string \<Rightarrow> nat \<Rightarrow> string \<Rightarrow> bool" for direct source where
  walk_start: "walk direct source 0 source"
| walk_link: "walk direct source d u \<Longrightarrow> ((u, t), s) \<in> set direct \<Longrightarrow> walk direct source (d + s) t"

lemma adjacency_iff: "(t, s) \<in> set (adjacency direct u) \<longleftrightarrow> ((u, t), s) \<in> set direct"
  by (force simp: adjacency_def)

definition relaxed :: "seconds_lookup \<Rightarrow> search_state \<Rightarrow> string \<Rightarrow> nat \<Rightarrow> bool" where
  "relaxed direct st u d \<longleftrightarrow>
     (\<forall>t s. ((u, t), s) \<in> set direct \<longrightarrow> (\<exists>b. map_of (best st) t = Some b \<and> b \<le> d + s))"

text \<open>The invariant of the search; only \<open>busy\<close>, the node being expanded, may have unrelaxed links that no heap
  entry accounts for.\<close>

definition search_inv :: "seconds_lookup \<Rightarrow> string \<Rightarrow> string option \<Rightarrow> search_state \<Rightarrow> bool" where
  "search_inv direct source busy st \<longleftrightarrow>
     wf_dict (best st) \<and> map_of (best st) source = Some 0 \<and>
     (\<forall>v d. map_of (best st) v = Some d \<longrightarrow> walk direct source d v) \<and>
     (\<forall>c v. (c, v) \<in> set (heap st) \<longrightarrow> (\<exists>b. map_of (best st) v = Some b \<and> b \<le> c)) \<and>
     (\<forall>u d. map_of (best st) u = Some d \<longrightarrow> Some u = busy \<or> (d, u) \<in> set (heap st) \<or> relaxed direct st u d) \<and>
     (\<forall>v u. map_of (predecessor st) v = Some u \<longrightarrow> v \<noteq> source \<and>
        (\<exists>du dv s. map_of (best st) u = Some du \<and> map_of (best st) v = Some dv \<and> ((u, v), s) \<in> set direct \<and>
           du + s \<le> dv)) \<and>
     (\<forall>v. map_of (best st) v \<noteq> None \<longrightarrow> v \<noteq> source \<longrightarrow> map_of (predecessor st) v \<noteq> None)"

lemma relax_link_inv:
  assumes inv: "search_inv direct source (Some node) st" and node: "map_of (best st) node = Some c"
    and link: "((node, t), s) \<in> set direct" and imp: "improves st t (c + s)"
    and st': "st' = st\<lparr>best := AList.update t (c + s) (best st), predecessor := AList.update t node (predecessor st),
                 heap := insort (c + s, t) (heap st)\<rparr>"
  shows "search_inv direct source (Some node) st'" "map_of (best st') node = Some c"
    "\<And>v b. map_of (best st) v = Some b \<Longrightarrow> \<exists>b'. map_of (best st') v = Some b' \<and> b' \<le> b"
proof -
  have t: "t \<noteq> node" "t \<noteq> source"
    using imp node inv by (auto simp: improves_def search_inv_def)
  have b': "map_of (best st') = (map_of (best st))(t \<mapsto> c + s)" by (simp add: st' update_conv')
  with t node show n: "map_of (best st') node = Some c" by simp
  show mono: "\<exists>b'. map_of (best st') v = Some b' \<and> b' \<le> b" if "map_of (best st) v = Some b" for v b
    using that imp by (auto simp: b' improves_def)
  have rel: "relaxed direct st' u d" if "relaxed direct st u d" for u d
    using that mono unfolding relaxed_def by (meson le_trans)
  have w: "walk direct source c node" using inv node by (simp add: search_inv_def)
  have heap': "set (heap st') = insert (c + s, t) (set (heap st))" by (simp add: st' set_insort_key)
  show "search_inv direct source (Some node) st'"
    unfolding search_inv_def
  proof (intro conjI allI impI)
    show "wf_dict (best st')" using inv by (simp add: st' search_inv_def)
    show "map_of (best st') source = Some 0" using inv t by (simp add: b' search_inv_def)
    fix v d assume "map_of (best st') v = Some d"
    then show "walk direct source d v"
      using inv walk_link [OF w link] by (auto simp: b' search_inv_def split: if_splits)
  next
    fix x v assume "(x, v) \<in> set (heap st')"
    then consider "x = c + s" "v = t" | "(x, v) \<in> set (heap st)" unfolding heap' by auto
    then show "\<exists>b. map_of (best st') v = Some b \<and> b \<le> x"
    proof cases
      case 1
      then show ?thesis by (simp add: b')
    next
      case 2
      with inv obtain b where b: "map_of (best st) v = Some b" "b \<le> x" unfolding search_inv_def by blast
      from mono [OF b(1)] b(2) show ?thesis by (meson le_trans)
    qed
  next
    fix u d assume d: "map_of (best st') u = Some d"
    show "Some u = Some node \<or> (d, u) \<in> set (heap st') \<or> relaxed direct st' u d"
    proof (cases "u = t")
      case True
      with d show ?thesis by (simp add: b' heap')
    next
      case False
      with d have "map_of (best st) u = Some d" by (simp add: b')
      with inv have "Some u = Some node \<or> (d, u) \<in> set (heap st) \<or> relaxed direct st u d"
        unfolding search_inv_def by blast
      with rel heap' show ?thesis by blast
    qed
  next
    fix v u assume p: "map_of (predecessor st') v = Some u"
    have pred': "map_of (predecessor st') = (map_of (predecessor st))(t \<mapsto> node)"
      by (simp add: st' update_conv')
    show "v \<noteq> source" using p inv t by (auto simp: pred' search_inv_def split: if_splits)
    show "\<exists>du dv s. map_of (best st') u = Some du \<and> map_of (best st') v = Some dv \<and> ((u, v), s) \<in> set direct \<and> du + s \<le> dv"
    proof (cases "v = t")
      case True
      with p n link show ?thesis by (auto simp: pred' b')
    next
      case False
      with p have "map_of (predecessor st) v = Some u" by (simp add: pred')
      with inv obtain du dv x where q: "map_of (best st) u = Some du" "map_of (best st) v = Some dv"
        "((u, v), x) \<in> set direct" "du + x \<le> dv" unfolding search_inv_def by blast
      from mono [OF q(1)] obtain du' where "map_of (best st') u = Some du'" "du' \<le> du" by blast
      moreover have "map_of (best st') v = Some dv" using q(2) False by (simp add: b')
      ultimately show ?thesis using q(3,4) by (intro exI [of _ du'] exI [of _ dv] exI [of _ x]) simp
    qed
  next
    fix v assume "map_of (best st') v \<noteq> None" "v \<noteq> source"
    then show "map_of (predecessor st') v \<noteq> None"
      using inv by (auto simp: st' b' update_conv' search_inv_def split: if_splits)
  qed
qed

lemma relax_inv:
  assumes "search_inv direct source (Some node) st" "map_of (best st) node = Some c"
    and "\<forall>(t, s)\<in>set out. ((node, t), s) \<in> set direct"
  shows "search_inv direct source (Some node) (relax c node out st) \<and>
    map_of (best (relax c node out st)) node = Some c \<and>
    (\<forall>v b. map_of (best st) v = Some b \<longrightarrow> (\<exists>b'. map_of (best (relax c node out st)) v = Some b' \<and> b' \<le> b)) \<and>
    (\<forall>(t, s)\<in>set out. \<exists>b. map_of (best (relax c node out st)) t = Some b \<and> b \<le> c + s)"
  using assms
proof (induction out arbitrary: st)
  case (Cons e out)
  obtain t s where e: "e = (t, s)" by fastforce
  let ?st = "if improves st t (c + s)
        then st\<lparr>best := AList.update t (c + s) (best st), predecessor := AList.update t node (predecessor st),
                heap := insort (c + s, t) (heap st)\<rparr> else st"
  have link: "((node, t), s) \<in> set direct" using Cons.prems(3) e by simp
  have st: "search_inv direct source (Some node) ?st" "map_of (best ?st) node = Some c"
    "\<And>v b. map_of (best st) v = Some b \<Longrightarrow> \<exists>b'. map_of (best ?st) v = Some b' \<and> b' \<le> b"
    using relax_link_inv [OF Cons.prems(1,2) link _ refl] Cons.prems(1,2) by auto
  have reached: "\<exists>b. map_of (best ?st) t = Some b \<and> b \<le> c + s"
    by (auto simp: improves_def update_conv' split: option.splits)
  have r: "relax c node (e # out) st = relax c node out ?st" by (simp add: e)
  have "\<forall>(t, s)\<in>set out. ((node, t), s) \<in> set direct" using Cons.prems(3) by simp
  from Cons.IH [OF st(1,2) this] show ?case
    unfolding r using st(3) reached by (auto simp: e) (meson le_trans)+
qed auto

lemma pop_inv:
  assumes inv: "search_inv direct source None st" and heap: "heap st = (c, node) # rest"
    and node: "map_of (best st) node = Some b" "b \<le> c"
  shows "search_inv direct source (if b < c then None else Some node) (st\<lparr>heap := rest\<rparr>)"
proof -
  have rel: "relaxed direct (st\<lparr>heap := rest\<rparr>) = relaxed direct st" by (simp add: relaxed_def fun_eq_iff)
  have "Some u = (if b < c then None else Some node) \<or> (d, u) \<in> set rest \<or> relaxed direct st u d"
    if "map_of (best st) u = Some d" for u d
  proof -
    from that inv have "(d, u) \<in> set (heap st) \<or> relaxed direct st u d" unfolding search_inv_def by blast
    with heap node that show ?thesis by (cases "u = node") auto
  qed
  with inv heap show ?thesis unfolding search_inv_def rel by auto
qed

lemma expanded_inv:
  assumes inv: "search_inv direct source (Some node) st" and "map_of (best st) node = Some c" "relaxed direct st node c"
  shows "search_inv direct source None st"
proof -
  have "(d, u) \<in> set (heap st) \<or> relaxed direct st u d" if "map_of (best st) u = Some d" for u d
    using inv assms(2,3) that by (cases "u = node") (auto simp: search_inv_def)
  with inv show ?thesis unfolding search_inv_def by (elim conjE) (intro conjI; simp)
qed

lemma search_loop_inv:
  "search_inv direct source None st \<Longrightarrow>
   search_inv direct source None (search_loop direct st) \<and> heap (search_loop direct st) = []"
proof (induction direct st rule: search_loop.induct)
  case (1 direct st)
  show ?case
  proof (cases "heap st")
    case Nil
    with 1(3) show ?thesis by (simp add: search_loop.simps)
  next
    case (Cons x rest)
    obtain c node where x: "x = (c, node)" by fastforce
    let ?st = "st\<lparr>heap := rest\<rparr>"
    have "(c, node) \<in> set (heap st)" using Cons x by simp
    with 1(3) obtain b where b: "map_of (best st) node = Some b" "b \<le> c"
      unfolding search_inv_def by blast
    show ?thesis
    proof (cases "b < c")
      case True
      have "search_inv direct source None ?st"
        using pop_inv [OF 1(3) Cons [unfolded x] b] True by simp
      with 1(1) [OF Cons x [symmetric] refl] b True Cons x show ?thesis by (simp add: search_loop.simps [of direct st])
    next
      case False
      with b have eq: "b = c" by simp
      have "search_inv direct source (Some node) ?st"
        using pop_inv [OF 1(3) Cons [unfolded x] b] eq by simp
      moreover have "map_of (best ?st) node = Some c" using b eq by simp
      moreover have "\<forall>(t, s)\<in>set (adjacency direct node). ((node, t), s) \<in> set direct"
        by (auto simp: adjacency_iff)
      ultimately have r: "search_inv direct source (Some node) (relax c node (adjacency direct node) ?st)"
        "map_of (best (relax c node (adjacency direct node) ?st)) node = Some c"
        "\<forall>(t, s)\<in>set (adjacency direct node).
           \<exists>b. map_of (best (relax c node (adjacency direct node) ?st)) t = Some b \<and> b \<le> c + s"
        using relax_inv by blast+
      from r(3) have "relaxed direct (relax c node (adjacency direct node) ?st) node c"
        unfolding relaxed_def adjacency_iff [symmetric] by fastforce
      from expanded_inv [OF r(1,2) this] have "search_inv direct source None (relax c node (adjacency direct node) ?st)"
        .
      with 1(2) [OF Cons x [symmetric] refl] b eq Cons x show ?thesis by (simp add: search_loop.simps [of direct st])
    qed
  qed
qed

lemma search_inv_init:
  "search_inv direct source None \<lparr>best = [(source, 0)], predecessor = [], heap = [(0, source)]\<rparr>"
  by (auto simp: search_inv_def wf_dict_def intro: walk_start split: if_splits)

lemma search_final: "search_inv direct source None (search direct source)" "heap (search direct source) = []"
  using search_loop_inv [OF search_inv_init [of direct source]] by (simp_all add: search_def)

text \<open>The search finds the least weight of a walk.\<close>

lemma search_shortest:
  "map_of (best (search direct source)) v = Some d \<longleftrightarrow>
   walk direct source d v \<and> (\<forall>d'. walk direct source d' v \<longrightarrow> d \<le> d')"
proof -
  note inv = search_final [of direct source]
  have least: "\<exists>b. map_of (best (search direct source)) v = Some b \<and> b \<le> d'" if "walk direct source d' v" for d' v
    using that
  proof induction
    case walk_start
    then show ?case using inv(1) by (simp add: search_inv_def)
  next
    case (walk_link d u t s)
    then obtain b where b: "map_of (best (search direct source)) u = Some b" "b \<le> d" by blast
    with inv have "relaxed direct (search direct source) u b" by (auto simp: search_inv_def)
    with walk_link(2) obtain b' where "map_of (best (search direct source)) t = Some b'" "b' \<le> b + s"
      unfolding relaxed_def by blast
    with b(2) show ?case by (intro exI [of _ b']) simp
  qed
  show ?thesis
  proof
    assume a: "map_of (best (search direct source)) v = Some d"
    then have "walk direct source d v" using inv(1) by (simp add: search_inv_def)
    with a least show "walk direct source d v \<and> (\<forall>d'. walk direct source d' v \<longrightarrow> d \<le> d')" by fastforce
  next
    assume a: "walk direct source d v \<and> (\<forall>d'. walk direct source d' v \<longrightarrow> d \<le> d')"
    with least obtain b where b: "map_of (best (search direct source)) v = Some b" "b \<le> d" by blast
    then have "walk direct source b v" using inv(1) by (simp add: search_inv_def)
    with a b show "map_of (best (search direct source)) v = Some d" by (simp add: antisym)
  qed
qed

subsection \<open>The closure is exact\<close>

lemma map_of_closure_from:
  "map_of (closure_from direct source) (u, v) =
     (if u = source \<and> v \<noteq> source then map_of (best (search direct source)) v else None)"
proof -
  have "map_of (map (\<lambda>(t, d). ((source, t), d)) (filter (\<lambda>(t, d). t \<noteq> source) xs)) (u, v) =
      (if u = source \<and> v \<noteq> source then map_of xs v else None)" for xs :: "(string, nat) dict"
    by (induction xs) auto
  then show ?thesis by (simp add: closure_from_def)
qed

lemma map_of_concat_sources:
  assumes "\<And>s u v. u \<noteq> s \<Longrightarrow> map_of (f s) (u, v) = None" "distinct nodes"
  shows "map_of (concat (map f nodes)) (u, v) = (if u \<in> set nodes then map_of (f u) (u, v) else None)"
  using assms(2)
proof (induction nodes)
  case (Cons n nodes)
  then show ?case using assms(1) [of u n v] by (cases "u = n") (auto simp: map_add_def split: option.splits)
qed simp

lemma network_nodes_iff: "n \<in> set (network_nodes direct) \<longleftrightarrow> (\<exists>f t s. ((f, t), s) \<in> set direct \<and> n \<in> {f, t})"
  by (force simp: network_nodes_def)

lemma walk_source_node: "walk direct u d v \<Longrightarrow> v \<noteq> u \<Longrightarrow> u \<in> set (network_nodes direct)"
proof (induction rule: walk.induct)
  case (walk_link d w t s)
  then show ?case by (cases "w = u") (auto simp: network_nodes_iff)
qed simp

text \<open>C21: The travel network answers with shortest travel times. Within the node cap the search from every node terminates, and
  the closure has an entry for a pair of places exactly when they differ and a chain of links leads from the
  first to the second; the entry is the least total time of such a chain.\<close>

theorem travel_closure_shortest:
  assumes "length (network_nodes direct) \<le> cap"
  shows "map_of (fst (compose_network cap direct paths)) (u, v) = Some d \<longleftrightarrow>
    u \<noteq> v \<and> walk direct u d v \<and> (\<forall>d'. walk direct u d' v \<longrightarrow> d \<le> d')"
proof (cases "direct = []")
  case True
  have "\<not> (u \<noteq> v \<and> walk [] u d v)" by (auto elim: walk.cases)
  with True show ?thesis by (auto simp: compose_network_def)
next
  case False
  have "map_of (fst (compose_network cap direct paths)) (u, v) =
      (if u \<in> set (network_nodes direct) then map_of (closure_from direct u) (u, v) else None)"
    using False assms
    by (simp add: compose_network_def map_of_concat_sources map_of_closure_from network_nodes_def)
  then show ?thesis
    using walk_source_node [of direct u d v] by (auto simp: map_of_closure_from search_shortest)
qed

text \<open>The composed geometry of a pair follows a shortest chain of links.\<close>

fun link_chain :: "string \<Rightarrow> place_pair list \<Rightarrow> string \<Rightarrow> bool" where
  "link_chain u [] v \<longleftrightarrow> u = v"
| "link_chain u ((a, b) # links) v \<longleftrightarrow> a = u \<and> link_chain b links v"

lemma trace_chain:
  assumes inv: "search_inv direct source None st" and fin: "heap st = []" and wf: "wf_dict direct"
  shows "trace_links (predecessor st) source n cursor acc = (source, links) \<Longrightarrow>
    map_of (best st) cursor = Some d \<Longrightarrow> link_chain cursor acc v \<Longrightarrow>
    \<forall>l\<in>set acc. map_of direct l \<noteq> None \<Longrightarrow>
    link_chain source links v \<and> (\<forall>l\<in>set links. map_of direct l \<noteq> None) \<and>
    sum_list (map (\<lambda>l. the (map_of direct l)) links) = d + sum_list (map (\<lambda>l. the (map_of direct l)) acc)"
proof (induction n arbitrary: cursor acc d)
  case 0
  with inv show ?case by (simp add: search_inv_def)
next
  case (Suc n)
  show ?case
  proof (cases "cursor = source")
    case True
    with Suc.prems inv show ?thesis by (auto simp: search_inv_def)
  next
    case False
    with Suc.prems obtain u where u: "map_of (predecessor st) cursor = Some u"
      and t: "trace_links (predecessor st) source n u ((u, cursor) # acc) = (source, links)"
      by (auto split: option.splits)
    from inv u obtain du dv s where s: "map_of (best st) u = Some du" "map_of (best st) cursor = Some dv"
      "((u, cursor), s) \<in> set direct" "du + s \<le> dv" unfolding search_inv_def by blast
    from inv fin s(1) have "relaxed direct st u du" by (auto simp: search_inv_def)
    with s Suc.prems(2) have d: "d = du + s" unfolding relaxed_def by fastforce
    have m: "map_of direct (u, cursor) = Some s" using wf s(3) by (simp add: wf_dict_map_of)
    from Suc.IH [OF t s(1)] Suc.prems(3,4) m d show ?thesis by simp
  qed
qed

lemma composed_path_follows_links:
  assumes "composed_path direct_paths (search direct source) source v = Some p"
    and "map_of (best (search direct source)) v = Some d" "wf_dict direct"
  obtains links where "link_chain source links v" "links \<noteq> []" "\<forall>l\<in>set links. map_of direct l \<noteq> None"
    "sum_list (map (\<lambda>l. the (map_of direct l)) links) = d"
    "p = join_segments [] (map (\<lambda>l. the (map_of direct_paths l)) links)"
proof -
  from assms(1) obtain links where t: "trace_links (predecessor (search direct source)) source
      (length (predecessor (search direct source))) v [] = (source, links)" "links \<noteq> []"
    "p = join_segments [] (map (\<lambda>l. the (map_of direct_paths l)) links)"
    by (auto simp: composed_path_def split: prod.splits if_splits)
  from trace_chain [OF search_final assms(3) t(1) assms(2), of v] t(2,3) show thesis
    by (intro that [of links]) simp_all
qed

subsection \<open>Bounds of the times\<close>

lemma travel_seconds_positive: "1 \<le> travel_seconds geodesic ds af gf f t a b L mode speed"
  by (auto simp: travel_seconds_def fallback_seconds_def mode_get_def nonzero_def split: option.splits nat.splits)

lemma clamped_hours: "1800 \<le> py_int (max (1/2) (min x 24) * 3600) \<and> py_int (max (1/2) (min x 24) * 3600) \<le> 86400"
proof -
  let ?h = "max (1/2) (min x 24) :: real"
  have "1/2 \<le> ?h" "?h \<le> 24" by auto
  then have "1800 \<le> ?h * 3600" "?h * 3600 \<le> 86400" by linarith+
  then show ?thesis by (auto simp: py_int_def le_floor_iff floor_le_iff)
qed

text \<open>Without an explicit duration a service takes between half an hour and a day.\<close>

lemma service_seconds_bounds:
  assumes "service_duration_min order \<le> 0"
  shows "1800 \<le> estimate_operation_seconds rt order implement \<and> estimate_operation_seconds rt order implement \<le> 86400"
  using assms clamped_hours
  by (auto simp: estimate_operation_seconds_def Let_def nonnegative_def)

subsection \<open>Instances\<close>

definition sample_link :: "string \<Rightarrow> string \<Rightarrow> real \<Rightarrow> string \<Rightarrow> travel_link_row" where
  "sample_link f t s mode =
     \<lparr>tlr_link_id = ''l'', tlr_from = f, tlr_to = t, tlr_travel_time_s = s, tlr_distance_km = s,
      tlr_network_mode = mode, tlr_route_geometry = VNone, tlr_toll_eur = s\<rparr>"

definition sample_direct :: seconds_lookup where
  "sample_direct = [((''a'', ''c''), 90), ((''a'', ''b''), 20), ((''b'', ''c''), 30)]"

lemma sample_search: "best (search sample_direct ''a'') = [(''a'', 0), (''c'', 50), (''b'', 20)]"
proof -
  have adj: "adjacency sample_direct ''a'' = [(''c'', 90), (''b'', 20)]" "adjacency sample_direct ''b'' = [(''c'', 30)]"
    "adjacency sample_direct ''c'' = []" by code_simp+
  show ?thesis
    by (simp add: search_def search_loop.simps adj improves_def)
qed

lemma travel_closure_shortest_witness:
  "walk sample_direct ''a'' 50 ''c'' \<and> \<not> (\<exists>d'. walk sample_direct ''a'' d' ''c'' \<and> d' < 50)"
proof -
  have n: "length (network_nodes sample_direct) \<le> 1000" "''a'' \<in> set (network_nodes sample_direct)"
    "sample_direct \<noteq> []" by code_simp+
  have "map_of (fst (compose_network 1000 sample_direct [])) (''a'', ''c'') = Some 50"
    using n sample_search
    by (simp add: compose_network_def map_of_concat_sources map_of_closure_from network_nodes_def)
  with travel_closure_shortest [OF n(1), of "[]" "''a''" "''c''" 50] show ?thesis by (auto simp: not_less)
qed

subsection \<open>Divergences\<close>

text \<open>The measure of a pair is not that of the link its time comes from: on a road over which a faster link of any
  mode exists the time is that of the faster link, the distance and the toll those of the slower one.\<close>

definition sample_two_links :: "travel_link_row list" where
  "sample_two_links = [sample_link ''a'' ''b'' 100 ''road'', sample_link ''a'' ''b'' 50 ''any'']"

lemma toll_of_another_link:
  "fst (merge_mode (fst (index_links (\<lambda>_ _. 0) 2 sample_runtime sample_two_links))
      (dget_default (snd (index_links (\<lambda>_ _. 0) 2 sample_runtime sample_two_links)) ''road'' no_links)) = [((''a'', ''b''), 50)]
   \<and> ml_measures (dget_default (snd (index_links (\<lambda>_ _. 0) 2 sample_runtime sample_two_links)) ''road'' no_links)
       = [((''a'', ''b''), (100, 100))]"
  by code_simp

end
