(* ===== verification/Clustering.thy ===== *)
theory Clustering
  imports TravelTime
begin

text \<open>
  Pre-filter and clustering (\<open>solver/preprocessing.py\<close>, the matrix of \<open>solver/feasibility.py\<close>): compatible
  pairs of prime mover and related equipment, depot affinity, precedence and alternative units, and the
  cluster specifications. The ball-tree query of the case without a travel network is a parameter
  (scikit-learn). An exception is \<open>None\<close>. The content-addressed caches return what they stored and are
  not modelled; \<open>float32\<close> rounding of the margins is not modelled either.
\<close>

subsection \<open>Compatible pairs\<close>

definition power_margin :: "prime_mover_row \<Rightarrow> related_row \<Rightarrow> real" where
  "power_margin p r = (rated_power p - required_power r) / rated_power p * 100"

text \<open>With a rated power of 0 the margin is infinite or not a number in \<open>numpy\<close>.\<close>

definition compat :: "real \<Rightarrow> prime_mover_row \<Rightarrow> related_row \<Rightarrow> bool" where
  "compat margin_pct p r =
     (if rated_power p = 0 then required_power r < 0 else power_margin p r \<ge> - margin_pct)"

definition index_rows :: "('a \<Rightarrow> string) \<Rightarrow> 'a list \<Rightarrow> string \<Rightarrow> nat option" where
  "index_rows key rows = map_of (rev (zip (map key rows) [0..<length rows]))"

definition feasible_pairs_of ::
  "runtime \<Rightarrow> real \<Rightarrow> prime_mover_row list \<Rightarrow> related_row list \<Rightarrow> task_row \<Rightarrow> (nat \<times> nat) list" where
  "feasible_pairs_of rt margin_pct vehicles implements order =
     (let op = py_upper (operation_type order) in
      concat (map (\<lambda>im.
        if op \<notin> set (ops_set rt (rel_compatible_operations im)) then []
        else case index_rows rel_asset_id implements (rel_asset_id im) of
               None \<Rightarrow> []
             | Some i \<Rightarrow> List.map_filter (\<lambda>v.
                 let v_ops = ops_set rt (pm_compatible_operations v) in
                 if v_ops \<noteq> [] \<and> op \<notin> set v_ops then None
                 else case index_rows pm_asset_id vehicles (pm_asset_id v) of
                        None \<Rightarrow> None
                      | Some j \<Rightarrow> if compat margin_pct (vehicles ! j) (implements ! i) then Some (j, i) else None)
                 vehicles) implements))"

definition filter_feasible_pairs ::
  "runtime \<Rightarrow> real \<Rightarrow> task_row list \<Rightarrow> prime_mover_row list \<Rightarrow> related_row list
   \<Rightarrow> (string, (nat \<times> nat) list) dict" where
  "filter_feasible_pairs rt margin_pct orders vehicles implements =
     fold (\<lambda>tk. AList.update (task_id tk) (feasible_pairs_of rt margin_pct vehicles implements tk)) orders []"

subsection \<open>Depot affinity\<close>

record cluster_env =
  ce_geodesic :: "point \<Rightarrow> point \<Rightarrow> real"
  ce_nearest :: "point \<Rightarrow> point list \<Rightarrow> nat"
  ce_default_speed :: real
  ce_air_factor :: real
  ce_ground_factor :: real

definition field_of :: "site_row list \<Rightarrow> task_row \<Rightarrow> site_row option" where
  "field_of sites order = map_of (rev (map (\<lambda>f. (site_id f, f)) sites)) (location_ref order)"

definition depot_seconds :: "cluster_env \<Rightarrow> travel_lookup \<Rightarrow> task_row \<Rightarrow> site_row \<Rightarrow> depot_row \<Rightarrow> int" where
  "depot_seconds env L order field d =
     travel_seconds (ce_geodesic env) (ce_default_speed env) (ce_air_factor env) (ce_ground_factor env)
       (depot_id d) (location_ref order) (depot_lat d, depot_lon d) (site_lat field, site_lon field) L
       (travel_mode_for_operation (operation_type order)) (ce_default_speed env)"

definition nearest_depot ::
  "cluster_env \<Rightarrow> travel_lookup \<Rightarrow> depot_row list \<Rightarrow> task_row \<Rightarrow> site_row \<Rightarrow> depot_row option" where
  "nearest_depot env L depots order field =
     (if depots = [] then None
      else if aggregate L \<noteq> [] then min_by (depot_seconds env L order field) depots
      else Some (depots ! ce_nearest env (site_lat field, site_lon field)
                            (map (\<lambda>d. (depot_lat d, depot_lon d)) depots)))"

fun assign_orders ::
  "cluster_env \<Rightarrow> travel_lookup \<Rightarrow> site_row list \<Rightarrow> depot_row list \<Rightarrow> task_row list
   \<Rightarrow> (string, string list) dict \<Rightarrow> (string, string list) dict option" where
  "assign_orders env L sites depots [] assignment = Some assignment"
| "assign_orders env L sites depots (order # rest) assignment =
     (case field_of sites order of
        None \<Rightarrow> assign_orders env L sites depots rest assignment
      | Some field \<Rightarrow>
          (case nearest_depot env L depots order field of
             None \<Rightarrow> None
           | Some d \<Rightarrow> assign_orders env L sites depots rest (dappend (depot_id d) (task_id order) assignment)))"

definition cluster_orders_by_depot ::
  "cluster_env \<Rightarrow> travel_lookup \<Rightarrow> task_row list \<Rightarrow> site_row list \<Rightarrow> depot_row list
   \<Rightarrow> (string, string list) dict option" where
  "cluster_orders_by_depot env L orders sites depots =
     assign_orders env L sites depots orders (fold (\<lambda>d. AList.update (depot_id d) []) depots [])"

subsection \<open>Precedence and alternative units\<close>

text \<open>The parent of a task: its predecessor, when it is another task that is present.\<close>

definition parents :: "task_row list \<Rightarrow> (string, string) dict" where
  "parents orders =
     fold (\<lambda>tk. AList.update (task_id tk)
            (if depends_on_task_ref tk \<in> set (map task_id orders) \<and> depends_on_task_ref tk \<noteq> task_id tk
             then depends_on_task_ref tk else '''')) orders []"

definition parent_ref :: "(string, string) dict \<Rightarrow> string \<Rightarrow> string" where
  "parent_ref pm t = dget_default pm t ''''"

lemma parent_ref_key: "parent_ref pm t \<noteq> '''' \<Longrightarrow> t \<in> fst ` set pm"
  by (auto simp: parent_ref_def dget_default_def split: option.splits dest!: map_of_SomeD) force

function root_loop :: "(string, string) dict \<Rightarrow> string \<Rightarrow> string list \<Rightarrow> string \<Rightarrow> string" where
  "root_loop pm start visited current =
     (if parent_ref pm current = '''' then current
      else if current \<in> set visited then start
      else root_loop pm start (current # visited) (parent_ref pm current))"
  by pat_completeness auto

termination
proof (relation "measure (\<lambda>(pm, start, visited, current). card (fst ` set pm - set visited))", goal_cases)
  case (2 pm start visited current)
  have "current \<in> fst ` set pm" using 2(1) by (rule parent_ref_key)
  with 2(2) have "fst ` set pm - set (current # visited) \<subset> fst ` set pm - set visited" by auto
  then show ?case by (simp add: psubset_card_mono)
qed simp

declare root_loop.simps [simp del]

definition root_of :: "(string, string) dict \<Rightarrow> string \<Rightarrow> string" where
  "root_of pm t = root_loop pm t [] t"

type_synonym unit_table = "(string, string list) dict"

definition unit_of_task :: "unit_table \<Rightarrow> (string, string) dict" where
  "unit_of_task units =
     fold (\<lambda>(head, tids). fold (\<lambda>t. AList.update t head) tids) units []"

definition alternative_groups :: "task_row list \<Rightarrow> (string, string list) dict" where
  "alternative_groups orders =
     fold (\<lambda>tk. dappend (alternative_group_ref tk) (task_id tk))
       (filter (\<lambda>tk. alternative_group_ref tk \<noteq> '''') orders) []"

text \<open>One group: the units of its members become one, under the first head.\<close>

fun pop_units :: "string list \<Rightarrow> unit_table \<Rightarrow> string list \<times> unit_table" where
  "pop_units [] merged = ([], merged)"
| "pop_units (head # roots) merged =
     (let (rest, merged') = pop_units roots (AList.delete head merged)
      in (dget_default merged head [] @ rest, merged'))"

fun first_occurrences :: "string list \<Rightarrow> string list \<Rightarrow> string list" where
  "first_occurrences known [] = []"
| "first_occurrences known (x # xs) =
     (if x \<in> set known then first_occurrences known xs else x # first_occurrences (x # known) xs)"

definition merge_group :: "string list \<Rightarrow> unit_table \<times> (string, string) dict \<Rightarrow> unit_table \<times> (string, string) dict" where
  "merge_group members s =
     (let (merged, unit_of) = s;
          roots = map (\<lambda>t. dget_default unit_of t t) members;
          target = hd roots;
          (combined, rest) = pop_units roots merged;
          tids = first_occurrences [] combined
      in (AList.update target tids rest, fold (\<lambda>t. AList.update t target) tids unit_of))"

definition merge_alternative_units :: "task_row list \<Rightarrow> unit_table \<Rightarrow> unit_table" where
  "merge_alternative_units orders units =
     (if alternative_groups orders = [] then units
      else fst (fold merge_group (map snd (alternative_groups orders)) (units, unit_of_task units)))"

definition dependency_units :: "task_row list \<Rightarrow> unit_table" where
  "dependency_units orders =
     merge_alternative_units orders
       (fold (\<lambda>tk. dappend (root_of (parents orders) (task_id tk)) (task_id tk)) orders [])"

subsection \<open>Regrouping\<close>

definition depot_of_task :: "(string, string list) dict \<Rightarrow> (string, string) dict" where
  "depot_of_task assignment = fold (\<lambda>(depot, tids). fold (\<lambda>t. AList.update t depot) tids) assignment []"

definition regroup_task ::
  "unit_table \<Rightarrow> (string, string) dict \<Rightarrow> (string, string) dict \<Rightarrow> string \<Rightarrow> string
   \<Rightarrow> (string, string list list) dict \<times> string list \<Rightarrow> (string, string list list) dict \<times> string list" where
  "regroup_task units unit_of depot_of depot tid s =
     (let (grouped, emitted) = s; head = dget_default unit_of tid tid in
      if head \<in> set emitted then s
      else let members = dget_default units head [tid] in
           if length members = 1 then (dappend depot [tid] grouped, emitted)
           else (dappend (dget_default depot_of head depot)
                   (filter (\<lambda>m. m \<in> fst ` set depot_of) members) grouped, head # emitted))"

definition regroup_units_by_root_depot ::
  "(string, string list) dict \<Rightarrow> unit_table \<Rightarrow> (string, string list list) dict" where
  "regroup_units_by_root_depot assignment units =
     (let depot_of = depot_of_task assignment; unit_of = unit_of_task units in
      fst (fold (\<lambda>(depot, tids). fold (regroup_task units unit_of depot_of depot) tids)
             assignment (map (\<lambda>(depot, tids). (depot, [])) assignment, [])))"

subsection \<open>Sub-clusters\<close>

fun pack_loop :: "nat \<Rightarrow> string list \<Rightarrow> string list list \<Rightarrow> string list list" where
  "pack_loop target current [] = (if current = [] then [] else [current])"
| "pack_loop target current (u # units) =
     (if current \<noteq> [] \<and> length current + length u > target
      then current # pack_loop target u units
      else pack_loop target (current @ u) units)"

definition pack_units :: "string list list \<Rightarrow> nat \<Rightarrow> string list list" where
  "pack_units units target = pack_loop target [] units"

definition unit_operations :: "(string \<Rightarrow> task_row option) \<Rightarrow> string list \<Rightarrow> string list" where
  "unit_operations order_index u =
     sort (remdups (map (\<lambda>t. case order_index t of None \<Rightarrow> '''' | Some tk \<Rightarrow> operation_type tk) u))"

definition operation_key :: "string list \<Rightarrow> string" where
  "operation_key ops = (case ops of [] \<Rightarrow> '''' | x # _ \<Rightarrow> x)"

definition split_by_operations ::
  "string list list \<Rightarrow> nat \<Rightarrow> (string \<Rightarrow> task_row option) \<Rightarrow> string list list" where
  "split_by_operations units target order_index =
     (let single = filter (\<lambda>u. length (unit_operations order_index u) \<le> 1) units;
          keys = sort (remdups (map (\<lambda>u. operation_key (unit_operations order_index u)) single))
      in concat (map (\<lambda>k. pack_units (filter (\<lambda>u. operation_key (unit_operations order_index u) = k) single) target) keys)
         @ filter (\<lambda>u. \<not> length (unit_operations order_index u) \<le> 1) units)"

definition split_units ::
  "string list list \<Rightarrow> nat \<Rightarrow> (string \<Rightarrow> task_row option) \<Rightarrow> bool \<Rightarrow> string list list" where
  "split_units units target order_index by_operation =
     (if by_operation then split_by_operations units target order_index else pack_units units target)"

text \<open>Slices of \<open>chunk\<close>, which is positive.\<close>

fun chunks :: "nat \<Rightarrow> nat \<Rightarrow> 'a list \<Rightarrow> 'a list list" where
  "chunks 0 chunk xs = []"
| "chunks (Suc n) chunk xs = (if xs = [] then [] else take chunk xs # chunks n chunk (drop chunk xs))"

definition split_into_subclusters :: "string list \<Rightarrow> nat \<Rightarrow> string list list" where
  "split_into_subclusters tids target_size =
     (let n = length tids;
          n_clusters = max 1 (nat (round_half_even (real n / real target_size)));
          chunk = max 1 (n div n_clusters)
      in chunks n chunk tids)"

subsection \<open>Cluster specifications\<close>

text \<open>\<open>order_index\<close>: the last row of an id wins.\<close>

definition index_orders :: "task_row list \<Rightarrow> string \<Rightarrow> task_row option" where
  "index_orders orders = map_of (rev (map (\<lambda>tk. (task_id tk, tk)) orders))"

definition subclusters_of ::
  "runtime \<Rightarrow> task_row list \<Rightarrow> prime_mover_row list \<Rightarrow> nat \<Rightarrow> (string, string list) dict
   \<Rightarrow> (string \<times> string list list) list" where
  "subclusters_of rt orders vehicles target assignment =
     (let units = dependency_units orders;
          has_chains = list_ex (\<lambda>(head, members). length members > 1) units;
          by_operation = list_ex (\<lambda>v. ops_set rt (pm_compatible_operations v) \<noteq> []) vehicles;
          depot_units = regroup_units_by_root_depot assignment units
      in map (\<lambda>(depot, tids).
           (depot, if has_chains \<or> by_operation
                   then split_units (dget_default depot_units depot []) target (index_orders orders) by_operation
                   else split_into_subclusters tids target)) assignment)"

text \<open>\<open>name\<close> renders a sequence number as \<open>cluster_%06d\<close>.\<close>

definition cluster_of :: "(nat \<Rightarrow> string) \<Rightarrow> (string \<Rightarrow> task_row option) \<Rightarrow> nat \<Rightarrow> string \<Rightarrow> string list \<Rightarrow> cluster_spec" where
  "cluster_of name order_index i depot sub =
     \<lparr>cluster_id = name i, depot_ref = depot, task_ids = sub, allocated_prime_related = [], operator_ref = '''',
      task_operators = [], shared_backup_operators = [],
      total_penalty_per_day =
        sum_list (map (\<lambda>t. case order_index t of None \<Rightarrow> 0 | Some tk \<Rightarrow> penalty_per_day tk) sub)\<rparr>"

definition build_cluster_specs ::
  "(nat \<Rightarrow> string) \<Rightarrow> cluster_env \<Rightarrow> runtime \<Rightarrow> travel_lookup \<Rightarrow> nat \<Rightarrow> task_row list \<Rightarrow> site_row list
   \<Rightarrow> depot_row list \<Rightarrow> prime_mover_row list \<Rightarrow> cluster_spec list option" where
  "build_cluster_specs name env rt L target orders sites depots vehicles =
     map_option (\<lambda>assignment.
       let subs = concat (map (\<lambda>(depot, ss). map (Pair depot) ss)
                    (subclusters_of rt orders vehicles target assignment))
       in map (\<lambda>(i, depot, sub). cluster_of name (index_orders orders) i depot sub) (zip [0..<length subs] subs))
      (cluster_orders_by_depot env L orders sites depots)"

subsection \<open>Tables of units\<close>

definition table_items :: "('k, 'v list) dict \<Rightarrow> 'v list" where
  "table_items d = concat (map snd d)"

lemma mset_dappend: "mset (table_items (dappend k x d)) = add_mset x (mset (table_items d))"
proof -
  have "mset (concat (map snd (AList.update k (v @ [x]) d))) = add_mset x (mset (concat (map snd d)))"
    if "v = dget_default d k []" for v
    using that by (induction d) (auto simp: dget_default_def)
  from this [OF refl] show ?thesis by (simp add: table_items_def dappend_def)
qed

lemma fold_dappend:
  "mset (table_items (fold (\<lambda>x. dappend (key x) (val x)) xs d)) = mset (map val xs) + mset (table_items d)"
  by (induction xs arbitrary: d) (simp_all add: mset_dappend)

lemma fold_dappend_wf: "wf_dict d \<Longrightarrow> wf_dict (fold (\<lambda>x. dappend (key x) (val x)) xs d)"
  by (induction xs arbitrary: d) simp_all

lemma fold_dappend_keep:
  "v \<in> set (dget_default d k []) \<Longrightarrow> v \<in> set (dget_default (fold (\<lambda>x. dappend (key x) (val x)) xs d) k [])"
proof (induction xs arbitrary: d)
  case (Cons x xs)
  have "v \<in> set (dget_default (dappend (key x) (val x) d) k [])"
    using Cons.prems by (cases "k = key x") (simp_all add: dget_default_dappend)
  from Cons.IH [OF this] show ?case by simp
qed simp

lemma fold_dappend_mem:
  "x \<in> set xs \<Longrightarrow> val x \<in> set (dget_default (fold (\<lambda>x. dappend (key x) (val x)) xs d) (key x) [])"
proof (induction xs arbitrary: d)
  case (Cons y xs)
  show ?case
  proof (cases "x = y")
    case True
    then show ?thesis by (auto intro!: fold_dappend_keep simp: dget_default_dappend)
  next
    case False
    with Cons show ?thesis by auto
  qed
qed simp

text \<open>A table of units is a partition of \<open>S\<close>, and two tasks are in one unit.\<close>

definition unit_part :: "string set \<Rightarrow> unit_table \<Rightarrow> bool" where
  "unit_part S units \<longleftrightarrow> wf_dict units \<and> distinct (table_items units) \<and> set (table_items units) = S"

definition in_unit :: "unit_table \<Rightarrow> string \<Rightarrow> string \<Rightarrow> bool" where
  "in_unit units r t \<longleftrightarrow> (\<exists>ms. map_of units r = Some ms \<and> t \<in> set ms)"

lemma in_unit_iff: "wf_dict units \<Longrightarrow> in_unit units r t \<longleftrightarrow> (\<exists>ms. (r, ms) \<in> set units \<and> t \<in> set ms)"
  by (auto simp: in_unit_def wf_dict_map_of)

lemma in_unit_unique:
  "unit_part S units \<Longrightarrow> in_unit units r t \<Longrightarrow> in_unit units r' t \<Longrightarrow> r = r'"
proof -
  have "(r, ms) \<in> set u \<Longrightarrow> (r', ms') \<in> set u \<Longrightarrow> t \<in> set ms \<Longrightarrow> t \<in> set ms' \<Longrightarrow> distinct (concat (map snd u)) \<Longrightarrow> r = r'"
    for u :: unit_table and ms ms'
    by (induction u) (force+)
  then show "unit_part S units \<Longrightarrow> in_unit units r t \<Longrightarrow> in_unit units r' t \<Longrightarrow> r = r'"
    by (auto simp: unit_part_def in_unit_iff table_items_def)
qed

lemma in_unit_ex: "unit_part S units \<Longrightarrow> t \<in> S \<longleftrightarrow> (\<exists>r. in_unit units r t)"
  by (force simp: unit_part_def in_unit_iff table_items_def)

lemma in_unit_S: "unit_part S units \<Longrightarrow> in_unit units r t \<Longrightarrow> t \<in> S"
  using in_unit_ex by blast

definition unit_map_ok :: "unit_table \<Rightarrow> (string, string) dict \<Rightarrow> bool" where
  "unit_map_ok units unit_of \<longleftrightarrow> (\<forall>r t. map_of unit_of t = Some r \<longleftrightarrow> in_unit units r t)"

lemma fold_update_const:
  "map_of (fold (\<lambda>t. AList.update t v) ts d) t = (if t \<in> set ts then Some v else map_of d t)"
  by (induction ts arbitrary: d) (auto simp: update_conv')

lemma key_map_mem:
  "distinct (concat (map snd xs)) \<Longrightarrow>
   map_of (fold (\<lambda>(k, ts). fold (\<lambda>t. AList.update t k) ts) xs d) t =
   (case find (\<lambda>(k, ts). t \<in> set ts) xs of Some (k, ts) \<Rightarrow> Some k | None \<Rightarrow> map_of d t)"
proof (induction xs arbitrary: d)
  case (Cons x xs)
  obtain k ts where x: "x = (k, ts)" by fastforce
  show ?case
  proof (cases "t \<in> set ts")
    case True
    with Cons.prems x have "t \<notin> set (concat (map snd xs))" by auto
    then have "find (\<lambda>(k, ts). t \<in> set ts) xs = None" by (force simp: find_None_iff)
    with Cons x True show ?thesis by (simp add: fold_update_const)
  next
    case False
    with Cons x show ?thesis by (simp add: fold_update_const split: option.splits)
  qed
qed simp

lemma find_unit:
  "find (\<lambda>(k, ts). t \<in> set ts) xs = Some (k, ts) \<Longrightarrow> (k, ts) \<in> set xs \<and> t \<in> set ts"
  by (auto simp: find_Some_iff) (metis nth_mem)

lemma unit_of_task_ok: "unit_part S units \<Longrightarrow> unit_map_ok units (unit_of_task units)"
proof -
  assume p: "unit_part S units"
  then have d: "distinct (concat (map snd units))" and w: "wf_dict units"
    by (simp_all add: unit_part_def table_items_def)
  have "map_of (unit_of_task units) t = Some r \<longleftrightarrow> in_unit units r t" for r t
  proof (cases "find (\<lambda>(k, ts). t \<in> set ts) units")
    case None
    then have "\<not> in_unit units r t" using w by (auto simp: find_None_iff in_unit_iff)
    with None show ?thesis by (simp add: unit_of_task_def key_map_mem [OF d])
  next
    case (Some x)
    then obtain k ts where x: "x = (k, ts)" "(k, ts) \<in> set units" "t \<in> set ts"
      using find_unit [of t units] by (cases x) auto
    then have "in_unit units k t" using w by (auto simp: in_unit_iff)
    moreover have "map_of (unit_of_task units) t = Some k"
      using Some x(1) by (simp add: unit_of_task_def key_map_mem [OF d])
    ultimately show ?thesis using in_unit_unique [OF p] by auto
  qed
  then show ?thesis by (simp add: unit_map_ok_def)
qed

subsection \<open>Merging alternatives\<close>

lemma wf_delete [simp]: "wf_dict d \<Longrightarrow> wf_dict (AList.delete k d)"
  by (simp add: wf_dict_def distinct_delete)

lemma mset_delete:
  "wf_dict d \<Longrightarrow> mset (dget_default d k []) + mset (table_items (AList.delete k d)) = mset (table_items d)"
proof (induction d)
  case (Cons x d)
  obtain j v where x: "x = (j, v)" by fastforce
  show ?case
  proof (cases "j = k")
    case True
    with Cons.prems x have "AList.delete k d = d" by (auto simp: wf_dict_def intro!: delete_idem)
    with True x show ?thesis by (simp add: table_items_def dget_default_def)
  next
    case False
    with Cons x show ?thesis by (auto simp: table_items_def dget_default_def wf_dict_def ac_simps)
  qed
qed (simp add: table_items_def dget_default_def)

lemma pop_units_spec:
  "wf_dict merged \<Longrightarrow> pop_units roots merged = (combined, rest) \<Longrightarrow>
   wf_dict rest \<and> mset combined + mset (table_items rest) = mset (table_items merged) \<and>
   (\<forall>r. map_of rest r = (if r \<in> set roots then None else map_of merged r)) \<and>
   (\<forall>t. t \<in> set combined \<longleftrightarrow> (\<exists>r\<in>set roots. in_unit merged r t))"
proof (induction roots arbitrary: merged combined rest)
  case (Cons r roots)
  let ?m = "AList.delete r merged"
  obtain c where c: "pop_units roots ?m = (c, rest)" "combined = dget_default merged r [] @ c"
    using Cons.prems(2) by (auto simp: Let_def split: prod.splits)
  note ih = Cons.IH [OF _ c(1)]
  have m: "map_of ?m x = (if x = r then None else map_of merged x)" for x by (simp add: delete_conv')
  have i: "in_unit ?m x t \<longleftrightarrow> x \<noteq> r \<and> in_unit merged x t" for x t by (simp add: in_unit_def m)
  have h: "t \<in> set (dget_default merged r []) \<longleftrightarrow> in_unit merged r t" for t
    by (cases "map_of merged r") (simp_all add: dget_default_def in_unit_def)
  have w: "wf_dict ?m" using Cons.prems(1) by simp
  have "mset combined + mset (table_items rest)
      = mset (dget_default merged r []) + (mset c + mset (table_items rest))" by (simp add: c(2) add.assoc)
  also have "\<dots> = mset (table_items merged)" using ih [OF w] mset_delete [OF Cons.prems(1), of r] by simp
  finally show ?case using ih [OF w] by (auto simp: c(2) m i h)
qed auto

lemma first_occurrences_distinct: "distinct xs \<Longrightarrow> set xs \<inter> set known = {} \<Longrightarrow> first_occurrences known xs = xs"
  by (induction xs arbitrary: known) auto

lemma items_update_new: "map_of d k = None \<Longrightarrow> mset (table_items (AList.update k v d)) = mset v + mset (table_items d)"
  by (induction d) (auto simp: table_items_def ac_simps split: if_splits)

lemma merge_group_spec:
  assumes "unit_part S merged" "unit_map_ok merged unit_of" "members \<noteq> []" "set members \<subseteq> S"
    and g: "merge_group members (merged, unit_of) = (merged', unit_of')"
  shows "unit_part S merged'" "unit_map_ok merged' unit_of'"
    and "\<exists>r. \<forall>t\<in>set members. in_unit merged' r t"
    and "\<And>r a b. in_unit merged r a \<Longrightarrow> in_unit merged r b \<Longrightarrow> \<exists>r'. in_unit merged' r' a \<and> in_unit merged' r' b"
proof -
  define roots where "roots = map (\<lambda>t. dget_default unit_of t t) members"
  obtain combined rest where pop: "pop_units roots merged = (combined, rest)" by fastforce
  from assms(1) have wf: "wf_dict merged" by (simp add: unit_part_def)
  note spec = pop_units_spec [OF wf pop]
  have roots: "roots \<noteq> []" using assms(3) by (simp add: roots_def)
  have dist: "distinct combined"
  proof -
    have "mset (combined @ table_items rest) = mset (table_items merged)" using spec by simp
    with assms(1) have "distinct (combined @ table_items rest)"
      unfolding unit_part_def by (metis mset_eq_imp_distinct_iff)
    then show ?thesis by simp
  qed
  have tids: "first_occurrences [] combined = combined" by (rule first_occurrences_distinct [OF dist]) simp
  have m': "merged' = AList.update (hd roots) combined rest"
    and u': "unit_of' = fold (\<lambda>t. AList.update t (hd roots)) combined unit_of"
    using g pop by (simp_all add: merge_group_def Let_def roots_def [symmetric] tids)
  have none: "map_of rest (hd roots) = None" using spec roots by simp
  have mem': "in_unit merged' r t \<longleftrightarrow> (if r = hd roots then t \<in> set combined else r \<notin> set roots \<and> in_unit merged r t)" for r t
    using spec by (auto simp: m' in_unit_def update_conv')
  have ms: "mset (table_items merged') = mset (table_items merged)"
    using spec none by (simp add: m' items_update_new)
  then have "set (table_items merged') = set (table_items merged)" by (rule mset_eq_setD)
  with ms assms(1) spec show p': "unit_part S merged'"
    unfolding unit_part_def by (metis m' mset_eq_imp_distinct_iff wf_dict_update)
  have comb: "t \<in> set combined \<longleftrightarrow> (\<exists>r\<in>set roots. in_unit merged r t)" for t using spec by blast
  show "unit_map_ok merged' unit_of'"
    unfolding unit_map_ok_def
  proof (intro allI)
    fix r t
    show "map_of unit_of' t = Some r \<longleftrightarrow> in_unit merged' r t"
    proof (cases "t \<in> set combined")
      case True
      have "r \<notin> set roots \<and> in_unit merged r t \<longleftrightarrow> False"
        using True comb in_unit_unique [OF assms(1)] by blast
      with True show ?thesis by (auto simp: u' fold_update_const mem')
    next
      case False
      then have "\<not> (\<exists>r\<in>set roots. in_unit merged r t)" using comb by blast
      with False assms(2) roots show ?thesis by (auto simp: u' fold_update_const mem' unit_map_ok_def)
    qed
  qed
  have "t \<in> set combined" if "t \<in> set members" for t
  proof -
    from that assms(1,4) obtain r where r: "in_unit merged r t" using in_unit_ex by blast
    with assms(2) have "map_of unit_of t = Some r" by (simp add: unit_map_ok_def)
    with that have "r \<in> set roots" by (force simp: roots_def dget_default_def)
    with r comb show ?thesis by blast
  qed
  then show "\<exists>r. \<forall>t\<in>set members. in_unit merged' r t" by (intro exI [of _ "hd roots"]) (simp add: mem')
  fix r a b assume "in_unit merged r a" "in_unit merged r b"
  then show "\<exists>r'. in_unit merged' r' a \<and> in_unit merged' r' b"
    using comb roots by (cases "r \<in> set roots") (metis mem', metis mem' hd_in_set)
qed

lemma merge_groups_spec:
  "unit_part S (fst s) \<Longrightarrow> unit_map_ok (fst s) (snd s) \<Longrightarrow> \<forall>ms\<in>set groups. ms \<noteq> [] \<and> set ms \<subseteq> S \<Longrightarrow>
   unit_part S (fst (fold merge_group groups s)) \<and>
   (\<forall>r a b. in_unit (fst s) r a \<longrightarrow> in_unit (fst s) r b \<longrightarrow>
      (\<exists>r'. in_unit (fst (fold merge_group groups s)) r' a \<and> in_unit (fst (fold merge_group groups s)) r' b)) \<and>
   (\<forall>ms\<in>set groups. \<forall>a\<in>set ms. \<forall>b\<in>set ms.
      \<exists>r'. in_unit (fst (fold merge_group groups s)) r' a \<and> in_unit (fst (fold merge_group groups s)) r' b)"
proof (induction groups arbitrary: s)
  case (Cons ms groups)
  obtain u m where s: "s = (u, m)" by fastforce
  obtain u' m' where s': "merge_group ms (u, m) = (u', m')" by fastforce
  have one: "unit_part S u'" "unit_map_ok u' m'" "\<exists>r. \<forall>t\<in>set ms. in_unit u' r t"
    "\<And>r a b. in_unit u r a \<Longrightarrow> in_unit u r b \<Longrightarrow> \<exists>r'. in_unit u' r' a \<and> in_unit u' r' b"
    using merge_group_spec [OF _ _ _ _ s', of S] Cons.prems s by auto
  from Cons.IH [of "(u', m')"] one(1,2) Cons.prems(3)
  have ih: "unit_part S (fst (fold merge_group groups (u', m')))"
    "\<And>r a b. in_unit u' r a \<Longrightarrow> in_unit u' r b \<Longrightarrow>
      \<exists>r'. in_unit (fst (fold merge_group groups (u', m'))) r' a \<and> in_unit (fst (fold merge_group groups (u', m'))) r' b"
    "\<forall>ms\<in>set groups. \<forall>a\<in>set ms. \<forall>b\<in>set ms.
      \<exists>r'. in_unit (fst (fold merge_group groups (u', m'))) r' a \<and> in_unit (fst (fold merge_group groups (u', m'))) r' b"
    by auto
  have eq: "fold merge_group (ms # groups) s = fold merge_group groups (u', m')" by (simp add: s s')
  show ?case unfolding eq using ih one(3,4) s by (metis fst_conv set_ConsD)
qed auto

subsection \<open>The units of the tasks\<close>

abbreviation base_units :: "task_row list \<Rightarrow> unit_table" where
  "base_units orders \<equiv> fold (\<lambda>x. dappend (root_of (parents orders) (task_id x)) (task_id x)) orders []"

lemma base_units_part: "distinct (map task_id orders) \<Longrightarrow> unit_part (task_id ` set orders) (base_units orders)"
proof -
  assume d: "distinct (map task_id orders)"
  have m: "mset (table_items (base_units orders)) = mset (map task_id orders)"
    by (simp add: fold_dappend) (simp add: table_items_def)
  with d have "distinct (table_items (base_units orders))" by (metis mset_eq_imp_distinct_iff)
  moreover from m have "set (table_items (base_units orders)) = set (map task_id orders)" by (rule mset_eq_setD)
  ultimately show ?thesis by (simp add: unit_part_def fold_dappend_wf)
qed

lemma in_unit_dget: "in_unit d k t \<longleftrightarrow> t \<in> set (dget_default d k [])"
  by (cases "map_of d k") (simp_all add: in_unit_def dget_default_def)

lemma base_units_mem: "x \<in> set orders \<Longrightarrow> in_unit (base_units orders) (root_of (parents orders) (task_id x)) (task_id x)"
  unfolding in_unit_dget
  by (rule fold_dappend_mem [where key = "\<lambda>x. root_of (parents orders) (task_id x)" and val = task_id])

lemma alternative_groups_mem:
  assumes "x \<in> set orders" "alternative_group_ref x \<noteq> ''''"
  shows "in_unit (alternative_groups orders) (alternative_group_ref x) (task_id x)"
  unfolding in_unit_dget alternative_groups_def
  by (rule fold_dappend_mem [where key = alternative_group_ref and val = task_id]) (use assms in simp)

lemma fold_dappend_nonempty:
  "\<forall>(k, v)\<in>set d. v \<noteq> [] \<Longrightarrow> \<forall>(k, v)\<in>set (fold (\<lambda>x. dappend (key x) (val x)) xs d). v \<noteq> []"
proof (induction xs arbitrary: d)
  case (Cons x xs)
  have "\<forall>(k, v)\<in>set (AList.update j (w @ [y]) d). v \<noteq> []" for j w y
    using Cons.prems by (induction d) auto
  then have "\<forall>(k, v)\<in>set (dappend (key x) (val x) d). v \<noteq> []" by (simp add: dappend_def)
  from Cons.IH [OF this] show ?case by simp
qed simp

lemma alternative_groups_items:
  assumes "ms \<in> snd ` set (alternative_groups orders)"
  shows "ms \<noteq> [] \<and> set ms \<subseteq> task_id ` set orders"
proof
  show "ms \<noteq> []" using assms fold_dappend_nonempty [of "[]"] by (fastforce simp: alternative_groups_def)
  have "mset (table_items (alternative_groups orders))
      = mset (map task_id (filter (\<lambda>x. alternative_group_ref x \<noteq> '''') orders))"
    unfolding alternative_groups_def by (simp add: fold_dappend) (simp add: table_items_def)
  then have "set (table_items (alternative_groups orders))
      = set (map task_id (filter (\<lambda>x. alternative_group_ref x \<noteq> '''') orders))" by (rule mset_eq_setD)
  with assms show "set ms \<subseteq> task_id ` set orders" by (fastforce simp: table_items_def)
qed

lemma dependency_units_spec:
  assumes "distinct (map task_id orders)"
  shows "unit_part (task_id ` set orders) (dependency_units orders)"
    and "\<And>r a b. in_unit (base_units orders) r a \<Longrightarrow> in_unit (base_units orders) r b \<Longrightarrow>
      \<exists>r'. in_unit (dependency_units orders) r' a \<and> in_unit (dependency_units orders) r' b"
    and "\<And>a b. a \<in> set orders \<Longrightarrow> b \<in> set orders \<Longrightarrow> alternative_group_ref a \<noteq> '''' \<Longrightarrow>
      alternative_group_ref a = alternative_group_ref b \<Longrightarrow>
      \<exists>r'. in_unit (dependency_units orders) r' (task_id a) \<and> in_unit (dependency_units orders) r' (task_id b)"
proof -
  let ?S = "task_id ` set orders" and ?g = "alternative_groups orders"
  let ?s = "(base_units orders, unit_of_task (base_units orders))"
  note part = base_units_part [OF assms]
  have items: "\<forall>ms\<in>set (map snd ?g). ms \<noteq> [] \<and> set ms \<subseteq> ?S" using alternative_groups_items [of _ orders] by auto
  note spec = merge_groups_spec [of ?S ?s "map snd ?g", unfolded fst_conv snd_conv, OF part unit_of_task_ok [OF part] items]
  have eq: "dependency_units orders = (if ?g = [] then base_units orders else fst (fold merge_group (map snd ?g) ?s))"
    by (simp add: dependency_units_def merge_alternative_units_def)
  show "unit_part ?S (dependency_units orders)" using part spec by (simp add: eq)
  show "\<exists>r'. in_unit (dependency_units orders) r' a \<and> in_unit (dependency_units orders) r' b"
    if "in_unit (base_units orders) r a" "in_unit (base_units orders) r b" for r a b
    using that spec by (cases "?g = []") (auto simp: eq)
  show "\<exists>r'. in_unit (dependency_units orders) r' (task_id a) \<and> in_unit (dependency_units orders) r' (task_id b)"
    if ab: "a \<in> set orders" "b \<in> set orders" "alternative_group_ref a \<noteq> ''''"
      "alternative_group_ref a = alternative_group_ref b" for a b
  proof -
    from alternative_groups_mem [OF ab(1,3)] obtain ms where ms: "map_of ?g (alternative_group_ref a) = Some ms"
      "task_id a \<in> set ms" by (auto simp: in_unit_def)
    with alternative_groups_mem [of b orders] ab have "task_id b \<in> set ms" by (auto simp: in_unit_def)
    moreover have "ms \<in> set (map snd ?g)" using ms(1) by (force dest: map_of_SomeD)
    ultimately show ?thesis using spec ms by (auto simp: eq)
  qed
qed

text \<open>A precedence chain that ends.\<close>

inductive chain_to :: "(string, string) dict \<Rightarrow> nat \<Rightarrow> string \<Rightarrow> string \<Rightarrow> bool" for pm where
  chain_end: "parent_ref pm t = '''' \<Longrightarrow> chain_to pm 0 t t"
| chain_step: "parent_ref pm t \<noteq> '''' \<Longrightarrow> chain_to pm n (parent_ref pm t) r \<Longrightarrow> chain_to pm (Suc n) t r"

inductive_cases chain_zero: "chain_to pm 0 t r"
inductive_cases chain_Suc: "chain_to pm (Suc n) t r"

lemma chain_length: "chain_to pm n t r \<Longrightarrow> chain_to pm m t r' \<Longrightarrow> n = m \<and> r = r'"
proof (induction arbitrary: m rule: chain_to.induct)
  case (chain_end t)
  then show ?case by (auto elim: chain_to.cases)
next
  case (chain_step t n r)
  from chain_step.prems chain_step.hyps(1) obtain k where "m = Suc k" "chain_to pm k (parent_ref pm t) r'"
    by (auto elim: chain_to.cases)
  with chain_step.IH show ?case by blast
qed

lemma root_loop_chain:
  "chain_to pm n t r \<Longrightarrow> \<forall>x\<in>set visited. \<forall>k\<le>n. \<forall>r'. \<not> chain_to pm k x r' \<Longrightarrow> root_loop pm start visited t = r"
proof (induction arbitrary: visited rule: chain_to.induct)
  case (chain_end t)
  then show ?case by (simp add: root_loop.simps)
next
  case (chain_step t n r)
  have c: "chain_to pm (Suc n) t r" using chain_step.hyps by (rule chain_to.chain_step)
  with chain_step.prems have "t \<notin> set visited" by blast
  moreover have "root_loop pm start (t # visited) (parent_ref pm t) = r"
  proof (rule chain_step.IH, intro ballI allI impI notI)
    fix x k r' assume "x \<in> set (t # visited)" "k \<le> n" "chain_to pm k x r'"
    with chain_step.prems chain_length [OF c, of k r'] show False by auto
  qed
  ultimately show ?case using chain_step.hyps(1) by (simp add: root_loop.simps [of pm start visited t])
qed

lemma root_of_chain: "chain_to pm n t r \<Longrightarrow> root_of pm t = r"
  by (simp add: root_of_def root_loop_chain)

text \<open>When the search for a root ends at a task without parent, it followed the chain.\<close>

lemma root_loop_end:
  "root_loop pm start visited t = r \<Longrightarrow> parent_ref pm r = '''' \<Longrightarrow> parent_ref pm start \<noteq> '''' \<or> start = t \<Longrightarrow>
   \<exists>n. chain_to pm n t r"
proof (induction pm start visited t rule: root_loop.induct)
  case (1 pm start visited t)
  show ?case
  proof (cases "parent_ref pm t = ''''")
    case True
    with 1 show ?thesis by (auto simp: root_loop.simps intro: chain_to.intros)
  next
    case False
    show ?thesis
    proof (cases "t \<in> set visited")
      case True
      with 1(2,3,4) False show ?thesis by (auto simp: root_loop.simps)
    next
      case nv: False
      have s: "parent_ref pm start \<noteq> '''' \<or> start = parent_ref pm t" using 1(4) False by auto
      have "root_loop pm start (t # visited) (parent_ref pm t) = r" using 1(2) False nv by (simp add: root_loop.simps)
      from 1(1) [OF False nv this 1(3) s] False show ?thesis by (auto intro: chain_to.intros)
    qed
  qed
qed

lemma root_of_parent:
  assumes "parent_ref pm t \<noteq> ''''" "parent_ref pm (root_of pm t) = ''''"
  shows "root_of pm (parent_ref pm t) = root_of pm t"
proof -
  from root_loop_end [of pm t "[]" t] assms(2) obtain n where c: "chain_to pm n t (root_of pm t)"
    by (auto simp: root_of_def)
  with assms(1) obtain m where "chain_to pm m (parent_ref pm t) (root_of pm t)" by (auto elim: chain_to.cases)
  then show ?thesis by (rule root_of_chain)
qed

subsection \<open>Regrouping keeps every located task once\<close>

lemma mset_concat_cong: "mset xs = mset ys \<Longrightarrow> mset (concat xs) = mset (concat ys)"
proof -
  have "mset (concat zs) = \<Sum>\<^sub># (image_mset mset (mset zs))" for zs :: "'a list list" by (induction zs) simp_all
  then show "mset xs = mset ys \<Longrightarrow> mset (concat xs) = mset (concat ys)" by metis
qed

lemma fst_dappend: "map fst (dappend k x d) = (if k \<in> fst ` set d then map fst d else map fst d @ [k])"
proof -
  have "map fst (AList.update k v d) = (if k \<in> fst ` set d then map fst d else map fst d @ [k])" for v
    by (induction d) auto
  then show ?thesis by (simp add: dappend_def)
qed

definition table_pairs :: "(string, string list) dict \<Rightarrow> (string \<times> string) list" where
  "table_pairs a = concat (map (\<lambda>(d, ts). map (Pair d) ts) a)"

lemma table_pairs_snd: "map snd (table_pairs a) = table_items a"
  by (induction a) (auto simp: table_pairs_def table_items_def comp_def)

lemma fold_table:
  "fold (\<lambda>(d, ts). fold (f d) ts) a s = fold (\<lambda>(d, t). f d t) (table_pairs a) s"
  by (induction a arbitrary: s) (auto simp: table_pairs_def fold_map comp_def)

lemma depot_of_task_keys: "fst ` set (depot_of_task a) = set (table_items a)"
proof -
  have k: "fst ` set (fold (\<lambda>t. AList.update t v) ts d) = set ts \<union> fst ` set d" for v :: string and ts d
    by (induction ts arbitrary: d) (auto simp: keys_update)
  have "fst ` set (fold (\<lambda>(k, ts). fold (\<lambda>t. AList.update t k) ts) a d) = set (table_items a) \<union> fst ` set d" for d
  proof (induction a arbitrary: d)
    case (Cons x a)
    obtain y ts where "x = (y, ts)" by fastforce
    then show ?case by (auto simp: Cons.IH k table_items_def)
  qed (simp add: table_items_def)
  then show ?thesis by (simp add: depot_of_task_def)
qed

lemma depot_of_task_values: "map_of (depot_of_task a) t = Some d \<Longrightarrow> d \<in> fst ` set a"
proof -
  have "map_of (fold (\<lambda>(k, ts). fold (\<lambda>t. AList.update t k) ts) a m) t = Some d \<Longrightarrow> d \<in> fst ` set a \<or> map_of m t = Some d" for m
  proof (induction a arbitrary: m)
    case (Cons x a)
    obtain k ts where x: "x = (k, ts)" by fastforce
    from Cons.IH [of "fold (\<lambda>t. AList.update t k) ts m"] Cons.prems x show ?case
      by (auto simp: fold_update_const split: if_splits)
  qed simp
  from this [of "[]"] show "map_of (depot_of_task a) t = Some d \<Longrightarrow> d \<in> fst ` set a" by (simp add: depot_of_task_def)
qed

definition regroup_inv ::
  "string set \<Rightarrow> unit_table \<Rightarrow> string list \<Rightarrow> string set \<Rightarrow> (string, string list list) dict \<times> string list \<Rightarrow> bool" where
  "regroup_inv L units ds P s \<longleftrightarrow>
     (let E = table_items (fst s) in
      map fst (fst s) = ds \<and> distinct (concat E) \<and>
      set (concat E) = {m \<in> L. \<exists>t\<in>P. \<exists>r. in_unit units r t \<and> in_unit units r m} \<and>
      (\<forall>t\<in>P. \<exists>u\<in>set E. \<forall>m\<in>L. \<forall>r. in_unit units r t \<longrightarrow> in_unit units r m \<longrightarrow> m \<in> set u) \<and>
      (\<forall>r\<in>set (snd s). \<exists>t\<in>P. in_unit units r t) \<and>
      (\<forall>t\<in>P. \<forall>r. in_unit units r t \<longrightarrow> r \<in> set (snd s) \<or> map_of units r = Some [t]))"

lemma unit_members_distinct: "unit_part S units \<Longrightarrow> map_of units r = Some ms \<Longrightarrow> distinct ms"
  using map_of_SomeD [of units r ms]
  by (auto simp: unit_part_def table_items_def distinct_concat_iff)

lemma regroup_task_inv:
  assumes inv: "regroup_inv L units ds P s" and part: "unit_part S units" and ok: "unit_map_ok units unit_of"
    and L: "L = fst ` set depot_of" "L \<subseteq> S" and t: "t \<in> L" "t \<notin> P" "d \<in> set ds"
    and homes: "\<forall>x y. map_of depot_of x = Some y \<longrightarrow> y \<in> set ds"
  shows "regroup_inv L units ds (insert t P) (regroup_task units unit_of depot_of d t s)"
proof -
  obtain g em where s: "s = (g, em)" by fastforce
  from part t(1) L(2) obtain r where r: "in_unit units r t" using in_unit_ex by blast
  then obtain ms where ms: "map_of units r = Some ms" "t \<in> set ms" by (auto simp: in_unit_def)
  have u: "dget_default unit_of t t = r" "dget_default units r [t] = ms"
  proof -
    have "map_of unit_of t = Some r" using ok r by (simp add: unit_map_ok_def)
    with ms show "dget_default unit_of t t = r" "dget_default units r [t] = ms" by (simp_all add: dget_default_def)
  qed
  note uniq = in_unit_unique [OF part]
  have i: "in_unit units r m \<longleftrightarrow> m \<in> set ms" for m using ms by (simp add: in_unit_def)
  show ?thesis
  proof (cases "r \<in> set em")
    case True
    with inv s obtain t' where t': "t' \<in> P" "in_unit units r t'" by (auto simp: regroup_inv_def Let_def)
    have same: "in_unit units x t \<longleftrightarrow> in_unit units x t'" for x using r t'(2) uniq by blast
    have run: "regroup_task units unit_of depot_of d t s = (g, em)"
      using True by (simp add: regroup_task_def s u Let_def)
    let ?E = "table_items g"
    have old: "map fst g = ds" "distinct (concat ?E)"
      "set (concat ?E) = {m \<in> L. \<exists>t\<in>P. \<exists>r. in_unit units r t \<and> in_unit units r m}"
      "\<forall>t\<in>P. \<exists>u\<in>set ?E. \<forall>m\<in>L. \<forall>r. in_unit units r t \<longrightarrow> in_unit units r m \<longrightarrow> m \<in> set u"
      "\<forall>r\<in>set em. \<exists>t\<in>P. in_unit units r t"
      "\<forall>t\<in>P. \<forall>r. in_unit units r t \<longrightarrow> r \<in> set em \<or> map_of units r = Some [t]"
      using inv s by (simp_all add: regroup_inv_def Let_def)
    have "set (concat ?E) = {m \<in> L. \<exists>t\<in>insert t P. \<exists>r. in_unit units r t \<and> in_unit units r m}"
      unfolding old(3) using same t'(1) by blast
    moreover have "\<forall>t\<in>insert t P. \<exists>u\<in>set ?E. \<forall>m\<in>L. \<forall>r. in_unit units r t \<longrightarrow> in_unit units r m \<longrightarrow> m \<in> set u"
    proof
      fix x assume "x \<in> insert t P"
      then have x: "x \<in> P \<or> x = t" by blast
      define y where "y = (if x = t then t' else x)"
      have y: "y \<in> P" "in_unit units z x \<longleftrightarrow> in_unit units z y" for z
        using x same t'(1) by (auto simp: y_def)
      from old(4) y(1) obtain u where u: "u \<in> set ?E"
        "\<forall>m\<in>L. \<forall>r. in_unit units r y \<longrightarrow> in_unit units r m \<longrightarrow> m \<in> set u" by blast
      then show "\<exists>u\<in>set ?E. \<forall>m\<in>L. \<forall>r. in_unit units r x \<longrightarrow> in_unit units r m \<longrightarrow> m \<in> set u"
        unfolding y(2) by blast
    qed
    moreover have "\<forall>x\<in>insert t P. \<forall>y. in_unit units y x \<longrightarrow> y \<in> set em \<or> map_of units y = Some [x]"
      using old(6) True r uniq by blast
    moreover have "\<forall>r\<in>set em. \<exists>t\<in>insert t P. in_unit units r t" using old(5) by blast
    ultimately show ?thesis using old(1,2) unfolding run regroup_inv_def Let_def fst_conv snd_conv by (intro conjI)
  next
    case False
    have fresh: "\<not> in_unit units r t'" if "t' \<in> P" for t'
    proof
      assume "in_unit units r t'"
      with inv s that False have "map_of units r = Some [t']" by (auto simp: regroup_inv_def Let_def)
      with ms t(2) that show False by auto
    qed
    define new where "new = filter (\<lambda>m. m \<in> L) ms"
    define home where "home = (if length ms = 1 then d else dget_default depot_of r d)"
    have single: "ms = [t]" if "length ms = 1" using that ms(2) by (cases ms) auto
    have run: "regroup_task units unit_of depot_of d t s =
        (dappend home new g, if length ms = 1 then em else r # em)"
    proof (cases "length ms = 1")
      case True
      with False single t(1) L(1) show ?thesis by (simp add: regroup_task_def s u Let_def home_def new_def)
    next
      case many: False
      with False L(1) show ?thesis by (simp add: regroup_task_def s u Let_def home_def new_def)
    qed
    have home: "home \<in> fst ` set g"
    proof -
      have "home \<in> set ds" using t(3) homes by (auto simp: home_def dget_default_def split: option.splits)
      moreover have "map fst g = ds" using inv s by (simp add: regroup_inv_def Let_def)
      then have "fst ` set g = set ds" using set_map [of fst g] by simp
      ultimately show ?thesis by simp
    qed
    let ?E = "table_items g" and ?E' = "table_items (dappend home new g)"
    have m: "mset ?E' = mset (new # ?E)" by (simp add: mset_dappend)
    have sE: "set ?E' = insert new (set ?E)" using mset_eq_setD [OF m] by simp
    have mc: "mset (concat ?E') = mset (new @ concat ?E)" using mset_concat_cong [OF m] by simp
    have sc: "set (concat ?E') = set new \<union> set (concat ?E)" using mset_eq_setD [OF mc] by simp
    have old: "set (concat ?E) = {m \<in> L. \<exists>t\<in>P. \<exists>r. in_unit units r t \<and> in_unit units r m}" "distinct (concat ?E)"
      "\<forall>t\<in>P. \<exists>u\<in>set ?E. \<forall>m\<in>L. \<forall>r. in_unit units r t \<longrightarrow> in_unit units r m \<longrightarrow> m \<in> set u"
      using inv s by (simp_all add: regroup_inv_def Let_def)
    have "set new \<inter> set (concat ?E) = {}"
    proof (rule ccontr)
      assume "set new \<inter> set (concat ?E) \<noteq> {}"
      then obtain m t' x where "m \<in> set ms" "t' \<in> P" "in_unit units x t'" "in_unit units x m"
        unfolding old(1) new_def by auto
      with fresh uniq i show False by blast
    qed
    moreover have "distinct new" using unit_members_distinct [OF part ms(1)] by (simp add: new_def)
    ultimately have dist: "distinct (concat ?E')" using old(2) mset_eq_imp_distinct_iff [OF mc] by simp
    have same: "(\<exists>z. in_unit units z t \<and> in_unit units z m) \<longleftrightarrow> m \<in> set ms" for m
      unfolding i [symmetric] using r uniq by blast
    have set: "set (concat ?E') = {m \<in> L. \<exists>t\<in>insert t P. \<exists>r. in_unit units r t \<and> in_unit units r m}"
    proof -
      from same have "set new = {m \<in> L. \<exists>z. in_unit units z t \<and> in_unit units z m}" by (simp add: new_def) blast
      then show ?thesis unfolding sc old(1) by blast
    qed
    have unit: "\<exists>u\<in>set ?E'. \<forall>m\<in>L. \<forall>r. in_unit units r x \<longrightarrow> in_unit units r m \<longrightarrow> m \<in> set u" if "x \<in> insert t P" for x
    proof (cases "x = t")
      case True
      have "\<forall>m\<in>L. \<forall>y. in_unit units y t \<longrightarrow> in_unit units y m \<longrightarrow> m \<in> set new"
        using same by (simp add: new_def) blast
      with True sE show ?thesis by blast
    next
      case False
      with that old(3) sE show ?thesis by blast
    qed
    have em: "\<forall>x\<in>set (if length ms = 1 then em else r # em). \<exists>t\<in>insert t P. in_unit units x t"
      using inv s r by (auto simp: regroup_inv_def Let_def)
    have settled: "\<forall>x\<in>insert t P. \<forall>y. in_unit units y x \<longrightarrow>
        y \<in> set (if length ms = 1 then em else r # em) \<or> map_of units y = Some [x]"
    proof (intro ballI allI impI)
      fix x y assume x: "x \<in> insert t P" "in_unit units y x"
      show "y \<in> set (if length ms = 1 then em else r # em) \<or> map_of units y = Some [x]"
      proof (cases "x = t")
        case True
        with x r uniq have "y = r" by blast
        with True single ms(1) show ?thesis by auto
      next
        case False
        with x inv s show ?thesis by (auto simp: regroup_inv_def Let_def)
      qed
    qed
    have "map fst (dappend home new g) = ds" using home inv s by (simp add: fst_dappend regroup_inv_def Let_def)
    then show ?thesis
      unfolding run regroup_inv_def Let_def fst_conv snd_conv using dist set unit em settled by blast
  qed
qed

lemma regroup_fold_inv:
  assumes part: "unit_part S units" "unit_map_ok units unit_of" and L: "L = fst ` set depot_of" "L \<subseteq> S"
    and homes: "\<forall>x y. map_of depot_of x = Some y \<longrightarrow> y \<in> set ds"
  shows "regroup_inv L units ds P s \<Longrightarrow> distinct (map snd ps) \<Longrightarrow> set (map snd ps) \<inter> P = {} \<Longrightarrow>
    set (map snd ps) \<subseteq> L \<Longrightarrow> set (map fst ps) \<subseteq> set ds \<Longrightarrow>
    regroup_inv L units ds (P \<union> set (map snd ps)) (fold (\<lambda>(d, t). regroup_task units unit_of depot_of d t) ps s)"
proof (induction ps arbitrary: s P)
  case (Cons p ps)
  obtain d t where p: "p = (d, t)" by fastforce
  have "regroup_inv L units ds (insert t P) (regroup_task units unit_of depot_of d t s)"
    using Cons.prems p by (intro regroup_task_inv [OF _ part L _ _ _ homes]) auto
  from Cons.IH [OF this] Cons.prems p show ?case by auto
qed simp

lemma regroup_spec:
  assumes part: "unit_part S units" and a: "wf_dict a" "distinct (table_items a)" "set (table_items a) \<subseteq> S"
    and g: "g = regroup_units_by_root_depot a units"
  shows "map fst g = map fst a" "mset (concat (table_items g)) = mset (table_items a)"
    and "\<And>x y r. in_unit units r x \<Longrightarrow> in_unit units r y \<Longrightarrow> x \<in> set (table_items a) \<Longrightarrow> y \<in> set (table_items a) \<Longrightarrow>
      \<exists>u\<in>set (table_items g). x \<in> set u \<and> y \<in> set u"
proof -
  let ?L = "set (table_items a)" and ?ds = "map fst a"
  have empty: "concat (map (\<lambda>x. []) xs) = []" for xs by (induction xs) auto
  have init: "regroup_inv ?L units ?ds {} (map (\<lambda>(depot, tids). (depot, [])) a, [])"
    by (auto simp: regroup_inv_def table_items_def Let_def split_beta comp_def empty)
  have L: "?L = fst ` set (depot_of_task a)" by (simp add: depot_of_task_keys)
  have homes: "\<forall>x y. map_of (depot_of_task a) x = Some y \<longrightarrow> y \<in> set ?ds"
    using depot_of_task_values by fastforce
  have ps: "distinct (map snd (table_pairs a))" "set (map snd (table_pairs a)) = ?L"
    using a(2) by (simp_all only: table_pairs_snd)
  have fsts: "set (map fst (table_pairs a)) \<subseteq> set ?ds" by (force simp: table_pairs_def)
  have "regroup_inv ?L units ?ds ({} \<union> set (map snd (table_pairs a)))
      (fold (\<lambda>(d, t). regroup_task units (unit_of_task units) (depot_of_task a) d t) (table_pairs a)
        (map (\<lambda>(depot, tids). (depot, [])) a, []))"
    by (rule regroup_fold_inv [OF part unit_of_task_ok [OF part] L a(3) homes init ps(1) _ _ fsts]) (simp_all only: ps(2) Int_empty_right subset_refl)
  then obtain em where inv: "regroup_inv ?L units ?ds ?L (g, em)"
    unfolding g regroup_units_by_root_depot_def Let_def fold_table ps(2) by (auto simp: regroup_inv_def Let_def)
  then show "map fst g = map fst a" by (simp add: regroup_inv_def Let_def)
  from inv have d: "distinct (concat (table_items g))"
    and s: "set (concat (table_items g)) = {m \<in> ?L. \<exists>t\<in>?L. \<exists>r. in_unit units r t \<and> in_unit units r m}"
    by (simp_all add: regroup_inv_def Let_def)
  have "set (concat (table_items g)) = ?L" unfolding s using in_unit_ex [OF part] a(3) by blast
  then show "mset (concat (table_items g)) = mset (table_items a)"
    by (rule set_eq_iff_mset_eq_distinct [OF d a(2), THEN iffD1])
  fix x y r assume "in_unit units r x" "in_unit units r y" "x \<in> ?L" "y \<in> ?L"
  note xy = this
  from inv have "\<forall>t\<in>?L. \<exists>u\<in>set (table_items g). \<forall>m\<in>?L. \<forall>r. in_unit units r t \<longrightarrow> in_unit units r m \<longrightarrow> m \<in> set u"
    by (simp add: regroup_inv_def Let_def)
  with xy(3) obtain u where "u \<in> set (table_items g)"
    and u: "\<And>m r. m \<in> ?L \<Longrightarrow> in_unit units r x \<Longrightarrow> in_unit units r m \<Longrightarrow> m \<in> set u" by meson
  with u [OF xy(3,1,1)] u [OF xy(4,1,2)] show "\<exists>u\<in>set (table_items g). x \<in> set u \<and> y \<in> set u" by blast
qed

subsection \<open>Packing keeps every unit whole\<close>

lemma concat_pack_loop: "concat (pack_loop target current units) = current @ concat units"
  by (induction target current units rule: pack_loop.induct) auto

lemma pack_loop_whole:
  "(current \<noteq> [] \<longrightarrow> (\<exists>c\<in>set (pack_loop target current units). set current \<subseteq> set c)) \<and>
   (\<forall>u\<in>set units. u \<noteq> [] \<longrightarrow> (\<exists>c\<in>set (pack_loop target current units). set u \<subseteq> set c))"
proof (induction target current units rule: pack_loop.induct)
  case (2 target current u units)
  show ?case
  proof (cases "current \<noteq> [] \<and> length current + length u > target")
    case True
    with 2(1) show ?thesis by auto
  next
    case False
    with 2(2) show ?thesis by (auto 4 4)
  qed
qed auto

lemma mset_group_by:
  "distinct keys \<Longrightarrow> mset (concat (map (\<lambda>k. filter (\<lambda>u. f u = k) xs) keys)) = mset (filter (\<lambda>u. f u \<in> set keys) xs)"
proof (induction keys)
  case (Cons k keys)
  have "mset (filter (\<lambda>u. f u = k \<or> f u \<in> set keys) xs) = mset (filter (\<lambda>u. f u = k) xs) + mset (filter (\<lambda>u. f u \<in> set keys) xs)"
    if "k \<notin> set keys" using that by (induction xs) auto
  with Cons show ?case by simp
qed simp

lemma mset_concat_map_cong:
  "(\<And>x. x \<in> set xs \<Longrightarrow> mset (concat (f x)) = mset (concat (h x))) \<Longrightarrow>
   mset (concat (concat (map f xs))) = mset (concat (concat (map h xs)))"
  by (induction xs) auto

lemma mset_split_by_operations: "mset (concat (split_by_operations units target order_index)) = mset (concat units)"
proof -
  define key where "key u = operation_key (unit_operations order_index u)" for u
  define uniform where "uniform u \<longleftrightarrow> length (unit_operations order_index u) \<le> 1" for u
  define single where "single = filter uniform units"
  define keys where "keys = sort (remdups (map key single))"
  have split: "split_by_operations units target order_index =
      concat (map (\<lambda>k. pack_units (filter (\<lambda>u. key u = k) single) target) keys) @ filter (\<lambda>u. \<not> uniform u) units"
    by (simp add: split_by_operations_def key_def [abs_def] uniform_def [abs_def] single_def keys_def Let_def)
  have parts: "mset (filter p us) + mset (filter (\<lambda>u. \<not> p u) us) = mset us" for p :: "string list \<Rightarrow> bool" and us
    by (induction us) simp_all
  have pack: "concat (pack_units us target) = concat us" for us by (simp add: pack_units_def concat_pack_loop)
  have "mset (concat (concat (map (\<lambda>k. pack_units (filter (\<lambda>u. key u = k) single) target) keys)))
      = mset (concat (concat (map (\<lambda>k. filter (\<lambda>u. key u = k) single) keys)))"
    by (rule mset_concat_map_cong) (simp add: pack)
  also have "\<dots> = mset (concat single)"
  proof (rule mset_concat_cong)
    have "filter (\<lambda>u. key u \<in> set keys) single = single" by (simp add: keys_def filter_id_conv)
    then show "mset (concat (map (\<lambda>k. filter (\<lambda>u. key u = k) single) keys)) = mset single"
      by (simp add: mset_group_by keys_def)
  qed
  finally have "mset (concat (split_by_operations units target order_index))
      = mset (concat (single @ filter (\<lambda>u. \<not> uniform u) units))"
    by (simp add: split)
  also have "\<dots> = mset (concat units)"
    by (rule mset_concat_cong) (simp add: single_def parts)
  finally show ?thesis .
qed

lemma split_by_operations_whole:
  assumes "u \<in> set units" "u \<noteq> []"
  shows "\<exists>c\<in>set (split_by_operations units target order_index). set u \<subseteq> set c"
proof (cases "length (unit_operations order_index u) \<le> 1")
  case True
  let ?k = "operation_key (unit_operations order_index u)"
  let ?us = "filter (\<lambda>v. operation_key (unit_operations order_index v) = ?k)
    (filter (\<lambda>v. length (unit_operations order_index v) \<le> 1) units)"
  from assms True have "u \<in> set ?us" by simp
  with assms(2) pack_loop_whole [of "[]" target ?us] obtain c where "c \<in> set (pack_units ?us target)" "set u \<subseteq> set c"
    by (auto simp: pack_units_def)
  with assms(1) True show ?thesis by (auto simp: split_by_operations_def Let_def)
next
  case False
  with assms show ?thesis by (auto simp: split_by_operations_def Let_def)
qed

lemma mset_split_units: "mset (concat (split_units units target order_index by_op)) = mset (concat units)"
  by (simp add: split_units_def mset_split_by_operations pack_units_def concat_pack_loop)

lemma split_units_whole:
  "u \<in> set units \<Longrightarrow> u \<noteq> [] \<Longrightarrow> \<exists>c\<in>set (split_units units target order_index by_op). set u \<subseteq> set c"
  using split_by_operations_whole pack_loop_whole [of "[]" target units] by (auto simp: split_units_def pack_units_def)

lemma concat_chunks: "0 < chunk \<Longrightarrow> length xs \<le> n \<Longrightarrow> concat (chunks n chunk xs) = xs"
  by (induction n chunk xs rule: chunks.induct) auto

lemma concat_split_into_subclusters: "concat (split_into_subclusters tids target) = tids"
  by (simp add: split_into_subclusters_def Let_def concat_chunks)

subsection \<open>The clusters partition the located tasks\<close>

abbreviation located :: "site_row list \<Rightarrow> task_row \<Rightarrow> bool" where
  "located sites tk \<equiv> field_of sites tk \<noteq> None"

lemma assign_orders_items:
  "assign_orders env L sites depots orders a = Some a' \<Longrightarrow>
   mset (table_items a') = mset (map task_id (filter (located sites) orders)) + mset (table_items a) \<and>
   (wf_dict a \<longrightarrow> wf_dict a')"
  by (induction orders arbitrary: a) (auto simp: mset_dappend split: option.splits)

lemma cluster_orders_items:
  assumes "cluster_orders_by_depot env L orders sites depots = Some a"
  shows "mset (table_items a) = mset (map task_id (filter (located sites) orders))" "wf_dict a"
proof -
  let ?a = "fold (\<lambda>d. AList.update (depot_id d) []) depots [] :: (string, string list) dict"
  have upd: "table_items d = [] \<Longrightarrow> table_items (AList.update k [] d) = []" for k :: string and d :: "(string, string list) dict"
    by (induction d) (auto simp: table_items_def)
  have "table_items d = [] \<Longrightarrow> table_items (fold (\<lambda>x. AList.update (depot_id x) []) depots d) = []" for d :: "(string, string list) dict"
    by (induction depots arbitrary: d) (simp_all add: upd)
  from this [of "[]"] have "table_items ?a = []" by (simp add: table_items_def)
  moreover have "wf_dict d \<Longrightarrow> wf_dict (fold (\<lambda>x. AList.update (depot_id x) []) depots d)" for d :: "(string, string list) dict"
    by (induction depots arbitrary: d) simp_all
  then have "wf_dict ?a" by simp
  ultimately show "mset (table_items a) = mset (map task_id (filter (located sites) orders))" "wf_dict a"
    using assign_orders_items [OF assms [unfolded cluster_orders_by_depot_def]] by simp_all
qed

lemma map_dget_default:
  "map fst g = map fst a \<Longrightarrow> wf_dict a \<Longrightarrow> map (\<lambda>(d, ts). dget_default g d []) a = map snd g"
proof -
  assume k: "map fst g = map fst a" and w: "wf_dict a"
  then have wg: "wf_dict g" by (simp add: wf_dict_def)
  have "map (\<lambda>(d, ts). dget_default g d []) a = map (\<lambda>d. dget_default g d []) (map fst a)" by (simp add: split_beta comp_def)
  also have "\<dots> = map (\<lambda>x. dget_default g (fst x) []) g" by (simp add: comp_def flip: k)
  also have "\<dots> = map snd g" using wg by (auto simp: dget_default_def wf_dict_map_of)
  finally show ?thesis .
qed

text \<open>The two ways the sub-clusters are cut.\<close>

lemma subclusters_cases:
  obtains (chains) by_op where "subclusters_of rt orders vehicles target a =
      map (\<lambda>(depot, tids). (depot, split_units (dget_default (regroup_units_by_root_depot a (dependency_units orders)) depot [])
        target (index_orders orders) by_op)) a"
  | (plain) "\<forall>(head, ms)\<in>set (dependency_units orders). length ms \<le> 1"
      "subclusters_of rt orders vehicles target a = map (\<lambda>(depot, tids). (depot, split_into_subclusters tids target)) a"
proof (cases "list_ex (\<lambda>(head, members). length members > 1) (dependency_units orders) \<or>
    list_ex (\<lambda>v. ops_set rt (pm_compatible_operations v) \<noteq> []) vehicles")
  case True
  then show thesis by (intro chains [of "list_ex (\<lambda>v. ops_set rt (pm_compatible_operations v) \<noteq> []) vehicles"])
      (auto simp: subclusters_of_def Let_def)
next
  case False
  then have "\<forall>(head, ms)\<in>set (dependency_units orders). length ms \<le> 1" by (force simp: list_ex_iff)
  with False show thesis by (intro plain) (simp_all add: subclusters_of_def Let_def)
qed

definition located_assignment :: "task_row list \<Rightarrow> site_row list \<Rightarrow> (string, string list) dict \<Rightarrow> bool" where
  "located_assignment orders sites a \<longleftrightarrow> distinct (map task_id orders) \<and> wf_dict a \<and>
     mset (table_items a) = mset (map task_id (filter (located sites) orders))"

lemma located_items:
  assumes "located_assignment orders sites a"
  shows "distinct (table_items a)" "set (table_items a) = task_id ` set (filter (located sites) orders)"
proof -
  have items: "mset (table_items a) = mset (map task_id (filter (located sites) orders))"
    using assms by (simp add: located_assignment_def)
  have "distinct (map task_id (filter (located sites) orders))"
    using assms by (simp add: located_assignment_def distinct_map_filter)
  then show "distinct (table_items a)" using mset_eq_imp_distinct_iff [OF items] by blast
  show "set (table_items a) = task_id ` set (filter (located sites) orders)" using mset_eq_setD [OF items] by simp
qed

lemma regrouped:
  assumes "located_assignment orders sites a"
    and g: "g = regroup_units_by_root_depot a (dependency_units orders)"
  shows "map fst g = map fst a" "mset (concat (table_items g)) = mset (table_items a)"
    and "map (\<lambda>(depot, ts). dget_default g depot []) a = map snd g"
    and "\<And>x y r. in_unit (dependency_units orders) r x \<Longrightarrow> in_unit (dependency_units orders) r y \<Longrightarrow>
      x \<in> set (table_items a) \<Longrightarrow> y \<in> set (table_items a) \<Longrightarrow> \<exists>u\<in>set (table_items g). x \<in> set u \<and> y \<in> set u"
proof -
  have ids: "distinct (map task_id orders)" and wf: "wf_dict a" using assms(1) by (simp_all add: located_assignment_def)
  have sub: "set (table_items a) \<subseteq> task_id ` set orders" unfolding located_items(2) [OF assms(1)] by auto
  note spec = regroup_spec [OF dependency_units_spec(1) [OF ids] wf located_items(1) [OF assms(1)] sub g]
  show "map fst g = map fst a" "mset (concat (table_items g)) = mset (table_items a)" by (rule spec(1), rule spec(2))
  show "map (\<lambda>(depot, ts). dget_default g depot []) a = map snd g" by (rule map_dget_default [OF spec(1) wf])
  show "\<exists>u\<in>set (table_items g). x \<in> set u \<and> y \<in> set u"
    if "in_unit (dependency_units orders) r x" "in_unit (dependency_units orders) r y"
      "x \<in> set (table_items a)" "y \<in> set (table_items a)" for x y r
    by (rule spec(3) [OF that])
qed

lemma subclusters_items:
  assumes "located_assignment orders sites a"
  shows "mset (concat (concat (map snd (subclusters_of rt orders vehicles target a)))) = mset (table_items a)"
proof (cases rule: subclusters_cases [of rt orders vehicles target a])
  case (chains by_op)
  define g where "g = regroup_units_by_root_depot a (dependency_units orders)"
  note grp = regrouped [OF assms g_def]
  let ?split = "\<lambda>x. split_units (dget_default g (fst x) []) target (index_orders orders) by_op"
  have "map snd (subclusters_of rt orders vehicles target a) = map ?split a"
    by (simp add: chains split_beta comp_def g_def)
  moreover have "mset (concat (concat (map ?split a))) = mset (concat (concat (map (\<lambda>(depot, ts). dget_default g depot []) a)))"
    by (rule mset_concat_map_cong) (simp add: split_beta mset_split_units)
  ultimately show ?thesis unfolding grp(3) using grp(2) by (simp only: table_items_def)
next
  case plain
  have "concat (concat (map (\<lambda>(depot, ts). split_into_subclusters ts target) a)) = table_items a" for a :: "(string, string list) dict"
    by (induction a) (auto simp: table_items_def concat_split_into_subclusters)
  moreover have "map snd (map (\<lambda>(depot, tids). (depot, split_into_subclusters tids target)) a)
      = map (\<lambda>(depot, ts). split_into_subclusters ts target) a"
    by (simp add: split_beta comp_def)
  ultimately show ?thesis unfolding plain(2) by metis
qed

lemma unit_in_subcluster:
  assumes loc: "located_assignment orders sites a"
    and xy: "in_unit (dependency_units orders) r x" "in_unit (dependency_units orders) r y" "x \<noteq> y"
      "x \<in> set (table_items a)" "y \<in> set (table_items a)"
  shows "\<exists>(depot, subs)\<in>set (subclusters_of rt orders vehicles target a). \<exists>sub\<in>set subs. x \<in> set sub \<and> y \<in> set sub"
proof (cases rule: subclusters_cases [of rt orders vehicles target a])
  case (chains by_op)
  define g where "g = regroup_units_by_root_depot a (dependency_units orders)"
  note grp = regrouped [OF loc g_def]
  from grp(4) [OF xy(1,2,4,5)] obtain u where u: "u \<in> set (table_items g)" "x \<in> set u" "y \<in> set u" by blast
  then have "u \<in> set (concat (map (\<lambda>(depot, ts). dget_default g depot []) a))" by (simp only: grp(3) table_items_def)
  then obtain depot ts where d: "(depot, ts) \<in> set a" "u \<in> set (dget_default g depot [])" by auto
  from u(2) have "u \<noteq> []" by auto
  from split_units_whole [OF d(2) this, of target "index_orders orders" by_op] obtain c where
    "c \<in> set (split_units (dget_default g depot []) target (index_orders orders) by_op)" "set u \<subseteq> set c" by blast
  moreover have "(depot, split_units (dget_default g depot []) target (index_orders orders) by_op)
      \<in> set (subclusters_of rt orders vehicles target a)"
    unfolding chains g_def using d(1) by force
  ultimately show ?thesis using u(2,3) by blast
next
  case plain
  from xy(1) obtain ms where ms: "map_of (dependency_units orders) r = Some ms" "x \<in> set ms" by (auto simp: in_unit_def)
  with xy(2) have "y \<in> set ms" by (simp add: in_unit_def)
  moreover from map_of_SomeD [OF ms(1)] plain(1) have "length ms \<le> 1" by blast
  ultimately show ?thesis using ms(2) xy(3) by (cases ms) auto
qed

lemma built_clusters:
  assumes "build_cluster_specs name env rt L target orders sites depots vehicles = Some cs"
  obtains a where "cluster_orders_by_depot env L orders sites depots = Some a"
    "map (\<lambda>c. (depot_ref c, task_ids c)) cs = concat (map (\<lambda>(depot, ss). map (Pair depot) ss) (subclusters_of rt orders vehicles target a))"
proof -
  from assms obtain a where a: "cluster_orders_by_depot env L orders sites depots = Some a"
    by (auto simp: build_cluster_specs_def)
  define subs where "subs = concat (map (\<lambda>(depot, ss). map (Pair depot) ss) (subclusters_of rt orders vehicles target a))"
  have cs: "cs = map (\<lambda>(i, depot, sub). cluster_of name (index_orders orders) i depot sub) (zip [0..<length subs] subs)"
    using assms a by (simp add: build_cluster_specs_def Let_def subs_def)
  have "map (\<lambda>c. (depot_ref c, task_ids c)) cs = map snd (zip [0..<length subs] subs)"
    by (simp add: cs split_beta comp_def cluster_of_def)
  then have "map (\<lambda>c. (depot_ref c, task_ids c)) cs = subs" by simp
  with a that show thesis by (simp add: subs_def)
qed

text \<open>Every task whose location has a site row is in exactly one cluster, once, whatever path cut the clusters;
  a task without a site row is in none.
\<close>

theorem clusters_partition_tasks:
  assumes "distinct (map task_id orders)"
    and "build_cluster_specs name env rt L target orders sites depots vehicles = Some cs"
  shows "mset (concat (map task_ids cs)) = mset (map task_id (filter (located sites) orders))"
proof -
  from built_clusters [OF assms(2)] obtain a where a: "cluster_orders_by_depot env L orders sites depots = Some a"
    and cs: "map (\<lambda>c. (depot_ref c, task_ids c)) cs
      = concat (map (\<lambda>(depot, ss). map (Pair depot) ss) (subclusters_of rt orders vehicles target a))" by blast
  have snds: "map snd (concat (map (\<lambda>(depot, ss). map (Pair depot) ss) xs)) = concat (map snd xs)" for xs :: "(string \<times> string list list) list"
    by (induction xs) (auto simp: comp_def)
  have "map task_ids cs = map snd (map (\<lambda>c. (depot_ref c, task_ids c)) cs)" by (simp add: comp_def)
  then have "map task_ids cs = concat (map snd (subclusters_of rt orders vehicles target a))"
    by (simp only: cs snds)
  moreover have "located_assignment orders sites a"
    using assms(1) cluster_orders_items [OF a] by (simp add: located_assignment_def)
  ultimately show ?thesis using subclusters_items cluster_orders_items(1) [OF a] by metis
qed

text \<open>Two tasks the solver must treat together.\<close>

definition related_tasks :: "task_row list \<Rightarrow> task_row \<Rightarrow> task_row \<Rightarrow> bool" where
  "related_tasks orders a b \<longleftrightarrow>
     (alternative_group_ref a \<noteq> '''' \<and> alternative_group_ref a = alternative_group_ref b) \<or>
     (depends_on_task_ref a = task_id b \<and> task_id b \<noteq> '''' \<and>
      parent_ref (parents orders) (root_of (parents orders) (task_id a)) = '''')"

lemma parents_of:
  "distinct (map task_id orders) \<Longrightarrow> a \<in> set orders \<Longrightarrow> parent_ref (parents orders) (task_id a) =
   (if depends_on_task_ref a \<in> set (map task_id orders) \<and> depends_on_task_ref a \<noteq> task_id a
    then depends_on_task_ref a else '''')"
proof -
  have "map_of (fold (\<lambda>x. AList.update (task_id x) (f x)) xs d) (task_id a) = Some (f a)"
    if "distinct (map task_id xs)" "a \<in> set xs \<or> task_id a \<notin> task_id ` set xs \<and> map_of d (task_id a) = Some (f a)"
    for f :: "task_row \<Rightarrow> string" and xs d
    using that by (induction xs arbitrary: d) (auto simp: update_conv')
  then show "distinct (map task_id orders) \<Longrightarrow> a \<in> set orders \<Longrightarrow> ?thesis"
    by (simp add: parents_def parent_ref_def dget_default_def)
qed

lemma related_tasks_unit:
  assumes "distinct (map task_id orders)" "a \<in> set orders" "b \<in> set orders" "related_tasks orders a b" "task_id a \<noteq> task_id b"
  shows "\<exists>r. in_unit (dependency_units orders) r (task_id a) \<and> in_unit (dependency_units orders) r (task_id b)"
  using assms(4) unfolding related_tasks_def
proof (elim disjE conjE)
  assume "alternative_group_ref a \<noteq> ''''" "alternative_group_ref a = alternative_group_ref b"
  then show ?thesis using dependency_units_spec(3) [OF assms(1-3)] by blast
next
  assume dep: "depends_on_task_ref a = task_id b" "task_id b \<noteq> ''''"
    "parent_ref (parents orders) (root_of (parents orders) (task_id a)) = ''''"
  let ?pm = "parents orders"
  have p: "parent_ref ?pm (task_id a) = task_id b"
    using assms(3,5) by (simp add: parents_of [OF assms(1,2)] dep(1))
  have "root_of ?pm (task_id b) = root_of ?pm (task_id a)"
    using root_of_parent [OF _ dep(3)] dep(2) by (simp only: p not_False_eq_True simp_thms)
  with base_units_mem [OF assms(3)] have "in_unit (base_units orders) (root_of ?pm (task_id a)) (task_id b)" by simp
  then show ?thesis by (rule dependency_units_spec(2) [OF assms(1) base_units_mem [OF assms(2)]])
qed

text \<open>C22: A task and its predecessor in a precedence chain that ends, and two alternatives of one group, are
  in the same cluster when both have a location, so the routing model that orders or chooses between them sees both.
\<close>

theorem related_tasks_share_cluster:
  assumes ids: "distinct (map task_id orders)"
    and built: "build_cluster_specs name env rt L target orders sites depots vehicles = Some cs"
    and ab: "a \<in> set orders" "b \<in> set orders" "located sites a" "located sites b"
    and rel: "related_tasks orders a b"
  shows "\<exists>c\<in>set cs. task_id a \<in> set (task_ids c) \<and> task_id b \<in> set (task_ids c)"
proof -
  from built_clusters [OF built] obtain s where s: "cluster_orders_by_depot env L orders sites depots = Some s"
    and cs: "map (\<lambda>c. (depot_ref c, task_ids c)) cs
      = concat (map (\<lambda>(depot, ss). map (Pair depot) ss) (subclusters_of rt orders vehicles target s))" by blast
  have loc: "located_assignment orders sites s"
    using ids cluster_orders_items [OF s] by (simp add: located_assignment_def)
  note sub = subclusters_items [OF loc, of rt vehicles target]
  have mem: "task_id a \<in> set (table_items s)" "task_id b \<in> set (table_items s)"
    using ab located_items(2) [OF loc] by auto
  have "\<exists>(depot, subs)\<in>set (subclusters_of rt orders vehicles target s). \<exists>sub\<in>set subs. task_id a \<in> set sub \<and> task_id b \<in> set sub"
  proof (cases "task_id a = task_id b")
    case True
    with mem(1) mset_eq_setD [OF sub] show ?thesis by force
  next
    case False
    from related_tasks_unit [OF ids ab(1,2) rel False] unit_in_subcluster [OF loc _ _ False mem] show ?thesis by blast
  qed
  then obtain depot subs sub where d: "(depot, subs) \<in> set (subclusters_of rt orders vehicles target s)" "sub \<in> set subs"
    "task_id a \<in> set sub" "task_id b \<in> set sub" by blast
  then have "(depot, sub) \<in> set (concat (map (\<lambda>(depot, ss). map (Pair depot) ss) (subclusters_of rt orders vehicles target s)))"
    by force
  then have "(depot, sub) \<in> set (map (\<lambda>c. (depot_ref c, task_ids c)) cs)" by (simp only: cs)
  with d(3,4) show ?thesis by auto
qed

subsection \<open>Closed instances\<close>

text \<open>Three tasks: \<open>B\<close> follows \<open>A\<close> and both are on the field, \<open>C\<close> is at a place that has no site row. The target
  of one task per cluster would separate \<open>A\<close> from \<open>B\<close> if units could be split.\<close>

definition sample_site :: site_row where
  "sample_site =
     \<lparr>site_id = ''field'', site_location_type = '''', site_name = '''', site_lat = 0, site_lon = 0, site_area = 1,
      soil_type = '''', site_polygon = VList [], restricted_operations = RItems [], restriction_windows = RItems []\<rparr>"

definition sample_chain :: "task_row list" where
  "sample_chain =
     [sample_task\<lparr>task_id := ''B'', depends_on_task_ref := ''A''\<rparr>, sample_task,
      sample_task\<lparr>task_id := ''C'', location_ref := ''elsewhere''\<rparr>]"

definition sample_cluster_env :: cluster_env where
  "sample_cluster_env =
     \<lparr>ce_geodesic = \<lambda>p q. 0, ce_nearest = \<lambda>p ps. 0, ce_default_speed = 40, ce_air_factor = 1, ce_ground_factor = 1\<rparr>"

definition no_travel :: travel_lookup where
  "no_travel =
     \<lparr>aggregate = [], by_mode = [], aggregate_paths = [], paths_by_mode = [], aggregate_measures = [],
      measures_by_mode = [], has_tolls = False\<rparr>"

definition sample_clusters :: "cluster_spec list option" where
  "sample_clusters =
     build_cluster_specs (\<lambda>i. ''cluster'') sample_cluster_env sample_runtime no_travel 1 sample_chain [sample_site]
       [sample_depot] []"

lemma sample_clusters_value: "map_option (map task_ids) sample_clusters = Some [[''B'', ''A'']]"
  by code_simp

lemma sample_chain_facts:
  "distinct (map task_id sample_chain)" "map (located [sample_site]) sample_chain = [True, True, False]"
  "related_tasks sample_chain (sample_chain ! 0) (sample_chain ! 1)"
  by code_simp+

lemma clusters_partition_tasks_witness:
  "\<exists>cs. sample_clusters = Some cs \<and>
     mset (concat (map task_ids cs)) = mset (map task_id (filter (located [sample_site]) sample_chain))"
  using sample_clusters_value
    clusters_partition_tasks [OF sample_chain_facts(1), of "\<lambda>i. ''cluster''" sample_cluster_env sample_runtime no_travel 1
      "[sample_site]" "[sample_depot]" "[]"]
  by (auto simp: sample_clusters_def)

lemma related_tasks_share_cluster_witness:
  "\<exists>cs. sample_clusters = Some cs \<and> (\<exists>c\<in>set cs. ''B'' \<in> set (task_ids c) \<and> ''A'' \<in> set (task_ids c))"
proof -
  obtain cs where cs: "sample_clusters = Some cs" using sample_clusters_value by auto
  have ab: "sample_chain ! 0 \<in> set sample_chain" "sample_chain ! 1 \<in> set sample_chain"
    "located [sample_site] (sample_chain ! 0)" "located [sample_site] (sample_chain ! 1)"
    "task_id (sample_chain ! 0) = ''B''" "task_id (sample_chain ! 1) = ''A''" by code_simp+
  from related_tasks_share_cluster [OF sample_chain_facts(1) cs [unfolded sample_clusters_def] ab(1-4) sample_chain_facts(3)]
  show ?thesis using cs unfolding ab(5,6) by blast
qed

text \<open>
  Divergence: a task whose location has no site row is only logged; it is in no cluster, so no later stage
  dispatches it or lists it as infeasible.
\<close>

theorem unlocated_task_in_no_cluster:
  "map_option (\<lambda>cs. ''C'' \<in> set (concat (map task_ids cs))) sample_clusters = Some False \<and>
   ''C'' \<in> set (map task_id sample_chain)"
  by code_simp

end
