(* ===== verification/Scoring.thy ===== *)
theory Scoring
  imports Clustering
begin

text \<open>
  Resource prices (\<open>solver/cost_rates.py\<close>) and the warm start (\<open>solver/greedy.py\<close>): the price of a resource at
  the planning time, the score of every feasible pair of a task, and the greedy assignment of pairs to tasks.
  Geodesic distance and the nearest-node query are the parameters of \<open>cluster_env\<close>; a \<open>NaN\<close> travel time is \<open>None\<close>.
\<close>

subsection \<open>Cost rates\<close>

record cost_rate_row =
  rate_id :: string
  rate_type :: string
  unit_price :: real
  per_unit :: string
  rate_valid_from :: "string option"
  rate_valid_to :: "string option"

text \<open>The POSIX timestamp of \<open>datetime.min\<close>, the start of a rate without one.\<close>

definition datetime_min :: real where
  "datetime_min = - 62135596800"

definition rate_start :: "runtime \<Rightarrow> cost_rate_row \<Rightarrow> real" where
  "rate_start rt r = (case parse_deadline rt (rate_valid_from r) of None \<Rightarrow> datetime_min | Some t \<Rightarrow> t)"

definition rate_applies :: "runtime \<Rightarrow> string \<Rightarrow> real \<Rightarrow> cost_rate_row \<Rightarrow> bool" where
  "rate_applies rt type now r \<longleftrightarrow> rate_type r = type \<and>
     \<not> (case parse_deadline rt (rate_valid_from r) of None \<Rightarrow> False | Some t \<Rightarrow> now < t) \<and>
     \<not> (case parse_deadline rt (rate_valid_to r) of None \<Rightarrow> False | Some t \<Rightarrow> now \<ge> t)"

fun best_rate :: "runtime \<Rightarrow> string \<Rightarrow> real \<Rightarrow> cost_rate_row list \<Rightarrow> cost_rate_row option \<Rightarrow> cost_rate_row option" where
  "best_rate rt type now [] b = b"
| "best_rate rt type now (r # rs) b =
     (if \<not> rate_applies rt type now r then best_rate rt type now rs b
      else case b of
             None \<Rightarrow> best_rate rt type now rs (Some r)
           | Some c \<Rightarrow> best_rate rt type now rs (if rate_start rt r \<ge> rate_start rt c then Some r else b))"

definition resolve_unit_price :: "runtime \<Rightarrow> cost_rate_row list \<Rightarrow> string \<Rightarrow> real \<Rightarrow> real \<Rightarrow> real" where
  "resolve_unit_price rt rates type now default_price =
     (case best_rate rt type now rates None of None \<Rightarrow> default_price | Some r \<Rightarrow> unit_price r)"

record resource_prices =
  fuel_eur_per_l :: real
  material_eur_per_kg :: real
  electricity_eur_per_kwh :: real
  labor_eur_per_h :: real
  wear_eur_per_h :: real
  toll_eur_per_km :: real
  service_fee_eur_per_visit :: real

definition price_for :: "resource_prices \<Rightarrow> string \<Rightarrow> real" where
  "price_for p type =
     (if type = ''electricity'' then electricity_eur_per_kwh p
      else if type = ''fertilizer'' then material_eur_per_kg p else fuel_eur_per_l p)"

definition operating_eur_per_h :: "resource_prices \<Rightarrow> real" where
  "operating_eur_per_h p = labor_eur_per_h p + wear_eur_per_h p"

definition vehicle_energy_resource_type :: "prime_mover_row \<Rightarrow> string" where
  "vehicle_energy_resource_type v = (if pm_energy_resource_type v = '''' then ''fuel'' else pm_energy_resource_type v)"

definition vehicle_energy_unit :: "prime_mover_row \<Rightarrow> string" where
  "vehicle_energy_unit v =
     (if pm_energy_unit v \<noteq> '''' then pm_energy_unit v
      else if vehicle_energy_resource_type v = ''electricity'' then ''kWh'' else ''L'')"

definition vehicle_energy_consumption_rate :: "prime_mover_row \<Rightarrow> real" where
  "vehicle_energy_consumption_rate v =
     (if energy_consumption_rate v > 0 then energy_consumption_rate v else fuel_consumption_rate v)"

definition positive_rate :: "real \<Rightarrow> real option" where
  "positive_rate x = (if x > 0 then Some x else None)"

definition vehicle_machine_wear_eur_per_h :: "prime_mover_row \<Rightarrow> real \<Rightarrow> real" where
  "vehicle_machine_wear_eur_per_h v fleet =
     (case positive_rate (machine_wear_eur_per_h v) of None \<Rightarrow> fleet | Some r \<Rightarrow> r)"

definition operator_wage_eur_per_h :: "operator_row option \<Rightarrow> real \<Rightarrow> real" where
  "operator_wage_eur_per_h p fleet =
     (case p of None \<Rightarrow> fleet
      | Some w \<Rightarrow> (case positive_rate (wage_eur_per_h w) of None \<Rightarrow> fleet | Some r \<Rightarrow> r))"

definition vehicle_operating_eur_per_h :: "prime_mover_row \<Rightarrow> real option \<Rightarrow> resource_prices \<Rightarrow> real" where
  "vehicle_operating_eur_per_h v wage p =
     vehicle_machine_wear_eur_per_h v (wear_eur_per_h p) + (case wage of None \<Rightarrow> labor_eur_per_h p | Some w \<Rightarrow> w)"

subsection \<open>Scores\<close>

record score_settings =
  sc_fuel_price :: real
  sc_prices :: "resource_prices option"
  sc_weight_margin :: real
  sc_weight_reposition :: real
  sc_objective :: string

definition estimate_gross_margin :: "task_row \<Rightarrow> real" where
  "estimate_gross_margin order = (if revenue order > 0 then revenue order else area order * 200)"

definition network_seconds_or_none :: "travel_lookup \<Rightarrow> string \<Rightarrow> string \<Rightarrow> string \<Rightarrow> nat option" where
  "network_seconds_or_none L from_ref to_ref mode =
     (if from_ref = '''' \<or> to_ref = '''' \<or> from_ref = to_ref then None
      else case nonzero (network_seconds L from_ref to_ref mode) of
             Some s \<Rightarrow> Some s
           | None \<Rightarrow> nonzero (network_seconds L to_ref from_ref mode))"

text \<open>The network node nearest to a vehicle and the seconds to reach it.\<close>

definition vehicle_network_access ::
  "cluster_env \<Rightarrow> travel_lookup \<Rightarrow> (string, point) dict \<Rightarrow> prime_mover_row \<Rightarrow> (string \<times> int) option" where
  "vehicle_network_access env L coords v =
     (let located = List.map_filter (\<lambda>r. map_option (Pair r) (map_of coords r)) (travel_network_nodes L) in
      if aggregate L = [] \<or> coords = [] \<or> located = [] then None
      else let (ref, p) = located ! ce_nearest env (pm_lat v, pm_lon v) (map snd located) in
           Some (ref, travel_time_seconds (ce_geodesic env) (ce_default_speed env) (pm_lat v, pm_lon v) p
                        (ce_default_speed env)))"

definition energy_price_of :: "score_settings \<Rightarrow> prime_mover_row \<Rightarrow> real" where
  "energy_price_of s v =
     (case sc_prices s of None \<Rightarrow> sc_fuel_price s | Some p \<Rightarrow> price_for p (vehicle_energy_resource_type v))"

definition operating_of :: "score_settings \<Rightarrow> real" where
  "operating_of s = (case sc_prices s of None \<Rightarrow> 0 | Some p \<Rightarrow> operating_eur_per_h p)"

definition toll_of :: "score_settings \<Rightarrow> real" where
  "toll_of s = (case sc_prices s of None \<Rightarrow> 0 | Some p \<Rightarrow> toll_eur_per_km p)"

definition estimate_repositioning_cost :: "cluster_env \<Rightarrow> score_settings \<Rightarrow> prime_mover_row \<Rightarrow> site_row \<Rightarrow> real" where
  "estimate_repositioning_cost env s v field =
     (let km = ce_geodesic env (pm_lat v, pm_lon v) (site_lat field, site_lon field);
          hours = (if travel_speed v > 0 then km / travel_speed v else 0)
      in hours * (vehicle_energy_consumption_rate v * energy_price_of s v + operating_of s) + km * toll_of s)"

text \<open>The travel seconds of a pair: the least of the straight line, the path from the home depot and the path from the
  nearest node, where they exist.\<close>

definition reach_seconds ::
  "cluster_env \<Rightarrow> runtime \<Rightarrow> travel_lookup \<Rightarrow> (string, point) dict \<Rightarrow> task_row \<Rightarrow> real \<Rightarrow> prime_mover_row \<Rightarrow> real" where
  "reach_seconds env rt L coords order km v =
     (let straight = km / max 1 (travel_speed v) * 3600; mode = travel_mode_for_vehicle rt v in
      if aggregate L = [] then straight
      else let home = map_option real (network_seconds_or_none L (pm_home_depot_ref v) (location_ref order) mode);
               node = (case vehicle_network_access env L coords v of
                         None \<Rightarrow> None
                       | Some (ref, approach) \<Rightarrow>
                           if ref = '''' then None
                           else map_option (\<lambda>s. real_of_int approach + real s)
                                  (network_seconds_or_none L ref (location_ref order) mode))
           in fold (\<lambda>c m. case c of None \<Rightarrow> m | Some s \<Rightarrow> min m s) [home, node] straight)"

definition score_pair ::
  "cluster_env \<Rightarrow> runtime \<Rightarrow> score_settings \<Rightarrow> travel_lookup \<Rightarrow> (string, point) dict \<Rightarrow> prime_mover_row list
   \<Rightarrow> related_row list \<Rightarrow> site_row \<Rightarrow> task_row \<Rightarrow> nat \<times> nat \<Rightarrow> real" where
  "score_pair env rt s L coords vehicles implements field order vi =
     (let v = vehicles ! fst vi;
          km = ce_geodesic env (pm_lat v, pm_lon v) (site_lat field, site_lon field);
          travel = reach_seconds env rt L coords order km v;
          hours = travel / 3600;
          reposition = hours * (vehicle_energy_consumption_rate v * energy_price_of s v + operating_of s) + km * toll_of s;
          margin = estimate_gross_margin order
      in if py_lower (sc_objective s) = ''time''
         then - (hours * 3600 + (if snd vi < length implements
                                 then real_of_int (estimate_operation_seconds rt order (implements ! snd vi)) else 0))
              + margin / 1000000
         else sc_weight_margin s * margin - sc_weight_reposition s * reposition)"

type_synonym scored_pairs = "(string, (real \<times> nat \<times> nat) list) dict"

definition score_task ::
  "cluster_env \<Rightarrow> runtime \<Rightarrow> score_settings \<Rightarrow> travel_lookup \<Rightarrow> (string, point) dict \<Rightarrow> prime_mover_row list
   \<Rightarrow> related_row list \<Rightarrow> site_row list \<Rightarrow> (string, (nat \<times> nat) list) dict \<Rightarrow> task_row \<Rightarrow> (real \<times> nat \<times> nat) list" where
  "score_task env rt s L coords vehicles implements sites feasible order =
     (case field_of sites order of
        None \<Rightarrow> []
      | Some field \<Rightarrow>
          sort_key (\<lambda>x. - fst x)
            (map (\<lambda>vi. (score_pair env rt s L coords vehicles implements field order vi, vi))
              (dget_default feasible (task_id order) [])))"

definition vectorized_score ::
  "cluster_env \<Rightarrow> runtime \<Rightarrow> score_settings \<Rightarrow> travel_lookup \<Rightarrow> (string, point) dict \<Rightarrow> task_row list
   \<Rightarrow> prime_mover_row list \<Rightarrow> related_row list \<Rightarrow> site_row list \<Rightarrow> (string, (nat \<times> nat) list) dict \<Rightarrow> scored_pairs" where
  "vectorized_score env rt s L coords orders vehicles implements sites feasible =
     fold (\<lambda>tk. AList.update (task_id tk) (score_task env rt s L coords vehicles implements sites feasible tk)) orders []"

subsection \<open>The greedy warm start\<close>

text \<open>Scarce tasks first: those with candidates, by the number of different implements, then by the regret of losing
  the best candidate, then by the best score.\<close>

definition assignment_order_priority ::
  "string \<times> (real \<times> nat \<times> nat) list \<Rightarrow> nat \<times> nat \<times> real \<times> real \<times> string" where
  "assignment_order_priority item =
     (case snd item of
        [] \<Rightarrow> (1, 0, 0, 0, fst item)
      | (b, _) # rest \<Rightarrow>
          let second = (case rest of [] \<Rightarrow> - 1000000000000 | (s, _) # _ \<Rightarrow> s) in
          (0, length (remdups (map (snd \<circ> snd) (snd item))), - (b - second), - b, fst item))"

fun greedy_loop ::
  "(string \<times> (real \<times> nat \<times> nat) list) list \<Rightarrow> nat list \<Rightarrow> (string \<times> nat \<times> nat) list" where
  "greedy_loop [] claimed = []"
| "greedy_loop ((t, candidates) # rest) claimed =
     (case find (\<lambda>(s, v, i). i \<notin> set claimed) candidates of
        None \<Rightarrow> greedy_loop rest claimed
      | Some (s, v, i) \<Rightarrow> (t, v, i) # greedy_loop rest (i # claimed))"

definition greedy_assign :: "scored_pairs \<Rightarrow> (string, nat \<times> nat) dict" where
  "greedy_assign scored = greedy_loop (sort_key assignment_order_priority scored) []"

subsection \<open>The price of a resource\<close>

text \<open>\<open>r\<close> starts last among \<open>rates\<close>, and is the last of those that start with it.\<close>

definition last_started :: "runtime \<Rightarrow> cost_rate_row list \<Rightarrow> cost_rate_row \<Rightarrow> bool" where
  "last_started rt rates r \<longleftrightarrow>
     (\<exists>xs ys. rates = xs @ r # ys \<and> list_all (\<lambda>x. rate_start rt x \<le> rate_start rt r) xs \<and>
        list_all (\<lambda>y. rate_start rt y < rate_start rt r) ys)"

lemma last_started_step:
  assumes "last_started rt rates c"
  shows "last_started rt (rates @ [r]) (if rate_start rt r \<ge> rate_start rt c then r else c)"
proof -
  from assms obtain xs ys where d: "rates = xs @ c # ys" "list_all (\<lambda>x. rate_start rt x \<le> rate_start rt c) xs"
    "list_all (\<lambda>y. rate_start rt y < rate_start rt c) ys" by (auto simp: last_started_def)
  show ?thesis
  proof (cases "rate_start rt r \<ge> rate_start rt c")
    case True
    with d have "list_all (\<lambda>x. rate_start rt x \<le> rate_start rt r) rates" by (fastforce simp: list_all_iff)
    with True show ?thesis unfolding last_started_def by (intro exI [of _ rates] exI [of _ "[]"]) simp
  next
    case False
    with d show ?thesis unfolding last_started_def by (intro exI [of _ xs] exI [of _ "ys @ [r]"]) simp
  qed
qed

lemma best_rate_spec:
  "(b = None \<longrightarrow> seen = []) \<Longrightarrow> (\<forall>c. b = Some c \<longrightarrow> last_started rt seen c) \<Longrightarrow>
   (case best_rate rt type now rates b of
      None \<Rightarrow> seen @ filter (rate_applies rt type now) rates = []
    | Some r \<Rightarrow> last_started rt (seen @ filter (rate_applies rt type now) rates) r)"
proof (induction rates arbitrary: b seen)
  case (Cons r rates)
  show ?case
  proof (cases "rate_applies rt type now r")
    case False
    with Cons.IH [OF Cons.prems] show ?thesis by (simp split: option.splits)
  next
    case True
    show ?thesis
    proof (cases b)
      case None
      with Cons.prems have "last_started rt (seen @ [r]) r"
        unfolding last_started_def by (intro exI [of _ "[]"]) simp
      with Cons.IH [of "Some r" "seen @ [r]"] True None show ?thesis by (simp split: option.splits)
    next
      case (Some c)
      with Cons.prems have "last_started rt seen c" by simp
      from last_started_step [OF this, of r] Cons.IH [of "if rate_start rt r \<ge> rate_start rt c then Some r else b" "seen @ [r]"]
      show ?thesis using True Some by (cases "rate_start rt r \<ge> rate_start rt c") (simp_all split: option.splits)
    qed
  qed
qed (auto split: option.splits)

text \<open>The price of a resource is that of the applicable rate that starts last (of rates that start together the
  last listed), and the engine default when no rate applies.\<close>

theorem unit_price_is_newest_rate:
  "(filter (rate_applies rt type now) rates = [] \<and> resolve_unit_price rt rates type now default_price = default_price) \<or>
   (\<exists>r. last_started rt (filter (rate_applies rt type now) rates) r \<and>
        resolve_unit_price rt rates type now default_price = unit_price r)"
  using best_rate_spec [of None "[]" rt type now rates] by (auto simp: resolve_unit_price_def split: option.splits)

subsection \<open>The greedy assignment is a maximal matching\<close>

lemma greedy_loop_items:
  "(t, v, i) \<in> set (greedy_loop items claimed) \<Longrightarrow> i \<notin> set claimed \<and> (\<exists>cs s. (t, cs) \<in> set items \<and> (s, v, i) \<in> set cs)"
proof (induction items claimed rule: greedy_loop.induct)
  case (2 t' candidates rest claimed)
  show ?case
  proof (cases "find (\<lambda>(s, v, i). i \<notin> set claimed) candidates")
    case None
    with 2 show ?thesis by auto
  next
    case (Some x)
    obtain s' v' i' where x: "x = (s', v', i')" by (cases x) auto
    from Some x have "i' \<notin> set claimed \<and> (s', v', i') \<in> set candidates" by (auto simp: find_Some_iff) (metis nth_mem)
    moreover from 2(3) Some x have "(t, v, i) = (t', v', i') \<or> (t, v, i) \<in> set (greedy_loop rest (i' # claimed))" by simp
    ultimately show ?thesis using 2(2) [OF Some x [symmetric] refl] by (metis list.set_intros insertCI prod.inject)
  qed
qed simp

lemma greedy_loop_implements: "distinct (map (snd \<circ> snd) (greedy_loop items claimed))"
proof (induction items claimed rule: greedy_loop.induct)
  case (2 t candidates rest claimed)
  show ?case
  proof (cases "find (\<lambda>(s, v, i). i \<notin> set claimed) candidates")
    case (Some x)
    obtain s v i where x: "x = (s, v, i)" by (cases x) auto
    have "i \<notin> set (map (snd \<circ> snd) (greedy_loop rest (i # claimed)))"
      using greedy_loop_items [of _ _ i rest "i # claimed"] by fastforce
    with 2 Some x show ?thesis by simp
  qed (use 2 in simp)
qed simp

lemma greedy_loop_keys: "distinct (map fst items) \<Longrightarrow> distinct (map fst (greedy_loop items claimed)) \<and>
    fst ` set (greedy_loop items claimed) \<subseteq> fst ` set items"
proof (induction items claimed rule: greedy_loop.induct)
  case (2 t candidates rest claimed)
  show ?case
  proof (cases "find (\<lambda>(s, v, i). i \<notin> set claimed) candidates")
    case (Some x)
    obtain s v i where x: "x = (s, v, i)" by (cases x) auto
    from 2(2) [OF Some x [symmetric] refl] 2(3) Some x show ?thesis by force
  qed (use 2 in auto)
qed simp

lemma greedy_loop_maximal:
  "(t, cs) \<in> set items \<Longrightarrow> distinct (map fst items) \<Longrightarrow> t \<notin> fst ` set (greedy_loop items claimed) \<Longrightarrow> (s, v, i) \<in> set cs \<Longrightarrow>
   i \<in> set claimed \<union> (snd \<circ> snd) ` set (greedy_loop items claimed)"
proof (induction items claimed rule: greedy_loop.induct)
  case (2 t' candidates rest claimed)
  show ?case
  proof (cases "find (\<lambda>(s, v, i). i \<notin> set claimed) candidates")
    case None
    show ?thesis
    proof (cases "(t, cs) = (t', candidates)")
      case True
      with None 2 show ?thesis by (auto simp: find_None_iff)
    next
      case False
      with None 2 show ?thesis by auto
    qed
  next
    case (Some x)
    obtain s' v' i' where x: "x = (s', v', i')" by (cases x) auto
    from 2(4,5) Some x have "t \<noteq> t'" "(t, cs) \<in> set rest" using 2(3) by auto
    moreover have "distinct (map fst rest)" "t \<notin> fst ` set (greedy_loop rest (i' # claimed))" using 2(4,5) Some x by auto
    ultimately have "i \<in> set (i' # claimed) \<union> (snd \<circ> snd) ` set (greedy_loop rest (i' # claimed))"
      using 2(2) [OF Some x [symmetric] refl] 2(6) by simp
    with Some x show ?thesis by auto
  qed
qed simp

text \<open>C23: The warm start is a maximal matching of tasks and implements: every pair is a feasible candidate of its task, no
  implement serves two tasks, and a task is left out only when each implement of its candidates is taken.\<close>

theorem greedy_assign_matching:
  assumes "wf_dict scored"
  shows "wf_dict (greedy_assign scored) \<and> distinct (map (snd \<circ> snd) (greedy_assign scored)) \<and>
    (\<forall>t v i. map_of (greedy_assign scored) t = Some (v, i) \<longrightarrow> (\<exists>s. (s, v, i) \<in> set (dget_default scored t []))) \<and>
    (\<forall>t s v i. map_of (greedy_assign scored) t = None \<longrightarrow> (s, v, i) \<in> set (dget_default scored t []) \<longrightarrow>
      i \<in> (snd \<circ> snd) ` set (greedy_assign scored))"
proof (intro conjI allI impI)
  let ?items = "sort_key assignment_order_priority scored"
  have d: "distinct (map fst ?items)"
    using assms mset_eq_imp_distinct_iff [of "map fst ?items" "map fst scored"] by (simp add: wf_dict_def)
  have mem: "(t, cs) \<in> set ?items \<longleftrightarrow> map_of scored t = Some cs" for t cs using assms by (simp add: wf_dict_map_of)
  show wf: "wf_dict (greedy_assign scored)" using greedy_loop_keys [OF d] by (simp add: wf_dict_def greedy_assign_def)
  show "distinct (map (snd \<circ> snd) (greedy_assign scored))" by (simp only: greedy_assign_def greedy_loop_implements)
  show "\<exists>s. (s, v, i) \<in> set (dget_default scored t [])" if "map_of (greedy_assign scored) t = Some (v, i)" for t v i
    using greedy_loop_items [of t v i ?items "[]"] map_of_SomeD [OF that] mem by (auto simp: greedy_assign_def dget_default_def)
  show "i \<in> (snd \<circ> snd) ` set (greedy_assign scored)"
    if "map_of (greedy_assign scored) t = None" "(s, v, i) \<in> set (dget_default scored t [])" for t s v i
  proof -
    from that(2) obtain cs where "map_of scored t = Some cs" "(s, v, i) \<in> set cs"
      by (cases "map_of scored t") (auto simp: dget_default_def)
    moreover from that(1) have "t \<notin> fst ` set (greedy_assign scored)" by (simp add: map_of_eq_None_iff)
    ultimately show ?thesis using greedy_loop_maximal [OF _ d, of t cs "[]" s v i] mem by (simp add: greedy_assign_def)
  qed
qed

subsection \<open>Closed instances\<close>

text \<open>Task \<open>A\<close> can use implement 0 or 1 and has little to lose, task \<open>B\<close> only implement 0.\<close>

definition sample_scored :: scored_pairs where
  "sample_scored = [(''A'', [(9, 0, 0), (8, 1, 1)]), (''B'', [(5, 0, 0)]), (''C'', [(7, 0, 0)])]"

lemma sample_greedy: "greedy_assign sample_scored = [(''C'', (0, 0)), (''A'', (1, 1))]"
  by code_simp

lemma greedy_assign_matching_witness:
  "distinct (map (snd \<circ> snd) (greedy_assign sample_scored)) \<and>
   (\<exists>s. (s, 1, 1) \<in> set (dget_default sample_scored ''A'' [])) \<and> 0 \<in> (snd \<circ> snd) ` set (greedy_assign sample_scored)"
proof -
  have "wf_dict sample_scored" by code_simp
  note m = greedy_assign_matching [OF this]
  have "(5, 0, 0) \<in> set (dget_default sample_scored ''B'' [])" by (simp add: sample_scored_def dget_default_def)
  moreover have "map_of (greedy_assign sample_scored) ''B'' = None"
    "map_of (greedy_assign sample_scored) ''A'' = Some (1, 1)" by (simp_all add: sample_greedy)
  ultimately show ?thesis using m by blast
qed

end
