(* ===== verification/Allocation.thy ===== *)
theory Allocation
  imports Scoring Intervals
begin

text \<open>
  Pre-allocation of bundles and operators to clusters (\<open>solver/allocation/\<close>): scores, candidates, the greedy
  reservation, and the CP-SAT model with its constraints and objective. The CP-SAT solver is a parameter; what is
  used of it is that a solution it returns satisfies the constraints. Operator ids are unique, as the sections key
  their rows.
\<close>

subsection \<open>Scores of bundles\<close>

record alloc_config =
  ac_orders_per_resource :: nat
  ac_min_resources :: nat
  ac_max_pairs :: nat
  ac_enabled :: bool
  ac_top_k :: int
  ac_pairs_per_vehicle :: nat
  ac_pairs_per_implement :: nat
  ac_model_cap :: int
  ac_score_scale :: int
  ac_count_priority :: real

type_synonym scored_lookup = "(string, (nat \<times> nat, real) dict) dict"
type_synonym free_capacity = "(string, real) dict"

definition build_scored_lookup :: "scored_pairs option \<Rightarrow> scored_lookup option" where
  "build_scored_lookup scored =
     map_option (map (\<lambda>(t, candidates). (t, fold (\<lambda>(s, v, i). AList.update (v, i) s) candidates []))) scored"

fun gap_loop :: "interval list \<Rightarrow> int \<Rightarrow> int \<Rightarrow> int \<times> int" where
  "gap_loop [] cursor largest = (cursor, largest)"
| "gap_loop ((b_start, b_end) # busy) cursor largest =
     gap_loop busy (max cursor b_end) (max largest (b_start - cursor))"

definition largest_free_gap :: "interval list \<Rightarrow> int \<Rightarrow> int \<Rightarrow> int" where
  "largest_free_gap busy start finish =
     (let (cursor, largest) = gap_loop busy start 0 in max 0 (max largest (finish - cursor)))"

definition build_free_capacity :: "(string, interval list) dict \<Rightarrow> int \<Rightarrow> int \<Rightarrow> free_capacity" where
  "build_free_capacity held now horizon =
     map (\<lambda>(asset, windows).
       (asset, let horizon_end = now + horizon;
                   busy = merge_intervals (map (\<lambda>(s, e). (max s now, min e horizon_end))
                            (filter (\<lambda>(s, e). min e horizon_end > max s now) windows))
               in max 0 (min 1 (real_of_int (largest_free_gap busy now horizon_end) / real_of_int horizon)))) held"

definition score_vi_pair ::
  "scored_lookup option \<Rightarrow> (nat \<Rightarrow> nat \<Rightarrow> real) \<Rightarrow> free_capacity \<Rightarrow> task_row \<Rightarrow> nat \<Rightarrow> nat \<Rightarrow> string \<Rightarrow> string \<Rightarrow> real" where
  "score_vi_pair scored_lookup margin free_capacity order v i vehicle_id implement_id =
     (let base = (case Option.bind scored_lookup (\<lambda>d. map_of (dget_default d (task_id order) []) (v, i)) of
                    None \<Rightarrow> margin v i
                  | Some s \<Rightarrow> s);
          score = base + penalty_per_day order * (1 / 10) + margin v i * (1 / 100)
      in if free_capacity \<noteq> [] \<and> score > 0
         then score * min (dget_default free_capacity vehicle_id 1) (dget_default free_capacity implement_id 1)
         else score)"

definition cluster_resource_limit :: "alloc_config \<Rightarrow> task_row list \<Rightarrow> nat" where
  "cluster_resource_limit cfg orders =
     (let n = length orders; desired = nat \<lceil>real n / real (ac_orders_per_resource cfg)\<rceil> in
      min n (min (ac_max_pairs cfg) (if n > 1 then max desired (ac_min_resources cfg) else desired)))"

subsection \<open>The greedy reservation\<close>

record allocation_state =
  claimed_implements :: "string list"
  claimed_operators :: "string list"
  vehicle_assignment_count :: "(string, nat) dict"

definition max_vehicle_assignments :: nat where
  "max_vehicle_assignments = 2"

record alloc_input =
  ai_operators :: "operator_row list"
  ai_margin :: "nat \<Rightarrow> nat \<Rightarrow> real"
  ai_vehicle :: "nat \<Rightarrow> string option"
  ai_implement :: "nat \<Rightarrow> string option"
  ai_feasible :: "(string, (nat \<times> nat) list) dict"
  ai_scored :: "scored_lookup option"
  ai_free :: free_capacity

type_synonym asset_pair = "string \<times> string"

definition bundle_of :: "alloc_input \<Rightarrow> nat \<times> nat \<Rightarrow> asset_pair option" where
  "bundle_of x vi =
     (case (ai_vehicle x (fst vi), ai_implement x (snd vi)) of (Some v, Some i) \<Rightarrow> Some (v, i) | _ \<Rightarrow> None)"

definition add_score :: "alloc_input \<Rightarrow> task_row \<Rightarrow> nat \<times> nat \<Rightarrow> asset_pair \<Rightarrow> (asset_pair, real) dict \<Rightarrow> (asset_pair, real) dict" where
  "add_score x order vi b candidates =
     AList.update b (dget_default candidates b 0 +
       score_vi_pair (ai_scored x) (ai_margin x) (ai_free x) order (fst vi) (snd vi) (fst b) (snd b)) candidates"

definition collect_pair_candidates ::
  "alloc_input \<Rightarrow> allocation_state \<Rightarrow> nat \<Rightarrow> task_row list \<Rightarrow> (asset_pair, real) dict" where
  "collect_pair_candidates x st max_vehicle_uses orders =
     fold (\<lambda>order. fold (\<lambda>vi candidates.
         case bundle_of x vi of
           None \<Rightarrow> candidates
         | Some b \<Rightarrow>
             if snd b \<in> set (claimed_implements st) \<or> dget_default (vehicle_assignment_count st) (fst b) 0 \<ge> max_vehicle_uses
             then candidates else add_score x order vi b candidates)
       (dget_default (ai_feasible x) (task_id order) [])) orders []"

fun reserve_loop ::
  "nat \<Rightarrow> (asset_pair \<times> real) list \<Rightarrow> string list \<Rightarrow> string list \<Rightarrow> (string, string list) dict \<Rightarrow> allocation_state
   \<Rightarrow> (string, string list) dict \<times> allocation_state" where
  "reserve_loop limit [] reserved_vehicles reserved_implements allocated st = (allocated, st)"
| "reserve_loop limit (((v, i), s) # rest) reserved_vehicles reserved_implements allocated st =
     (if length allocated \<ge> limit then (allocated, st)
      else if v \<in> set reserved_vehicles \<or> i \<in> set reserved_implements
      then reserve_loop limit rest reserved_vehicles reserved_implements allocated st
      else reserve_loop limit rest (v # reserved_vehicles) (i # reserved_implements) (AList.update v [i] allocated)
             (st\<lparr>claimed_implements := i # claimed_implements st,
                 vehicle_assignment_count :=
                   AList.update v (dget_default (vehicle_assignment_count st) v 0 + 1) (vehicle_assignment_count st)\<rparr>))"

text \<open>The best score first, then by the ids.\<close>

definition by_score :: "(asset_pair, real) dict \<Rightarrow> (asset_pair \<times> real) list" where
  "by_score candidates = sort_key (\<lambda>((v, i), s). (- s, v, i)) candidates"

definition reserve_best_candidates ::
  "(asset_pair, real) dict \<Rightarrow> nat \<Rightarrow> allocation_state \<Rightarrow> (string, string list) dict \<times> allocation_state" where
  "reserve_best_candidates candidates limit st = reserve_loop limit (by_score candidates) [] [] [] st"

definition coverage :: "runtime \<Rightarrow> string list \<Rightarrow> operator_row \<Rightarrow> nat" where
  "coverage rt operations p = length (filter (\<lambda>c. c \<in> set operations) (ops_set rt (certified_operations p)))"

definition available_operators :: "alloc_input \<Rightarrow> allocation_state \<Rightarrow> string \<Rightarrow> operator_row list" where
  "available_operators x st depot =
     (let free = filter (\<lambda>p. op_asset_id p \<notin> set (claimed_operators st)) (ai_operators x);
          local = filter (\<lambda>p. op_home_depot_ref p = depot) free
      in if local \<noteq> [] then local else free)"

definition assign_operator ::
  "runtime \<Rightarrow> alloc_input \<Rightarrow> string list \<Rightarrow> cluster_spec \<times> allocation_state \<Rightarrow> cluster_spec \<times> allocation_state" where
  "assign_operator rt x operations cs =
     (let (c, st) = cs in
      case max_by (\<lambda>p. (coverage rt operations p, dget_default (ai_free x) (op_asset_id p) 1))
             (available_operators x st (depot_ref c)) of
        None \<Rightarrow> (c, st)
      | Some p \<Rightarrow> (c\<lparr>operator_ref := op_asset_id p\<rparr>, st\<lparr>claimed_operators := op_asset_id p # claimed_operators st\<rparr>))"

definition cluster_orders :: "task_row list \<Rightarrow> cluster_spec \<Rightarrow> task_row list" where
  "cluster_orders orders c = List.map_filter (index_orders orders) (task_ids c)"

definition allocate_cluster ::
  "alloc_config \<Rightarrow> runtime \<Rightarrow> alloc_input \<Rightarrow> task_row list \<Rightarrow> cluster_spec \<times> allocation_state
   \<Rightarrow> cluster_spec \<times> allocation_state" where
  "allocate_cluster cfg rt x orders cs =
     (let (c, st) = cs;
          own = cluster_orders orders c;
          first = collect_pair_candidates x st 1 own;
          candidates = (if first = [] then collect_pair_candidates x st max_vehicle_assignments own else first);
          (allocated, st1) = reserve_best_candidates candidates (cluster_resource_limit cfg own) st;
          (c2, st2) = assign_operator rt x (map operation_type own) (c, st1)
      in (c2\<lparr>allocated_prime_related := allocated\<rparr>, st2))"

fun allocate_clusters ::
  "alloc_config \<Rightarrow> runtime \<Rightarrow> alloc_input \<Rightarrow> task_row list \<Rightarrow> cluster_spec list \<Rightarrow> allocation_state \<Rightarrow> cluster_spec list" where
  "allocate_clusters cfg rt x orders [] st = []"
| "allocate_clusters cfg rt x orders (c # cs) st =
     (let (c', st') = allocate_cluster cfg rt x orders (c, st) in c' # allocate_clusters cfg rt x orders cs st')"

definition by_penalty :: "cluster_spec list \<Rightarrow> cluster_spec list" where
  "by_penalty clusters = sort_key (\<lambda>c. (- total_penalty_per_day c, cluster_id c)) clusters"

definition initial_state :: allocation_state where
  "initial_state = \<lparr>claimed_implements = [], claimed_operators = [], vehicle_assignment_count = []\<rparr>"

definition allocate_resources_greedy ::
  "alloc_config \<Rightarrow> runtime \<Rightarrow> alloc_input \<Rightarrow> task_row list \<Rightarrow> cluster_spec list \<Rightarrow> cluster_spec list" where
  "allocate_resources_greedy cfg rt x orders clusters =
     allocate_clusters cfg rt x orders (by_penalty clusters) initial_state"

subsection \<open>The global model\<close>

datatype cp_var = PairVar nat string string | OperatorVar nat string

record cp_model =
  cp_limits :: "(cp_var list \<times> nat) list"
  cp_objective :: "(int \<times> cp_var) list"

definition satisfies :: "cp_model \<Rightarrow> (cp_var \<Rightarrow> bool) \<Rightarrow> bool" where
  "satisfies m s \<longleftrightarrow> (\<forall>(vars, bound)\<in>set (cp_limits m). length (filter s vars) \<le> bound)"

definition objective_value :: "cp_model \<Rightarrow> (cp_var \<Rightarrow> bool) \<Rightarrow> int" where
  "objective_value m s = sum_list (map (\<lambda>(reward, var). if s var then reward else 0) (cp_objective m))"

record cluster_candidates =
  cc_cluster :: cluster_spec
  cc_candidates :: "(asset_pair, real) dict"
  cc_limit :: nat
  cc_operations :: "string list"

fun truncate_loop ::
  "alloc_config \<Rightarrow> (asset_pair \<times> real) list \<Rightarrow> (string, nat) dict \<Rightarrow> (string, nat) dict \<Rightarrow> (asset_pair, real) dict
   \<Rightarrow> (asset_pair, real) dict" where
  "truncate_loop cfg [] vehicle_counts implement_counts kept = kept"
| "truncate_loop cfg (((v, i), s) # rest) vehicle_counts implement_counts kept =
     (if int (length kept) \<ge> ac_top_k cfg then kept
      else if dget_default vehicle_counts v 0 \<ge> ac_pairs_per_vehicle cfg \<or>
              dget_default implement_counts i 0 \<ge> ac_pairs_per_implement cfg
      then truncate_loop cfg rest vehicle_counts implement_counts kept
      else truncate_loop cfg rest (AList.update v (dget_default vehicle_counts v 0 + 1) vehicle_counts)
             (AList.update i (dget_default implement_counts i 0 + 1) implement_counts) (AList.update (v, i) s kept))"

definition truncate_with_diversity :: "alloc_config \<Rightarrow> (asset_pair, real) dict \<Rightarrow> (asset_pair, real) dict" where
  "truncate_with_diversity cfg candidates = truncate_loop cfg (by_score candidates) [] [] []"

definition collect_cluster_candidates ::
  "alloc_config \<Rightarrow> alloc_input \<Rightarrow> task_row list \<Rightarrow> cluster_spec \<Rightarrow> cluster_candidates" where
  "collect_cluster_candidates cfg x orders c =
     (let own = cluster_orders orders c;
          candidates = fold (\<lambda>order. fold (\<lambda>vi cand.
              case bundle_of x vi of None \<Rightarrow> cand | Some b \<Rightarrow> add_score x order vi b cand)
            (dget_default (ai_feasible x) (task_id order) [])) own []
      in \<lparr>cc_cluster = c, cc_candidates = truncate_with_diversity cfg candidates,
          cc_limit = cluster_resource_limit cfg own, cc_operations = remdups (map operation_type own)\<rparr>)"

definition cluster_pairs :: "nat \<times> cluster_candidates \<Rightarrow> (cp_var \<times> real) list" where
  "cluster_pairs kc = map (\<lambda>((v, i), s). (PairVar (fst kc) v i, s)) (sort (cc_candidates (snd kc)))"

fun var_vehicle :: "cp_var \<Rightarrow> string" where
  "var_vehicle (PairVar k v i) = v"
| "var_vehicle (OperatorVar k p) = p"

fun var_implement :: "cp_var \<Rightarrow> string" where
  "var_implement (PairVar k v i) = i"
| "var_implement (OperatorVar k p) = p"

definition grouped_limits :: "(cp_var \<Rightarrow> string) \<Rightarrow> nat \<Rightarrow> cp_var list \<Rightarrow> (cp_var list \<times> nat) list" where
  "grouped_limits key bound vars =
     map (\<lambda>(k, group). (group, bound)) (fold (\<lambda>x. dappend (key x) x) vars [])"

definition add_pair_assignment_block :: "alloc_config \<Rightarrow> cluster_candidates list \<Rightarrow> cp_model" where
  "add_pair_assignment_block cfg ccs =
     (let scores = concat (map (\<lambda>cc. map snd (cc_candidates cc)) ccs) in
      if scores = [] then \<lparr>cp_limits = [], cp_objective = []\<rparr>
      else let lowest = fold min (tl scores) (hd scores);
               highest = fold max (tl scores) (hd scores);
               scale = real_of_int (ac_score_scale cfg);
               max_scaled = round_half_even ((highest - lowest) * scale);
               priority = min 1 (max 0 (ac_count_priority cfg));
               base_reward = round_half_even ((real_of_int max_scaled + 1) * priority);
               per_cluster = map cluster_pairs (enumerate 0 ccs);
               all_vars = concat (map (map fst) per_cluster)
           in \<lparr>cp_limits =
                 concat (map (\<lambda>(cc, vars).
                   (if vars = [] then [] else [(map fst vars, cc_limit cc)]) @ grouped_limits var_vehicle 1 (map fst vars))
                   (zip ccs per_cluster))
                 @ grouped_limits var_implement 1 all_vars
                 @ grouped_limits var_vehicle max_vehicle_assignments all_vars,
               cp_objective =
                 map (\<lambda>(var, s). (base_reward + round_half_even ((s - lowest) * scale), var)) (concat per_cluster)\<rparr>)"

definition operator_reward :: "runtime \<Rightarrow> free_capacity \<Rightarrow> cluster_candidates \<Rightarrow> operator_row \<Rightarrow> int" where
  "operator_reward rt free cc p =
     int (coverage rt (cc_operations cc) p) * 100 +
     (if op_home_depot_ref p = depot_ref (cc_cluster cc) then 1 else 0) -
     round_half_even (50 * (1 - dget_default free (op_asset_id p) 1))"

definition add_operator_assignment_block ::
  "runtime \<Rightarrow> free_capacity \<Rightarrow> operator_row list \<Rightarrow> cluster_candidates list \<Rightarrow> cp_model" where
  "add_operator_assignment_block rt free operators ccs =
     (if operators = [] \<or> ccs = [] then \<lparr>cp_limits = [], cp_objective = []\<rparr>
      else let rewards = concat (map (\<lambda>(k, cc). map (\<lambda>p. (OperatorVar k (op_asset_id p), operator_reward rt free cc p)) operators)
                           (enumerate 0 ccs));
               values = map snd rewards;
               base_reward = fold max (tl values) (hd values) - fold min (tl values) (hd values) + 1
           in \<lparr>cp_limits =
                 map (\<lambda>k. (map (\<lambda>p. OperatorVar k (op_asset_id p)) operators, 1)) [0..<length ccs]
                 @ grouped_limits var_vehicle 1 (map fst rewards),
               cp_objective = map (\<lambda>(var, reward). (base_reward + reward, var)) rewards\<rparr>)"

definition global_model ::
  "alloc_config \<Rightarrow> runtime \<Rightarrow> alloc_input \<Rightarrow> cluster_candidates list \<Rightarrow> cp_model" where
  "global_model cfg rt x ccs =
     (let pairs = add_pair_assignment_block cfg ccs; ops = add_operator_assignment_block rt (ai_free x) (ai_operators x) ccs
      in \<lparr>cp_limits = cp_limits pairs @ cp_limits ops, cp_objective = cp_objective pairs @ cp_objective ops\<rparr>)"

definition apply_solution :: "(cp_var \<Rightarrow> bool) \<Rightarrow> operator_row list \<Rightarrow> nat \<times> cluster_candidates \<Rightarrow> cluster_spec" where
  "apply_solution chosen operators kc =
     (let (k, cc) = kc;
          allocated = fold (\<lambda>((v, i), s) d. if chosen (PairVar k v i) then AList.update v [i] d else d)
                        (sort (cc_candidates cc)) [];
          c = (cc_cluster cc)\<lparr>allocated_prime_related := allocated\<rparr>
      in fold (\<lambda>p c. if chosen (OperatorVar k (op_asset_id p)) then c\<lparr>operator_ref := op_asset_id p\<rparr> else c) operators c)"

definition allocate_resources_global ::
  "alloc_config \<Rightarrow> runtime \<Rightarrow> (cp_model \<Rightarrow> (cp_var \<Rightarrow> bool) option) \<Rightarrow> alloc_input \<Rightarrow> task_row list
   \<Rightarrow> cluster_spec list \<Rightarrow> cluster_spec list option" where
  "allocate_resources_global cfg rt cp_sat x orders clusters =
     (let ccs = map (collect_cluster_candidates cfg x orders) (by_penalty clusters) in
      if int (sum_list (map (length \<circ> cc_candidates) ccs)) > ac_model_cap cfg then None
      else map_option (\<lambda>chosen. map (apply_solution chosen (ai_operators x)) (enumerate 0 ccs))
             (cp_sat (global_model cfg rt x ccs)))"

definition allocate_resources ::
  "alloc_config \<Rightarrow> runtime \<Rightarrow> (cp_model \<Rightarrow> (cp_var \<Rightarrow> bool) option) \<Rightarrow> alloc_input \<Rightarrow> task_row list
   \<Rightarrow> cluster_spec list \<Rightarrow> cluster_spec list" where
  "allocate_resources cfg rt cp_sat x orders clusters =
     (let greedy = allocate_resources_greedy cfg rt x orders clusters in
      if ac_enabled cfg
      then (case allocate_resources_global cfg rt cp_sat x orders clusters of None \<Rightarrow> greedy | Some cs \<Rightarrow> cs)
      else greedy)"

subsection \<open>The ledger of reservations\<close>

text \<open>
  The abstract specification: a list of reservations (cluster, vehicle, implement), each of which was legal when it
  was made. An implement is reserved once, a vehicle at most twice and never twice by one cluster, and a cluster
  stays within its limit.
\<close>

type_synonym reserved = "nat \<times> string \<times> string"

definition reserved_by :: "reserved list \<Rightarrow> nat \<Rightarrow> nat" where
  "reserved_by bs k = length (filter (\<lambda>b. fst b = k) bs)"

definition vehicle_uses :: "reserved list \<Rightarrow> string \<Rightarrow> nat" where
  "vehicle_uses bs v = length (filter (\<lambda>b. fst (snd b) = v) bs)"

inductive ledger :: "(nat \<Rightarrow> nat) \<Rightarrow> reserved list \<Rightarrow> bool" for limit where
  ledger_empty: "ledger limit []"
| ledger_reserve:
    "ledger limit bs \<Longrightarrow> i \<notin> (snd \<circ> snd) ` set bs \<Longrightarrow> (k, v) \<notin> (\<lambda>b. (fst b, fst (snd b))) ` set bs \<Longrightarrow>
     vehicle_uses bs v < max_vehicle_assignments \<Longrightarrow> reserved_by bs k < limit k \<Longrightarrow> ledger limit ((k, v, i) # bs)"

inductive_simps ledger_Nil: "ledger limit []"
inductive_simps ledger_Cons: "ledger limit ((k, v, i) # bs)"

lemma ledger_iff:
  "ledger limit bs \<longleftrightarrow>
     distinct (map (snd \<circ> snd) bs) \<and> distinct (map (\<lambda>b. (fst b, fst (snd b))) bs) \<and>
     (\<forall>v. vehicle_uses bs v \<le> max_vehicle_assignments) \<and> (\<forall>k. reserved_by bs k \<le> limit k)"
proof (induction bs)
  case Nil
  then show ?case by (simp add: ledger_Nil vehicle_uses_def reserved_by_def)
next
  case (Cons b bs)
  obtain k v i where b: "b = (k, v, i)" by (cases b) auto
  have u: "vehicle_uses (b # bs) w = (if v = w then Suc (vehicle_uses bs w) else vehicle_uses bs w)" for w
    by (simp add: vehicle_uses_def b)
  have r: "reserved_by (b # bs) j = (if k = j then Suc (reserved_by bs j) else reserved_by bs j)" for j
    by (simp add: reserved_by_def b)
  have "ledger limit (b # bs) \<longleftrightarrow> ledger limit bs \<and> i \<notin> (snd \<circ> snd) ` set bs \<and>
      (k, v) \<notin> (\<lambda>b. (fst b, fst (snd b))) ` set bs \<and> vehicle_uses bs v < max_vehicle_assignments \<and> reserved_by bs k < limit k"
    by (simp add: b ledger_Cons)
  also have "\<dots> \<longleftrightarrow> distinct (map (snd \<circ> snd) (b # bs)) \<and> distinct (map (\<lambda>b. (fst b, fst (snd b))) (b # bs)) \<and>
      (\<forall>v. vehicle_uses (b # bs) v \<le> max_vehicle_assignments) \<and> (\<forall>k. reserved_by (b # bs) k \<le> limit k)"
    unfolding Cons u r by (auto simp: b Suc_le_eq)
  finally show ?case .
qed

lemma ledger_mset:
  assumes "mset bs = mset bs'" "ledger limit bs"
  shows "ledger limit bs'"
proof -
  have f: "length (filter P bs) = length (filter P bs')" for P using assms(1) by (metis mset_filter size_mset)
  have d: "distinct (map g bs) = distinct (map g bs')" for g :: "reserved \<Rightarrow> 'b"
    using assms(1) by (metis mset_eq_imp_distinct_iff mset_map)
  show ?thesis using assms(2) unfolding ledger_iff vehicle_uses_def reserved_by_def by (simp add: f d)
qed

text \<open>The reservations of a list of allocated clusters.\<close>

definition pairs_of :: "(string, string list) dict \<Rightarrow> asset_pair list" where
  "pairs_of allocated = concat (map (\<lambda>(v, is). map (Pair v) is) allocated)"

definition bundles_from :: "nat \<Rightarrow> cluster_spec list \<Rightarrow> reserved list" where
  "bundles_from n cs = concat (map (\<lambda>(k, c). map (Pair k) (pairs_of (allocated_prime_related c))) (enumerate n cs))"

abbreviation bundles_of :: "cluster_spec list \<Rightarrow> reserved list" where
  "bundles_of \<equiv> bundles_from 0"

lemma bundles_from_Cons:
  "bundles_from n (c # cs) = map (Pair n) (pairs_of (allocated_prime_related c)) @ bundles_from (Suc n) cs"
  by (simp add: bundles_from_def)

lemma bundles_from_keys: "b \<in> set (bundles_from n cs) \<Longrightarrow> n \<le> fst b"
  by (auto simp: bundles_from_def in_set_enumerate_eq)

lemma bundles_from_mem:
  "(k, v, i) \<in> set (bundles_from n cs) \<longleftrightarrow>
   n \<le> k \<and> k < n + length cs \<and> (v, i) \<in> set (pairs_of (allocated_prime_related (cs ! (k - n))))"
  by (force simp: bundles_from_def in_set_enumerate_eq)

lemma bundles_of_cluster:
  "filter (\<lambda>b. fst b = k) (bundles_from n cs) =
   (if n \<le> k \<and> k < n + length cs then map (Pair k) (pairs_of (allocated_prime_related (cs ! (k - n)))) else [])"
proof (induction cs arbitrary: n)
  case Nil
  then show ?case by (auto simp: bundles_from_def)
next
  case (Cons c cs)
  have r: "filter (\<lambda>b. fst b = k) (map (Pair n) ps @ bs) = (if k = n then map (Pair n) ps else []) @ filter (\<lambda>b. fst b = k) bs" for ps bs
    by (auto simp: filter_map comp_def)
  show ?case unfolding bundles_from_Cons r Cons by (auto simp: nth_Cons' Suc_diff_Suc)
qed

lemma reserved_by_bundles:
  "reserved_by (bundles_from n cs) k =
   (if n \<le> k \<and> k < n + length cs then length (pairs_of (allocated_prime_related (cs ! (k - n)))) else 0)"
  by (simp add: reserved_by_def bundles_of_cluster)

subsection \<open>The contract of an allocator\<close>

text \<open>
  What the later stages rely on, whichever allocator ran: clusters in penalty order with only their resources changed,
  a legal ledger, an operator in at most one cluster, and only feasible pairs. \<open>trusted\<close> is what the allocator
  assumes of its own environment.
\<close>

definition unallocated :: "cluster_spec \<Rightarrow> cluster_spec" where
  "unallocated c = c\<lparr>allocated_prime_related := [], operator_ref := ''''\<rparr>"

definition feasible_for :: "alloc_input \<Rightarrow> cluster_spec \<Rightarrow> asset_pair \<Rightarrow> bool" where
  "feasible_for x c b \<longleftrightarrow>
     (\<exists>t\<in>set (task_ids c). \<exists>vi\<in>set (dget_default (ai_feasible x) t []). bundle_of x vi = Some b)"

definition staffed :: "cluster_spec list \<Rightarrow> string list" where
  "staffed cs = filter (\<lambda>p. p \<noteq> '''') (map operator_ref cs)"

locale allocator =
  fixes trusted :: bool
    and alloc :: "cluster_spec list \<Rightarrow> cluster_spec list option"
    and limit :: "cluster_spec \<Rightarrow> nat"
    and feasible :: "cluster_spec \<Rightarrow> asset_pair \<Rightarrow> bool"
  assumes keeps_clusters: "trusted \<Longrightarrow> alloc cs = Some cs' \<Longrightarrow> map unallocated cs' = map unallocated (by_penalty cs)"
    and ledger: "trusted \<Longrightarrow> alloc cs = Some cs' \<Longrightarrow> ledger (\<lambda>k. limit (cs' ! k)) (bundles_of cs')"
    and staff: "trusted \<Longrightarrow> alloc cs = Some cs' \<Longrightarrow> \<forall>c\<in>set cs. operator_ref c = '''' \<Longrightarrow> distinct (staffed cs')"
    and feasible: "trusted \<Longrightarrow> alloc cs = Some cs' \<Longrightarrow> c \<in> set cs' \<Longrightarrow> b \<in> set (pairs_of (allocated_prime_related c)) \<Longrightarrow> feasible c b"
begin

lemma implement_once:
  assumes "trusted" "alloc cs = Some cs'" "j < length cs'" "k < length cs'"
    and "(v, i) \<in> set (pairs_of (allocated_prime_related (cs' ! j)))" "(w, i) \<in> set (pairs_of (allocated_prime_related (cs' ! k)))"
  shows "j = k \<and> v = w"
proof -
  have "(j, v, i) \<in> set (bundles_of cs')" "(k, w, i) \<in> set (bundles_of cs')" using assms(3-) by (simp_all add: bundles_from_mem)
  moreover have "distinct (map (snd \<circ> snd) (bundles_of cs'))" using ledger [OF assms(1,2)] by (simp add: ledger_iff)
  ultimately show ?thesis by (force simp: distinct_map inj_on_def)
qed

lemma vehicle_in_two_clusters:
  "trusted \<Longrightarrow> alloc cs = Some cs' \<Longrightarrow> vehicle_uses (bundles_of cs') v \<le> 2"
  using ledger by (auto simp: ledger_iff max_vehicle_assignments_def)

lemma cluster_within_limit:
  assumes "trusted" "alloc cs = Some cs'" "k < length cs'"
  shows "length (pairs_of (allocated_prime_related (cs' ! k))) \<le> limit (cs' ! k)"
proof -
  from ledger [OF assms(1,2)] have "reserved_by (bundles_of cs') k \<le> limit (cs' ! k)" by (simp add: ledger_iff)
  with assms(3) show ?thesis by (simp add: reserved_by_bundles)
qed

lemmas exclusive = implement_once vehicle_in_two_clusters cluster_within_limit staff feasible

end

subsection \<open>The greedy reservation keeps the ledger\<close>

definition matches :: "allocation_state \<Rightarrow> reserved list \<Rightarrow> bool" where
  "matches st bs \<longleftrightarrow> set (claimed_implements st) = (snd \<circ> snd) ` set bs \<and>
     (\<forall>v. dget_default (vehicle_assignment_count st) v 0 = vehicle_uses bs v)"

lemma collect_keys:
  assumes "b \<in> fst ` set (collect_pair_candidates x st m orders)"
  shows "snd b \<notin> set (claimed_implements st)" "dget_default (vehicle_assignment_count st) (fst b) 0 < m"
    and "\<exists>order\<in>set orders. \<exists>vi\<in>set (dget_default (ai_feasible x) (task_id order) []). bundle_of x vi = Some b"
proof -
  define Q where "Q order vi b \<longleftrightarrow> bundle_of x vi = Some b \<and> snd b \<notin> set (claimed_implements st) \<and>
      dget_default (vehicle_assignment_count st) (fst b) 0 < m" for order :: task_row and vi b
  define P where "P candidates \<longleftrightarrow> (\<forall>b\<in>fst ` set candidates. \<exists>order\<in>set orders.
      \<exists>vi\<in>set (dget_default (ai_feasible x) (task_id order) []). Q order vi b)" for candidates :: "(asset_pair, real) dict"
  have "P (collect_pair_candidates x st m orders)"
    unfolding collect_pair_candidates_def
  proof (rule fold_invariant [where Q = "\<lambda>order. order \<in> set orders"])
    fix order candidates assume o: "order \<in> set orders" and p: "P candidates"
    show "P (fold (\<lambda>vi candidates. case bundle_of x vi of None \<Rightarrow> candidates
        | Some b \<Rightarrow> if snd b \<in> set (claimed_implements st) \<or> m \<le> dget_default (vehicle_assignment_count st) (fst b) 0
            then candidates else add_score x order vi b candidates)
        (dget_default (ai_feasible x) (task_id order) []) candidates)"
    proof (rule fold_invariant [where Q = "\<lambda>vi. vi \<in> set (dget_default (ai_feasible x) (task_id order) [])"])
      fix vi c assume vi: "vi \<in> set (dget_default (ai_feasible x) (task_id order) [])" and pc: "P c"
      show "P (case bundle_of x vi of None \<Rightarrow> c
          | Some b \<Rightarrow> if snd b \<in> set (claimed_implements st) \<or> m \<le> dget_default (vehicle_assignment_count st) (fst b) 0
              then c else add_score x order vi b c)"
      proof (cases "bundle_of x vi")
        case (Some b)
        show ?thesis
        proof (cases "snd b \<in> set (claimed_implements st) \<or> m \<le> dget_default (vehicle_assignment_count st) (fst b) 0")
          case False
          with Some o vi have "\<exists>order\<in>set orders. \<exists>vi\<in>set (dget_default (ai_feasible x) (task_id order) []). Q order vi b"
            by (auto simp: Q_def)
          with pc Some False show ?thesis by (simp add: P_def add_score_def keys_update)
        qed (use pc Some in simp)
      qed (use pc in simp)
    qed (use p in auto)
  qed (auto simp: P_def)
  with assms obtain order vi where "order \<in> set orders" "vi \<in> set (dget_default (ai_feasible x) (task_id order) [])" "Q order vi b"
    by (auto simp: P_def)
  then show "snd b \<notin> set (claimed_implements st)" "dget_default (vehicle_assignment_count st) (fst b) 0 < m"
    "\<exists>order\<in>set orders. \<exists>vi\<in>set (dget_default (ai_feasible x) (task_id order) []). bundle_of x vi = Some b"
    by (auto simp: Q_def)
qed

lemma pairs_of_Nil [simp]: "pairs_of [] = []"
  by (simp add: pairs_of_def)

lemma pairs_of_update_new: "v \<notin> fst ` set d \<Longrightarrow> pairs_of (AList.update v [i] d) = pairs_of d @ [(v, i)]"
  by (induction d) (auto simp: pairs_of_def)

lemma by_score_set: "set (by_score c) = set c"
  by (simp add: by_score_def)

text \<open>While one cluster reserves: \<open>bs0\<close> are the reservations of the others.\<close>

definition reserving ::
  "(nat \<Rightarrow> nat) \<Rightarrow> nat \<Rightarrow> reserved list \<Rightarrow> string list \<Rightarrow> string list \<Rightarrow> (string, string list) dict \<Rightarrow> allocation_state \<Rightarrow> bool" where
  "reserving limit n bs0 rv ri allocated st \<longleftrightarrow>
     (let own = map (Pair n) (pairs_of allocated) in
      ledger limit (own @ bs0) \<and> matches st (own @ bs0) \<and> length (pairs_of allocated) = length allocated \<and>
      set rv = fst ` set allocated \<and> set ri = snd ` set (pairs_of allocated) \<and> fst ` set (pairs_of allocated) = fst ` set allocated)"

lemma reserving_step:
  assumes inv: "reserving limit n bs0 rv ri allocated st" and others: "\<forall>b\<in>set bs0. fst b \<noteq> n"
    and new: "v \<notin> set rv" "i \<notin> set ri" "length allocated < limit n"
    and free: "i \<notin> (snd \<circ> snd) ` set bs0" "vehicle_uses bs0 v < max_vehicle_assignments"
  shows "reserving limit n bs0 (v # rv) (i # ri) (AList.update v [i] allocated)
    (st\<lparr>claimed_implements := i # claimed_implements st,
        vehicle_assignment_count :=
          AList.update v (dget_default (vehicle_assignment_count st) v 0 + 1) (vehicle_assignment_count st)\<rparr>)"
proof -
  let ?own = "map (Pair n) (pairs_of allocated)"
  have v: "v \<notin> fst ` set allocated" using inv new(1) by (simp add: reserving_def Let_def)
  then have nv: "v \<notin> fst ` set (pairs_of allocated)" using inv by (simp add: reserving_def Let_def)
  have ledger: "ledger limit (?own @ bs0)" and m: "matches st (?own @ bs0)"
    and len: "length (pairs_of allocated) = length allocated"
    using inv by (simp_all add: reserving_def Let_def)
  have uses: "vehicle_uses (?own @ bs0) w = length (filter (\<lambda>b. fst b = w) (pairs_of allocated)) + vehicle_uses bs0 w" for w
    by (simp add: vehicle_uses_def filter_map comp_def)
  have "filter (\<lambda>b. fst b = v) (pairs_of allocated) = []" using nv by (force simp: filter_empty_conv)
  then have "vehicle_uses (?own @ bs0) v < max_vehicle_assignments" using free(2) by (simp add: uses)
  moreover have "filter (\<lambda>b. fst b = n) bs0 = []" using others by (simp add: filter_empty_conv)
  then have "reserved_by (?own @ bs0) n < limit n"
    using new(3) len by (simp add: reserved_by_def filter_map comp_def)
  moreover have "i \<notin> (snd \<circ> snd) ` set (?own @ bs0)"
    using free(1) new(2) inv by (auto simp: reserving_def Let_def image_iff)
  moreover have "(n, v) \<notin> (\<lambda>b. (fst b, fst (snd b))) ` set (?own @ bs0)" using nv others by force
  ultimately have "ledger limit ((n, v, i) # ?own @ bs0)" using ledger by (intro ledger_reserve) auto
  then have 1: "ledger limit (map (Pair n) (pairs_of (AList.update v [i] allocated)) @ bs0)"
    by (rule ledger_mset [rotated]) (simp add: pairs_of_update_new [OF v])
  have 2: "matches (st\<lparr>claimed_implements := i # claimed_implements st,
        vehicle_assignment_count :=
          AList.update v (dget_default (vehicle_assignment_count st) v 0 + 1) (vehicle_assignment_count st)\<rparr>)
      (map (Pair n) (pairs_of (AList.update v [i] allocated)) @ bs0)"
    using m by (auto simp: matches_def pairs_of_update_new [OF v] vehicle_uses_def dget_default_def update_conv')
  have "map fst (AList.update v [i] allocated) = map fst allocated @ [v]"
    using v by (induction allocated) auto
  then have "length (AList.update v [i] allocated) = Suc (length allocated)" by (metis length_append_singleton length_map)
  with 1 2 inv show ?thesis
    by (simp add: reserving_def Let_def pairs_of_update_new [OF v] keys_update image_Un)
qed

lemma reserve_loop_inv:
  assumes others: "\<forall>b\<in>set bs0. fst b \<noteq> n"
    and free: "\<forall>((v, i), s)\<in>set items. i \<notin> (snd \<circ> snd) ` set bs0 \<and> vehicle_uses bs0 v < max_vehicle_assignments"
    and inv: "reserving (limits) n bs0 rv ri allocated st" and lim: "limit = limits n"
    and run: "reserve_loop limit items rv ri allocated st = (allocated', st')"
  shows "\<exists>rv' ri'. reserving limits n bs0 rv' ri' allocated' st'"
    and "set (pairs_of allocated') \<subseteq> set (pairs_of allocated) \<union> fst ` set items"
    and "claimed_operators st' = claimed_operators st"
proof -
  have "(\<exists>rv' ri'. reserving limits n bs0 rv' ri' allocated' st') \<and>
      set (pairs_of allocated') \<subseteq> set (pairs_of allocated) \<union> fst ` set items \<and> claimed_operators st' = claimed_operators st"
    using lim free inv run
  proof (induction limit items rv ri allocated st rule: reserve_loop.induct)
    case (2 limit v i s rest rv ri allocated st)
    show ?case
    proof (cases "length allocated \<ge> limit")
      case True
      with 2 show ?thesis by auto
    next
      case False
      show ?thesis
      proof (cases "v \<in> set rv \<or> i \<in> set ri")
        case True
        with False 2 show ?thesis by auto
      next
        case fresh: False
        have v: "v \<notin> fst ` set allocated" using fresh 2(5) by (simp add: reserving_def Let_def)
        have "reserving limits n bs0 (v # rv) (i # ri) (AList.update v [i] allocated)
            (st\<lparr>claimed_implements := i # claimed_implements st,
                vehicle_assignment_count :=
                  AList.update v (dget_default (vehicle_assignment_count st) v 0 + 1) (vehicle_assignment_count st)\<rparr>)"
          using 2(3,4,5) fresh False others by (intro reserving_step) auto
        from 2(2) [OF False fresh 2(3) _ this] 2(4,6) False fresh show ?thesis
          by (auto simp: pairs_of_update_new [OF v])
      qed
    qed
  qed auto
  then show "\<exists>rv' ri'. reserving limits n bs0 rv' ri' allocated' st'"
    "set (pairs_of allocated') \<subseteq> set (pairs_of allocated) \<union> fst ` set items" "claimed_operators st' = claimed_operators st"
    by blast+
qed

lemma unallocated_tasks: "unallocated c = unallocated d \<Longrightarrow> task_ids c = task_ids d"
  by (drule arg_cong [where f = task_ids]) (simp add: unallocated_def)

lemma assign_operator_spec:
  assumes "assign_operator rt x ops (c, st) = (c', st')"
  shows "unallocated c' = unallocated c" "allocated_prime_related c' = allocated_prime_related c"
    and "claimed_implements st' = claimed_implements st" "vehicle_assignment_count st' = vehicle_assignment_count st"
    and "c' = c \<and> st' = st \<or> operator_ref c' \<notin> set (claimed_operators st) \<and>
      claimed_operators st' = operator_ref c' # claimed_operators st"
proof -
  have "p \<in> set (available_operators x st depot) \<Longrightarrow> op_asset_id p \<notin> set (claimed_operators st)" for p depot
    by (auto simp: available_operators_def Let_def split: if_splits)
  with assms show "unallocated c' = unallocated c" "allocated_prime_related c' = allocated_prime_related c"
    "claimed_implements st' = claimed_implements st" "vehicle_assignment_count st' = vehicle_assignment_count st"
    "c' = c \<and> st' = st \<or> operator_ref c' \<notin> set (claimed_operators st) \<and>
      claimed_operators st' = operator_ref c' # claimed_operators st"
    by (auto simp: assign_operator_def unallocated_def split: option.splits dest!: max_by_Some)
qed

lemma index_orders_id: "index_orders orders t = Some r \<Longrightarrow> task_id r = t"
  by (auto simp: index_orders_def dest!: map_of_SomeD)

lemma cluster_orders_ids: "r \<in> set (cluster_orders orders c) \<Longrightarrow> task_id r \<in> set (task_ids c)"
  by (auto simp: cluster_orders_def map_filter_def index_orders_id)

lemma allocate_cluster_spec:
  assumes run: "allocate_cluster cfg rt x orders (c, st) = (c', st')"
    and led: "ledger limits bs" "matches st bs" "\<forall>b\<in>set bs. fst b \<noteq> n"
    and lim: "limits n = cluster_resource_limit cfg (cluster_orders orders c)"
  shows "unallocated c' = unallocated c"
    and "ledger limits (map (Pair n) (pairs_of (allocated_prime_related c')) @ bs)"
    and "matches st' (map (Pair n) (pairs_of (allocated_prime_related c')) @ bs)"
    and "b \<in> set (pairs_of (allocated_prime_related c')) \<Longrightarrow> feasible_for x c' b"
    and "operator_ref c' = operator_ref c \<and> claimed_operators st' = claimed_operators st \<or>
      operator_ref c' \<notin> set (claimed_operators st) \<and> claimed_operators st' = operator_ref c' # claimed_operators st"
proof -
  define own where "own = cluster_orders orders c"
  define candidates where cand: "candidates = (if collect_pair_candidates x st 1 own = []
    then collect_pair_candidates x st max_vehicle_assignments own else collect_pair_candidates x st 1 own)"
  have "\<exists>m\<le>max_vehicle_assignments. candidates = collect_pair_candidates x st m own"
    by (auto simp: cand max_vehicle_assignments_def intro: exI [of _ 1] exI [of _ 2])
  then obtain m where m: "m \<le> max_vehicle_assignments" "candidates = collect_pair_candidates x st m own" by blast
  obtain allocated st1 where res: "reserve_best_candidates candidates (cluster_resource_limit cfg own) st = (allocated, st1)"
    by fastforce
  obtain c2 st2 where assign: "assign_operator rt x (map operation_type own) (c, st1) = (c2, st2)" by fastforce
  have "allocate_cluster cfg rt x orders (c, st) = (c2\<lparr>allocated_prime_related := allocated\<rparr>, st2)"
    unfolding allocate_cluster_def Let_def prod.case own_def [symmetric] cand [symmetric] res assign by (rule refl)
  with run have c': "c' = c2\<lparr>allocated_prime_related := allocated\<rparr>" "st' = st2" by simp_all
  note op = assign_operator_spec [OF assign]
  have start: "reserving limits n bs [] [] [] st" using led(1,2) by (simp add: reserving_def pairs_of_def)
  have free: "\<forall>((v, i), s)\<in>set (by_score candidates). i \<notin> (snd \<circ> snd) ` set bs \<and> vehicle_uses bs v < max_vehicle_assignments"
  proof (clarify)
    fix v i s assume "((v, i), s) \<in> set (by_score candidates)"
    then have k: "(v, i) \<in> fst ` set (collect_pair_candidates x st m own)" by (force simp: by_score_set m(2))
    from collect_keys(1,2) [OF k] led(2) m(1)
    show "i \<notin> (snd \<circ> snd) ` set bs \<and> vehicle_uses bs v < max_vehicle_assignments" by (simp add: matches_def)
  qed
  note loop = reserve_loop_inv [OF led(3) free start _ res [unfolded reserve_best_candidates_def], folded own_def]
  have lim': "cluster_resource_limit cfg own = limits n" by (simp add: lim own_def)
  from loop(1) [OF lim'] have inv: "ledger limits (map (Pair n) (pairs_of allocated) @ bs)"
    "matches st1 (map (Pair n) (pairs_of allocated) @ bs)"
    by (auto simp: reserving_def Let_def)
  show "unallocated c' = unallocated c" using op(1) by (simp add: c' unallocated_def)
  show "ledger limits (map (Pair n) (pairs_of (allocated_prime_related c')) @ bs)" using inv(1) by (simp add: c')
  show "matches st' (map (Pair n) (pairs_of (allocated_prime_related c')) @ bs)"
    using inv(2) op(3,4) by (simp add: c' matches_def)
  show "feasible_for x c' b" if b: "b \<in> set (pairs_of (allocated_prime_related c'))"
  proof -
    from b loop(2) [OF lim'] have "b \<in> fst ` set (collect_pair_candidates x st m own)"
      using pairs_of_Nil by (auto simp: c' by_score_set m(2))
    from collect_keys(3) [OF this] obtain r vi where "r \<in> set own" "vi \<in> set (dget_default (ai_feasible x) (task_id r) [])"
      "bundle_of x vi = Some b" by blast
    moreover have "task_ids c' = task_ids c" using unallocated_tasks [OF op(1)] by (simp add: c')
    ultimately show ?thesis using cluster_orders_ids [of r orders c] unfolding feasible_for_def own_def by auto
  qed
  show "operator_ref c' = operator_ref c \<and> claimed_operators st' = claimed_operators st \<or>
      operator_ref c' \<notin> set (claimed_operators st) \<and> claimed_operators st' = operator_ref c' # claimed_operators st"
    using op(5) loop(3) [OF lim'] by (auto simp: c')
qed

lemma allocate_clusters_spec:
  assumes "ledger limits bs" "matches st bs" "\<forall>b\<in>set bs. fst b < n"
    and "\<forall>k<length cs. limits (n + k) = cluster_resource_limit cfg (cluster_orders orders (cs ! k))"
    and "cs' = allocate_clusters cfg rt x orders cs st"
  shows "map unallocated cs' = map unallocated cs \<and> ledger limits (bundles_from n cs' @ bs) \<and>
    (\<forall>c\<in>set cs'. \<forall>b\<in>set (pairs_of (allocated_prime_related c)). feasible_for x c b) \<and>
    ((\<forall>c\<in>set cs. operator_ref c = '''') \<longrightarrow> distinct (staffed cs') \<and> set (staffed cs') \<inter> set (claimed_operators st) = {})"
  using assms
proof (induction cs arbitrary: n bs st cs')
  case Nil
  then show ?case by (simp add: bundles_from_def staffed_def)
next
  case (Cons c cs)
  obtain c' st' where run: "allocate_cluster cfg rt x orders (c, st) = (c', st')" by fastforce
  define ds where "ds = allocate_clusters cfg rt x orders cs st'"
  have cs': "cs' = c' # ds" using Cons.prems(5) run by (simp add: ds_def)
  have "\<forall>b\<in>set bs. fst b \<noteq> n" "limits n = cluster_resource_limit cfg (cluster_orders orders c)"
    using Cons.prems(3,4) by auto
  note one = allocate_cluster_spec [OF run Cons.prems(1,2) this]
  let ?bs = "map (Pair n) (pairs_of (allocated_prime_related c')) @ bs"
  have "\<forall>b\<in>set ?bs. fst b < Suc n" using Cons.prems(3) by auto
  moreover have "\<forall>k<length cs. limits (Suc n + k) = cluster_resource_limit cfg (cluster_orders orders (cs ! k))"
  proof (intro allI impI)
    fix k assume "k < length cs"
    with Cons.prems(4) [rule_format, of "Suc k"]
    show "limits (Suc n + k) = cluster_resource_limit cfg (cluster_orders orders (cs ! k))" by simp
  qed
  ultimately have ih: "map unallocated ds = map unallocated cs \<and> ledger limits (bundles_from (Suc n) ds @ ?bs) \<and>
    (\<forall>c\<in>set ds. \<forall>b\<in>set (pairs_of (allocated_prime_related c)). feasible_for x c b) \<and>
    ((\<forall>c\<in>set cs. operator_ref c = '''') \<longrightarrow> distinct (staffed ds) \<and> set (staffed ds) \<inter> set (claimed_operators st') = {})"
    by (intro Cons.IH [OF one(2,3)] ds_def)
  have "ledger limits (bundles_from n cs' @ bs)"
    by (rule ledger_mset [of "bundles_from (Suc n) ds @ ?bs"]) (use ih in \<open>simp_all add: cs' bundles_from_Cons\<close>)
  moreover have "distinct (staffed cs') \<and> set (staffed cs') \<inter> set (claimed_operators st) = {}"
    if "\<forall>c\<in>set (c # cs). operator_ref c = ''''"
    using that ih one(5) by (auto simp: cs' staffed_def)
  ultimately show ?case using ih one(1,4) by (auto simp: cs')
qed

lemma limit_unallocated: "unallocated c = unallocated d \<Longrightarrow> cluster_orders orders c = cluster_orders orders d"
  by (simp add: cluster_orders_def unallocated_tasks [of c d])

lemma same_limits:
  assumes "map unallocated cs' = map unallocated cs"
  shows "length cs' = length cs" "\<And>k. k < length cs \<Longrightarrow> cluster_orders orders (cs' ! k) = cluster_orders orders (cs ! k)"
proof -
  show len: "length cs' = length cs" using assms by (metis length_map)
  show "cluster_orders orders (cs' ! k) = cluster_orders orders (cs ! k)" if "k < length cs" for k
    using that assms len by (intro limit_unallocated) (metis nth_map)
qed

lemma ledger_cong:
  assumes "\<And>b. b \<in> set bs \<Longrightarrow> limits (fst b) = limits' (fst b)" "ledger limits bs"
  shows "ledger limits' bs"
proof -
  have "reserved_by bs k \<le> limits' k" if "\<forall>k. reserved_by bs k \<le> limits k" for k
  proof (cases "k \<in> fst ` set bs")
    case True
    with assms(1) that show ?thesis by (metis imageE)
  next
    case False
    then have "reserved_by bs k = 0" by (force simp: reserved_by_def filter_empty_conv)
    then show ?thesis by simp
  qed
  with assms(2) show ?thesis by (simp add: ledger_iff)
qed

lemma ledger_same_limits:
  assumes "map unallocated cs' = map unallocated cs"
    and "ledger (\<lambda>k. cluster_resource_limit cfg (cluster_orders orders (cs ! k))) (bundles_of cs')"
  shows "ledger (\<lambda>k. cluster_resource_limit cfg (cluster_orders orders (cs' ! k))) (bundles_of cs')"
proof (rule ledger_cong [OF _ assms(2)])
  fix b assume "b \<in> set (bundles_of cs')"
  moreover obtain k v i where "b = (k, v, i)" by (cases b) auto
  ultimately have "fst b < length cs" using same_limits(1) [OF assms(1)] by (simp add: bundles_from_mem)
  then show "cluster_resource_limit cfg (cluster_orders orders (cs ! fst b))
      = cluster_resource_limit cfg (cluster_orders orders (cs' ! fst b))"
    by (simp only: same_limits(2) [OF assms(1)])
qed

abbreviation limit_for :: "alloc_config \<Rightarrow> task_row list \<Rightarrow> cluster_spec \<Rightarrow> nat" where
  "limit_for cfg orders c \<equiv> cluster_resource_limit cfg (cluster_orders orders c)"

lemma by_penalty_set: "set (by_penalty cs) = set cs"
  by (simp add: by_penalty_def)

interpretation greedy: allocator True "\<lambda>cs. Some (allocate_resources_greedy cfg rt x orders cs)" "limit_for cfg orders"
  "feasible_for x" for cfg rt x orders
proof -
  have "map unallocated cs' = map unallocated (by_penalty cs) \<and> ledger (\<lambda>k. limit_for cfg orders (cs' ! k)) (bundles_of cs') \<and>
      ((\<forall>c\<in>set cs. operator_ref c = '''') \<longrightarrow> distinct (staffed cs')) \<and>
      (\<forall>c\<in>set cs'. \<forall>b\<in>set (pairs_of (allocated_prime_related c)). feasible_for x c b)"
    if cs': "cs' = allocate_resources_greedy cfg rt x orders cs" for cs cs'
  proof -
    let ?limits = "\<lambda>k. limit_for cfg orders (by_penalty cs ! k)"
    have "matches initial_state []" by (simp add: matches_def initial_state_def dget_default_def vehicle_uses_def)
    then have spec: "map unallocated cs' = map unallocated (by_penalty cs) \<and> ledger ?limits (bundles_of cs' @ []) \<and>
      (\<forall>c\<in>set cs'. \<forall>b\<in>set (pairs_of (allocated_prime_related c)). feasible_for x c b) \<and>
      ((\<forall>c\<in>set (by_penalty cs). operator_ref c = '''') \<longrightarrow>
        distinct (staffed cs') \<and> set (staffed cs') \<inter> set (claimed_operators initial_state) = {})"
      by (intro allocate_clusters_spec [where limits = ?limits and cfg = cfg and rt = rt and orders = orders])
        (simp_all add: ledger_empty cs' allocate_resources_greedy_def)
    then have "map unallocated cs' = map unallocated (by_penalty cs)" "ledger ?limits (bundles_of cs')" by simp_all
    then have "ledger (\<lambda>k. limit_for cfg orders (cs' ! k)) (bundles_of cs')" by (rule ledger_same_limits)
    with spec show ?thesis by (simp only: by_penalty_set) blast
  qed
  note spec = this [OF refl]
  show "allocator True (\<lambda>cs. Some (allocate_resources_greedy cfg rt x orders cs)) (limit_for cfg orders) (feasible_for x)"
    by unfold_locales (metis spec option.inject)+
qed

subsection \<open>The global model keeps the ledger\<close>

text \<open>What is used of CP-SAT: a solution it returns satisfies every constraint.\<close>

definition cp_sound :: "(cp_model \<Rightarrow> (cp_var \<Rightarrow> bool) option) \<Rightarrow> bool" where
  "cp_sound cp_sat \<longleftrightarrow> (\<forall>m s. cp_sat m = Some s \<longrightarrow> satisfies m s)"

lemma dget_grouped:
  "dget_default (fold (\<lambda>x. dappend (key x) x) vars d) k [] = dget_default d k [] @ filter (\<lambda>x. key x = k) vars"
  by (induction vars arbitrary: d) (simp_all add: dget_default_dappend)

lemma grouped_limits_bound:
  assumes "\<forall>(g, b)\<in>set (grouped_limits key bound vars). length (filter s g) \<le> b"
  shows "length (filter (\<lambda>x. s x \<and> key x = k) vars) \<le> bound"
proof (cases "map_of (fold (\<lambda>x. dappend (key x) x) vars []) k")
  case None
  with dget_grouped [of key vars "[]" k] have "filter (\<lambda>x. key x = k) vars = []" by (simp add: dget_default_def)
  then have "filter s (filter (\<lambda>x. key x = k) vars) = []" by simp
  then show ?thesis by (simp add: filter_filter conj_commute)
next
  case (Some g)
  with dget_grouped [of key vars "[]" k] have g: "g = filter (\<lambda>x. key x = k) vars" by (simp add: dget_default_def)
  have "(g, bound) \<in> set (grouped_limits key bound vars)"
    unfolding grouped_limits_def using map_of_SomeD [OF Some] by force
  with assms have "length (filter s g) \<le> bound" by blast
  then show ?thesis by (simp add: g filter_filter conj_commute)
qed

lemma distinct_by_count:
  "(\<forall>k. length (filter (\<lambda>x. key x = k) xs) \<le> 1) \<Longrightarrow> distinct (map key xs)"
proof (induction xs)
  case (Cons x xs)
  have "length (filter (\<lambda>y. key y = key x) (x # xs)) \<le> 1" using Cons.prems by blast
  then have "key x \<notin> key ` set xs" by (auto simp: filter_empty_conv)
  moreover have "\<forall>k. length (filter (\<lambda>x. key x = k) xs) \<le> 1"
    using Cons.prems by (metis (mono_tags, lifting) filter.simps(2) le_Suc_eq length_Cons Suc_leD)
  ultimately show ?case using Cons.IH by simp
qed simp

lemma chosen_pairs:
  "distinct (map fst (filter P (map fst xs))) \<Longrightarrow> fst ` set (filter P (map fst xs)) \<inter> fst ` set d = {} \<Longrightarrow>
   pairs_of (fold (\<lambda>((v, i), s) d. if P (v, i) then AList.update v [i] d else d) xs d) = pairs_of d @ filter P (map fst xs)"
proof (induction xs arbitrary: d)
  case (Cons x xs)
  obtain v i s where x: "x = ((v, i), s)" by (cases x) auto
  show ?case
  proof (cases "P (v, i)")
    case True
    with Cons.prems x have v: "v \<notin> fst ` set d" by auto
    have "pairs_of (fold (\<lambda>((v, i), s) d. if P (v, i) then AList.update v [i] d else d) xs (AList.update v [i] d))
        = pairs_of (AList.update v [i] d) @ filter P (map fst xs)"
      using Cons.prems True x by (intro Cons.IH) (auto simp: keys_update)
    with True x show ?thesis by (simp add: pairs_of_update_new [OF v])
  next
    case False
    with Cons x show ?thesis by simp
  qed
qed simp

lemma apply_solution_core:
  "unallocated (apply_solution chosen operators (k, cc)) = unallocated (cc_cluster cc)"
  "allocated_prime_related (apply_solution chosen operators (k, cc)) =
     fold (\<lambda>((v, i), s) d. if chosen (PairVar k v i) then AList.update v [i] d else d) (sort (cc_candidates cc)) []"
  "operator_ref (apply_solution chosen operators (k, cc)) = operator_ref (cc_cluster cc) \<or>
     (\<exists>p\<in>set operators. operator_ref (apply_solution chosen operators (k, cc)) = op_asset_id p \<and> chosen (OperatorVar k (op_asset_id p)))"
proof -
  let ?f = "\<lambda>p c. if chosen (OperatorVar k (op_asset_id p)) then c\<lparr>operator_ref := op_asset_id p\<rparr> else c"
  have core: "unallocated (fold ?f ops c) = unallocated c" "allocated_prime_related (fold ?f ops c) = allocated_prime_related c" for ops c
    by (induction ops arbitrary: c) (simp_all add: unallocated_def)
  have chosen: "operator_ref (fold ?f ops c) = operator_ref c \<or>
       (\<exists>p\<in>set ops. operator_ref (fold ?f ops c) = op_asset_id p \<and> chosen (OperatorVar k (op_asset_id p)))" for ops c
  proof (induction ops arbitrary: c)
    case (Cons p ops)
    from Cons.IH [of "?f p c"] show ?case by (cases "chosen (OperatorVar k (op_asset_id p))") auto
  qed simp
  show "unallocated (apply_solution chosen operators (k, cc)) = unallocated (cc_cluster cc)"
    by (simp add: apply_solution_def Let_def core) (simp add: unallocated_def)
  show "allocated_prime_related (apply_solution chosen operators (k, cc)) =
     fold (\<lambda>((v, i), s) d. if chosen (PairVar k v i) then AList.update v [i] d else d) (sort (cc_candidates cc)) []"
    by (simp add: apply_solution_def Let_def core)
  let ?c = "(cc_cluster cc)\<lparr>allocated_prime_related :=
    fold (\<lambda>((v, i), s) d. if chosen (PairVar k v i) then AList.update v [i] d else d) (sort (cc_candidates cc)) []\<rparr>"
  have "apply_solution chosen operators (k, cc) = fold ?f operators ?c" by (simp only: apply_solution_def Let_def prod.case)
  with chosen [of operators ?c] show "operator_ref (apply_solution chosen operators (k, cc)) = operator_ref (cc_cluster cc) \<or>
     (\<exists>p\<in>set operators. operator_ref (apply_solution chosen operators (k, cc)) = op_asset_id p \<and> chosen (OperatorVar k (op_asset_id p)))"
    by simp
qed

text \<open>The variables of one cluster and of all clusters.\<close>

abbreviation cluster_vars :: "nat \<Rightarrow> cluster_candidates \<Rightarrow> cp_var list" where
  "cluster_vars k cc \<equiv> map fst (cluster_pairs (k, cc))"

abbreviation pair_vars :: "cluster_candidates list \<Rightarrow> cp_var list" where
  "pair_vars ccs \<equiv> concat (map (map fst) (map cluster_pairs (enumerate 0 ccs)))"

definition own_limits :: "cluster_candidates \<times> (cp_var \<times> real) list \<Rightarrow> (cp_var list \<times> nat) list" where
  "own_limits = (\<lambda>(cc, vars). (if vars = [] then [] else [(map fst vars, cc_limit cc)]) @ grouped_limits var_vehicle 1 (map fst vars))"

lemma set_concat_map: "z \<in> set xs \<Longrightarrow> set (f z) \<subseteq> set (concat (map f xs) @ rest)"
  by auto

lemma pair_block_limits:
  assumes "concat (map (\<lambda>cc. map snd (cc_candidates cc)) ccs) \<noteq> []"
  shows "cp_limits (add_pair_assignment_block cfg ccs) =
    concat (map own_limits (zip ccs (map cluster_pairs (enumerate 0 ccs)))) @
    grouped_limits var_implement 1 (pair_vars ccs) @ grouped_limits var_vehicle max_vehicle_assignments (pair_vars ccs)"
  by (simp only: add_pair_assignment_block_def Let_def assms if_False cp_model.select_convs own_limits_def)

lemma pair_block:
  assumes "satisfies (add_pair_assignment_block cfg ccs) s"
  shows "k < length ccs \<Longrightarrow> length (filter s (cluster_vars k (ccs ! k))) \<le> cc_limit (ccs ! k)"
    and "k < length ccs \<Longrightarrow> length (filter (\<lambda>y. s y \<and> var_vehicle y = v) (cluster_vars k (ccs ! k))) \<le> 1"
    and "length (filter (\<lambda>y. s y \<and> var_implement y = i) (pair_vars ccs)) \<le> 1"
    and "length (filter (\<lambda>y. s y \<and> var_vehicle y = v) (pair_vars ccs)) \<le> max_vehicle_assignments"
proof -
  let ?per = "map cluster_pairs (enumerate 0 ccs)"
  have "length (filter s (cluster_vars k (ccs ! k))) \<le> cc_limit (ccs ! k) \<and>
      length (filter (\<lambda>y. s y \<and> var_vehicle y = v) (cluster_vars k (ccs ! k))) \<le> 1" if k: "k < length ccs" for k
  proof (cases "concat (map (\<lambda>cc. map snd (cc_candidates cc)) ccs) = []")
    case True
    with k have "cc_candidates (ccs ! k) = []" by auto
    then show ?thesis by (simp add: cluster_pairs_def)
  next
    case False
    note limits = pair_block_limits [OF this, of cfg]
    have "?per ! k = cluster_pairs (k, ccs ! k)" using k by (simp add: nth_enumerate_eq)
    then have "(ccs ! k, cluster_pairs (k, ccs ! k)) \<in> set (zip ccs ?per)" using k by (force simp: in_set_zip)
    then have own: "set (own_limits (ccs ! k, cluster_pairs (k, ccs ! k))) \<subseteq> set (cp_limits (add_pair_assignment_block cfg ccs))"
      unfolding limits by (rule set_concat_map)
    then have "\<forall>(g, b)\<in>set (grouped_limits var_vehicle 1 (cluster_vars k (ccs ! k))). length (filter s g) \<le> b"
      using assms by (auto simp: satisfies_def own_limits_def)
    note vehicle = grouped_limits_bound [OF this]
    show ?thesis
    proof (cases "cluster_pairs (k, ccs ! k) = []")
      case False
      with own assms have "length (filter s (cluster_vars k (ccs ! k))) \<le> cc_limit (ccs ! k)" by (auto simp: satisfies_def own_limits_def)
      with vehicle show ?thesis by simp
    qed simp
  qed
  then show "k < length ccs \<Longrightarrow> length (filter s (cluster_vars k (ccs ! k))) \<le> cc_limit (ccs ! k)"
    "k < length ccs \<Longrightarrow> length (filter (\<lambda>y. s y \<and> var_vehicle y = v) (cluster_vars k (ccs ! k))) \<le> 1" by blast+
  have "length (filter (\<lambda>y. s y \<and> var_implement y = i) (pair_vars ccs)) \<le> 1 \<and>
      length (filter (\<lambda>y. s y \<and> var_vehicle y = v) (pair_vars ccs)) \<le> max_vehicle_assignments"
  proof (cases "concat (map (\<lambda>cc. map snd (cc_candidates cc)) ccs) = []")
    case True
    then have "cluster_pairs kc = []" if "kc \<in> set (enumerate 0 ccs)" for kc
      using that by (cases kc) (auto simp: cluster_pairs_def in_set_enumerate_eq)
    then have "pair_vars ccs = []" by auto
    show ?thesis unfolding \<open>pair_vars ccs = []\<close> by simp
  next
    case False
    with assms have "\<forall>(g, b)\<in>set (grouped_limits var_implement 1 (pair_vars ccs)). length (filter s g) \<le> b"
      "\<forall>(g, b)\<in>set (grouped_limits var_vehicle max_vehicle_assignments (pair_vars ccs)). length (filter s g) \<le> b"
      unfolding satisfies_def pair_block_limits [OF False] set_append ball_Un by blast+
    from grouped_limits_bound [OF this(1)] grouped_limits_bound [OF this(2)] show ?thesis by blast
  qed
  then show "length (filter (\<lambda>y. s y \<and> var_implement y = i) (pair_vars ccs)) \<le> 1"
    "length (filter (\<lambda>y. s y \<and> var_vehicle y = v) (pair_vars ccs)) \<le> max_vehicle_assignments" by blast+
qed

text \<open>The chosen pairs of a cluster.\<close>

definition chosen_for :: "(cp_var \<Rightarrow> bool) \<Rightarrow> nat \<Rightarrow> cluster_candidates \<Rightarrow> asset_pair list" where
  "chosen_for s k cc = filter (\<lambda>b. s (PairVar k (fst b) (snd b))) (map fst (sort (cc_candidates cc)))"

lemma filter_cluster_vars: "filter s (cluster_vars k cc) = map (\<lambda>b. PairVar k (fst b) (snd b)) (chosen_for s k cc)"
  by (simp add: cluster_pairs_def chosen_for_def filter_map comp_def split_beta)

lemma pairs_applied:
  assumes "\<And>v. length (filter (\<lambda>y. s y \<and> var_vehicle y = v) (cluster_vars k cc)) \<le> 1"
  shows "pairs_of (allocated_prime_related (apply_solution s operators (k, cc))) = chosen_for s k cc"
    and "distinct (map fst (chosen_for s k cc))"
proof -
  have "length (filter (\<lambda>b. fst b = v) (chosen_for s k cc)) \<le> 1" for v
  proof -
    have "filter (\<lambda>y. s y \<and> var_vehicle y = v) (cluster_vars k cc) = filter (\<lambda>y. var_vehicle y = v) (filter s (cluster_vars k cc))"
      by (simp add: filter_filter conj_commute)
    also have "\<dots> = map (\<lambda>b. PairVar k (fst b) (snd b)) (filter (\<lambda>b. fst b = v) (chosen_for s k cc))"
      by (simp only: filter_cluster_vars) (simp add: filter_map comp_def)
    finally show ?thesis using assms [of v] by simp
  qed
  then show d: "distinct (map fst (chosen_for s k cc))" by (intro distinct_by_count) blast
  have eq: "(\<lambda>((v, i), sc) d. if s (PairVar k v i) then AList.update v [i] d else d)
      = (\<lambda>((v, i), sc) d. if (\<lambda>b. s (PairVar k (fst b) (snd b))) (v, i) then AList.update v [i] d else d)"
    by (auto simp: fun_eq_iff)
  show "pairs_of (allocated_prime_related (apply_solution s operators (k, cc))) = chosen_for s k cc"
    unfolding apply_solution_core(2) eq
    by (subst chosen_pairs) (use d in \<open>simp_all add: chosen_for_def\<close>)
qed

lemma bundles_applied:
  assumes "\<And>k v. k < length ccs \<Longrightarrow> length (filter (\<lambda>y. s y \<and> var_vehicle y = v) (cluster_vars (n + k) (ccs ! k))) \<le> 1"
  shows "map (\<lambda>b. PairVar (fst b) (fst (snd b)) (snd (snd b))) (bundles_from n (map (apply_solution s operators) (enumerate n ccs))) =
    filter s (concat (map (map fst) (map cluster_pairs (enumerate n ccs))))"
  using assms
proof (induction ccs arbitrary: n)
  case Nil
  then show ?case by (simp add: bundles_from_def)
next
  case (Cons cc ccs)
  from Cons.prems [of 0] have 1: "pairs_of (allocated_prime_related (apply_solution s operators (n, cc))) = chosen_for s n cc"
    by (intro pairs_applied(1)) simp
  have "length (filter (\<lambda>y. s y \<and> var_vehicle y = v) (cluster_vars (Suc n + k) (ccs ! k))) \<le> 1" if "k < length ccs" for k v
    using Cons.prems [of "Suc k" v] that by simp
  from Cons.IH [OF this] show ?case
    by (simp add: bundles_from_Cons 1 filter_cluster_vars comp_def)
qed

lemma distinct_nonempty:
  "(\<And>j k. j < k \<Longrightarrow> k < length xs \<Longrightarrow> f (xs ! j) \<noteq> '''' \<Longrightarrow> f (xs ! j) \<noteq> f (xs ! k)) \<Longrightarrow>
   distinct (filter (\<lambda>p. p \<noteq> '''') (map f xs))"
proof (induction xs)
  case (Cons x xs)
  have "f x \<noteq> '''' \<Longrightarrow> f x \<notin> f ` set xs"
    using Cons.prems [of 0 "Suc _"] by (force simp: in_set_conv_nth)
  moreover have "distinct (filter (\<lambda>p. p \<noteq> '''') (map f xs))"
    using Cons.prems [of "Suc _" "Suc _"] by (intro Cons.IH) force
  ultimately show ?case by simp
qed simp

lemma operator_block:
  assumes "satisfies (add_operator_assignment_block rt free operators ccs) s"
    and "j < length ccs" "k < length ccs" "j \<noteq> k" "p \<in> set operators" "q \<in> set operators" "op_asset_id p = op_asset_id q"
    and "s (OperatorVar j (op_asset_id p))" "s (OperatorVar k (op_asset_id q))"
  shows False
proof -
  define rewards where "rewards = concat (map (\<lambda>(k, cc). map (\<lambda>p. (OperatorVar k (op_asset_id p), operator_reward rt free cc p)) operators)
    (enumerate 0 ccs))"
  have "operators = [] \<or> ccs = [] \<longleftrightarrow> False" using assms(2,5) by auto
  then have "set (grouped_limits var_vehicle 1 (map fst rewards)) \<subseteq> set (cp_limits (add_operator_assignment_block rt free operators ccs))"
    unfolding add_operator_assignment_block_def rewards_def by (simp add: Let_def)
  with assms(1) have "\<forall>(g, b)\<in>set (grouped_limits var_vehicle 1 (map fst rewards)). length (filter s g) \<le> b"
    unfolding satisfies_def by blast
  note one = grouped_limits_bound [OF this, of "op_asset_id p"]
  have mem: "OperatorVar m (op_asset_id r) \<in> set (map fst rewards)" if "m < length ccs" "r \<in> set operators" for m r
    using that by (force simp: rewards_def in_set_enumerate_eq)
  let ?ys = "filter (\<lambda>x. s x \<and> var_vehicle x = op_asset_id p) (map fst rewards)"
  have "{OperatorVar j (op_asset_id p), OperatorVar k (op_asset_id q)} \<subseteq> set ?ys"
    using mem [OF assms(2,5)] mem [OF assms(3,6)] assms(7-9) by simp
  then have "card {OperatorVar j (op_asset_id p), OperatorVar k (op_asset_id q)} \<le> length ?ys"
    by (meson card_length card_mono finite_set le_trans)
  with one assms(4) show False by simp
qed

lemma truncate_keys: "fst ` set (truncate_with_diversity cfg c) \<subseteq> fst ` set c"
proof -
  have "fst ` set (truncate_loop cfg items vc ic kept) \<subseteq> fst ` set items \<union> fst ` set kept" for items vc ic kept
    by (induction cfg items vc ic kept rule: truncate_loop.induct) (auto simp: keys_update split: if_splits)
  from this [of "by_score c" "[]" "[]" "[]"] show ?thesis by (simp add: truncate_with_diversity_def by_score_set)
qed

lemma cc_candidates_eq:
  "cc_candidates (collect_cluster_candidates cfg x orders c) =
   truncate_with_diversity cfg (collect_pair_candidates x initial_state 1 (cluster_orders orders c))"
proof -
  have "fold (\<lambda>order. fold (\<lambda>vi cand. case bundle_of x vi of None \<Rightarrow> cand | Some b \<Rightarrow> add_score x order vi b cand)
      (dget_default (ai_feasible x) (task_id order) [])) own [] = collect_pair_candidates x initial_state 1 own" for own
    by (simp add: collect_pair_candidates_def initial_state_def dget_default_def [where k = "fst _"] cong: option.case_cong)
  then show ?thesis by (simp only: collect_cluster_candidates_def Let_def cluster_candidates.select_convs)
qed

lemma candidates_feasible:
  assumes "b \<in> fst ` set (cc_candidates (collect_cluster_candidates cfg x orders c))"
  shows "feasible_for x c b"
proof -
  have "b \<in> fst ` set (collect_pair_candidates x initial_state 1 (cluster_orders orders c))"
    by (rule subsetD [OF truncate_keys assms [unfolded cc_candidates_eq]])
  from collect_keys(3) [OF this] cluster_orders_ids [of _ orders c] show ?thesis unfolding feasible_for_def by metis
qed

lemma global_solution_ok:
  assumes sat: "satisfies (global_model cfg rt x ccs) s"
    and ccs: "ccs = map (collect_cluster_candidates cfg x orders) (by_penalty cs)"
    and cs': "cs' = map (apply_solution s (ai_operators x)) (enumerate 0 ccs)"
  shows "map unallocated cs' = map unallocated (by_penalty cs)"
    and "ledger (\<lambda>k. limit_for cfg orders (by_penalty cs ! k)) (bundles_of cs')"
    and "\<forall>c\<in>set cs. operator_ref c = '''' \<Longrightarrow> distinct (staffed cs')"
    and "c \<in> set cs' \<Longrightarrow> b \<in> set (pairs_of (allocated_prime_related c)) \<Longrightarrow> feasible_for x c b"
proof -
  let ?ops = "ai_operators x"
  have pairs: "satisfies (add_pair_assignment_block cfg ccs) s"
    and ops: "satisfies (add_operator_assignment_block rt (ai_free x) ?ops ccs) s"
    using sat by (auto simp: satisfies_def global_model_def Let_def)
  note block = pair_block [OF pairs]
  have len: "length cs' = length ccs" "length ccs = length (by_penalty cs)" by (simp_all add: cs' ccs)
  have nth: "cs' ! k = apply_solution s ?ops (k, ccs ! k)" if "k < length ccs" for k
    using that by (simp add: cs' nth_enumerate_eq)
  have cc: "cc_cluster (ccs ! k) = by_penalty cs ! k" "cc_limit (ccs ! k) = limit_for cfg orders (by_penalty cs ! k)"
    if "k < length ccs" for k
    using that by (simp_all add: ccs collect_cluster_candidates_def Let_def)
  show eq: "map unallocated cs' = map unallocated (by_penalty cs)"
    by (rule nth_equalityI) (simp_all add: len nth apply_solution_core(1) cc)
  have own: "pairs_of (allocated_prime_related (cs' ! k)) = chosen_for s k (ccs ! k)" "distinct (map fst (chosen_for s k (ccs ! k)))"
    if "k < length ccs" for k
    using pairs_applied [of s k "ccs ! k"] block(2) [OF that] nth [OF that] by simp_all
  let ?bs = "bundles_of cs'" and ?var = "\<lambda>b. PairVar (fst b) (fst (snd b)) (snd (snd b))"
  have vars: "map ?var ?bs = filter s (pair_vars ccs)"
    unfolding cs' by (rule bundles_applied) (use block(2) in simp)
  have count: "length (filter (\<lambda>b. P (?var b)) ?bs) = length (filter (\<lambda>y. s y \<and> P y) (pair_vars ccs))" for P
  proof -
    have "length (filter (\<lambda>b. P (?var b)) ?bs) = length (filter P (map ?var ?bs))" by (simp add: filter_map comp_def)
    then show ?thesis unfolding vars by (simp add: filter_filter conj_commute)
  qed
  have "distinct (map (snd \<circ> snd) ?bs)"
    by (rule distinct_by_count) (use block(3) count [of "\<lambda>y. var_implement y = _"] in simp)
  moreover have "vehicle_uses ?bs v \<le> max_vehicle_assignments" for v
    using block(4) [of v] count [of "\<lambda>y. var_vehicle y = v"] by (simp add: vehicle_uses_def)
  moreover have "reserved_by ?bs k \<le> limit_for cfg orders (by_penalty cs ! k)" for k
    using block(1) [of k] own(1) [of k] cc(2) [of k] by (simp add: reserved_by_bundles len(1) filter_cluster_vars)
  moreover have "distinct (map (\<lambda>b. (fst b, fst (snd b))) ?bs)"
  proof (rule distinct_by_count, clarify)
    fix k v
    have "filter (\<lambda>b. (fst b, fst (snd b)) = (k, v)) ?bs = filter (\<lambda>b. fst (snd b) = v) (filter (\<lambda>b. fst b = k) ?bs)"
      by (simp add: filter_filter conj_commute)
    also have "length \<dots> \<le> 1"
    proof (cases "k < length ccs")
      case True
      have "distinct (map fst bs) \<Longrightarrow> length (filter (\<lambda>b. fst b = v) bs) \<le> 1" for bs :: "asset_pair list"
        by (induction bs) (auto simp: filter_empty_conv image_iff)
      note this [OF own(2) [OF True]]
      with True show ?thesis by (simp add: bundles_of_cluster len(1) own(1) filter_map comp_def)
    qed (simp add: bundles_of_cluster len(1))
    finally show "length (filter (\<lambda>b. (fst b, fst (snd b)) = (k, v)) ?bs) \<le> 1" .
  qed
  ultimately show "ledger (\<lambda>k. limit_for cfg orders (by_penalty cs ! k)) ?bs" by (simp add: ledger_iff)
  show "distinct (staffed cs')" if blank: "\<forall>c\<in>set cs. operator_ref c = ''''"
    unfolding staffed_def
  proof (rule distinct_nonempty, rule notI)
    fix j k assume jk: "j < k" "k < length cs'" "operator_ref (cs' ! j) \<noteq> ''''" "operator_ref (cs' ! j) = operator_ref (cs' ! k)"
    then have l: "j < length ccs" "k < length ccs" by (simp_all add: len(1))
    have "operator_ref (cc_cluster (ccs ! m)) = ''''" if "m < length ccs" for m
      using blank that cc(1) [OF that] len by_penalty_set [of cs] by (metis nth_mem)
    with jk(3,4) l apply_solution_core(3) [of s ?ops j "ccs ! j"] apply_solution_core(3) [of s ?ops k "ccs ! k"]
    obtain p q where "p \<in> set ?ops" "q \<in> set ?ops" "op_asset_id p = op_asset_id q"
      "s (OperatorVar j (op_asset_id p))" "s (OperatorVar k (op_asset_id q))"
      by (auto simp: nth)
    from operator_block [OF ops l _ this] jk(1) show False by simp
  qed
  show "feasible_for x c b" if c: "c \<in> set cs'" "b \<in> set (pairs_of (allocated_prime_related c))"
  proof -
    from c(1) obtain k where k: "k < length ccs" "c = cs' ! k" by (auto simp: in_set_conv_nth len(1))
    with c(2) own(1) have "b \<in> fst ` set (cc_candidates (ccs ! k))" by (auto simp: chosen_for_def)
    then have "feasible_for x (by_penalty cs ! k) b"
      using k(1) by (simp add: ccs candidates_feasible)
    moreover have "unallocated c = unallocated (by_penalty cs ! k)"
      using k by (simp add: nth apply_solution_core(1) cc(1))
    ultimately show ?thesis by (simp add: feasible_for_def unallocated_tasks [of c "by_penalty cs ! k"])
  qed
qed

interpretation global: allocator "cp_sound cp_sat" "allocate_resources_global cfg rt cp_sat x orders" "limit_for cfg orders"
  "feasible_for x" for cfg rt cp_sat x orders
proof -
  have "\<exists>s. satisfies (global_model cfg rt x (map (collect_cluster_candidates cfg x orders) (by_penalty cs))) s \<and>
      cs' = map (apply_solution s (ai_operators x)) (enumerate 0 (map (collect_cluster_candidates cfg x orders) (by_penalty cs)))"
    if "cp_sound cp_sat" "allocate_resources_global cfg rt cp_sat x orders cs = Some cs'" for cs cs'
    using that by (auto simp: allocate_resources_global_def cp_sound_def Let_def split: if_splits)
  note run = this
  show "allocator (cp_sound cp_sat) (allocate_resources_global cfg rt cp_sat x orders) (limit_for cfg orders) (feasible_for x)"
  proof unfold_locales
    fix cs cs' assume a: "cp_sound cp_sat" "allocate_resources_global cfg rt cp_sat x orders cs = Some cs'"
    from run [OF a] obtain s where "satisfies (global_model cfg rt x (map (collect_cluster_candidates cfg x orders) (by_penalty cs))) s"
      "cs' = map (apply_solution s (ai_operators x)) (enumerate 0 (map (collect_cluster_candidates cfg x orders) (by_penalty cs)))"
      by blast
    note ok = global_solution_ok [OF this(1) refl this(2)]
    show "map unallocated cs' = map unallocated (by_penalty cs)" by (rule ok(1))
    show "ledger (\<lambda>k. limit_for cfg orders (cs' ! k)) (bundles_of cs')" by (rule ledger_same_limits [OF ok(1,2)])
    show "\<forall>c\<in>set cs. operator_ref c = '''' \<Longrightarrow> distinct (staffed cs')" by (rule ok(3))
    show "feasible_for x c b" if "c \<in> set cs'" "b \<in> set (pairs_of (allocated_prime_related c))" for c b by (rule ok(4) [OF that])
  qed
qed

subsection \<open>Both allocators\<close>

text \<open>C24: Whichever allocator ran, the bundles of the clusters are a legal run of the ledger: they can be reserved one
  after the other, each within the limits that held when it was reserved.\<close>

theorem allocation_refines_ledger:
  assumes "cp_sound cp_sat" "cs' = allocate_resources cfg rt cp_sat x orders clusters"
  shows "ledger (\<lambda>k. limit_for cfg orders (cs' ! k)) (bundles_of cs')"
proof (cases "ac_enabled cfg \<and> allocate_resources_global cfg rt cp_sat x orders clusters \<noteq> None")
  case True
  with assms(2) have "allocate_resources_global cfg rt cp_sat x orders clusters = Some cs'"
    by (auto simp: allocate_resources_def Let_def)
  then show ?thesis by (rule global.ledger [OF assms(1)])
next
  case False
  with assms(2) have "Some (allocate_resources_greedy cfg rt x orders clusters) = Some cs'"
    by (auto simp: allocate_resources_def Let_def split: option.splits)
  then show ?thesis by (rule greedy.ledger [OF TrueI])
qed

text \<open>What the contract gives to the later stages.\<close>

definition exclusive_allocation :: "alloc_config \<Rightarrow> alloc_input \<Rightarrow> task_row list \<Rightarrow> cluster_spec list \<Rightarrow> bool" where
  "exclusive_allocation cfg x orders cs \<longleftrightarrow>
     (\<forall>j k v w i. j < length cs \<longrightarrow> k < length cs \<longrightarrow>
        (v, i) \<in> set (pairs_of (allocated_prime_related (cs ! j))) \<longrightarrow>
        (w, i) \<in> set (pairs_of (allocated_prime_related (cs ! k))) \<longrightarrow> j = k \<and> v = w) \<and>
     (\<forall>v. vehicle_uses (bundles_of cs) v \<le> 2) \<and>
     (\<forall>c\<in>set cs. length (pairs_of (allocated_prime_related c)) \<le> limit_for cfg orders c) \<and>
     distinct (staffed cs) \<and>
     (\<forall>c\<in>set cs. \<forall>b\<in>set (pairs_of (allocated_prime_related c)). feasible_for x c b)"

lemma exclusive_allocationI:
  assumes "allocator trusted alloc (limit_for cfg orders) (feasible_for x)"
    and a: "trusted" "alloc cs = Some cs'" "\<forall>c\<in>set cs. operator_ref c = ''''"
  shows "exclusive_allocation cfg x orders cs'"
  unfolding exclusive_allocation_def
proof (intro conjI allI impI ballI)
  note ex = allocator.exclusive [OF assms(1)]
  show "j = k" "v = w" if "j < length cs'" "k < length cs'" "(v, i) \<in> set (pairs_of (allocated_prime_related (cs' ! j)))"
    "(w, i) \<in> set (pairs_of (allocated_prime_related (cs' ! k)))" for j k v w i
    using allocator.implement_once [OF assms(1) a(1,2) that] by simp_all
  show "vehicle_uses (bundles_of cs') v \<le> 2" for v by (rule allocator.vehicle_in_two_clusters [OF assms(1) a(1,2)])
  show "length (pairs_of (allocated_prime_related c)) \<le> limit_for cfg orders c" if "c \<in> set cs'" for c
    using that allocator.cluster_within_limit [OF assms(1) a(1,2)] by (auto simp: in_set_conv_nth)
  show "distinct (staffed cs')" by (rule allocator.staff [OF assms(1) a])
  show "feasible_for x c b" if "c \<in> set cs'" "b \<in> set (pairs_of (allocated_prime_related c))" for c b
    by (rule allocator.feasible [OF assms(1) a(1,2) that])
qed

text \<open>C25: After allocation no implement serves two clusters, no vehicle more than two, no operator staffs two, a cluster
  stays within its limit, and every bundle is a feasible pair of one of the cluster's tasks.\<close>

theorem allocation_exclusive:
  assumes "cp_sound cp_sat" "\<forall>c\<in>set clusters. operator_ref c = ''''"
  shows "exclusive_allocation cfg x orders (allocate_resources cfg rt cp_sat x orders clusters)"
proof (cases "ac_enabled cfg \<and> allocate_resources_global cfg rt cp_sat x orders clusters \<noteq> None")
  case True
  then have "allocate_resources_global cfg rt cp_sat x orders clusters = Some (allocate_resources cfg rt cp_sat x orders clusters)"
    by (auto simp: allocate_resources_def Let_def)
  then show ?thesis by (rule exclusive_allocationI [OF global.allocator_axioms assms(1) _ assms(2)])
next
  case False
  then have "Some (allocate_resources_greedy cfg rt x orders clusters) = Some (allocate_resources cfg rt cp_sat x orders clusters)"
    by (auto simp: allocate_resources_def Let_def split: option.splits)
  then show ?thesis by (rule exclusive_allocationI [OF greedy.allocator_axioms TrueI _ assms(2)])
qed

subsection \<open>Closed instances\<close>

text \<open>
  Three clusters of one task compete for three implements: \<open>c2\<close> prefers \<open>i1\<close>, which is all \<open>c1\<close> can use, and \<open>c3\<close>
  prefers \<open>i2\<close>, the alternative of \<open>c2\<close>.
\<close>

definition sample_alloc_config :: alloc_config where
  "sample_alloc_config =
     \<lparr>ac_orders_per_resource = 5, ac_min_resources = 2, ac_max_pairs = 30, ac_enabled = True, ac_top_k = 100,
      ac_pairs_per_vehicle = 2, ac_pairs_per_implement = 2, ac_model_cap = 20000, ac_score_scale = 1000,
      ac_count_priority = 1\<rparr>"

definition sample_alloc_input :: alloc_input where
  "sample_alloc_input =
     \<lparr>ai_operators = [sample_operator, sample_operator\<lparr>op_asset_id := ''op2''\<rparr>], ai_margin = (\<lambda>v i. 0),
      ai_vehicle = map_of [(0, ''v1''), (1, ''v2''), (2, ''v3'')], ai_implement = map_of [(0, ''i1''), (1, ''i2''), (2, ''i3'')],
      ai_feasible = [(''A'', [(0, 0)]), (''B'', [(1, 0), (1, 1)]), (''C'', [(2, 1), (2, 2)])],
      ai_scored = Some [(''A'', [((0, 0), 0)]), (''B'', [((1, 0), 10), ((1, 1), 0)]), (''C'', [((2, 1), 10), ((2, 2), 0)])],
      ai_free = []\<rparr>"

definition sample_alloc_orders :: "task_row list" where
  "sample_alloc_orders =
     [sample_task\<lparr>penalty_per_day := 0\<rparr>, sample_task\<lparr>task_id := ''B'', penalty_per_day := 0\<rparr>,
      sample_task\<lparr>task_id := ''C'', penalty_per_day := 0\<rparr>]"

definition sample_alloc_clusters :: "cluster_spec list" where
  "sample_alloc_clusters =
     [sample_cluster\<lparr>operator_ref := ''''\<rparr>,
      sample_cluster\<lparr>cluster_id := ''c2'', task_ids := [''B''], operator_ref := ''''\<rparr>,
      sample_cluster\<lparr>cluster_id := ''c3'', task_ids := [''C''], operator_ref := ''''\<rparr>]"

definition chosen_solver :: "cp_var list \<Rightarrow> cp_model \<Rightarrow> (cp_var \<Rightarrow> bool) option" where
  "chosen_solver vars m = (if satisfies m (\<lambda>x. x \<in> set vars) then Some (\<lambda>x. x \<in> set vars) else None)"

lemma chosen_solver_sound: "cp_sound (chosen_solver vars)"
  by (simp add: cp_sound_def chosen_solver_def)

definition two_bundles :: "cp_var list" where
  "two_bundles = [PairVar 1 ''v2'' ''i1'', PairVar 2 ''v3'' ''i2'']"

definition three_bundles :: "cp_var list" where
  "three_bundles = [PairVar 0 ''v1'' ''i1'', PairVar 1 ''v2'' ''i2'', PairVar 2 ''v3'' ''i3'']"

definition sample_allocated :: "cp_var list \<Rightarrow> cluster_spec list" where
  "sample_allocated vars =
     allocate_resources sample_alloc_config sample_runtime (chosen_solver vars) sample_alloc_input sample_alloc_orders
       sample_alloc_clusters"

lemma sample_allocated_value:
  "map allocated_prime_related (sample_allocated three_bundles) = [[(''v1'', [''i1''])], [(''v2'', [''i2''])], [(''v3'', [''i3''])]]"
  by code_simp

lemma allocation_refines_ledger_witness:
  "ledger (\<lambda>k. limit_for sample_alloc_config sample_alloc_orders (sample_allocated three_bundles ! k))
     (bundles_of (sample_allocated three_bundles)) \<and>
   map allocated_prime_related (sample_allocated three_bundles) = [[(''v1'', [''i1''])], [(''v2'', [''i2''])], [(''v3'', [''i3''])]]"
  by (rule conjI [OF allocation_refines_ledger [OF chosen_solver_sound sample_allocated_def] sample_allocated_value])

lemma allocation_exclusive_witness:
  "exclusive_allocation sample_alloc_config sample_alloc_input sample_alloc_orders (sample_allocated three_bundles)"
proof -
  have "\<forall>c\<in>set sample_alloc_clusters. operator_ref c = ''''" by code_simp
  from allocation_exclusive [OF chosen_solver_sound this] show ?thesis unfolding sample_allocated_def .
qed

text \<open>
  Divergence: the model is documented to allocate as many bundles as the limits admit first and to break ties by score.
  A reward exceeds the spread of one score, not of several: two bundles of high score are worth more than three that
  serve every cluster.
\<close>

definition sample_model :: cp_model where
  "sample_model =
     add_pair_assignment_block sample_alloc_config
       (map (collect_cluster_candidates sample_alloc_config sample_alloc_input sample_alloc_orders) (by_penalty sample_alloc_clusters))"

theorem count_first_not_kept:
  "satisfies sample_model (\<lambda>x. x \<in> set two_bundles) \<and> satisfies sample_model (\<lambda>x. x \<in> set three_bundles) \<and>
   objective_value sample_model (\<lambda>x. x \<in> set three_bundles) < objective_value sample_model (\<lambda>x. x \<in> set two_bundles)"
  by code_simp

end
