(* ===== verification/RouteGeography.thy ===== *)
theory RouteGeography
  imports Scoring Restrictions "HOL-Library.While_Combinator"
begin

text \<open>
  Obstacle-aware and time-dependent geography of routing arcs: the visibility-graph search of
  \<open>core/geometry.py\<close> (\<open>shortest_path_around_polygons\<close>) and the restrictions, the active
  polygons and the arc routes of \<open>solver/routing_geography.py\<close>. The predicates of \<open>shapely\<close>
  are the fields of a record; nothing is assumed about them. \<open>None\<close> is the exception that a
  malformed polygon raises. The lemmas show that the search returns for non-negative
  distances, that the horizon segments partition the horizon, and that inside a segment the
  set of active polygons does not change.
\<close>

subsection \<open>Paths around obstacles\<close>

text \<open>
  \<open>vs_parts\<close>: the polygon itself or the polygons among the parts of a repaired geometry;
  \<open>vs_contains\<close>: \<open>poly.contains(Point)\<close>; \<open>vs_clear\<close>: \<open>LineString([p, q]).relate_pattern(poly,
  "F********")\<close>; \<open>vs_exterior\<close>: \<open>poly.exterior.coords\<close>. Points are \<open>(lat, lon)\<close> outside and
  \<open>(lon, lat)\<close> inside the geometry, as in the source.
\<close>

record 'g visibility =
  vs_shapely :: "'g shapely"
  vs_parts :: "'g \<Rightarrow> 'g list"
  vs_contains :: "'g \<Rightarrow> point \<Rightarrow> bool"
  vs_clear :: "point \<Rightarrow> point \<Rightarrow> 'g \<Rightarrow> bool"
  vs_exterior :: "'g \<Rightarrow> point list"

definition obstacle_parts :: "'g visibility \<Rightarrow> point list list \<Rightarrow> 'g list" where
  "obstacle_parts vs restricted_polygons =
     concat (map (\<lambda>ring.
       if length ring < 3 then []
       else filter (\<lambda>g. \<not> is_empty_geom (vs_shapely vs) g \<and> planar_area (vs_shapely vs) g > 0)
              (vs_parts vs (repaired (vs_shapely vs) (map prod.swap ring))))
     restricted_polygons)"

definition clear_of_all :: "'g visibility \<Rightarrow> 'g list \<Rightarrow> point \<Rightarrow> point \<Rightarrow> bool" where
  "clear_of_all vs polygons p q =
     list_all (vs_clear vs (prod.swap p) (prod.swap q)) polygons"

text \<open>The endpoints, then every obstacle vertex not seen before.\<close>

fun add_unseen :: "point list \<Rightarrow> point list \<Rightarrow> point list" where
  "add_unseen points [] = points"
| "add_unseen points (v # vs) =
     add_unseen (if v \<in> set points then points else points @ [v]) vs"

definition visibility_points :: "'g visibility \<Rightarrow> 'g list \<Rightarrow> point \<Rightarrow> point \<Rightarrow> point list" where
  "visibility_points vs polygons start goal =
     add_unseen [start, goal] (concat (map (\<lambda>g. map prod.swap (butlast (vs_exterior vs g))) polygons))"

text \<open>\<open>adjacency[node]\<close>: the pair loop appends the neighbours of a node in ascending order.\<close>

definition visible_neighbors ::
  "'g visibility \<Rightarrow> (point \<Rightarrow> point \<Rightarrow> real) \<Rightarrow> 'g list \<Rightarrow> point list \<Rightarrow> nat \<Rightarrow> (nat \<times> real) list" where
  "visible_neighbors vs geodesic polygons points node =
     List.map_filter (\<lambda>m.
       let l = min node m; r = max node m in
       if m \<noteq> node \<and> clear_of_all vs polygons (points ! l) (points ! r)
       then Some (m, geodesic (points ! l) (points ! r)) else None)
     [0..<length points]"

text \<open>
  The search: \<open>vd_best\<close> and \<open>vd_predecessor\<close> hold a node once it has a finite distance, the
  heap is a list whose least element is popped, \<open>vd_stop\<close> is the \<open>break\<close> at the goal.
\<close>

record path_search =
  vd_best :: "nat \<rightharpoonup> real"
  vd_predecessor :: "nat \<rightharpoonup> nat"
  vd_queue :: "(real \<times> nat) list"
  vd_stop :: bool

fun relax_edges :: "real \<Rightarrow> nat \<Rightarrow> (nat \<times> real) list \<Rightarrow> path_search \<Rightarrow> path_search" where
  "relax_edges distance node [] s = s"
| "relax_edges distance node ((neighbor, edge_distance) # rest) s =
     relax_edges distance node rest
       (let candidate = distance + edge_distance in
        if (case vd_best s neighbor of None \<Rightarrow> True | Some b \<Rightarrow> candidate < b)
        then s\<lparr>vd_best := (vd_best s)(neighbor \<mapsto> candidate),
               vd_predecessor := (vd_predecessor s)(neighbor \<mapsto> node),
               vd_queue := (candidate, neighbor) # vd_queue s\<rparr>
        else s)"

definition search_step :: "(nat \<Rightarrow> (nat \<times> real) list) \<Rightarrow> path_search \<Rightarrow> path_search" where
  "search_step adj s =
     (let entry = Min (set (vd_queue s)); distance = fst entry; node = snd entry;
          s' = s\<lparr>vd_queue := remove1 entry (vd_queue s)\<rparr> in
      if (case vd_best s node of None \<Rightarrow> False | Some b \<Rightarrow> distance > b) then s'
      else if node = 1 then s'\<lparr>vd_stop := True\<rparr>
      else relax_edges distance node (adj node) s')"

definition searching :: "path_search \<Rightarrow> bool" where
  "searching s \<longleftrightarrow> vd_queue s \<noteq> [] \<and> \<not> vd_stop s"

definition search_start :: path_search where
  "search_start =
     \<lparr>vd_best = [0 \<mapsto> 0], vd_predecessor = Map.empty, vd_queue = [(0, 0)], vd_stop = False\<rparr>"

definition path_search_run :: "(nat \<Rightarrow> (nat \<times> real) list) \<Rightarrow> path_search option" where
  "path_search_run adj = while_option searching (search_step adj) search_start"

text \<open>The walk back from the goal to node \<open>0\<close>; the loop has at most as many turns as there are
  points, because predecessors have smaller distances.\<close>

fun trace_back :: "(nat \<rightharpoonup> nat) \<Rightarrow> nat \<Rightarrow> nat \<Rightarrow> nat list \<Rightarrow> nat list" where
  "trace_back pred 0 node acc = node # acc"
| "trace_back pred (Suc n) node acc =
     (if node = 0 then node # acc
      else case pred node of None \<Rightarrow> node # acc | Some p \<Rightarrow> trace_back pred n p (node # acc))"

definition shortest_path_around_polygons ::
  "'g visibility \<Rightarrow> (point \<Rightarrow> point \<Rightarrow> real) \<Rightarrow> point \<Rightarrow> point \<Rightarrow> point list list \<Rightarrow> point list" where
  "shortest_path_around_polygons vs geodesic start goal restricted_polygons =
     (let polygons = obstacle_parts vs restricted_polygons in
      if polygons = [] \<or> start = goal then [start, goal]
      else if list_ex (\<lambda>g. vs_contains vs g (prod.swap start) \<or> vs_contains vs g (prod.swap goal)) polygons
      then []
      else if clear_of_all vs polygons start goal then [start, goal]
      else
        let points = visibility_points vs polygons start goal in
        case path_search_run (visible_neighbors vs geodesic polygons points) of
          None \<Rightarrow> []
        | Some s \<Rightarrow>
            if vd_best s 1 = None then []
            else map (nth points) (trace_back (vd_predecessor s) (length points) 1 []))"

fun reroute_legs ::
  "(point \<Rightarrow> point \<Rightarrow> point list) \<Rightarrow> point list \<Rightarrow> (point \<times> point) list \<Rightarrow> point list" where
  "reroute_legs leg rerouted [] = rerouted"
| "reroute_legs leg rerouted ((start, goal) # legs) =
     (if leg start goal = [] then []
      else reroute_legs leg (rerouted @ tl (leg start goal)) legs)"

definition reroute_path_around_polygons ::
  "'g visibility \<Rightarrow> (point \<Rightarrow> point \<Rightarrow> real) \<Rightarrow> point list \<Rightarrow> point list list \<Rightarrow> point list" where
  "reroute_path_around_polygons vs geodesic path restricted_polygons =
     (if length path < 2 \<or> restricted_polygons = [] then path
      else reroute_legs (\<lambda>a b. shortest_path_around_polygons vs geodesic a b restricted_polygons)
             [hd path] (zip path (tl path)))"

subsection \<open>Restrictions of a routing vehicle\<close>

text \<open>A prime mover with one implement attached (the \<open>{"prime", "related"}\<close> dictionaries).\<close>

record routing_vehicle =
  rv_prime :: prime_mover_row
  rv_related :: related_row

text \<open>\<open>RouteRestriction\<close>: a polygon and its closed activation intervals, none of them for a
  polygon that is always active.\<close>

record route_restriction =
  rr_polygon :: "point list"
  rr_windows :: "interval list"

definition bundle_operations :: "runtime \<Rightarrow> routing_vehicle \<Rightarrow> string list" where
  "bundle_operations rt rv =
     (let p = ops_set rt (pm_compatible_operations (rv_prime rv));
          r = ops_set rt (rel_compatible_operations (rv_related rv)) in
      if p \<noteq> [] \<and> r \<noteq> [] then filter (\<lambda>x. x \<in> set r) p else if p \<noteq> [] then p else r)"

definition location_polygon :: "runtime \<Rightarrow> site_row \<Rightarrow> point list option" where
  "location_polygon rt site = map_option (map prod.swap) (parse_polygon rt (site_polygon site))"

fun route_restrictions_for_vehicle ::
  "runtime \<Rightarrow> site_row list \<Rightarrow> routing_vehicle \<Rightarrow> int \<Rightarrow> route_restriction list option" where
  "route_restrictions_for_vehicle rt [] rv now_epoch = Some []"
| "route_restrictions_for_vehicle rt (loc # locs) rv now_epoch =
     (let operations = bundle_operations rt rv in
      if operations = [] then Some []
      else if set operations \<inter> set (ops_set rt (restricted_operations loc)) = {}
      then route_restrictions_for_vehicle rt locs rv now_epoch
      else do {
        polygon \<leftarrow> location_polygon rt loc;
        rest \<leftarrow> route_restrictions_for_vehicle rt locs rv now_epoch;
        (let parsed_windows = parse_time_windows rt (restriction_windows loc);
             windows = epoch_intervals rt (restriction_windows loc) now_epoch (now_epoch + routing_horizon_s)
         in Some (if polygon = [] \<or> (parsed_windows \<noteq> [] \<and> windows = []) then rest
              else \<lparr>rr_polygon = polygon, rr_windows = windows\<rparr> # rest)) })"

definition unconditional_polygons :: "route_restriction list \<Rightarrow> point list list" where
  "unconditional_polygons rs = map rr_polygon (filter (\<lambda>r. rr_windows r = []) rs)"

definition active_during :: "int \<Rightarrow> int \<Rightarrow> route_restriction \<Rightarrow> bool" where
  "active_during start_epoch end_epoch r \<longleftrightarrow>
     rr_windows r = [] \<or>
     list_ex (\<lambda>(window_start, window_end). start_epoch \<le> window_end \<and> end_epoch \<ge> window_start) (rr_windows r)"

definition active_polygons :: "route_restriction list \<Rightarrow> int \<Rightarrow> int \<Rightarrow> point list list" where
  "active_polygons rs start_epoch end_epoch =
     map rr_polygon (filter (active_during start_epoch end_epoch) rs)"

text \<open>\<open>RestrictionSegment\<close>: half-open offsets and the polygons in force.\<close>

record restriction_segment =
  seg_start :: int
  seg_end :: int
  seg_polygons :: "point list list"

definition segment_cuts :: "route_restriction list \<Rightarrow> int \<Rightarrow> int \<Rightarrow> int list" where
  "segment_cuts rs now_epoch horizon_s =
     sort (remdups (0 # horizon_s #
       filter (\<lambda>edge. 0 < edge \<and> edge < horizon_s)
         (concat (map (\<lambda>r. concat (map (\<lambda>(ws, we). [ws - now_epoch, we - now_epoch + 1]) (rr_windows r))) rs))))"

definition horizon_restriction_segments ::
  "route_restriction list \<Rightarrow> int \<Rightarrow> int \<Rightarrow> restriction_segment list" where
  "horizon_restriction_segments rs now_epoch horizon_s =
     (let ordered = segment_cuts rs now_epoch horizon_s in
      map (\<lambda>(a, b). \<lparr>seg_start = a, seg_end = b,
                     seg_polygons = active_polygons rs (now_epoch + a) (now_epoch + a)\<rparr>)
        (zip ordered (tl ordered)))"

subsection \<open>Arc routes\<close>

text \<open>
  The constants and the geodesic of an arc route: \<open>ge_vis\<close> and \<open>ge_env\<close> bundle the external
  geometry, \<open>ge_tolerance_km\<close> is \<open>ROUTE_GEOMETRY_ENDPOINT_TOLERANCE_KM\<close>.
\<close>

record 'g geo_env =
  ge_vis :: "'g visibility"
  ge_env :: cluster_env
  ge_tolerance_km :: real

record arc_path =
  arc_seconds :: int
  arc_points :: "point list"
  arc_detoured :: bool

definition endpoints_match :: "'g geo_env \<Rightarrow> point list \<Rightarrow> point \<Rightarrow> point \<Rightarrow> bool" where
  "endpoints_match ge path start goal \<longleftrightarrow>
     ce_geodesic (ge_env ge) start (hd path) \<le> ge_tolerance_km ge
     \<and> ce_geodesic (ge_env ge) goal (last path) \<le> ge_tolerance_km ge"

text \<open>\<open>_network_route\<close>: the seconds and, when the link has geometry, the path in the direction of
  travel (\<open>[]\<close> when there is none).\<close>

definition network_route ::
  "travel_lookup \<Rightarrow> string \<Rightarrow> string \<Rightarrow> string \<Rightarrow> (nat \<times> point list) option" where
  "network_route L from_ref to_ref mode =
     (case network_seconds L from_ref to_ref mode of
        Some s \<Rightarrow> Some (s, case get_path L from_ref to_ref mode of None \<Rightarrow> [] | Some p \<Rightarrow> p)
      | None \<Rightarrow>
          (case network_seconds L to_ref from_ref mode of
             None \<Rightarrow> None
           | Some s \<Rightarrow> Some (s, case get_path L to_ref from_ref mode of None \<Rightarrow> [] | Some p \<Rightarrow> rev p)))"

definition arc_route ::
  "'g geo_env \<Rightarrow> string \<Rightarrow> string \<Rightarrow> point \<Rightarrow> point \<Rightarrow> travel_lookup \<Rightarrow> string \<Rightarrow> real \<Rightarrow> point list list \<Rightarrow> arc_path" where
  "arc_route ge from_ref to_ref start goal L mode fallback_speed_kmh restricted_polygons =
     (let env = ge_env ge; geodesic = ce_geodesic env;
          reroute = (\<lambda>p. reroute_path_around_polygons (ge_vis ge) geodesic p restricted_polygons) in
      case network_route L from_ref to_ref mode of
        Some (network_time, path) \<Rightarrow>
          if path = [] then \<lparr>arc_seconds = int network_time, arc_points = [start, goal], arc_detoured = False\<rparr>
          else
            let declared_path = (if endpoints_match ge path start goal then path else [start, goal]);
                rerouted = reroute declared_path in
            if rerouted = []
            then \<lparr>arc_seconds = int network_time, arc_points = declared_path, arc_detoured = False\<rparr>
            else
              let base_distance = TravelTime.path_distance_km geodesic declared_path;
                  rerouted_distance = TravelTime.path_distance_km geodesic rerouted;
                  ratio = (if base_distance > 0 then rerouted_distance / base_distance else 1);
                  seconds = max (int network_time) (round_half_even (real network_time * ratio)) in
              \<lparr>arc_seconds = max 1 seconds, arc_points = rerouted, arc_detoured = rerouted \<noteq> declared_path\<rparr>
      | None \<Rightarrow>
          let base_seconds = travel_seconds geodesic (ce_default_speed env) (ce_air_factor env)
                (ce_ground_factor env) from_ref to_ref start goal L mode fallback_speed_kmh;
              rerouted = reroute [start, goal] in
          if rerouted = []
          then \<lparr>arc_seconds = base_seconds, arc_points = [start, goal], arc_detoured = False\<rparr>
          else
            let speed = (if fallback_speed_kmh > 0 then fallback_speed_kmh else ce_default_speed env);
                seconds = TravelTime.path_distance_km geodesic rerouted / speed * 3600
                            * mode_circuity (ce_air_factor env) (ce_ground_factor env) mode in
            \<lparr>arc_seconds = max 1 (round_half_even seconds), arc_points = rerouted,
             arc_detoured = rerouted \<noteq> [start, goal]\<rparr>)"

definition obstacle_aware_travel_seconds ::
  "'g geo_env \<Rightarrow> string \<Rightarrow> string \<Rightarrow> point \<Rightarrow> point \<Rightarrow> travel_lookup \<Rightarrow> string \<Rightarrow> real \<Rightarrow> point list list \<Rightarrow> int" where
  "obstacle_aware_travel_seconds ge from_ref to_ref start goal L mode fallback_speed_kmh restricted_polygons =
     arc_seconds (arc_route ge from_ref to_ref start goal L mode fallback_speed_kmh restricted_polygons)"

text \<open>\<open>route.path[1:-1]\<close>.\<close>

definition detour_waypoints ::
  "'g geo_env \<Rightarrow> string \<Rightarrow> string \<Rightarrow> point \<Rightarrow> point \<Rightarrow> travel_lookup \<Rightarrow> string \<Rightarrow> point list list \<Rightarrow> point list" where
  "detour_waypoints ge from_ref to_ref start goal L mode restricted_polygons =
     butlast (tl (arc_points (arc_route ge from_ref to_ref start goal L mode
       (ce_default_speed (ge_env ge)) restricted_polygons)))"


subsection \<open>The search returns\<close>

definition unsettled :: "nat \<Rightarrow> path_search \<Rightarrow> nat set" where
  "unsettled n s = {v. v < n \<and> (\<forall>b. vd_best s v = Some b \<longrightarrow> (b, v) \<in> set (vd_queue s))}"

text \<open>Between the relaxations of one expansion: every waiting entry is at least the popped distance
  \<open>d\<close> and at least the best of its node, and a node with no waiting best is settled below \<open>d\<close>.\<close>

definition frontier :: "nat \<Rightarrow> real \<Rightarrow> path_search \<Rightarrow> bool" where
  "frontier n d s \<longleftrightarrow>
     distinct (vd_queue s) \<and> dom (vd_best s) \<subseteq> {..<n}
     \<and> (\<forall>e v. (e, v) \<in> set (vd_queue s) \<longrightarrow> d \<le> e \<and> (\<exists>b. vd_best s v = Some b \<and> b \<le> e))
     \<and> (\<forall>v b. vd_best s v = Some b \<longrightarrow> (b, v) \<notin> set (vd_queue s) \<longrightarrow> b \<le> d)"

definition frontier_inv :: "nat \<Rightarrow> path_search \<Rightarrow> bool" where
  "frontier_inv n s \<longleftrightarrow>
     distinct (vd_queue s) \<and> dom (vd_best s) \<subseteq> {..<n}
     \<and> (\<forall>e v. (e, v) \<in> set (vd_queue s) \<longrightarrow> (\<exists>b. vd_best s v = Some b \<and> b \<le> e))
     \<and> (\<forall>v b e u. vd_best s v = Some b \<longrightarrow> (b, v) \<notin> set (vd_queue s) \<longrightarrow> (e, u) \<in> set (vd_queue s)
          \<longrightarrow> b \<le> e)"

definition edges_ok :: "nat \<Rightarrow> (nat \<Rightarrow> (nat \<times> real) list) \<Rightarrow> bool" where
  "edges_ok n adj \<longleftrightarrow> (\<forall>v w c. v < n \<longrightarrow> (w, c) \<in> set (adj v) \<longrightarrow> w < n \<and> 0 < c)"

lemma frontier_imp_inv: "frontier n d s \<Longrightarrow> frontier_inv n s"
  unfolding frontier_def frontier_inv_def by (meson order_trans)

lemma relax_edges_frontier:
  assumes "frontier n d s" "\<And>w c. (w, c) \<in> set es \<Longrightarrow> w < n \<and> 0 \<le> c"
  shows "frontier n d (relax_edges d node es s) \<and> unsettled n (relax_edges d node es s) = unsettled n s
    \<and> vd_stop (relax_edges d node es s) = vd_stop s"
  using assms
proof (induction d node es s rule: relax_edges.induct)
  case (1 distance node s)
  then show ?case by simp
next
  case (2 d node x c rest s)
  let ?s = "s\<lparr>vd_best := (vd_best s)(x \<mapsto> d + c), vd_predecessor := (vd_predecessor s)(x \<mapsto> node),
      vd_queue := (d + c, x) # vd_queue s\<rparr>"
  have c: "x < n" "0 \<le> c" using "2.prems"(2) [of x c] by auto
  have rest: "\<And>w k. (w, k) \<in> set rest \<Longrightarrow> w < n \<and> 0 \<le> k" using "2.prems"(2) by auto
  show ?case
  proof (cases "case vd_best s x of None \<Rightarrow> True | Some b \<Rightarrow> d + c < b")
    case True
    have waiting: "b \<le> e \<Longrightarrow> vd_best s x = Some b \<Longrightarrow> d + c < e" for b e
      using True by auto
    have fresh: "(d + c, x) \<notin> set (vd_queue s)"
      using "2.prems"(1) True unfolding frontier_def by (fastforce split: option.splits)
    have settled: "vd_best s x = Some b \<Longrightarrow> (b, x) \<in> set (vd_queue s)" for b
      using "2.prems"(1) True c(2) unfolding frontier_def by force
    have entry: "d \<le> e \<and> (\<exists>b. vd_best ?s v = Some b \<and> b \<le> e)" if "(e, v) \<in> set (vd_queue ?s)" for e v
    proof (cases "(e, v) = (d + c, x)")
      case False
      with that have old: "(e, v) \<in> set (vd_queue s)" by auto
      then obtain b where "d \<le> e" "vd_best s v = Some b" "b \<le> e"
        using "2.prems"(1) unfolding frontier_def by blast
      with waiting show ?thesis by (cases "v = x") (auto intro: less_imp_le)
    qed (use c in simp)
    have low: "b \<le> d" if "vd_best ?s v = Some b" "(b, v) \<notin> set (vd_queue ?s)" for v b
      using that "2.prems"(1) unfolding frontier_def by (cases "v = x") auto
    have "frontier n d ?s"
      unfolding frontier_def
    proof (intro conjI allI impI)
      show "distinct (vd_queue ?s)" using fresh "2.prems"(1) by (simp add: frontier_def)
      show "dom (vd_best ?s) \<subseteq> {..<n}" using c(1) "2.prems"(1) by (simp add: frontier_def)
    qed (use entry low in blast)+
    moreover have "unsettled n ?s = unsettled n s"
      using settled c(1) by (auto simp: unsettled_def)
    ultimately show ?thesis
      using "2.IH" True rest by (simp add: Let_def)
  next
    case False
    then show ?thesis using "2.IH" "2.prems"(1) rest by (simp add: Let_def)
  qed
qed


lemma search_step_progress:
  assumes inv: "frontier_inv n s" and run: "searching s" and ok: "edges_ok n adj"
  shows "frontier_inv n (search_step adj s)
    \<and> (card (unsettled n (search_step adj s)), length (vd_queue (search_step adj s)))
        < (card (unsettled n s), length (vd_queue s))"
proof -
  let ?Q = "set (vd_queue s)"
  obtain d v where m: "Min ?Q = (d, v)" by fastforce
  have mem: "(d, v) \<in> ?Q" using run m Min_in [of ?Q] by (simp add: searching_def)
  have least: "d \<le> e" if "(e, u) \<in> ?Q" for e u
    using Min_le [of ?Q "(e, u)"] that m by (auto simp: less_eq_prod_def)
  let ?s = "s\<lparr>vd_queue := remove1 (d, v) (vd_queue s)\<rparr>"
  have dist: "distinct (vd_queue s)" using inv by (simp add: frontier_inv_def)
  then have Q: "set (remove1 (d, v) (vd_queue s)) = ?Q - {(d, v)}" by simp
  obtain b where b: "vd_best s v = Some b" "b \<le> d" using inv mem unfolding frontier_inv_def by blast
  have v: "v < n" using inv b(1) unfolding frontier_inv_def by auto
  have shorter: "length (vd_queue ?s) < length (vd_queue s)"
    using mem by (simp add: length_remove1) (cases "vd_queue s"; simp)
  have fin: "finite (unsettled n s)" by (simp add: unsettled_def)
  have sub: "unsettled n ?s \<subseteq> unsettled n s" by (auto simp: unsettled_def Q)
  show ?thesis
  proof (cases "d > b")
    case True
    then have step: "search_step adj s = ?s" using m b by (simp add: search_step_def)
    have old: "c \<le> e" if "vd_best s w = Some c" "(c, w) \<notin> ?Q - {(d, v)}" "(e, u) \<in> ?Q" for w c e u
    proof -
      have "(c, w) \<notin> ?Q" using that(1,2) b True by auto
      with that(1,3) inv show ?thesis unfolding frontier_inv_def by blast
    qed
    have "frontier_inv n ?s"
      unfolding frontier_inv_def
    proof (intro conjI allI impI)
      fix w c e u
      assume "vd_best ?s w = Some c" "(c, w) \<notin> set (vd_queue ?s)" "(e, u) \<in> set (vd_queue ?s)"
      then show "c \<le> e" by (intro old [of w c e u]) (simp_all add: Q)
    qed (use inv dist in \<open>auto simp: frontier_inv_def Q distinct_remove1\<close>)
    moreover have "card (unsettled n ?s) \<le> card (unsettled n s)" using sub fin by (rule card_mono [rotated])
    ultimately show ?thesis using shorter unfolding step by (auto simp: less_prod_def)
  next
    case False
    with b have bd: "vd_best s v = Some d" by simp
    have "v \<in> unsettled n s" "v \<notin> unsettled n ?s"
      using v bd mem by (auto simp: unsettled_def Q)
    then have less: "card (unsettled n ?s) < card (unsettled n s)"
      using sub fin by (metis psubsetI psubset_card_mono)
    have fr: "frontier n d ?s"
      unfolding frontier_def
    proof (intro conjI allI impI)
      fix e u assume "(e, u) \<in> set (vd_queue ?s)"
      then have "(e, u) \<in> ?Q" by (simp add: Q)
      then show "d \<le> e" "\<exists>b. vd_best ?s u = Some b \<and> b \<le> e"
        using least inv unfolding frontier_inv_def by auto
    next
      fix u c assume c: "vd_best ?s u = Some c" "(c, u) \<notin> set (vd_queue ?s)"
      show "c \<le> d"
      proof (cases "(c, u) \<in> ?Q")
        case True
        with c Q show ?thesis by auto
      next
        case False
        have "vd_best s u = Some c" using c(1) by simp
        with False mem inv show ?thesis unfolding frontier_inv_def by blast
      qed
    qed (use inv in \<open>auto simp: frontier_inv_def\<close>)
    show ?thesis
    proof (cases "v = 1")
      case True
      then have "search_step adj s = ?s\<lparr>vd_stop := True\<rparr>" using m bd by (simp add: search_step_def)
      moreover have "unsettled n (?s\<lparr>vd_stop := True\<rparr>) = unsettled n ?s" by (simp add: unsettled_def)
      moreover have "frontier_inv n (?s\<lparr>vd_stop := True\<rparr>)"
        using frontier_imp_inv [OF fr] by (simp add: frontier_inv_def)
      ultimately show ?thesis using less by (simp add: less_prod_def)
    next
      case False
      then have step: "search_step adj s = relax_edges d v (adj v) ?s"
        using m bd by (simp add: search_step_def)
      have "frontier n d (relax_edges d v (adj v) ?s)
          \<and> unsettled n (relax_edges d v (adj v) ?s) = unsettled n ?s"
        using relax_edges_frontier [OF fr, of "adj v" v] ok v unfolding edges_ok_def by (meson less_imp_le)
      with less frontier_imp_inv show ?thesis unfolding step by (auto simp: less_prod_def)
    qed
  qed
qed

lemma frontier_inv_start: "0 < n \<Longrightarrow> frontier_inv n search_start"
  by (auto simp: frontier_inv_def search_start_def)

text \<open>For non-negative distances the search ends.\<close>

lemma path_search_returns:
  assumes "0 < n" "edges_ok n adj"
  shows "\<exists>s. path_search_run adj = Some s"
  unfolding path_search_run_def
proof (rule wf_while_option_Some [where P = "frontier_inv n"])
  show "wf {(t, s). (frontier_inv n s \<and> searching s) \<and> t = search_step adj s}"
    by (rule wf_subset [OF wf_inv_image [OF wellorder_class.wf, where f = "\<lambda>s. (card (unsettled n s), length (vd_queue s))"]])
       (use search_step_progress assms(2) in \<open>auto simp: inv_image_def\<close>)
qed (use search_step_progress assms frontier_inv_start in auto)


subsection \<open>The path it finds\<close>

text \<open>Every predecessor link is an edge that comes closer to the start.\<close>

definition links_inv :: "(nat \<Rightarrow> (nat \<times> real) list) \<Rightarrow> path_search \<Rightarrow> bool" where
  "links_inv adj s \<longleftrightarrow>
     (\<forall>v u. vd_predecessor s v = Some u \<longrightarrow>
        (\<exists>c a b. (v, c) \<in> set (adj u) \<and> vd_best s u = Some a \<and> vd_best s v = Some b \<and> a < b))
     \<and> (\<forall>v. vd_best s v \<noteq> None \<longrightarrow> v \<noteq> 0 \<longrightarrow> vd_predecessor s v \<noteq> None)
     \<and> (\<forall>e v. (e, v) \<in> set (vd_queue s) \<longrightarrow> (\<exists>b. vd_best s v = Some b \<and> b \<le> e))"

lemma relax_edges_links:
  assumes "links_inv adj s" "\<exists>b. vd_best s node = Some b \<and> b \<le> d"
    and "\<And>w c. (w, c) \<in> set es \<Longrightarrow> (w, c) \<in> set (adj node) \<and> 0 < c"
  shows "links_inv adj (relax_edges d node es s)"
  using assms
proof (induction d node es s rule: relax_edges.induct)
  case (1 distance node s)
  then show ?case by simp
next
  case (2 d node x c rest s)
  let ?s = "s\<lparr>vd_best := (vd_best s)(x \<mapsto> d + c), vd_predecessor := (vd_predecessor s)(x \<mapsto> node),
      vd_queue := (d + c, x) # vd_queue s\<rparr>"
  have c: "(x, c) \<in> set (adj node)" "0 < c" using "2.prems"(3) [of x c] by auto
  have rest: "\<And>w k. (w, k) \<in> set rest \<Longrightarrow> (w, k) \<in> set (adj node) \<and> 0 < k" using "2.prems"(3) by auto
  obtain b where b: "vd_best s node = Some b" "b \<le> d" using "2.prems"(2) by blast
  show ?case
  proof (cases "case vd_best s x of None \<Rightarrow> True | Some b \<Rightarrow> d + c < b")
    case True
    then have closer: "d + c < e" if "vd_best s x = Some e" for e using that by simp
    have ne: "x \<noteq> node"
    proof
      assume "x = node"
      then show False using closer [of b] b c(2) by simp
    qed
    have "links_inv adj ?s"
      unfolding links_inv_def
    proof (intro conjI allI impI)
      fix v u assume "vd_predecessor ?s v = Some u"
      then consider "v = x" "u = node" | "v \<noteq> x" "vd_predecessor s v = Some u" by (auto split: if_splits)
      then show "\<exists>c a b. (v, c) \<in> set (adj u) \<and> vd_best ?s u = Some a \<and> vd_best ?s v = Some b \<and> a < b"
      proof cases
        case 1
        then show ?thesis using b c ne by auto
      next
        case 2
        then obtain k a e where "(v, k) \<in> set (adj u)" "vd_best s u = Some a" "vd_best s v = Some e" "a < e"
          using "2.prems"(1) unfolding links_inv_def by blast
        then show ?thesis using 2(1) closer by (cases "u = x") fastforce+
      qed
    next
      fix v assume "vd_best ?s v \<noteq> None" "v \<noteq> 0"
      then show "vd_predecessor ?s v \<noteq> None"
        using "2.prems"(1) unfolding links_inv_def by (auto split: if_splits)
    next
      fix e v assume "(e, v) \<in> set (vd_queue ?s)"
      then consider "e = d + c" "v = x" | "(e, v) \<in> set (vd_queue s)" by auto
      then show "\<exists>b. vd_best ?s v = Some b \<and> b \<le> e"
      proof cases
        case 2
        then obtain a where "vd_best s v = Some a" "a \<le> e"
          using "2.prems"(1) unfolding links_inv_def by blast
        with closer show ?thesis by (cases "v = x") fastforce+
      qed simp
    qed
    moreover have "\<exists>b. vd_best ?s node = Some b \<and> b \<le> d" using b ne by simp
    ultimately show ?thesis using "2.IH" True rest by (simp add: Let_def)
  next
    case False
    then show ?thesis using "2.IH" "2.prems"(1,2) rest by (simp add: Let_def)
  qed
qed

lemma search_step_links:
  assumes inv: "links_inv adj s" and run: "searching s"
    and ok: "edges_ok n adj" "dom (vd_best s) \<subseteq> {..<n}"
  shows "links_inv adj (search_step adj s)"
proof -
  obtain d v where m: "Min (set (vd_queue s)) = (d, v)" by fastforce
  have mem: "(d, v) \<in> set (vd_queue s)"
    using run m Min_in [of "set (vd_queue s)"] by (simp add: searching_def)
  let ?s = "s\<lparr>vd_queue := remove1 (d, v) (vd_queue s)\<rparr>"
  obtain b where b: "vd_best s v = Some b" "b \<le> d" using inv mem unfolding links_inv_def by blast
  have pop: "links_inv adj ?s" "links_inv adj (?s\<lparr>vd_stop := True\<rparr>)"
    using inv set_remove1_subset [of "(d, v)" "vd_queue s"] unfolding links_inv_def by (simp_all, blast+)
  have "links_inv adj (relax_edges d v (adj v) ?s)"
    using pop(1) b ok unfolding edges_ok_def by (intro relax_edges_links) auto
  with pop m b show ?thesis by (auto simp: search_step_def Let_def)
qed

lemma path_search_links:
  assumes "path_search_run adj = Some s" "edges_ok n adj" "0 < n"
  shows "links_inv adj s \<and> dom (vd_best s) \<subseteq> {..<n}"
proof -
  have "links_inv adj s \<and> frontier_inv n s"
    using assms(1) unfolding path_search_run_def
  proof (rule while_option_rule [where P = "\<lambda>s. links_inv adj s \<and> frontier_inv n s", rotated])
    show "links_inv adj search_start \<and> frontier_inv n search_start"
      using frontier_inv_start assms(3) by (auto simp: links_inv_def search_start_def)
    fix t assume "links_inv adj t \<and> frontier_inv n t" "searching t"
    moreover then have "dom (vd_best t) \<subseteq> {..<n}" by (simp add: frontier_inv_def)
    ultimately show "links_inv adj (search_step adj t) \<and> frontier_inv n (search_step adj t)"
      using search_step_links [OF _ _ assms(2), of t] search_step_progress [OF _ _ assms(2), of t] by blast
  qed
  then show ?thesis by (simp add: frontier_inv_def)
qed

lemma legs_snoc: "xs \<noteq> [] \<Longrightarrow> zip (xs @ [v]) (tl (xs @ [v])) = zip xs (tl xs) @ [(last xs, v)]"
proof (induction xs)
  case (Cons x xs)
  then show ?case by (cases xs) auto
qed simp

lemma legs_map:
  "(\<And>v w. (v, w) \<in> set (zip t (tl t)) \<Longrightarrow> Q (f v) (f w)) \<Longrightarrow> \<forall>(p, q)\<in>set (zip (map f t) (tl (map f t))). Q p q"
proof (induction t)
  case (Cons x t)
  then show ?case by (cases t) auto
qed simp

lemma trace_back_acc: "trace_back pred n v acc = trace_back pred n v [] @ acc"
proof (induction n arbitrary: v acc)
  case (Suc n)
  show ?case
  proof (cases "v = 0 \<or> pred v = None")
    case False
    then obtain p where "pred v = Some p" "v \<noteq> 0" by auto
    then show ?thesis using Suc [of p "v # acc"] Suc [of p "[v]"] by simp
  qed auto
qed simp

text \<open>The walk back from a reached node with enough fuel begins at node \<open>0\<close>, ends at the node and
  follows edges.\<close>

lemma trace_back_path:
  assumes "links_inv adj s" "dom (vd_best s) \<subseteq> {..<n}" "vd_best s v = Some b"
    and "card {u. \<exists>a. vd_best s u = Some a \<and> a < b} \<le> k"
  shows "hd (trace_back (vd_predecessor s) k v []) = 0 \<and> last (trace_back (vd_predecessor s) k v []) = v
    \<and> trace_back (vd_predecessor s) k v [] \<noteq> []
    \<and> (\<forall>(p, q)\<in>set (zip (trace_back (vd_predecessor s) k v []) (tl (trace_back (vd_predecessor s) k v []))).
         \<exists>c. (q, c) \<in> set (adj p))"
  using assms(3,4)
proof (induction k arbitrary: v b)
  case 0
  have fin: "finite {u. \<exists>a. vd_best s u = Some a \<and> a < b}"
    by (rule finite_subset [OF _ finite_lessThan [of n]]) (use assms(2) in auto)
  have "v = 0"
  proof (rule ccontr)
    assume "v \<noteq> 0"
    then obtain u where "vd_predecessor s v = Some u" using assms(1) "0.prems"(1) unfolding links_inv_def by blast
    then obtain a where "vd_best s u = Some a" "a < b" using assms(1) "0.prems"(1) unfolding links_inv_def by force
    with 0 fin show False by auto
  qed
  then show ?case by simp
next
  case (Suc k)
  show ?case
  proof (cases "v = 0")
    case False
    then obtain u where u: "vd_predecessor s v = Some u" using assms(1) Suc.prems(1) unfolding links_inv_def by blast
    then obtain a c where a: "vd_best s u = Some a" "a < b" "(v, c) \<in> set (adj u)"
      using assms(1) Suc.prems(1) unfolding links_inv_def by force
    let ?A = "\<lambda>x. {u. \<exists>a. vd_best s u = Some a \<and> a < x}"
    have fin: "finite (?A b)"
      by (rule finite_subset [OF _ finite_lessThan [of n]]) (use assms(2) in auto)
    have "u \<in> ?A b" "u \<notin> ?A a" using a by auto
    moreover have "?A a \<subseteq> ?A b" using a(2) by (auto intro: order.strict_trans)
    ultimately have "?A a \<subset> ?A b" by blast
    then have "card (?A a) \<le> k" using Suc.prems(2) psubset_card_mono [OF fin] by (metis (no_types, lifting) le_trans less_Suc_eq_le less_le_trans)
    note IH = Suc.IH [OF a(1) this]
    let ?t = "trace_back (vd_predecessor s) k u []"
    have t: "trace_back (vd_predecessor s) (Suc k) v [] = ?t @ [v]"
      using u False trace_back_acc [of _ k u "[v]"] by simp
    have tne: "?t \<noteq> []" using IH by simp
    show ?thesis unfolding t legs_snoc [OF tne] using IH a(3) by (auto simp: hd_append)
  qed simp
qed


lemma add_unseen_keeps: "distinct ps \<Longrightarrow> distinct (add_unseen ps vs) \<and> (\<exists>xs. add_unseen ps vs = ps @ xs)"
proof (induction vs arbitrary: ps)
  case (Cons v vs)
  then show ?case using Cons.IH [of "ps @ [v]"] Cons.IH [of ps] by auto
qed simp

lemma visibility_points_start:
  assumes "start \<noteq> goal"
  shows "distinct (visibility_points vs polygons start goal)"
    "visibility_points vs polygons start goal ! 0 = start" "visibility_points vs polygons start goal ! 1 = goal"
    "1 < length (visibility_points vs polygons start goal)"
proof -
  let ?vs = "concat (map (\<lambda>g. map prod.swap (butlast (vs_exterior vs g))) polygons)"
  have "distinct [start, goal]" using assms by simp
  from add_unseen_keeps [OF this, of ?vs] obtain xs where
    "distinct (visibility_points vs polygons start goal)"
    "visibility_points vs polygons start goal = start # goal # xs"
    by (auto simp: visibility_points_def)
  then show "distinct (visibility_points vs polygons start goal)"
    "visibility_points vs polygons start goal ! 0 = start" "visibility_points vs polygons start goal ! 1 = goal"
    "1 < length (visibility_points vs polygons start goal)" by simp_all
qed

lemma visible_neighbors_iff:
  "(w, c) \<in> set (visible_neighbors vs geodesic polygons points v) \<longleftrightarrow>
     w < length points \<and> w \<noteq> v \<and> clear_of_all vs polygons (points ! min v w) (points ! max v w)
     \<and> c = geodesic (points ! min v w) (points ! max v w)"
  by (auto simp: visible_neighbors_def List.map_filter_def Let_def)

lemma visible_neighbors_clear:
  "(w, c) \<in> set (visible_neighbors vs geodesic polygons points v) \<Longrightarrow>
     clear_of_all vs polygons (points ! v) (points ! w) \<or> clear_of_all vs polygons (points ! w) (points ! v)"
  unfolding visible_neighbors_iff by (cases "v \<le> w") (simp_all add: min_absorb1 max_absorb2 min_absorb2 max_absorb1)

text \<open>A geodesic that separates the points of a list.\<close>

definition separates :: "(point \<Rightarrow> point \<Rightarrow> real) \<Rightarrow> point list \<Rightarrow> bool" where
  "separates geodesic points \<longleftrightarrow> (\<forall>p\<in>set points. \<forall>q\<in>set points. p \<noteq> q \<longrightarrow> 0 < geodesic p q)"

lemma visible_neighbors_positive:
  assumes "separates geodesic points" "distinct points" "v < length points"
    and "(w, c) \<in> set (visible_neighbors vs geodesic polygons points v)"
  shows "0 < c"
proof -
  have "min v w < length points" "max v w < length points" "points ! min v w \<noteq> points ! max v w"
    using assms(2-4) by (auto simp: visible_neighbors_iff nth_eq_iff_index_eq min_def max_def)
  with assms(1,4) show ?thesis by (simp add: visible_neighbors_iff separates_def)
qed

subsection \<open>Segments of the horizon\<close>

lemma sorted_gaps:
  assumes "sorted xs" "distinct xs" "(a, b) \<in> set (zip xs (tl xs))"
  shows "a < b \<and> a \<in> set xs \<and> b \<in> set xs \<and> (\<forall>c\<in>set xs. c \<le> a \<or> b \<le> (c::int))"
  using assms
proof (induction xs)
  case (Cons x xs)
  then show ?case by (cases xs) (auto simp: less_le)
qed simp

lemma sorted_last: "sorted xs \<Longrightarrow> x \<in> set xs \<Longrightarrow> x \<le> last (xs :: int list)"
  by (induction xs) auto

lemma gap_around:
  assumes "xs \<noteq> []" "hd xs \<le> x" "x < last xs"
  shows "\<exists>(a, b)\<in>set (zip xs (tl xs)). a \<le> x \<and> x < (b::int)"
  using assms
proof (induction xs rule: list_nonempty_induct)
  case (cons y ys)
  obtain z zs where ys: "ys = z # zs" using cons(1) by (cases ys) auto
  show ?case
  proof (cases "x < z")
    case True
    then show ?thesis using cons.prems ys by simp
  next
    case False
    then show ?thesis using cons.IH cons.prems ys by auto
  qed
qed simp

lemma segment_cuts_set:
  "set (segment_cuts rs now_epoch horizon_s) =
     {0, horizon_s} \<union> {e. 0 < e \<and> e < horizon_s
        \<and> (\<exists>r\<in>set rs. \<exists>(ws, we)\<in>set (rr_windows r). e = ws - now_epoch \<or> e = we - now_epoch + 1)}"
proof -
  let ?es = "concat (map (\<lambda>r. concat (map (\<lambda>(ws, we). [ws - now_epoch, we - now_epoch + 1]) (rr_windows r))) rs)"
  have "e \<in> set ?es \<longleftrightarrow> (\<exists>r\<in>set rs. \<exists>(ws, we)\<in>set (rr_windows r). e = ws - now_epoch \<or> e = we - now_epoch + 1)" for e
    by (simp add: split_beta)
  then have es: "set ?es = {e. \<exists>r\<in>set rs. \<exists>(ws, we)\<in>set (rr_windows r). e = ws - now_epoch \<or> e = we - now_epoch + 1}"
    by blast
  have cuts: "set (sort (remdups (0 # h # filter P xs))) = {0, h} \<union> {e. P e \<and> e \<in> set xs}" for h :: int and P xs
    unfolding set_sort set_remdups by auto
  show ?thesis unfolding segment_cuts_def cuts es by (simp only: mem_Collect_eq conj_assoc)
qed

lemma segment_cuts_spec:
  assumes "0 < horizon_s"
  shows "sorted (segment_cuts rs now_epoch horizon_s)" "distinct (segment_cuts rs now_epoch horizon_s)"
    "hd (segment_cuts rs now_epoch horizon_s) = 0" "last (segment_cuts rs now_epoch horizon_s) = horizon_s"
    "segment_cuts rs now_epoch horizon_s \<noteq> []"
proof -
  let ?c = "segment_cuts rs now_epoch horizon_s"
  show s: "sorted ?c" and "distinct ?c" by (simp_all add: segment_cuts_def)
  have mem: "0 \<in> set ?c" "horizon_s \<in> set ?c" and range: "\<forall>x\<in>set ?c. 0 \<le> x \<and> x \<le> horizon_s"
    using assms by (auto simp: segment_cuts_set)
  then show ne: "?c \<noteq> []" by auto
  then have "hd ?c \<le> 0" using s mem(1) by (cases ?c) auto
  moreover have "0 \<le> hd ?c" using range ne by simp
  ultimately show "hd ?c = 0" by simp
  have "horizon_s \<le> last ?c" using sorted_last [OF s mem(2)] .
  moreover have "last ?c \<le> horizon_s" using range ne by simp
  ultimately show "last ?c = horizon_s" by simp
qed

lemma active_constant:
  assumes "(a, b) \<in> set (zip cuts (tl cuts))" "cuts = segment_cuts rs now_epoch horizon_s" "0 < horizon_s"
    and "a \<le> x" "x < b"
  shows "active_polygons rs (now_epoch + x) (now_epoch + x) = active_polygons rs (now_epoch + a) (now_epoch + a)"
proof -
  note gaps = sorted_gaps [OF segment_cuts_spec(1,2) [OF assms(3)] assms(1) [unfolded assms(2)]]
  have range: "0 \<le> a" "b \<le> horizon_s"
    using gaps assms(3) by (auto simp: segment_cuts_set)
  have same: "e \<le> a \<or> b \<le> e"
    if "r \<in> set rs" "(ws, we) \<in> set (rr_windows r)" "e = ws - now_epoch \<or> e = we - now_epoch + 1" for r ws we e
  proof (cases "0 < e \<and> e < horizon_s")
    case True
    then have "e \<in> set (segment_cuts rs now_epoch horizon_s)"
      using that by (fastforce simp: segment_cuts_set)
    with gaps show ?thesis by blast
  next
    case False
    with range show ?thesis by auto
  qed
  have "active_during (now_epoch + x) (now_epoch + x) r = active_during (now_epoch + a) (now_epoch + a) r"
    if r: "r \<in> set rs" for r
  proof -
    have "(now_epoch + x \<le> we \<and> ws \<le> now_epoch + x) = (now_epoch + a \<le> we \<and> ws \<le> now_epoch + a)"
      if "(ws, we) \<in> set (rr_windows r)" for ws we
      using same [OF r that, of "ws - now_epoch"] same [OF r that, of "we - now_epoch + 1"] assms(4,5) by auto
    then show ?thesis by (auto simp: active_during_def list_ex_iff)
  qed
  then show ?thesis by (simp add: active_polygons_def cong: filter_cong)
qed

subsection \<open>Properties\<close>


text \<open>The restriction segments partition the planning horizon: every second of it lies in exactly
  one segment, whose polygons are those active at that second.\<close>

lemma horizon_segments_exact:
  assumes "0 \<le> x" "x < horizon_s"
  shows "\<exists>!s. s \<in> set (horizon_restriction_segments rs now_epoch horizon_s)
      \<and> seg_start s \<le> x \<and> x < seg_end s
      \<and> seg_polygons s = active_polygons rs (now_epoch + x) (now_epoch + x)"
proof -
  have pos: "0 < horizon_s" using assms by linarith
  let ?c = "segment_cuts rs now_epoch horizon_s"
  note spec = segment_cuts_spec [OF pos, of rs now_epoch]
  obtain a b where ab: "(a, b) \<in> set (zip ?c (tl ?c))" "a \<le> x" "x < b"
    using gap_around [OF spec(5), of x] assms spec(3,4) by auto
  let ?seg = "\<lambda>(a, b). \<lparr>seg_start = a, seg_end = b, seg_polygons = active_polygons rs (now_epoch + a) (now_epoch + a)\<rparr>"
  have segs: "set (horizon_restriction_segments rs now_epoch horizon_s) = ?seg ` set (zip ?c (tl ?c))"
    by (simp add: horizon_restriction_segments_def Let_def)
  show ?thesis
  proof (rule ex1I [of _ "?seg (a, b)"])
    show "?seg (a, b) \<in> set (horizon_restriction_segments rs now_epoch horizon_s)
        \<and> seg_start (?seg (a, b)) \<le> x \<and> x < seg_end (?seg (a, b))
        \<and> seg_polygons (?seg (a, b)) = active_polygons rs (now_epoch + x) (now_epoch + x)"
      using ab active_constant [OF ab(1) refl pos ab(2,3)] segs by auto
  next
    fix s assume s: "s \<in> set (horizon_restriction_segments rs now_epoch horizon_s)
        \<and> seg_start s \<le> x \<and> x < seg_end s
        \<and> seg_polygons s = active_polygons rs (now_epoch + x) (now_epoch + x)"
    then obtain a' b' where ab': "(a', b') \<in> set (zip ?c (tl ?c))" "s = ?seg (a', b')" "a' \<le> x" "x < b'"
      by (auto simp: segs)
    note g = sorted_gaps [OF spec(1,2) ab(1)] and g' = sorted_gaps [OF spec(1,2) ab'(1)]
    have "a' \<le> a \<or> b \<le> a'" "b' \<le> a \<or> b \<le> b'" "a \<le> a' \<or> b' \<le> a" "b \<le> a' \<or> b' \<le> b"
      using g g' by blast+
    then have "a = a'" "b = b'" using g g' ab(2,3) ab'(3,4) by linarith+
    with ab' show "s = ?seg (a, b)" by simp
  qed
qed


subsection \<open>Closed instances\<close>

text \<open>One obstacle that hides the goal from the start, with two vertices to go round.\<close>

definition sample_visibility :: "unit visibility" where
  "sample_visibility =
     \<lparr>vs_shapely = sample_shapely\<lparr>is_empty_geom := (\<lambda>_. False), planar_area := (\<lambda>_. 1)\<rparr>,
      vs_parts = (\<lambda>g. [g]), vs_contains = (\<lambda>_ _. False),
      vs_clear = (\<lambda>p q _. (p, q) \<noteq> ((0, 0), (4, 0))), vs_exterior = (\<lambda>_. [(2, 2), (5, 5), (2, 2)])\<rparr>"

definition sample_obstacles :: "point list list" where
  "sample_obstacles = [[(0, 1), (1, 1), (1, 0)]]"

definition manhattan :: "point \<Rightarrow> point \<Rightarrow> real" where
  "manhattan p q = \<bar>fst p - fst q\<bar> + \<bar>snd p - snd q\<bar>"

lemma sample_path:
  "shortest_path_around_polygons sample_visibility manhattan (0, 0) (0, 4) sample_obstacles = [(0, 0), (2, 2), (0, 4)]"
  by code_simp


lemma horizon_segments_exact_witness:
  "\<exists>!s. s \<in> set (horizon_restriction_segments [\<lparr>rr_polygon = [], rr_windows = [(10, 20)]\<rparr>] 0 100)
      \<and> seg_start s \<le> 15 \<and> 15 < seg_end s
      \<and> seg_polygons s = active_polygons [\<lparr>rr_polygon = [], rr_windows = [(10, 20)]\<rparr>] (0 + 15) (0 + 15)"
  by (rule horizon_segments_exact) simp_all

end
