(* ===== verification/ClusterContext.thy ===== *)
theory ClusterContext
  imports RouteGeography Allocation
begin

text \<open>
  Preparation of one cluster for routing: the load, penalty and capability helpers
  (\<open>solver/cluster/loads.py\<close>, \<open>penalties.py\<close>, \<open>bundles.py\<close>), the routing context and its early
  results (\<open>context.py\<close>), the infeasibility records (\<open>infeasible.py\<close>), the attribution of a
  resource conflict (\<open>conflict.py\<close>), the node table (\<open>solver/routing_model.py\<close>) and the
  capacity-aware warm start (\<open>warm_start.py\<close>). The lemmas show that a preparation loses no known
  task, and that a warm route visits no node twice, respects the bundles' capabilities and
  never overfills a compartment between two reloads.
\<close>

subsection \<open>Loads, penalties, capabilities\<close>

text \<open>The tunable constants of the cluster solve.\<close>

record cluster_constants =
  cc_unlimited_kg :: real
  cc_reload_enabled :: bool
  cc_reload_service_s :: int
  cc_reload_max_trips :: int
  cc_tight_utilization :: real
  cc_max_refinements :: nat
  cc_solve_time_limit_s :: int
  cc_lns_enabled :: bool
  cc_lns_time_limit_s :: int
  cc_lns_min_penalty :: real
  cc_material_fill_ratio :: real
  cc_completion_weight :: int
  cc_urgency_calibration :: bool
  cc_class_weight_step :: int
  cc_baseline_class :: int
  cc_slack_bonus :: int
  cc_slack_reference_s :: int

definition default_constants :: cluster_constants where
  "default_constants =
     \<lparr>cc_unlimited_kg = 1000000000, cc_reload_enabled = True, cc_reload_service_s = 900, cc_reload_max_trips = 3,
      cc_tight_utilization = 85 / 100, cc_max_refinements = 3, cc_solve_time_limit_s = 60,
      cc_lns_enabled = False, cc_lns_time_limit_s = 10, cc_lns_min_penalty = 1000,
      cc_material_fill_ratio = 8 / 10, cc_completion_weight = 1, cc_urgency_calibration = False,
      cc_class_weight_step = 1, cc_baseline_class = 5, cc_slack_bonus = 4, cc_slack_reference_s = 604800\<rparr>"

definition load_kg :: "real \<Rightarrow> real" where
  "load_kg x = max 0 x"

text \<open>A compartment's value may be any Python value; one that is no number counts as \<open>0\<close>.\<close>

definition load_kg_value :: "runtime \<Rightarrow> py_val \<Rightarrow> real" where
  "load_kg_value rt v = (if truthy v then case py_float rt v of None \<Rightarrow> 0 | Some x \<Rightarrow> max 0 x else 0)"

definition compartment_capacity_kg :: "cluster_constants \<Rightarrow> runtime \<Rightarrow> prime_mover_row \<Rightarrow> string \<Rightarrow> real" where
  "compartment_capacity_kg cc rt prime material =
     (let own = (if material = '''' then VNone
                 else case load_capacities prime of VDict d \<Rightarrow> dget_default d material VNone | _ \<Rightarrow> VNone);
          capacity = (if own = VNone then load_kg (load_capacity prime) else load_kg_value rt own)
      in if capacity > 0 then capacity else cc_unlimited_kg cc)"

definition min_drop_penalty_s :: int where
  "min_drop_penalty_s = 3 * 24 * 3600"

definition eur_to_penalty_seconds :: real where
  "eur_to_penalty_seconds = 600"

definition order_drop_penalty_s :: "task_row \<Rightarrow> int" where
  "order_drop_penalty_s order =
     max min_drop_penalty_s
       (py_int ((max 0 (revenue order) + max 0 (penalty_per_day order) * 3) * eur_to_penalty_seconds))"

definition bundle_supports_operation :: "runtime \<Rightarrow> routing_vehicle \<Rightarrow> string \<Rightarrow> bool" where
  "bundle_supports_operation rt rv op =
     (let prime_ops = ops_set rt (pm_compatible_operations (rv_prime rv));
          related_ops = ops_set rt (rel_compatible_operations (rv_related rv)) in
      (prime_ops = [] \<or> op \<in> set prime_ops) \<and> (related_ops = [] \<or> op \<in> set related_ops))"

subsection \<open>Infeasibility records\<close>

definition mark_all_infeasible :: "cluster_spec \<Rightarrow> reason_code \<Rightarrow> detail \<Rightarrow> infeasible list" where
  "mark_all_infeasible cd r d = map (\<lambda>t. mk_infeasible t (cluster_id cd) r d) (task_ids cd)"

definition unserved_record :: "string \<Rightarrow> string \<Rightarrow> infeasible" where
  "unserved_record t cid = mk_infeasible t cid OPTIMIZATION_TRADEOFF NotAssigned"

definition group_of :: "(string \<Rightarrow> task_row option) \<Rightarrow> string \<Rightarrow> string" where
  "group_of order_map t = (case order_map t of None \<Rightarrow> '''' | Some r \<Rightarrow> alternative_group_ref r)"

definition group_members :: "(string \<Rightarrow> task_row option) \<Rightarrow> string list \<Rightarrow> (string, string list) dict" where
  "group_members order_map ts =
     fold (\<lambda>t d. if group_of order_map t = '''' then d else dappend (group_of order_map t) t d) ts []"

definition unserved_orders ::
  "string list \<Rightarrow> string \<Rightarrow> string set \<Rightarrow> task_row list \<Rightarrow> infeasible list" where
  "unserved_orders ts cid served orders =
     (if orders = [] then map (\<lambda>t. unserved_record t cid) (filter (\<lambda>t. t \<notin> served) ts)
      else
        let order_map = index_orders orders in
        map (\<lambda>t. unserved_record t cid)
          (filter (\<lambda>t. group_of order_map t = '''' \<and> t \<notin> served) ts)
        @ map (\<lambda>(g, members). mk_infeasible g cid OPTIMIZATION_TRADEOFF (NoAlternativeRouted g members))
            (filter (\<lambda>(g, members). served \<inter> set members = {})
              (sort_key id (group_members order_map ts))))"

subsection \<open>The routing context\<close>

record cluster_context =
  cx_cluster_id :: string
  cx_task_ids :: "string list"
  cx_depot_id :: string
  cx_orders :: "task_row list"
  cx_field_map :: "(string, site_row) dict"
  cx_pickup_map :: "(string, point) dict"
  cx_vehicles :: "routing_vehicle list"
  cx_depot :: point
  cx_travel :: travel_lookup
  cx_blocked :: "(string, interval list) dict"
  cx_pre_infeasible :: "infeasible list"

text \<open>The rows a cluster solve reads.\<close>

record solve_rows =
  sr_orders :: "task_row list"
  sr_vehicles :: "prime_mover_row list"
  sr_implements :: "related_row list"
  sr_sites :: "site_row list"
  sr_depots :: "depot_row list"

text \<open>\<open>{key(x): x for x in xs}\<close>.\<close>

definition dict_by :: "('a \<Rightarrow> string) \<Rightarrow> 'a list \<Rightarrow> (string, 'a) dict" where
  "dict_by key xs = fold (\<lambda>x. AList.update (key x) x) xs []"

definition routing_vehicles ::
  "(string, string list) dict \<Rightarrow> (string, prime_mover_row) dict \<Rightarrow> (string, related_row) dict \<Rightarrow> routing_vehicle list" where
  "routing_vehicles allocated vehicle_map implement_map =
     List.map_filter (\<lambda>(v, is).
       case is of [] \<Rightarrow> None
       | i # _ \<Rightarrow>
           (case (map_of vehicle_map v, map_of implement_map i) of
              (Some p, Some r) \<Rightarrow> Some \<lparr>rv_prime = p, rv_related = r\<rparr>
            | _ \<Rightarrow> None)) allocated"

definition served_by_any :: "runtime \<Rightarrow> routing_vehicle list \<Rightarrow> task_row \<Rightarrow> bool" where
  "served_by_any rt rvs order = list_ex (\<lambda>rv. bundle_supports_operation rt rv (py_upper (operation_type order))) rvs"

definition filter_orders_by_bundles ::
  "runtime \<Rightarrow> string \<Rightarrow> task_row list \<Rightarrow> routing_vehicle list \<Rightarrow> task_row list \<times> infeasible list" where
  "filter_orders_by_bundles rt cid orders rvs =
     (filter (served_by_any rt rvs) orders,
      map (\<lambda>order. mk_infeasible (task_id order) cid NO_COMPATIBLE_BUNDLE
             (BundleCannotServe (py_upper (operation_type order)) (task_id order)))
        (filter (\<lambda>order. \<not> served_by_any rt rvs order) orders))"

text \<open>\<open>Inr\<close> is the early result: the records of the tasks that are not routed.\<close>

definition prepare_cluster_context ::
  "runtime \<Rightarrow> cluster_spec \<Rightarrow> solve_rows \<Rightarrow> travel_lookup \<Rightarrow> (string, interval list) dict
   \<Rightarrow> cluster_context + infeasible list" where
  "prepare_cluster_context rt cd rows L blocked =
     (if task_ids cd = [] then Inr []
      else
        let order_map = index_orders (sr_orders rows);
            field_map = dict_by site_id (sr_sites rows);
            depot_map = dict_by depot_id (sr_depots rows);
            cluster_orders = List.map_filter order_map (task_ids cd) in
        if cluster_orders = [] then Inr (mark_all_infeasible cd UNKNOWN OrdersNotFound)
        else
          case map_of depot_map (depot_ref cd) of
            None \<Rightarrow> Inr (mark_all_infeasible cd LOCATION_DATA_INVALID (DepotNotFound (depot_ref cd)))
          | Some depot \<Rightarrow>
              let rvs = routing_vehicles (allocated_prime_related cd) (dict_by pm_asset_id (sr_vehicles rows))
                          (dict_by rel_asset_id (sr_implements rows)) in
              if rvs = [] then Inr (mark_all_infeasible cd NO_COMPATIBLE_BUNDLE NoFeasiblePairs)
              else
                let (kept, pre) = filter_orders_by_bundles rt (cluster_id cd) cluster_orders rvs in
                if kept = [] then Inr pre
                else Inl
                  \<lparr>cx_cluster_id = cluster_id cd, cx_task_ids = map task_id kept, cx_depot_id = depot_ref cd,
                   cx_orders = kept, cx_field_map = field_map,
                   cx_pickup_map =
                     map (\<lambda>(k, s). (k, (site_lat s, site_lon s))) field_map
                     @ map (\<lambda>(k, d). (k, (depot_lat d, depot_lon d))) depot_map,
                   cx_vehicles = rvs, cx_depot = (depot_lat depot, depot_lon depot), cx_travel = L,
                   cx_blocked = blocked, cx_pre_infeasible = pre\<rparr>)"

subsection \<open>Resource conflicts\<close>

datatype binding_resource =
  BNone | BFleet | BTime | BOther | BSolveBudget | BInfeasible | BCapacity string

record resource_conflict =
  rc_binding :: binding_resource
  rc_binding_utilization :: real
  rc_n_unserved :: nat
  rc_vehicle_utilization :: real
  rc_time_utilization :: real
  rc_capacity_utilization :: "(string, real) dict"

definition peak_capacity :: "(string, real) dict \<Rightarrow> string \<times> real" where
  "peak_capacity cap =
     (case max_by snd (sort_key fst cap) of None \<Rightarrow> ('''', 0) | Some x \<Rightarrow> x)"

definition build_resource_conflict ::
  "real \<Rightarrow> nat \<Rightarrow> nat \<Rightarrow> nat \<Rightarrow> real \<Rightarrow> (string, real) dict \<Rightarrow> resource_conflict" where
  "build_resource_conflict tight n_unserved n_vehicles n_used time_utilization cap =
     (let vehicle_utilization = (if n_vehicles = 0 then 0 else real n_used / real n_vehicles);
          (material, peak) = peak_capacity cap;
          (b, u) =
            (if n_unserved = 0 then (BNone, 0)
             else if peak \<ge> tight then (BCapacity material, peak)
             else if time_utilization \<ge> tight then (BTime, time_utilization)
             else if vehicle_utilization \<ge> 1 then (BFleet, vehicle_utilization)
             else (BOther, max peak (max time_utilization vehicle_utilization)))
      in \<lparr>rc_binding = b, rc_binding_utilization = py_round 3 u, rc_n_unserved = n_unserved,
          rc_vehicle_utilization = py_round 3 vehicle_utilization,
          rc_time_utilization = py_round 3 time_utilization,
          rc_capacity_utilization = map (\<lambda>(m, x). (m, py_round 3 x)) (sort_key fst cap)\<rparr>)"

definition no_solution_conflict :: "bool \<Rightarrow> nat \<Rightarrow> resource_conflict" where
  "no_solution_conflict hit_time_limit n_unserved =
     \<lparr>rc_binding = (if hit_time_limit then BSolveBudget else BInfeasible), rc_binding_utilization = 0,
      rc_n_unserved = n_unserved, rc_vehicle_utilization = 0, rc_time_utilization = 0,
      rc_capacity_utilization = []\<rparr>"

subsection \<open>The node table\<close>

datatype node_kind = NDepot | NTask | NPickup | NReload

text \<open>\<open>rn_order\<close> is \<open>None\<close> where the source has the index \<open>-1\<close>.\<close>

record routing_node =
  rn_kind :: node_kind
  rn_order :: "nat option"
  rn_location :: string
  rn_point :: point

definition order_nodes :: "cluster_context \<Rightarrow> nat \<times> task_row \<Rightarrow> routing_node list" where
  "order_nodes cx io =
     (case io of (i, order) \<Rightarrow>
       (if pickup_location_ref order = '''' then []
        else [\<lparr>rn_kind = NPickup, rn_order = Some i, rn_location = pickup_location_ref order,
               rn_point = (case map_of (cx_pickup_map cx) (pickup_location_ref order) of
                             None \<Rightarrow> cx_depot cx | Some p \<Rightarrow> p)\<rparr>])
       @ [\<lparr>rn_kind = NTask, rn_order = Some i, rn_location = location_ref order,
           rn_point = (case map_of (cx_field_map cx) (location_ref order) of
                         None \<Rightarrow> cx_depot cx | Some s \<Rightarrow> (site_lat s, site_lon s))\<rparr>])"

definition build_node_table :: "cluster_context \<Rightarrow> nat \<Rightarrow> routing_node list" where
  "build_node_table cx n_reloads =
     \<lparr>rn_kind = NDepot, rn_order = None, rn_location = cx_depot_id cx, rn_point = cx_depot cx\<rparr>
     # concat (map (order_nodes cx) (enumerate 0 (cx_orders cx)))
     @ replicate n_reloads
         \<lparr>rn_kind = NReload, rn_order = None, rn_location = cx_depot_id cx, rn_point = cx_depot cx\<rparr>"

definition node_indices :: "node_kind \<Rightarrow> routing_node list \<Rightarrow> nat \<Rightarrow> nat option" where
  "node_indices kind nodes i =
     find (\<lambda>k. rn_kind (nodes ! k) = kind \<and> rn_order (nodes ! k) = Some i) [0..<length nodes]"

definition reload_nodes :: "routing_node list \<Rightarrow> nat list" where
  "reload_nodes nodes = filter (\<lambda>k. rn_kind (nodes ! k) = NReload) [0..<length nodes]"

subsection \<open>The capacity-aware warm start\<close>

record warm_state =
  ws_routes :: "nat list list"
  ws_loads :: "(string, real) dict list"
  ws_counts :: "nat list"
  ws_reloads :: "nat list"
  ws_groups :: "string list"

definition preferred_route ::
  "string \<Rightarrow> (string, nat \<times> nat) dict \<Rightarrow> (string, nat) dict \<Rightarrow> routing_vehicle list \<Rightarrow> nat list \<Rightarrow> nat option" where
  "preferred_route t greedy vehicle_index rvs compatible =
     (case map_of greedy t of
        None \<Rightarrow> None
      | Some (v, i) \<Rightarrow>
          let asset = (case map_of (rev (map prod.swap vehicle_index)) v of None \<Rightarrow> '''' | Some a \<Rightarrow> a) in
          case map_of (rev (map (\<lambda>(k, rv). (pm_asset_id (rv_prime rv), k)) (enumerate 0 rvs))) asset of
            None \<Rightarrow> None
          | Some k \<Rightarrow> if k \<in> set compatible then Some k else None)"

definition current_load :: "(string, real) dict \<Rightarrow> string \<Rightarrow> real" where
  "current_load loads material = dget_default loads material 0"

definition select_route ::
  "(nat \<Rightarrow> real) \<Rightarrow> nat list \<Rightarrow> nat option \<Rightarrow> warm_state \<Rightarrow> string \<Rightarrow> real \<Rightarrow> bool \<Rightarrow> nat option" where
  "select_route capacity compatible preferred ws material demand paired =
     map_option (snd \<circ> snd \<circ> snd)
       (min_by id (List.map_filter (\<lambda>r.
          if demand > capacity r then None
          else Some (preferred \<noteq> Some r,
                     \<not> paired \<and> current_load (ws_loads ws ! r) material + demand > capacity r,
                     ws_counts ws ! r, r)) compatible))"

definition append_to :: "nat \<Rightarrow> 'a list \<Rightarrow> 'a list list \<Rightarrow> 'a list list" where
  "append_to r xs routes = routes[r := routes ! r @ xs]"

definition stops_of :: "routing_node list \<Rightarrow> nat \<Rightarrow> nat list" where
  "stops_of nodes i = (case node_indices NPickup nodes i of None \<Rightarrow> [] | Some p \<Rightarrow> [p])
     @ (case node_indices NTask nodes i of None \<Rightarrow> [] | Some k \<Rightarrow> [k])"

text \<open>The pickup and the task join the route; a plain load stays on board.\<close>

definition add_stops :: "routing_node list \<Rightarrow> nat \<Rightarrow> task_row \<Rightarrow> nat \<Rightarrow> warm_state \<Rightarrow> warm_state" where
  "add_stops nodes i order r ws =
     (let demand = load_kg (load_demand order); material = load_material order; loads = ws_loads ws ! r in
      ws\<lparr>ws_routes := append_to r (stops_of nodes i) (ws_routes ws),
         ws_loads := (if node_indices NPickup nodes i = None \<and> demand > 0
                      then (ws_loads ws)[r := AList.update material (current_load loads material + demand) loads]
                      else ws_loads ws),
         ws_counts := (ws_counts ws)[r := Suc (ws_counts ws ! r)],
         ws_groups := (if alternative_group_ref order = '''' then ws_groups ws
                       else alternative_group_ref order # ws_groups ws)\<rparr>)"

definition place_order ::
  "(nat \<Rightarrow> real) \<Rightarrow> routing_node list \<Rightarrow> nat \<Rightarrow> task_row \<Rightarrow> nat \<Rightarrow> warm_state \<Rightarrow> warm_state" where
  "place_order capacity nodes i order r ws =
     (if node_indices NPickup nodes i = None
         \<and> current_load (ws_loads ws ! r) (load_material order) + load_kg (load_demand order) > capacity r
      then case find (\<lambda>k. k \<notin> set (ws_reloads ws)) (reload_nodes nodes) of
             None \<Rightarrow> ws
           | Some k \<Rightarrow>
               add_stops nodes i order r
                 (ws\<lparr>ws_routes := append_to r [k] (ws_routes ws), ws_reloads := k # ws_reloads ws,
                     ws_loads := (ws_loads ws)[r := []]\<rparr>)
      else add_stops nodes i order r ws)"

definition warm_step ::
  "cluster_constants \<Rightarrow> runtime \<Rightarrow> cluster_context \<Rightarrow> (string, nat \<times> nat) dict \<Rightarrow> (string, nat) dict
   \<Rightarrow> routing_node list \<Rightarrow> nat \<times> task_row \<Rightarrow> warm_state \<Rightarrow> warm_state" where
  "warm_step cc rt cx greedy vehicle_index nodes io ws =
     (case io of (i, order) \<Rightarrow>
       if alternative_group_ref order \<noteq> '''' \<and> alternative_group_ref order \<in> set (ws_groups ws) then ws
       else
         let compatible = filter (\<lambda>r. bundle_supports_operation rt (cx_vehicles cx ! r) (py_upper (operation_type order)))
               [0..<length (cx_vehicles cx)] in
         if compatible = [] then ws
         else
           let capacity = (\<lambda>r. compartment_capacity_kg cc rt (rv_prime (cx_vehicles cx ! r)) (load_material order)) in
           case select_route capacity compatible
                  (preferred_route (task_id order) greedy vehicle_index (cx_vehicles cx) compatible) ws
                  (load_material order) (load_kg (load_demand order)) (node_indices NPickup nodes i \<noteq> None) of
             None \<Rightarrow> ws
           | Some r \<Rightarrow> place_order capacity nodes i order r ws)"

definition warm_start_state ::
  "cluster_constants \<Rightarrow> runtime \<Rightarrow> cluster_context \<Rightarrow> (string, nat \<times> nat) dict \<Rightarrow> (string, nat) dict
   \<Rightarrow> routing_node list \<Rightarrow> warm_state" where
  "warm_start_state cc rt cx greedy vehicle_index nodes =
     fold (warm_step cc rt cx greedy vehicle_index nodes) (enumerate 0 (cx_orders cx))
       (let n = length (cx_vehicles cx) in
        \<lparr>ws_routes = replicate n [], ws_loads = replicate n [], ws_counts = replicate n 0,
         ws_reloads = [], ws_groups = []\<rparr>)"

definition build_capacity_aware_initial_routes ::
  "cluster_constants \<Rightarrow> runtime \<Rightarrow> cluster_context \<Rightarrow> (string, nat \<times> nat) dict \<Rightarrow> (string, nat) dict
   \<Rightarrow> routing_node list \<Rightarrow> nat list list" where
  "build_capacity_aware_initial_routes cc rt cx greedy vehicle_index nodes =
     ws_routes (warm_start_state cc rt cx greedy vehicle_index nodes)"

subsection \<open>A preparation loses no known task\<close>

lemma known_ids: "map task_id (List.map_filter (index_orders orders) ts) = filter (\<lambda>t. index_orders orders t \<noteq> None) ts"
  by (induction ts) (auto simp: List.map_filter_simps index_orders_id split: option.splits)

lemma mset_filter_orders:
  "mset (map task_id (fst (filter_orders_by_bundles rt cid orders rvs)))
     + mset (map inf_task_id (snd (filter_orders_by_bundles rt cid orders rvs))) = mset (map task_id orders)"
proof -
  have "mset (map task_id orders) = mset (map task_id (filter (\<lambda>x. \<not> \<not> served_by_any rt rvs x) orders))
      + mset (map task_id (filter (\<lambda>x. \<not> served_by_any rt rvs x) orders))"
    by (rule mset_map_filter_split)
  then show ?thesis by (simp add: filter_orders_by_bundles_def comp_def)
qed

lemma mark_all_ids [simp]: "map inf_task_id (mark_all_infeasible cd r d) = task_ids cd"
  by (simp add: mark_all_infeasible_def comp_def)

subsection \<open>The node table\<close>

lemma node_indices_Some:
  "node_indices kind nodes i = Some k \<Longrightarrow>
     k < length nodes \<and> rn_kind (nodes ! k) = kind \<and> rn_order (nodes ! k) = Some i"
  by (auto simp: node_indices_def find_Some_iff)

lemma node_indices_None:
  "node_indices kind nodes i = None \<longleftrightarrow> (\<forall>x\<in>set nodes. rn_kind x = kind \<longrightarrow> rn_order x \<noteq> Some i)"
  by (simp add: node_indices_def find_None_iff) (metis in_set_conv_nth)

lemma set_node_table:
  "x \<in> set (build_node_table cx n) \<Longrightarrow>
     rn_kind x \<noteq> NTask \<and> rn_kind x \<noteq> NPickup \<and> rn_order x = None
     \<or> (\<exists>i. i < length (cx_orders cx) \<and> x \<in> set (order_nodes cx (i, cx_orders cx ! i)))"
  by (auto simp: build_node_table_def in_set_enumerate_eq)

lemma order_nodes_in_table:
  "i < length (cx_orders cx) \<Longrightarrow> x \<in> set (order_nodes cx (i, cx_orders cx ! i)) \<Longrightarrow> x \<in> set (build_node_table cx n)"
  by (auto simp: build_node_table_def in_set_enumerate_eq)

lemma order_nodes_order: "x \<in> set (order_nodes cx (i, order)) \<Longrightarrow> rn_order x = Some i"
  by (auto simp: order_nodes_def split: if_splits)

lemma pickup_node_iff:
  assumes "i < length (cx_orders cx)"
  shows "node_indices NPickup (build_node_table cx n) i = None \<longleftrightarrow> pickup_location_ref (cx_orders cx ! i) = ''''"
proof
  assume "node_indices NPickup (build_node_table cx n) i = None"
  then have none: "x \<in> set (order_nodes cx (i, cx_orders cx ! i)) \<Longrightarrow> rn_kind x \<noteq> NPickup" for x
    using order_nodes_in_table [OF assms, of x n] order_nodes_order [of x] unfolding node_indices_None by blast
  show "pickup_location_ref (cx_orders cx ! i) = ''''"
  proof (rule ccontr)
    assume "pickup_location_ref (cx_orders cx ! i) \<noteq> ''''"
    then have "\<exists>x\<in>set (order_nodes cx (i, cx_orders cx ! i)). rn_kind x = NPickup"
      by (simp add: order_nodes_def)
    with none show False by blast
  qed
next
  assume e: "pickup_location_ref (cx_orders cx ! i) = ''''"
  show "node_indices NPickup (build_node_table cx n) i = None"
    unfolding node_indices_None
  proof (intro ballI impI notI)
    fix x assume x: "x \<in> set (build_node_table cx n)" "rn_kind x = NPickup" "rn_order x = Some i"
    then have "x \<in> set (order_nodes cx (i, cx_orders cx ! i))"
      using set_node_table [OF x(1)] order_nodes_order by fastforce
    with x(2) e show False by (auto simp: order_nodes_def)
  qed
qed

lemma task_node_ex:
  assumes "i < length (cx_orders cx)"
  shows "\<exists>k. node_indices NTask (build_node_table cx n) i = Some k"
proof -
  have "\<exists>x\<in>set (order_nodes cx (i, cx_orders cx ! i)). rn_kind x = NTask \<and> rn_order x = Some i"
    by (simp add: order_nodes_def)
  then have "node_indices NTask (build_node_table cx n) i \<noteq> None"
    using order_nodes_in_table [OF assms] node_indices_None by blast
  then show ?thesis by blast
qed

subsection \<open>The warm routes respect compartments and capabilities\<close>

text \<open>The load on board along a route, per material: a reload empties the vehicle, a plain task adds
  its demand, \<open>None\<close> when that overfills the compartment.\<close>

fun replay ::
  "(string \<Rightarrow> real) \<Rightarrow> routing_node list \<Rightarrow> task_row list \<Rightarrow> (string \<Rightarrow> real) \<Rightarrow> nat list \<Rightarrow> (string \<Rightarrow> real) option" where
  "replay cap nodes orders loads [] = Some loads"
| "replay cap nodes orders loads (k # ks) =
     (case (rn_kind (nodes ! k), rn_order (nodes ! k)) of
        (NReload, _) \<Rightarrow> replay cap nodes orders (\<lambda>_. 0) ks
      | (NTask, Some i) \<Rightarrow>
          let order = orders ! i; m = load_material order; filled = loads m + load_kg (load_demand order) in
          if pickup_location_ref order \<noteq> '''' then replay cap nodes orders loads ks
          else if filled > cap m then None
          else replay cap nodes orders (loads(m := filled)) ks
      | _ \<Rightarrow> replay cap nodes orders loads ks)"

lemma replay_append:
  "replay cap nodes orders loads (xs @ ys) =
     (case replay cap nodes orders loads xs of None \<Rightarrow> None | Some l \<Rightarrow> replay cap nodes orders l ys)"
proof (induction xs arbitrary: loads)
  case (Cons k xs)
  then show ?case
    by (cases "rn_kind (nodes ! k)"; cases "rn_order (nodes ! k)") (simp_all add: Let_def)
qed simp

definition capacity_of :: "cluster_constants \<Rightarrow> runtime \<Rightarrow> cluster_context \<Rightarrow> nat \<Rightarrow> string \<Rightarrow> real" where
  "capacity_of cc rt cx r m = compartment_capacity_kg cc rt (rv_prime (cx_vehicles cx ! r)) m"

definition supports :: "runtime \<Rightarrow> cluster_context \<Rightarrow> nat \<Rightarrow> nat \<Rightarrow> bool" where
  "supports rt cx r i = bundle_supports_operation rt (cx_vehicles cx ! r) (py_upper (operation_type (cx_orders cx ! i)))"

definition warm_inv ::
  "cluster_constants \<Rightarrow> runtime \<Rightarrow> cluster_context \<Rightarrow> routing_node list \<Rightarrow> nat \<Rightarrow> warm_state \<Rightarrow> bool" where
  "warm_inv cc rt cx nodes i ws \<longleftrightarrow>
     length (ws_routes ws) = length (cx_vehicles cx) \<and> length (ws_loads ws) = length (cx_vehicles cx)
     \<and> distinct (concat (ws_routes ws))
     \<and> (\<forall>k\<in>set (concat (ws_routes ws)).
          rn_kind (nodes ! k) = NReload \<and> k \<in> set (ws_reloads ws) \<or> (\<exists>j<i. rn_order (nodes ! k) = Some j))
     \<and> (\<forall>r<length (cx_vehicles cx).
          replay (capacity_of cc rt cx r) nodes (cx_orders cx) (\<lambda>_. 0) (ws_routes ws ! r)
            = Some (current_load (ws_loads ws ! r))
          \<and> (\<forall>k\<in>set (ws_routes ws ! r). \<forall>j. rn_kind (nodes ! k) = NTask \<longrightarrow> rn_order (nodes ! k) = Some j
               \<longrightarrow> supports rt cx r j))"

lemma mset_append_to:
  "r < length routes \<Longrightarrow> mset (concat (append_to r xs routes)) = mset (concat routes) + mset xs"
proof (induction routes arbitrary: r)
  case (Cons x routes)
  then show ?case by (cases r) (auto simp: append_to_def)
qed simp

lemma distinct_append_to:
  assumes "r < length routes"
  shows "distinct (concat (append_to r xs routes)) \<longleftrightarrow> distinct (concat routes @ xs)"
    and "set (concat (append_to r xs routes)) = set (concat routes @ xs)"
proof -
  have "mset (concat (append_to r xs routes)) = mset (concat routes @ xs)" using mset_append_to [OF assms] by simp
  then show "distinct (concat (append_to r xs routes)) \<longleftrightarrow> distinct (concat routes @ xs)"
    and "set (concat (append_to r xs routes)) = set (concat routes @ xs)"
    by (rule mset_eq_imp_distinct_iff, rule mset_eq_setD)
qed

lemma current_load_Nil [simp]: "current_load [] = (\<lambda>_. 0)"
  by (simp add: current_load_def dget_default_def fun_eq_iff)

lemma current_load_update [simp]: "current_load (AList.update m x loads) = (current_load loads)(m := x)"
  by (simp add: current_load_def dget_default_def map_of_update fun_eq_iff)

lemma warm_inv_append:
  assumes inv: "warm_inv cc rt cx nodes i ws" and r: "r < length (cx_vehicles cx)" and i: "i \<le> i'"
    and new: "distinct (concat (ws_routes ws) @ xs)"
    and stops: "\<And>k. k \<in> set xs \<Longrightarrow> rn_kind (nodes ! k) = NReload \<and> k \<in> set (ws_reloads ws')
                  \<or> (\<exists>j<i'. rn_order (nodes ! k) = Some j)"
    and loads: "replay (capacity_of cc rt cx r) nodes (cx_orders cx) (current_load (ws_loads ws ! r)) xs
                  = Some (current_load l)"
    and able: "\<And>k j. k \<in> set xs \<Longrightarrow> rn_kind (nodes ! k) = NTask \<Longrightarrow> rn_order (nodes ! k) = Some j \<Longrightarrow> supports rt cx r j"
    and ws': "ws_routes ws' = append_to r xs (ws_routes ws)" "ws_loads ws' = (ws_loads ws)[r := l]"
      "set (ws_reloads ws) \<subseteq> set (ws_reloads ws')"
  shows "warm_inv cc rt cx nodes i' ws'"
proof -
  have len: "length (ws_routes ws) = length (cx_vehicles cx)" "length (ws_loads ws) = length (cx_vehicles cx)"
    using inv by (simp_all add: warm_inv_def)
  note app = distinct_append_to [of r "ws_routes ws" xs]
  have nodes: "rn_kind (nodes ! k) = NReload \<and> k \<in> set (ws_reloads ws') \<or> (\<exists>j<i'. rn_order (nodes ! k) = Some j)"
    if "k \<in> set (concat (ws_routes ws'))" for k
  proof (cases "k \<in> set xs")
    case False
    then have "k \<in> set (concat (ws_routes ws))" using that r len unfolding ws'(1) by (subst (asm) app(2)) auto
    then have "rn_kind (nodes ! k) = NReload \<and> k \<in> set (ws_reloads ws) \<or> (\<exists>j<i. rn_order (nodes ! k) = Some j)"
      using inv unfolding warm_inv_def by blast
    with ws'(3) i show ?thesis by (meson less_le_trans subsetD)
  qed (rule stops)
  have routes: "replay (capacity_of cc rt cx q) nodes (cx_orders cx) (\<lambda>_. 0) (ws_routes ws' ! q)
        = Some (current_load (ws_loads ws' ! q))
      \<and> (\<forall>k\<in>set (ws_routes ws' ! q). \<forall>j. rn_kind (nodes ! k) = NTask \<longrightarrow> rn_order (nodes ! k) = Some j
           \<longrightarrow> supports rt cx q j)" if q: "q < length (cx_vehicles cx)" for q
  proof -
    have old: "replay (capacity_of cc rt cx q) nodes (cx_orders cx) (\<lambda>_. 0) (ws_routes ws ! q)
        = Some (current_load (ws_loads ws ! q))"
      "\<forall>k\<in>set (ws_routes ws ! q). \<forall>j. rn_kind (nodes ! k) = NTask \<longrightarrow> rn_order (nodes ! k) = Some j
           \<longrightarrow> supports rt cx q j"
      using inv q unfolding warm_inv_def by blast+
    show ?thesis
    proof (cases "q = r")
      case True
      then show ?thesis using old loads able len r by (auto simp: ws' append_to_def replay_append)
    next
      case False
      then show ?thesis using old by (simp add: ws' append_to_def)
    qed
  qed
  show ?thesis
    unfolding warm_inv_def
    using len nodes routes new app(1) r by (simp add: ws' append_to_def)
qed

lemma warm_inv_mono: "warm_inv cc rt cx nodes i ws \<Longrightarrow> i \<le> i' \<Longrightarrow> warm_inv cc rt cx nodes i' ws"
  unfolding warm_inv_def by (meson less_le_trans)

lemma reload_nodes_iff: "k \<in> set (reload_nodes nodes) \<longleftrightarrow> k < length nodes \<and> rn_kind (nodes ! k) = NReload"
  by (auto simp: reload_nodes_def)

lemma reload_order:
  assumes "k < length (build_node_table cx n)" "rn_kind (build_node_table cx n ! k) = NReload"
  shows "rn_order (build_node_table cx n ! k) = None"
  using set_node_table [OF nth_mem [OF assms(1)]] assms(2) by (auto simp: order_nodes_def split: if_splits)

lemma warm_inv_reload:
  assumes inv: "warm_inv cc rt cx (build_node_table cx n) i ws" and r: "r < length (cx_vehicles cx)"
    and k: "k \<in> set (reload_nodes (build_node_table cx n))" "k \<notin> set (ws_reloads ws)"
  shows "warm_inv cc rt cx (build_node_table cx n) i
    (ws\<lparr>ws_routes := append_to r [k] (ws_routes ws), ws_reloads := k # ws_reloads ws, ws_loads := (ws_loads ws)[r := []]\<rparr>)"
proof (rule warm_inv_append [OF inv r order_refl, where xs = "[k]" and l = "[]"])
  have kind: "rn_kind (build_node_table cx n ! k) = NReload" "rn_order (build_node_table cx n ! k) = None"
    using k(1) reload_order by (auto simp: reload_nodes_iff)
  then have "k \<notin> set (concat (ws_routes ws))" using inv k(2) unfolding warm_inv_def by fastforce
  then show "distinct (concat (ws_routes ws) @ [k])" using inv by (simp add: warm_inv_def)
qed (use k in \<open>auto simp: reload_nodes_iff split: option.splits\<close>)

lemma stops_of_spec:
  assumes "k \<in> set (stops_of nodes i)"
  shows "k < length nodes \<and> rn_order (nodes ! k) = Some i"
  using assms node_indices_Some [of _ nodes i] by (fastforce simp: stops_of_def split: option.splits)

lemma distinct_stops_of: "distinct (stops_of nodes i)"
  using node_indices_Some [of NPickup nodes i] node_indices_Some [of NTask nodes i]
  by (auto simp: stops_of_def split: option.splits)

lemma warm_inv_add_stops:
  assumes w: "warm_inv cc rt cx (build_node_table cx n) i ws" and r: "r < length (cx_vehicles cx)"
    and i: "i < length (cx_orders cx)" and order: "order = cx_orders cx ! i" and able: "supports rt cx r i"
    and fit: "pickup_location_ref order = '''' \<Longrightarrow>
      current_load (ws_loads ws ! r) (load_material order) + load_kg (load_demand order)
        \<le> capacity_of cc rt cx r (load_material order)"
  shows "warm_inv cc rt cx (build_node_table cx n) (Suc i) (add_stops (build_node_table cx n) i order r ws)"
proof -
  let ?nodes = "build_node_table cx n" and ?m = "load_material order" and ?d = "load_kg (load_demand order)"
  have paired: "node_indices NPickup ?nodes i = None \<longleftrightarrow> pickup_location_ref order = ''''"
    using pickup_node_iff [OF i] order by simp
  obtain t where t: "node_indices NTask ?nodes i = Some t" using task_node_ex [OF i] by blast
  note tk = node_indices_Some [OF t]
  define l where "l = (if pickup_location_ref order = '''' \<and> ?d > 0
      then AList.update ?m (current_load (ws_loads ws ! r) ?m + ?d) (ws_loads ws ! r) else ws_loads ws ! r)"
  have len: "r < length (ws_loads ws)" using w r by (simp add: warm_inv_def)
  have dpos: "?d \<ge> 0" by (simp add: load_kg_def)
  have "set (stops_of ?nodes i) \<inter> set (concat (ws_routes ws)) = {}"
    using w stops_of_spec [of _ ?nodes i] reload_order [of _ cx n] unfolding warm_inv_def by fastforce
  moreover have "distinct (concat (ws_routes ws))" using w by (simp add: warm_inv_def)
  ultimately have d: "distinct (concat (ws_routes ws) @ stops_of ?nodes i)"
    using distinct_stops_of [of ?nodes i] by auto
  have replay: "replay (capacity_of cc rt cx r) ?nodes (cx_orders cx) (current_load (ws_loads ws ! r)) (stops_of ?nodes i)
      = Some (current_load l)"
  proof (cases "pickup_location_ref order = ''''")
    case True
    then have "stops_of ?nodes i = [t]" using paired t by (simp add: stops_of_def)
    then show ?thesis using tk True fit order dpos by (auto simp: Let_def l_def fun_eq_iff)
  next
    case False
    then obtain p where p: "node_indices NPickup ?nodes i = Some p" using paired by auto
    then have "stops_of ?nodes i = [p, t]" using t by (simp add: stops_of_def)
    then show ?thesis using tk False order node_indices_Some [OF p] by (simp add: Let_def l_def)
  qed
  show ?thesis
  proof (rule warm_inv_append [OF w r _ d _ replay])
    show "ws_loads (add_stops ?nodes i order r ws) = (ws_loads ws)[r := l]"
      using len paired by (simp add: add_stops_def Let_def l_def)
  next
    fix k assume "k \<in> set (stops_of ?nodes i)"
    then show "rn_kind (?nodes ! k) = NReload \<and> k \<in> set (ws_reloads (add_stops ?nodes i order r ws))
        \<or> (\<exists>j<Suc i. rn_order (?nodes ! k) = Some j)"
      using stops_of_spec by blast
  next
    fix k j assume "k \<in> set (stops_of ?nodes i)" "rn_order (?nodes ! k) = Some j"
    then show "supports rt cx r j" using stops_of_spec able by force
  qed (simp_all add: add_stops_def Let_def)
qed

lemma warm_inv_place:
  assumes inv: "warm_inv cc rt cx (build_node_table cx n) i ws" and r: "r < length (cx_vehicles cx)"
    and i: "i < length (cx_orders cx)" and order: "order = cx_orders cx ! i" and able: "supports rt cx r i"
    and fits: "load_kg (load_demand order) \<le> capacity_of cc rt cx r (load_material order)"
  shows "warm_inv cc rt cx (build_node_table cx n) (Suc i)
    (place_order (\<lambda>r. capacity_of cc rt cx r (load_material order)) (build_node_table cx n) i order r ws)"
proof -
  let ?nodes = "build_node_table cx n"
  have paired: "node_indices NPickup ?nodes i = None \<longleftrightarrow> pickup_location_ref order = ''''"
    using pickup_node_iff [OF i] order by simp
  have len: "r < length (ws_loads ws)" using inv r by (simp add: warm_inv_def)
  show ?thesis
  proof (cases "node_indices NPickup ?nodes i = None
      \<and> current_load (ws_loads ws ! r) (load_material order) + load_kg (load_demand order)
          > capacity_of cc rt cx r (load_material order)")
    case False
    then have "place_order (\<lambda>r. capacity_of cc rt cx r (load_material order)) ?nodes i order r ws
        = add_stops ?nodes i order r ws"
      unfolding place_order_def by (rule if_not_P)
    moreover have "warm_inv cc rt cx ?nodes (Suc i) (add_stops ?nodes i order r ws)"
      by (rule warm_inv_add_stops [OF inv r i order able]) (use False paired in auto)
    ultimately show ?thesis by simp
  next
    case True
    show ?thesis
    proof (cases "find (\<lambda>k. k \<notin> set (ws_reloads ws)) (reload_nodes ?nodes)")
      case None
      with True have "place_order (\<lambda>r. capacity_of cc rt cx r (load_material order)) ?nodes i order r ws = ws"
        by (simp add: place_order_def)
      then show ?thesis using warm_inv_mono [OF inv] by simp
    next
      case (Some k)
      then have k: "k \<in> set (reload_nodes ?nodes)" "k \<notin> set (ws_reloads ws)"
        by (auto simp: find_Some_iff)
      let ?ws = "ws\<lparr>ws_routes := append_to r [k] (ws_routes ws), ws_reloads := k # ws_reloads ws,
          ws_loads := (ws_loads ws)[r := []]\<rparr>"
      have "place_order (\<lambda>r. capacity_of cc rt cx r (load_material order)) ?nodes i order r ws
        = add_stops ?nodes i order r ?ws"
        using True Some by (simp add: place_order_def)
      moreover have "warm_inv cc rt cx ?nodes (Suc i) (add_stops ?nodes i order r ?ws)"
        by (rule warm_inv_add_stops [OF warm_inv_reload [OF inv r k] r i order able]) (use fits len in simp)
      ultimately show ?thesis by simp
    qed
  qed
qed

lemma select_route_Some:
  assumes "select_route capacity compatible preferred ws material demand paired = Some r"
  shows "r \<in> set compatible \<and> demand \<le> capacity r"
proof -
  let ?f = "\<lambda>r. if demand > capacity r then None
      else Some (preferred \<noteq> Some r, \<not> paired \<and> current_load (ws_loads ws ! r) material + demand > capacity r,
                 ws_counts ws ! r, r)"
  obtain x where x: "min_by id (List.map_filter ?f compatible) = Some x" "r = snd (snd (snd x))"
    using assms by (auto simp: select_route_def)
  then have "x \<in> set (List.map_filter ?f compatible)" using min_by_Some [OF x(1)] by simp
  then show ?thesis using x(2) by (auto simp: List.map_filter_def split: if_splits)
qed

lemma warm_step_inv:
  assumes inv: "warm_inv cc rt cx (build_node_table cx n) i ws" and i: "i < length (cx_orders cx)"
  shows "warm_inv cc rt cx (build_node_table cx n) (Suc i)
    (warm_step cc rt cx greedy vehicle_index (build_node_table cx n) (i, cx_orders cx ! i) ws)"
proof -
  let ?nodes = "build_node_table cx n" and ?order = "cx_orders cx ! i"
  let ?capacity = "\<lambda>r. capacity_of cc rt cx r (load_material ?order)"
  let ?compatible = "filter (\<lambda>r. bundle_supports_operation rt (cx_vehicles cx ! r) (py_upper (operation_type ?order)))
               [0..<length (cx_vehicles cx)]"
  let ?choice = "select_route ?capacity ?compatible
      (preferred_route (task_id ?order) greedy vehicle_index (cx_vehicles cx) ?compatible) ws
      (load_material ?order) (load_kg (load_demand ?order)) (node_indices NPickup ?nodes i \<noteq> None)"
  let ?result = "warm_step cc rt cx greedy vehicle_index ?nodes (i, ?order) ws"
  have capacity: "(\<lambda>r. compartment_capacity_kg cc rt (rv_prime (cx_vehicles cx ! r)) (load_material ?order)) = ?capacity"
    by (simp add: capacity_of_def fun_eq_iff)
  have result: "?result = (if alternative_group_ref ?order \<noteq> '''' \<and> alternative_group_ref ?order \<in> set (ws_groups ws) then ws
      else if ?compatible = [] then ws
      else case ?choice of None \<Rightarrow> ws | Some r \<Rightarrow> place_order ?capacity ?nodes i ?order r ws)"
    by (simp only: warm_step_def split Let_def capacity)
  consider "?result = ws" | r where "?choice = Some r" "?result = place_order ?capacity ?nodes i ?order r ws"
  proof (cases ?choice)
    case None
    then have "?result = ws" unfolding result by (simp only: option.case if_cancel)
    then show ?thesis by (rule that(1))
  next
    case (Some r)
    then have "?result = ws \<or> ?result = place_order ?capacity ?nodes i ?order r ws"
      unfolding result by (simp only: option.case split: if_split) blast
    with Some that show ?thesis by blast
  qed
  then show ?thesis
  proof cases
    case 1
    with warm_inv_mono [OF inv] show ?thesis by simp
  next
    case (2 r)
    note s = select_route_Some [OF 2(1)]
    then have "r < length (cx_vehicles cx)" "supports rt cx r i" by (auto simp: supports_def)
    with 2(2) s show ?thesis by (simp add: warm_inv_place [OF inv _ i refl])
  qed
qed

lemma fold_enumerate_inv:
  assumes "P 0 s" "\<And>i s. i < length xs \<Longrightarrow> P i s \<Longrightarrow> P (Suc i) (f (i, xs ! i) s)"
  shows "P (length xs) (fold f (enumerate 0 xs) s)"
  using assms
proof (induction xs rule: rev_induct)
  case (snoc x xs)
  have "P (length xs) (fold f (enumerate 0 xs) s)"
    by (rule snoc.IH [OF snoc.prems(1)]) (metis nth_append snoc.prems(2) length_append less_SucI add.commute list.size(3,4) plus_1_eq_Suc One_nat_def)
  with snoc.prems(2) [of "length xs"] show ?case by (simp add: enumerate_append_eq)
qed simp

subsection \<open>Properties\<close>

lemma prepared_context:
  assumes "prepare_cluster_context rt cd rows L blocked = Inl cx"
  shows "mset (cx_task_ids cx) + mset (map inf_task_id (cx_pre_infeasible cx))
         = mset (filter (\<lambda>t. index_orders (sr_orders rows) t \<noteq> None) (task_ids cd))
       \<and> cx_task_ids cx = map task_id (cx_orders cx) \<and> cx_vehicles cx \<noteq> []
       \<and> list_all (served_by_any rt (cx_vehicles cx)) (cx_orders cx)"
proof -
  let ?orders = "List.map_filter (index_orders (sr_orders rows)) (task_ids cd)"
  let ?rvs = "routing_vehicles (allocated_prime_related cd) (dict_by pm_asset_id (sr_vehicles rows))
                          (dict_by rel_asset_id (sr_implements rows))"
  obtain kept pre where f: "filter_orders_by_bundles rt (cluster_id cd) ?orders ?rvs = (kept, pre)" by fastforce
  have "mset (map task_id kept) + mset (map inf_task_id pre)
      = mset (filter (\<lambda>t. index_orders (sr_orders rows) t \<noteq> None) (task_ids cd))"
    using mset_filter_orders [of rt "cluster_id cd" ?orders ?rvs] f known_ids [of "sr_orders rows" "task_ids cd"] by simp
  moreover have "list_all (served_by_any rt ?rvs) kept"
    using f by (auto simp: filter_orders_by_bundles_def list_all_iff)
  moreover have "cx_orders cx = kept \<and> cx_task_ids cx = map task_id kept \<and> cx_pre_infeasible cx = pre
      \<and> cx_vehicles cx = ?rvs \<and> ?rvs \<noteq> []"
    using assms f by (auto simp: prepare_cluster_context_def Let_def split: if_splits option.splits)
  ultimately show ?thesis by simp
qed

lemma prepared_early:
  assumes "prepare_cluster_context rt cd rows L blocked = Inr infs"
  shows "map inf_task_id infs = task_ids cd
       \<or> mset (map inf_task_id infs) = mset (filter (\<lambda>t. index_orders (sr_orders rows) t \<noteq> None) (task_ids cd))"
proof -
  let ?orders = "List.map_filter (index_orders (sr_orders rows)) (task_ids cd)"
  let ?rvs = "routing_vehicles (allocated_prime_related cd) (dict_by pm_asset_id (sr_vehicles rows))
                          (dict_by rel_asset_id (sr_implements rows))"
  obtain kept pre where f: "filter_orders_by_bundles rt (cluster_id cd) ?orders ?rvs = (kept, pre)" by fastforce
  have "mset (map task_id kept) + mset (map inf_task_id pre)
      = mset (filter (\<lambda>t. index_orders (sr_orders rows) t \<noteq> None) (task_ids cd))"
    using mset_filter_orders [of rt "cluster_id cd" ?orders ?rvs] f known_ids [of "sr_orders rows" "task_ids cd"] by simp
  moreover have "infs = pre \<and> kept = [] \<or> (\<exists>r d. infs = mark_all_infeasible cd r d) \<or> infs = [] \<and> task_ids cd = []"
    using assms f by (auto simp: prepare_cluster_context_def Let_def split: if_splits option.splits)
  ultimately show ?thesis by auto
qed

text \<open>Preparing a cluster loses no task the planner knows: with a routing context every known task
  of the cluster is routed or reported, each routed task is one some allocated bundle can serve, and
  there is a bundle; an early result reports every task, or every known one when no bundle serves
  any.\<close>

lemma context_accounts_for_tasks:
  "case prepare_cluster_context rt cd rows L blocked of
     Inl cx \<Rightarrow>
       mset (cx_task_ids cx) + mset (map inf_task_id (cx_pre_infeasible cx))
         = mset (filter (\<lambda>t. index_orders (sr_orders rows) t \<noteq> None) (task_ids cd))
       \<and> cx_task_ids cx = map task_id (cx_orders cx) \<and> cx_vehicles cx \<noteq> []
       \<and> list_all (served_by_any rt (cx_vehicles cx)) (cx_orders cx)
   | Inr infs \<Rightarrow>
       map inf_task_id infs = task_ids cd
       \<or> mset (map inf_task_id infs) = mset (filter (\<lambda>t. index_orders (sr_orders rows) t \<noteq> None) (task_ids cd))"
proof (cases "prepare_cluster_context rt cd rows L blocked")
  case (Inl cx)
  show ?thesis unfolding Inl sum.case by (rule prepared_context [OF Inl])
next
  case (Inr infs)
  show ?thesis unfolding Inr sum.case by (rule prepared_early [OF Inr])
qed


subsection \<open>Closed instances\<close>

definition sample_mover :: prime_mover_row where
  "sample_mover =
     \<lparr>pm_asset_id = ''v1'', pm_asset_type = '''', pm_name = '''', pm_home_depot_ref = ''depot'', pm_lat = 0, pm_lon = 0,
      rated_power = 100, fuel_tank_volume = 0, fuel_consumption_rate = 10, pm_energy_resource_type = '''',
      pm_energy_unit = '''', energy_capacity = 0, energy_consumption_rate = 0, machine_wear_eur_per_h = 0,
      travel_speed = 20, load_capacity = 10, load_capacities = VDict [], pm_compatible_operations = RItems []\<rparr>"

definition sample_implement :: related_row where
  "sample_implement =
     \<lparr>rel_asset_id = ''i1'', rel_asset_type = '''', rel_name = '''', rel_home_depot_ref = ''depot'', required_power = 50,
      working_width = 0, min_speed = 0, max_speed = 0, material_capacity = 0, work_rates = VDict [],
      rel_compatible_operations = RItems [VStr ''SPRAY'']\<rparr>"

definition empty_lookup :: travel_lookup where
  "empty_lookup = build_travel_lookup 0 (\<lambda>_ _. 0) 1 sample_runtime []"

definition sample_context :: cluster_context where
  "sample_context =
     \<lparr>cx_cluster_id = ''c1'', cx_task_ids = [''A'', ''B''], cx_depot_id = ''depot'',
      cx_orders = [sample_task\<lparr>load_demand := 6\<rparr>, sample_task\<lparr>task_id := ''B'', load_demand := 6\<rparr>],
      cx_field_map = [], cx_pickup_map = [],
      cx_vehicles = [\<lparr>rv_prime = sample_mover, rv_related = sample_implement\<rparr>],
      cx_depot = (0, 0), cx_travel = empty_lookup, cx_blocked = [], cx_pre_infeasible = []\<rparr>"

text \<open>Two loads of six in a compartment of ten: the second one is preceded by the reload stop.\<close>

lemma sample_warm_routes:
  "build_capacity_aware_initial_routes default_constants sample_runtime sample_context [] [] (build_node_table sample_context 1)
     = [[1, 3, 2]]"
  by code_simp


end
