(* ===== verification/Routing.thy ===== *)
theory Routing
  imports ClusterContext TaskRelations
begin

text \<open>
  The routing model of one cluster (\<open>solver/cluster/routing.py\<close>, \<open>solver/routing_model.py\<close>): the
  constraints the code posts to OR-Tools, the arc costs, the restriction refinement around the
  solve, the optional improvement pass, and the extraction of dispatch packages from a solved
  plan. OR-Tools is a parameter (\<open>or_tools\<close>); what the code relies on is that a plan it returns
  satisfies the posted constraints (\<open>or_tools_sound\<close>), as its documentation states.

  Two parts of \<open>solve_routing_context\<close> are left out: the opt-in time-expanded path (its switch
  \<open>ROUTE_TIME_EXPANDED_ENABLED\<close> is off, and then \<open>maybe_solve_time_expanded\<close> returns \<open>None\<close>),
  and the random \<open>dispatch_id\<close> of a package. An exception (a malformed geometry) is the outcome
  \<open>None\<close>.
\<close>

subsection \<open>The problem given to OR-Tools\<close>

text \<open>
  One constructor per kind of constraint the code posts; nodes are indices of the node table,
  times are offsets from the planning origin. \<open>OutsideBlock\<close> and \<open>AvoidsWindow\<close> are the reified
  sums over a closed block and a half-open held window, \<open>FitsOneOf\<close> the count of windows the
  execution fits into.
\<close>

datatype routing_constraint =
    ServedBy nat "nat list"
  | Dropped nat
  | StartIn nat int int
  | StartNotIn nat int int
  | OutsideBlock nat int int
  | FitsOneOf nat "interval list"
  | AtMostOne "nat list" int
  | PickupFirst nat nat
  | NoOverlap nat nat
  | AvoidsWindow nat int int
  | OnlyWith nat nat
  | StartsAfter nat nat int
  | Breaks nat "interval list"
  | Capacity string "int list" "int list" int

record routing_problem =
  rp_nodes :: "routing_node list"
  rp_vehicles :: nat
  rp_travel :: "nat \<Rightarrow> nat \<Rightarrow> nat \<Rightarrow> int"
  rp_service :: "nat \<Rightarrow> nat \<Rightarrow> int"
  rp_arc_cost :: "nat \<Rightarrow> nat \<Rightarrow> nat \<Rightarrow> int"
  rp_soft_starts :: "(nat \<times> int) list"
  rp_constraints :: "routing_constraint list"

text \<open>
  A plan: the nodes each vehicle visits between its two depot stops, the cumulative time at each
  node and at the two ends of each route, the cumulative load per material, the objective value.
\<close>

record routing_plan =
  pl_routes :: "nat list list"
  pl_time :: "nat \<Rightarrow> int"
  pl_depart :: "nat \<Rightarrow> int"
  pl_return :: "nat \<Rightarrow> int"
  pl_load :: "string \<Rightarrow> nat \<Rightarrow> int"
  pl_load_end :: "string \<Rightarrow> nat \<Rightarrow> int"
  pl_objective :: int

text \<open>
  \<open>ort_solve problem initial_routes time_limit\<close> is \<open>_solve_with_warm_start\<close>'s search,
  \<open>ort_improve problem plan time_limit\<close> the guided local search from a plan, \<open>ort_status\<close> and
  \<open>ort_wall_s\<close> the status name and the measured seconds of a run.
\<close>

record or_tools =
  ort_solve :: "routing_problem \<Rightarrow> nat list list \<Rightarrow> int \<Rightarrow> routing_plan option"
  ort_improve :: "routing_problem \<Rightarrow> routing_plan \<Rightarrow> int \<Rightarrow> routing_plan option"
  ort_status :: "routing_problem \<Rightarrow> string"
  ort_wall_s :: "routing_problem \<Rightarrow> real"

subsection \<open>What a constraint means\<close>

definition vehicle_of :: "routing_plan \<Rightarrow> nat \<Rightarrow> nat option" where
  "vehicle_of p k = find (\<lambda>v. k \<in> set (pl_routes p ! v)) [0..<length (pl_routes p)]"

definition is_active :: "routing_plan \<Rightarrow> nat \<Rightarrow> bool" where
  "is_active p k \<longleftrightarrow> vehicle_of p k \<noteq> None"

text \<open>\<open>_vehicle_service_expr\<close>: the element at \<open>max(vehicle, 0)\<close>.\<close>

definition service_expr :: "routing_problem \<Rightarrow> routing_plan \<Rightarrow> nat \<Rightarrow> int" where
  "service_expr rp p k = rp_service rp (case vehicle_of p k of None \<Rightarrow> 0 | Some v \<Rightarrow> v) k"

definition finish :: "routing_problem \<Rightarrow> routing_plan \<Rightarrow> nat \<Rightarrow> int" where
  "finish rp p k = pl_time p k + service_expr rp p k"

definition big_m :: int where
  "big_m = 2 * routing_horizon_s"

text \<open>The load dimension along one route: empty at the start, within the capacity everywhere, and the
  load after a stop is the load before it plus its demand plus a slack that only reload stops have.\<close>

definition load_step :: "routing_node list \<Rightarrow> int list \<Rightarrow> int \<Rightarrow> nat \<times> int \<times> int \<Rightarrow> bool" where
  "load_step nodes demands slack st =
     (case st of (k, prior, later) \<Rightarrow>
       let s = later - (prior + demands ! k) in
       if rn_kind (nodes ! k) = NReload then 0 \<le> s \<and> s \<le> slack else s = 0)"

definition load_dimension ::
  "routing_node list \<Rightarrow> routing_plan \<Rightarrow> string \<Rightarrow> int list \<Rightarrow> int \<Rightarrow> int \<Rightarrow> nat \<Rightarrow> bool" where
  "load_dimension nodes p m demands cap slack v =
     (let loads = map (pl_load p m) (pl_routes p ! v) @ [pl_load_end p m v] in
      hd loads = 0 \<and> list_all (\<lambda>l. 0 \<le> l \<and> l \<le> cap) loads
      \<and> list_all (load_step nodes demands slack) (zip (pl_routes p ! v) (zip loads (tl loads))))"

fun holds :: "routing_problem \<Rightarrow> routing_plan \<Rightarrow> routing_constraint \<Rightarrow> bool" where
  "holds rp p (ServedBy k vs) = (case vehicle_of p k of None \<Rightarrow> True | Some v \<Rightarrow> v \<in> set vs)"
| "holds rp p (Dropped k) = (\<not> is_active p k)"
| "holds rp p (StartIn k a b) = (a \<le> pl_time p k \<and> pl_time p k \<le> b)"
| "holds rp p (StartNotIn k a b) = (pl_time p k < a \<or> b < pl_time p k)"
| "holds rp p (OutsideBlock k a b) = (finish rp p k \<le> a \<or> pl_time p k \<ge> b + 1 \<or> \<not> is_active p k)"
| "holds rp p (FitsOneOf k ws) =
     (list_ex (\<lambda>(a, b). pl_time p k \<ge> a \<and> finish rp p k \<le> b) ws \<or> \<not> is_active p k)"
| "holds rp p (AtMostOne ks penalty) = (length (filter (is_active p) ks) \<le> 1)"
| "holds rp p (PickupFirst a b) =
     (is_active p a = is_active p b \<and> vehicle_of p a = vehicle_of p b \<and> pl_time p a \<le> pl_time p b)"
| "holds rp p (NoOverlap a b) =
     (finish rp p a \<le> pl_time p b \<or> finish rp p b \<le> pl_time p a \<or> \<not> is_active p a \<or> \<not> is_active p b)"
| "holds rp p (AvoidsWindow k a b) = (finish rp p k \<le> a \<or> pl_time p k \<ge> b \<or> \<not> is_active p k)"
| "holds rp p (OnlyWith succ pred) = (is_active p succ \<longrightarrow> is_active p pred)"
| "holds rp p (StartsAfter succ pred s) =
     (pl_time p succ + (if is_active p succ then 0 else big_m) \<ge> pl_time p pred + s)"
| "holds rp p (Breaks v ws) =
     list_all (\<lambda>k. list_all (\<lambda>(a, b). pl_time p k + rp_service rp v k \<le> a \<or> pl_time p k \<ge> b) ws)
       (pl_routes p ! v)"
| "holds rp p (Capacity m demands caps slack) =
     list_all (\<lambda>v. load_dimension (rp_nodes rp) p m demands (caps ! v) slack v) [0..<length (pl_routes p)]"

text \<open>The stops of a route with their times, depot to depot, and its arcs.\<close>

definition route_stops :: "routing_plan \<Rightarrow> nat \<Rightarrow> (nat \<times> int) list" where
  "route_stops p v =
     (0, pl_depart p v) # map (\<lambda>k. (k, pl_time p k)) (pl_routes p ! v) @ [(0, pl_return p v)]"

definition route_arcs :: "routing_plan \<Rightarrow> nat \<Rightarrow> ((nat \<times> int) \<times> (nat \<times> int)) list" where
  "route_arcs p v = zip (route_stops p v) (tl (route_stops p v))"

text \<open>The Time dimension: within the horizon, and a stop is reached no earlier than the previous one
  plus its service and the travel between them.\<close>

definition time_dimension :: "routing_problem \<Rightarrow> routing_plan \<Rightarrow> bool" where
  "time_dimension rp p \<longleftrightarrow>
     list_all (\<lambda>v.
       list_all (\<lambda>(k, t). 0 \<le> t \<and> t \<le> routing_horizon_s) (route_stops p v)
       \<and> list_all (\<lambda>((i, s), (j, t)). s + rp_travel rp v i j + rp_service rp v i \<le> t) (route_arcs p v))
     [0..<rp_vehicles rp]"

definition feasible :: "routing_problem \<Rightarrow> routing_plan \<Rightarrow> bool" where
  "feasible rp p \<longleftrightarrow>
     length (pl_routes p) = rp_vehicles rp
     \<and> distinct (concat (pl_routes p))
     \<and> list_all (\<lambda>k. 0 < k \<and> k < length (rp_nodes rp)) (concat (pl_routes p))
     \<and> time_dimension rp p
     \<and> list_all (holds rp p) (rp_constraints rp)"

text \<open>What the code relies on: a returned plan satisfies the model.\<close>

definition or_tools_sound :: "or_tools \<Rightarrow> bool" where
  "or_tools_sound ort \<longleftrightarrow>
     (\<forall>rp routes limit p. ort_solve ort rp routes limit = Some p \<longrightarrow> feasible rp p)
     \<and> (\<forall>rp q limit p. ort_improve ort rp q limit = Some p \<longrightarrow> feasible rp p)"

subsection \<open>The job\<close>

text \<open>A cluster specification as the routing reads it, with the budget and the wages stamped on it
  before the solve; \<open>rj_held\<close> is empty for \<open>None\<close>.\<close>

record cluster_job = cluster_spec +
  cj_lns_time_limit_s :: int
  cj_operator_wages :: "(string, real) dict"

record routing_job =
  rj_context :: cluster_context
  rj_cluster :: cluster_job
  rj_greedy :: "(string, nat \<times> nat) dict"
  rj_vehicle_index :: "(string, nat) dict"
  rj_held :: "(string, interval list) dict"
  rj_time_limit_s :: "int option"
  rj_now :: int
  rj_prices :: resource_prices
  rj_objective :: string

record 'g routing_env =
  re_geo :: "'g geo_env"
  re_rt :: runtime
  re_cc :: cluster_constants
  re_ort :: or_tools
  re_int_of_str :: "string \<Rightarrow> int option"

definition is_time_objective :: "string \<Rightarrow> bool" where
  "is_time_objective objective \<longleftrightarrow> py_lower objective = ''time''"

definition deadline_from_now_s :: "runtime \<Rightarrow> string option \<Rightarrow> int \<Rightarrow> int" where
  "deadline_from_now_s rt d now_epoch =
     (case fromisoformat rt (case d of None \<Rightarrow> '''' | Some s \<Rightarrow> s) of
        None \<Rightarrow> routing_horizon_s
      | Some e \<Rightarrow> max 0 (py_int e - now_epoch))"

definition node_service_s :: "'g routing_env \<Rightarrow> cluster_context \<Rightarrow> routing_node list \<Rightarrow> nat \<Rightarrow> nat \<Rightarrow> int" where
  "node_service_s re cx nodes v k =
     (case (rn_kind (nodes ! k), rn_order (nodes ! k)) of
        (NTask, Some i) \<Rightarrow> estimate_operation_seconds (re_rt re) (cx_orders cx ! i) (rv_related (cx_vehicles cx ! v))
      | (NReload, _) \<Rightarrow> cc_reload_service_s (re_cc re)
      | _ \<Rightarrow> 0)"

definition reload_nodes_per_vehicle :: "'g routing_env \<Rightarrow> cluster_context \<Rightarrow> nat" where
  "reload_nodes_per_vehicle re cx =
     (let loaded = filter (\<lambda>order. load_kg (load_demand order) > 0) (cx_orders cx);
          refills = fold (\<lambda>m refills.
            let total = sum_list (map (load_kg \<circ> load_demand) (filter (\<lambda>order. load_material order = m) (cx_orders cx)));
                capacities = map (\<lambda>rv. compartment_capacity_kg (re_cc re) (re_rt re) (rv_prime rv) m) (cx_vehicles cx)
            in case min_by id (filter (\<lambda>c. c > 0) capacities) of
                 None \<Rightarrow> refills
               | Some c \<Rightarrow> max refills (\<lceil>total / c\<rceil> - 1)) (remdups (map load_material loaded)) 1
      in nat (max 1 (min refills (cc_reload_max_trips (re_cc re)))))"

definition n_reload_nodes :: "'g routing_env \<Rightarrow> cluster_context \<Rightarrow> nat" where
  "n_reload_nodes re cx =
     (if cc_reload_enabled (re_cc re) \<and> list_ex (\<lambda>order. load_kg (load_demand order) > 0) (cx_orders cx)
      then reload_nodes_per_vehicle re cx * length (cx_vehicles cx) else 0)"

subsection \<open>Time windows and blocked intervals\<close>

definition offsets_from :: "int \<Rightarrow> interval list \<Rightarrow> interval list" where
  "offsets_from now_epoch ivs = map (\<lambda>(a, b). (a - now_epoch, b - now_epoch)) ivs"

text \<open>\<open>_blocked_occupancy_offsets\<close>: the site's restriction windows and the task's weather blocks.\<close>

definition blocked_occupancy_offsets :: "runtime \<Rightarrow> cluster_context \<Rightarrow> task_row \<Rightarrow> int \<Rightarrow> int \<Rightarrow> interval list" where
  "blocked_occupancy_offsets rt cx order now_epoch deadline_from_now =
     (let clamp_end = now_epoch + deadline_from_now;
          site_blocks = (case map_of (cx_field_map cx) (location_ref order) of
                           None \<Rightarrow> [] | Some s \<Rightarrow> epoch_intervals rt (restriction_windows s) now_epoch clamp_end);
          weather = List.map_filter (\<lambda>(a, b).
                      let start_c = max a now_epoch; end_c = min b clamp_end in
                      if end_c \<ge> start_c then Some (start_c, end_c) else None)
                    (dget_default (cx_blocked cx) (task_id order) [])
      in offsets_from now_epoch (merge_intervals (site_blocks @ weather)))"

definition window_offsets :: "runtime \<Rightarrow> task_row \<Rightarrow> int \<Rightarrow> int \<Rightarrow> interval list" where
  "window_offsets rt order now_epoch deadline_from_now =
     offsets_from now_epoch (epoch_intervals rt (time_windows order) now_epoch (now_epoch + deadline_from_now))"

definition has_windows :: "runtime \<Rightarrow> task_row \<Rightarrow> bool" where
  "has_windows rt order \<longleftrightarrow> parse_time_windows rt (time_windows order) \<noteq> []"

definition restrict_start_intervals ::
  "runtime \<Rightarrow> nat \<Rightarrow> task_row \<Rightarrow> int \<Rightarrow> int \<Rightarrow> interval list \<Rightarrow> routing_constraint list" where
  "restrict_start_intervals rt k order now_epoch deadline_from_now blocked_offsets =
     (if \<not> has_windows rt order \<and> blocked_offsets = [] then []
      else
        let base = (if has_windows rt order then window_offsets rt order now_epoch deadline_from_now
                    else [(0, deadline_from_now)]);
            offsets = subtract_intervals base blocked_offsets in
        if offsets = [] then [Dropped k]
        else StartIn k (fst (hd offsets)) (snd (last offsets))
             # List.map_filter (\<lambda>((_, prev_end), (next_start, _)).
                 if next_start > prev_end + 1 then Some (StartNotIn k (prev_end + 1) (next_start - 1)) else None)
               (zip offsets (tl offsets)))"

text \<open>A block that runs at the origin leaves nothing to finish before it.\<close>

definition occupancy_constraints :: "nat \<Rightarrow> interval list \<Rightarrow> routing_constraint list" where
  "occupancy_constraints k blocked_offsets =
     List.map_filter (\<lambda>(a, b). if a \<le> 0 then None else Some (OutsideBlock k a b)) blocked_offsets"

definition finish_within_windows :: "runtime \<Rightarrow> nat \<Rightarrow> task_row \<Rightarrow> int \<Rightarrow> int \<Rightarrow> routing_constraint list" where
  "finish_within_windows rt k order now_epoch deadline_from_now =
     (let ws = window_offsets rt order now_epoch deadline_from_now in
      if \<not> has_windows rt order \<or> ws = [] then [] else [FitsOneOf k ws])"

text \<open>The constraints of one task node.\<close>

definition task_node_constraints ::
  "runtime \<Rightarrow> cluster_context \<Rightarrow> int \<Rightarrow> routing_node list \<Rightarrow> nat \<Rightarrow> nat \<Rightarrow> routing_constraint list" where
  "task_node_constraints rt cx now_epoch nodes k i =
     (let order = cx_orders cx ! i;
          deadline_from_now = deadline_from_now_s rt (deadline order) now_epoch;
          blocked_offsets = blocked_occupancy_offsets rt cx order now_epoch deadline_from_now
      in [StartIn k 0 deadline_from_now]
         @ restrict_start_intervals rt k order now_epoch deadline_from_now blocked_offsets
         @ occupancy_constraints k blocked_offsets
         @ finish_within_windows rt k order now_epoch deadline_from_now
         @ (if alternative_group_ref order = '''' then [AtMostOne [k] (order_drop_penalty_s order)] else [])
         @ (case node_indices NPickup nodes i of
              None \<Rightarrow> [] | Some p \<Rightarrow> [AtMostOne [p] 0, PickupFirst p k]))"

text \<open>The task nodes with the index of their order, in table order.\<close>

definition task_nodes :: "routing_node list \<Rightarrow> (nat \<times> nat) list" where
  "task_nodes nodes = List.map_filter (\<lambda>k.
     if rn_kind (nodes ! k) = NTask then map_option (Pair k) (rn_order (nodes ! k)) else None) [0..<length nodes]"

definition alternative_nodes :: "cluster_context \<Rightarrow> routing_node list \<Rightarrow> (string, (nat \<times> nat) list) dict" where
  "alternative_nodes cx nodes =
     fold (\<lambda>(k, i) d. if alternative_group_ref (cx_orders cx ! i) = '''' then d
                      else dappend (alternative_group_ref (cx_orders cx ! i)) (k, i) d) (task_nodes nodes) []"

definition order_windows_and_disjunctions ::
  "runtime \<Rightarrow> cluster_context \<Rightarrow> int \<Rightarrow> routing_node list \<Rightarrow> routing_constraint list" where
  "order_windows_and_disjunctions rt cx now_epoch nodes =
     concat (map (\<lambda>(k, i). task_node_constraints rt cx now_epoch nodes k i) (task_nodes nodes))
     @ map (\<lambda>(g, kis). AtMostOne (map fst kis)
              (fold (\<lambda>(k, i) m. max m (order_drop_penalty_s (cx_orders cx ! i))) kis 0))
         (alternative_nodes cx nodes)"

subsection \<open>Vehicles, operators, precedence, loads\<close>

definition operation_vehicle_constraints :: "runtime \<Rightarrow> cluster_context \<Rightarrow> routing_node list \<Rightarrow> routing_constraint list" where
  "operation_vehicle_constraints rt cx nodes =
     List.map_filter (\<lambda>k.
       case (rn_kind (nodes ! k), rn_order (nodes ! k)) of
         (NDepot, _) \<Rightarrow> None | (NReload, _) \<Rightarrow> None | (_, None) \<Rightarrow> None
       | (_, Some i) \<Rightarrow>
           let allowed = filter (\<lambda>v. bundle_supports_operation rt (cx_vehicles cx ! v)
                                       (py_upper (operation_type (cx_orders cx ! i)))) [0..<length (cx_vehicles cx)] in
           Some (if allowed = [] then Dropped k else ServedBy k allowed))
     [0..<length nodes]"

definition make_reload_nodes_optional :: "routing_node list \<Rightarrow> routing_constraint list" where
  "make_reload_nodes_optional nodes = map (\<lambda>k. AtMostOne [k] 0) (reload_nodes nodes)"

definition task_operator :: "cluster_spec \<Rightarrow> string \<Rightarrow> string" where
  "task_operator cd t =
     (case map_of (task_operators cd) t of
        None \<Rightarrow> operator_ref cd | Some x \<Rightarrow> if x = '''' then operator_ref cd else x)"

text \<open>The task nodes of each resolved operator.\<close>

definition by_operator ::
  "cluster_spec \<Rightarrow> cluster_context \<Rightarrow> routing_node list \<Rightarrow> (string, nat list) dict" where
  "by_operator cd cx nodes =
     fold (\<lambda>(k, i) d. let x = task_operator cd (task_id (cx_orders cx ! i)) in
                      if x = '''' then d else dappend x k d) (task_nodes nodes) []"

fun pairs_in_order :: "'a list \<Rightarrow> ('a \<times> 'a) list" where
  "pairs_in_order [] = []"
| "pairs_in_order (x # xs) = map (Pair x) xs @ pairs_in_order xs"

definition held_window_offsets :: "interval list \<Rightarrow> int \<Rightarrow> interval list" where
  "held_window_offsets raw_windows now_epoch =
     merge_intervals (List.map_filter (\<lambda>(a, b).
       let start_off = max 0 (a - now_epoch); end_off = min (b - now_epoch) routing_horizon_s in
       if end_off \<le> 0 \<or> start_off \<ge> routing_horizon_s \<or> end_off \<le> start_off then None
       else Some (start_off, end_off)) raw_windows)"

definition operator_no_overlap ::
  "cluster_spec \<Rightarrow> cluster_context \<Rightarrow> (string, interval list) dict \<Rightarrow> int \<Rightarrow> routing_node list \<Rightarrow> routing_constraint list" where
  "operator_no_overlap cd cx held now_epoch nodes =
     concat (map (\<lambda>(x, ks). map (\<lambda>(a, b). NoOverlap a b) (pairs_in_order ks)) (by_operator cd cx nodes))
     @ concat (map (\<lambda>(x, ks). concat (map (\<lambda>(a, b). map (\<lambda>k. AvoidsWindow k a b) ks)
                                  (held_window_offsets (dget_default held x []) now_epoch)))
                (by_operator cd cx nodes))"

definition held_vehicle_breaks ::
  "cluster_context \<Rightarrow> (string, interval list) dict \<Rightarrow> int \<Rightarrow> routing_constraint list" where
  "held_vehicle_breaks cx held now_epoch =
     List.map_filter (\<lambda>(v, rv).
       let merged = held_window_offsets
             (dget_default held (pm_asset_id (rv_prime rv)) [] @ dget_default held (rel_asset_id (rv_related rv)) []) now_epoch
       in if merged = [] then None else Some (Breaks v merged))
     (enumerate 0 (cx_vehicles cx))"

text \<open>\<open>node_of\<close>: the task node of the last order with an id.\<close>

definition node_of_task :: "cluster_context \<Rightarrow> routing_node list \<Rightarrow> string \<Rightarrow> nat option" where
  "node_of_task cx nodes t =
     (case find (\<lambda>i. task_id (cx_orders cx ! i) = t) (rev [0..<length (cx_orders cx)]) of
        None \<Rightarrow> None | Some i \<Rightarrow> node_indices NTask nodes i)"

definition fastest_service :: "(nat \<Rightarrow> nat \<Rightarrow> int) \<Rightarrow> nat \<Rightarrow> nat \<Rightarrow> int" where
  "fastest_service service n_vehicles k =
     (case min_by (\<lambda>v. service v k) [0..<n_vehicles] of None \<Rightarrow> 0 | Some v \<Rightarrow> service v k)"

definition precedence_constraints ::
  "cluster_context \<Rightarrow> (nat \<Rightarrow> nat \<Rightarrow> int) \<Rightarrow> routing_node list \<Rightarrow> routing_constraint list" where
  "precedence_constraints cx service nodes =
     concat (map (\<lambda>(i, order).
       if depends_on_task_ref order = '''' then []
       else case (node_indices NTask nodes i, node_of_task cx nodes (depends_on_task_ref order)) of
              (Some k, Some pred) \<Rightarrow>
                if pred = k then []
                else [OnlyWith k pred, StartsAfter k pred (fastest_service service (length (cx_vehicles cx)) pred)]
            | _ \<Rightarrow> []) (enumerate 0 (cx_orders cx)))"

text \<open>Mass in grams (\<open>SCALE_MASS_UNITS_PER_KG\<close>).\<close>

definition mass_scale :: real where
  "mass_scale = 1000"

definition cluster_load_materials :: "cluster_context \<Rightarrow> string list" where
  "cluster_load_materials cx =
     sort (remdups (map load_material (filter (\<lambda>order. load_kg (load_demand order) > 0) (cx_orders cx))))"

definition material_demand :: "cluster_context \<Rightarrow> string \<Rightarrow> routing_node \<Rightarrow> int" where
  "material_demand cx m node =
     (case rn_order node of
        None \<Rightarrow> 0
      | Some i \<Rightarrow>
          let order = cx_orders cx ! i; quantity = py_int (load_kg (load_demand order) * mass_scale) in
          if load_material order \<noteq> m \<or> quantity \<le> 0 then 0
          else (case rn_kind node of
                  NPickup \<Rightarrow> quantity
                | NTask \<Rightarrow> if pickup_location_ref order \<noteq> '''' then - quantity else quantity
                | _ \<Rightarrow> 0))"

definition vehicle_capacities :: "'g routing_env \<Rightarrow> cluster_context \<Rightarrow> string \<Rightarrow> int list" where
  "vehicle_capacities re cx m =
     map (\<lambda>rv. py_int (compartment_capacity_kg (re_cc re) (re_rt re) (rv_prime rv) m * mass_scale)) (cx_vehicles cx)"

definition load_capacity_dimensions :: "'g routing_env \<Rightarrow> cluster_context \<Rightarrow> routing_node list \<Rightarrow> routing_constraint list" where
  "load_capacity_dimensions re cx nodes =
     map (\<lambda>m.
       let capacities = vehicle_capacities re cx m; max_capacity = Max (set capacities);
           demands = map (\<lambda>node. if rn_kind node = NReload then - max_capacity else material_demand cx m node) nodes
       in Capacity m demands capacities (if reload_nodes nodes = [] then 0 else max_capacity))
     (cluster_load_materials cx)"

subsection \<open>Costs\<close>

text \<open>\<open>int(s)\<close> of the stripped class, \<open>None\<close> for its \<open>ValueError\<close>.\<close>

definition coerce_priority_class :: "'g routing_env \<Rightarrow> task_row \<Rightarrow> int option" where
  "coerce_priority_class re order = re_int_of_str re (py_strip (priority_class order))"

definition completion_weight :: "'g routing_env \<Rightarrow> task_row \<Rightarrow> int \<Rightarrow> int \<Rightarrow> int" where
  "completion_weight re order now_epoch base_weight =
     (let cc = re_cc re in
      if \<not> cc_urgency_calibration cc then base_weight
      else
        let class_steps =
              (if cc_class_weight_step cc > 0 then
                 (case coerce_priority_class re order of
                    None \<Rightarrow> 0
                  | Some c \<Rightarrow> (let deficit = cc_baseline_class cc - c in
                              if deficit > 0 then deficit * cc_class_weight_step cc else 0))
               else 0);
            slack = deadline_from_now_s (re_rt re) (deadline order) now_epoch;
            slack_steps =
              (if cc_slack_bonus cc > 0 \<and> cc_slack_reference_s cc > 0 \<and> slack < cc_slack_reference_s cc
               then ((cc_slack_reference_s cc - slack) * cc_slack_bonus cc) div cc_slack_reference_s cc else 0)
        in base_weight * (1 + class_steps + slack_steps))"

definition completion_time_costs :: "'g routing_env \<Rightarrow> routing_job \<Rightarrow> routing_node list \<Rightarrow> (nat \<times> int) list" where
  "completion_time_costs re rj nodes =
     (if \<not> is_time_objective (rj_objective rj) \<or> cc_completion_weight (re_cc re) \<le> 0 then []
      else map (\<lambda>(k, i). (k, completion_weight re (cx_orders (rj_context rj) ! i) (rj_now rj) (cc_completion_weight (re_cc re))))
             (task_nodes nodes))"

definition cluster_operator_wage :: "routing_job \<Rightarrow> real" where
  "cluster_operator_wage rj =
     dget_default (cj_operator_wages (rj_cluster rj)) (operator_ref (rj_cluster rj)) (labor_eur_per_h (rj_prices rj))"

definition toll_active :: "routing_job \<Rightarrow> bool" where
  "toll_active rj \<longleftrightarrow> toll_eur_per_km (rj_prices rj) > 0 \<or> has_tolls (cx_travel (rj_context rj))"

text \<open>\<open>build_vehicle_cost_matrices\<close>: distance and toll of an arc, zero on the diagonal.\<close>

definition arc_distance_km :: "'g routing_env \<Rightarrow> cluster_context \<Rightarrow> routing_node list \<Rightarrow> nat \<Rightarrow> nat \<Rightarrow> nat \<Rightarrow> real" where
  "arc_distance_km re cx nodes v i j =
     (if i = j then 0
      else case network_distance_km (cx_travel cx) (rn_location (nodes ! i)) (rn_location (nodes ! j))
                  (travel_mode_for_vehicle (re_rt re) (rv_prime (cx_vehicles cx ! v))) of
             Some d \<Rightarrow> d
           | None \<Rightarrow> ce_geodesic (ge_env (re_geo re)) (rn_point (nodes ! i)) (rn_point (nodes ! j)))"

definition arc_toll_eur :: "'g routing_env \<Rightarrow> routing_job \<Rightarrow> routing_node list \<Rightarrow> nat \<Rightarrow> nat \<Rightarrow> nat \<Rightarrow> real" where
  "arc_toll_eur re rj nodes v i j =
     (let cx = rj_context rj in
      if i = j then 0
      else case network_toll_eur (cx_travel cx) (rn_location (nodes ! i)) (rn_location (nodes ! j))
                  (travel_mode_for_vehicle (re_rt re) (rv_prime (cx_vehicles cx ! v))) of
             Some t \<Rightarrow> t
           | None \<Rightarrow> ce_geodesic (ge_env (re_geo re)) (rn_point (nodes ! i)) (rn_point (nodes ! j))
                      * toll_eur_per_km (rj_prices rj))"

definition arc_cost ::
  "'g routing_env \<Rightarrow> routing_job \<Rightarrow> routing_node list \<Rightarrow> (nat \<Rightarrow> nat \<Rightarrow> nat \<Rightarrow> int) \<Rightarrow> nat \<Rightarrow> nat \<Rightarrow> nat \<Rightarrow> int" where
  "arc_cost re rj nodes travel v i j =
     (let cx = rj_context rj; service = node_service_s re cx nodes v i in
      if is_time_objective (rj_objective rj) then travel v i j + service
      else
        let prime = rv_prime (cx_vehicles cx ! v); prices = rj_prices rj;
            energy = max 0 (vehicle_energy_consumption_rate prime) * price_for prices (vehicle_energy_resource_type prime)
                       * eur_to_penalty_seconds / 3600;
            operating = (vehicle_machine_wear_eur_per_h prime (wear_eur_per_h prices) + cluster_operator_wage rj)
                       * eur_to_penalty_seconds / 3600;
            fee = service_fee_eur_per_visit prices * eur_to_penalty_seconds
        in round_half_even (real_of_int (travel v i j) * energy
             + real_of_int (travel v i j + service) * operating
             + (if toll_active rj then arc_toll_eur re rj nodes v i j * eur_to_penalty_seconds else 0)
             + (if rn_kind (nodes ! j) = NTask then fee else 0)))"

subsection \<open>The model of a job\<close>

definition overridden ::
  "(nat \<times> nat \<times> nat, int) dict \<Rightarrow> (nat \<Rightarrow> nat \<Rightarrow> nat \<Rightarrow> int) \<Rightarrow> nat \<Rightarrow> nat \<Rightarrow> nat \<Rightarrow> int" where
  "overridden overrides travel v i j = dget_default overrides (v, i, j) (travel v i j)"

text \<open>\<open>build_vehicle_time_matrices\<close>: the arc around the polygons that are always active.\<close>

definition travel_matrix ::
  "'g routing_env \<Rightarrow> cluster_context \<Rightarrow> routing_node list \<Rightarrow> (nat \<Rightarrow> route_restriction list) \<Rightarrow> nat \<Rightarrow> nat \<Rightarrow> nat \<Rightarrow> int" where
  "travel_matrix re cx nodes restrictions v i j =
     (let prime = rv_prime (cx_vehicles cx ! v) in
      obstacle_aware_travel_seconds (re_geo re) (rn_location (nodes ! i)) (rn_location (nodes ! j))
        (rn_point (nodes ! i)) (rn_point (nodes ! j)) (cx_travel cx) (travel_mode_for_vehicle (re_rt re) prime)
        (vehicle_fallback_speed_kmh (ce_default_speed (ge_env (re_geo re))) prime)
        (unconditional_polygons (restrictions v)))"

definition route_for_nodes ::
  "'g routing_env \<Rightarrow> cluster_context \<Rightarrow> routing_node list \<Rightarrow> nat \<Rightarrow> nat \<Rightarrow> nat \<Rightarrow> point list list \<Rightarrow> arc_path" where
  "route_for_nodes re cx nodes v i j polygons =
     (let prime = rv_prime (cx_vehicles cx ! v) in
      arc_route (re_geo re) (rn_location (nodes ! i)) (rn_location (nodes ! j))
        (rn_point (nodes ! i)) (rn_point (nodes ! j)) (cx_travel cx) (travel_mode_for_vehicle (re_rt re) prime)
        (vehicle_fallback_speed_kmh (ce_default_speed (ge_env (re_geo re))) prime) polygons)"

definition routing_model ::
  "'g routing_env \<Rightarrow> routing_job \<Rightarrow> routing_node list \<Rightarrow> (nat \<Rightarrow> nat \<Rightarrow> nat \<Rightarrow> int) \<Rightarrow> routing_problem" where
  "routing_model re rj nodes travel =
     (let cx = rj_context rj; rt = re_rt re; service = node_service_s re cx nodes; cd = cluster_spec.truncate (rj_cluster rj) in
      \<lparr>rp_nodes = nodes, rp_vehicles = length (cx_vehicles cx), rp_travel = travel, rp_service = service,
       rp_arc_cost = arc_cost re rj nodes travel, rp_soft_starts = completion_time_costs re rj nodes,
       rp_constraints =
         operation_vehicle_constraints rt cx nodes
         @ order_windows_and_disjunctions rt cx (rj_now rj) nodes
         @ make_reload_nodes_optional nodes
         @ load_capacity_dimensions re cx nodes
         @ precedence_constraints cx service nodes
         @ held_vehicle_breaks cx (rj_held rj) (rj_now rj)
         @ operator_no_overlap cd cx (rj_held rj) (rj_now rj) nodes\<rparr>)"

subsection \<open>Restriction refinement\<close>

text \<open>The detours of the arcs a plan travels while a timed polygon is active.\<close>

definition activated_timed_arc_overrides ::
  "'g routing_env \<Rightarrow> routing_job \<Rightarrow> routing_problem \<Rightarrow> (nat \<Rightarrow> route_restriction list) \<Rightarrow> routing_plan
   \<Rightarrow> (nat \<times> nat \<times> nat, int) dict" where
  "activated_timed_arc_overrides re rj rp restrictions p =
     fold (\<lambda>v. fold (\<lambda>((i, s), (j, t)) d.
         let polygons = active_polygons (restrictions v) (rj_now rj + s + rp_service rp v i) (rj_now rj + t);
             route = route_for_nodes re (rj_context rj) (rp_nodes rp) v i j polygons in
         if arc_detoured route \<and> arc_seconds route > rp_travel rp v i j
         then AList.update (v, i, j) (arc_seconds route) d else d) (route_arcs p v))
       [0..<rp_vehicles rp] []"

definition all_timed_arc_overrides ::
  "'g routing_env \<Rightarrow> routing_job \<Rightarrow> routing_problem \<Rightarrow> (nat \<Rightarrow> route_restriction list) \<Rightarrow> (nat \<times> nat \<times> nat, int) dict" where
  "all_timed_arc_overrides re rj rp restrictions =
     List.map_filter (\<lambda>(v, i, j).
         let route = route_for_nodes re (rj_context rj) (rp_nodes rp) v i j (map rr_polygon (restrictions v)) in
         if i \<noteq> j \<and> arc_detoured route \<and> arc_seconds route > rp_travel rp v i j
         then Some ((v, i, j), arc_seconds route) else None)
       (List.product [0..<rp_vehicles rp] (List.product [0..<length (rp_nodes rp)] [0..<length (rp_nodes rp)]))"

definition merge_overrides ::
  "(nat \<times> nat \<times> nat, int) dict \<Rightarrow> (nat \<times> nat \<times> nat, int) dict \<Rightarrow> (nat \<times> nat \<times> nat, int) dict" where
  "merge_overrides current new = fold (\<lambda>(arc, s). AList.update arc s) new current"

definition new_activations ::
  "(nat \<times> nat \<times> nat, int) dict \<Rightarrow> (nat \<times> nat \<times> nat, int) dict \<Rightarrow> (nat \<times> nat \<times> nat, int) dict" where
  "new_activations current activated = filter (\<lambda>(arc, s). s > dget_default current arc 0) activated"

record lns_info =
  li_attempted :: bool
  li_improved :: bool
  li_delta :: int
  li_time_limit_s :: "int option"

definition maybe_improve_with_lns ::
  "'g routing_env \<Rightarrow> cluster_job \<Rightarrow> routing_problem \<Rightarrow> routing_plan \<Rightarrow> routing_plan \<times> lns_info" where
  "maybe_improve_with_lns re cd rp p =
     (let cc = re_cc re; none = \<lparr>li_attempted = False, li_improved = False, li_delta = 0, li_time_limit_s = None\<rparr>;
          budget = (if cj_lns_time_limit_s cd \<le> 0 then cc_lns_time_limit_s cc else cj_lns_time_limit_s cd) in
      if cj_lns_time_limit_s cd \<le> 0 \<and> \<not> cc_lns_enabled cc then (p, none)
      else if total_penalty_per_day cd < cc_lns_min_penalty cc then (p, none)
      else
        let tried = none\<lparr>li_attempted := True, li_time_limit_s := Some budget\<rparr> in
        case ort_improve (re_ort re) rp p budget of
          None \<Rightarrow> (p, tried)
        | Some q \<Rightarrow>
            if pl_objective q < pl_objective p
            then (q, tried\<lparr>li_improved := True, li_delta := pl_objective q - pl_objective p\<rparr>)
            else (p, tried))"

text \<open>What one run of the solve loop ends with: no plan, or a plan of a model with its improvement
  record and the objective of the first solution.\<close>

datatype solve_end = NoPlan routing_problem | Solved routing_problem routing_plan lns_info int

definition time_limit_of :: "'g routing_env \<Rightarrow> routing_job \<Rightarrow> int" where
  "time_limit_of re rj = (case rj_time_limit_s rj of None \<Rightarrow> cc_solve_time_limit_s (re_cc re) | Some l \<Rightarrow> l)"

text \<open>
  \<open>solve_routing_context\<close> up to the extraction: it calls itself with the detours the solved plan
  activates; the pass after the last allowed refinement takes every timed detour and is final.
\<close>

function routing_loop ::
  "'g routing_env \<Rightarrow> routing_job \<Rightarrow> routing_node list \<Rightarrow> (nat \<Rightarrow> route_restriction list)
   \<Rightarrow> (nat \<times> nat \<times> nat, int) dict \<Rightarrow> nat \<Rightarrow> bool \<Rightarrow> solve_end" where
  "routing_loop re rj nodes restrictions overrides refinement final_pass =
     (let cx = rj_context rj;
          travel = overridden overrides (travel_matrix re cx nodes restrictions);
          rp = routing_model re rj nodes travel;
          routes = build_capacity_aware_initial_routes (re_cc re) (re_rt re) cx (rj_greedy rj) (rj_vehicle_index rj) nodes in
      case ort_solve (re_ort re) rp routes (time_limit_of re rj) of
        None \<Rightarrow> NoPlan rp
      | Some p \<Rightarrow>
          let fresh = new_activations overrides (activated_timed_arc_overrides re rj rp restrictions p) in
          if \<not> final_pass \<and> fresh \<noteq> [] then
            (let last_pass = (refinement \<ge> cc_max_refinements (re_cc re));
                 current = merge_overrides overrides fresh in
             routing_loop re rj nodes restrictions
               (if last_pass then merge_overrides current (all_timed_arc_overrides re rj rp restrictions) else current)
               (Suc refinement) last_pass)
          else
            (case maybe_improve_with_lns re (rj_cluster rj) rp p of
               (q, info) \<Rightarrow> Solved rp q info (pl_objective p)))"
  by pat_completeness auto
termination
  by (relation "measure (\<lambda>(re, rj, nodes, restrictions, overrides, refinement, final_pass).
        if final_pass then 0 else Suc (cc_max_refinements (re_cc re) - refinement) + (if refinement \<le> cc_max_refinements (re_cc re) then 1 else 0))")
     auto

declare routing_loop.simps [simp del]

subsection \<open>Extraction\<close>

text \<open>A dispatch package; the start and the end are the epoch seconds the code formats as ISO
  timestamps, \<open>dispatch_id\<close> is left out.\<close>

record package = dispatch +
  pk_prime_asset_id :: string
  pk_related_asset_id :: string
  pk_operator_asset_id :: string
  pk_depot_ref :: string
  pk_start :: int
  pk_end :: int
  pk_waypoints :: "point list"
  pk_fuel_l :: real
  pk_energy_type :: string
  pk_energy_quantity :: real
  pk_energy_unit :: string
  pk_energy_cost :: real
  pk_fertilizer_kg :: real
  pk_distance_km :: real
  pk_labor_cost :: real
  pk_wear_cost :: real
  pk_toll_cost :: real
  pk_service_fee :: real
  pk_margin :: real

text \<open>The travel accumulated since the last task.\<close>

record inbound =
  in_travel_s :: int
  in_distance_km :: real
  in_toll :: real
  in_waypoints :: "point list"

definition no_inbound :: inbound where
  "no_inbound = \<lparr>in_travel_s = 0, in_distance_km = 0, in_toll = 0, in_waypoints = []\<rparr>"

definition add_leg ::
  "'g routing_env \<Rightarrow> routing_job \<Rightarrow> routing_problem \<Rightarrow> (nat \<Rightarrow> route_restriction list) \<Rightarrow> nat
   \<Rightarrow> nat \<times> int \<Rightarrow> nat \<times> int \<Rightarrow> inbound \<Rightarrow> inbound" where
  "add_leg re rj rp restrictions v from to b =
     (case (from, to) of ((i, s), (j, t)) \<Rightarrow>
       let cx = rj_context rj; nodes = rp_nodes rp in
       if i = j then b
       else
         \<lparr>in_travel_s = in_travel_s b + rp_travel rp v i j,
          in_distance_km = in_distance_km b + (if toll_active rj then arc_distance_km re cx nodes v i j else 0),
          in_toll = in_toll b + (if toll_active rj then arc_toll_eur re rj nodes v i j else 0),
          in_waypoints = in_waypoints b @
            detour_waypoints (re_geo re) (rn_location (nodes ! i)) (rn_location (nodes ! j))
              (rn_point (nodes ! i)) (rn_point (nodes ! j)) (cx_travel cx)
              (travel_mode_for_vehicle (re_rt re) (rv_prime (cx_vehicles cx ! v)))
              (active_polygons (restrictions v) (rj_now rj + s) (rj_now rj + t))\<rparr>)"

definition package_of ::
  "'g routing_env \<Rightarrow> routing_job \<Rightarrow> routing_problem \<Rightarrow> nat \<Rightarrow> nat \<Rightarrow> int \<Rightarrow> nat \<Rightarrow> inbound \<Rightarrow> package" where
  "package_of re rj rp v k arrival_s i b =
     (let cx = rj_context rj; cd = rj_cluster rj; prices = rj_prices rj; rv = cx_vehicles cx ! v; prime = rv_prime rv;
          order = cx_orders cx ! i;
          op_seconds = estimate_operation_seconds (re_rt re) order (rv_related rv);
          start_epoch = rj_now rj + arrival_s;
          energy_type = vehicle_energy_resource_type prime;
          operating_hours = real_of_int (op_seconds + in_travel_s b) / 3600;
          energy_quantity = operating_hours * vehicle_energy_consumption_rate prime;
          energy_cost = energy_quantity * price_for prices energy_type;
          fuel_l = (if energy_type = ''fuel'' then energy_quantity else 0);
          operator_id = task_operator (cluster_spec.truncate cd) (task_id order);
          labor_cost = operating_hours * dget_default (cj_operator_wages cd) operator_id (labor_eur_per_h prices);
          wear_cost = operating_hours * vehicle_machine_wear_eur_per_h prime (wear_eur_per_h prices);
          fertilizer_kg = material_capacity (rv_related rv) * cc_material_fill_ratio (re_cc re);
          fee = service_fee_eur_per_visit prices;
          margin_eur = revenue order - energy_cost - fertilizer_kg * material_eur_per_kg prices - labor_cost
                         - wear_cost - in_toll b - fee
      in \<lparr>d_task_id = task_id order, d_cluster_id = cx_cluster_id cx,
          pk_prime_asset_id = pm_asset_id prime, pk_related_asset_id = rel_asset_id (rv_related rv),
          pk_operator_asset_id = operator_id, pk_depot_ref = cx_depot_id cx,
          pk_start = start_epoch, pk_end = start_epoch + op_seconds,
          pk_waypoints = in_waypoints b @ [rn_point (rp_nodes rp ! k)],
          pk_fuel_l = py_round 2 fuel_l, pk_energy_type = energy_type,
          pk_energy_quantity = py_round 2 energy_quantity, pk_energy_unit = vehicle_energy_unit prime,
          pk_energy_cost = py_round 2 energy_cost, pk_fertilizer_kg = py_round 2 fertilizer_kg,
          pk_distance_km = py_round 2 (in_distance_km b), pk_labor_cost = py_round 2 labor_cost,
          pk_wear_cost = py_round 2 wear_cost, pk_toll_cost = py_round 2 (in_toll b),
          pk_service_fee = py_round 2 fee, pk_margin = py_round 2 margin_eur\<rparr>)"

fun walk_route ::
  "'g routing_env \<Rightarrow> routing_job \<Rightarrow> routing_problem \<Rightarrow> (nat \<Rightarrow> route_restriction list) \<Rightarrow> nat
   \<Rightarrow> nat \<times> int \<Rightarrow> inbound \<Rightarrow> (nat \<times> int) list \<Rightarrow> package list" where
  "walk_route re rj rp restrictions v prev b [] = []"
| "walk_route re rj rp restrictions v prev b ((k, t) # stops) =
     (let b' = add_leg re rj rp restrictions v prev (k, t) b in
      case (rn_kind (rp_nodes rp ! k), rn_order (rp_nodes rp ! k)) of
        (NTask, Some i) \<Rightarrow> package_of re rj rp v k t i b' # walk_route re rj rp restrictions v (k, t) no_inbound stops
      | _ \<Rightarrow> walk_route re rj rp restrictions v (k, t) b' stops)"

definition extract_dispatch_packages ::
  "'g routing_env \<Rightarrow> routing_job \<Rightarrow> routing_problem \<Rightarrow> (nat \<Rightarrow> route_restriction list) \<Rightarrow> routing_plan \<Rightarrow> package list" where
  "extract_dispatch_packages re rj rp restrictions p =
     concat (map (\<lambda>v. walk_route re rj rp restrictions v (0, pl_depart p v) no_inbound
                        (map (\<lambda>k. (k, pl_time p k)) (pl_routes p ! v)))
       [0..<length (cx_vehicles (rj_context rj))])"

subsection \<open>The solve of one cluster\<close>

text \<open>A solve record (\<open>ClusterSolveTelemetry\<close>); a key that a record may lack is optional.\<close>

record solve_record =
  so_cluster_id :: string
  so_status :: string
  so_n_tasks :: nat
  so_n_vehicles :: "nat option"
  so_wall_s :: "real option"
  so_time_limit_s :: "int option"
  so_routing_status :: string
  so_hit_time_limit :: bool
  so_objective :: "int option"
  so_first_objective :: "int option"
  so_lns :: lns_info
  so_n_dispatched :: "nat option"
  so_n_unserved :: "nat option"
  so_conflict :: "resource_conflict option"
  so_detail :: "detail option"
  so_max_rss_mb :: "real option"

definition no_lns :: lns_info where
  "no_lns = \<lparr>li_attempted = False, li_improved = False, li_delta = 0, li_time_limit_s = None\<rparr>"

definition blank_record :: "string \<Rightarrow> string \<Rightarrow> nat \<Rightarrow> solve_record" where
  "blank_record cid status n =
     \<lparr>so_cluster_id = cid, so_status = status, so_n_tasks = n, so_n_vehicles = None, so_wall_s = None,
      so_time_limit_s = None, so_routing_status = '''', so_hit_time_limit = False, so_objective = None,
      so_first_objective = None, so_lns = no_lns, so_n_dispatched = None, so_n_unserved = None,
      so_conflict = None, so_detail = None, so_max_rss_mb = None\<rparr>"

definition extract_resource_conflict ::
  "'g routing_env \<Rightarrow> routing_job \<Rightarrow> routing_plan \<Rightarrow> nat \<Rightarrow> resource_conflict" where
  "extract_resource_conflict re rj p n_unserved =
     (let cx = rj_context rj; materials = cluster_load_materials cx;
          used = filter (\<lambda>v. pl_routes p ! v \<noteq> []) [0..<length (cx_vehicles cx)];
          max_end_s = fold (\<lambda>v m. max m (pl_return p v)) used 0;
          peak = (\<lambda>m v. fold max (map (pl_load p m) (pl_routes p ! v) @ [pl_load_end p m v]) 0);
          capacity = (\<lambda>m v. compartment_capacity_kg (re_cc re) (re_rt re) (rv_prime (cx_vehicles cx ! v)) m * mass_scale);
          utilization = fold (\<lambda>v d. fold (\<lambda>m d.
              if capacity m v > 0
              then AList.update m (max (dget_default d m 0) (real_of_int (peak m v) / capacity m v)) d else d)
            materials d) used []
      in build_resource_conflict (cc_tight_utilization (re_cc re)) n_unserved (length (cx_vehicles cx)) (length used)
           (real_of_int max_end_s / real_of_int routing_horizon_s) utilization)"

text \<open>The restrictions of every vehicle; \<open>None\<close> when a polygon does not parse.\<close>

fun all_restrictions ::
  "runtime \<Rightarrow> site_row list \<Rightarrow> int \<Rightarrow> routing_vehicle list \<Rightarrow> route_restriction list list option" where
  "all_restrictions rt sites now_epoch [] = Some []"
| "all_restrictions rt sites now_epoch (rv # rvs) =
     (case (route_restrictions_for_vehicle rt sites rv now_epoch, all_restrictions rt sites now_epoch rvs) of
        (Some r, Some rs) \<Rightarrow> Some (r # rs) | _ \<Rightarrow> None)"

type_synonym solve_result = "package list \<times> infeasible list \<times> solve_record"

definition hit_limit :: "'g routing_env \<Rightarrow> routing_job \<Rightarrow> routing_problem \<Rightarrow> bool" where
  "hit_limit re rj rp \<longleftrightarrow>
     sublist ''TIMEOUT'' (ort_status (re_ort re) rp) \<or> ort_wall_s (re_ort re) rp \<ge> real_of_int (time_limit_of re rj)"

definition read_solution ::
  "'g routing_env \<Rightarrow> routing_job \<Rightarrow> (nat \<Rightarrow> route_restriction list) \<Rightarrow> solve_end \<Rightarrow> solve_result" where
  "read_solution re rj restrictions e =
     (let cx = rj_context rj; cd = rj_cluster rj;
          base = (\<lambda>rp status. (blank_record (cx_cluster_id cx) status (length (cx_orders cx)))
             \<lparr>so_n_vehicles := Some (length (cx_vehicles cx)), so_time_limit_s := Some (time_limit_of re rj),
              so_wall_s := Some (py_round 3 (ort_wall_s (re_ort re) rp)),
              so_routing_status := ort_status (re_ort re) rp,
              so_lns := no_lns\<lparr>li_time_limit_s := Some (cj_lns_time_limit_s cd)\<rparr>\<rparr>) in
      case e of
        NoPlan rp \<Rightarrow>
          let hit = (ort_wall_s (re_ort re) rp \<ge> real_of_int (time_limit_of re rj)) in
          ([], mark_all_infeasible (cluster_spec.truncate cd) OPTIMIZATION_TRADEOFF NoSolutionInTime,
           (base rp ''no_solution'')
             \<lparr>so_hit_time_limit := hit, so_n_dispatched := Some 0, so_n_unserved := Some (length (cx_task_ids cx)),
              so_detail := Some NoSolutionInTime,
              so_conflict := Some (no_solution_conflict hit (length (cx_task_ids cx)))\<rparr>)
      | Solved rp p info first_objective \<Rightarrow>
          let packages = extract_dispatch_packages re rj rp restrictions p;
              infs = unserved_orders (cx_task_ids cx) (cx_cluster_id cx) (d_task_id ` set packages) (cx_orders cx)
          in (packages, infs,
              (base rp ''solved'')
                \<lparr>so_hit_time_limit := hit_limit re rj rp, so_objective := Some (pl_objective p),
                 so_first_objective := Some first_objective, so_n_dispatched := Some (length packages),
                 so_n_unserved := Some (length infs),
                 so_lns := info\<lparr>li_time_limit_s := (case li_time_limit_s info of
                              None \<Rightarrow> Some (cj_lns_time_limit_s cd) | Some l \<Rightarrow> Some l)\<rparr>,
                 so_conflict := Some (extract_resource_conflict re rj p (length infs))\<rparr>))"

definition solve_routing_context :: "'g routing_env \<Rightarrow> routing_job \<Rightarrow> solve_result option" where
  "solve_routing_context re rj =
     (let cx = rj_context rj in
      case all_restrictions (re_rt re) (map snd (cx_field_map cx)) (rj_now rj) (cx_vehicles cx) of
        None \<Rightarrow> None
      | Some rs \<Rightarrow>
          let nodes = build_node_table cx (n_reload_nodes re cx); restrictions = (\<lambda>v. rs ! v) in
          Some (read_solution re rj restrictions (routing_loop re rj nodes restrictions [] 0 False)))"

text \<open>The rows and the run's settings that every cluster of a run shares (\<open>_SolveArgs\<close>).\<close>

record solve_args =
  sa_rows :: solve_rows
  sa_greedy :: "(string, nat \<times> nat) dict"
  sa_vehicle_index :: "(string, nat) dict"
  sa_held :: "(string, interval list) dict"
  sa_travel :: travel_lookup
  sa_time_limit_s :: "int option"
  sa_now :: int
  sa_blocked :: "(string, interval list) dict"
  sa_prices :: resource_prices
  sa_objective :: string

definition job_of ::
  "solve_args \<Rightarrow> cluster_job \<Rightarrow> (string, interval list) dict \<Rightarrow> int option \<Rightarrow> cluster_context \<Rightarrow> routing_job" where
  "job_of sa cd held limit cx =
     \<lparr>rj_context = cx, rj_cluster = cd, rj_greedy = sa_greedy sa, rj_vehicle_index = sa_vehicle_index sa,
      rj_held = held, rj_time_limit_s = limit, rj_now = sa_now sa, rj_prices = sa_prices sa,
      rj_objective = sa_objective sa\<rparr>"

definition solve_cluster_inner ::
  "'g routing_env \<Rightarrow> solve_args \<Rightarrow> cluster_job \<Rightarrow> (string, interval list) dict \<Rightarrow> int option \<Rightarrow> solve_result option" where
  "solve_cluster_inner re sa cd held limit =
     (case prepare_cluster_context (re_rt re) (cluster_spec.truncate cd) (sa_rows sa) (sa_travel sa) (sa_blocked sa) of
        Inr infs \<Rightarrow>
          Some ([], infs,
            (blank_record (cluster_id cd) (if infs = [] then ''empty'' else ''input_error'') (length (task_ids cd)))
              \<lparr>so_n_dispatched := Some 0, so_n_unserved := Some (length infs),
               so_detail := Some (case infs of [] \<Rightarrow> NoTasks | i # _ \<Rightarrow> inf_detail i)\<rparr>)
      | Inl cx \<Rightarrow>
          map_option (\<lambda>(packages, infs, rec).
              (packages, cx_pre_infeasible cx @ infs,
               rec\<lparr>so_n_unserved := Some (length (cx_pre_infeasible cx @ infs))\<rparr>))
            (solve_routing_context re (job_of sa cd held limit cx)))"

text \<open>\<open>solve_cluster_instrumented\<close>: an exception becomes a record of every task; \<open>rss\<close> is the
  measured peak memory of the process, absent when it cannot be read.\<close>

definition solve_cluster_instrumented ::
  "'g routing_env \<Rightarrow> (string \<Rightarrow> real option) \<Rightarrow> solve_args \<Rightarrow> cluster_job \<Rightarrow> (string, interval list) dict \<Rightarrow> int option
   \<Rightarrow> solve_result" where
  "solve_cluster_instrumented re rss sa cd held limit =
     (let stamp = (\<lambda>rec. case rss (cluster_id cd) of
                       None \<Rightarrow> rec | Some m \<Rightarrow> rec\<lparr>so_max_rss_mb := Some (py_round 2 m)\<rparr>) in
      case solve_cluster_inner re sa cd held limit of
        Some (packages, infs, rec) \<Rightarrow> (packages, infs, stamp rec)
      | None \<Rightarrow>
          let detail = UnhandledException ''malformed geometry'';
              infs = mark_all_infeasible (cluster_spec.truncate cd) UNKNOWN detail
          in ([], infs,
              stamp ((blank_record (cluster_id cd) ''worker_error'' (length (task_ids cd)))
                \<lparr>so_n_dispatched := Some 0, so_n_unserved := Some (length infs), so_detail := Some detail\<rparr>)))"

definition solve_cluster ::
  "'g routing_env \<Rightarrow> (string \<Rightarrow> real option) \<Rightarrow> solve_args \<Rightarrow> cluster_job \<Rightarrow> (string, interval list) dict \<Rightarrow> int option
   \<Rightarrow> package list \<times> infeasible list" where
  "solve_cluster re rss sa cd held limit =
     (case solve_cluster_instrumented re rss sa cd held limit of (packages, infs, _) \<Rightarrow> (packages, infs))"

subsection \<open>Where a package stands in the plan\<close>

definition model_nodes :: "'g routing_env \<Rightarrow> routing_job \<Rightarrow> routing_node list" where
  "model_nodes re rj = build_node_table (rj_context rj) (n_reload_nodes re (rj_context rj))"

definition is_task_node :: "routing_problem \<Rightarrow> nat \<Rightarrow> bool" where
  "is_task_node rp k \<longleftrightarrow> rn_kind (rp_nodes rp ! k) = NTask \<and> rn_order (rp_nodes rp ! k) \<noteq> None"

definition served_nodes :: "routing_problem \<Rightarrow> routing_plan \<Rightarrow> nat \<Rightarrow> (nat \<times> nat) list" where
  "served_nodes rp p n = concat (map (\<lambda>v. map (Pair v) (filter (is_task_node rp) (pl_routes p ! v))) [0..<n])"

text \<open>\<open>pk\<close> is the package of task node \<open>k\<close> on vehicle \<open>v\<close>.\<close>

definition package_at ::
  "'g routing_env \<Rightarrow> routing_job \<Rightarrow> routing_problem \<Rightarrow> routing_plan \<Rightarrow> package \<Rightarrow> nat \<times> nat \<Rightarrow> bool" where
  "package_at re rj rp p pk vk \<longleftrightarrow>
     (case vk of (v, k) \<Rightarrow> \<exists>i b. rn_kind (rp_nodes rp ! k) = NTask \<and> rn_order (rp_nodes rp ! k) = Some i
        \<and> pk = package_of re rj rp v k (pl_time p k) i b)"

lemma walk_route_packages:
  "list_all2 (package_at re rj rp p)
     (walk_route re rj rp restrictions v prev b (map (\<lambda>k. (k, pl_time p k)) ks))
     (map (Pair v) (filter (is_task_node rp) ks))"
proof (induction ks arbitrary: prev b)
  case (Cons k ks)
  show ?case
  proof (cases "rn_kind (rp_nodes rp ! k) = NTask")
    case True
    then show ?thesis using Cons
      by (cases "rn_order (rp_nodes rp ! k)") (auto simp: is_task_node_def package_at_def Let_def)
  next
    case False
    then have "walk_route re rj rp restrictions v prev b (map (\<lambda>k. (k, pl_time p k)) (k # ks))
        = walk_route re rj rp restrictions v (k, pl_time p k) (add_leg re rj rp restrictions v prev (k, pl_time p k) b)
            (map (\<lambda>k. (k, pl_time p k)) ks)"
      by (cases "rn_kind (rp_nodes rp ! k)") (auto simp: Let_def)
    then show ?thesis using Cons False by (simp add: is_task_node_def)
  qed
qed simp

lemma list_all2_concat_map:
  "(\<And>x. x \<in> set xs \<Longrightarrow> list_all2 P (f x) (g x)) \<Longrightarrow> list_all2 P (concat (map f xs)) (concat (map g xs))"
  by (induction xs) (auto intro: list_all2_appendI)

lemma extracted_packages:
  "list_all2 (package_at re rj rp p) (extract_dispatch_packages re rj rp restrictions p)
     (served_nodes rp p (length (cx_vehicles (rj_context rj))))"
  unfolding extract_dispatch_packages_def served_nodes_def
  by (rule list_all2_concat_map) (rule walk_route_packages)

lemma served_nodes_mem:
  "(v, k) \<in> set (served_nodes rp p n) \<longleftrightarrow> v < n \<and> k \<in> set (pl_routes p ! v) \<and> is_task_node rp k"
  by (auto simp: served_nodes_def)

lemma distinct_served_nodes:
  assumes "distinct (concat (pl_routes p))" "length (pl_routes p) = n"
  shows "distinct (map snd (served_nodes rp p n))"
proof -
  have "map snd (served_nodes rp p n) = filter (is_task_node rp) (concat (map (\<lambda>v. pl_routes p ! v) [0..<n]))"
    by (simp add: served_nodes_def map_concat comp_def filter_concat)
  also have "map (\<lambda>v. pl_routes p ! v) [0..<n] = pl_routes p"
    using assms(2) map_nth [of "pl_routes p"] by simp
  finally show ?thesis using assms(1) by simp
qed

lemma concat_nth_unique:
  "distinct (concat xss) \<Longrightarrow> a < length xss \<Longrightarrow> b < length xss \<Longrightarrow> x \<in> set (xss ! a) \<Longrightarrow> x \<in> set (xss ! b) \<Longrightarrow> a = b"
proof (induction xss arbitrary: a b)
  case (Cons ys xss)
  have rest: "x \<in> set (concat xss)" if "x \<in> set (xss ! c)" "c < length xss" for c
    using that nth_mem by fastforce
  show ?case
    using Cons.prems Cons.IH rest by (cases a; cases b) auto
qed simp

lemma vehicle_of_route:
  assumes "feasible rp p" "v < rp_vehicles rp" "k \<in> set (pl_routes p ! v)"
  shows "vehicle_of p k = Some v"
proof -
  have len: "v < length (pl_routes p)" and d: "distinct (concat (pl_routes p))"
    using assms(1,2) by (simp_all add: feasible_def)
  have other: "k \<notin> set (pl_routes p ! u)" if "u < v" for u
    using concat_nth_unique [OF d _ len _ assms(3), of u] that len by fastforce
  have "find (\<lambda>u. k \<in> set (pl_routes p ! u)) [0..<length (pl_routes p)] = Some v"
    unfolding find_Some_iff
  proof (intro exI [of _ v] conjI allI impI)
    fix u assume "u < v"
    then show "k \<notin> set (pl_routes p ! ([0..<length (pl_routes p)] ! u))" using other len by simp
  qed (use len assms(3) in simp_all)
  then show ?thesis by (simp add: vehicle_of_def)
qed

lemma feasible_holds: "feasible rp p \<Longrightarrow> c \<in> set (rp_constraints rp) \<Longrightarrow> holds rp p c"
  by (simp add: feasible_def list_all_iff)

lemma model_sel [simp]:
  "rp_nodes (routing_model re rj nodes travel) = nodes"
  "rp_vehicles (routing_model re rj nodes travel) = length (cx_vehicles (rj_context rj))"
  "rp_travel (routing_model re rj nodes travel) = travel"
  "rp_service (routing_model re rj nodes travel) = node_service_s re (rj_context rj) nodes"
  by (simp_all add: routing_model_def Let_def)

lemma model_constraints:
  "set (rp_constraints (routing_model re rj nodes travel)) =
     set (operation_vehicle_constraints (re_rt re) (rj_context rj) nodes)
     \<union> set (order_windows_and_disjunctions (re_rt re) (rj_context rj) (rj_now rj) nodes)
     \<union> set (make_reload_nodes_optional nodes)
     \<union> set (load_capacity_dimensions re (rj_context rj) nodes)
     \<union> set (precedence_constraints (rj_context rj) (node_service_s re (rj_context rj) nodes) nodes)
     \<union> set (held_vehicle_breaks (rj_context rj) (rj_held rj) (rj_now rj))
     \<union> set (operator_no_overlap (cluster_spec.truncate (rj_cluster rj)) (rj_context rj) (rj_held rj) (rj_now rj) nodes)"
  by (auto simp: routing_model_def Let_def)

lemma map_filter_iff: "y \<in> set (List.map_filter f xs) \<longleftrightarrow> (\<exists>x\<in>set xs. f x = Some y)"
  by (induction xs) (auto simp: List.map_filter_simps split: option.splits)

lemma task_nodes_mem:
  "(k, i) \<in> set (task_nodes nodes) \<longleftrightarrow> k < length nodes \<and> rn_kind (nodes ! k) = NTask \<and> rn_order (nodes ! k) = Some i"
  by (auto simp: task_nodes_def map_filter_iff split: if_splits)

lemma task_order_range:
  assumes "k < length (build_node_table cx n)" "rn_kind (build_node_table cx n ! k) = NTask"
    "rn_order (build_node_table cx n ! k) = Some i"
  shows "i < length (cx_orders cx)"
  using set_node_table [OF nth_mem [OF assms(1)]] assms(2,3) order_nodes_order by fastforce

text \<open>A served node and what the plan says about it.\<close>

lemma served_package:
  assumes f: "feasible (routing_model re rj nodes travel) p" and nodes: "nodes = build_node_table (rj_context rj) n"
    and pk: "package_at re rj (routing_model re rj nodes travel) p pk (v, k)"
    and served: "(v, k) \<in> set (served_nodes (routing_model re rj nodes travel) p (length (cx_vehicles (rj_context rj))))"
  shows "\<exists>i. (k, i) \<in> set (task_nodes nodes) \<and> i < length (cx_orders (rj_context rj))
    \<and> d_task_id pk = task_id (cx_orders (rj_context rj) ! i)
    \<and> pk_operator_asset_id pk = task_operator (cluster_spec.truncate (rj_cluster rj)) (task_id (cx_orders (rj_context rj) ! i))
    \<and> pk_prime_asset_id pk = pm_asset_id (rv_prime (cx_vehicles (rj_context rj) ! v))
    \<and> pk_related_asset_id pk = rel_asset_id (rv_related (cx_vehicles (rj_context rj) ! v))
    \<and> pk_start pk = rj_now rj + pl_time p k
    \<and> pk_end pk = rj_now rj + finish (routing_model re rj nodes travel) p k
    \<and> pk_end pk = pk_start pk + estimate_operation_seconds (re_rt re) (cx_orders (rj_context rj) ! i)
         (rv_related (cx_vehicles (rj_context rj) ! v))
    \<and> d_cluster_id pk = cx_cluster_id (rj_context rj)
    \<and> vehicle_of p k = Some v \<and> v < length (cx_vehicles (rj_context rj)) \<and> k \<in> set (pl_routes p ! v)"
proof -
  have v: "v < length (cx_vehicles (rj_context rj))" "k \<in> set (pl_routes p ! v)"
    using served by (simp_all add: served_nodes_mem)
  then have vk: "vehicle_of p k = Some v" using vehicle_of_route [OF f] by simp
  have "k \<in> set (concat (pl_routes p))" using v f by (force simp: feasible_def in_set_conv_nth)
  then have k: "k < length nodes" using f by (auto simp: feasible_def list_all_iff)
  obtain i b where i: "rn_kind (nodes ! k) = NTask" "rn_order (nodes ! k) = Some i"
      "pk = package_of re rj (routing_model re rj nodes travel) v k (pl_time p k) i b"
    using pk by (auto simp: package_at_def)
  have "finish (routing_model re rj nodes travel) p k
      = pl_time p k + estimate_operation_seconds (re_rt re) (cx_orders (rj_context rj) ! i)
           (rv_related (cx_vehicles (rj_context rj) ! v))"
    using vk i by (simp add: finish_def service_expr_def node_service_s_def)
  moreover have "i < length (cx_orders (rj_context rj))"
    using task_order_range k i(1,2) nodes by blast
  ultimately show ?thesis
    using v vk k i by (auto simp: task_nodes_mem package_of_def Let_def)
qed

subsection \<open>Starts, windows and blocks\<close>

lemma gaps_exclude:
  assumes "normal 1 offs" "offs \<noteq> []" "fst (hd offs) \<le> t" "t \<le> snd (last offs)"
    and "\<And>a b c d. ((a, b), (c, d)) \<in> set (zip offs (tl offs)) \<Longrightarrow> t < b + 1 \<or> c - 1 < t"
  shows "t \<in> pts offs"
  using assms(2,1,3,4,5)
proof (induction offs rule: list_nonempty_induct)
  case (single x)
  then show ?case by (cases x) simp
next
  case (cons x xs)
  obtain a b where x: "x = (a, b)" by fastforce
  obtain c d ys where xs: "xs = (c, d) # ys" using cons(1) by (cases xs) auto
  show ?case
  proof (cases "t \<le> b")
    case True
    then show ?thesis using cons.prems x by simp
  next
    case False
    then have "c \<le> t" using cons.prems(4) [of a b c d] x xs by auto
    moreover have "normal 1 xs" using cons.prems(1) x by (simp add: normal_Cons)
    ultimately have "t \<in> pts xs" using cons.prems(3,4) xs x by (intro cons.IH) auto
    then show ?thesis using x by simp
  qed
qed

lemma start_in_offsets:
  assumes "\<forall>c\<in>set (restrict_start_intervals rt k order now_epoch dl B). holds rp p c" "is_active p k"
    and "has_windows rt order \<or> B \<noteq> []"
  shows "pl_time p k \<in> pts (if has_windows rt order then window_offsets rt order now_epoch dl else [(0, dl)]) - pts B"
proof -
  let ?base = "if has_windows rt order then window_offsets rt order now_epoch dl else [(0, dl)]"
  let ?offs = "subtract_intervals ?base B"
  let ?gap = "\<lambda>((_, prev_end), (next_start, _)). if next_start > prev_end + 1
      then Some (StartNotIn k (prev_end + 1) (next_start - 1)) else None"
  have cs: "restrict_start_intervals rt k order now_epoch dl B =
      (if ?offs = [] then [Dropped k]
       else StartIn k (fst (hd ?offs)) (snd (last ?offs)) # List.map_filter ?gap (zip ?offs (tl ?offs)))"
    using assms(3) by (simp add: restrict_start_intervals_def Let_def)
  have ne: "?offs \<noteq> []" using assms(1,2) unfolding cs by (auto split: if_splits)
  have "pl_time p k \<in> pts ?offs"
  proof (rule gaps_exclude [OF normal_subtract_intervals ne])
    show "fst (hd ?offs) \<le> pl_time p k" "pl_time p k \<le> snd (last ?offs)"
      using assms(1) ne unfolding cs by simp_all
  next
    fix a b c d assume z: "((a, b), (c, d)) \<in> set (zip ?offs (tl ?offs))"
    show "pl_time p k < b + 1 \<or> c - 1 < pl_time p k"
    proof (cases "c > b + 1")
      case True
      then have "StartNotIn k (b + 1) (c - 1) \<in> set (List.map_filter ?gap (zip ?offs (tl ?offs)))"
        using z by (force simp: map_filter_iff)
      then have "StartNotIn k (b + 1) (c - 1) \<in> set (restrict_start_intervals rt k order now_epoch dl B)"
        unfolding cs using ne by simp
      then have "holds rp p (StartNotIn k (b + 1) (c - 1))" using assms(1) by blast
      then show ?thesis by auto
    qed auto
  qed
  then show ?thesis by simp
qed

lemma task_constraints_posted:
  assumes "(k, i) \<in> set (task_nodes nodes)"
    and "c \<in> set (task_node_constraints (re_rt re) (rj_context rj) (rj_now rj) nodes k i)"
  shows "c \<in> set (rp_constraints (routing_model re rj nodes travel))"
  using assms unfolding model_constraints order_windows_and_disjunctions_def by fastforce

text \<open>An active task node starts by its deadline, executes inside one workable window and outside
  every block.\<close>

lemma node_schedule:
  assumes f: "feasible (routing_model re rj nodes travel) p" and ki: "(k, i) \<in> set (task_nodes nodes)"
    and active: "is_active p k"
    and order: "order = cx_orders (rj_context rj) ! i"
    and dl: "dl = deadline_from_now_s (re_rt re) (deadline order) (rj_now rj)"
    and B: "B = blocked_occupancy_offsets (re_rt re) (rj_context rj) order (rj_now rj) dl"
  shows "0 \<le> pl_time p k \<and> pl_time p k \<le> dl
    \<and> (has_windows (re_rt re) order \<longrightarrow>
        (\<exists>(a, b)\<in>set (window_offsets (re_rt re) order (rj_now rj) dl).
           a \<le> pl_time p k \<and> finish (routing_model re rj nodes travel) p k \<le> b))
    \<and> (\<forall>(a, b)\<in>set B. finish (routing_model re rj nodes travel) p k \<le> a \<or> b < pl_time p k)"
proof -
  let ?rp = "routing_model re rj nodes travel" and ?rt = "re_rt re" and ?now = "rj_now rj"
  have holds: "holds ?rp p c" if "c \<in> set (task_node_constraints ?rt (rj_context rj) ?now nodes k i)" for c
    by (rule feasible_holds [OF f task_constraints_posted [OF ki that]])
  have cs: "set (task_node_constraints ?rt (rj_context rj) ?now nodes k i) \<supseteq>
      {StartIn k 0 dl} \<union> set (restrict_start_intervals ?rt k order ?now dl B)
      \<union> set (occupancy_constraints k B) \<union> set (finish_within_windows ?rt k order ?now dl)"
    unfolding task_node_constraints_def Let_def order B dl by auto
  have range: "0 \<le> pl_time p k" "pl_time p k \<le> dl" using holds [of "StartIn k 0 dl"] cs by auto
  have start: "has_windows ?rt order \<or> B \<noteq> [] \<Longrightarrow>
      pl_time p k \<in> pts (if has_windows ?rt order then window_offsets ?rt order ?now dl else [(0, dl)]) - pts B"
    by (rule start_in_offsets [OF _ active]) (use holds cs in auto)
  have window: "\<exists>(a, b)\<in>set (window_offsets ?rt order ?now dl). a \<le> pl_time p k \<and> finish ?rp p k \<le> b"
    if w: "has_windows ?rt order"
  proof -
    have "window_offsets ?rt order ?now dl \<noteq> []" using start w by (auto simp: pts_def)
    then have "FitsOneOf k (window_offsets ?rt order ?now dl) \<in> set (finish_within_windows ?rt k order ?now dl)"
      using w by (simp add: finish_within_windows_def Let_def)
    then have "holds ?rp p (FitsOneOf k (window_offsets ?rt order ?now dl))" using holds cs by blast
    then show ?thesis using active by (auto simp: list_ex_iff)
  qed
  have block: "finish ?rp p k \<le> a \<or> b < pl_time p k" if ab: "(a, b) \<in> set B" for a b
  proof (cases "a \<le> 0")
    case True
    have "B \<noteq> []" using ab by auto
    then have "pl_time p k \<notin> pts B" using start by blast
    with ab have "\<not> (a \<le> pl_time p k \<and> pl_time p k \<le> b)" by (auto simp: pts_def)
    with True range show ?thesis by auto
  next
    case False
    then have "OutsideBlock k a b \<in> set (occupancy_constraints k B)"
      using ab by (force simp: occupancy_constraints_def map_filter_iff)
    then have "holds ?rp p (OutsideBlock k a b)" using holds cs by blast
    then show ?thesis using active by auto
  qed
  from range window block show ?thesis by blast
qed

subsection \<open>Operators and vehicles\<close>

lemma pairs_in_order_mem:
  "a \<in> set xs \<Longrightarrow> b \<in> set xs \<Longrightarrow> a \<noteq> b \<Longrightarrow> (a, b) \<in> set (pairs_in_order xs) \<or> (b, a) \<in> set (pairs_in_order xs)"
  by (induction xs) auto

lemma fold_dappend_group:
  "k \<in> set (dget_default (fold (\<lambda>x d. if key x = '''' then d else dappend (key x) (f x) d) xs d) g [])
     \<longleftrightarrow> k \<in> set (dget_default d g []) \<or> g \<noteq> '''' \<and> (\<exists>x\<in>set xs. key x = g \<and> f x = k)"
  by (induction xs arbitrary: d) (auto simp: dget_default_dappend)

lemma by_operator_mem:
  assumes "(k, i) \<in> set (task_nodes nodes)" "task_operator cd (task_id (cx_orders cx ! i)) = x" "x \<noteq> ''''"
  shows "\<exists>ks. (x, ks) \<in> set (by_operator cd cx nodes) \<and> k \<in> set ks"
proof -
  let ?op = "\<lambda>ki. task_operator cd (task_id (cx_orders cx ! snd ki))"
  have eq: "by_operator cd cx nodes =
      fold (\<lambda>ki d. if ?op ki = '''' then d else dappend (?op ki) (fst ki) d) (task_nodes nodes) []"
    unfolding by_operator_def Let_def case_prod_unfold ..
  have "k \<in> set (dget_default (by_operator cd cx nodes) x [])"
    unfolding eq fold_dappend_group using assms by force
  then obtain ks where "map_of (by_operator cd cx nodes) x = Some ks" "k \<in> set ks"
    by (cases "map_of (by_operator cd cx nodes) x") (simp_all add: dget_default_def)
  then show ?thesis using map_of_SomeD by fast
qed

lemma by_operator_same:
  assumes "(k, i) \<in> set (task_nodes nodes)" "(l, j) \<in> set (task_nodes nodes)"
    and "task_operator cd (task_id (cx_orders cx ! i)) = x" "task_operator cd (task_id (cx_orders cx ! j)) = x" "x \<noteq> ''''"
  shows "\<exists>ks. (x, ks) \<in> set (by_operator cd cx nodes) \<and> k \<in> set ks \<and> l \<in> set ks"
proof -
  have "wf_dict (by_operator cd cx nodes)"
  proof -
    have "wf_dict d \<Longrightarrow> wf_dict (fold (\<lambda>(k, i) d. let x = task_operator cd (task_id (cx_orders cx ! i)) in
                      if x = '''' then d else dappend x k d) xs d)" for xs :: "(nat \<times> nat) list" and d
      by (induction xs arbitrary: d) (auto simp: Let_def)
    then show ?thesis by (simp add: by_operator_def)
  qed
  with by_operator_mem [OF assms(1,3,5)] by_operator_mem [OF assms(2,4,5)] show ?thesis
    by (metis wf_dict_map_of option.inject)
qed

lemma nodes_no_overlap:
  assumes f: "feasible (routing_model re rj nodes travel) p"
    and "(k, i) \<in> set (task_nodes nodes)" "(l, j) \<in> set (task_nodes nodes)" "k \<noteq> l" "is_active p k" "is_active p l"
    and "task_operator (cluster_spec.truncate (rj_cluster rj)) (task_id (cx_orders (rj_context rj) ! i)) = x"
      "task_operator (cluster_spec.truncate (rj_cluster rj)) (task_id (cx_orders (rj_context rj) ! j)) = x" "x \<noteq> ''''"
  shows "finish (routing_model re rj nodes travel) p k \<le> pl_time p l
    \<or> finish (routing_model re rj nodes travel) p l \<le> pl_time p k"
proof -
  let ?rp = "routing_model re rj nodes travel" and ?cd = "cluster_spec.truncate (rj_cluster rj)"
  obtain ks where ks: "(x, ks) \<in> set (by_operator ?cd (rj_context rj) nodes)" "k \<in> set ks" "l \<in> set ks"
    using by_operator_same [OF assms(2,3,7,8,9)] by blast
  have posted: "holds ?rp p (NoOverlap a b)" if ab: "(a, b) \<in> set (pairs_in_order ks)" for a b
  proof (rule feasible_holds [OF f])
    have "NoOverlap a b \<in> set ((\<lambda>(x, ks). map (\<lambda>(a, b). NoOverlap a b) (pairs_in_order ks)) (x, ks))"
      using ab by force
    with ks(1) have "NoOverlap a b \<in> set (concat (map (\<lambda>(x, ks). map (\<lambda>(a, b). NoOverlap a b) (pairs_in_order ks))
        (by_operator ?cd (rj_context rj) nodes)))"
      unfolding set_concat set_map by blast
    then have "NoOverlap a b \<in> set (operator_no_overlap ?cd (rj_context rj) (rj_held rj) (rj_now rj) nodes)"
      unfolding operator_no_overlap_def unfolding set_append by (rule UnI1)
    then show "NoOverlap a b \<in> set (rp_constraints ?rp)" unfolding model_constraints by blast
  qed
  from pairs_in_order_mem [OF ks(2,3) assms(4)] show ?thesis
    using posted assms(5,6) by auto
qed

lemma normal_contains:
  assumes "normal 1 ivs" "{s..e} \<subseteq> pts ivs" "s \<le> e"
  shows "\<exists>(a, b)\<in>set ivs. a \<le> s \<and> e \<le> b"
proof -
  obtain a b where ab: "(a, b) \<in> set ivs" "a \<le> s" "s \<le> b" using assms(2,3) by (fastforce simp: pts_def)
  have "e \<le> b"
  proof (rule ccontr)
    assume "\<not> e \<le> b"
    then have "b + 1 \<in> pts ivs" using assms(2) ab by (intro subsetD [OF assms(2)]) auto
    then obtain c d where cd: "(c, d) \<in> set ivs" "c \<le> b + 1" "b + 1 \<le> d" by (auto simp: pts_def)
    then have "(a, b) \<noteq> (c, d)" by auto
    then have "b + 1 < c \<or> d + 1 < a"
      using assms(1) ab(1) cd(1) unfolding normal_def
      by (metis (no_types, lifting) sorted_wrt_iff_nth_less in_set_conv_nth fst_conv snd_conv linorder_neqE_nat)
    with ab cd show False by auto
  qed
  with ab show ?thesis by blast
qed

lemma mem_pts: "(s, e) \<in> set ivs \<Longrightarrow> {s..e} \<subseteq> pts ivs"
  by (auto simp: pts_def)

text \<open>Staying out of the merged offsets is staying out of every held window, up to the horizon.\<close>

lemma held_offsets_cover:
  assumes "(a, b) \<in> set raw" "\<forall>(s, e)\<in>set (held_window_offsets raw now_epoch). f \<le> s \<or> t \<ge> e" "0 \<le> t" "t \<le> f"
  shows "{now_epoch + t..<now_epoch + f} \<inter> {a..<min b (now_epoch + routing_horizon_s)} = {}"
proof -
  let ?s = "max 0 (a - now_epoch)" and ?e = "min (b - now_epoch) routing_horizon_s"
  have range: "f \<le> ?s \<or> t \<ge> ?e \<or> ?e \<le> ?s"
  proof (cases "?e \<le> 0 \<or> ?s \<ge> routing_horizon_s \<or> ?e \<le> ?s")
    case True
    then show ?thesis by auto
  next
    case False
    let ?raw = "List.map_filter (\<lambda>(a, b).
       let start_off = max 0 (a - now_epoch); end_off = min (b - now_epoch) routing_horizon_s in
       if end_off \<le> 0 \<or> start_off \<ge> routing_horizon_s \<or> end_off \<le> start_off then None
       else Some (start_off, end_off)) raw"
    have "(?s, ?e) \<in> set ?raw" 
      unfolding map_filter_iff using False by (intro bexI [OF _ assms(1)]) (simp only: split Let_def if_False)
    then have "{?s..?e} \<subseteq> pts (held_window_offsets raw now_epoch)"
      unfolding held_window_offsets_def pts_merge_intervals by (rule mem_pts)
    moreover have "normal 1 (held_window_offsets raw now_epoch)" by (simp add: held_window_offsets_def)
    moreover have "?s \<le> ?e" using False by linarith
    ultimately obtain s e where "(s, e) \<in> set (held_window_offsets raw now_epoch)" "s \<le> ?s" "?e \<le> e"
      using normal_contains by blast
    with assms(2) show ?thesis by fastforce
  qed
  show ?thesis using range assms(3,4) by (auto simp: min_def max_def split: if_splits)
qed

lemma held_operator_clear:
  assumes f: "feasible (routing_model re rj nodes travel) p" and ki: "(k, i) \<in> set (task_nodes nodes)"
    and active: "is_active p k" and x: "x \<noteq> ''''"
    and op: "task_operator (cluster_spec.truncate (rj_cluster rj)) (task_id (cx_orders (rj_context rj) ! i)) = x"
    and raw: "(a, b) \<in> set (dget_default (rj_held rj) x [])"
    and pos: "0 \<le> pl_time p k" "pl_time p k \<le> finish (routing_model re rj nodes travel) p k"
  shows "{rj_now rj + pl_time p k..<rj_now rj + finish (routing_model re rj nodes travel) p k}
    \<inter> {a..<min b (rj_now rj + routing_horizon_s)} = {}"
proof (rule held_offsets_cover [OF raw _ pos])
  let ?rp = "routing_model re rj nodes travel" and ?cd = "cluster_spec.truncate (rj_cluster rj)"
  let ?offs = "held_window_offsets (dget_default (rj_held rj) x []) (rj_now rj)"
  obtain ks where ks: "(x, ks) \<in> set (by_operator ?cd (rj_context rj) nodes)" "k \<in> set ks"
    using by_operator_mem [OF ki op x] by blast
  show "\<forall>(s, e)\<in>set ?offs. finish ?rp p k \<le> s \<or> e \<le> pl_time p k"
  proof clarify
    fix s e assume se: "(s, e) \<in> set ?offs" "\<not> e \<le> pl_time p k"
    let ?post = "\<lambda>(x, ks). concat (map (\<lambda>(a, b). map (\<lambda>k. AvoidsWindow k a b) ks)
                                  (held_window_offsets (dget_default (rj_held rj) x []) (rj_now rj)))"
    have "AvoidsWindow k s e \<in> set (?post (x, ks))" using se(1) ks(2) by force
    with ks(1) have "AvoidsWindow k s e \<in> set (concat (map ?post (by_operator ?cd (rj_context rj) nodes)))"
      unfolding set_concat set_map by blast
    then have "AvoidsWindow k s e \<in> set (operator_no_overlap ?cd (rj_context rj) (rj_held rj) (rj_now rj) nodes)"
      unfolding operator_no_overlap_def set_append by (rule UnI2)
    then have "holds ?rp p (AvoidsWindow k s e)"
      by (intro feasible_holds [OF f]) (simp add: model_constraints)
    with se(2) active show "finish ?rp p k \<le> s" by simp
  qed
qed

lemma held_vehicle_clear:
  assumes f: "feasible (routing_model re rj nodes travel) p"
    and v: "v < length (cx_vehicles (rj_context rj))" "k \<in> set (pl_routes p ! v)"
    and raw: "(a, b) \<in> set (dget_default (rj_held rj) (pm_asset_id (rv_prime (cx_vehicles (rj_context rj) ! v))) [])
        \<union> set (dget_default (rj_held rj) (rel_asset_id (rv_related (cx_vehicles (rj_context rj) ! v))) [])"
    and pos: "0 \<le> pl_time p k" "pl_time p k \<le> finish (routing_model re rj nodes travel) p k"
  shows "{rj_now rj + pl_time p k..<rj_now rj + finish (routing_model re rj nodes travel) p k}
    \<inter> {a..<min b (rj_now rj + routing_horizon_s)} = {}"
proof -
  let ?rp = "routing_model re rj nodes travel" and ?rv = "cx_vehicles (rj_context rj) ! v"
  let ?raw = "dget_default (rj_held rj) (pm_asset_id (rv_prime ?rv)) [] @ dget_default (rj_held rj) (rel_asset_id (rv_related ?rv)) []"
  let ?offs = "held_window_offsets ?raw (rj_now rj)"
  have raw': "(a, b) \<in> set ?raw" using raw by simp
  show ?thesis
  proof (rule held_offsets_cover [OF raw' _ pos])
    show "\<forall>(s, e)\<in>set ?offs. finish ?rp p k \<le> s \<or> e \<le> pl_time p k"
    proof clarify
      fix s e assume se: "(s, e) \<in> set ?offs" "\<not> e \<le> pl_time p k"
      then have "?offs \<noteq> []" by auto
      moreover have "(v, ?rv) \<in> set (enumerate 0 (cx_vehicles (rj_context rj)))"
        using v(1) by (simp add: in_set_enumerate_eq)
      ultimately have "Breaks v ?offs \<in> set (held_vehicle_breaks (rj_context rj) (rj_held rj) (rj_now rj))"
        unfolding held_vehicle_breaks_def map_filter_iff by (intro bexI [of _ "(v, ?rv)"]) (simp_all add: Let_def)
      then have "holds ?rp p (Breaks v ?offs)"
        by (intro feasible_holds [OF f]) (simp add: model_constraints)
      then have "pl_time p k + rp_service ?rp v k \<le> s"
        using v(2) se by (fastforce simp: list_all_iff)
      moreover have "vehicle_of p k = Some v" using vehicle_of_route [OF f _ v(2)] v(1) by simp
      ultimately show "finish ?rp p k \<le> s" by (simp add: finish_def service_expr_def)
    qed
  qed
qed

subsection \<open>One vehicle at a time\<close>

lemma arc_seconds_nonneg: "0 \<le> arc_seconds (arc_route ge f t a b L mode speed polygons)"
proof -
  have "0 \<le> travel_seconds g d af gf f t a b L mode speed" for g d af gf
    by (auto simp: travel_seconds_def fallback_seconds_def split: option.splits)
  then show ?thesis by (auto simp: arc_route_def Let_def split: option.splits)
qed

definition nonneg_travel :: "routing_problem \<Rightarrow> bool" where
  "nonneg_travel rp \<longleftrightarrow> (\<forall>v i j. 0 \<le> rp_travel rp v i j \<and> 0 \<le> rp_service rp v i)"

text \<open>Along a route a later stop starts after an earlier one has finished.\<close>

lemma chain_later:
  assumes "\<forall>((i, s), (j, t))\<in>set (zip xs (tl xs)). s + d i j + (c i :: int) \<le> t" "\<forall>i j. 0 \<le> d i j" "\<forall>i. 0 \<le> c i"
    and "a < b" "b < length xs"
  shows "snd (xs ! a) + c (fst (xs ! a)) \<le> snd (xs ! b)"
  using assms(4,5)
proof (induction b)
  case (Suc b)
  have step: "snd (xs ! n) + c (fst (xs ! n)) \<le> snd (xs ! Suc n)" if "Suc n < length xs" for n
  proof -
    obtain i s j t where n: "xs ! n = (i, s)" "xs ! Suc n = (j, t)" by fastforce
    have "(xs ! n, xs ! Suc n) \<in> set (zip xs (tl xs))"
      using that by (auto simp: in_set_zip nth_tl)
    then have "s + d i j + c i \<le> t" using bspec [OF assms(1)] unfolding n by fastforce
    moreover have "0 \<le> d i j" using assms(2) by blast
    ultimately show ?thesis by (simp add: n)
  qed
  show ?case
  proof (cases "a = b")
    case True
    then show ?thesis using step Suc.prems(2) by simp
  next
    case False
    then have "snd (xs ! a) + c (fst (xs ! a)) \<le> snd (xs ! b)" using Suc by simp
    also have "\<dots> \<le> snd (xs ! b) + c (fst (xs ! b))" using assms(3) by simp
    also have "\<dots> \<le> snd (xs ! Suc b)" by (rule step [OF Suc.prems(2)])
    finally show ?thesis .
  qed
qed simp

lemma route_serial:
  assumes f: "feasible rp p" and nn: "nonneg_travel rp" and v: "v < rp_vehicles rp"
    and kl: "k \<in> set (pl_routes p ! v)" "l \<in> set (pl_routes p ! v)" "k \<noteq> l"
  shows "pl_time p k + rp_service rp v k \<le> pl_time p l \<or> pl_time p l + rp_service rp v l \<le> pl_time p k"
proof -
  let ?r = "pl_routes p ! v" and ?xs = "route_stops p v"
  obtain a b where ab: "a < length ?r" "?r ! a = k" "b < length ?r" "?r ! b = l"
    using kl(1,2) by (metis in_set_conv_nth)
  have stop: "?xs ! Suc c = (?r ! c, pl_time p (?r ! c))" "Suc c < length ?xs" if "c < length ?r" for c
    using that by (simp_all add: route_stops_def nth_append)
  have "time_dimension rp p" using f by (simp add: feasible_def)
  then have chain: "\<forall>((i, s), (j, t))\<in>set (zip ?xs (tl ?xs)). s + rp_travel rp v i j + rp_service rp v i \<le> t"
    using v by (auto simp: time_dimension_def list_all_iff route_arcs_def)
  note later = chain_later [OF chain, of "Suc _" "Suc _"]
  have nn': "\<forall>i j. 0 \<le> rp_travel rp v i j" "\<forall>i. 0 \<le> rp_service rp v i" using nn by (simp_all add: nonneg_travel_def)
  consider "a < b" | "b < a" using ab kl(3) by (metis linorder_neqE_nat)
  then show ?thesis
  proof cases
    case 1
    then show ?thesis using chain_later [OF chain nn', of "Suc a" "Suc b"] stop ab by simp
  next
    case 2
    then show ?thesis using chain_later [OF chain nn', of "Suc b" "Suc a"] stop ab by simp
  qed
qed

text \<open>An order has one task node.\<close>

lemma map_filter_append: "List.map_filter f (xs @ ys) = List.map_filter f xs @ List.map_filter f ys"
  by (induction xs) (simp_all add: List.map_filter_simps split: option.split)

lemma enumerate_unique_node:
  "distinct (List.map_filter (\<lambda>x. if rn_kind x = NTask then rn_order x else None)
     (concat (map (order_nodes cx) (enumerate m orders))))
   \<and> (\<forall>i\<in>set (List.map_filter (\<lambda>x. if rn_kind x = NTask then rn_order x else None)
     (concat (map (order_nodes cx) (enumerate m orders)))). m \<le> i)"
proof (induction orders arbitrary: m)
  case (Cons x orders)
  have "List.map_filter (\<lambda>x. if rn_kind x = NTask then rn_order x else None) (order_nodes cx (m, x)) = [m]"
    by (simp add: order_nodes_def List.map_filter_simps)
  then show ?case using Cons [of "Suc m"] by (auto simp: map_filter_append dest: Suc_leD)
qed (simp add: List.map_filter_simps)

lemma map_filter_once:
  assumes "distinct (List.map_filter f xs)" "a < length xs" "b < length xs" "f (xs ! a) = Some y" "f (xs ! b) = Some y"
  shows "a = b"
  using assms
proof (induction xs arbitrary: a b)
  case (Cons x xs)
  have mem: "y \<in> set (List.map_filter f xs)" if "f (xs ! c) = Some y" "c < length xs" for c
    using that by (auto simp: map_filter_iff intro!: bexI [of _ "xs ! c"])
  show ?case
    using Cons mem by (cases a; cases b) (auto simp: List.map_filter_simps split: option.splits)
qed simp

lemma task_node_unique:
  assumes "rn_kind (build_node_table cx n ! k) = NTask \<and> rn_order (build_node_table cx n ! k) = Some i"
    "rn_kind (build_node_table cx n ! l) = NTask \<and> rn_order (build_node_table cx n ! l) = Some i"
    "k < length (build_node_table cx n)" "l < length (build_node_table cx n)"
  shows "k = l"
proof (rule map_filter_once [where f = "\<lambda>x. if rn_kind x = NTask then rn_order x else None"])
  have "List.map_filter (\<lambda>x. if rn_kind x = NTask then rn_order x else None)
      (replicate n \<lparr>rn_kind = NReload, rn_order = None, rn_location = cx_depot_id cx, rn_point = cx_depot cx\<rparr>) = []"
    by (induction n) (simp_all add: List.map_filter_simps)
  then show "distinct (List.map_filter (\<lambda>x. if rn_kind x = NTask then rn_order x else None) (build_node_table cx n))"
    using enumerate_unique_node [of cx 0 "cx_orders cx"]
    by (simp add: build_node_table_def List.map_filter_simps map_filter_append)
qed (use assms in auto)
subsection \<open>Precedence and loads\<close>

lemma nodes_precedence:
  assumes f: "feasible (routing_model re rj nodes travel) p" and nodes: "nodes = build_node_table (rj_context rj) n"
    and ki: "(k, i) \<in> set (task_nodes nodes)" and active: "is_active p k"
    and dep: "depends_on_task_ref (cx_orders (rj_context rj) ! i) = d" "d \<noteq> ''''"
    and known: "d \<in> set (map task_id (cx_orders (rj_context rj)))" "d \<noteq> task_id (cx_orders (rj_context rj) ! i)"
  shows "\<exists>pred j. (pred, j) \<in> set (task_nodes nodes) \<and> task_id (cx_orders (rj_context rj) ! j) = d \<and> is_active p pred
    \<and> pl_time p k \<ge> pl_time p pred
        + fastest_service (node_service_s re (rj_context rj) nodes) (length (cx_vehicles (rj_context rj))) pred"
proof -
  let ?cx = "rj_context rj" and ?rp = "routing_model re rj nodes travel"
  let ?service = "node_service_s re ?cx nodes"
  have i: "i < length (cx_orders ?cx)" using ki task_order_range unfolding nodes task_nodes_mem by blast
  have kn: "node_indices NTask nodes i = Some k"
  proof -
    obtain k' where k': "node_indices NTask nodes i = Some k'" using task_node_ex [OF i] nodes by blast
    have "k' = k"
    proof -
      let ?P = "\<lambda>k. rn_kind (nodes ! k) = NTask \<and> rn_order (nodes ! k) = Some i"
      have "?P k" "?P k'" "k < length nodes" "k' < length nodes"
        using ki node_indices_Some [OF k'] by (simp_all add: task_nodes_mem)
      then show ?thesis using task_node_unique [of ?cx n] unfolding nodes by blast
    qed
    with k' show ?thesis by simp
  qed
  obtain j where j: "find (\<lambda>i. task_id (cx_orders ?cx ! i) = d) (rev [0..<length (cx_orders ?cx)]) = Some j"
  proof (cases "find (\<lambda>i. task_id (cx_orders ?cx ! i) = d) (rev [0..<length (cx_orders ?cx)])")
    case None
    then have "\<forall>i<length (cx_orders ?cx). task_id (cx_orders ?cx ! i) \<noteq> d" by (simp add: find_None_iff)
    with known(1) show ?thesis by (auto simp: in_set_conv_nth)
  qed
  then have jj: "j < length (cx_orders ?cx)" "task_id (cx_orders ?cx ! j) = d"
    unfolding find_Some_iff by (auto simp: rev_nth)
  obtain pred where pred: "node_indices NTask nodes j = Some pred" using task_node_ex [OF jj(1)] nodes by blast
  then have pj: "(pred, j) \<in> set (task_nodes nodes)" using node_indices_Some by (simp add: task_nodes_mem)
  have "pred \<noteq> k" using node_indices_Some [OF pred] node_indices_Some [OF kn] jj(2) known(2) by auto
  moreover have "node_of_task ?cx nodes d = Some pred" using j pred by (simp add: node_of_task_def)
  ultimately have "set (case (node_indices NTask nodes i, node_of_task ?cx nodes (depends_on_task_ref (cx_orders ?cx ! i))) of
              (Some k, Some pred) \<Rightarrow>
                if pred = k then []
                else [OnlyWith k pred, StartsAfter k pred (fastest_service ?service (length (cx_vehicles ?cx)) pred)]
            | _ \<Rightarrow> []) = {OnlyWith k pred, StartsAfter k pred (fastest_service ?service (length (cx_vehicles ?cx)) pred)}"
    using kn dep(1) by simp
  moreover have "(i, cx_orders ?cx ! i) \<in> set (enumerate 0 (cx_orders ?cx))" using i by (simp add: in_set_enumerate_eq)
  ultimately have "{OnlyWith k pred, StartsAfter k pred (fastest_service ?service (length (cx_vehicles ?cx)) pred)}
      \<subseteq> set (precedence_constraints ?cx ?service nodes)"
    using dep unfolding precedence_constraints_def set_concat set_map
    by (intro subsetI UN_I [OF imageI, of "(i, cx_orders ?cx ! i)"]) auto
  then have "{OnlyWith k pred, StartsAfter k pred (fastest_service ?service (length (cx_vehicles ?cx)) pred)}
      \<subseteq> set (rp_constraints ?rp)"
    unfolding model_constraints by blast
  then have "holds ?rp p (OnlyWith k pred)"
    "holds ?rp p (StartsAfter k pred (fastest_service ?service (length (cx_vehicles ?cx)) pred))"
    using feasible_holds [OF f] by blast+
  with active pj jj show ?thesis by auto
qed

text \<open>A stretch of a route without a reload carries no more than the vehicle's capacity.\<close>

lemma load_steps_total:
  assumes "list_all (load_step nodes demands slack) (zip ks (zip ls (tl ls)))" "length ls = Suc (length ks)"
    and "\<forall>k\<in>set ks. rn_kind (nodes ! k) \<noteq> NReload"
  shows "last ls = hd ls + sum_list (map ((!) demands) ks)"
  using assms
proof (induction ks arbitrary: ls)
  case Nil
  then show ?case by (cases ls) auto
next
  case (Cons k ks)
  then obtain a b ls' where ls: "ls = a # b # ls'" by (metis length_Suc_conv)
  then have "b = a + demands ! k" using Cons.prems by (simp add: load_step_def Let_def)
  moreover have "last (b # ls') = hd (b # ls') + sum_list (map ((!) demands) ks)"
    using Cons.prems ls by (intro Cons.IH) auto
  ultimately show ?case using ls by simp
qed

lemma zip_window:
  assumes "length ls = Suc (length xs + length ys + length zs)"
  shows "take (length ys) (drop (length xs) (zip (xs @ ys @ zs) (zip ls (tl ls))))
    = zip ys (zip (take (Suc (length ys)) (drop (length xs) ls)) (tl (take (Suc (length ys)) (drop (length xs) ls))))"
  by (rule nth_equalityI) (use assms in \<open>auto simp: nth_append nth_tl\<close>)

lemma load_stretch:
  assumes "load_dimension nodes p m demands cap slack v" "pl_routes p ! v = xs @ ys @ zs"
    and "\<forall>k\<in>set ys. rn_kind (nodes ! k) \<noteq> NReload"
  shows "sum_list (map ((!) demands) ys) \<le> cap"
proof -
  let ?ls = "map (pl_load p m) (pl_routes p ! v) @ [pl_load_end p m v]"
  let ?mid = "take (Suc (length ys)) (drop (length xs) ?ls)"
  have all: "list_all (\<lambda>l. 0 \<le> l \<and> l \<le> cap) ?ls"
    and step: "list_all (load_step nodes demands slack) (zip (xs @ ys @ zs) (zip ?ls (tl ?ls)))"
    using assms(1,2) by (simp_all add: load_dimension_def Let_def)
  have len: "length ?ls = Suc (length xs + length ys + length zs)" using assms(2) by simp
  have mid: "length ?mid = Suc (length ys)" using len by simp
  have "take (length ys) (drop (length xs) (zip (xs @ ys @ zs) (zip ?ls (tl ?ls)))) = zip ys (zip ?mid (tl ?mid))"
    by (rule zip_window [OF len])
  then have "list_all (load_step nodes demands slack) (zip ys (zip ?mid (tl ?mid)))"
    using step by (metis append_take_drop_id list_all_append)
  then have "last ?mid = hd ?mid + sum_list (map ((!) demands) ys)"
    by (rule load_steps_total [OF _ mid assms(3)])
  moreover have "?mid \<noteq> []" using mid by auto
  moreover have "set ?mid \<subseteq> set ?ls" by (meson order_trans set_drop_subset set_take_subset)
  ultimately have "0 \<le> hd ?mid" "last ?mid \<le> cap" using all unfolding list_all_iff
    by (metis hd_in_set subsetD, metis last_in_set subsetD)
  then show ?thesis using \<open>last ?mid = _\<close> by linarith
qed

subsection \<open>The plan the refinement ends with\<close>

lemma estimate_nonneg: "0 \<le> estimate_operation_seconds rt order implement"
proof -
  have "0 \<le> py_int x" if "0 \<le> x" for x using that by (simp add: py_int_def)
  then show ?thesis by (simp add: estimate_operation_seconds_def Let_def)
qed

lemma set_alist_update: "x \<in> set (AList.update k v al) \<Longrightarrow> x = (k, v) \<or> x \<in> set al"
  by (induction al) (auto split: if_splits)

definition nonneg_overrides :: "(nat \<times> nat \<times> nat, int) dict \<Rightarrow> bool" where
  "nonneg_overrides d \<longleftrightarrow> list_all (\<lambda>(arc, s). 0 \<le> s) d"

lemma nonneg_overrides_update:
  "nonneg_overrides d \<Longrightarrow> 0 \<le> s \<Longrightarrow> nonneg_overrides (AList.update arc s d)"
  by (auto simp: nonneg_overrides_def list_all_iff dest!: set_alist_update)

lemma fold_nonneg:
  "(\<And>x d. nonneg_overrides d \<Longrightarrow> nonneg_overrides (f x d)) \<Longrightarrow> nonneg_overrides d \<Longrightarrow> nonneg_overrides (fold f xs d)"
  by (induction xs arbitrary: d) auto

lemma nonneg_merge: "nonneg_overrides d \<Longrightarrow> nonneg_overrides e \<Longrightarrow> nonneg_overrides (merge_overrides d e)"
  unfolding merge_overrides_def
proof (induction e arbitrary: d)
  case (Cons x e)
  obtain arc s where "x = (arc, s)" by fastforce
  moreover have "nonneg_overrides e" "0 \<le> s" using Cons.prems(2) calculation by (simp_all add: nonneg_overrides_def)
  ultimately show ?case using Cons.IH Cons.prems(1) by (simp add: nonneg_overrides_update)
qed simp

lemma nonneg_activated: "nonneg_overrides (activated_timed_arc_overrides re rj rp restrictions p)"
  unfolding activated_timed_arc_overrides_def
  by (intro fold_nonneg) (auto simp: Let_def route_for_nodes_def nonneg_overrides_update arc_seconds_nonneg,
      simp add: nonneg_overrides_def)

lemma nonneg_all_timed: "nonneg_overrides (all_timed_arc_overrides re rj rp restrictions)"
  by (auto simp: nonneg_overrides_def all_timed_arc_overrides_def list_all_iff map_filter_iff Let_def
      route_for_nodes_def arc_seconds_nonneg split: if_splits)

lemma nonneg_fresh: "nonneg_overrides e \<Longrightarrow> nonneg_overrides (new_activations d e)"
  by (simp add: nonneg_overrides_def new_activations_def list_all_iff)

lemma nonneg_model:
  assumes "nonneg_overrides d" "0 \<le> cc_reload_service_s (re_cc re)"
  shows "nonneg_travel (routing_model re rj nodes (overridden d (travel_matrix re (rj_context rj) nodes restrictions)))"
proof -
  have "0 \<le> overridden d (travel_matrix re (rj_context rj) nodes restrictions) v i j" for v i j
  proof (cases "map_of d (v, i, j)")
    case None
    then show ?thesis
      by (simp add: overridden_def dget_default_def travel_matrix_def Let_def obstacle_aware_travel_seconds_def arc_seconds_nonneg)
  next
    case (Some s)
    then show ?thesis using assms(1) map_of_SomeD [OF Some]
      by (auto simp: overridden_def dget_default_def nonneg_overrides_def list_all_iff)
  qed
  moreover have "0 \<le> node_service_s re (rj_context rj) nodes v k" for v k
    using assms(2) estimate_nonneg by (auto simp: node_service_s_def split: node_kind.splits option.splits)
  ultimately show ?thesis by (simp add: nonneg_travel_def)
qed

end
