(* ===== verification/RoutePlan.thy ===== *)
theory RoutePlan
  imports Routing
begin

text \<open>
  What the dispatch packages of a solved cluster satisfy: the claims about
  \<open>solve_cluster_instrumented\<close> that follow from the constraints \<open>Routing\<close> posts and the soundness of
  the solver, and the closed instances that show the hypotheses can hold.
\<close>

subsection \<open>The refinement loop\<close>

text \<open>\<open>travel\<close> prices every arc no lower than its detour around all the timed polygons.\<close>

definition all_priced ::
  "'g routing_env \<Rightarrow> routing_job \<Rightarrow> routing_node list \<Rightarrow> (nat \<Rightarrow> route_restriction list)
   \<Rightarrow> (nat \<Rightarrow> nat \<Rightarrow> nat \<Rightarrow> int) \<Rightarrow> bool" where
  "all_priced re rj nodes restrictions travel \<longleftrightarrow>
     (\<forall>v<length (cx_vehicles (rj_context rj)). \<forall>i<length nodes. \<forall>j<length nodes. i \<noteq> j \<longrightarrow>
        (let route = route_for_nodes re (rj_context rj) nodes v i j (map rr_polygon (restrictions v)) in
         arc_detoured route \<longrightarrow> arc_seconds route \<le> travel v i j))"

text \<open>\<open>travel\<close> prices every arc the plan travels no lower than its detour around the polygons active
  while it is travelled.\<close>

definition travelled_priced ::
  "'g routing_env \<Rightarrow> routing_job \<Rightarrow> routing_problem \<Rightarrow> (nat \<Rightarrow> route_restriction list) \<Rightarrow> routing_plan \<Rightarrow> bool" where
  "travelled_priced re rj rp restrictions p \<longleftrightarrow>
     (\<forall>v<rp_vehicles rp. \<forall>((i, s), (j, t))\<in>set (route_arcs p v).
        (let polygons = active_polygons (restrictions v) (rj_now rj + s + rp_service rp v i) (rj_now rj + t);
             route = route_for_nodes re (rj_context rj) (rp_nodes rp) v i j polygons in
         arc_detoured route \<longrightarrow> arc_seconds route \<le> rp_travel rp v i j))"

lemma dget_update: "dget_default (AList.update k x d) l y = (if l = k then x else dget_default d l y)"
  by (simp add: dget_default_def map_of_update)

lemma dget_merge:
  "dget_default (merge_overrides d e) arc x =
     (case map_of (rev e) arc of None \<Rightarrow> dget_default d arc x | Some s \<Rightarrow> s)"
  unfolding merge_overrides_def
proof (induction e arbitrary: d)
  case (Cons y e)
  obtain a s where "y = (a, s)" by fastforce
  then show ?case using Cons [of "AList.update a s d"] by (simp add: dget_update map_add_def split: option.splits)
qed simp

lemma fold_update_mem:
  "x \<in> set (fold (\<lambda>y d. if P y then AList.update (key y) (val y) d else d) ys d) \<Longrightarrow>
     x \<in> set d \<or> (\<exists>y\<in>set ys. P y \<and> x = (key y, val y))"
proof (induction ys arbitrary: d)
  case (Cons y ys)
  from Cons.IH [OF Cons.prems [simplified]] show ?case
    by (cases "P y") (auto dest!: set_alist_update)
qed simp

lemma update_ne: "AList.update k x d \<noteq> []"
  by (induction d) auto

lemma fold_update_empty:
  "fold (\<lambda>y d. if P y then AList.update (key y) (val y) d else d) ys d = [] \<longleftrightarrow> d = [] \<and> (\<forall>y\<in>set ys. \<not> P y)"
  by (induction ys arbitrary: d) (auto simp: update_ne)

text \<open>A travelled arc of a vehicle, its route around the polygons then active, and whether that route
  is a dearer detour.\<close>

definition leg_route ::
  "'g routing_env \<Rightarrow> routing_job \<Rightarrow> routing_problem \<Rightarrow> (nat \<Rightarrow> route_restriction list)
   \<Rightarrow> nat \<times> (nat \<times> int) \<times> (nat \<times> int) \<Rightarrow> arc_path" where
  "leg_route re rj rp restrictions y =
     (case y of (v, (i, s), (j, t)) \<Rightarrow> route_for_nodes re (rj_context rj) (rp_nodes rp) v i j
        (active_polygons (restrictions v) (rj_now rj + s + rp_service rp v i) (rj_now rj + t)))"

definition leg_key :: "nat \<times> (nat \<times> int) \<times> (nat \<times> int) \<Rightarrow> nat \<times> nat \<times> nat" where
  "leg_key y = (case y of (v, (i, s), (j, t)) \<Rightarrow> (v, i, j))"

definition dearer ::
  "'g routing_env \<Rightarrow> routing_job \<Rightarrow> routing_problem \<Rightarrow> (nat \<Rightarrow> route_restriction list)
   \<Rightarrow> nat \<times> (nat \<times> int) \<times> (nat \<times> int) \<Rightarrow> bool" where
  "dearer re rj rp restrictions y \<longleftrightarrow>
     (case y of (v, (i, s), (j, t)) \<Rightarrow>
        arc_detoured (leg_route re rj rp restrictions y)
        \<and> arc_seconds (leg_route re rj rp restrictions y) > rp_travel rp v i j)"

lemma fold_concat_map: "fold (\<lambda>v. fold (g v) (f v)) vs d = fold (\<lambda>(v, x). g v x) (concat (map (\<lambda>v. map (Pair v) (f v)) vs)) d"
proof (induction vs arbitrary: d)
  case (Cons v vs)
  have "fold (\<lambda>(v, x). g v x) (map (Pair v) xs) d = fold (g v) xs d" for xs d
    by (induction xs arbitrary: d) auto
  then show ?case using Cons by simp
qed simp

lemma activated_flat:
  "activated_timed_arc_overrides re rj rp restrictions p =
     fold (\<lambda>y d. if dearer re rj rp restrictions y
                 then AList.update (leg_key y) (arc_seconds (leg_route re rj rp restrictions y)) d else d)
       (concat (map (\<lambda>v. map (Pair v) (route_arcs p v)) [0..<rp_vehicles rp])) []"
  unfolding activated_timed_arc_overrides_def fold_concat_map dearer_def leg_route_def leg_key_def Let_def
  by (rule fold_cong) (auto simp: fun_eq_iff)

lemma activated_members:
  assumes "(arc, s) \<in> set (activated_timed_arc_overrides re rj rp restrictions p)"
  shows "\<exists>v i j. arc = (v, i, j) \<and> rp_travel rp v i j < s"
proof -
  obtain y where "dearer re rj rp restrictions y"
      "(arc, s) = (leg_key y, arc_seconds (leg_route re rj rp restrictions y))"
    using fold_update_mem [OF assms [unfolded activated_flat]] by auto
  then show ?thesis by (cases y) (auto simp: dearer_def leg_key_def split: prod.splits)
qed

text \<open>Activations of a plan that are no news leave nothing activated.\<close>

lemma activated_empty:
  assumes "activated_timed_arc_overrides re rj rp restrictions p = []"
  shows "travelled_priced re rj rp restrictions p"
proof -
  have main: "arc_seconds (leg_route re rj rp restrictions (v, (i, s), (j, t))) \<le> rp_travel rp v i j"
    if "v < rp_vehicles rp" "((i, s), (j, t)) \<in> set (route_arcs p v)"
      "arc_detoured (leg_route re rj rp restrictions (v, (i, s), (j, t)))" for v i s j t
  proof -
    have "\<not> dearer re rj rp restrictions (v, (i, s), (j, t))"
      using assms [unfolded activated_flat fold_update_empty] that(1,2) by auto
    with that(3) show ?thesis by (simp add: dearer_def)
  qed
  show ?thesis
    unfolding travelled_priced_def Let_def using main [unfolded leg_route_def] by auto
qed

lemma fresh_empty:
  assumes "nonneg_overrides ov" "rp = routing_model re rj nodes (overridden ov travel)" "\<forall>v i j. 0 \<le> travel v i j"
    and "new_activations ov (activated_timed_arc_overrides re rj rp restrictions p) = []"
  shows "activated_timed_arc_overrides re rj rp restrictions p = []"
proof (rule ccontr)
  assume "activated_timed_arc_overrides re rj rp restrictions p \<noteq> []"
  then obtain arc s where as: "(arc, s) \<in> set (activated_timed_arc_overrides re rj rp restrictions p)"
    by (metis list.set_intros(1) neq_Nil_conv surj_pair)
  obtain v i j where vij: "arc = (v, i, j)" "rp_travel rp v i j < s" using activated_members [OF as] by blast
  have "dget_default ov arc 0 \<le> rp_travel rp v i j"
    using assms(3) by (simp add: assms(2) vij(1) overridden_def dget_default_def split: option.split)
  with vij as assms(4) show False by (auto simp: new_activations_def filter_empty_conv)
qed
lemma overridden_merge:
  "overridden (merge_overrides d e) travel v i j =
     (case map_of (rev e) (v, i, j) of None \<Rightarrow> overridden d travel v i j | Some s \<Rightarrow> s)"
  by (simp add: overridden_def dget_merge split: option.split)

lemma all_timed_priced:
  assumes rp: "rp = routing_model re rj nodes (overridden ov travel)"
    and fresh: "set fresh \<subseteq> set (activated_timed_arc_overrides re rj rp restrictions p)"
  shows "all_priced re rj nodes restrictions
    (overridden (merge_overrides (merge_overrides ov fresh) (all_timed_arc_overrides re rj rp restrictions)) travel)"
  unfolding all_priced_def Let_def
proof (intro allI impI)
  fix v i j
  assume range: "v < length (cx_vehicles (rj_context rj))" "i < length nodes" "j < length nodes" "i \<noteq> j"
  define route where "route = route_for_nodes re (rj_context rj) nodes v i j (map rr_polygon (restrictions v))"
  define timed where "timed = all_timed_arc_overrides re rj rp restrictions"
  assume "arc_detoured (route_for_nodes re (rj_context rj) nodes v i j (map rr_polygon (restrictions v)))"
  then have det: "arc_detoured route" by (simp add: route_def)
  have entry: "((v, i, j), s) \<in> set timed \<longleftrightarrow> s = arc_seconds route \<and> arc_seconds route > rp_travel rp v i j" for s
  proof
    assume "((v, i, j), s) \<in> set timed"
    then show "s = arc_seconds route \<and> arc_seconds route > rp_travel rp v i j"
      by (auto simp: timed_def all_timed_arc_overrides_def map_filter_iff rp route_def Let_def split: if_splits)
  next
    assume "s = arc_seconds route \<and> arc_seconds route > rp_travel rp v i j"
    with range det show "((v, i, j), s) \<in> set timed"
      unfolding timed_def all_timed_arc_overrides_def map_filter_iff
      by (intro bexI [of _ "(v, i, j)"]) (simp_all add: rp route_def)
  qed
  have "arc_seconds route \<le> overridden (merge_overrides (merge_overrides ov fresh) timed) travel v i j"
  proof (cases "arc_seconds route > rp_travel rp v i j")
    case True
    then have "(v, i, j) \<in> fst ` set (rev timed)" using entry by force
    then obtain s where s: "map_of (rev timed) (v, i, j) = Some s"
      by (metis map_of_eq_None_iff not_None_eq)
    then have "s = arc_seconds route" using entry map_of_SomeD [OF s] by simp
    with s show ?thesis by (simp add: overridden_merge)
  next
    case False
    then have none: "map_of (rev timed) (v, i, j) = None"
      using entry by (force simp: map_of_eq_None_iff)
    have "arc_seconds route \<le> overridden (merge_overrides ov fresh) travel v i j"
    proof (cases "map_of (rev fresh) (v, i, j)")
      case None
      then show ?thesis using False by (simp add: overridden_merge rp)
    next
      case (Some s)
      then have "((v, i, j), s) \<in> set fresh" using map_of_SomeD [OF Some] by simp
      then have "rp_travel rp v i j < s" using fresh activated_members by blast
      with Some False show ?thesis by (simp add: overridden_merge)
    qed
    with none show ?thesis by (simp add: overridden_merge)
  qed
  then show "arc_seconds (route_for_nodes re (rj_context rj) nodes v i j (map rr_polygon (restrictions v)))
      \<le> overridden (merge_overrides (merge_overrides ov fresh) (all_timed_arc_overrides re rj rp restrictions)) travel v i j"
    by (simp add: route_def timed_def)
qed

text \<open>What a run of the loop that ends with a plan has solved.\<close>

definition solved_by ::
  "'g routing_env \<Rightarrow> routing_job \<Rightarrow> routing_node list \<Rightarrow> (nat \<Rightarrow> route_restriction list)
   \<Rightarrow> routing_problem \<Rightarrow> routing_plan \<Rightarrow> lns_info \<Rightarrow> bool" where
  "solved_by re rj nodes restrictions rp q info \<longleftrightarrow>
     (\<exists>ov p. nonneg_overrides ov
        \<and> rp = routing_model re rj nodes (overridden ov (travel_matrix re (rj_context rj) nodes restrictions))
        \<and> (\<exists>routes limit. ort_solve (re_ort re) rp routes limit = Some p)
        \<and> maybe_improve_with_lns re (rj_cluster rj) rp p = (q, info)
        \<and> (travelled_priced re rj rp restrictions p \<or> all_priced re rj nodes restrictions (rp_travel rp)))"

lemma routing_loop_solved:
  assumes "routing_loop re rj nodes restrictions overrides refinement final_pass = Solved rp q info obj"
    and "nonneg_overrides overrides"
    and "final_pass \<Longrightarrow> all_priced re rj nodes restrictions (overridden overrides (travel_matrix re (rj_context rj) nodes restrictions))"
  shows "solved_by re rj nodes restrictions rp q info"
  using assms
proof (induction re rj nodes restrictions overrides refinement final_pass rule: routing_loop.induct)
  case (1 re rj nodes restrictions overrides refinement final_pass)
  let ?matrix = "travel_matrix re (rj_context rj) nodes restrictions"
  let ?rp = "routing_model re rj nodes (overridden overrides ?matrix)"
  let ?routes = "build_capacity_aware_initial_routes (re_cc re) (re_rt re) (rj_context rj) (rj_greedy rj) (rj_vehicle_index rj) nodes"
  have matrix: "\<forall>v i j. 0 \<le> ?matrix v i j"
    by (simp add: travel_matrix_def Let_def obstacle_aware_travel_seconds_def arc_seconds_nonneg)
  note unfolded = "1.prems"(1) [unfolded routing_loop.simps [of re rj nodes restrictions overrides refinement final_pass]]
  obtain p where p: "ort_solve (re_ort re) ?rp ?routes (time_limit_of re rj) = Some p"
    using unfolded by (simp add: Let_def split: option.splits)
  let ?act = "activated_timed_arc_overrides re rj ?rp restrictions p"
  let ?fresh = "new_activations overrides ?act"
  have sub: "set ?fresh \<subseteq> set ?act" by (auto simp: new_activations_def)
  show ?case
  proof (cases "\<not> final_pass \<and> ?fresh \<noteq> []")
    case True
    define last_pass where "last_pass = (refinement \<ge> cc_max_refinements (re_cc re))"
    define current where "current = merge_overrides overrides ?fresh"
    define next_ov where "next_ov = (if last_pass then merge_overrides current (all_timed_arc_overrides re rj ?rp restrictions) else current)"
    have eq: "routing_loop re rj nodes restrictions next_ov (Suc refinement) last_pass = Solved rp q info obj"
      using unfolded unfolding last_pass_def current_def next_ov_def Let_def p option.case if_P [OF True] .
    have nn: "nonneg_overrides next_ov"
      using "1.prems"(2) by (simp add: next_ov_def current_def nonneg_merge nonneg_fresh nonneg_activated nonneg_all_timed)
    have fin: "last_pass \<Longrightarrow> all_priced re rj nodes restrictions (overridden next_ov ?matrix)"
      using all_timed_priced [OF refl sub] by (simp add: next_ov_def current_def)
    show ?thesis
      by (rule "1.IH" [OF refl refl refl refl p refl True refl refl, folded last_pass_def current_def, folded next_ov_def, OF eq nn fin])
  next
    case False
    have "(case maybe_improve_with_lns re (rj_cluster rj) ?rp p of (q, info) \<Rightarrow> Solved ?rp q info (pl_objective p))
        = Solved rp q info obj"
      using unfolded unfolding Let_def p option.case if_not_P [OF False] by simp
    then have rp: "rp = ?rp" and lns: "maybe_improve_with_lns re (rj_cluster rj) ?rp p = (q, info)"
      by (auto split: prod.splits)
    have "travelled_priced re rj ?rp restrictions p \<or> all_priced re rj nodes restrictions (rp_travel ?rp)"
      using False "1.prems"(3) activated_empty [OF fresh_empty [OF "1.prems"(2) refl matrix]] by auto
    with "1.prems"(2) p lns show ?thesis unfolding solved_by_def rp by blast
  qed
qed

subsection \<open>The plan behind the packages of a cluster\<close>

lemma improved_feasible:
  assumes "or_tools_sound (re_ort re)" "ort_solve (re_ort re) rp routes limit = Some p"
    and "maybe_improve_with_lns re cd rp p = (q, info)"
  shows "feasible rp q"
proof -
  have p: "feasible rp p" using assms(1,2) by (auto simp: or_tools_sound_def)
  have "ort_improve (re_ort re) rp p l = Some r \<Longrightarrow> feasible rp r" for l r
    using assms(1) by (auto simp: or_tools_sound_def)
  with p assms(3) show ?thesis
    by (auto simp: maybe_improve_with_lns_def Let_def split: if_splits option.splits)
qed

definition plan_behind ::
  "'g routing_env \<Rightarrow> solve_args \<Rightarrow> cluster_job \<Rightarrow> (string, interval list) dict \<Rightarrow> int option \<Rightarrow> package list
   \<Rightarrow> infeasible list \<Rightarrow> cluster_context \<Rightarrow> routing_job \<Rightarrow> routing_problem \<Rightarrow> routing_plan \<Rightarrow> bool" where
  "plan_behind re sa cd held limit packages infs cx rj rp q \<longleftrightarrow>
     prepare_cluster_context (re_rt re) (cluster_spec.truncate cd) (sa_rows sa) (sa_travel sa) (sa_blocked sa) = Inl cx
     \<and> rj = job_of sa cd held limit cx
     \<and> (\<exists>restrictions info. solved_by re rj (model_nodes re rj) restrictions rp q info
          \<and> packages = extract_dispatch_packages re rj rp restrictions q)
     \<and> infs = cx_pre_infeasible cx
         @ unserved_orders (cx_task_ids cx) (cx_cluster_id cx) (d_task_id ` set packages) (cx_orders cx)"

lemma no_plan_outcome:
  assumes "solve_cluster re rss sa cd held limit = (packages, infs)"
    and "\<And>cx rj rp q. \<not> plan_behind re sa cd held limit packages infs cx rj rp q"
  shows "packages = [] \<and> (infs = mark_all_infeasible (cluster_spec.truncate cd) UNKNOWN (UnhandledException ''malformed geometry'')
    \<or> prepare_cluster_context (re_rt re) (cluster_spec.truncate cd) (sa_rows sa) (sa_travel sa) (sa_blocked sa) = Inr infs
    \<or> (\<exists>cx. prepare_cluster_context (re_rt re) (cluster_spec.truncate cd) (sa_rows sa) (sa_travel sa) (sa_blocked sa) = Inl cx
        \<and> infs = cx_pre_infeasible cx @ mark_all_infeasible (cluster_spec.truncate cd) OPTIMIZATION_TRADEOFF NoSolutionInTime))"
proof (cases "prepare_cluster_context (re_rt re) (cluster_spec.truncate cd) (sa_rows sa) (sa_travel sa) (sa_blocked sa)")
  case (Inr early)
  then show ?thesis using assms(1)
    by (simp add: solve_cluster_def solve_cluster_instrumented_def solve_cluster_inner_def Let_def)
next
  case (Inl cx)
  define rj where "rj = job_of sa cd held limit cx"
  have cx: "rj_context rj = cx" "rj_cluster rj = cd" by (simp_all add: rj_def job_of_def)
  show ?thesis
  proof (cases "solve_routing_context re rj")
    case None
    then show ?thesis using assms(1) Inl
      by (simp add: solve_cluster_def solve_cluster_instrumented_def solve_cluster_inner_def Let_def rj_def)
  next
    case (Some res)
    then obtain rs where rs: "all_restrictions (re_rt re) (map snd (cx_field_map cx)) (rj_now rj) (cx_vehicles cx) = Some rs"
      and res: "res = read_solution re rj ((!) rs) (routing_loop re rj (model_nodes re rj) ((!) rs) [] 0 False)"
      by (auto simp: solve_routing_context_def Let_def cx model_nodes_def split: option.splits)
    obtain pks unservd rec where res3: "res = (pks, unservd, rec)" by (metis prod_cases3)
    have out: "packages = pks" "infs = cx_pre_infeasible cx @ unservd"
      using assms(1) Inl Some res3
      by (simp_all add: solve_cluster_def solve_cluster_instrumented_def solve_cluster_inner_def Let_def rj_def)
    show ?thesis
    proof (cases "routing_loop re rj (model_nodes re rj) ((!) rs) [] 0 False")
      case (NoPlan rp)
      then have "pks = []" "unservd = mark_all_infeasible (cluster_spec.truncate cd) OPTIMIZATION_TRADEOFF NoSolutionInTime"
        using res res3 by (simp_all add: read_solution_def Let_def cx)
      with out Inl show ?thesis by simp
    next
      case (Solved rp q info obj)
      then have "pks = extract_dispatch_packages re rj rp ((!) rs) q"
        "unservd = unserved_orders (cx_task_ids cx) (cx_cluster_id cx) (d_task_id ` set pks) (cx_orders cx)"
        using res res3 by (simp_all add: read_solution_def Let_def cx)
      moreover have "solved_by re rj (model_nodes re rj) ((!) rs) rp q info"
        by (rule routing_loop_solved [OF Solved]) (simp_all add: nonneg_overrides_def)
      ultimately have "plan_behind re sa cd held limit packages infs cx rj rp q"
        using Inl out unfolding plan_behind_def rj_def by blast
      with assms(2) show ?thesis by blast
    qed
  qed
qed

lemma context_facts:
  assumes "prepare_cluster_context rt cd rows L blocked = Inl cx"
  shows "cx_cluster_id cx = cluster_id cd" "cx_field_map cx = dict_by site_id (sr_sites rows)" "cx_blocked cx = blocked"
    "cx_task_ids cx = map task_id (cx_orders cx)"
    "cx_vehicles cx = routing_vehicles (allocated_prime_related cd) (dict_by pm_asset_id (sr_vehicles rows))
        (dict_by rel_asset_id (sr_implements rows))"
    "x \<in> set (cx_orders cx) \<Longrightarrow> index_orders (sr_orders rows) (task_id x) = Some x"
proof -
  let ?orders = "List.map_filter (index_orders (sr_orders rows)) (task_ids cd)"
  let ?rvs = "routing_vehicles (allocated_prime_related cd) (dict_by pm_asset_id (sr_vehicles rows))
        (dict_by rel_asset_id (sr_implements rows))"
  obtain kept pre where f: "filter_orders_by_bundles rt (cluster_id cd) ?orders ?rvs = (kept, pre)" by fastforce
  have cx: "cx_cluster_id cx = cluster_id cd \<and> cx_field_map cx = dict_by site_id (sr_sites rows) \<and> cx_blocked cx = blocked
      \<and> cx_task_ids cx = map task_id (cx_orders cx) \<and> cx_vehicles cx = ?rvs \<and> cx_orders cx = kept"
    using assms f by (auto simp: prepare_cluster_context_def Let_def split: if_splits option.splits)
  then show "cx_cluster_id cx = cluster_id cd" "cx_field_map cx = dict_by site_id (sr_sites rows)" "cx_blocked cx = blocked"
    "cx_task_ids cx = map task_id (cx_orders cx)" "cx_vehicles cx = ?rvs" by simp_all
  assume "x \<in> set (cx_orders cx)"
  then have "x \<in> set ?orders" using cx f by (auto simp: filter_orders_by_bundles_def)
  then show "index_orders (sr_orders rows) (task_id x) = Some x"
    by (auto simp: map_filter_iff dest: index_orders_id)
qed

lemma plan_feasible:
  assumes "or_tools_sound (re_ort re)" "plan_behind re sa cd held limit packages infs cx rj rp q"
  shows "\<exists>travel. rp = routing_model re rj (model_nodes re rj) travel \<and> feasible rp q"
  using assms improved_feasible unfolding plan_behind_def solved_by_def by blast

lemma plan_nonneg:
  assumes "0 \<le> cc_reload_service_s (re_cc re)" "plan_behind re sa cd held limit packages infs cx rj rp q"
  shows "nonneg_travel rp"
  using assms nonneg_model unfolding plan_behind_def solved_by_def by blast

text \<open>The package of task node \<open>k\<close> on vehicle \<open>v\<close> of the plan, for order \<open>i\<close> of the context.\<close>

definition stands_for ::
  "'g routing_env \<Rightarrow> cluster_job \<Rightarrow> cluster_context \<Rightarrow> routing_job \<Rightarrow> routing_problem \<Rightarrow> routing_plan \<Rightarrow> package
   \<Rightarrow> nat \<Rightarrow> nat \<Rightarrow> nat \<Rightarrow> bool" where
  "stands_for re cd cx rj rp q pk v k i \<longleftrightarrow>
     (k, i) \<in> set (task_nodes (model_nodes re rj)) \<and> i < length (cx_orders cx)
     \<and> d_task_id pk = task_id (cx_orders cx ! i)
     \<and> pk_operator_asset_id pk = task_operator (cluster_spec.truncate cd) (task_id (cx_orders cx ! i))
     \<and> pk_prime_asset_id pk = pm_asset_id (rv_prime (cx_vehicles cx ! v))
     \<and> pk_related_asset_id pk = rel_asset_id (rv_related (cx_vehicles cx ! v))
     \<and> pk_start pk = rj_now rj + pl_time q k \<and> pk_end pk = rj_now rj + finish rp q k \<and> pk_start pk \<le> pk_end pk
     \<and> pk_end pk = pk_start pk + estimate_operation_seconds (re_rt re) (cx_orders cx ! i) (rv_related (cx_vehicles cx ! v))
     \<and> vehicle_of q k = Some v \<and> v < length (cx_vehicles cx) \<and> k \<in> set (pl_routes q ! v)"

lemma package_stands:
  assumes "or_tools_sound (re_ort re)" "plan_behind re sa cd held limit packages infs cx rj rp q"
    and "list_all2 (package_at re rj rp q) packages served" "served = served_nodes rp q (length (cx_vehicles cx))"
    and "m < length packages" "served ! m = (v, k)"
  shows "\<exists>i. stands_for re cd cx rj rp q (packages ! m) v k i"
proof -
  obtain travel where rp: "rp = routing_model re rj (model_nodes re rj) travel" and f: "feasible rp q"
    using plan_feasible [OF assms(1,2)] by blast
  have rj: "rj_context rj = cx" "rj_cluster rj = cd" using assms(2) by (simp_all add: plan_behind_def job_of_def)
  have "package_at re rj rp q (packages ! m) (v, k)" "(v, k) \<in> set served"
    using list_all2_nthD [OF assms(3,5)] assms(5,6) list_all2_lengthD [OF assms(3)] nth_mem [of m served] by simp_all
  then obtain i where
    "(k, i) \<in> set (task_nodes (model_nodes re rj)) \<and> i < length (cx_orders cx)
    \<and> d_task_id (packages ! m) = task_id (cx_orders cx ! i)
    \<and> pk_operator_asset_id (packages ! m) = task_operator (cluster_spec.truncate cd) (task_id (cx_orders cx ! i))
    \<and> pk_prime_asset_id (packages ! m) = pm_asset_id (rv_prime (cx_vehicles cx ! v))
    \<and> pk_related_asset_id (packages ! m) = rel_asset_id (rv_related (cx_vehicles cx ! v))
    \<and> pk_start (packages ! m) = rj_now rj + pl_time q k
    \<and> pk_end (packages ! m) = rj_now rj + finish rp q k
    \<and> pk_end (packages ! m) = pk_start (packages ! m)
        + estimate_operation_seconds (re_rt re) (cx_orders cx ! i) (rv_related (cx_vehicles cx ! v))
    \<and> vehicle_of q k = Some v \<and> v < length (cx_vehicles cx) \<and> k \<in> set (pl_routes q ! v)"
    using served_package [OF f [unfolded rp], of "n_reload_nodes re cx" "packages ! m" v k] assms(4)
    unfolding rp rj model_nodes_def by blast
  moreover from this have "pk_end (packages ! m) = pk_start (packages ! m)
      + estimate_operation_seconds (re_rt re) (cx_orders cx ! i) (rv_related (cx_vehicles cx ! v))" by blast
  then have "pk_start (packages ! m) \<le> pk_end (packages ! m)"
    using estimate_nonneg [of "re_rt re" "cx_orders cx ! i" "rv_related (cx_vehicles cx ! v)"] by linarith
  ultimately show ?thesis unfolding stands_for_def by blast
qed

lemma packages_stand:
  assumes "or_tools_sound (re_ort re)" "plan_behind re sa cd held limit packages infs cx rj rp q"
  shows "\<exists>served. length served = length packages \<and> distinct (map snd served)
    \<and> set served = {(v, k). v < length (cx_vehicles cx) \<and> k \<in> set (pl_routes q ! v) \<and> is_task_node rp k}
    \<and> (\<forall>m<length packages. \<exists>i. stands_for re cd cx rj rp q (packages ! m) (fst (served ! m)) (snd (served ! m)) i)"
proof -
  let ?served = "served_nodes rp q (length (cx_vehicles cx))"
  obtain travel where rp: "rp = routing_model re rj (model_nodes re rj) travel" and f: "feasible rp q"
    using plan_feasible [OF assms] by blast
  have rj: "rj_context rj = cx" using assms(2) by (simp add: plan_behind_def job_of_def)
  have l2: "list_all2 (package_at re rj rp q) packages ?served"
    using assms(2) extracted_packages [of re rj rp q] unfolding plan_behind_def rj by auto
  have "distinct (map snd ?served)"
    using f by (intro distinct_served_nodes) (simp_all add: feasible_def rp rj)
  moreover have "\<exists>i. stands_for re cd cx rj rp q (packages ! m) (fst (?served ! m)) (snd (?served ! m)) i"
    if "m < length packages" for m
    by (rule package_stands [OF assms l2 refl that]) simp
  moreover have "length ?served = length packages" using list_all2_lengthD [OF l2] by simp
  moreover have "set ?served = {(v, k). v < length (cx_vehicles cx) \<and> k \<in> set (pl_routes q ! v) \<and> is_task_node rp k}"
    using served_nodes_mem by fast
  ultimately show ?thesis by blast
qed

lemma package_of_mem:
  assumes "or_tools_sound (re_ort re)" "plan_behind re sa cd held limit packages infs cx rj rp q" "pk \<in> set packages"
  shows "\<exists>v k i. stands_for re cd cx rj rp q pk v k i"
  using packages_stand [OF assms(1,2)] assms(3) by (metis in_set_conv_nth)

lemma task_node_package:
  assumes s: "or_tools_sound (re_ort re)" and b: "plan_behind re sa cd held limit packages infs cx rj rp q"
    and ki: "(k, i) \<in> set (task_nodes (model_nodes re rj))" and active: "is_active q k"
  shows "\<exists>pk\<in>set packages. \<exists>v. stands_for re cd cx rj rp q pk v k i"
proof -
  obtain travel where rp: "rp = routing_model re rj (model_nodes re rj) travel" and f: "feasible rp q"
    using plan_feasible [OF s b] by blast
  have rj: "rj_context rj = cx" using b by (simp add: plan_behind_def job_of_def)
  obtain served where served: "length served = length packages"
      "set served = {(v, k). v < length (cx_vehicles cx) \<and> k \<in> set (pl_routes q ! v) \<and> is_task_node rp k}"
      "\<forall>m<length packages. \<exists>i. stands_for re cd cx rj rp q (packages ! m) (fst (served ! m)) (snd (served ! m)) i"
    using packages_stand [OF s b] by blast
  obtain v where "find (\<lambda>v. k \<in> set (pl_routes q ! v)) [0..<length (pl_routes q)] = Some v"
    using active by (auto simp: is_active_def vehicle_of_def)
  then have v: "v < length (pl_routes q)" "k \<in> set (pl_routes q ! v)" by (auto simp: find_Some_iff)
  moreover have "length (pl_routes q) = length (cx_vehicles cx)" using f by (simp add: feasible_def rp rj)
  moreover have "is_task_node rp k" using ki by (simp add: is_task_node_def rp task_nodes_mem)
  ultimately have "(v, k) \<in> set served" using served(2) by simp
  then obtain m where m: "m < length packages" "served ! m = (v, k)" using served(1) by (metis in_set_conv_nth)
  obtain j where j: "stands_for re cd cx rj rp q (packages ! m) v k j"
    using served(3) m by fastforce
  then have "j = i" using ki by (simp add: stands_for_def task_nodes_mem)
  with j m(1) nth_mem show ?thesis by blast
qed

subsection \<open>Packages on schedule\<close>

text \<open>The seconds from now to the deadline at which the site or the weather closes a task, and what it
  is for a package to execute on schedule.\<close>

definition closed_seconds :: "runtime \<Rightarrow> solve_args \<Rightarrow> task_row \<Rightarrow> int set" where
  "closed_seconds rt sa order =
     (let last_s = sa_now sa + deadline_from_now_s rt (deadline order) (sa_now sa) in
      (case map_of (dict_by site_id (sr_sites (sa_rows sa))) (location_ref order) of
         None \<Rightarrow> {} | Some s \<Rightarrow> pts (epoch_intervals rt (restriction_windows s) (sa_now sa) last_s))
      \<union> pts (dget_default (sa_blocked sa) (task_id order) []) \<inter> {sa_now sa..last_s})"

definition on_schedule :: "runtime \<Rightarrow> solve_args \<Rightarrow> task_row \<Rightarrow> package \<Rightarrow> bool" where
  "on_schedule rt sa order pk \<longleftrightarrow>
     (let last_s = sa_now sa + deadline_from_now_s rt (deadline order) (sa_now sa) in
      sa_now sa \<le> pk_start pk \<and> pk_start pk \<le> last_s \<and> pk_start pk \<le> pk_end pk
      \<and> (has_windows rt order \<longrightarrow>
           (\<exists>(a, b)\<in>set (epoch_intervals rt (time_windows order) (sa_now sa) last_s). a \<le> pk_start pk \<and> pk_end pk \<le> b))
      \<and> {pk_start pk..<pk_end pk} \<inter> closed_seconds rt sa order = {})"

lemma pts_ex: "x \<in> pts ivs \<longleftrightarrow> (\<exists>a b. (a, b) \<in> set ivs \<and> a \<le> x \<and> x \<le> b)"
proof -
  have "x \<in> pts ivs \<longleftrightarrow> (\<exists>i\<in>set ivs. x \<in> {fst i..snd i})" by (simp add: pts_def case_prod_unfold)
  then show ?thesis by (metis atLeastAtMost_iff prod.collapse fst_conv snd_conv)
qed

lemma offsets_from_mem: "(c, d) \<in> set (offsets_from n ivs) \<longleftrightarrow> (c + n, d + n) \<in> set ivs"
  by (force simp: offsets_from_def)

lemma pts_offsets_from: "x \<in> pts (offsets_from n ivs) \<longleftrightarrow> x + n \<in> pts ivs"
proof
  assume "x + n \<in> pts ivs"
  then obtain a b where "(a, b) \<in> set ivs" "a \<le> x + n" "x + n \<le> b" by (auto simp: pts_ex)
  then show "x \<in> pts (offsets_from n ivs)"
    unfolding pts_ex offsets_from_mem by (intro exI [of _ "a - n"] exI [of _ "b - n"]) simp
qed (force simp: pts_ex offsets_from_mem)

lemma clip_mem:
  "(c, d) \<in> set (List.map_filter (\<lambda>(a, b). if min b hi \<ge> max a lo then Some (max a lo, min b hi) else None) ivs)
     \<longleftrightarrow> (\<exists>a b. (a, b) \<in> set ivs \<and> c = max a lo \<and> d = min b hi \<and> c \<le> d)"
proof -
  have "(\<exists>y\<in>set ivs. (case y of (a, b) \<Rightarrow> if min b hi \<ge> max a lo then Some (max a lo, min b hi) else None) = Some (c, d))
      \<longleftrightarrow> (\<exists>a b. (a, b) \<in> set ivs \<and> (if min b hi \<ge> max a lo then Some (max a lo, min b hi) else None) = Some (c, d))"
    (is "(\<exists>y\<in>set ivs. ?F y) \<longleftrightarrow> ?R")
  proof
    assume "\<exists>y\<in>set ivs. ?F y"
    then obtain y where y: "y \<in> set ivs" "?F y" by blast
    obtain a b where "y = (a, b)" by fastforce
    with y show ?R by (simp only: prod.case) blast
  next
    assume ?R
    then show "\<exists>y\<in>set ivs. ?F y" by (elim exE conjE) (rule bexI [rotated], assumption, simp only: prod.case)
  qed
  also have "\<dots> \<longleftrightarrow> (\<exists>a b. (a, b) \<in> set ivs \<and> c = max a lo \<and> d = min b hi \<and> c \<le> d)"
    by (rule ex_cong1, rule ex_cong1) auto
  finally show ?thesis unfolding map_filter_iff .
qed

lemma clip_pts:
  "x \<in> pts (List.map_filter (\<lambda>(a, b). if min b hi \<ge> max a lo then Some (max a lo, min b hi) else None) ivs)
     \<longleftrightarrow> x \<in> pts ivs \<and> lo \<le> x \<and> (x :: int) \<le> hi"
  unfolding pts_ex clip_mem by fastforce

lemma pts_blocked_offsets:
  assumes "cx_field_map cx = dict_by site_id (sr_sites (sa_rows sa))" "cx_blocked cx = sa_blocked sa"
  shows "x \<in> pts (blocked_occupancy_offsets rt cx order (sa_now sa) (deadline_from_now_s rt (deadline order) (sa_now sa)))
    \<longleftrightarrow> x + sa_now sa \<in> closed_seconds rt sa order"
  unfolding blocked_occupancy_offsets_def closed_seconds_def Let_def pts_offsets_from pts_merge_intervals pts_simps assms Un_iff
    clip_pts
  by (auto split: option.splits)


subsection \<open>Operators and vehicles\<close>

lemma dict_by_key: "map_of (dict_by key xs) k = Some x \<Longrightarrow> key x = k"
proof -
  have "(\<And>j y. map_of d j = Some y \<Longrightarrow> key y = j) \<Longrightarrow> map_of (fold (\<lambda>x. AList.update (key x) x) xs d) k = Some x \<Longrightarrow> key x = k" for d
  proof (induction xs arbitrary: d)
    case (Cons y xs)
    show ?case
      by (rule Cons.IH [OF _ Cons.prems(2) [simplified]]) (use Cons.prems(1) in \<open>auto simp: map_of_update split: if_splits\<close>)
  qed simp
  from this [of "[]"] show "map_of (dict_by key xs) k = Some x \<Longrightarrow> key x = k" by (simp add: dict_by_def)
qed

lemma distinct_primes:
  assumes "wf_dict allocated"
  shows "distinct (map (\<lambda>rv. pm_asset_id (rv_prime rv)) (routing_vehicles allocated (dict_by pm_asset_id vs) implements))"
proof -
  let ?ps = "\<lambda>al. map (\<lambda>rv. pm_asset_id (rv_prime rv)) (routing_vehicles al (dict_by pm_asset_id vs) implements)"
  have sub: "set (?ps al) \<subseteq> fst ` set al" for al
    by (induction al) (auto simp: routing_vehicles_def List.map_filter_simps dest!: dict_by_key split: list.splits option.splits)
  show ?thesis using assms
  proof (induction allocated)
    case (Cons x al)
    obtain v is' where x: "x = (v, is')" by fastforce
    have "v \<notin> set (?ps al)" "distinct (?ps al)" using Cons sub [of al] x by (auto simp: wf_dict_def)
    then show ?case
      by (auto simp: x routing_vehicles_def List.map_filter_simps dest!: dict_by_key split: list.splits option.splits)
  qed (simp add: routing_vehicles_def List.map_filter_simps)
qed

definition busy :: "package \<Rightarrow> int set" where
  "busy pk = {pk_start pk..<pk_end pk}"

definition same_resource :: "package \<Rightarrow> package \<Rightarrow> bool" where
  "same_resource p q \<longleftrightarrow>
     (pk_operator_asset_id p = pk_operator_asset_id q \<and> pk_operator_asset_id p \<noteq> '''') \<or> pk_prime_asset_id p = pk_prime_asset_id q"

definition clash_free :: "package \<Rightarrow> package \<Rightarrow> bool" where
  "clash_free p q \<longleftrightarrow> (same_resource p q \<longrightarrow> busy p \<inter> busy q = {})"

text \<open>Two packages of distinct nodes that share an operator, or any resource.\<close>

lemma operator_nodes_disjoint:
  assumes s: "or_tools_sound (re_ort re)" and b: "plan_behind re sa cd held limit packages infs cx rj rp q"
    and p: "stands_for re cd cx rj rp q p v k i" and p': "stands_for re cd cx rj rp q p' u l j" and kl: "k \<noteq> l"
    and same: "pk_operator_asset_id p = x" "pk_operator_asset_id p' = x" "x \<noteq> ''''"
  shows "finish rp q k \<le> pl_time q l \<or> finish rp q l \<le> pl_time q k"
proof -
  obtain travel where rp: "rp = routing_model re rj (model_nodes re rj) travel" and f: "feasible rp q"
    using plan_feasible [OF s b] by blast
  have rj: "rj_context rj = cx" "rj_cluster rj = cd" using b by (simp_all add: plan_behind_def job_of_def)
  have ops: "task_operator (cluster_spec.truncate cd) (task_id (cx_orders cx ! i)) = x"
    "task_operator (cluster_spec.truncate cd) (task_id (cx_orders cx ! j)) = x"
    using p p' same unfolding stands_for_def by metis+
  show ?thesis unfolding rp
  proof (rule nodes_no_overlap [OF f [unfolded rp], of k i l j x])
    show "(k, i) \<in> set (task_nodes (model_nodes re rj))" "(l, j) \<in> set (task_nodes (model_nodes re rj))"
      "is_active q k" "is_active q l"
      using p p' by (simp_all add: stands_for_def is_active_def)
  qed (use kl ops same(3) in \<open>simp_all add: rj\<close>)
qed

lemma busy_of: "stands_for re cd cx rj rp q p v k i \<Longrightarrow> busy p = {rj_now rj + pl_time q k..<rj_now rj + finish rp q k}"
  by (simp add: stands_for_def busy_def)

lemma distinct_nodes_disjoint:
  assumes s: "or_tools_sound (re_ort re)" and reload: "0 \<le> cc_reload_service_s (re_cc re)"
    and wf: "wf_dict (allocated_prime_related cd)"
    and b: "plan_behind re sa cd held limit packages infs cx rj rp q"
    and p: "stands_for re cd cx rj rp q p v k i" and p': "stands_for re cd cx rj rp q p' u l j" and kl: "k \<noteq> l"
    and same: "same_resource p p'"
  shows "busy p \<inter> busy p' = {}"
proof -
  obtain travel where rp: "rp = routing_model re rj (model_nodes re rj) travel" and f: "feasible rp q"
    using plan_feasible [OF s b] by blast
  have rj: "rj_context rj = cx" "rj_cluster rj = cd" using b by (simp_all add: plan_behind_def job_of_def)
  have prep: "prepare_cluster_context (re_rt re) (cluster_spec.truncate cd) (sa_rows sa) (sa_travel sa) (sa_blocked sa) = Inl cx"
    using b by (simp add: plan_behind_def)
  have "finish rp q k \<le> pl_time q l \<or> finish rp q l \<le> pl_time q k"
  proof (cases "pk_operator_asset_id p = pk_operator_asset_id p' \<and> pk_operator_asset_id p \<noteq> ''''")
    case True
    note ops = conjunct1 [OF True] conjunct2 [OF True]
    show ?thesis by (rule operator_nodes_disjoint [OF s b p p' kl refl ops(1) [symmetric] ops(2)])
  next
    case False
    then have prime: "pk_prime_asset_id p = pk_prime_asset_id p'" using same unfolding same_resource_def by blast
    have v: "v < length (cx_vehicles cx)" "u < length (cx_vehicles cx)" using p p' by (simp_all add: stands_for_def)
    have "v = u"
      using distinct_primes [of "allocated_prime_related (cluster_spec.truncate cd)" "sr_vehicles (sa_rows sa)"
          "dict_by rel_asset_id (sr_implements (sa_rows sa))"] wf prime p p' v
      unfolding context_facts(5) [OF prep, symmetric]
      by (simp add: cluster_spec.truncate_def distinct_conv_nth stands_for_def) blast
    then have "pl_time q k + rp_service rp v k \<le> pl_time q l \<or> pl_time q l + rp_service rp v l \<le> pl_time q k"
      using p p' v by (intro route_serial [OF f plan_nonneg [OF reload b] _ _ _ kl])
        (simp_all add: rp rj stands_for_def)
    moreover have "vehicle_of q k = Some v" "vehicle_of q l = Some v" using p p' \<open>v = u\<close> by (simp_all add: stands_for_def)
    ultimately show ?thesis by (simp add: finish_def service_expr_def)
  qed
  then show ?thesis unfolding busy_of [OF p] busy_of [OF p'] by auto
qed

text \<open>C29: with a solver that honours the posted constraints, no operator and no prime mover is booked
  twice inside a cluster: the execution intervals of two packages of the cluster that name the same
  operator, or the same vehicle, have no second in common.\<close>

theorem no_double_booking:
  assumes "or_tools_sound (re_ort re)" "0 \<le> cc_reload_service_s (re_cc re)" "wf_dict (allocated_prime_related cd)"
    and "solve_cluster re rss sa cd held limit = (packages, infs)"
  shows "sorted_wrt clash_free packages"
proof (cases "packages = []")
  case False
  then obtain cx rj rp q where b: "plan_behind re sa cd held limit packages infs cx rj rp q"
    using no_plan_outcome [OF assms(4)] by blast
  obtain served where served: "length served = length packages" "distinct (map snd served)"
      "\<forall>m<length packages. \<exists>i. stands_for re cd cx rj rp q (packages ! m) (fst (served ! m)) (snd (served ! m)) i"
    using packages_stand [OF assms(1) b] by blast
  show ?thesis unfolding sorted_wrt_iff_nth_less clash_free_def
  proof (intro allI impI)
    fix m n assume mn: "m < n" "n < length packages" and same: "same_resource (packages ! m) (packages ! n)"
    have "snd (served ! m) \<noteq> snd (served ! n)"
      using served(1,2) mn by (simp add: distinct_conv_nth)
    then show "busy (packages ! m) \<inter> busy (packages ! n) = {}"
      using distinct_nodes_disjoint [OF assms(1-3) b _ _ _ same] served(3) mn by (meson less_trans)
  qed
qed simp

lemma operator_held_clear:
  assumes s: "or_tools_sound (re_ort re)" and b: "plan_behind re sa cd held limit packages infs cx rj rp q"
    and st: "stands_for re cd cx rj rp q pk v k i" and x: "pk_operator_asset_id pk = x" "x \<noteq> ''''"
    and w: "(a, e) \<in> set (dget_default held x [])"
  shows "busy pk \<inter> {a..<min e (sa_now sa + routing_horizon_s)} = {}"
proof -
  obtain travel where rp: "rp = routing_model re rj (model_nodes re rj) travel" and f: "feasible rp q"
    using plan_feasible [OF s b] by blast
  have rj: "rj_context rj = cx" "rj_now rj = sa_now sa" "rj_cluster rj = cd" "rj_held rj = held"
    using b by (simp_all add: plan_behind_def job_of_def)
  have ki: "(k, i) \<in> set (task_nodes (model_nodes re rj))" and active: "is_active q k"
    using st by (simp_all add: stands_for_def is_active_def)
  have pos: "0 \<le> pl_time q k"
    using node_schedule [OF f [unfolded rp] ki active refl refl refl] by blast
  have le: "pl_time q k \<le> finish rp q k" using st by (simp add: stands_for_def)
  have op: "task_operator (cluster_spec.truncate cd) (task_id (cx_orders cx ! i)) = x"
    using st x unfolding stands_for_def by metis
  have "{rj_now rj + pl_time q k..<rj_now rj + finish rp q k} \<inter> {a..<min e (rj_now rj + routing_horizon_s)} = {}"
    unfolding rp
    by (rule held_operator_clear [OF f [unfolded rp] ki active x(2)])
      (use op w pos le in \<open>simp_all add: rj rp\<close>)
  then show ?thesis by (simp add: busy_of [OF st] rj)
qed

text \<open>C30: every package keeps its operator, its vehicle and its implement out of the windows
  in which other commitments already hold them, as far as the planning horizon.\<close>

theorem held_windows_respected:
  assumes "or_tools_sound (re_ort re)" "solve_cluster re rss sa cd held limit = (packages, infs)" "pk \<in> set packages"
    and "(x = pk_operator_asset_id pk \<and> x \<noteq> '''') \<or> x = pk_prime_asset_id pk \<or> x = pk_related_asset_id pk"
    and "(a, b) \<in> set (dget_default held x [])"
  shows "busy pk \<inter> {a..<min b (sa_now sa + routing_horizon_s)} = {}"
proof -
  obtain cx rj rp q where bh: "plan_behind re sa cd held limit packages infs cx rj rp q"
    using no_plan_outcome [OF assms(2)] assms(3) by fastforce
  obtain travel where rp: "rp = routing_model re rj (model_nodes re rj) travel" and f: "feasible rp q"
    using plan_feasible [OF assms(1) bh] by blast
  have rj: "rj_context rj = cx" "rj_now rj = sa_now sa" "rj_cluster rj = cd" "rj_held rj = held"
    using bh by (simp_all add: plan_behind_def job_of_def)
  obtain v k i where st: "stands_for re cd cx rj rp q pk v k i" using package_of_mem [OF assms(1) bh assms(3)] by blast
  have ki: "(k, i) \<in> set (task_nodes (model_nodes re rj))" and active: "is_active q k"
    using st by (simp_all add: stands_for_def is_active_def)
  have times: "busy pk = {sa_now sa + pl_time q k..<sa_now sa + finish rp q k}" "pl_time q k \<le> finish rp q k"
    using st by (simp_all add: stands_for_def busy_def rj)
  have pos: "0 \<le> pl_time q k"
    using node_schedule [OF f [unfolded rp] ki active refl refl refl] by blast
  show ?thesis
  proof (cases "x = pk_operator_asset_id pk \<and> x \<noteq> ''''")
    case True
    note ops = conjunct1 [OF True, symmetric] conjunct2 [OF True]
    show ?thesis by (rule operator_held_clear [OF assms(1) bh st ops assms(5)])
  next
    case False
    with assms(4) have "x = pm_asset_id (rv_prime (cx_vehicles cx ! v)) \<or> x = rel_asset_id (rv_related (cx_vehicles cx ! v))"
      using st by (auto simp: stands_for_def)
    then have raw: "(a, b) \<in> set (dget_default (rj_held rj) (pm_asset_id (rv_prime (cx_vehicles (rj_context rj) ! v))) [])
        \<union> set (dget_default (rj_held rj) (rel_asset_id (rv_related (cx_vehicles (rj_context rj) ! v))) [])"
      using assms(5) by (auto simp: rj)
    have "{rj_now rj + pl_time q k..<rj_now rj + finish rp q k} \<inter> {a..<min b (rj_now rj + routing_horizon_s)} = {}"
      unfolding rp
      by (rule held_vehicle_clear [OF f [unfolded rp] _ _ raw pos])
        (use st times(2) in \<open>simp_all add: stands_for_def rj rp\<close>)
    then show ?thesis by (simp add: times rj)
  qed
qed

text \<open>A package ends within the planning horizon.\<close>

lemma package_within:
  assumes s: "or_tools_sound (re_ort re)" and b: "plan_behind re sa cd held limit packages infs cx rj rp q"
    and st: "stands_for re cd cx rj rp q pk v k i"
  shows "pk_end pk \<le> sa_now sa + routing_horizon_s"
proof -
  obtain travel where rp: "rp = routing_model re rj (model_nodes re rj) travel" and f: "feasible rp q"
    using plan_feasible [OF s b] by blast
  have rj: "rj_context rj = cx" "rj_now rj = sa_now sa" using b by (simp_all add: plan_behind_def job_of_def)
  obtain ov restrictions where ov: "nonneg_overrides ov"
      "rp = routing_model re rj (model_nodes re rj) (overridden ov (travel_matrix re (rj_context rj) (model_nodes re rj) restrictions))"
    using b unfolding plan_behind_def solved_by_def by blast
  have travel: "0 \<le> rp_travel rp v i j" for i j
  proof (cases "map_of ov (v, i, j)")
    case None
    then show ?thesis
      by (simp add: ov(2) overridden_def dget_default_def travel_matrix_def Let_def obstacle_aware_travel_seconds_def arc_seconds_nonneg)
  next
    case (Some s)
    then show ?thesis using ov(1) map_of_SomeD [OF Some]
      by (auto simp: ov(2) overridden_def dget_default_def nonneg_overrides_def list_all_iff)
  qed
  let ?r = "pl_routes q ! v" and ?xs = "route_stops q v"
  have v: "v < rp_vehicles rp" "k \<in> set ?r" "vehicle_of q k = Some v" using st by (simp_all add: stands_for_def rp rj)
  obtain c where c: "c < length ?r" "?r ! c = k" using v(2) by (metis in_set_conv_nth)
  have stop: "?xs ! Suc c = (k, pl_time q k)" "Suc (Suc c) < length ?xs"
    using c by (simp_all add: route_stops_def nth_append)
  obtain j t where jt: "?xs ! Suc (Suc c) = (j, t)" by fastforce
  have "time_dimension rp q" using f by (simp add: feasible_def)
  then have td: "\<forall>(k, t)\<in>set ?xs. 0 \<le> t \<and> t \<le> routing_horizon_s"
    "\<forall>((i, s), (j, t))\<in>set (zip ?xs (tl ?xs)). s + rp_travel rp v i j + rp_service rp v i \<le> t"
    using v(1) by (auto simp: time_dimension_def list_all_iff route_arcs_def)
  have "(?xs ! Suc c, ?xs ! Suc (Suc c)) \<in> set (zip ?xs (tl ?xs))"
    using stop(2) by (auto simp: in_set_zip nth_tl)
  then have "pl_time q k + rp_travel rp v k j + rp_service rp v k \<le> t" using bspec [OF td(2)] unfolding stop(1) jt by fastforce
  moreover have "(j, t) \<in> set ?xs" using jt stop(2) by (metis nth_mem)
  then have "t \<le> routing_horizon_s" using bspec [OF td(1)] by fastforce
  moreover have "finish rp q k = pl_time q k + rp_service rp v k" using v(3) by (simp add: finish_def service_expr_def)
  moreover have "pk_end pk = sa_now sa + finish rp q k" using st by (simp add: stands_for_def rj)
  ultimately show ?thesis using travel [of k j] by linarith
qed

subsection \<open>Every known task is accounted for\<close>

text \<open>
  A known task of \<open>ts\<close> is served, reported, its alternative group is reported, or another member of
  its group is served.
\<close>

definition accounted ::
  "(string \<Rightarrow> task_row option) \<Rightarrow> string set \<Rightarrow> string set \<Rightarrow> string set \<Rightarrow> bool" where
  "accounted om ts served reported \<longleftrightarrow>
     (\<forall>t\<in>ts. om t \<noteq> None \<longrightarrow> t \<in> served \<or> t \<in> reported
        \<or> group_of om t \<noteq> '''' \<and> (group_of om t \<in> reported \<or> (\<exists>u\<in>served. group_of om u = group_of om t)))"

lemma accounted_mono:
  "accounted om ts served reported \<Longrightarrow> served \<subseteq> served' \<Longrightarrow> reported \<subseteq> reported' \<Longrightarrow> accounted om ts served' reported'"
  unfolding accounted_def by blast

lemma accounted_Un: "accounted om (ts \<union> ts') served reported \<longleftrightarrow> accounted om ts served reported \<and> accounted om ts' served reported"
  unfolding accounted_def by blast

lemma accounted_all: "ts \<subseteq> reported \<Longrightarrow> accounted om ts served reported"
  unfolding accounted_def by blast

lemma group_members_get:
  assumes "t \<in> set ts" "group_of om t = g" "g \<noteq> ''''"
  shows "\<exists>members. (g, members) \<in> set (group_members om ts) \<and> set members = {u \<in> set ts. group_of om u = g}"
proof -
  have eq: "set (dget_default (group_members om ts) g []) = {u \<in> set ts. group_of om u = g}"
    using fold_dappend_group [of _ "group_of om" "\<lambda>t. t" ts "[]" g] assms(3)
    by (auto simp: group_members_def dget_default_def)
  then have "dget_default (group_members om ts) g [] \<noteq> []" using assms(1,2) by force
  then obtain members where "map_of (group_members om ts) g = Some members"
    by (auto simp: dget_default_def split: option.splits)
  with eq map_of_SomeD show ?thesis by (fastforce simp: dget_default_def)
qed

lemma unserved_accounted:
  assumes "\<And>t. t \<in> set ts \<Longrightarrow> index_orders orders t = om t" "served \<subseteq> set ts" "orders = [] \<Longrightarrow> ts = []"
  shows "accounted om (set ts) served (set (map inf_task_id (unserved_orders ts cid served orders)))"
  unfolding accounted_def
proof (intro ballI impI)
  fix t assume t: "t \<in> set ts" "om t \<noteq> None"
  let ?om = "index_orders orders" and ?infs = "unserved_orders ts cid served orders"
  have ne: "orders \<noteq> []" using t assms(3) by auto
  have group: "group_of ?om u = group_of om u" if "u \<in> set ts" for u
    using assms(1) [OF that] by (simp add: group_of_def)
  show "t \<in> served \<or> t \<in> set (map inf_task_id ?infs)
      \<or> group_of om t \<noteq> '''' \<and> (group_of om t \<in> set (map inf_task_id ?infs) \<or> (\<exists>u\<in>served. group_of om u = group_of om t))"
  proof (cases "t \<in> served")
    case out: False
    show ?thesis
    proof (cases "group_of om t = ''''")
      case True
      then have "unserved_record t cid \<in> set ?infs"
        using ne t(1) out group [OF t(1)] by (simp add: unserved_orders_def Let_def)
      moreover have "inf_task_id (unserved_record t cid) = t" by (simp add: unserved_record_def mk_infeasible_def)
      ultimately show ?thesis by (metis image_eqI image_set)
    next
      case False
      let ?g = "group_of om t"
      obtain members where m: "(?g, members) \<in> set (group_members ?om ts)" "set members = {u \<in> set ts. group_of ?om u = ?g}"
        using group_members_get [OF t(1) group [OF t(1)] False] by blast
      show ?thesis
      proof (cases "served \<inter> set members = {}")
        case True
        then have "mk_infeasible ?g cid OPTIMIZATION_TRADEOFF (NoAlternativeRouted ?g members) \<in> set ?infs"
          using ne m(1) unfolding unserved_orders_def Let_def by force
        moreover have "inf_task_id (mk_infeasible ?g cid OPTIMIZATION_TRADEOFF (NoAlternativeRouted ?g members)) = ?g"
          by (simp add: mk_infeasible_def)
        ultimately show ?thesis using False by (metis image_eqI image_set)
      next
        case sib: False
        then obtain u where "u \<in> served" "u \<in> set ts" "group_of ?om u = ?g" using m(2) by auto
        with False group show ?thesis by metis
      qed
    qed
  qed simp
qed

lemma truncate_ids [simp]: "task_ids (cluster_spec.truncate cd) = task_ids cd"
  "allocated_prime_related (cluster_spec.truncate cd) = allocated_prime_related cd"
  by (simp_all add: cluster_spec.truncate_def)

lemma prepared_cover:
  assumes "prepare_cluster_context rt cd rows L blocked = Inl cx" "t \<in> set (task_ids cd)"
    "index_orders (sr_orders rows) t \<noteq> None"
  shows "t \<in> set (cx_task_ids cx) \<or> t \<in> set (map inf_task_id (cx_pre_infeasible cx))"
proof -
  have eq: "mset (cx_task_ids cx) + mset (map inf_task_id (cx_pre_infeasible cx))
      = mset (filter (\<lambda>t. index_orders (sr_orders rows) t \<noteq> None) (task_ids cd))"
    using prepared_context [OF assms(1)] by blast
  have "t \<in># mset (cx_task_ids cx) + mset (map inf_task_id (cx_pre_infeasible cx))"
    unfolding eq using assms(2,3) by (simp only: set_mset_mset set_filter mem_Collect_eq simp_thms)
  then show ?thesis by (simp only: union_iff set_mset_mset)
qed

lemma cluster_accounted:
  assumes "or_tools_sound (re_ort re)" "solve_cluster re rss sa cd held limit = (packages, infs)"
  shows "accounted (index_orders (sr_orders (sa_rows sa))) (set (task_ids cd)) (d_task_id ` set packages)
    (set (map inf_task_id infs))"
proof (cases "\<exists>cx rj rp q. plan_behind re sa cd held limit packages infs cx rj rp q")
  case True
  then obtain cx rj rp q where b: "plan_behind re sa cd held limit packages infs cx rj rp q" by blast
  let ?om = "index_orders (sr_orders (sa_rows sa))" and ?served = "d_task_id ` set packages"
  have prep: "prepare_cluster_context (re_rt re) (cluster_spec.truncate cd) (sa_rows sa) (sa_travel sa) (sa_blocked sa) = Inl cx"
    and infs: "infs = cx_pre_infeasible cx @ unserved_orders (cx_task_ids cx) (cx_cluster_id cx) ?served (cx_orders cx)"
    using b by (simp_all add: plan_behind_def)
  note facts = context_facts(4,6) [OF prep]
  have om: "index_orders (cx_orders cx) t = ?om t" if t: "t \<in> set (cx_task_ids cx)" for t
  proof -
    have "fst ` set (rev (map (\<lambda>tk. (task_id tk, tk)) (cx_orders cx))) = set (cx_task_ids cx)"
      unfolding facts(1) set_rev set_map image_image by simp
    then have "index_orders (cx_orders cx) t \<noteq> None"
      using t unfolding index_orders_def map_of_eq_None_iff by blast
    then obtain x where x: "index_orders (cx_orders cx) t = Some x" by blast
    then have "x \<in> set (cx_orders cx)" "task_id x = t"
      using map_of_SomeD by (fastforce simp: index_orders_def)+
    with facts(2) [of x] x show ?thesis by simp
  qed
  have "?served \<subseteq> set (cx_task_ids cx)"
  proof
    fix t assume "t \<in> ?served"
    then obtain pk v k i where "pk \<in> set packages" "t = d_task_id pk" "stands_for re cd cx rj rp q pk v k i"
      using package_of_mem [OF assms(1) b] by blast
    then show "t \<in> set (cx_task_ids cx)" using facts(1) by (simp add: stands_for_def)
  qed
  then have "accounted ?om (set (cx_task_ids cx)) ?served
      (set (map inf_task_id (unserved_orders (cx_task_ids cx) (cx_cluster_id cx) ?served (cx_orders cx))))"
    using om facts(1) by (intro unserved_accounted) auto
  then have routed: "accounted ?om (set (cx_task_ids cx)) ?served (set (map inf_task_id infs))"
    by (rule accounted_mono) (auto simp: infs)
  have cover: "t \<in> set (cx_task_ids cx) \<or> t \<in> set (map inf_task_id infs)" if "t \<in> set (task_ids cd)" "?om t \<noteq> None" for t
    using prepared_cover [OF prep, of t] that by (auto simp: infs)
  show ?thesis unfolding accounted_def
  proof (intro ballI impI)
    fix t assume "t \<in> set (task_ids cd)" "?om t \<noteq> None"
    with cover [OF this] routed show "t \<in> ?served \<or> t \<in> set (map inf_task_id infs)
        \<or> group_of ?om t \<noteq> '''' \<and> (group_of ?om t \<in> set (map inf_task_id infs) \<or> (\<exists>u\<in>?served. group_of ?om u = group_of ?om t))"
      unfolding accounted_def by blast
  qed
next
  case False
  have all: "set (map inf_task_id infs) \<supseteq> {t \<in> set (task_ids cd). index_orders (sr_orders (sa_rows sa)) t \<noteq> None}"
  proof -
    from False have "infs = mark_all_infeasible (cluster_spec.truncate cd) UNKNOWN (UnhandledException ''malformed geometry'')
      \<or> prepare_cluster_context (re_rt re) (cluster_spec.truncate cd) (sa_rows sa) (sa_travel sa) (sa_blocked sa) = Inr infs
      \<or> (\<exists>cx :: cluster_context. infs = cx_pre_infeasible cx @ mark_all_infeasible (cluster_spec.truncate cd) OPTIMIZATION_TRADEOFF NoSolutionInTime)"
      using no_plan_outcome [OF assms(2)] by blast
    then show ?thesis
    proof (elim disjE exE)
      assume early: "prepare_cluster_context (re_rt re) (cluster_spec.truncate cd) (sa_rows sa) (sa_travel sa) (sa_blocked sa) = Inr infs"
      from prepared_early [OF early] show ?thesis
      proof
        assume "map inf_task_id infs = task_ids (cluster_spec.truncate cd)"
        then show ?thesis by (metis (no_types, lifting) mem_Collect_eq subsetI truncate_ids(1))
      next
        assume "mset (map inf_task_id infs)
            = mset (filter (\<lambda>t. index_orders (sr_orders (sa_rows sa)) t \<noteq> None) (task_ids (cluster_spec.truncate cd)))"
        from mset_eq_setD [OF this] show ?thesis by (simp only: set_filter truncate_ids subset_refl)
      qed
    qed (simp_all only: map_append mark_all_ids set_append truncate_ids, blast+)
  qed
  then show ?thesis unfolding accounted_def by blast
qed

subsection \<open>Precedence, compartments, restrictions\<close>

text \<open>C31: a dispatched task of a cluster whose declared predecessor is a known task of the cluster
  that is not reported is dispatched after it: the predecessor has a package, and the task starts no
  earlier than the predecessor's start plus the time the fastest bundle of the cluster needs for it.\<close>

theorem dependents_follow:
  assumes "or_tools_sound (re_ort re)" "solve_cluster re rss sa cd held limit = (packages, infs)" "pk \<in> set packages"
    and "index_orders (sr_orders (sa_rows sa)) (d_task_id pk) = Some order"
    and "depends_on_task_ref order = d" "d \<noteq> ''''" "d \<noteq> d_task_id pk"
    and "d \<in> set (task_ids cd)" "index_orders (sr_orders (sa_rows sa)) d = Some before" "d \<notin> set (map inf_task_id infs)"
    and "bundles = routing_vehicles (allocated_prime_related cd) (dict_by pm_asset_id (sr_vehicles (sa_rows sa)))
           (dict_by rel_asset_id (sr_implements (sa_rows sa)))"
  shows "\<exists>pk'\<in>set packages. d_task_id pk' = d
    \<and> (\<exists>rv\<in>set bundles.
         list_all (\<lambda>rv'. estimate_operation_seconds (re_rt re) before (rv_related rv)
                          \<le> estimate_operation_seconds (re_rt re) before (rv_related rv')) bundles
         \<and> pk_start pk' + estimate_operation_seconds (re_rt re) before (rv_related rv) \<le> pk_start pk)"
proof -
  obtain cx rj rp q where b: "plan_behind re sa cd held limit packages infs cx rj rp q"
    using no_plan_outcome [OF assms(2)] assms(3) by fastforce
  obtain travel where rp: "rp = routing_model re rj (model_nodes re rj) travel" and f: "feasible rp q"
    using plan_feasible [OF assms(1) b] by blast
  have rj: "rj_context rj = cx" "rj_now rj = sa_now sa" using b by (simp_all add: plan_behind_def job_of_def)
  have prep: "prepare_cluster_context (re_rt re) (cluster_spec.truncate cd) (sa_rows sa) (sa_travel sa) (sa_blocked sa) = Inl cx"
    and infs: "set (map inf_task_id (cx_pre_infeasible cx)) \<subseteq> set (map inf_task_id infs)"
    using b by (auto simp: plan_behind_def)
  note facts = context_facts [OF prep]
  have bundles: "cx_vehicles cx = bundles" using facts(5) assms(11) by simp
  obtain v k i where st: "stands_for re cd cx rj rp q pk v k i" using package_of_mem [OF assms(1) b assms(3)] by blast
  have "cx_orders cx ! i \<in> set (cx_orders cx)" "d_task_id pk = task_id (cx_orders cx ! i)"
    using st by (simp_all add: stands_for_def)
  then have order: "order = cx_orders cx ! i" using facts(6) assms(4) by simp
  have "d \<in> set (cx_task_ids cx)"
    using prepared_cover [OF prep, of d] assms(8-10) infs by auto
  then have known: "d \<in> set (map task_id (cx_orders cx))" using facts(4) by simp
  obtain pred j where pj: "(pred, j) \<in> set (task_nodes (model_nodes re rj))" "task_id (cx_orders cx ! j) = d" "is_active q pred"
      "pl_time q k \<ge> pl_time q pred + fastest_service (node_service_s re cx (model_nodes re rj)) (length (cx_vehicles cx)) pred"
    using nodes_precedence [OF f [unfolded rp], of "n_reload_nodes re cx" k i d] st assms(5-7) known
    unfolding rj order model_nodes_def stands_for_def is_active_def by auto
  obtain pk' u where pk': "pk' \<in> set packages" "stands_for re cd cx rj rp q pk' u pred j"
    using task_node_package [OF assms(1) b pj(1,3)] by blast
  have j: "j < length (cx_orders cx)" using pk'(2) by (simp add: stands_for_def)
  have before: "cx_orders cx ! j = before"
    using facts(6) [OF nth_mem [OF j]] unfolding pj(2) assms(9) by simp
  have service: "node_service_s re cx (model_nodes re rj) w pred
      = estimate_operation_seconds (re_rt re) before (rv_related (cx_vehicles cx ! w))" for w
    using pj(1) before by (simp add: node_service_s_def task_nodes_mem)
  have "cx_vehicles cx \<noteq> []" using st by (auto simp: stands_for_def)
  then obtain w where w: "min_by (\<lambda>v. node_service_s re cx (model_nodes re rj) v pred) [0..<length (cx_vehicles cx)] = Some w"
    by (metis min_by_None length_greater_0_conv list.size(3) length_upt minus_nat.diff_0 not_None_eq not_less0)
  have wmin: "w < length (cx_vehicles cx)"
      "\<And>w'. w' < length (cx_vehicles cx) \<Longrightarrow>
        estimate_operation_seconds (re_rt re) before (rv_related (cx_vehicles cx ! w))
          \<le> estimate_operation_seconds (re_rt re) before (rv_related (cx_vehicles cx ! w'))"
    using min_by_Some [OF w] unfolding service by auto
  show ?thesis
  proof (intro bexI [OF _ pk'(1)] conjI bexI [of _ "cx_vehicles cx ! w"])
    show "d_task_id pk' = d" using pk'(2) pj(2) by (simp add: stands_for_def)
    show "list_all (\<lambda>rv'. estimate_operation_seconds (re_rt re) before (rv_related (cx_vehicles cx ! w))
        \<le> estimate_operation_seconds (re_rt re) before (rv_related rv')) bundles"
      unfolding bundles [symmetric] list_all_iff using wmin(2) by (metis in_set_conv_nth)
    show "pk_start pk' + estimate_operation_seconds (re_rt re) before (rv_related (cx_vehicles cx ! w)) \<le> pk_start pk"
      using pj(4) w pk'(2) st by (simp add: fastest_service_def service stands_for_def)
    show "cx_vehicles cx ! w \<in> set bundles" using wmin(1) bundles by simp
  qed
qed


text \<open>the plan a cluster ends with knows the geography it drives through: unless the optional
  improvement pass replaced it, every arc it travels is priced no lower than its detour around the
  polygons active while it is travelled, or every arc of the model is priced around all of them.\<close>

theorem restrictions_priced:
  assumes "routing_loop re rj nodes restrictions [] 0 False = Solved rp q info obj" "\<not> li_improved info"
  shows "travelled_priced re rj rp restrictions q \<or> all_priced re rj nodes restrictions (rp_travel rp)"
proof -
  obtain p where lns: "maybe_improve_with_lns re (rj_cluster rj) rp p = (q, info)"
    and priced: "travelled_priced re rj rp restrictions p \<or> all_priced re rj nodes restrictions (rp_travel rp)"
    using routing_loop_solved [OF assms(1)] unfolding solved_by_def by (force simp: nonneg_overrides_def)
  have "q = p" using lns assms(2) by (auto simp: maybe_improve_with_lns_def Let_def split: if_splits option.splits)
  with priced show ?thesis by simp
qed

subsection \<open>Closed instances\<close>

text \<open>Tools whose answers are checked against the model: what a sound solver amounts to.\<close>

definition checked :: "or_tools \<Rightarrow> or_tools" where
  "checked ort = ort
     \<lparr>ort_solve := (\<lambda>rp routes limit. case ort_solve ort rp routes limit of
                      None \<Rightarrow> None | Some p \<Rightarrow> if feasible rp p then Some p else None),
      ort_improve := (\<lambda>rp q limit. case ort_improve ort rp q limit of
                      None \<Rightarrow> None | Some p \<Rightarrow> if feasible rp p then Some p else None)\<rparr>"

lemma checked_sound [simp]: "or_tools_sound (checked ort)"
  by (auto simp: or_tools_sound_def checked_def split: option.splits if_splits)

lemma checked_id: "or_tools_sound ort \<Longrightarrow> checked ort = ort"
  by (cases ort) (auto simp: or_tools_sound_def checked_def fun_eq_iff split: option.splits)

text \<open>Two loads of six for a compartment of ten: \<open>A\<close> in its window, a reload stop, then its dependent \<open>B\<close>.\<close>

definition two_stop_plan :: routing_plan where
  "two_stop_plan =
     \<lparr>pl_routes = [[1, 3, 2]], pl_time = (\<lambda>k. if k = 1 then 120 else if k = 3 then 300 else 2000),
      pl_depart = (\<lambda>_. 0), pl_return = (\<lambda>_. 3000), pl_load = (\<lambda>_ k. if k = 3 then 6000 else 0),
      pl_load_end = (\<lambda>_ _. 6000), pl_objective = 0\<rparr>"

definition sample_tools :: or_tools where
  "sample_tools = checked
     \<lparr>ort_solve = (\<lambda>_ _ _. Some two_stop_plan), ort_improve = (\<lambda>_ _ _. None), ort_status = (\<lambda>_. ''ROUTING_SUCCESS''),
      ort_wall_s = (\<lambda>_. 1)\<rparr>"

definition sample_routing_env :: "unit routing_env" where
  "sample_routing_env =
     \<lparr>re_geo = \<lparr>ge_vis = sample_visibility, ge_env = sample_cluster_env, ge_tolerance_km = 1\<rparr>, re_rt = sample_runtime,
      re_cc = default_constants, re_ort = sample_tools, re_int_of_str = (\<lambda>_. None)\<rparr>"

definition sample_prices :: resource_prices where
  "sample_prices =
     \<lparr>fuel_eur_per_l = 1, material_eur_per_kg = 1, electricity_eur_per_kwh = 1, labor_eur_per_h = 1, wear_eur_per_h = 1,
      toll_eur_per_km = 0, service_fee_eur_per_visit = 0\<rparr>"

definition sample_args :: solve_args where
  "sample_args =
     \<lparr>sa_rows = \<lparr>sr_orders =
        [sample_task\<lparr>load_demand := 6, service_duration_min := 1, time_windows := RItems [VStr ''t1/t2'']\<rparr>,
         sample_task\<lparr>task_id := ''B'', load_demand := 6, service_duration_min := 1, depends_on_task_ref := ''A''\<rparr>],
        sr_vehicles = [sample_mover], sr_implements = [sample_implement],
        sr_sites = [Clustering.sample_site\<lparr>restriction_windows := RItems [VStr ''t0/t1'']\<rparr>], sr_depots = [sample_depot]\<rparr>,
      sa_greedy = [], sa_vehicle_index = [], sa_held = [], sa_travel = no_travel, sa_time_limit_s = None, sa_now = 0,
      sa_blocked = [(''B'', [(0, 500)])], sa_prices = sample_prices, sa_objective = ''cost''\<rparr>"

definition sample_job :: cluster_job where
  "sample_job = cluster_spec.extend (sample_cluster\<lparr>task_ids := [''A'', ''B''], allocated_prime_related := [(''v1'', [''i1''])]\<rparr>)
     \<lparr>cj_lns_time_limit_s = 0, cj_operator_wages = []\<rparr>"

definition sample_held :: "(string, interval list) dict" where
  "sample_held = [(''op1'', [(0, 110)])]"

definition sample_solved :: "package list \<times> infeasible list" where
  "sample_solved = solve_cluster sample_routing_env (\<lambda>_. None) sample_args sample_job sample_held None"

lemma sample_solved_value:
  "(case sample_solved of (ps, is) \<Rightarrow>
      (map (\<lambda>p. (d_task_id p, pk_start p, pk_end p, pk_operator_asset_id p)) ps, is))
     = ([(''A'', 120, 180, ''op1''), (''B'', 2000, 2060, ''op1'')], [])"
  by code_simp

lemma sample_packages:
  "\<exists>a b. sample_solved = ([a, b], []) \<and> d_task_id a = ''A'' \<and> d_task_id b = ''B'' \<and> pk_operator_asset_id a = ''op1''"
  using sample_solved_value by (auto split: prod.splits)

lemma sample_sound: "or_tools_sound (re_ort sample_routing_env)" "0 \<le> cc_reload_service_s (re_cc sample_routing_env)"
  "re_rt sample_routing_env = sample_runtime"
  by (simp_all add: sample_routing_env_def sample_tools_def default_constants_def)


lemma no_double_booking_witness: "sorted_wrt clash_free (fst sample_solved) \<and> length (fst sample_solved) = 2"
proof -
  obtain a b where ab: "sample_solved = ([a, b], [])" using sample_packages by blast
  have "wf_dict (allocated_prime_related sample_job)" by code_simp
  from no_double_booking [OF sample_sound(1,2) this ab [unfolded sample_solved_def]] show ?thesis by (simp add: ab)
qed

lemma held_windows_respected_witness:
  "busy (hd (fst sample_solved)) \<inter> {0..<min 110 (sa_now sample_args + routing_horizon_s)} = {}"
proof -
  obtain a b where ab: "sample_solved = ([a, b], [])" "pk_operator_asset_id a = ''op1''" using sample_packages by blast
  have "(0, 110) \<in> set (dget_default sample_held ''op1'' [])" by code_simp
  then show ?thesis
    using held_windows_respected [OF sample_sound(1) ab(1) [unfolded sample_solved_def], of a "''op1''" 0 110]
    by (simp add: ab)
qed

lemma dependents_follow_witness:
  "\<exists>pk'\<in>set (fst sample_solved). d_task_id pk' = ''A'' \<and>
     (\<exists>rv\<in>set [\<lparr>rv_prime = sample_mover, rv_related = sample_implement\<rparr>].
        list_all (\<lambda>rv'. estimate_operation_seconds sample_runtime (hd (sr_orders (sa_rows sample_args))) (rv_related rv)
                         \<le> estimate_operation_seconds sample_runtime (hd (sr_orders (sa_rows sample_args))) (rv_related rv'))
          [\<lparr>rv_prime = sample_mover, rv_related = sample_implement\<rparr>]
        \<and> pk_start pk' + estimate_operation_seconds sample_runtime (hd (sr_orders (sa_rows sample_args))) (rv_related rv)
             \<le> pk_start (last (fst sample_solved)))"
proof -
  obtain a b where ab: "sample_solved = ([a, b], [])" "d_task_id b = ''B''" using sample_packages by blast
  have "index_orders (sr_orders (sa_rows sample_args)) ''B'' = Some (last (sr_orders (sa_rows sample_args)))"
    "index_orders (sr_orders (sa_rows sample_args)) ''A'' = Some (hd (sr_orders (sa_rows sample_args)))"
    "depends_on_task_ref (last (sr_orders (sa_rows sample_args))) = ''A''"
    "''A'' \<in> set (task_ids sample_job)"
    "[\<lparr>rv_prime = sample_mover, rv_related = sample_implement\<rparr>] =
       routing_vehicles (allocated_prime_related sample_job) (dict_by pm_asset_id (sr_vehicles (sa_rows sample_args)))
         (dict_by rel_asset_id (sr_implements (sa_rows sample_args)))"
    by code_simp+
  note facts = this
  show ?thesis
    using dependents_follow [OF sample_sound(1) ab(1) [unfolded sample_solved_def], of b _ "''A''" _ _, unfolded ab(2), OF _ facts(1,3) _ _ facts(4,2) _ facts(5)]
    by (simp only: ab sample_sound) simp
qed

definition sample_routing_job :: routing_job where
  "sample_routing_job = job_of sample_args sample_job sample_held None
     (projl (prepare_cluster_context sample_runtime (cluster_spec.truncate sample_job) (sa_rows sample_args)
        (sa_travel sample_args) (sa_blocked sample_args)))"

definition sample_end :: solve_end where
  "sample_end = routing_loop sample_routing_env sample_routing_job (model_nodes sample_routing_env sample_routing_job)
     (\<lambda>_. []) [] 0 False"

lemma sample_end_value:
  "case sample_end of NoPlan _ \<Rightarrow> False
   | Solved rp q info obj \<Rightarrow> pl_routes q = [[1, 3, 2]] \<and> \<not> li_improved info"
  by code_simp

lemma sample_job_value:
  "map rn_kind (model_nodes sample_routing_env sample_routing_job) = [NDepot, NTask, NTask, NReload]"
  "cluster_load_materials (rj_context sample_routing_job) = ['''']" "length (cx_vehicles (rj_context sample_routing_job)) = 1"
  by code_simp+

lemma sample_end_Solved: "\<exists>rp q info obj. sample_end = Solved rp q info obj \<and> pl_routes q = [[1, 3, 2]] \<and> \<not> li_improved info"
proof (cases sample_end)
  case (NoPlan rp)
  show ?thesis using sample_end_value unfolding NoPlan by simp
next
  case (Solved rp q info obj)
  show ?thesis using sample_end_value unfolding Solved solve_end.case by blast
qed


lemma restrictions_priced_witness:
  "case sample_end of NoPlan _ \<Rightarrow> False
   | Solved rp q info obj \<Rightarrow>
       travelled_priced sample_routing_env sample_routing_job rp (\<lambda>_. []) q
       \<or> all_priced sample_routing_env sample_routing_job (model_nodes sample_routing_env sample_routing_job) (\<lambda>_. []) (rp_travel rp)"
proof -
  obtain rp q info obj where e: "sample_end = Solved rp q info obj" "\<not> li_improved info" using sample_end_Solved by blast
  show ?thesis unfolding e(1) solve_end.case by (rule restrictions_priced [OF e(1) [unfolded sample_end_def] e(2)])
qed

end
