(* ===== verification/Feedback.thy ===== *)
theory Feedback
  imports Routing
begin

text \<open>
  The solver's feedback loops (\<open>solver/performance_feedback.py\<close>): the worker-memory regression and
  the LNS budget multiplier retained between runs, and the summary of the solve records
  (\<open>solver/solve_telemetry.py\<close>). A feedback file is its parsed payload, \<open>None\<close> when it is absent or
  unreadable; the time of the update is left out.
\<close>

record feedback_constants =
  fb_enabled :: bool
  fb_min_samples :: real
  fb_reference_delta :: real
  fb_min_multiplier :: real
  fb_max_multiplier :: real

record memory_fit =
  ft_n :: real
  ft_sum_x :: real
  ft_sum_y :: real
  ft_sum_xx :: real
  ft_sum_xy :: real

record memory_feedback =
  me_n_records :: nat
  me_max_mb :: real
  me_last_max_mb :: real
  me_last_mean_mb :: real
  me_fit :: memory_fit

record lns_feedback =
  lf_attempted :: nat
  lf_improved :: nat
  lf_total_delta :: real
  lf_mean_delta :: real
  lf_last_attempted :: nat
  lf_last_improved :: nat
  lf_last_delta :: real

record feedback_store =
  fs_memory :: "memory_feedback option"
  fs_lns :: "lns_feedback option"

subsection \<open>Worker memory\<close>

definition no_fit :: memory_fit where
  "no_fit = \<lparr>ft_n = 0, ft_sum_x = 0, ft_sum_y = 0, ft_sum_xx = 0, ft_sum_xy = 0\<rparr>"

text \<open>A record always has its task count; a missing or zero vehicle count reads as one.\<close>

definition model_cells :: "solve_record \<Rightarrow> real" where
  "model_cells rec =
     (let n_vehicles = (case so_n_vehicles rec of None \<Rightarrow> 1 | Some n \<Rightarrow> if n = 0 then 1 else real n);
          nodes = real (so_n_tasks rec) + 1
      in nodes * nodes * (max 1 n_vehicles + 1))"

definition accumulate_record :: "solve_record \<Rightarrow> memory_fit \<Rightarrow> memory_fit" where
  "accumulate_record rec fit =
     (let cells = model_cells rec in
      case so_max_rss_mb rec of
        None \<Rightarrow> fit
      | Some rss \<Rightarrow>
          if rss \<le> 0 \<or> cells \<le> 0 then fit
          else \<lparr>ft_n = ft_n fit + 1, ft_sum_x = ft_sum_x fit + cells, ft_sum_y = ft_sum_y fit + rss,
                ft_sum_xx = ft_sum_xx fit + cells * cells, ft_sum_xy = ft_sum_xy fit + cells * rss\<rparr>)"

definition accumulate_memory_fit :: "memory_fit \<Rightarrow> solve_record list \<Rightarrow> memory_fit" where
  "accumulate_memory_fit previous records = fold accumulate_record records previous"

definition record_worker_memory :: "solve_record list \<Rightarrow> memory_feedback option \<Rightarrow> memory_feedback option" where
  "record_worker_memory records stored =
     (let rss_values = filter (\<lambda>x. x > 0) (List.map_filter so_max_rss_mb records) in
      if rss_values = [] then stored
      else
        let previous_max = (case stored of None \<Rightarrow> 0 | Some f \<Rightarrow> me_max_mb f);
            previous_n = (case stored of None \<Rightarrow> 0 | Some f \<Rightarrow> me_n_records f);
            previous_fit = (case stored of None \<Rightarrow> no_fit | Some f \<Rightarrow> me_fit f);
            peak = Max (set rss_values)
        in Some \<lparr>me_n_records = previous_n + length rss_values, me_max_mb = py_round 2 (max previous_max peak),
                 me_last_max_mb = py_round 2 peak,
                 me_last_mean_mb = py_round 2 (sum_list rss_values / real (length rss_values)),
                 me_fit = accumulate_memory_fit previous_fit records\<rparr>)"

definition calibrated_memory_model :: "feedback_constants \<Rightarrow> memory_feedback option \<Rightarrow> (real \<times> real) option" where
  "calibrated_memory_model fc stored =
     (let fit = (case stored of None \<Rightarrow> no_fit | Some f \<Rightarrow> me_fit f); n = ft_n fit;
          denom = n * ft_sum_xx fit - ft_sum_x fit * ft_sum_x fit in
      if \<not> fb_enabled fc \<or> n < fb_min_samples fc \<or> denom \<le> 0 then None
      else
        let slope = (n * ft_sum_xy fit - ft_sum_x fit * ft_sum_y fit) / denom;
            intercept = (ft_sum_y fit - slope * ft_sum_x fit) / n
        in Some (max 0 intercept, max 0 slope))"

definition calibrated_worker_memory_mb :: "feedback_constants \<Rightarrow> memory_feedback option \<Rightarrow> real \<Rightarrow> real" where
  "calibrated_worker_memory_mb fc stored estimated_mb =
     (case stored of
        None \<Rightarrow> estimated_mb
      | Some f \<Rightarrow> if fb_enabled fc then max estimated_mb (me_max_mb f) else estimated_mb)"

subsection \<open>LNS budgets\<close>

definition record_lns :: "solve_record list \<Rightarrow> lns_feedback option \<Rightarrow> lns_feedback option" where
  "record_lns records stored =
     (let attempts = filter (\<lambda>r. li_attempted (so_lns r)) records in
      if attempts = [] then stored
      else
        let deltas = map (\<lambda>r. li_delta (so_lns r)) attempts;
            improvements = map (\<lambda>d. real_of_int \<bar>d\<bar>) (filter (\<lambda>d. d < 0) deltas);
            total = (case stored of None \<Rightarrow> 0 | Some f \<Rightarrow> lf_total_delta f) + sum_list improvements;
            n_improved = (case stored of None \<Rightarrow> 0 | Some f \<Rightarrow> lf_improved f) + length improvements;
            n_attempted = (case stored of None \<Rightarrow> 0 | Some f \<Rightarrow> lf_attempted f) + length attempts
        in Some \<lparr>lf_attempted = n_attempted, lf_improved = n_improved, lf_total_delta = py_round 2 total,
                 lf_mean_delta = py_round 2 (if n_improved = 0 then 0 else total / real n_improved),
                 lf_last_attempted = length attempts, lf_last_improved = length improvements,
                 lf_last_delta = py_round 2 (sum_list improvements)\<rparr>)"

definition lns_budget_multiplier :: "feedback_constants \<Rightarrow> lns_feedback option \<Rightarrow> real" where
  "lns_budget_multiplier fc stored =
     (case stored of
        None \<Rightarrow> 1
      | Some f \<Rightarrow>
          if \<not> fb_enabled fc \<or> lf_attempted f = 0 then 1
          else
            let reference = max 1 (fb_reference_delta fc);
                raw = (if lf_mean_delta f \<le> 0 then fb_min_multiplier fc else lf_mean_delta f / reference)
            in max (fb_min_multiplier fc) (min (fb_max_multiplier fc) raw))"

definition record_solver_feedback :: "feedback_constants \<Rightarrow> solve_record list \<Rightarrow> feedback_store \<Rightarrow> feedback_store" where
  "record_solver_feedback fc records fs =
     (if \<not> fb_enabled fc \<or> records = [] then fs
      else \<lparr>fs_memory = record_worker_memory records (fs_memory fs), fs_lns = record_lns records (fs_lns fs)\<rparr>)"

subsection \<open>The summary of the solve records\<close>

record telemetry_summary =
  ts_n_clusters :: nat
  ts_statuses :: "(string, nat) dict"
  ts_binding_resources :: "(binding_resource, nat) dict"
  ts_n_hit_time_limit :: nat
  ts_total_wall_s :: real
  ts_n_lns_attempted :: nat
  ts_n_lns_improved :: nat
  ts_total_lns_delta :: int
  ts_max_rss_mb :: real
  ts_mean_rss_mb :: real

definition count_key :: "'a \<Rightarrow> ('a, nat) dict \<Rightarrow> ('a, nat) dict" where
  "count_key k d = AList.update k (dget_default d k 0 + 1) d"

definition binding_of :: "solve_record \<Rightarrow> binding_resource option" where
  "binding_of rec = (case so_conflict rec of
     None \<Rightarrow> None | Some c \<Rightarrow> if rc_binding c = BNone then None else Some (rc_binding c))"

definition summarize_cluster_telemetry :: "solve_record list \<Rightarrow> telemetry_summary" where
  "summarize_cluster_telemetry records =
     (let rss_values = List.map_filter so_max_rss_mb records in
      \<lparr>ts_n_clusters = length records,
       ts_statuses = fold (\<lambda>r. count_key (so_status r)) records [],
       ts_binding_resources = fold (\<lambda>r d. case binding_of r of None \<Rightarrow> d | Some b \<Rightarrow> count_key b d) records [],
       ts_n_hit_time_limit = length (filter so_hit_time_limit records),
       ts_total_wall_s = py_round 3 (sum_list (map (\<lambda>r. case so_wall_s r of None \<Rightarrow> 0 | Some w \<Rightarrow> w) records)),
       ts_n_lns_attempted = length (filter (\<lambda>r. li_attempted (so_lns r)) records),
       ts_n_lns_improved = length (filter (\<lambda>r. li_improved (so_lns r)) records),
       ts_total_lns_delta = sum_list (map (\<lambda>r. li_delta (so_lns r)) records),
       ts_max_rss_mb = (if rss_values = [] then 0 else py_round 2 (Max (set rss_values))),
       ts_mean_rss_mb = (if rss_values = [] then 0 else py_round 2 (sum_list rss_values / real (length rss_values)))\<rparr>)"

subsection \<open>The regression is ordinary least squares\<close>

text \<open>The samples a history of records gives, and the squared error of a line on them.\<close>

definition samples :: "solve_record list \<Rightarrow> (real \<times> real) list" where
  "samples records = List.map_filter (\<lambda>rec. case so_max_rss_mb rec of
     None \<Rightarrow> None | Some rss \<Rightarrow> if rss \<le> 0 then None else Some (model_cells rec, rss)) records"

definition squared_error :: "(real \<times> real) list \<Rightarrow> real \<Rightarrow> real \<Rightarrow> real" where
  "squared_error ps b s = sum_list (map (\<lambda>(x, y). (y - b - s * x)\<^sup>2) ps)"

lemma model_cells_ge: "2 \<le> model_cells rec"
proof -
  have "1 \<le> (real (so_n_tasks rec) + 1) * (real (so_n_tasks rec) + 1)"
    by (simp add: algebra_simps)
  moreover have "2 \<le> max 1 v + 1" for v :: real by simp
  ultimately have "1 * 2 \<le> (real (so_n_tasks rec) + 1) * (real (so_n_tasks rec) + 1) * (max 1 v + 1)" for v :: real
    by (intro mult_mono) auto
  then show ?thesis by (simp add: model_cells_def Let_def)
qed

definition sums_of :: "(real \<times> real) list \<Rightarrow> memory_fit" where
  "sums_of ps =
     \<lparr>ft_n = real (length ps), ft_sum_x = sum_list (map fst ps), ft_sum_y = sum_list (map snd ps),
      ft_sum_xx = sum_list (map (\<lambda>(x, y). x * x) ps), ft_sum_xy = sum_list (map (\<lambda>(x, y). x * y) ps)\<rparr>"

lemma accumulate_sums:
  "accumulate_memory_fit fit records =
     \<lparr>ft_n = ft_n fit + ft_n (sums_of (samples records)), ft_sum_x = ft_sum_x fit + ft_sum_x (sums_of (samples records)),
      ft_sum_y = ft_sum_y fit + ft_sum_y (sums_of (samples records)),
      ft_sum_xx = ft_sum_xx fit + ft_sum_xx (sums_of (samples records)),
      ft_sum_xy = ft_sum_xy fit + ft_sum_xy (sums_of (samples records))\<rparr>"
  unfolding accumulate_memory_fit_def
proof (induction records arbitrary: fit)
  case (Cons rec records)
  have cells: "\<not> model_cells rec \<le> 0" using model_cells_ge [of rec] by linarith
  show ?case
  proof (cases "so_max_rss_mb rec")
    case None
    then show ?thesis using Cons by (simp add: accumulate_record_def samples_def List.map_filter_simps)
  next
    case (Some rss)
    then show ?thesis using Cons [of "accumulate_record rec fit"] cells
      by (cases "rss \<le> 0") (simp_all add: accumulate_record_def samples_def List.map_filter_simps sums_of_def Let_def)
  qed
qed (simp add: samples_def sums_of_def List.map_filter_simps)

lemma fit_of_history: "accumulate_memory_fit no_fit records = sums_of (samples records)"
  unfolding accumulate_sums by (simp add: no_fit_def sums_of_def)

lemma squared_error_expand:
  "squared_error ps b s = sum_list (map (\<lambda>(x, y). y * y) ps) - 2 * b * ft_sum_y (sums_of ps) - 2 * s * ft_sum_xy (sums_of ps)
     + ft_n (sums_of ps) * b * b + 2 * b * s * ft_sum_x (sums_of ps) + s * s * ft_sum_xx (sums_of ps)"
  by (induction ps) (auto simp: squared_error_def sums_of_def power2_eq_square algebra_simps)

lemma quadratic_nonneg:
  "0 \<le> ft_n (sums_of ps) * b * b + 2 * b * s * ft_sum_x (sums_of ps) + s * s * ft_sum_xx (sums_of ps)"
proof -
  have "0 \<le> sum_list (map (\<lambda>(x, y). (b + s * x)\<^sup>2) ps)" by (rule sum_list_nonneg) auto
  also have "\<dots> = ft_n (sums_of ps) * b * b + 2 * b * s * ft_sum_x (sums_of ps) + s * s * ft_sum_xx (sums_of ps)"
    by (induction ps) (auto simp: sums_of_def power2_eq_square algebra_simps)
  finally show ?thesis .
qed

lemma normal_equations_minimise:
  assumes "ft_n (sums_of ps) * b + s * ft_sum_x (sums_of ps) = ft_sum_y (sums_of ps)"
    and "b * ft_sum_x (sums_of ps) + s * ft_sum_xx (sums_of ps) = ft_sum_xy (sums_of ps)"
  shows "squared_error ps b s \<le> squared_error ps b' s'"
proof -
  let ?n = "ft_n (sums_of ps)" and ?x = "ft_sum_x (sums_of ps)" and ?xx = "ft_sum_xx (sums_of ps)"
  have "squared_error ps b' s' - squared_error ps b s
      = ?n * (b' - b) * (b' - b) + 2 * (b' - b) * (s' - s) * ?x + (s' - s) * (s' - s) * ?xx"
    unfolding squared_error_expand assms [symmetric] by (simp add: algebra_simps)
  then show ?thesis using quadratic_nonneg [of ps "b' - b" "s' - s"] by linarith
qed

text \<open>the memory model the pool sizes its workers with is the ordinary least-squares line through
  every sample of the retained history: when the fit is not clamped at zero, no other line has a
  smaller squared error on the pairs of model cells and peak memory of all recorded runs.\<close>

theorem memory_fit_least_squares:
  assumes "calibrated_memory_model fc (Some f) = Some (b, s)" "me_fit f = accumulate_memory_fit no_fit records"
    and "0 < b" "0 < s"
  shows "squared_error (samples records) b s \<le> squared_error (samples records) b' s'"
proof -
  define n where "n = ft_n (sums_of (samples records))"
  define x where "x = ft_sum_x (sums_of (samples records))"
  define y where "y = ft_sum_y (sums_of (samples records))"
  define xx where "xx = ft_sum_xx (sums_of (samples records))"
  define xy where "xy = ft_sum_xy (sums_of (samples records))"
  note sums = n_def x_def y_def xx_def xy_def
  have model: "0 < n * xx - x * x" "b = max 0 ((y - (n * xy - x * y) / (n * xx - x * x) * x) / n)"
      "s = max 0 ((n * xy - x * y) / (n * xx - x * x))"
    using assms(1,2) unfolding calibrated_memory_model_def Let_def option.case fit_of_history
    by (simp_all add: sums fit_of_history split: if_splits)
  then have n: "n \<noteq> 0" by (auto simp: not_less)
  have s: "s * (n * xx - x * x) = n * xy - x * y" using model(1,3) assms(4) by (simp add: max_def split: if_splits)
  have "b = (y - s * x) / n" using model assms(3,4) by (auto simp: max_def split: if_splits)
  then have b: "n * b + s * x = y" using n by (simp add: field_simps)
  have "n * (b * x + s * xx) = (n * b + s * x) * x + s * (n * xx - x * x)" by (simp add: algebra_simps)
  also have "\<dots> = n * xy" unfolding b s by (simp add: algebra_simps)
  finally have "b * x + s * xx = xy" using n by simp
  then show ?thesis using normal_equations_minimise b by (simp add: sums)
qed

text \<open>The LNS budget multiplier stays in its configured band whatever the retained feedback says,
  and without usable feedback the budget is left as it is.\<close>

lemma lns_multiplier_bounded:
  assumes "fb_min_multiplier fc \<le> fb_max_multiplier fc"
  shows "lns_budget_multiplier fc stored = 1
    \<or> fb_min_multiplier fc \<le> lns_budget_multiplier fc stored \<and> lns_budget_multiplier fc stored \<le> fb_max_multiplier fc"
  using assms by (auto simp: lns_budget_multiplier_def Let_def split: option.split)

subsection \<open>Closed instances\<close>

definition sample_feedback_constants :: feedback_constants where
  "sample_feedback_constants =
     \<lparr>fb_enabled = True, fb_min_samples = 2, fb_reference_delta = 1000, fb_min_multiplier = 1/2, fb_max_multiplier = 3\<rparr>"

definition sample_records :: "solve_record list" where
  "sample_records =
     [(blank_record ''c1'' ''solved'' 1)\<lparr>so_max_rss_mb := Some 308\<rparr>,
      (blank_record ''c2'' ''solved'' 2)\<lparr>so_max_rss_mb := Some 320\<rparr>,
      (blank_record ''c3'' ''solved'' 9)\<lparr>so_max_rss_mb := None\<rparr>]"

lemma memory_fit_least_squares_witness:
  "squared_error (samples sample_records) (1492 / 5) (6 / 5) \<le> squared_error (samples sample_records) 300 1"
proof -
  obtain f where f: "record_worker_memory sample_records None = Some f" "me_fit f = accumulate_memory_fit no_fit sample_records"
    by (simp add: record_worker_memory_def sample_records_def List.map_filter_simps Let_def blank_record_def)
  have "calibrated_memory_model sample_feedback_constants (record_worker_memory sample_records None) = Some (1492 / 5, 6 / 5)"
    by code_simp
  from memory_fit_least_squares [OF this [unfolded f(1)] f(2)] show ?thesis by simp
qed

lemma lns_multiplier_bounded_witness:
  "lns_budget_multiplier sample_feedback_constants (record_lns [(blank_record ''c1'' ''solved'' 1)
      \<lparr>so_lns := no_lns\<lparr>li_attempted := True, li_improved := True, li_delta := -700\<rparr>\<rparr>] None) = 1
   \<or> 1/2 \<le> lns_budget_multiplier sample_feedback_constants (record_lns [(blank_record ''c1'' ''solved'' 1)
      \<lparr>so_lns := no_lns\<lparr>li_attempted := True, li_improved := True, li_delta := -700\<rparr>\<rparr>] None)
     \<and> lns_budget_multiplier sample_feedback_constants (record_lns [(blank_record ''c1'' ''solved'' 1)
      \<lparr>so_lns := no_lns\<lparr>li_attempted := True, li_improved := True, li_delta := -700\<rparr>\<rparr>] None) \<le> 3"
  using lns_multiplier_bounded [of sample_feedback_constants] by (simp add: sample_feedback_constants_def)

end
