(* ===== verification/Sharing.thy ===== *)
theory Sharing
  imports Rows "HOL-Library.While_Combinator"
begin

text \<open>
  The groups of clusters that share a backup operator (\<open>_operator_sharing_groups\<close> of
  \<open>solver/cluster_pool.py\<close>): a union-find with path halving over a parent dict, and the proof that
  its groups are the connected components of the sharing relation.
\<close>

subsection \<open>The union-find\<close>

type_synonym parents = "string \<rightharpoonup> string"

definition uf_touch :: "parents \<Rightarrow> string \<Rightarrow> parents" where
  "uf_touch par n = (if par n = None then par(n \<mapsto> n) else par)"

definition uf_halve :: "parents \<times> string \<Rightarrow> parents \<times> string" where
  "uf_halve st = (case st of (par, n) \<Rightarrow> let g = the (par (the (par n))) in (par(n \<mapsto> g), g))"

text \<open>\<open>find\<close>; \<open>None\<close> when the loop does not end.\<close>

definition uf_find :: "parents \<Rightarrow> string \<Rightarrow> (parents \<times> string) option" where
  "uf_find par n = while_option (\<lambda>(par, n). par n \<noteq> Some n) uf_halve (uf_touch par n, n)"

text \<open>\<open>parent[find(b)] = find(a)\<close>: the right-hand side is evaluated first.\<close>

definition uf_union :: "parents \<Rightarrow> string \<times> string \<Rightarrow> parents option" where
  "uf_union par ab = (case uf_find par (fst ab) of
     None \<Rightarrow> None
   | Some (par1, ra) \<Rightarrow> (case uf_find par1 (snd ab) of None \<Rightarrow> None | Some (par2, rb) \<Rightarrow> Some (par2(rb \<mapsto> ra))))"

fun uf_unions :: "parents \<Rightarrow> (string \<times> string) list \<Rightarrow> parents option" where
  "uf_unions par [] = Some par"
| "uf_unions par (ab # others) = (case uf_union par ab of None \<Rightarrow> None | Some par' \<Rightarrow> uf_unions par' others)"

definition operator_clusters :: "'a cluster_spec_scheme list \<Rightarrow> (string, string list) dict" where
  "operator_clusters cds = fold (\<lambda>cd. fold (\<lambda>x. dappend x (cluster_id cd)) (shared_backup_operators cd)) cds []"

definition union_pairs :: "'a cluster_spec_scheme list \<Rightarrow> (string \<times> string) list" where
  "union_pairs cds = concat (map (\<lambda>(x, ids). map (Pair (hd ids)) (tl ids)) (operator_clusters cds))"

fun group_by_root :: "parents \<Rightarrow> (string, string list) dict \<Rightarrow> string list \<Rightarrow> (string, string list) dict option" where
  "group_by_root par groups [] = Some groups"
| "group_by_root par groups (c # cs) =
     (if par c = None then group_by_root par groups cs
      else case uf_find par c of
        None \<Rightarrow> None
      | Some (par', r) \<Rightarrow> group_by_root par' (dappend r c groups) cs)"

definition operator_sharing_groups :: "'a cluster_spec_scheme list \<Rightarrow> string list list option" where
  "operator_sharing_groups cds =
     (case uf_unions Map.empty (union_pairs cds) of
        None \<Rightarrow> None
      | Some par \<Rightarrow> map_option (\<lambda>groups. filter (\<lambda>members. length members \<ge> 2) (map snd groups))
          (group_by_root par [] (map cluster_id cds)))"

subsection \<open>Roots\<close>

fun path :: "parents \<Rightarrow> string \<Rightarrow> nat \<Rightarrow> string \<Rightarrow> bool" where
  "path par n 0 r = (n = r \<and> par n = Some n)"
| "path par n (Suc d) r = (\<exists>p. par n = Some p \<and> p \<noteq> n \<and> path par p d r)"

definition root_of :: "parents \<Rightarrow> string \<Rightarrow> string \<Rightarrow> bool" where
  "root_of par n r \<longleftrightarrow> (\<exists>d. path par n d r)"

definition uf_ok :: "parents \<Rightarrow> bool" where
  "uf_ok par \<longleftrightarrow> (\<forall>n\<in>dom par. \<exists>r. root_of par n r)"

lemma path_det: "path par n d r \<Longrightarrow> path par n e s \<Longrightarrow> d = e \<and> r = s"
proof (induction d arbitrary: n e)
  case 0
  then show ?case by (cases e) auto
next
  case (Suc d)
  then obtain p where p: "par n = Some p" "p \<noteq> n" "path par p d r" by auto
  with Suc.prems(2) obtain e' where "e = Suc e'" "path par p e' s" by (cases e) auto
  with Suc.IH [OF p(3)] show ?case by simp
qed

lemma root_det: "root_of par n r \<Longrightarrow> root_of par n s \<Longrightarrow> r = s"
  unfolding root_of_def using path_det by blast

lemma path_root: "path par n d r \<Longrightarrow> par r = Some r"
  by (induction d arbitrary: n) auto

lemma root_root: "root_of par n r \<Longrightarrow> par r = Some r"
  unfolding root_of_def using path_root by blast

lemma root_dom: "root_of par n r \<Longrightarrow> n \<in> dom par"
  unfolding root_of_def by (elim exE, case_tac d) auto

lemma path_below: "path par m e s \<Longrightarrow> path par n d r \<Longrightarrow> e < d \<Longrightarrow> path (par(n \<mapsto> x)) m e s"
proof (induction e arbitrary: m)
  case 0
  then have "m \<noteq> n" using path_det by blast
  with 0 show ?case by auto
next
  case (Suc e)
  then have "m \<noteq> n" using path_det by blast
  with Suc show ?case by auto
qed

lemma halve_path:
  assumes "path par n d r" "par n \<noteq> Some n" "g = the (par (the (par n)))"
  shows "path (par(n \<mapsto> g)) g (d - 2) r \<and> g \<noteq> n \<and> g \<in> dom par \<and> 0 < d"
proof -
  obtain d' where d: "d = Suc d'" using assms(1,2) by (cases d) auto
  then obtain p where p: "par n = Some p" "p \<noteq> n" "path par p d' r" using assms(1) by auto
  have g: "path par g (d - 2) r"
  proof (cases d')
    case 0
    then show ?thesis using p assms(3) d by auto
  next
    case (Suc d'')
    then show ?thesis using p assms(3) d by auto
  qed
  then have "g \<noteq> n" using path_det [OF g, of d r] assms(1) d by auto
  moreover have "g \<in> dom par" using g by (cases "d - 2") auto
  ultimately show ?thesis using path_below [OF g assms(1), of g] d by simp
qed

lemma halve_roots:
  assumes n: "path par n d r" "par n \<noteq> Some n" and g: "g = the (par (the (par n)))"
  shows "root_of par m s \<Longrightarrow> root_of (par(n \<mapsto> g)) m s"
proof -
  note hp = halve_path [OF n g]
  have "path par m e s \<Longrightarrow> root_of (par(n \<mapsto> g)) m s" for e
  proof (induction e arbitrary: m)
    case 0
    then have "m \<noteq> n" using n(2) by auto
    with 0 show ?case unfolding root_of_def by (intro exI [of _ 0]) auto
  next
    case (Suc e)
    show ?case
    proof (cases "m = n")
      case True
      then have "s = r" using path_det [OF Suc.prems] n(1) by simp
      moreover have "path (par(n \<mapsto> g)) n (Suc (d - 2)) r" using hp by auto
      ultimately show ?thesis unfolding root_of_def using True by blast
    next
      case False
      obtain p where p: "par m = Some p" "p \<noteq> m" "path par p e s" using Suc.prems by auto
      obtain e' where "path (par(n \<mapsto> g)) p e' s" using Suc.IH [OF p(3)] unfolding root_of_def by blast
      then have "path (par(n \<mapsto> g)) m (Suc e') s" using p False by auto
      then show ?thesis unfolding root_of_def by blast
    qed
  qed
  then show "root_of par m s \<Longrightarrow> root_of (par(n \<mapsto> g)) m s" unfolding root_of_def by blast
qed

text \<open>The loop of \<open>find\<close> ends at the root and keeps every root.\<close>

lemma find_loop:
  assumes "path par n d r"
  shows "\<exists>par'. while_option (\<lambda>(par, n). par n \<noteq> Some n) uf_halve (par, n) = Some (par', r)
    \<and> dom par' = dom par \<and> (\<forall>m s. root_of par m s \<longrightarrow> root_of par' m s)"
  using assms
proof (induction d arbitrary: par n rule: less_induct)
  case (less d)
  show ?case
  proof (cases "par n = Some n")
    case True
    then have "r = n" using path_det [OF less.prems, of 0 n] by simp
    with True show ?thesis by (subst while_option_unfold) simp
  next
    case False
    define g where "g = the (par (the (par n)))"
    note hp = halve_path [OF less.prems False g_def]
    have "d - 2 < d" "path (par(n \<mapsto> g)) g (d - 2) r" using hp by auto
    from less.IH [OF this] obtain par' where w: "while_option (\<lambda>(par, n). par n \<noteq> Some n) uf_halve (par(n \<mapsto> g), g) = Some (par', r)"
        "dom par' = dom (par(n \<mapsto> g))" "\<forall>m s. root_of (par(n \<mapsto> g)) m s \<longrightarrow> root_of par' m s"
      by blast
    have "n \<in> dom par" using less.prems by (cases d) auto
    then have "dom par' = dom par" using w(2) by auto
    moreover have "\<forall>m s. root_of par m s \<longrightarrow> root_of par' m s"
      using w(3) halve_roots [OF less.prems False g_def] by blast
    moreover have "while_option (\<lambda>(par, n). par n \<noteq> Some n) uf_halve (par, n) = Some (par', r)"
      by (subst while_option_unfold) (simp add: False uf_halve_def g_def [symmetric] w(1) Let_def)
    ultimately show ?thesis by blast
  qed
qed

lemma touch_roots:
  assumes "uf_ok par"
  shows "uf_ok (uf_touch par n)" "dom (uf_touch par n) = insert n (dom par)"
    "root_of par m s \<Longrightarrow> root_of (uf_touch par n) m s"
    "root_of (uf_touch par n) m s \<Longrightarrow> root_of par m s \<or> n \<notin> dom par \<and> m = n \<and> s = n"
proof -
  have keep: "root_of (uf_touch par n) m s" if "root_of par m s" for m s
  proof -
    have "path par m e s \<Longrightarrow> path (uf_touch par n) m e s" for e
      by (induction e arbitrary: m) (auto simp: uf_touch_def)
    with that show ?thesis by (auto simp: root_of_def)
  qed
  show "root_of par m s \<Longrightarrow> root_of (uf_touch par n) m s" by (rule keep)
  show dom: "dom (uf_touch par n) = insert n (dom par)" by (auto simp: uf_touch_def)
  have new: "root_of (uf_touch par n) n n" if "n \<notin> dom par"
    using that unfolding root_of_def by (intro exI [of _ 0]) (auto simp: uf_touch_def)
  have ex: "\<exists>s. root_of (uf_touch par n) m s \<and> (root_of par m s \<or> n \<notin> dom par \<and> m = n \<and> s = n)"
    if "m \<in> insert n (dom par)" for m
  proof (cases "m \<in> dom par")
    case True
    then obtain s where "root_of par m s" using assms unfolding uf_ok_def by blast
    then show ?thesis using keep by blast
  next
    case False
    then show ?thesis using that new by auto
  qed
  show "uf_ok (uf_touch par n)" unfolding uf_ok_def dom using ex by blast
  show "root_of (uf_touch par n) m s \<Longrightarrow> root_of par m s \<or> n \<notin> dom par \<and> m = n \<and> s = n"
    using ex [of m] root_dom [of "uf_touch par n" m s] root_det unfolding dom by metis
qed

lemma find_spec:
  assumes "uf_ok par"
  shows "\<exists>par' r. uf_find par n = Some (par', r) \<and> uf_ok par' \<and> dom par' = insert n (dom par) \<and> root_of par' n r
    \<and> (\<forall>m s. root_of par' m s \<longleftrightarrow> root_of par m s \<or> n \<notin> dom par \<and> m = n \<and> s = n)"
proof -
  note t = touch_roots [OF assms, where n = n]
  obtain d r where d: "path (uf_touch par n) n d r" using t(1,2) by (auto simp: uf_ok_def root_of_def)
  obtain par' where w: "uf_find par n = Some (par', r)" "dom par' = insert n (dom par)"
      "\<forall>m s. root_of (uf_touch par n) m s \<longrightarrow> root_of par' m s"
    using find_loop [OF d] t(2) unfolding uf_find_def by auto
  have conv: "root_of (uf_touch par n) m s" if "root_of par' m s" for m s
  proof -
    have "m \<in> dom (uf_touch par n)" using root_dom [OF that] w(2) t(2) by simp
    then obtain s' where "root_of (uf_touch par n) m s'" using t(1) by (auto simp: uf_ok_def)
    with w(3) that root_det show ?thesis by blast
  qed
  have "uf_ok par'"
    unfolding uf_ok_def w(2) t(2) [symmetric] using t(1) [unfolded uf_ok_def] w(3) by blast
  moreover have "root_of par' n r" using w(3) d by (auto simp: root_of_def)
  moreover have "root_of par' m s \<longleftrightarrow> root_of par m s \<or> n \<notin> dom par \<and> m = n \<and> s = n" for m s
  proof
    assume "root_of par' m s"
    then show "root_of par m s \<or> n \<notin> dom par \<and> m = n \<and> s = n" using conv t(4) by blast
  next
    assume "root_of par m s \<or> n \<notin> dom par \<and> m = n \<and> s = n"
    then have "root_of (uf_touch par n) m s"
    proof
      assume n: "n \<notin> dom par \<and> m = n \<and> s = n"
      then obtain s' where s': "root_of (uf_touch par n) n s'" using d by (auto simp: root_of_def)
      with n t(4) [OF s'] root_dom show ?thesis by blast
    qed (rule t(3))
    with w(3) show "root_of par' m s" by blast
  qed
  ultimately show ?thesis using w(1,2) by blast
qed

text \<open>Two nodes have the same root iff the unions so far connect them.\<close>

definition same_root :: "parents \<Rightarrow> string \<Rightarrow> string \<Rightarrow> bool" where
  "same_root par a b \<longleftrightarrow> (\<exists>r. root_of par a r \<and> root_of par b r)"

definition connected :: "(string \<times> string) set \<Rightarrow> (string \<times> string) set" where
  "connected E = (E \<union> E\<inverse>)\<^sup>*"

definition represents :: "parents \<Rightarrow> (string \<times> string) set \<Rightarrow> bool" where
  "represents par E \<longleftrightarrow> uf_ok par \<and> Field E \<subseteq> dom par
     \<and> (\<forall>a\<in>dom par. \<forall>b\<in>dom par. same_root par a b \<longleftrightarrow> (a, b) \<in> connected E)"

lemma connected_refl [simp]: "(a, a) \<in> connected E"
  by (simp add: connected_def)

lemma connected_sym: "(a, b) \<in> connected E \<Longrightarrow> (b, a) \<in> connected E"
  unfolding connected_def by (rule symD [OF sym_rtrancl]) (auto simp: sym_def)

lemma connected_trans: "(a, b) \<in> connected E \<Longrightarrow> (b, c) \<in> connected E \<Longrightarrow> (a, c) \<in> connected E"
  unfolding connected_def by (rule rtrancl_trans)

lemma connected_insert:
  "(x, y) \<in> connected (insert (a, b) E) \<longleftrightarrow>
     (x, y) \<in> connected E \<or> ((x, a) \<in> connected E \<or> (x, b) \<in> connected E) \<and> ((a, y) \<in> connected E \<or> (b, y) \<in> connected E)"
proof -
  have eq: "insert (a, b) E \<union> (insert (a, b) E)\<inverse> = insert (a, b) (insert (b, a) (E \<union> E\<inverse>))" by auto
  have "connected (insert (a, b) E) =
      (connected E \<union> {(x, y). (x, b) \<in> connected E \<and> (a, y) \<in> connected E})
      \<union> {(x, y). (x, a) \<in> connected E \<union> {(x, y). (x, b) \<in> connected E \<and> (a, y) \<in> connected E}
            \<and> (b, y) \<in> connected E \<union> {(x, y). (x, b) \<in> connected E \<and> (a, y) \<in> connected E}}"
    unfolding connected_def eq by (simp only: rtrancl_insert)
  then have "(x, y) \<in> connected (insert (a, b) E) \<longleftrightarrow>
      ((x, y) \<in> connected E \<or> (x, b) \<in> connected E \<and> (a, y) \<in> connected E)
      \<or> ((x, a) \<in> connected E \<or> (x, b) \<in> connected E \<and> (a, a) \<in> connected E)
        \<and> ((b, y) \<in> connected E \<or> (b, b) \<in> connected E \<and> (a, y) \<in> connected E)"
    by (simp only: Un_iff mem_Collect_eq prod.case)
  then show ?thesis
    using connected_trans [of x a E y] connected_trans [of x b E y] by auto
qed

lemma connected_isolated:
  assumes "n \<notin> Field E"
  shows "(n, y) \<in> connected E \<longleftrightarrow> n = y"
proof
  assume "(n, y) \<in> connected E"
  then show "n = y" unfolding connected_def
    by (cases rule: converse_rtranclE) (use assms in \<open>auto simp: Field_def\<close>)
qed simp

lemma find_represents:
  assumes "represents par E"
  shows "\<exists>par' r. uf_find par n = Some (par', r) \<and> represents par' E \<and> dom par' = insert n (dom par) \<and> root_of par' n r
    \<and> (\<forall>m s. root_of par m s \<longrightarrow> root_of par' m s)"
proof -
  have ok: "uf_ok par" and F: "Field E \<subseteq> dom par"
    and same: "\<And>a b. a \<in> dom par \<Longrightarrow> b \<in> dom par \<Longrightarrow> same_root par a b \<longleftrightarrow> (a, b) \<in> connected E"
    using assms by (auto simp: represents_def)
  obtain par' r where f: "uf_find par n = Some (par', r)" "uf_ok par'" "dom par' = insert n (dom par)" "root_of par' n r"
      "\<And>m s. root_of par' m s \<longleftrightarrow> root_of par m s \<or> n \<notin> dom par \<and> m = n \<and> s = n"
    using find_spec [OF ok, of n] by blast
  have "same_root par' a b \<longleftrightarrow> (a, b) \<in> connected E" if ab: "a \<in> dom par'" "b \<in> dom par'" for a b
  proof (cases "n \<in> dom par")
    case True
    then have "same_root par' a b = same_root par a b" by (simp add: same_root_def f(5))
    with ab f(3) True same show ?thesis by (simp add: insert_absorb)
  next
    case False
    have inner: "same_root par' c d = same_root par c d" if "c \<noteq> n" "d \<noteq> n" for c d
      using that by (simp add: same_root_def f(5))
    have out: "same_root par' n d \<longleftrightarrow> d = n" for d
    proof
      assume "same_root par' n d"
      then obtain s where s: "root_of par' n s" "root_of par' d s" by (auto simp: same_root_def)
      have sn: "s = n" using s(1) False root_dom [of par n s] unfolding f(5) by auto
      show "d = n"
      proof (rule ccontr)
        assume "d \<noteq> n"
        then have "root_of par d n" using s(2) sn unfolding f(5) by auto
        then show False using root_root [of par d n] False by auto
      qed
    next
      assume "d = n"
      then show "same_root par' n d" using f(4) by (auto simp: same_root_def)
    qed
    have out': "same_root par' d n \<longleftrightarrow> d = n" for d using out [of d] by (auto simp: same_root_def)
    have iso: "(n, d) \<in> connected E \<longleftrightarrow> n = d" "(d, n) \<in> connected E \<longleftrightarrow> n = d" for d
      using connected_isolated [of n E] connected_sym [of _ _ E] False F by blast+
    show ?thesis
    proof (cases "a = n \<or> b = n")
      case True
      then show ?thesis using out out' iso by auto
    next
      case False
      then have "a \<in> dom par" "b \<in> dom par" using ab f(3) by auto
      with same inner False show ?thesis by simp
    qed
  qed
  then have "represents par' E" using f(2,3) F by (auto simp: represents_def)
  with f show ?thesis by blast
qed

lemma path_avoid:
  assumes "path par m e s" "root_of par n r" "r \<noteq> s"
  shows "path (par(n \<mapsto> x)) m e s"
  using assms(1)
proof (induction e arbitrary: m)
  case 0
  then have "root_of par m s" unfolding root_of_def by (intro exI [of _ 0]) auto
  then have "m \<noteq> n" using root_det assms(2,3) by blast
  with 0 show ?case by auto
next
  case (Suc e)
  then have "root_of par m s" unfolding root_of_def by blast
  then have "m \<noteq> n" using root_det assms(2,3) by blast
  with Suc show ?case by auto
qed

lemma path_redirect:
  assumes "path par m e rb" "par ra = Some ra" "ra \<noteq> rb"
  shows "path (par(rb \<mapsto> ra)) m (Suc e) ra"
  using assms(1)
proof (induction e arbitrary: m)
  case 0
  then have "m = rb" by auto
  then show ?case using assms(2,3) by simp
next
  case (Suc e)
  then obtain p where p: "par m = Some p" "p \<noteq> m" "path par p e rb" by auto
  have "path par p e rb" by (rule p(3))
  then have "par rb = Some rb" by (rule path_root)
  then have "m \<noteq> rb" using p(1,2) by auto
  then show ?case using p Suc.IH [OF p(3)] by auto
qed

lemma union_represents:
  assumes "represents par E"
  shows "\<exists>par'. uf_union par (a, b) = Some par' \<and> represents par' (insert (a, b) E) \<and> dom par' = insert a (insert b (dom par))"
proof -
  obtain par1 ra where f1: "uf_find par a = Some (par1, ra)" "represents par1 E" "dom par1 = insert a (dom par)" "root_of par1 a ra"
    using find_represents [OF assms] by blast
  obtain par2 rb where f2: "uf_find par1 b = Some (par2, rb)" "represents par2 E" "dom par2 = insert b (dom par1)" "root_of par2 b rb"
      "\<forall>m s. root_of par1 m s \<longrightarrow> root_of par2 m s"
    using find_represents [OF f1(2)] by blast
  have a: "root_of par2 a ra" using f1(4) f2(5) by blast
  have ok2: "uf_ok par2" and F: "Field E \<subseteq> dom par2"
    and same2: "\<And>x y. x \<in> dom par2 \<Longrightarrow> y \<in> dom par2 \<Longrightarrow> same_root par2 x y \<longleftrightarrow> (x, y) \<in> connected E"
    using f2(2) by (auto simp: represents_def)
  have ab: "a \<in> dom par2" "b \<in> dom par2" using f1(3) f2(3) by auto
  let ?par' = "par2(rb \<mapsto> ra)"
  have rb: "par2 rb = Some rb" and ra: "par2 ra = Some ra" using root_root f2(4) a by blast+
  have dom: "dom ?par' = dom par2" using rb by auto
  have move: "root_of ?par' m (if s = rb then ra else s)" if ms: "root_of par2 m s" for m s
  proof (cases "ra = rb")
    case True
    then have "?par' = par2" using rb by (simp add: fun_upd_idem)
    then show ?thesis using True ms by auto
  next
    case False
    obtain e where e: "path par2 m e s" using ms by (auto simp: root_of_def)
    show ?thesis
    proof (cases "s = rb")
      case True
      have "path ?par' m (Suc e) ra" by (rule path_redirect [OF e [unfolded True] ra False])
      then show ?thesis using True unfolding root_of_def by (auto simp del: path.simps)
    next
      case sne: False
      have "root_of par2 rb rb" unfolding root_of_def using rb by (intro exI [of _ 0]) simp
      from path_avoid [OF e this] sne show ?thesis unfolding root_of_def by auto
    qed
  qed
  have ok: "uf_ok ?par'" unfolding uf_ok_def dom using ok2 move unfolding uf_ok_def by blast
  have rel: "same_root ?par' x y \<longleftrightarrow> (x, y) \<in> connected (insert (a, b) E)" if xy: "x \<in> dom par2" "y \<in> dom par2" for x y
  proof -
    obtain rx ry where r: "root_of par2 x rx" "root_of par2 y ry" using ok2 xy unfolding uf_ok_def by blast
    have "same_root ?par' x y \<longleftrightarrow> (if rx = rb then ra else rx) = (if ry = rb then ra else ry)"
    proof
      assume "same_root ?par' x y"
      then obtain q where q: "root_of ?par' x q" "root_of ?par' y q" by (auto simp: same_root_def)
      show "(if rx = rb then ra else rx) = (if ry = rb then ra else ry)"
        using root_det [OF move [OF r(1)] q(1)] root_det [OF move [OF r(2)] q(2)] by simp
    next
      assume "(if rx = rb then ra else rx) = (if ry = rb then ra else ry)"
      then show "same_root ?par' x y" using move [OF r(1)] move [OF r(2)] unfolding same_root_def by auto
    qed
    also have "\<dots> \<longleftrightarrow> rx = ry \<or> (rx = ra \<or> rx = rb) \<and> (ry = ra \<or> ry = rb)" by auto
    also have "\<dots> \<longleftrightarrow> same_root par2 x y \<or> (same_root par2 x a \<or> same_root par2 x b) \<and> (same_root par2 a y \<or> same_root par2 b y)"
    proof -
      have same: "same_root par2 p q \<longleftrightarrow> rp = rq" if "root_of par2 p rp" "root_of par2 q rq" for p q rp rq
        using that root_det [of par2] unfolding same_root_def by blast
      show ?thesis
        unfolding same [OF r] same [OF r(1) a] same [OF r(1) f2(4)] same [OF a r(2)] same [OF f2(4) r(2)] by auto
    qed
    also have "\<dots> \<longleftrightarrow> (x, y) \<in> connected (insert (a, b) E)"
      unfolding connected_insert using same2 xy ab by simp
    finally show ?thesis .
  qed
  have "represents ?par' (insert (a, b) E)"
    unfolding represents_def dom using ok rel F ab by (auto simp: Field_def)
  moreover have "uf_union par (a, b) = Some ?par'" by (simp add: uf_union_def f1(1) f2(1))
  moreover have "dom ?par' = insert a (insert b (dom par))" unfolding dom using f1(3) f2(3) by auto
  ultimately show ?thesis by blast
qed

lemma unions_represent:
  "represents par E \<Longrightarrow> \<exists>par'. uf_unions par abs' = Some par' \<and> represents par' (set abs' \<union> E) \<and> dom par' = Field (set abs') \<union> dom par"
proof (induction abs' arbitrary: par E)
  case (Cons ab abs')
  obtain a b where ab: "ab = (a, b)" by fastforce
  obtain par1 where u: "uf_union par (a, b) = Some par1" "represents par1 (insert (a, b) E)" "dom par1 = insert a (insert b (dom par))"
    using union_represents [OF Cons.prems] by blast
  obtain par' where "uf_unions par1 abs' = Some par'" "represents par' (set abs' \<union> insert (a, b) E)"
      "dom par' = Field (set abs') \<union> dom par1"
    using Cons.IH [OF u(2)] by blast
  then show ?case using u by (intro exI [of _ par']) (auto simp: ab Field_def)
qed simp


subsection \<open>The groups are the components\<close>

definition shares :: "'a cluster_spec_scheme list \<Rightarrow> (string \<times> string) set" where
  "shares cds = {(cluster_id c, cluster_id d) | c d. c \<in> set cds \<and> d \<in> set cds \<and> cluster_id c \<noteq> cluster_id d
     \<and> set (shared_backup_operators c) \<inter> set (shared_backup_operators d) \<noteq> {}}"

lemma dappend_all_spec:
  "wf_dict d \<Longrightarrow> wf_dict (fold (\<lambda>x. dappend x c) xs d)"
  "set (dget_default (fold (\<lambda>x. dappend x c) xs d) y []) = set (dget_default d y []) \<union> (if y \<in> set xs then {c} else {})"
  by (induction xs arbitrary: d) (auto simp: dget_default_dappend)

lemma operator_clusters_spec:
  "wf_dict (operator_clusters cds)"
  "set (dget_default (operator_clusters cds) x []) = cluster_id ` {c \<in> set cds. x \<in> set (shared_backup_operators c)}"
proof -
  have "wf_dict d \<Longrightarrow> wf_dict (fold (\<lambda>cd. fold (\<lambda>x. dappend x (cluster_id cd)) (shared_backup_operators cd)) cds d)" for d
    by (induction cds arbitrary: d) (auto simp: dappend_all_spec)
  then show "wf_dict (operator_clusters cds)" by (simp add: operator_clusters_def)
  have "set (dget_default (fold (\<lambda>cd. fold (\<lambda>x. dappend x (cluster_id cd)) (shared_backup_operators cd)) cds d) x [])
      = set (dget_default d x []) \<union> cluster_id ` {c \<in> set cds. x \<in> set (shared_backup_operators c)}" for d
    by (induction cds arbitrary: d) (auto simp: dappend_all_spec)
  note this [of "[]"]
  then show "set (dget_default (operator_clusters cds) x []) = cluster_id ` {c \<in> set cds. x \<in> set (shared_backup_operators c)}"
    unfolding operator_clusters_def by (simp add: dget_default_def [of "[]"])
qed

lemma union_pairs_mem:
  "(a, b) \<in> set (union_pairs cds) \<longleftrightarrow>
     (\<exists>x ids. map_of (operator_clusters cds) x = Some ids \<and> a = hd ids \<and> b \<in> set (tl ids))"
  using operator_clusters_spec(1) [of cds] by (auto simp: union_pairs_def wf_dict_def)

lemma operator_entry:
  "map_of (operator_clusters cds) x = Some ids \<Longrightarrow> set ids = cluster_id ` {c \<in> set cds. x \<in> set (shared_backup_operators c)}"
  using operator_clusters_spec(2) [of cds x] by (simp add: dget_default_def)

lemma shares_mem:
  "(a, b) \<in> shares cds \<longleftrightarrow> a \<noteq> b \<and> (\<exists>c\<in>set cds. \<exists>d\<in>set cds. a = cluster_id c \<and> b = cluster_id d
     \<and> set (shared_backup_operators c) \<inter> set (shared_backup_operators d) \<noteq> {})"
  unfolding shares_def mem_Collect_eq prod.inject by (intro iffI; elim exE conjE bexE; hypsubst; simp; blast)

lemma shares_sym: "(a, b) \<in> shares cds \<Longrightarrow> (b, a) \<in> shares cds"
  unfolding shares_mem by (metis Int_commute)

lemma shares_trancl_sym: "(a, b) \<in> (shares cds)\<^sup>+ \<Longrightarrow> (b, a) \<in> (shares cds)\<^sup>+"
  by (rule symD [OF sym_trancl]) (auto simp: sym_def shares_sym)

lemma union_pairs_share: "(a, b) \<in> set (union_pairs cds) \<Longrightarrow> a = b \<or> (a, b) \<in> shares cds"
proof -
  assume "(a, b) \<in> set (union_pairs cds)"
  then obtain x ids where x: "map_of (operator_clusters cds) x = Some ids" "a = hd ids" "b \<in> set (tl ids)"
    by (auto simp: union_pairs_mem)
  then have "a \<in> set ids" "b \<in> set ids" by (cases ids; auto)+
  then show ?thesis unfolding operator_entry [OF x(1)] shares_mem by blast
qed

lemma shares_connected:
  assumes "(a, b) \<in> shares cds"
  shows "(a, b) \<in> connected (set (union_pairs cds))"
proof -
  obtain c d x where cd: "c \<in> set cds" "d \<in> set cds" "x \<in> set (shared_backup_operators c)" "x \<in> set (shared_backup_operators d)"
      "a = cluster_id c" "b = cluster_id d"
    using assms by (auto simp: shares_mem)
  then have "set (dget_default (operator_clusters cds) x []) \<noteq> {}" unfolding operator_clusters_spec(2) by auto
  then obtain ids where x: "map_of (operator_clusters cds) x = Some ids"
    by (cases "map_of (operator_clusters cds) x") (auto simp: dget_default_def)
  have hub: "(hd ids, e) \<in> connected (set (union_pairs cds))" if "e \<in> set ids" for e
  proof (cases "e = hd ids")
    case False
    with that have "e \<in> set (tl ids)" by (cases ids) auto
    then have "(hd ids, e) \<in> set (union_pairs cds)" using x union_pairs_mem by blast
    then show ?thesis by (auto simp: connected_def)
  qed simp
  have "a \<in> set ids" "b \<in> set ids" unfolding operator_entry [OF x] using cd by auto
  with hub connected_sym connected_trans show ?thesis by metis
qed

lemma connected_shares:
  "(a, b) \<in> connected (set (union_pairs cds)) \<longleftrightarrow> a = b \<or> (a, b) \<in> (shares cds)\<^sup>+"
proof
  assume "(a, b) \<in> connected (set (union_pairs cds))"
  then have "(a, b) \<in> (shares cds)\<^sup>*"
    unfolding connected_def
  proof (induction rule: rtrancl_induct)
    case (step b c)
    then have "b = c \<or> (b, c) \<in> shares cds" using union_pairs_share shares_sym by blast
    with step.IH show ?case by (auto intro: rtrancl_into_rtrancl)
  qed simp
  then show "a = b \<or> (a, b) \<in> (shares cds)\<^sup>+" by (auto simp: rtrancl_eq_or_trancl)
next
  have "(a, b) \<in> (shares cds)\<^sup>+ \<Longrightarrow> (a, b) \<in> connected (set (union_pairs cds))"
    by (induction rule: trancl_induct) (auto intro: shares_connected connected_trans)
  then show "a = b \<or> (a, b) \<in> (shares cds)\<^sup>+ \<Longrightarrow> (a, b) \<in> connected (set (union_pairs cds))" by auto
qed

lemma group_by_root_spec:
  "uf_ok par \<Longrightarrow> wf_dict groups \<Longrightarrow> \<exists>groups'. group_by_root par groups cs = Some groups' \<and> wf_dict groups'
     \<and> (\<forall>r. dget_default groups' r [] = dget_default groups r [] @ filter (\<lambda>c. root_of par c r) cs)"
proof (induction cs arbitrary: par groups)
  case (Cons c cs)
  show ?case
  proof (cases "c \<in> dom par")
    case False
    then have "\<not> root_of par c r" for r using root_dom by blast
    with Cons.IH [OF Cons.prems] False show ?thesis by (auto simp: domIff)
  next
    case True
    obtain par' r where f: "uf_find par c = Some (par', r)" "uf_ok par'" "root_of par' c r"
        "\<And>m s. root_of par' m s \<longleftrightarrow> root_of par m s"
      using find_spec [OF Cons.prems(1), of c] True by blast
    have root: "root_of par c s \<longleftrightarrow> s = r" for s using f(3,4) root_det by blast
    obtain groups' where g: "group_by_root par' (dappend r c groups) cs = Some groups'" "wf_dict groups'"
        "\<And>s. dget_default groups' s [] = dget_default (dappend r c groups) s [] @ filter (\<lambda>c. root_of par' c s) cs"
      using Cons.IH [OF f(2), of "dappend r c groups"] Cons.prems(2) by auto
    have "group_by_root par groups (c # cs) = Some groups'" using True by (auto simp: f(1) g(1) domIff)
    moreover have "dget_default groups' s [] = dget_default groups s [] @ filter (\<lambda>c. root_of par c s) (c # cs)" for s
      by (simp add: g(3) dget_default_dappend root f(4))
    ultimately show ?thesis using g(2) by blast
  qed
qed simp


lemma sharing_groups_by_root:
  "\<exists>par groups. operator_sharing_groups cds = Some groups \<and> represents par (set (union_pairs cds))
     \<and> dom par = Field (set (union_pairs cds)) \<and> distinct groups
     \<and> (\<forall>g. g \<in> set groups \<longleftrightarrow> (\<exists>r. g = filter (\<lambda>c. root_of par c r) (map cluster_id cds) \<and> 2 \<le> length g))"
proof -
  have "represents Map.empty {}" by (simp add: represents_def uf_ok_def)
  from unions_represent [OF this, of "union_pairs cds"] obtain par where
    u: "uf_unions Map.empty (union_pairs cds) = Some par" "represents par (set (union_pairs cds))"
       "dom par = Field (set (union_pairs cds))" by auto
  have "uf_ok par" using u(2) by (simp add: represents_def)
  from group_by_root_spec [OF this wf_dict_Nil, of "map cluster_id cds"] obtain d where
    d: "group_by_root par [] (map cluster_id cds) = Some d" "wf_dict d"
       "\<And>r. dget_default d r [] = filter (\<lambda>c. root_of par c r) (map cluster_id cds)"
    by (auto simp: dget_default_def [of "[]"])
  let ?gs = "filter (\<lambda>members. length members \<ge> 2) (map snd d)"
  have entry: "(r, g) \<in> set d \<Longrightarrow> g = filter (\<lambda>c. root_of par c r) (map cluster_id cds)" for r g
    using d(3) [of r] by (simp add: wf_dict_map_of [OF d(2)] dget_default_def)
  have "g \<in> set ?gs \<longleftrightarrow> (\<exists>r. g = filter (\<lambda>c. root_of par c r) (map cluster_id cds) \<and> 2 \<le> length g)" (is "?l \<longleftrightarrow> ?r") for g
  proof
    assume ?l
    then obtain r where "(r, g) \<in> set d" "2 \<le> length g" by auto
    then show ?r using entry by blast
  next
    assume ?r
    then obtain r where r: "g = dget_default d r []" "2 \<le> length g" using d(3) by auto
    then have "map_of d r = Some g" by (cases "map_of d r") (auto simp: dget_default_def)
    then show ?l using r(2) by (force simp flip: wf_dict_map_of [OF d(2)])
  qed
  moreover have "distinct ?gs"
  proof -
    have "inj_on snd (set (filter (\<lambda>rg. length (snd rg) \<ge> 2) d))"
    proof (rule inj_onI)
      fix x y assume x: "x \<in> set (filter (\<lambda>rg. length (snd rg) \<ge> 2) d)"
        and y: "y \<in> set (filter (\<lambda>rg. length (snd rg) \<ge> 2) d)" and eq: "snd x = snd y"
      obtain r g where rg: "x = (r, g)" by fastforce
      obtain s where s: "y = (s, g)" using eq rg by (cases y) auto
      have "g \<noteq> []" using x rg by auto
      then obtain c where "c \<in> set g" using nonempty_mem by blast
      moreover have "(r, g) \<in> set d" "(s, g) \<in> set d" using x y rg s by auto
      ultimately have "c \<in> set (filter (\<lambda>c. root_of par c r) (map cluster_id cds))"
          "c \<in> set (filter (\<lambda>c. root_of par c s) (map cluster_id cds))" using entry by blast+
      then have "root_of par c r" "root_of par c s" by simp_all
      then show "x = y" using root_det rg s by simp
    qed
    then have "distinct (map snd (filter (\<lambda>rg. length (snd rg) \<ge> 2) d))"
      using d(2) by (simp add: distinct_map wf_dict_def)
    then show ?thesis by (simp add: filter_map o_def)
  qed
  moreover have "operator_sharing_groups cds = Some ?gs"
    by (simp add: operator_sharing_groups_def u(1) d(1))
  ultimately show ?thesis using u(2,3) by blast
qed

lemma two_of_distinct: "distinct xs \<Longrightarrow> 2 \<le> length xs \<Longrightarrow> a \<in> set xs \<Longrightarrow> \<exists>c\<in>set xs. c \<noteq> a"
  by (cases xs; cases "tl xs") auto

lemma two_in_filter:
  assumes "a \<in> set xs" "b \<in> set xs" "a \<noteq> b" "P a" "P b"
  shows "2 \<le> length (filter P xs)"
proof -
  have "card {a, b} \<le> card (set (filter P xs))" using assms by (intro card_mono) auto
  also have "\<dots> \<le> length (filter P xs)" by (rule card_length)
  finally show ?thesis using assms(3) by simp
qed

lemma sharing_groups_shape:
  assumes "distinct (map cluster_id cds)"
  shows "\<exists>groups. operator_sharing_groups cds = Some groups \<and> distinct (concat groups) \<and> set (concat groups) \<subseteq> cluster_id ` set cds"
proof -
  obtain par groups where g: "operator_sharing_groups cds = Some groups" "distinct groups"
      "\<And>g. g \<in> set groups \<longleftrightarrow> (\<exists>r. g = filter (\<lambda>c. root_of par c r) (map cluster_id cds) \<and> 2 \<le> length g)"
    using sharing_groups_by_root [of cds] by blast
  have "distinct (concat groups)"
  proof (rule distinct_concat [OF g(2)])
    show "ys \<in> set groups \<Longrightarrow> distinct ys" for ys using g(3) assms by auto
    fix ys zs assume yz: "ys \<in> set groups" "zs \<in> set groups" "ys \<noteq> zs"
    then obtain r s where rs: "ys = filter (\<lambda>c. root_of par c r) (map cluster_id cds)"
        "zs = filter (\<lambda>c. root_of par c s) (map cluster_id cds)" using g(3) by blast
    with yz(3) have "r \<noteq> s" by blast
    then show "set ys \<inter> set zs = {}" unfolding rs using root_det by fastforce
  qed
  moreover have "set (concat groups) \<subseteq> cluster_id ` set cds" using g(3) by auto
  ultimately show ?thesis using g(1) by blast
qed

text \<open>C33: The groups solved in sequence are exactly the connected components of the relation "two
  clusters claim one backup operator": the union-find with path halving ends, no cluster is in two
  groups, every group has two members or more, and two clusters are in one group iff a chain of
  shared operators links them.
\<close>

theorem operator_groups_are_components:
  assumes ids: "distinct (map cluster_id cds)"
  shows "\<exists>groups. operator_sharing_groups cds = Some groups \<and> distinct (concat groups)
    \<and> (\<forall>g. g \<in> set groups \<longrightarrow> 2 \<le> length g)
    \<and> (\<forall>a b. (\<exists>g\<in>set groups. a \<in> set g \<and> b \<in> set g) \<longleftrightarrow> (a, b) \<in> (shares cds)\<^sup>+)"
proof -
  obtain par groups where g: "operator_sharing_groups cds = Some groups" "represents par (set (union_pairs cds))"
      "dom par = Field (set (union_pairs cds))" "distinct groups"
      "\<And>g. g \<in> set groups \<longleftrightarrow> (\<exists>r. g = filter (\<lambda>c. root_of par c r) (map cluster_id cds) \<and> 2 \<le> length g)"
    using sharing_groups_by_root [of cds] by blast
  have same: "a \<in> dom par \<Longrightarrow> b \<in> dom par \<Longrightarrow> same_root par a b \<longleftrightarrow> a = b \<or> (a, b) \<in> (shares cds)\<^sup>+" for a b
    using g(2) by (simp add: represents_def connected_shares)
  have member: "a \<in> set (map cluster_id cds)" "a \<in> dom par" if ab: "(a, b) \<in> (shares cds)\<^sup>+" for a b
  proof -
    obtain c where c: "(a, c) \<in> shares cds" using ab by (auto dest: tranclD)
    then show "a \<in> set (map cluster_id cds)" by (auto simp: shares_mem)
    have "a \<noteq> c" using c by (simp add: shares_mem)
    then show "a \<in> dom par" unfolding g(3)
      using connected_isolated [of a "set (union_pairs cds)" c] shares_connected [OF c] by auto
  qed
  have pair: "(a, b) \<in> (shares cds)\<^sup>+" if m: "h \<in> set groups" "a \<in> set h" "b \<in> set h" "a \<noteq> b" for h a b
  proof -
    obtain r where "root_of par a r" "root_of par b r" using m g(5) by auto
    then have "same_root par a b" "a \<in> dom par" "b \<in> dom par" using root_dom by (auto simp: same_root_def)
    then show ?thesis using same m(4) by auto
  qed
  have dist: "h \<in> set groups \<Longrightarrow> distinct h" for h using g(5) ids by auto
  have iff: "(\<exists>g\<in>set groups. a \<in> set g \<and> b \<in> set g) \<longleftrightarrow> (a, b) \<in> (shares cds)\<^sup>+" (is "?l \<longleftrightarrow> ?r") for a b
  proof
    assume ?l
    then obtain h where h: "h \<in> set groups" "a \<in> set h" "b \<in> set h" by blast
    then have "2 \<le> length h" using g(5) by blast
    then obtain c where c: "c \<in> set h" "c \<noteq> a" using two_of_distinct [OF dist [OF h(1)] _ h(2)] by blast
    show ?r
    proof (cases "a = b")
      case True
      have "(a, c) \<in> (shares cds)\<^sup>+" using pair [OF h(1,2) c(1)] c(2) by simp
      then show ?thesis using shares_trancl_sym [of a c cds] True by (auto intro: trancl_trans)
    qed (rule pair [OF h])
  next
    assume r: ?r
    then obtain c where c: "(a, c) \<in> shares cds" by (auto dest: tranclD)
    have ac: "(a, c) \<in> (shares cds)\<^sup>+" using c by (rule r_into_trancl)
    have ne: "a \<noteq> c" using c [unfolded shares_mem] by (rule conjunct1)
    have ba: "(b, a) \<in> (shares cds)\<^sup>+" by (rule shares_trancl_sym [OF r])
    have ca: "(c, a) \<in> (shares cds)\<^sup>+" by (rule shares_trancl_sym [OF ac])
    have "same_root par a b" "same_root par a c" using same member r ba ac ca by blast+
    then obtain s where s: "root_of par a s" "root_of par b s" "root_of par c s"
      using root_det unfolding same_root_def by blast
    define h where "h = filter (\<lambda>c. root_of par c s) (map cluster_id cds)"
    have "2 \<le> length h" unfolding h_def
      by (rule two_in_filter [OF member(1) [OF ac] member(1) [OF ca] ne s(1,3)])
    then have "h \<in> set groups" using g(5) h_def by blast
    moreover have "a \<in> set h" "b \<in> set h" unfolding h_def using s member(1) [OF r] member(1) [OF ba] by auto
    ultimately show ?l by blast
  qed
  have "distinct (concat groups)" using sharing_groups_shape [OF ids] g(1) by auto
  then show ?thesis using g(1,5) iff by blast
qed

definition sample_sharing :: "cluster_spec list" where
  "sample_sharing =
     [sample_cluster\<lparr>cluster_id := ''a'', shared_backup_operators := [''p'']\<rparr>,
      sample_cluster\<lparr>cluster_id := ''b'', shared_backup_operators := [''p'', ''q'']\<rparr>,
      sample_cluster\<lparr>cluster_id := ''c'', shared_backup_operators := [''q'']\<rparr>,
      sample_cluster\<lparr>cluster_id := ''d'', shared_backup_operators := [''r'']\<rparr>]"

lemma operator_groups_are_components_witness:
  "operator_sharing_groups sample_sharing = Some [[''a'', ''b'', ''c'']] \<and> (''a'', ''c'') \<in> (shares sample_sharing)\<^sup>+"
proof -
  have groups: "operator_sharing_groups sample_sharing = Some [[''a'', ''b'', ''c'']]" by code_simp
  have "distinct (map cluster_id sample_sharing)" by code_simp
  from operator_groups_are_components [OF this] groups have
    "(\<exists>g\<in>set [[''a'', ''b'', ''c'']]. ''a'' \<in> set g \<and> ''c'' \<in> set g) \<longleftrightarrow> (''a'', ''c'') \<in> (shares sample_sharing)\<^sup>+"
    by auto
  with groups show ?thesis by simp
qed

end
