(* ===== verification/Pool.thy ===== *)
theory Pool
  imports RoutePlan Feedback Sharing
begin

text \<open>
  The cluster pool (\<open>solver/cluster_pool.py\<close>): worker sizing, LNS budgets, the parallel batch over a
  process pool, and the sequential solve of clusters that share a backup operator. The process pool
  is a parameter: a run of it is the completion order of the futures with what each returned or
  raised, whether the overall timeout struck, and which futures had finished by then
  (\<open>concurrent.futures.as_completed\<close>). Scheduled starts and ends are epoch seconds, so the ISO
  round trip of \<open>_epoch_or_none\<close> is the identity.
\<close>

subsection \<open>Sizing and budgets\<close>

record pool_constants =
  pc_workers :: int
  pc_base_memory_mb :: real
  pc_bytes_per_cell :: real
  pc_headroom_pct :: real
  pc_sharing_sequential :: bool
  pc_group_time_limit_s :: int
  pc_grace_s :: int
  pc_group_min_s :: int
  pc_feedback :: feedback_constants
  pc_cluster :: cluster_constants

record pool_sizing =
  ps_n_workers :: int
  ps_cpu_cap :: int
  ps_memory_cap :: "int option"
  ps_available_mb :: "real option"
  ps_estimated_mb :: real
  ps_explicit :: bool

definition model_size :: "cluster_job list \<Rightarrow> nat \<times> nat" where
  "model_size clusters =
     fold (\<lambda>c (nodes, vehicles).
       let n = length (allocated_prime_related c) in
       (max nodes (length (task_ids c) + 1), max vehicles (if n = 0 then 1 else n))) clusters (1, 1)"

definition estimate_worker_memory_mb :: "pool_constants \<Rightarrow> memory_feedback option \<Rightarrow> cluster_job list \<Rightarrow> real" where
  "estimate_worker_memory_mb pc stored clusters =
     (case model_size clusters of (nodes, vehicles) \<Rightarrow>
       let cells = real (nodes * nodes * (vehicles + 1));
           estimated = (case calibrated_memory_model (pc_feedback pc) stored of
              Some (base_mb, mb_per_cell) \<Rightarrow> base_mb + mb_per_cell * cells
            | None \<Rightarrow> pc_base_memory_mb pc + cells * pc_bytes_per_cell pc / (1024 * 1024))
       in calibrated_worker_memory_mb (pc_feedback pc) stored estimated)"

text \<open>\<open>None\<close> is the \<open>ZeroDivisionError\<close> of a zero estimate. \<open>cpu\<close> is \<open>os.cpu_count() or 1\<close>,
  \<open>available\<close> the measured free memory.\<close>

definition compute_pool_sizing ::
  "pool_constants \<Rightarrow> int \<Rightarrow> real option \<Rightarrow> memory_feedback option \<Rightarrow> cluster_job list \<Rightarrow> pool_sizing option" where
  "compute_pool_sizing pc cpu available stored clusters =
     (let estimated = estimate_worker_memory_mb pc stored clusters in
      if pc_workers pc > 0 then
        Some \<lparr>ps_n_workers = max 1 (min (int (length clusters)) (pc_workers pc)), ps_cpu_cap = cpu, ps_memory_cap = None,
              ps_available_mb = None, ps_estimated_mb = estimated, ps_explicit = True\<rparr>
      else if available \<noteq> None \<and> estimated = 0 then None
      else
        let memory_cap = (case available of None \<Rightarrow> None
              | Some mb \<Rightarrow> Some (max 1 (py_int (mb * (1 - pc_headroom_pct pc / 100) / estimated))))
        in Some \<lparr>ps_n_workers = max 1 (min (int (length clusters))
                    (min cpu (case memory_cap of None \<Rightarrow> cpu | Some m \<Rightarrow> m))),
                 ps_cpu_cap = cpu, ps_memory_cap = memory_cap, ps_available_mb = available,
                 ps_estimated_mb = estimated, ps_explicit = False\<rparr>)"

definition cluster_limit_s :: "pool_constants \<Rightarrow> solve_args \<Rightarrow> int" where
  "cluster_limit_s pc sa = (case sa_time_limit_s sa of None \<Rightarrow> cc_solve_time_limit_s (pc_cluster pc) | Some l \<Rightarrow> l)"

text \<open>Rounds of workers plus one, each with the solve limit, the LNS budget and the grace.\<close>

definition overall_timeout_s :: "pool_constants \<Rightarrow> solve_args \<Rightarrow> int \<Rightarrow> int \<Rightarrow> nat \<Rightarrow> int" where
  "overall_timeout_s pc sa n_workers lns_budget_s n_clusters =
     ((int n_clusters + n_workers - 1) div n_workers + 1)
       * (cluster_limit_s pc sa + lns_budget_s + pc_grace_s pc)"

definition assign_lns_budgets ::
  "pool_constants \<Rightarrow> lns_feedback option \<Rightarrow> int option \<Rightarrow> cluster_job list \<Rightarrow> cluster_job list \<times> int" where
  "assign_lns_budgets pc stored lns_time_limit_s clusters =
     (let cc = pc_cluster pc;
          base = (case lns_time_limit_s of Some l \<Rightarrow> l | None \<Rightarrow> if cc_lns_enabled cc then cc_lns_time_limit_s cc else 0) in
      if base \<le> 0 then (clusters, 0)
      else
        let multiplier = lns_budget_multiplier (pc_feedback pc) stored;
            budget = max 1 (round_half_even (real_of_int base * multiplier));
            stamped = (\<lambda>c. \<not> total_penalty_per_day c < cc_lns_min_penalty cc)
        in (map (\<lambda>c. if stamped c then c\<lparr>cj_lns_time_limit_s := budget\<rparr> else c) clusters,
            fold (\<lambda>c m. if stamped c then max m budget else m) clusters 0))"

subsection \<open>The parallel batch\<close>

datatype 'r future_end = Returned 'r | Raised string

record 'r pool_run =
  pr_yields :: "(nat \<times> 'r future_end) list"
  pr_timed_out :: bool
  pr_finished :: "nat \<Rightarrow> bool"

text \<open>The executor gets the worker count, the work of the \<open>n\<close> futures and the timeout.\<close>

type_synonym 'r executor = "int \<Rightarrow> (nat \<Rightarrow> 'r) \<Rightarrow> nat \<Rightarrow> int \<Rightarrow> 'r pool_run"

type_synonym outcome = "package list \<times> infeasible list \<times> solve_record list"

definition join :: "outcome \<Rightarrow> outcome \<Rightarrow> outcome" where
  "join x y = (case (x, y) of ((ps, is, rs), (ps', is', rs')) \<Rightarrow> (ps @ ps', is @ is', rs @ rs'))"

definition outcome_of :: "solve_result \<Rightarrow> outcome" where
  "outcome_of r = (case r of (ps, is, rec) \<Rightarrow> (ps, is, [rec]))"

definition crashed :: "cluster_job \<Rightarrow> string \<Rightarrow> outcome" where
  "crashed cd msg =
     ([], mark_all_infeasible (cluster_spec.truncate cd) UNKNOWN (WorkerCrashed msg),
      [(blank_record (cluster_id cd) ''worker_error'' (length (task_ids cd)))\<lparr>so_detail := Some (WorkerCrashed msg)\<rparr>])"

definition stalled :: "int \<Rightarrow> cluster_job \<Rightarrow> outcome" where
  "stalled timeout_s cd =
     ([], mark_all_infeasible (cluster_spec.truncate cd) OPTIMIZATION_TRADEOFF (NotCompletedWithin timeout_s),
      [(blank_record (cluster_id cd) ''pool_timeout'' (length (task_ids cd)))
         \<lparr>so_hit_time_limit := True, so_time_limit_s := Some timeout_s, so_detail := Some (NotCompletedWithin timeout_s)\<rparr>])"

text \<open>
  The loop over \<open>as_completed\<close>, which both pools run: a yielded future gives its result or, when it
  raised, a crash record; after the timeout the futures that are not done are recorded as stalled.
\<close>

definition gathered ::
  "('r \<Rightarrow> outcome) \<Rightarrow> (nat \<Rightarrow> string \<Rightarrow> outcome) \<Rightarrow> (nat \<Rightarrow> outcome) \<Rightarrow> nat \<Rightarrow> 'r pool_run \<Rightarrow> outcome" where
  "gathered result crash stall n run =
     fold (\<lambda>x acc. join acc x)
       (map (\<lambda>(i, e). case e of Returned r \<Rightarrow> result r | Raised msg \<Rightarrow> crash i msg) (pr_yields run)
        @ (if pr_timed_out run then map stall (filter (\<lambda>i. \<not> pr_finished run i) [0..<n]) else []))
       ([], [], [])"

type_synonym cluster_solve = "cluster_job \<Rightarrow> (string, interval list) dict \<Rightarrow> int option \<Rightarrow> solve_result"

definition solve_parallel_batch ::
  "pool_constants \<Rightarrow> int \<Rightarrow> real option \<Rightarrow> memory_feedback option \<Rightarrow> solve_result executor \<Rightarrow> cluster_solve \<Rightarrow> solve_args
   \<Rightarrow> cluster_job list \<Rightarrow> int \<Rightarrow> outcome option" where
  "solve_parallel_batch pc cpu available stored pool solve sa clusters lns_budget_s =
     (if clusters = [] then Some ([], [], [])
      else case compute_pool_sizing pc cpu available stored clusters of
        None \<Rightarrow> None
      | Some sizing \<Rightarrow>
          let n = length clusters;
              timeout_s = overall_timeout_s pc sa (ps_n_workers sizing) lns_budget_s n;
              work = (\<lambda>i. solve (clusters ! i) (sa_held sa) (sa_time_limit_s sa))
          in Some (gathered outcome_of (\<lambda>i. crashed (clusters ! i)) (\<lambda>i. stalled timeout_s (clusters ! i)) n
               (pool (ps_n_workers sizing) work n timeout_s)))"

subsection \<open>Operator-sharing groups\<close>

definition cluster_budget_weight :: "cluster_job \<Rightarrow> real" where
  "cluster_budget_weight cd =
     max 1 (total_penalty_per_day cd)
       * real (max 1 (length (task_ids cd)) * (max 1 (length (allocated_prime_related cd)) + 1))"

definition group_budgets :: "pool_constants \<Rightarrow> int \<Rightarrow> cluster_job list \<Rightarrow> (string, int) dict" where
  "group_budgets pc per_cluster_limit ordered =
     (if pc_group_time_limit_s pc \<le> 0
      then fold (\<lambda>cd. AList.update (cluster_id cd) per_cluster_limit) ordered []
      else
        let s = sum_list (map cluster_budget_weight ordered);
            total = (if s = 0 then real (length ordered) else s)
        in fold (\<lambda>cd. AList.update (cluster_id cd)
             (max (pc_group_min_s pc) (py_int (real_of_int (pc_group_time_limit_s pc) * cluster_budget_weight cd / total))))
           ordered [])"

definition operator_intervals :: "package list \<Rightarrow> (string, interval list) dict" where
  "operator_intervals packages =
     fold (\<lambda>p d. if pk_operator_asset_id p \<noteq> '''' \<and> pk_end p > pk_start p
                 then dappend (pk_operator_asset_id p) (pk_start p, pk_end p) d else d) packages []"

definition extend_dict :: "(string, interval list) dict \<Rightarrow> (string, interval list) dict \<Rightarrow> (string, interval list) dict" where
  "extend_dict d e = fold (\<lambda>(k, ws) d. AList.update k (dget_default d k [] @ ws) d) e d"

definition merge_held_windows :: "(string, interval list) dict \<Rightarrow> (string, interval list) dict \<Rightarrow> (string, interval list) dict" where
  "merge_held_windows base extra = (if extra = [] then base else extend_dict base extra)"

text \<open>\<open>_solve_group\<close>: the intervals of the shared operators are held against the clusters that follow.\<close>

fun solve_group ::
  "cluster_solve \<Rightarrow> (string, interval list) dict \<Rightarrow> (string, int) dict \<Rightarrow> (string, interval list) dict
   \<Rightarrow> cluster_job list \<Rightarrow> (cluster_job \<times> solve_result) list" where
  "solve_group solve base_held budgets operator_held [] = []"
| "solve_group solve base_held budgets operator_held (cd # cds) =
     (let r = solve cd (merge_held_windows base_held operator_held) (map_of budgets (cluster_id cd));
          shared = filter (\<lambda>(x, ws). x \<in> set (shared_backup_operators cd)) (operator_intervals (fst r))
      in (cd, r) # solve_group solve base_held budgets (extend_dict operator_held shared) cds)"

definition group_outcome :: "(cluster_job \<times> solve_result) list \<Rightarrow> outcome" where
  "group_outcome rs = fold (\<lambda>(cd, r) acc. join acc (outcome_of r)) rs ([], [], [])"

definition mark_group_failed :: "cluster_job list \<Rightarrow> detail \<Rightarrow> outcome" where
  "mark_group_failed ordered d =
     ([], concat (map (\<lambda>cd. mark_all_infeasible (cluster_spec.truncate cd) UNKNOWN d) ordered),
      map (\<lambda>cd. (blank_record (cluster_id cd) ''worker_error'' (length (task_ids cd)))\<lparr>so_detail := Some d\<rparr>) ordered)"

definition groups_timeout_s :: "pool_constants \<Rightarrow> (cluster_job list \<times> (string, int) dict) list \<Rightarrow> int" where
  "groups_timeout_s pc prepared =
     (Max (set (map (\<lambda>(ordered, budgets). sum_list (map snd budgets)) prepared)) + pc_grace_s pc)
       * (int (length prepared) + 1)"

definition solve_groups_parallel ::
  "int \<Rightarrow> pool_constants \<Rightarrow> cluster_solve \<Rightarrow> outcome executor \<Rightarrow> (string, interval list) dict
   \<Rightarrow> (cluster_job list \<times> (string, int) dict) list \<Rightarrow> outcome" where
  "solve_groups_parallel cpu pc solve pool held prepared =
     (let n = length prepared; timeout_s = groups_timeout_s pc prepared;
          work = (\<lambda>i. group_outcome (solve_group solve held (snd (prepared ! i)) [] (fst (prepared ! i))))
      in gathered id (\<lambda>i msg. mark_group_failed (fst (prepared ! i)) (WorkerCrashed msg))
           (\<lambda>i. mark_group_failed (fst (prepared ! i)) (GroupNotCompletedWithin timeout_s)) n
           (pool (max 1 (min (int n) cpu)) work n timeout_s))"

text \<open>\<open>_solve_sequential_groups\<close>: most valuable cluster first, ties by id.\<close>

definition value_order :: "cluster_job list \<Rightarrow> cluster_job list" where
  "value_order cds = sort_key (\<lambda>cd. - total_penalty_per_day cd) (sort_key cluster_id cds)"

definition prepare_group ::
  "pool_constants \<Rightarrow> int \<Rightarrow> (string, cluster_job) dict \<Rightarrow> string list \<Rightarrow> cluster_job list \<times> (string, int) dict" where
  "prepare_group pc per_cluster_limit by_id grp =
     (let ordered = value_order (List.map_filter (map_of by_id) grp) in
      (ordered, group_budgets pc per_cluster_limit ordered))"

definition solve_sequential_groups ::
  "int \<Rightarrow> pool_constants \<Rightarrow> cluster_solve \<Rightarrow> outcome executor \<Rightarrow> solve_args \<Rightarrow> (string, cluster_job) dict \<Rightarrow> string list list
   \<Rightarrow> outcome" where
  "solve_sequential_groups cpu pc solve pool sa by_id groups =
     (let prepared = map (prepare_group pc (cluster_limit_s pc sa) by_id) groups in
      case prepared of
        [(ordered, budgets)] \<Rightarrow> group_outcome (solve_group solve (sa_held sa) budgets [] ordered)
      | _ \<Rightarrow> solve_groups_parallel cpu pc solve pool (sa_held sa) prepared)"

text \<open>\<open>pool_solve\<close> with the retained feedback, which the run's solve records update.\<close>

definition pool_solve ::
  "pool_constants \<Rightarrow> int \<Rightarrow> real option \<Rightarrow> feedback_store \<Rightarrow> cluster_solve \<Rightarrow> solve_result executor \<Rightarrow> outcome executor
   \<Rightarrow> solve_args \<Rightarrow> int option \<Rightarrow> cluster_job list \<Rightarrow> (outcome \<times> feedback_store) option" where
  "pool_solve pc cpu available store solve pool group_pool sa lns_time_limit_s clusters =
     (if clusters = [] then Some (([], [], []), store)
      else case assign_lns_budgets pc (fs_lns store) lns_time_limit_s clusters of (cds, lns_budget_s) \<Rightarrow>
        (case (if pc_sharing_sequential pc then operator_sharing_groups cds else Some []) of
           None \<Rightarrow> None
         | Some groups \<Rightarrow>
             let independent = filter (\<lambda>cd. cluster_id cd \<notin> set (concat groups)) cds in
             (case solve_parallel_batch pc cpu available (fs_memory store) pool solve sa independent lns_budget_s of
                None \<Rightarrow> None
              | Some batch \<Rightarrow>
                  let out = (if groups = [] then batch
                             else join batch (solve_sequential_groups cpu pc solve group_pool sa (dict_by cluster_id cds) groups))
                  in Some (out, record_solver_feedback (pc_feedback pc) (snd (snd out)) store))))"

subsection \<open>Feeding operator intervals forward\<close>

lemma extend_dict_windows:
  "set (dget_default (extend_dict d e) x []) = set (dget_default d x []) \<union> \<Union> {set ws | ws. (x, ws) \<in> set e}"
proof (induction e arbitrary: d)
  case (Cons kw e)
  obtain k ws where kw: "kw = (k, ws)" by fastforce
  have "set (dget_default (extend_dict d (kw # e)) x [])
      = set (dget_default (AList.update k (dget_default d k [] @ ws) d) x []) \<union> \<Union> {set ws | ws. (x, ws) \<in> set e}"
    using Cons.IH [of "AList.update k (dget_default d k [] @ ws) d"] by (simp add: extend_dict_def kw)
  also have "set (dget_default (AList.update k (dget_default d k [] @ ws) d) x [])
      = set (dget_default d x []) \<union> (if k = x then set ws else {})"
    by (auto simp: dget_default_def map_of_update)
  finally show ?case by (auto simp: kw)
qed (simp add: extend_dict_def)

lemma operator_intervals_windows:
  "wf_dict (operator_intervals ps)"
  "set (dget_default (operator_intervals ps) x []) =
     {(pk_start p, pk_end p) | p. p \<in> set ps \<and> pk_operator_asset_id p = x \<and> x \<noteq> '''' \<and> pk_start p < pk_end p}"
proof -
  define f where "f = (\<lambda>(p :: package) d. if pk_operator_asset_id p \<noteq> '''' \<and> pk_end p > pk_start p
      then dappend (pk_operator_asset_id p) (pk_start p, pk_end p) d else (d :: (string, interval list) dict))"
  have "wf_dict d \<Longrightarrow> wf_dict (fold f ps d)" for d
    by (induction ps arbitrary: d) (auto simp: f_def)
  then show "wf_dict (operator_intervals ps)" by (simp add: operator_intervals_def f_def)
  have "set (dget_default (fold f ps d) x []) = set (dget_default d x []) \<union>
     {(pk_start p, pk_end p) | p. p \<in> set ps \<and> pk_operator_asset_id p = x \<and> x \<noteq> '''' \<and> pk_start p < pk_end p}" for d
  proof (induction ps arbitrary: d)
    case (Cons p ps)
    have "set (dget_default (f p d) x []) = set (dget_default d x []) \<union>
        (if pk_operator_asset_id p = x \<and> x \<noteq> '''' \<and> pk_start p < pk_end p then {(pk_start p, pk_end p)} else {})"
      by (auto simp: f_def dget_default_dappend)
    then show ?case unfolding fold_simps comp_apply Cons.IH by auto
  qed simp
  from this [of "[]"] show "set (dget_default (operator_intervals ps) x []) =
     {(pk_start p, pk_end p) | p. p \<in> set ps \<and> pk_operator_asset_id p = x \<and> x \<noteq> '''' \<and> pk_start p < pk_end p}"
    by (simp add: operator_intervals_def f_def dget_default_def [of "[]"])
qed

lemma fed_forward:
  "set (dget_default (extend_dict d (filter (\<lambda>(x, ws). x \<in> S) (operator_intervals ps))) x []) =
     set (dget_default d x []) \<union> (if x \<in> S then {(pk_start p, pk_end p) | p. p \<in> set ps \<and> pk_operator_asset_id p = x
       \<and> x \<noteq> '''' \<and> pk_start p < pk_end p} else {})"
proof -
  have "{ws. (x, ws) \<in> set (operator_intervals ps)} = (case map_of (operator_intervals ps) x of None \<Rightarrow> {} | Some ws \<Rightarrow> {ws})"
    by (auto simp: wf_dict_map_of [OF operator_intervals_windows(1)] split: option.splits)
  then have "\<Union> {set ws | ws. (x, ws) \<in> set (operator_intervals ps)} = set (dget_default (operator_intervals ps) x [])"
    unfolding setcompr_eq_image by (auto simp: dget_default_def split: option.splits)
  then show ?thesis unfolding extend_dict_windows operator_intervals_windows(2) by auto
qed

lemma merged_windows:
  "set (dget_default (merge_held_windows base extra) x []) \<supseteq> set (dget_default base x [])"
  "set (dget_default (merge_held_windows base extra) x []) \<supseteq> set (dget_default extra x [])"
proof -
  show "set (dget_default (merge_held_windows base extra) x []) \<supseteq> set (dget_default base x [])"
    by (simp add: merge_held_windows_def extend_dict_windows)
  show "set (dget_default (merge_held_windows base extra) x []) \<supseteq> set (dget_default extra x [])"
  proof (cases "map_of extra x")
    case (Some ws)
    then have "extra \<noteq> []" "(x, ws) \<in> set extra" by (auto dest: map_of_SomeD)
    moreover have "dget_default extra x [] = ws" by (simp add: dget_default_def Some)
    ultimately show ?thesis by (auto simp: merge_held_windows_def extend_dict_windows)
  qed (simp add: dget_default_def)
qed

subsection \<open>The contract of a cluster solver\<close>

text \<open>Every known task of the clusters is accounted for, and each cluster has one solve record.\<close>

definition accounts_for :: "(string \<Rightarrow> task_row option) \<Rightarrow> cluster_job list \<Rightarrow> outcome \<Rightarrow> bool" where
  "accounts_for om cds x \<longleftrightarrow>
     mset (map so_cluster_id (snd (snd x))) = mset (map cluster_id cds)
     \<and> accounted om (\<Union>cd\<in>set cds. set (task_ids cd)) (d_task_id ` set (fst x)) (set (map inf_task_id (fst (snd x))))"

lemma accounts_for_Nil: "accounts_for om [] ([], [], [])"
  by (simp add: accounts_for_def accounted_def)

lemma accounts_for_join:
  assumes "accounts_for om cds x" "accounts_for om cds' y"
  shows "accounts_for om (cds @ cds') (join x y)"
proof -
  obtain ps es rs ps' es' rs' where xy: "x = (ps, es, rs)" "y = (ps', es', rs')" by (metis prod_cases3)
  have "accounted om (\<Union>cd\<in>set cds. set (task_ids cd)) (d_task_id ` set (ps @ ps')) (set (map inf_task_id (es @ es')))"
    by (rule accounted_mono [of om _ "d_task_id ` set ps" "set (map inf_task_id es)"])
      (use assms(1) in \<open>auto simp: accounts_for_def xy\<close>)
  moreover have "accounted om (\<Union>cd\<in>set cds'. set (task_ids cd)) (d_task_id ` set (ps @ ps')) (set (map inf_task_id (es @ es')))"
    by (rule accounted_mono [of om _ "d_task_id ` set ps'" "set (map inf_task_id es')"])
      (use assms(2) in \<open>auto simp: accounts_for_def xy\<close>)
  ultimately show ?thesis
    using assms unfolding accounts_for_def by (simp add: xy join_def accounted_Un)
qed

lemma accounts_for_perm: "mset cds = mset cds' \<Longrightarrow> accounts_for om cds x \<Longrightarrow> accounts_for om cds' x"
  unfolding accounts_for_def by (metis mset_eq_setD mset_map)

lemma accounts_for_fold:
  "accounts_for om cds x \<Longrightarrow> list_all2 (accounts_for om) css xs \<Longrightarrow>
     accounts_for om (cds @ concat css) (fold (\<lambda>x acc. join acc x) xs x)"
proof (induction css xs arbitrary: cds x rule: list_induct2')
  case (4 cs css y ys)
  then show ?case using accounts_for_join [of om cds x cs y] by fastforce
qed auto

lemma crashed_accounts: "accounts_for om [cd] (crashed cd msg)" "accounts_for om [cd] (stalled t cd)"
  by (simp_all add: accounts_for_def crashed_def stalled_def blank_record_def cluster_spec.truncate_def accounted_all)

lemma group_failed_accounts: "accounts_for om cds (mark_group_failed cds d)"
proof -
  have "map inf_task_id (concat (map (\<lambda>cd. mark_all_infeasible (cluster_spec.truncate cd) UNKNOWN d) cds)) = concat (map task_ids cds)"
    by (simp add: map_concat o_def)
  then show ?thesis
    by (simp add: accounts_for_def mark_group_failed_def blank_record_def o_def accounted_all)
qed

text \<open>
  What the pool relies on: a solve accounts for its tasks and signs its record, keeps a package's
  operator out of the held windows as far as the horizon, and ends inside the horizon.
\<close>

locale cluster_solver =
  fixes solve :: cluster_solve and om :: "string \<Rightarrow> task_row option" and horizon :: int
  assumes accounts: "accounts_for om [cd] (outcome_of (solve cd held limit))"
    and respects: "solve cd held limit = (ps, infs, rec) \<Longrightarrow> pk \<in> set ps \<Longrightarrow> pk_operator_asset_id pk = x \<Longrightarrow> x \<noteq> '''' \<Longrightarrow>
      (a, b) \<in> set (dget_default held x []) \<Longrightarrow> busy pk \<inter> {a..<min b horizon} = {}"
    and inside: "solve cd held limit = (ps, infs, rec) \<Longrightarrow> pk \<in> set ps \<Longrightarrow> pk_end pk \<le> horizon"
begin

lemma operator_clear:
  assumes "solve cd held limit = (ps, infs, rec)" "pk \<in> set ps" "pk_operator_asset_id pk = x" "x \<noteq> ''''"
    and "(a, b) \<in> set (dget_default held x [])"
  shows "busy pk \<inter> {a..<b} = {}"
proof -
  have "busy pk \<inter> {a..<min b horizon} = {}" by (rule respects [OF assms])
  moreover have "busy pk \<inter> {a..<b} \<subseteq> busy pk \<inter> {a..<min b horizon}" using inside [OF assms(1,2)] by (auto simp: busy_def)
  ultimately show ?thesis by blast
qed

lemma group_respects:
  assumes "(cd, ps, infs, rec) \<in> set (solve_group solve base budgets operator_held cds)"
    and "pk \<in> set ps" "pk_operator_asset_id pk = x" "x \<noteq> ''''"
    and "(a, b) \<in> set (dget_default base x []) \<union> set (dget_default operator_held x [])"
  shows "busy pk \<inter> {a..<b} = {}"
  using assms(1,5)
proof (induction cds arbitrary: operator_held)
  case (Cons c cds)
  obtain ps' infs' rec' where r: "solve c (merge_held_windows base operator_held) (map_of budgets (cluster_id c)) = (ps', infs', rec')"
    by (metis prod_cases3)
  let ?held = "extend_dict operator_held (filter (\<lambda>(x, ws). x \<in> set (shared_backup_operators c)) (operator_intervals ps'))"
  consider "cd = c" "ps = ps'" "infs = infs'" "rec = rec'" | "(cd, ps, infs, rec) \<in> set (solve_group solve base budgets ?held cds)"
    using Cons.prems(1) by (auto simp: Let_def r)
  then show ?case
  proof cases
    case 1
    have "(a, b) \<in> set (dget_default (merge_held_windows base operator_held) x [])"
      using Cons.prems(2) merged_windows by blast
    then show ?thesis using operator_clear [OF r [folded 1] assms(2-4)] by blast
  next
    case 2
    show ?thesis
      by (rule Cons.IH [OF 2]) (use Cons.prems(2) fed_forward in blast)
  qed
qed simp

lemma group_serial:
  "sorted_wrt (\<lambda>(cd, ps, _) (cd', ps', _). \<forall>p\<in>set ps. \<forall>q\<in>set ps'.
      pk_operator_asset_id p \<in> set (shared_backup_operators cd) \<longrightarrow> pk_operator_asset_id p \<noteq> '''' \<longrightarrow>
      pk_operator_asset_id q = pk_operator_asset_id p \<longrightarrow> busy p \<inter> busy q = {})
    (solve_group solve base budgets operator_held cds)"
proof (induction cds arbitrary: operator_held)
  case (Cons c cds)
  obtain ps infs rec where r: "solve c (merge_held_windows base operator_held) (map_of budgets (cluster_id c)) = (ps, infs, rec)"
    by (metis prod_cases3)
  let ?held = "extend_dict operator_held (filter (\<lambda>(x, ws). x \<in> set (shared_backup_operators c)) (operator_intervals ps))"
  have "busy p \<inter> busy q = {}"
    if p: "p \<in> set ps" "pk_operator_asset_id p \<in> set (shared_backup_operators c)" "pk_operator_asset_id p \<noteq> ''''"
      and q: "(cd, qs, js, rec') \<in> set (solve_group solve base budgets ?held cds)" "q \<in> set qs"
        "pk_operator_asset_id q = pk_operator_asset_id p" for p q cd qs js rec'
  proof (cases "pk_start p < pk_end p")
    case True
    then have "(pk_start p, pk_end p) \<in> set (dget_default ?held (pk_operator_asset_id p) [])"
      unfolding fed_forward using p by auto
    then have "busy q \<inter> {pk_start p..<pk_end p} = {}"
      using group_respects [OF q] p(3) by blast
    then show ?thesis by (auto simp: busy_def)
  qed (simp add: busy_def)
  then show ?case using Cons.IH [of ?held] by (fastforce simp: Let_def r)
qed simp

lemma group_accounts:
  "list_all2 (accounts_for om) (map (\<lambda>cd. [cd]) cds) (map (\<lambda>(cd, r). outcome_of r) (solve_group solve base budgets operator_held cds))"
  by (induction cds arbitrary: operator_held) (simp_all add: Let_def accounts)

lemma group_outcome_accounts: "accounts_for om cds (group_outcome (solve_group solve base budgets operator_held cds))"
proof -
  have "group_outcome rs = fold (\<lambda>x acc. join acc x) (map (\<lambda>(cd, r). outcome_of r) rs) ([], [], [])" for rs
    by (simp add: group_outcome_def fold_map o_def case_prod_beta')
  then show ?thesis using accounts_for_fold [OF accounts_for_Nil group_accounts] by (simp add: concat_map_singleton)
qed

end


subsection \<open>The executor\<close>

text \<open>
  The documented behaviour of \<open>concurrent.futures\<close>: \<open>as_completed\<close> yields each future once and only
  when it is done, a future that returned carries its call's value, and without a timeout every
  future is yielded.
\<close>

definition executor_sound :: "'r executor \<Rightarrow> bool" where
  "executor_sound pool \<longleftrightarrow> (\<forall>workers work n timeout_s. let run = pool workers work n timeout_s in
     distinct (map fst (pr_yields run))
     \<and> (\<forall>(i, e)\<in>set (pr_yields run). i < n \<and> pr_finished run i \<and> (case e of Returned r \<Rightarrow> r = work i | Raised _ \<Rightarrow> True))
     \<and> (\<not> pr_timed_out run \<longrightarrow> {..<n} \<subseteq> fst ` set (pr_yields run)))"

text \<open>No future finishes between the last yield and the timeout's pass over the futures.\<close>

definition none_missed :: "'r executor \<Rightarrow> bool" where
  "none_missed pool \<longleftrightarrow> (\<forall>workers work n timeout_s. let run = pool workers work n timeout_s in
     \<forall>i<n. pr_finished run i \<longrightarrow> i \<in> fst ` set (pr_yields run))"

lemma gathered_indices:
  assumes "executor_sound pool" "none_missed pool"
  shows "mset (map fst (pr_yields (pool w work n t))
    @ (if pr_timed_out (pool w work n t) then filter (\<lambda>i. \<not> pr_finished (pool w work n t) i) [0..<n] else [])) = mset [0..<n]"
proof -
  let ?run = "pool w work n t"
  have run: "distinct (map fst (pr_yields ?run))" "\<And>i. i \<in> fst ` set (pr_yields ?run) \<Longrightarrow> i < n \<and> pr_finished ?run i"
      "\<not> pr_timed_out ?run \<Longrightarrow> {..<n} \<subseteq> fst ` set (pr_yields ?run)"
    using assms(1) unfolding executor_sound_def Let_def by fastforce+
  have missed: "i < n \<Longrightarrow> pr_finished ?run i \<Longrightarrow> i \<in> fst ` set (pr_yields ?run)" for i
    using assms(2) unfolding none_missed_def Let_def by blast
  let ?is = "map fst (pr_yields ?run) @ (if pr_timed_out ?run then filter (\<lambda>i. \<not> pr_finished ?run i) [0..<n] else [])"
  have "distinct ?is" using run(1,2) by auto
  moreover have "set ?is = {..<n}"
  proof
    show "set ?is \<subseteq> {..<n}" using run(2) by (auto split: if_splits)
    show "{..<n} \<subseteq> set ?is" using run(3) missed by (cases "pr_timed_out ?run") auto
  qed
  ultimately show ?thesis by (subst set_eq_iff_mset_eq_distinct [symmetric]) auto
qed

lemma gathered_accounts:
  assumes "executor_sound pool" "none_missed pool"
    and "\<And>i. i < n \<Longrightarrow> accounts_for om (part i) (result (work i))"
    and "\<And>i msg. i < n \<Longrightarrow> accounts_for om (part i) (crash i msg)" "\<And>i. i < n \<Longrightarrow> accounts_for om (part i) (stall i)"
  shows "accounts_for om (concat (map part [0..<n])) (gathered result crash stall n (pool w work n t))"
proof -
  let ?run = "pool w work n t"
  let ?late = "if pr_timed_out ?run then filter (\<lambda>i. \<not> pr_finished ?run i) [0..<n] else []"
  have run: "\<And>i e. (i, e) \<in> set (pr_yields ?run) \<Longrightarrow> i < n \<and> (case e of Returned r \<Rightarrow> r = work i | Raised _ \<Rightarrow> True)"
    using assms(1) unfolding executor_sound_def Let_def by fastforce
  have "list_all2 (accounts_for om) (map part (map fst (pr_yields ?run) @ ?late))
    (map (\<lambda>(i, e). case e of Returned r \<Rightarrow> result r | Raised msg \<Rightarrow> crash i msg) (pr_yields ?run) @ map stall ?late)"
    unfolding map_append
  proof (rule list_all2_appendI)
    have "accounts_for om (part i) (case e of Returned r \<Rightarrow> result r | Raised msg \<Rightarrow> crash i msg)"
      if "(i, e) \<in> set (pr_yields ?run)" for i e
      using run [OF that] assms(3,4) by (cases e) auto
    then show "list_all2 (accounts_for om) (map part (map fst (pr_yields ?run)))
        (map (\<lambda>(i, e). case e of Returned r \<Rightarrow> result r | Raised msg \<Rightarrow> crash i msg) (pr_yields ?run))"
      by (auto simp: list_all2_conv_all_nth split_beta)
    show "list_all2 (accounts_for om) (map part ?late) (map stall ?late)"
      using assms(5) by (auto simp: list_all2_conv_all_nth dest: nth_mem split: if_splits)
  qed
  from accounts_for_fold [OF accounts_for_Nil this]
  have acc: "accounts_for om (concat (map part (map fst (pr_yields ?run) @ ?late))) (gathered result crash stall n ?run)"
    by (cases "pr_timed_out ?run") (simp_all add: gathered_def)
  have "mset (concat (map part xs)) = \<Sum>\<^sub># (image_mset (mset \<circ> part) (mset xs))" for xs :: "nat list"
    by (induction xs) auto
  then have "mset xs = mset ys \<Longrightarrow> mset (concat (map part xs)) = mset (concat (map part ys))" for xs ys by simp
  note this [OF gathered_indices [OF assms(1,2), of w work n t]]
  from accounts_for_perm [OF this acc] show ?thesis .
qed

subsection \<open>The pool accounts for every task\<close>

lemma lns_budgets_keep:
  "map cluster_id (fst (assign_lns_budgets pc stored l cds)) = map cluster_id cds"
  "map task_ids (fst (assign_lns_budgets pc stored l cds)) = map task_ids cds"
  by (auto simp: assign_lns_budgets_def Let_def o_def)

lemma accounts_for_cong:
  "map cluster_id cds = map cluster_id cds' \<Longrightarrow> map task_ids cds = map task_ids cds' \<Longrightarrow> accounts_for om cds x = accounts_for om cds' x"
proof -
  assume "map cluster_id cds = map cluster_id cds'" and t: "map task_ids cds = map task_ids cds'"
  moreover have "(\<Union>cd\<in>set cds. set (task_ids cd)) = (\<Union>ts\<in>set (map task_ids cds). set ts)" for cds :: "cluster_job list" by simp
  ultimately show ?thesis unfolding accounts_for_def by (simp only: t)
qed

lemma dict_by_distinct:
  assumes "distinct (map key xs)"
  shows "map_of (dict_by key xs) k = Some x \<longleftrightarrow> x \<in> set xs \<and> key x = k"
proof -
  have "map_of (fold (\<lambda>x. AList.update (key x) x) xs d) k = Some x
      \<longleftrightarrow> x \<in> set xs \<and> key x = k \<or> k \<notin> key ` set xs \<and> map_of d k = Some x" for d
    using assms by (induction xs arbitrary: d) (auto simp: map_of_update)
  from this [of "[]"] show ?thesis by (simp add: dict_by_def)
qed

lemma group_jobs:
  assumes "distinct (map cluster_id cds)" "distinct xs" "set xs \<subseteq> cluster_id ` set cds"
  shows "mset (List.map_filter (map_of (dict_by cluster_id cds)) xs) = mset (filter (\<lambda>cd. cluster_id cd \<in> set xs) cds)"
proof -
  let ?f = "map_of (dict_by cluster_id cds)"
  note f = dict_by_distinct [OF assms(1)]
  have "distinct (List.map_filter ?f xs)"
    using assms(2)
  proof (induction xs)
    case (Cons x xs)
    have "y \<notin> set (List.map_filter ?f xs)" if "?f x = Some y" for y
      using that f Cons.prems by (auto simp: map_filter_iff)
    with Cons show ?case by (auto simp: List.map_filter_simps split: option.splits)
  qed (simp add: List.map_filter_simps)
  moreover have "distinct (filter (\<lambda>cd. cluster_id cd \<in> set xs) cds)" using assms(1) by (auto simp: distinct_map)
  moreover have "set (List.map_filter ?f xs) = set (filter (\<lambda>cd. cluster_id cd \<in> set xs) cds)"
  proof (intro set_eqI iffI)
    fix x assume "x \<in> set (List.map_filter ?f xs)"
    then show "x \<in> set (filter (\<lambda>cd. cluster_id cd \<in> set xs) cds)" using f by (auto simp: map_filter_iff)
  next
    fix x assume "x \<in> set (filter (\<lambda>cd. cluster_id cd \<in> set xs) cds)"
    then have "?f (cluster_id x) = Some x" "cluster_id x \<in> set xs" using f by auto
    then show "x \<in> set (List.map_filter ?f xs)" by (force simp: map_filter_iff)
  qed
  ultimately show ?thesis by (simp only: set_eq_iff_mset_eq_distinct)
qed

lemma value_order_mset [simp]: "mset (value_order cds) = mset cds"
  by (simp add: value_order_def)

context cluster_solver
begin

lemma batch_accounts:
  assumes "executor_sound pool" "none_missed pool"
    and "solve_parallel_batch pc cpu available stored pool solve sa cds lns = Some out"
  shows "accounts_for om cds out"
proof (cases "cds = []")
  case False
  obtain w t where out: "out = gathered outcome_of (\<lambda>i. crashed (cds ! i)) (\<lambda>i. stalled t (cds ! i)) (length cds)
      (pool w (\<lambda>i. solve (cds ! i) (sa_held sa) (sa_time_limit_s sa)) (length cds) t)"
    using assms(3) False by (auto simp: solve_parallel_batch_def Let_def split: option.splits)
  have "accounts_for om (concat (map (\<lambda>i. [cds ! i]) [0..<length cds])) out"
    unfolding out by (rule gathered_accounts [OF assms(1,2)]) (simp_all add: accounts crashed_accounts)
  moreover have "concat (map (\<lambda>i. [cds ! i]) [0..<length cds]) = cds" by (simp add: concat_map_singleton map_nth)
  ultimately show ?thesis by simp
qed (use assms(3) accounts_for_Nil [of om] in \<open>auto simp: solve_parallel_batch_def\<close>)

lemma groups_account:
  assumes "executor_sound pool" "none_missed pool"
  shows "accounts_for om (concat (map (\<lambda>g. fst (prepare_group pc (cluster_limit_s pc sa) by_id g)) groups))
    (solve_sequential_groups cpu pc solve pool sa by_id groups)"
proof -
  let ?prepared = "map (prepare_group pc (cluster_limit_s pc sa) by_id) groups"
  have par: "accounts_for om (concat (map fst ?prepared)) (solve_groups_parallel cpu pc solve pool (sa_held sa) ?prepared)"
  proof -
    have "accounts_for om (concat (map (\<lambda>i. fst (?prepared ! i)) [0..<length ?prepared]))
        (solve_groups_parallel cpu pc solve pool (sa_held sa) ?prepared)"
      unfolding solve_groups_parallel_def Let_def
      by (rule gathered_accounts [OF assms]) (simp_all only: id_apply group_outcome_accounts group_failed_accounts)
    moreover have "map (\<lambda>i. fst (xs ! i)) [0..<length xs] = map fst xs" for xs :: "(cluster_job list \<times> (string, int) dict) list"
      by (metis (no_types, lifting) length_map map_nth map_map comp_apply map_eq_conv)
    ultimately show ?thesis by metis
  qed
  show ?thesis
  proof (cases "\<exists>pb. ?prepared = [pb]")
    case True
    then obtain cds budgets where one: "?prepared = [(cds, budgets)]" by auto
    then have "accounts_for om (concat (map fst ?prepared)) (solve_sequential_groups cpu pc solve pool sa by_id groups)"
      unfolding solve_sequential_groups_def Let_def one by (simp add: group_outcome_accounts)
    then show ?thesis by (simp add: o_def)
  next
    case False
    then have "solve_sequential_groups cpu pc solve pool sa by_id groups = solve_groups_parallel cpu pc solve pool (sa_held sa) ?prepared"
      unfolding solve_sequential_groups_def Let_def by (auto split: list.splits)
    with par show ?thesis by (simp add: o_def)
  qed
qed

lemma pool_accounts:
  assumes "distinct (map cluster_id clusters)"
    and "executor_sound pool" "none_missed pool" "executor_sound group_pool" "none_missed group_pool"
    and "pool_solve pc cpu available store solve pool group_pool sa lns clusters = Some (out, store')"
  shows "accounts_for om clusters out"
proof (cases "clusters = []")
  case False
  obtain cds budget where ab: "assign_lns_budgets pc (fs_lns store) lns clusters = (cds, budget)" by fastforce
  have ids: "map cluster_id cds = map cluster_id clusters" "map task_ids cds = map task_ids clusters"
    using lns_budgets_keep [of pc "fs_lns store" lns clusters] by (simp_all add: ab)
  have dist: "distinct (map cluster_id cds)" using ids(1) assms(1) by simp
  define groups where "groups = (if pc_sharing_sequential pc then the (operator_sharing_groups cds) else [])"
  have shape: "distinct (concat groups)" "set (concat groups) \<subseteq> cluster_id ` set cds"
    using sharing_groups_shape [OF dist] by (auto simp: groups_def) blast
  let ?ind = "filter (\<lambda>cd. cluster_id cd \<notin> set (concat groups)) cds"
  obtain batch where b: "solve_parallel_batch pc cpu available (fs_memory store) pool solve sa ?ind budget = Some batch"
      "out = (if groups = [] then batch
             else join batch (solve_sequential_groups cpu pc solve group_pool sa (dict_by cluster_id cds) groups))"
  proof -
    have "(if pc_sharing_sequential pc then operator_sharing_groups cds else Some []) = Some groups"
      using sharing_groups_shape [OF dist] by (auto simp: groups_def)
    then show thesis
      using assms(6) False that unfolding pool_solve_def ab by (simp only: if_False prod.case option.case Let_def) (auto split: option.splits)
  qed
  let ?gs = "concat (map (\<lambda>g. fst (prepare_group pc (cluster_limit_s pc sa) (dict_by cluster_id cds) g)) groups)"
  have batch: "accounts_for om ?ind batch" by (rule batch_accounts [OF assms(2,3) b(1)])
  have "accounts_for om (?ind @ ?gs) out"
  proof (cases "groups = []")
    case False
    then show ?thesis using accounts_for_join [OF batch groups_account [OF assms(4,5)]] b(2) by simp
  qed (use batch b(2) in simp)
  moreover have "mset ?gs = mset (filter (\<lambda>cd. cluster_id cd \<in> set (concat groups)) cds)"
  proof -
    have "mset ?gs = mset (List.map_filter (map_of (dict_by cluster_id cds)) (concat groups))"
      by (induction groups) (simp_all add: prepare_group_def Let_def List.map_filter_def)
    then show ?thesis using group_jobs [OF dist shape] by simp
  qed
  then have "mset (?ind @ ?gs) = mset cds" using mset_map_filter_split [of id cds "\<lambda>cd. cluster_id cd \<in> set (concat groups)"] by simp
  ultimately have "accounts_for om cds out" using accounts_for_perm by blast
  then show ?thesis using accounts_for_cong [OF ids] by blast
qed (use assms(6) accounts_for_Nil [of om] in \<open>auto simp: pool_solve_def\<close>)

end


subsection \<open>The cluster solver meets the contract\<close>

lemma record_signed:
  assumes "solve_cluster_instrumented re rss sa cd held limit = (ps, infs, rec)"
  shows "so_cluster_id rec = cluster_id cd"
proof -
  have routed: "so_cluster_id r = cx_cluster_id (rj_context rj)" if "solve_routing_context re rj = Some (p, i, r)" for rj p i r
    using that by (auto simp: solve_routing_context_def read_solution_def blank_record_def Let_def
        split: option.splits solve_end.splits prod.splits)
  have inner: "so_cluster_id r = cluster_id cd" if "solve_cluster_inner re sa cd held limit = Some (p, i, r)" for p i r
  proof (cases "prepare_cluster_context (re_rt re) (cluster_spec.truncate cd) (sa_rows sa) (sa_travel sa) (sa_blocked sa)")
    case (Inl cx)
    then have "cx_cluster_id cx = cluster_id cd" using context_facts(1) by (simp add: cluster_spec.truncate_def)
    then show ?thesis
      using that routed by (fastforce simp: solve_cluster_inner_def Inl job_of_def)
  qed (use that in \<open>auto simp: solve_cluster_inner_def blank_record_def\<close>)
  show ?thesis
  proof (cases "solve_cluster_inner re sa cd held limit")
    case None
    then show ?thesis using assms
      by (auto simp: solve_cluster_instrumented_def Let_def blank_record_def split: option.splits)
  next
    case (Some r)
    then show ?thesis using assms inner
      by (cases r) (auto simp: solve_cluster_instrumented_def Let_def split: option.splits)
  qed
qed

lemma instrumented_plan:
  assumes "solve_cluster_instrumented re rss sa cd held limit = (ps, infs, rec)"
  shows "solve_cluster re rss sa cd held limit = (ps, infs)"
  by (simp add: solve_cluster_def assms)

lemma sound_respects:
  assumes s: "or_tools_sound (re_ort re)" and r: "solve_cluster_instrumented re rss sa cd held limit = (ps, infs, rec)"
    and pk: "pk \<in> set ps"
  shows "pk_operator_asset_id pk = x \<Longrightarrow> x \<noteq> '''' \<Longrightarrow> (a, b) \<in> set (dget_default held x []) \<Longrightarrow>
      busy pk \<inter> {a..<min b (sa_now sa + routing_horizon_s)} = {}"
    "pk_end pk \<le> sa_now sa + routing_horizon_s"
proof -
  obtain cx rj rp q where b: "plan_behind re sa cd held limit ps infs cx rj rp q"
    using no_plan_outcome [OF instrumented_plan [OF r]] pk by fastforce
  obtain v k i where st: "stands_for re cd cx rj rp q pk v k i" using package_of_mem [OF s b pk] by blast
  show "pk_operator_asset_id pk = x \<Longrightarrow> x \<noteq> '''' \<Longrightarrow> (a, b) \<in> set (dget_default held x []) \<Longrightarrow>
      busy pk \<inter> {a..<min b (sa_now sa + routing_horizon_s)} = {}"
    by (rule operator_held_clear [OF s b st])
  show "pk_end pk \<le> sa_now sa + routing_horizon_s" by (rule package_within [OF s b st])
qed

lemma sound_accounts:
  assumes "or_tools_sound (re_ort re)"
  shows "accounts_for (index_orders (sr_orders (sa_rows sa))) [cd] (outcome_of (solve_cluster_instrumented re rss sa cd held limit))"
proof -
  obtain ps infs rec where r: "solve_cluster_instrumented re rss sa cd held limit = (ps, infs, rec)" by (metis prod_cases3)
  show ?thesis
    using cluster_accounted [OF assms instrumented_plan [OF r]] record_signed [OF r]
    by (simp add: accounts_for_def outcome_of_def r)
qed

text \<open>The model's own solver, its tools checked against the posted constraints.\<close>

definition checked_env :: "'g routing_env \<Rightarrow> 'g routing_env" where
  "checked_env re = re\<lparr>re_ort := checked (re_ort re)\<rparr>"

lemma checked_env_sound [simp]: "or_tools_sound (re_ort (checked_env re))"
  by (simp add: checked_env_def)

lemma checked_env_id: "or_tools_sound (re_ort re) \<Longrightarrow> checked_env re = re"
  by (cases re) (simp add: checked_env_def checked_id)

interpretation cw: cluster_solver "solve_cluster_instrumented (checked_env re) rss sa" "index_orders (sr_orders (sa_rows sa))"
    "sa_now sa + routing_horizon_s" for re rss sa
proof (unfold_locales, goal_cases)
  case 1
  show ?case by (rule sound_accounts) simp
next
  case 2
  then show ?case by (rule sound_respects(1) [OF checked_env_sound])
next
  case 3
  then show ?case by (rule sound_respects(2) [OF checked_env_sound])
qed




subsection \<open>Closed instances\<close>

text \<open>The first worker dies, the last one stalls, the others answer in order.\<close>

definition rough_executor :: "'r executor" where
  "rough_executor workers work n timeout_s =
     \<lparr>pr_yields = map (\<lambda>i. (i, if i = 0 then Raised ''killed'' else Returned (work i))) [0..<n - 1],
      pr_timed_out = True, pr_finished = (\<lambda>i. i < n - 1)\<rparr>"

lemma rough_sound: "executor_sound rough_executor" "none_missed rough_executor"
  by (auto simp: executor_sound_def none_missed_def rough_executor_def Let_def image_image distinct_map inj_on_def)

definition sample_pool_constants :: pool_constants where
  "sample_pool_constants =
     \<lparr>pc_workers = 2, pc_base_memory_mb = 256, pc_bytes_per_cell = 64, pc_headroom_pct = 20, pc_sharing_sequential = False,
      pc_group_time_limit_s = 0, pc_grace_s = 30, pc_group_min_s = 5, pc_feedback = sample_feedback_constants,
      pc_cluster = default_constants\<rparr>"

definition sample_store :: feedback_store where
  "sample_store = \<lparr>fs_memory = None, fs_lns = None\<rparr>"

definition sample_clusters :: "cluster_job list" where
  "sample_clusters = [sample_job, sample_job\<lparr>cluster_id := ''c2''\<rparr>, sample_job\<lparr>cluster_id := ''c3''\<rparr>]"

lemma pool_returns:
  "clusters \<noteq> [] \<Longrightarrow> pool_solve sample_pool_constants cpu available store solve pool group_pool sa (Some 0) clusters
     = Some (the (solve_parallel_batch sample_pool_constants cpu available (fs_memory store) pool solve sa clusters 0),
         record_solver_feedback sample_feedback_constants
           (snd (snd (the (solve_parallel_batch sample_pool_constants cpu available (fs_memory store) pool solve sa clusters 0)))) store)"
  by (simp add: pool_solve_def assign_lns_budgets_def sample_pool_constants_def solve_parallel_batch_def compute_pool_sizing_def Let_def)


text \<open>A future that is done but not yet yielded when \<open>as_completed\<close> times out leaves no trace: neither
  its result is read nor is it recorded as stalled.\<close>

definition racing_executor :: "'r executor" where
  "racing_executor workers work n timeout_s = \<lparr>pr_yields = [], pr_timed_out = True, pr_finished = (\<lambda>_. True)\<rparr>"

lemma unseen_future_lost:
  "executor_sound racing_executor
   \<and> solve_parallel_batch sample_pool_constants cpu available stored racing_executor solve sa clusters lns = Some ([], [], [])"
  by (simp add: executor_sound_def racing_executor_def solve_parallel_batch_def compute_pool_sizing_def gathered_def
      sample_pool_constants_def Let_def)

text \<open>Two clusters with one task each for the operator \<open>op1\<close>: the second is kept off the first's interval.\<close>

definition one_stop_plan :: "int \<Rightarrow> routing_plan" where
  "one_stop_plan t =
     \<lparr>pl_routes = [[1]], pl_time = (\<lambda>_. t), pl_depart = (\<lambda>_. 0), pl_return = (\<lambda>_. 3000), pl_load = (\<lambda>_ _. 0),
      pl_load_end = (\<lambda>_ _. 0), pl_objective = 0\<rparr>"

definition shared_env :: "unit routing_env" where
  "shared_env = sample_routing_env\<lparr>re_ort := checked
     \<lparr>ort_solve = (\<lambda>rp _ _. Some (if feasible rp (one_stop_plan 120) then one_stop_plan 120 else one_stop_plan 300)),
      ort_improve = (\<lambda>_ _ _. None), ort_status = (\<lambda>_. ''ROUTING_SUCCESS''), ort_wall_s = (\<lambda>_. 1)\<rparr>\<rparr>"

definition shared_args :: solve_args where
  "shared_args = sample_args\<lparr>sa_blocked := [], sa_rows := (sa_rows sample_args)\<lparr>sr_orders :=
     [sample_task\<lparr>service_duration_min := 1\<rparr>, sample_task\<lparr>task_id := ''B'', service_duration_min := 1\<rparr>]\<rparr>\<rparr>"

definition shared_clusters :: "cluster_job list" where
  "shared_clusters =
     [sample_job\<lparr>task_ids := [''A''], shared_backup_operators := [''op1'']\<rparr>,
      sample_job\<lparr>cluster_id := ''c2'', task_ids := [''B''], shared_backup_operators := [''op1'']\<rparr>]"

definition shared_solved :: "(cluster_job \<times> solve_result) list" where
  "shared_solved = solve_group (solve_cluster_instrumented shared_env (\<lambda>_. None) shared_args) sample_held [] [] shared_clusters"

lemma shared_value:
  "map (\<lambda>(cd, ps, infs, rec). (shared_backup_operators cd,
       map (\<lambda>p. (pk_start p, pk_end p, pk_operator_asset_id p)) ps, length infs)) shared_solved
   = [([''op1''], [(120, 180, ''op1'')], 0), ([''op1''], [(300, 360, ''op1'')], 0)]"
  by code_simp


end
