(* ===== verification/Kpis.thy ===== *)
theory Kpis
  imports Routing
begin

text \<open>
  The KPIs of a schedule (\<open>solver/aggregator.py\<close>): the sums over the dispatch packages, the energy
  tables, the completion and deadline figures, and the margin of the greedy baseline. The packages are
  those of the chain, so every estimate is present; prices are the resolved ones. Writing the report and
  the JSON files is not modelled.
\<close>

subsection \<open>Completion and deadlines\<close>

record completion_kpis =
  total_completion_time_s :: real
  avg_completion_time_s :: real
  p95_completion_time_s :: real
  max_completion_time_s :: real
  n_tasks_with_deadlines :: nat
  n_on_time :: nat
  n_late :: nat
  on_time_rate_pct :: real

text \<open>\<open>_parse_datetime\<close> of a text column: a \<open>Z\<close> is the UTC offset.\<close>

definition parse_datetime :: "runtime \<Rightarrow> string option \<Rightarrow> real option" where
  "parse_datetime rt value =
     (case value of None \<Rightarrow> None
      | Some s \<Rightarrow> if s = '''' then None
                  else fromisoformat rt (concat (map (\<lambda>c. if c = CHR ''Z'' then ''+00:00'' else [c]) s)))"

definition task_finish :: "package list \<Rightarrow> (string, int) dict" where
  "task_finish packages =
     fold (\<lambda>p. if d_task_id p \<noteq> '''' then AList.update (d_task_id p) (pk_end p) else id) packages []"

text \<open>The finished tasks that have a deadline, with the finish and the deadline.\<close>

definition deadline_finishes :: "runtime \<Rightarrow> package list \<Rightarrow> task_row list \<Rightarrow> (int \<times> real) list" where
  "deadline_finishes rt packages orders =
     List.map_filter (\<lambda>(t, finish).
       case Option.bind (index_orders orders t) (\<lambda>order. parse_datetime rt (deadline order)) of
         None \<Rightarrow> None | Some d \<Rightarrow> Some (finish, d)) (task_finish packages)"

definition completion_times :: "package list \<Rightarrow> real \<Rightarrow> real list" where
  "completion_times packages origin = map (\<lambda>p. max 0 (real_of_int (pk_end p) - origin)) packages"

definition p95_index :: "nat \<Rightarrow> nat" where
  "p95_index n = min (n - 1) (nat (round_half_even (95 / 100 * real (n - 1))))"

definition compute_completion_kpis :: "runtime \<Rightarrow> package list \<Rightarrow> task_row list \<Rightarrow> real \<Rightarrow> completion_kpis" where
  "compute_completion_kpis rt packages orders origin =
     (let due = deadline_finishes rt packages orders;
          on_time = length (filter (\<lambda>(finish, d). real_of_int finish \<le> d) due);
          rate = (if due \<noteq> [] then py_round 2 (real on_time / real (length due) * 100) else 0);
          values = sort (completion_times packages origin); n = length values
      in if values = [] then
           \<lparr>total_completion_time_s = 0, avg_completion_time_s = 0, p95_completion_time_s = 0,
            max_completion_time_s = 0, n_tasks_with_deadlines = length due, n_on_time = on_time,
            n_late = length due - on_time, on_time_rate_pct = rate\<rparr>
         else
           \<lparr>total_completion_time_s = py_round 2 (sum_list values),
            avg_completion_time_s = py_round 2 (sum_list values / real n),
            p95_completion_time_s = py_round 2 (values ! p95_index n),
            max_completion_time_s = py_round 2 (last values), n_tasks_with_deadlines = length due,
            n_on_time = on_time, n_late = length due - on_time, on_time_rate_pct = rate\<rparr>)"

subsection \<open>The greedy baseline\<close>

definition greedy_repositioning_cost ::
  "cluster_env \<Rightarrow> runtime \<Rightarrow> score_settings \<Rightarrow> travel_lookup \<Rightarrow> task_row \<Rightarrow> prime_mover_row \<Rightarrow> site_row option \<Rightarrow> real" where
  "greedy_repositioning_cost env rt s L order v field =
     (case field of None \<Rightarrow> 0
      | Some f \<Rightarrow>
          (case (if aggregate L = [] then None
                 else network_seconds_or_none L (pm_home_depot_ref v) (location_ref order) (travel_mode_for_vehicle rt v)) of
             None \<Rightarrow> estimate_repositioning_cost env s v f
           | Some seconds \<Rightarrow>
               real seconds / 3600 * (vehicle_energy_consumption_rate v * energy_price_of s v + operating_of s)
               + ce_geodesic env (pm_lat v, pm_lon v) (site_lat f, site_lon f) * toll_of s))"

definition greedy_baseline_margin ::
  "cluster_env \<Rightarrow> runtime \<Rightarrow> score_settings \<Rightarrow> real \<Rightarrow> real \<Rightarrow> travel_lookup \<Rightarrow> task_row list \<Rightarrow> prime_mover_row list
   \<Rightarrow> related_row list \<Rightarrow> site_row list \<Rightarrow> (string, nat \<times> nat) dict \<Rightarrow> real" where
  "greedy_baseline_margin env rt s fill_ratio material_price L orders vehicles implements sites greedy =
     sum_list (List.map_filter (\<lambda>(t, v, i).
       case index_orders orders t of
         None \<Rightarrow> None
       | Some order \<Rightarrow>
           if length vehicles \<le> v \<or> length implements \<le> i then None
           else
             let vehicle = vehicles ! v; implement = implements ! i;
                 service_hours = real_of_int (estimate_operation_seconds rt order implement) / 3600
             in Some (revenue order
                  - service_hours * vehicle_energy_consumption_rate vehicle * energy_price_of s vehicle
                  - service_hours * operating_of s
                  - material_capacity implement * fill_ratio * material_price
                  - greedy_repositioning_cost env rt s L order vehicle (field_of sites order))) greedy)"

subsection \<open>The KPI record\<close>

record kpis = completion_kpis +
  optimization_objective_kpi :: string
  n_dispatched :: nat
  n_infeasible :: nat
  total_estimated_margin_eur :: real
  greedy_baseline_margin_eur :: real
  solver_improvement_eur :: real
  total_fuel_l :: real
  total_fuel_cost_eur :: real
  total_energy_cost_eur :: real
  total_energy_by_type :: "(string, real) dict"
  total_energy_by_unit :: "(string, real) dict"
  total_fertilizer_kg :: real
  total_material_cost_eur :: real
  total_distance_km :: real
  total_labor_cost_eur :: real
  total_machine_wear_cost_eur :: real
  total_toll_cost_eur :: real
  total_service_fee_eur :: real
  infeasibility_reasons :: "(reason_code, nat) dict"

text \<open>\<open>d[k] = d.get(k, 0.0) + x\<close>, and the table of a sorted dict of rounded values.\<close>

definition add_key :: "'k \<Rightarrow> real \<Rightarrow> ('k, real) dict \<Rightarrow> ('k, real) dict" where
  "add_key k x d = AList.update k (dget_default d k 0 + x) d"

definition energy_table :: "(package \<Rightarrow> string) \<Rightarrow> string \<Rightarrow> package list \<Rightarrow> (string, real) dict" where
  "energy_table key fallback packages =
     map (\<lambda>(k, x). (k, py_round 2 x)) (sort_key fst
       (fold (\<lambda>p. add_key (if key p = '''' then fallback else key p) (pk_energy_quantity p)) packages []))"

definition reason_counts :: "infeasible list \<Rightarrow> (reason_code, nat) dict" where
  "reason_counts infs = fold (\<lambda>i d. AList.update (reason i) (dget_default d (reason i) 0 + 1) d) infs []"

definition compute_kpis ::
  "cluster_env \<Rightarrow> runtime \<Rightarrow> score_settings \<Rightarrow> real \<Rightarrow> real \<Rightarrow> travel_lookup \<Rightarrow> real \<Rightarrow> task_row list \<Rightarrow> prime_mover_row list
   \<Rightarrow> related_row list \<Rightarrow> site_row list \<Rightarrow> (string, nat \<times> nat) dict \<Rightarrow> package list \<Rightarrow> infeasible list \<Rightarrow> kpis" where
  "compute_kpis env rt s fill_ratio material_price L origin orders vehicles implements sites greedy packages infs =
     (let sum_of = (\<lambda>f. sum_list (map f packages));
          baseline = greedy_baseline_margin env rt s fill_ratio material_price L orders vehicles implements sites greedy;
          c = compute_completion_kpis rt packages orders origin
      in completion_kpis.extend c
         \<lparr>optimization_objective_kpi = (if sc_objective s = '''' then ''cost'' else sc_objective s),
          n_dispatched = length packages, n_infeasible = length infs,
          total_estimated_margin_eur = py_round 2 (sum_of pk_margin),
          greedy_baseline_margin_eur = py_round 2 baseline,
          solver_improvement_eur = py_round 2 (sum_of pk_margin - baseline),
          total_fuel_l = py_round 2 (sum_of pk_fuel_l),
          total_fuel_cost_eur = py_round 2 (sum_of pk_fuel_l * sc_fuel_price s),
          total_energy_cost_eur = py_round 2 (sum_of pk_energy_cost),
          total_energy_by_type = energy_table pk_energy_type ''fuel'' packages,
          total_energy_by_unit = energy_table pk_energy_unit ''L'' packages,
          total_fertilizer_kg = py_round 2 (sum_of pk_fertilizer_kg),
          total_material_cost_eur = py_round 2 (sum_of pk_fertilizer_kg * material_price),
          total_distance_km = py_round 2 (sum_of pk_distance_km),
          total_labor_cost_eur = py_round 2 (sum_of pk_labor_cost),
          total_machine_wear_cost_eur = py_round 2 (sum_of pk_wear_cost),
          total_toll_cost_eur = py_round 2 (sum_of pk_toll_cost),
          total_service_fee_eur = py_round 2 (sum_of pk_service_fee),
          infeasibility_reasons = reason_counts infs\<rparr>)"

subsection \<open>The figures are consistent\<close>

lemma task_finish_length: "length (task_finish packages) \<le> length packages"
proof -
  have upd: "length (AList.update k v d) \<le> Suc (length d)" for k :: string and v :: int and d
    by (induction d) auto
  have "length (fold (\<lambda>p. if d_task_id p \<noteq> '''' then AList.update (d_task_id p) (pk_end p) else id) packages d)
      \<le> length packages + length d" for d
  proof (induction packages arbitrary: d)
    case (Cons p ps)
    have step: "length (AList.update (d_task_id p) (pk_end p) d) \<le> Suc (length d)" by (rule upd)
    show ?case
      using Cons [of d] Cons [of "AList.update (d_task_id p) (pk_end p) d"] step by (cases "d_task_id p = ''''") auto
  qed simp
  from this [of "[]"] show ?thesis by (simp add: task_finish_def)
qed

lemma map_filter_length: "length (List.map_filter f xs) \<le> length xs"
  by (induction xs) (auto simp: List.map_filter_simps split: option.splits)

lemma sorted_nth_last: "sorted xs \<Longrightarrow> i < length xs \<Longrightarrow> xs ! i \<le> last xs"
  by (cases xs rule: rev_cases) (auto simp: sorted_append nth_append)

text \<open>The schedule figures are consistent: the tasks on time and late add up to those with a
  deadline, of which there are at most as many as packages; the on-time rate is a percentage; and the
  95th percentile of the completion times is at most their maximum, which is at most their total.
\<close>

theorem completion_kpis_consistent:
  "let k = compute_completion_kpis rt packages orders origin in
    n_on_time k + n_late k = n_tasks_with_deadlines k \<and> n_tasks_with_deadlines k \<le> length packages
    \<and> 0 \<le> on_time_rate_pct k \<and> on_time_rate_pct k \<le> 100
    \<and> 0 \<le> p95_completion_time_s k \<and> p95_completion_time_s k \<le> max_completion_time_s k
    \<and> max_completion_time_s k \<le> total_completion_time_s k"
proof -
  let ?due = "deadline_finishes rt packages orders"
  let ?on = "length (filter (\<lambda>(finish, d). real_of_int finish \<le> d) ?due)"
  have on: "?on \<le> length ?due" by (rule length_filter_le)
  have due: "length ?due \<le> length packages"
    unfolding deadline_finishes_def using map_filter_length task_finish_length le_trans by blast
  have rate: "0 \<le> py_round 2 (real ?on / real (length ?due) * 100) \<and> py_round 2 (real ?on / real (length ?due) * 100) \<le> 100"
  proof
    show "0 \<le> py_round 2 (real ?on / real (length ?due) * 100)" by (rule py_round_nonneg) simp
    have "real ?on / real (length ?due) * 100 \<le> real_of_int 100"
      using on by (cases "length ?due = 0") (auto simp: divide_le_eq)
    from py_round_mono [OF this] show "py_round 2 (real ?on / real (length ?due) * 100) \<le> 100"
      by (metis of_int_numeral py_round_of_int)
  qed
  show ?thesis
  proof (cases "packages = []")
    case True
    then show ?thesis using on due rate
      by (simp add: compute_completion_kpis_def Let_def completion_times_def)
  next
    case False
    let ?v = "sort (completion_times packages origin)"
    have len: "length ?v = length packages" by (simp add: completion_times_def)
    have ne: "?v \<noteq> []" using False len by (metis length_0_conv)
    have i: "p95_index (length ?v) < length ?v"
    proof -
      have "0 < length ?v" using ne by blast
      then have "length ?v - 1 < length ?v" by (rule diff_less [OF zero_less_one])
      then show ?thesis unfolding p95_index_def by (rule min.strict_coboundedI1)
    qed
    have nn: "x \<in> set ?v \<Longrightarrow> 0 \<le> x" for x by (auto simp: completion_times_def)
    have p95: "0 \<le> ?v ! p95_index (length ?v)" "?v ! p95_index (length ?v) \<le> last ?v"
      using nn [OF nth_mem [OF i]] sorted_nth_last [OF sorted_sort i] by simp_all
    have "last ?v \<le> sum_list ?v" by (rule member_le_sum_list [OF last_in_set [OF ne] nn])
    note mono = py_round_nonneg [OF p95(1), of 2] py_round_mono [OF p95(2), of 2] py_round_mono [OF this, of 2]
    show ?thesis
      using on due rate mono ne by (simp add: compute_completion_kpis_def Let_def)
  qed
qed

end
