(* ===== verification/Chain.thy ===== *)
theory Chain
  imports Weather Materials Allocation Pool Kpis
begin

text \<open>
  The solver chain (\<open>solver/chain.py\<close>, \<open>solver/parameters.py\<close>): filters, scoring, clustering, allocation,
  qualification, material admission, the cluster pool, and the settlement of its outcome. Every stage is
  the definition of its own theory; the environment gathers what those definitions take as parameters.
  Timestamps of packages are epoch seconds, which \<open>en_iso\<close> renders. An exception is \<open>None\<close>.
\<close>

subsection \<open>Parameters and rows\<close>

record solver_parameters =
  cluster_target_size :: nat
  score_weight_margin :: real
  score_weight_reposition :: real
  cluster_solve_time_limit_s :: int
  lns_time_limit_s :: int
  rolling_change_penalty :: int
  assignment_count_priority :: real
  optimization_objective :: string

text \<open>\<open>__post_init__\<close>: the objective is lower-cased; \<open>None\<close> is the \<open>ValueError\<close> of an unknown one.\<close>

definition solver_parameters_init :: "solver_parameters \<Rightarrow> solver_parameters option" where
  "solver_parameters_init p =
     (let mode = py_lower (if optimization_objective p = '''' then ''cost'' else optimization_objective p) in
      if mode \<in> {''cost'', ''time''} then Some (p\<lparr>optimization_objective := mode\<rparr>) else None)"

record chain_rows =
  ch_prime_movers :: "prime_mover_row list"
  ch_related :: "related_row list"
  ch_tasks :: "task_row list"
  ch_depots :: "depot_row list"
  ch_sites :: "site_row list"
  ch_operators :: "operator_row list"
  ch_forecasts :: "forecast_row list"
  ch_travel_links :: "travel_link_row list"
  ch_cost_rates :: "cost_rate_row list"

record 'g chain_env =
  en_routing :: "'g routing_env"
  en_shapely :: "'g shapely"
  en_cluster :: cluster_env
  en_alloc :: alloc_config
  en_cp_sat :: "cp_model \<Rightarrow> (cp_var \<Rightarrow> bool) option"
  en_pool :: pool_constants
  en_cpu :: int
  en_memory_mb :: "real option"
  en_rss :: "string \<Rightarrow> real option"
  en_executor :: "solve_result executor"
  en_group_executor :: "outcome executor"
  en_name :: "nat \<Rightarrow> string"
  en_iso :: "int \<Rightarrow> string"
  en_max_nodes :: nat
  en_max_geometry_ratio :: real
  en_min_area_fraction :: real
  en_power_margin_pct :: real
  en_allow_overlap :: bool
  en_default_prices :: resource_prices

record chain_result =
  cr_dispatch :: "package list"
  cr_infeasible :: "infeasible list"
  cr_kpis :: kpis
  cr_greedy :: "(string, nat \<times> nat) dict"
  cr_n_clusters :: nat
  cr_telemetry :: "solve_record list"
  cr_reservations :: "reservation list"

subsection \<open>The stages\<close>

definition resolve_prices :: "runtime \<Rightarrow> cost_rate_row list \<Rightarrow> real \<Rightarrow> resource_prices \<Rightarrow> resource_prices" where
  "resolve_prices rt rates now defaults =
     \<lparr>fuel_eur_per_l = resolve_unit_price rt rates ''fuel'' now (fuel_eur_per_l defaults),
      material_eur_per_kg = resolve_unit_price rt rates ''fertilizer'' now (material_eur_per_kg defaults),
      electricity_eur_per_kwh = resolve_unit_price rt rates ''electricity'' now (electricity_eur_per_kwh defaults),
      labor_eur_per_h = resolve_unit_price rt rates ''labor'' now (labor_eur_per_h defaults),
      wear_eur_per_h = resolve_unit_price rt rates ''machine-wear'' now (wear_eur_per_h defaults),
      toll_eur_per_km = resolve_unit_price rt rates ''toll'' now (toll_eur_per_km defaults),
      service_fee_eur_per_visit = resolve_unit_price rt rates ''service-fee'' now (service_fee_eur_per_visit defaults)\<rparr>"

definition operator_wages :: "operator_row list \<Rightarrow> (string, real) dict" where
  "operator_wages operators =
     fold (\<lambda>p. AList.update (op_asset_id p) (wage_eur_per_h p)) (filter (\<lambda>p. wage_eur_per_h p > 0) operators) []"

definition index_dict :: "('a \<Rightarrow> string) \<Rightarrow> 'a list \<Rightarrow> (string, nat) dict" where
  "index_dict key xs = fold (\<lambda>(i, x). AList.update (key x) i) (enumerate 0 xs) []"

definition id_at :: "(string, nat) dict \<Rightarrow> nat \<Rightarrow> string option" where
  "id_at d i = map_of (rev (map (\<lambda>(k, j). (j, k)) d)) i"

definition location_coords :: "site_row list \<Rightarrow> depot_row list \<Rightarrow> (string, point) dict" where
  "location_coords sites depots =
     fold (\<lambda>(k, p). AList.update k p)
       (map (\<lambda>f. (site_id f, (site_lat f, site_lon f))) sites @ map (\<lambda>d. (depot_id d, (depot_lat d, depot_lon d))) depots) []"

text \<open>Weather, time windows, restrictions and precedence, in this order.\<close>

definition admit_tasks ::
  "'g chain_env \<Rightarrow> chain_rows \<Rightarrow> enforcement_policy \<Rightarrow> real \<Rightarrow> (task_row list \<times> infeasible list \<times> blocked_windows) option" where
  "admit_tasks en rows ep now =
     (let rt = re_rt (en_routing en);
          (kept1, infs1, blocked) = apply_weather_filter rt (ch_tasks rows) (ch_sites rows) (ch_forecasts rows) (ep_weather ep) now;
          (kept2, infs2) = apply_time_window_filter rt kept1 now
      in map_option (\<lambda>(kept3, infs3).
           let infs = infs1 @ infs2 @ infs3;
               (kept4, infs4) = apply_dependency_filter kept3 (inf_task_id ` set infs)
           in (kept4, infs @ infs4, blocked))
         (apply_location_restrictions (en_shapely en) rt (en_min_area_fraction en) kept2 (ch_sites rows) now))"

definition scored_for_cluster_tasks :: "scored_pairs \<Rightarrow> cluster_spec list \<Rightarrow> scored_pairs" where
  "scored_for_cluster_tasks scored clusters =
     (let admitted = concat (map task_ids clusters) in filter (\<lambda>(t, candidates). t \<in> set admitted) scored)"

text \<open>\<open>_collapse_alternative_infeasible\<close>: one record for a group of alternatives none of which is served.\<close>

definition members_by_group :: "task_row list \<Rightarrow> (string, string list) dict" where
  "members_by_group orders =
     fold (\<lambda>t. let g = group_of (index_orders orders) t in if g \<noteq> '''' then dappend g t else id)
       (remdups (map task_id orders)) []"

definition failing_group :: "task_row list \<Rightarrow> infeasible \<Rightarrow> string" where
  "failing_group orders i =
     (let g = group_of (index_orders orders) (inf_task_id i) in
      if g = '''' \<and> inf_task_id i \<in> fst ` set (members_by_group orders) then inf_task_id i else g)"

definition group_failure :: "string \<times> infeasible list \<Rightarrow> infeasible" where
  "group_failure gr =
     (let (g, records) = gr; reasons = remdups (map reason records) in
      mk_infeasible g (inf_cluster_id (hd records)) (if length reasons = 1 then hd reasons else UNKNOWN)
        (NoDeliveryAlternative g (sort (remdups (map inf_task_id records)))))"

definition collapse_alternative_infeasible ::
  "'a dispatch_scheme list \<Rightarrow> infeasible list \<Rightarrow> task_row list \<Rightarrow> infeasible list" where
  "collapse_alternative_infeasible dispatch infeasible orders =
     (if members_by_group orders = [] then infeasible
      else
        let served = (\<lambda>d. group_of (index_orders orders) (d_task_id d)) ` set dispatch - {''''};
            single = filter (\<lambda>i. failing_group orders i = '''') infeasible;
            failures = fold (\<lambda>i. dappend (failing_group orders i) i)
              (filter (\<lambda>i. failing_group orders i \<noteq> '''' \<and> failing_group orders i \<notin> served) infeasible) []
        in single @ map group_failure (sort_key fst failures))"

text \<open>The clusters with their bundles, operators and admitted tasks.\<close>

definition prepared_clusters ::
  "'g chain_env \<Rightarrow> chain_rows \<Rightarrow> enforcement_policy \<Rightarrow> (string, interval list) dict \<Rightarrow> solver_parameters \<Rightarrow> real
   \<Rightarrow> travel_lookup \<Rightarrow> (string, (nat \<times> nat) list) dict \<Rightarrow> scored_pairs \<Rightarrow> task_row list
   \<Rightarrow> (cluster_spec list \<times> infeasible list \<times> reservation list) option" where
  "prepared_clusters en rows ep held p now L pairs scored orders =
     (let rt = re_rt (en_routing en); vehicles = ch_prime_movers rows; implements = ch_related rows;
          order_index = index_orders orders;
          free = build_free_capacity held (py_int now) routing_horizon_s;
          x = \<lparr>ai_operators = ch_operators rows, ai_margin = (\<lambda>v i. power_margin (vehicles ! v) (implements ! i)),
               ai_vehicle = id_at (index_dict pm_asset_id vehicles),
               ai_implement = id_at (index_dict rel_asset_id implements), ai_feasible = pairs,
               ai_scored = build_scored_lookup (Some scored), ai_free = free\<rparr>
      in map_option (\<lambda>clusters.
           let allocated = allocate_resources ((en_alloc en)\<lparr>ac_count_priority := assignment_count_priority p\<rparr>)
                             rt (en_cp_sat en) x orders clusters;
               (qualified, infs1) =
                 (if operator_qualification ep
                  then apply_operator_qualification rt allocated order_index (dict_by op_asset_id (ch_operators rows))
                         free (en_allow_overlap en) now
                  else (allocated, []));
               (admitted, infs2, reserved) = apply_material_limits qualified order_index (ch_depots rows) (Weather.material_demand ep)
           in (admitted, infs1 @ infs2, reserved))
         (build_cluster_specs (en_name en) (en_cluster en) rt L (cluster_target_size p) orders (ch_sites rows)
            (ch_depots rows) vehicles))"

definition cluster_jobs :: "(string, real) dict \<Rightarrow> cluster_spec list \<Rightarrow> cluster_job list" where
  "cluster_jobs wages clusters =
     map (\<lambda>c. cluster_spec.extend c \<lparr>cj_lns_time_limit_s = 0, cj_operator_wages = wages\<rparr>) clusters"

subsection \<open>The chain\<close>

definition chain_args ::
  "chain_rows \<Rightarrow> (string, interval list) dict \<Rightarrow> solver_parameters \<Rightarrow> real \<Rightarrow> travel_lookup \<Rightarrow> resource_prices
   \<Rightarrow> task_row list \<Rightarrow> blocked_windows \<Rightarrow> (string, nat \<times> nat) dict \<Rightarrow> solve_args" where
  "chain_args rows held p now L prices orders blocked greedy =
     \<lparr>sa_rows = \<lparr>sr_orders = orders, sr_vehicles = ch_prime_movers rows, sr_implements = ch_related rows,
                 sr_sites = ch_sites rows, sr_depots = ch_depots rows\<rparr>,
      sa_greedy = greedy, sa_vehicle_index = index_dict pm_asset_id (ch_prime_movers rows), sa_held = held,
      sa_travel = L, sa_time_limit_s = Some (cluster_solve_time_limit_s p), sa_now = py_int now,
      sa_blocked = blocked, sa_prices = prices, sa_objective = optimization_objective p\<rparr>"

text \<open>The settlement of the pool's outcome: precedence, alternatives, reservations and KPIs.\<close>

definition settle_chain ::
  "(int \<Rightarrow> string) \<Rightarrow> task_row list \<Rightarrow> task_row list \<Rightarrow> (package list \<Rightarrow> infeasible list \<Rightarrow> kpis) \<Rightarrow> (string, nat \<times> nat) dict
   \<Rightarrow> nat \<Rightarrow> reservation list \<Rightarrow> infeasible list \<Rightarrow> outcome \<Rightarrow> chain_result" where
  "settle_chain iso_text tasks orders kpis_of greedy n_clusters reserved infs x =
     (case x of (packages, pool_infs, records) \<Rightarrow>
        let (dispatch, all_infs) = enforce_dependency_outcomes packages (infs @ pool_infs) orders;
            collapsed = collapse_alternative_infeasible dispatch all_infs tasks
        in \<lparr>cr_dispatch = dispatch, cr_infeasible = collapsed, cr_kpis = kpis_of dispatch collapsed, cr_greedy = greedy,
            cr_n_clusters = n_clusters, cr_telemetry = records,
            cr_reservations = finalize_material_reservations reserved
              (map (\<lambda>d. (d_task_id d, (iso_text (pk_start d), iso_text (pk_end d)))) dispatch)\<rparr>)"

definition run_solver_chain ::
  "'g chain_env \<Rightarrow> feedback_store \<Rightarrow> chain_rows \<Rightarrow> enforcement_policy \<Rightarrow> (string, interval list) dict
   \<Rightarrow> solver_parameters \<Rightarrow> real \<Rightarrow> (chain_result \<times> feedback_store) option" where
  "run_solver_chain en store rows ep held p now =
     (let rt = re_rt (en_routing en); vehicles = ch_prime_movers rows; implements = ch_related rows; sites = ch_sites rows;
          L = build_travel_lookup (en_max_nodes en) (ce_geodesic (en_cluster en)) (en_max_geometry_ratio en) rt
                (ch_travel_links rows);
          prices = resolve_prices rt (ch_cost_rates rows) now (en_default_prices en);
          settings = \<lparr>sc_fuel_price = fuel_eur_per_l prices, sc_prices = Some prices,
                      sc_weight_margin = score_weight_margin p, sc_weight_reposition = score_weight_reposition p,
                      sc_objective = optimization_objective p\<rparr>
      in case admit_tasks en rows ep now of
        None \<Rightarrow> None
      | Some (orders, infs1, blocked) \<Rightarrow>
          let pairs = filter_feasible_pairs rt (en_power_margin_pct en) orders vehicles implements;
              scored = vectorized_score (en_cluster en) rt settings L (location_coords sites (ch_depots rows)) orders
                         vehicles implements sites pairs
          in (case prepared_clusters en rows ep held p now L pairs scored orders of
            None \<Rightarrow> None
          | Some (clusters, infs2, reserved) \<Rightarrow>
              let greedy = greedy_assign (scored_for_cluster_tasks scored clusters);
                  sa = chain_args rows held p now L prices orders blocked greedy
              in map_option (\<lambda>(x, store').
                   (settle_chain (en_iso en) (ch_tasks rows) orders
                      (compute_kpis (en_cluster en) rt settings (cc_material_fill_ratio (re_cc (en_routing en)))
                         (material_eur_per_kg prices) L now orders vehicles implements sites greedy)
                      greedy (length clusters) reserved (infs1 @ infs2) x, store'))
                 (pool_solve (en_pool en) (en_cpu en) (en_memory_mb en) store
                    (solve_cluster_instrumented (en_routing en) (en_rss en) sa) (en_executor en) (en_group_executor en)
                    sa (Some (lns_time_limit_s p)) (cluster_jobs (operator_wages (ch_operators rows)) clusters))))"

subsection \<open>The filters report what they drop\<close>

text \<open>A kept row carries the identity, the place and the alternative group of an input row.\<close>

definition same_task :: "task_row \<Rightarrow> task_row \<Rightarrow> bool" where
  "same_task t t' \<longleftrightarrow> task_id t' = task_id t \<and> location_ref t' = location_ref t
     \<and> alternative_group_ref t' = alternative_group_ref t"

lemma same_task_refl [simp]: "same_task t t"
  by (simp add: same_task_def)

text \<open>A filter that splits the ids of its input between the kept rows and its records.\<close>

definition splits :: "task_row list \<Rightarrow> task_row list \<Rightarrow> infeasible list \<Rightarrow> bool" where
  "splits orders kept infs \<longleftrightarrow> mset (map task_id orders) = mset (map task_id kept) + mset (map inf_task_id infs)
     \<and> (\<forall>t'\<in>set kept. \<exists>t\<in>set orders. same_task t t')"

lemma splits_refl: "splits orders orders []"
  unfolding splits_def by (simp, blast intro: same_task_refl)

lemma splits_trans:
  assumes "splits a b infs" "splits b c infs'"
  shows "splits a c (infs @ infs')"
  unfolding splits_def
proof
  show "mset (map task_id a) = mset (map task_id c) + mset (map inf_task_id (infs @ infs'))"
    using assms by (simp add: splits_def)
  show "\<forall>t'\<in>set c. \<exists>t\<in>set a. same_task t t'"
    using assms unfolding splits_def same_task_def by metis
qed

lemma splits_filter:
  assumes "\<And>t. t \<in> set orders \<Longrightarrow> \<not> P t \<Longrightarrow> \<exists>i. f t = Some i \<and> inf_task_id i = task_id t" "\<And>t. t \<in> set orders \<Longrightarrow> P t \<Longrightarrow> f t = None"
  shows "splits orders (filter P orders) (List.map_filter f orders)"
proof -
  have "mset (map task_id orders) = mset (map task_id (filter P orders)) + mset (map inf_task_id (List.map_filter f orders))"
    using assms
  proof (induction orders)
    case (Cons t ts)
    have "mset (map task_id ts) = mset (map task_id (filter P ts)) + mset (map inf_task_id (List.map_filter f ts))"
      by (rule Cons.IH) (use Cons.prems in auto)
    moreover have "P t \<Longrightarrow> f t = None" "\<not> P t \<Longrightarrow> \<exists>i. f t = Some i \<and> inf_task_id i = task_id t"
      using Cons.prems by auto
    ultimately show ?case by (cases "P t") (auto simp: List.map_filter_simps)
  qed (simp add: List.map_filter_simps)
  moreover have "\<forall>t'\<in>set (filter P orders). \<exists>t\<in>set orders. same_task t t'" by (simp, blast intro: same_task_refl)
  ultimately show ?thesis unfolding splits_def by blast
qed

lemma weather_task_reports: "weather_task rt sites fcs w now t = DropTask i \<Longrightarrow> inf_task_id i = task_id t"
  by (auto simp: weather_task_def filter_conservative_def filter_lenient_def Let_def split: if_splits)

lemma weather_splits: "apply_weather_filter rt orders sites fcs w now = (kept, infs, blocked) \<Longrightarrow> splits orders kept infs"
proof (cases "\<exists>p. w = Some p \<and> \<not> (sensitivity p = [] \<or> fcs = [])")
  case True
  then obtain p where p: "w = Some p" "\<not> (sensitivity p = [] \<or> fcs = [])" by blast
  assume "apply_weather_filter rt orders sites fcs w now = (kept, infs, blocked)"
  then have f: "fold (weather_step rt sites fcs p (py_int now)) orders ([], [], []) = (kept, infs, blocked)"
    using p by (simp add: apply_weather_filter_def)
  let ?v = "weather_task rt sites fcs p (py_int now)"
  have eq: "kept = filter (\<lambda>t. \<exists>bl. ?v t = KeepTask bl) orders"
      "infs = List.map_filter (\<lambda>t. case ?v t of KeepTask _ \<Rightarrow> None | DropTask i \<Rightarrow> Some i) orders"
    using weather_fold [OF f] by simp_all
  show ?thesis unfolding eq
  proof (rule splits_filter)
    fix t assume "\<not> (\<exists>bl. ?v t = KeepTask bl)"
    then show "\<exists>i. (case ?v t of KeepTask _ \<Rightarrow> None | DropTask i \<Rightarrow> Some i) = Some i \<and> inf_task_id i = task_id t"
      using weather_task_reports by (cases "?v t") auto
  qed auto
next
  case False
  assume "apply_weather_filter rt orders sites fcs w now = (kept, infs, blocked)"
  with False have "kept = orders" "infs = []" by (auto simp: apply_weather_filter_def split: option.splits if_splits)
  then show ?thesis by (simp add: splits_refl)
qed

lemma window_splits: "apply_time_window_filter rt orders now = (kept, infs) \<Longrightarrow> splits orders kept infs"
proof -
  assume "apply_time_window_filter rt orders now = (kept, infs)"
  then have eq: "kept = filter (meets_window rt now) orders"
      "infs = List.map_filter (\<lambda>t. if meets_window rt now t then None
         else Some (mk_infeasible (task_id t) '''' CONTRACT_WINDOW_INFEASIBLE NoWorkableWindow)) orders"
    by (auto simp: time_window_filter_eq List.map_filter_def o_def intro!: map_cong arg_cong [where f = "map _"] filter_cong)
  show ?thesis unfolding eq by (rule splits_filter) auto
qed

lemma restriction_splits:
  assumes "apply_location_restrictions sh rt mf orders sites now = Some (kept, infs)"
  shows "splits orders kept infs"
proof -
  have "mset (map task_id orders) = mset (map task_id kept) + mset (map inf_task_id infs)"
    using apply_restrictions_partition [OF assms] by simp
  moreover have "\<exists>t\<in>set orders. same_task t t'" if "t' \<in> set kept" for t'
  proof -
    obtain t where t: "t \<in> set orders" "restrict_order sh rt mf sites (py_int now) t = Some (Inl t')"
      using apply_restrictions_kept [OF assms \<open>t' \<in> set kept\<close>] by blast
    note k = restrict_order_kept [OF t(2)]
    have "alternative_group_ref t' = alternative_group_ref t"
      using k by (auto simp: clip_order_to_area_fraction_def Let_def)
    with t(1) k show ?thesis by (auto simp: same_task_def)
  qed
  ultimately show ?thesis by (auto simp: splits_def)
qed

lemma dependency_pass_splits:
  "dependency_pass orders ex = (kept, infs, ex') \<Longrightarrow> splits orders kept infs"
proof (induction orders ex arbitrary: kept infs ex' rule: dependency_pass.induct)
  case (2 order orders ex)
  show ?case
  proof (cases "depends_on_task_ref order \<noteq> [] \<and> depends_on_task_ref order \<in> ex")
    case True
    obtain k i e where r: "dependency_pass orders (insert (task_id order) ex) = (k, i, e)" by (metis prod_cases3)
    have "splits orders k i" using "2.IH"(1) [OF refl True r] .
    then show ?thesis using "2.prems" True r by (auto simp: Let_def splits_def)
  next
    case False
    obtain k i e where r: "dependency_pass orders ex = (k, i, e)" by (metis prod_cases3)
    have "splits orders k i" using "2.IH"(2) [OF refl False r] .
    then show ?thesis using "2.prems" False r by (auto simp: Let_def splits_def)
  qed
qed (simp add: splits_def)

lemma dependency_loop_splits:
  "splits orders kept infs \<Longrightarrow> dependency_loop kept infs ex = (kept', infs') \<Longrightarrow> splits orders kept' infs'"
proof (induction kept infs ex arbitrary: kept' infs' rule: dependency_loop.induct)
  case (1 kept infs ex)
  obtain remaining new ex' where p: "dependency_pass kept ex = (remaining, new, ex')" by (metis prod_cases3)
  have s: "splits orders remaining (infs @ new)" by (rule splits_trans [OF "1.prems"(1) dependency_pass_splits [OF p]])
  show ?case
  proof (cases "new = []")
    case True
    with "1.prems"(2) p s show ?thesis by (simp add: dependency_loop.simps [of kept])
  next
    case False
    have "dependency_loop remaining (infs @ new) ex' = (kept', infs')"
      using "1.prems"(2) p False by (simp add: dependency_loop.simps [of kept])
    with "1.IH" [OF p [symmetric] refl False s] show ?thesis by blast
  qed
qed

lemma admitted_splits:
  assumes "admit_tasks en rows ep now = Some (orders, infs, blocked)"
  shows "splits (ch_tasks rows) orders infs"
proof -
  let ?rt = "re_rt (en_routing en)"
  obtain k1 i1 b where w: "apply_weather_filter ?rt (ch_tasks rows) (ch_sites rows) (ch_forecasts rows) (ep_weather ep) now = (k1, i1, b)"
    by (metis prod_cases3)
  obtain k2 i2 where t: "apply_time_window_filter ?rt k1 now = (k2, i2)" by fastforce
  obtain k3 i3 where r: "apply_location_restrictions (en_shapely en) ?rt (en_min_area_fraction en) k2 (ch_sites rows) now = Some (k3, i3)"
    using assms by (auto simp: admit_tasks_def w t)
  obtain k4 i4 where d: "apply_dependency_filter k3 (inf_task_id ` set (i1 @ i2 @ i3)) = (k4, i4)" by fastforce
  have eq: "orders = k4" "infs = (i1 @ i2 @ i3) @ i4"
    using assms by (simp_all add: admit_tasks_def w t r Let_def d [simplified])
  have "splits (ch_tasks rows) k3 (i1 @ i2 @ i3)"
    by (intro splits_trans [OF weather_splits [OF w]] splits_trans [OF window_splits [OF t]] restriction_splits [OF r])
  moreover have "splits k3 k4 i4" using dependency_loop_splits [OF splits_refl] d by (simp add: apply_dependency_filter_def)
  ultimately show ?thesis unfolding eq by (rule splits_trans)
qed


subsection \<open>The clusters carry every located task\<close>

definition identity :: "cluster_spec \<Rightarrow> string \<times> string list" where
  "identity c = (cluster_id c, task_ids c)"

lemma allocate_cluster_identity: "allocate_cluster cfg rt x orders (c, st) = (c', st') \<Longrightarrow> identity c' = identity c"
  by (auto simp: allocate_cluster_def assign_operator_def identity_def Let_def split: prod.splits option.splits)

lemma allocate_clusters_identity: "map identity (allocate_clusters cfg rt x orders cs st) = map identity cs"
proof (induction cs arbitrary: st)
  case (Cons c cs)
  obtain c' st' where "allocate_cluster cfg rt x orders (c, st) = (c', st')" by fastforce
  with Cons allocate_cluster_identity show ?case by simp
qed simp

lemma apply_solution_identity: "identity (apply_solution chosen operators (k, cc)) = identity (cc_cluster cc)"
proof -
  have "identity (fold (\<lambda>p c. if chosen (OperatorVar k (op_asset_id p)) then c\<lparr>operator_ref := op_asset_id p\<rparr> else c) ops c) = identity c"
    for ops and c :: cluster_spec
    by (induction ops arbitrary: c) (simp_all add: identity_def)
  note this [of operators "(cc_cluster cc)\<lparr>allocated_prime_related := d\<rparr>" for d]
  moreover have "identity (c\<lparr>allocated_prime_related := d\<rparr>) = identity c" for c :: cluster_spec and d by (simp add: identity_def)
  ultimately show ?thesis unfolding apply_solution_def Let_def prod.case by simp
qed

lemma allocated_identity: "map identity (allocate_resources cfg rt cp x orders cs) = map identity (by_penalty cs)"
proof -
  have "map identity (allocate_resources_greedy cfg rt x orders cs) = map identity (by_penalty cs)"
    by (simp add: allocate_resources_greedy_def allocate_clusters_identity)
  moreover have "map identity ds = map identity (by_penalty cs)" if "allocate_resources_global cfg rt cp x orders cs = Some ds" for ds
  proof -
    have "map identity (map (apply_solution s ops) (enumerate n (map (collect_cluster_candidates cfg x orders) cs))) = map identity cs" for s ops n cs
      by (induction cs arbitrary: n) (simp_all add: apply_solution_identity collect_cluster_candidates_def Let_def)
    with that show ?thesis
      by (auto simp: allocate_resources_global_def Let_def simp del: map_map split: if_splits option.splits)
  qed
  ultimately show ?thesis by (auto simp: allocate_resources_def Let_def split: option.splits)
qed

lemma by_penalty_mset [simp]: "mset (by_penalty cs) = mset cs"
  by (simp add: by_penalty_def)

lemma allocated_split:
  "mset (map identity (allocate_resources cfg rt cp x orders cs)) = mset (map identity cs)"
  unfolding allocated_identity by simp

lemma identity_mset:
  assumes "mset (map identity cs) = mset (map identity ds)"
  shows "mset (map cluster_id cs) = mset (map cluster_id ds)" "mset (concat (map task_ids cs)) = mset (concat (map task_ids ds))"
    "set (map task_ids cs) = set (map task_ids ds)"
proof -
  have "mset (map fst (map identity cs)) = mset (map fst (map identity ds))"
    "mset (map snd (map identity cs)) = mset (map snd (map identity ds))" using assms by (simp_all only: mset_map)
  then have ids: "mset (map cluster_id cs) = mset (map cluster_id ds)" and ts: "mset (map task_ids cs) = mset (map task_ids ds)"
    by (simp_all add: comp_def identity_def)
  show "mset (map cluster_id cs) = mset (map cluster_id ds)" by (rule ids)
  show "mset (concat (map task_ids cs)) = mset (concat (map task_ids ds))" by (rule mset_concat_cong [OF ts])
  show "set (map task_ids cs) = set (map task_ids ds)" by (rule mset_eq_setD [OF ts])
qed

lemma qualified_ids:
  assumes "apply_operator_qualification rt clusters oi ops fc ao now = (cs, infs)"
  shows "map cluster_id cs = map cluster_id clusters"
proof -
  have q: "map cluster_id ds = map cluster_id bs" if "qualify_clusters rt oi ops main fc ao n hz bs st = (ds, st')" for main n hz bs st ds st'
    using that
  proof (induction bs arbitrary: st ds)
    case (Cons b bs)
    from qualify_clusters_step [OF Cons.prems] obtain c' st1 cs' where
      s: "qualify_cluster rt oi ops main fc ao n hz b st = (c', st1)"
      "qualify_clusters rt oi ops main fc ao n hz bs st1 = (cs', st')" "ds = c' # cs'" by blast
    have "cluster_id c' = cluster_id b" using s(1) by (auto simp: qualify_cluster_def Let_def split: if_splits prod.splits)
    with Cons.IH [OF s(2)] s(3) show ?case by simp
  qed simp
  have u: "map cluster_id (stamp_all st ds) = map cluster_id ds" for st ds
  proof -
    have "map (cluster_id \<circ> unstamped) (stamp_all st ds) = map (cluster_id \<circ> unstamped) ds"
      using unstamped_stamp_all [of st ds] by (metis map_map)
    then show ?thesis by (simp add: comp_def unstamped_def)
  qed
  from assms show ?thesis by (rule apply_qualification_unfold) (simp only: u q)
qed

lemma charged_ids:
  assumes "apply_material_limits clusters oi depots md = (cs, infs, rs)"
  shows "map cluster_id cs = map cluster_id clusters"
proof -
  have "map cluster_id cs' = map cluster_id bs" if "charge_clusters oi md bs st = (cs', st')" for bs cs' st st'
    using that
  proof (induction bs arbitrary: cs' st)
    case (Cons b bs)
    obtain c1 st1 where one: "charge_cluster oi md b st = (c1, st1)" by fastforce
    obtain cs2 where two: "charge_clusters oi md bs st1 = (cs2, st')" "cs' = c1 # cs2"
      using Cons.prems one by (auto split: prod.splits)
    have "cluster_id c1 = cluster_id b" using one by (auto simp: charge_cluster_def Let_def split: prod.splits)
    with Cons.IH [OF two(1)] two(2) show ?case by simp
  qed simp
  with assms show ?thesis by (auto simp: apply_material_limits_def Let_def split: if_splits prod.splits)
qed

lemma index_orders_keyed: "keyed_index (index_orders orders)"
  using index_orders_id by (auto simp: keyed_index_def)

lemma prepared_split:
  assumes "distinct (map task_id orders)" "inj (en_name en)"
    and "prepared_clusters en rows ep held p now L pairs scored orders = Some (clusters, infs, reserved)"
  shows "mset (map task_id (filter (located (ch_sites rows)) orders))
      = mset (concat (map task_ids clusters)) + mset (map inf_task_id infs)"
    and "distinct (map cluster_id clusters)"
proof -
  let ?rt = "re_rt (en_routing en)"
  obtain cs where cs: "build_cluster_specs (en_name en) (en_cluster en) ?rt L (cluster_target_size p) orders (ch_sites rows)
      (ch_depots rows) (ch_prime_movers rows) = Some cs"
    using assms(3) by (auto simp: prepared_clusters_def Let_def)
  obtain cfg x staffed_cs infs1 infs2 cp where
      q: "(if operator_qualification ep
           then apply_operator_qualification ?rt (allocate_resources cfg ?rt cp x orders cs) (index_orders orders)
             (dict_by op_asset_id (ch_operators rows)) (build_free_capacity held (py_int now) routing_horizon_s) (en_allow_overlap en) now
           else (allocate_resources cfg ?rt cp x orders cs, [])) = (staffed_cs, infs1)"
    and m: "apply_material_limits staffed_cs (index_orders orders) (ch_depots rows) (Weather.material_demand ep) = (clusters, infs2, reserved)"
    and infs: "infs = infs1 @ infs2"
    using assms(3) by (auto simp: prepared_clusters_def Let_def cs split: prod.splits)
  let ?al = "allocate_resources cfg ?rt cp x orders cs"
  have items: "mset (concat (map task_ids cs)) = mset (map task_id (filter (located (ch_sites rows)) orders))"
    by (rule clusters_partition_tasks [OF assms(1) cs])
  have "distinct (map task_id (filter (located (ch_sites rows)) orders))" using assms(1) by (simp add: distinct_map_filter)
  then have dist: "distinct (concat (map task_ids cs))" using mset_eq_imp_distinct_iff [OF items] by blast
  note al = identity_mset [OF allocated_split [of cfg ?rt cp x orders cs]]
  have qual: "mset (concat (map task_ids ?al)) = mset (concat (map task_ids staffed_cs)) + mset (map inf_task_id infs1)"
      "map cluster_id staffed_cs = map cluster_id ?al"
    using q qualification_partition qualified_ids by (cases "operator_qualification ep"; fastforce)+
  have "distinct (concat (map task_ids staffed_cs))"
    using dist qual(1) al(2) by (metis distinct_append mset_append mset_eq_imp_distinct_iff)
  then have "\<forall>c\<in>set staffed_cs. distinct (task_ids c)" by (auto simp: distinct_concat_iff)
  note mat = material_partition [OF index_orders_keyed this m]
  show "mset (map task_id (filter (located (ch_sites rows)) orders))
      = mset (concat (map task_ids clusters)) + mset (map inf_task_id infs)"
    using items al(2) qual(1) mat infs by (simp add: ac_simps)
  have "distinct (map cluster_id cs)"
  proof -
    obtain subs :: "(string \<times> string list) list" where "cs = map (\<lambda>(i, depot, sub). cluster_of (en_name en) (index_orders orders) i depot sub) (zip [0..<length subs] subs)"
      using cs by (auto simp: build_cluster_specs_def Let_def)
    then have "map cluster_id cs = map (\<lambda>x. en_name en (fst x)) (zip [0..<length subs] subs)"
      by (simp add: cluster_of_def split_beta comp_def)
    also have "\<dots> = map (en_name en) (map fst (zip [0..<length subs] subs))" by (simp only: map_map comp_def)
    also have "map fst (zip [0..<length subs] subs) = [0..<length subs]" by simp
    finally show ?thesis using inj_on_subset [OF assms(2) subset_UNIV] by (simp add: distinct_map)
  qed
  then show "distinct (map cluster_id clusters)"
    using al(1) qual(2) charged_ids [OF m] by (metis mset_eq_imp_distinct_iff)
qed


subsection \<open>The collapsed report\<close>

text \<open>No alternative group is named like a task.\<close>

definition fresh_groups :: "task_row list \<Rightarrow> bool" where
  "fresh_groups orders \<longleftrightarrow>
     (\<forall>t\<in>set orders. \<forall>u\<in>set orders. alternative_group_ref u \<noteq> '''' \<longrightarrow> alternative_group_ref u \<noteq> task_id t)"

lemma index_orders_mem: "index_orders orders t = Some r \<Longrightarrow> r \<in> set orders \<and> task_id r = t"
  by (auto simp: index_orders_def dest!: map_of_SomeD)

lemma index_orders_None: "index_orders orders t = None \<longleftrightarrow> t \<notin> task_id ` set orders"
  by (auto simp: index_orders_def map_of_eq_None_iff image_image)

lemma index_orders_distinct: "distinct (map task_id orders) \<Longrightarrow> r \<in> set orders \<Longrightarrow> index_orders orders (task_id r) = Some r"
proof -
  assume d: "distinct (map task_id orders)" and r: "r \<in> set orders"
  then obtain r' where r': "index_orders orders (task_id r) = Some r'" using index_orders_None [of orders "task_id r"] by auto
  have "r' = r" using index_orders_mem [OF r'] d r by (auto simp: distinct_map dest: inj_onD)
  with r' show ?thesis by simp
qed

lemma group_of_mem: "group_of (index_orders orders) t \<noteq> '''' \<Longrightarrow> t \<in> task_id ` set orders"
  using index_orders_None [of orders t] by (auto simp: group_of_def split: option.splits)

lemma members_by_group_keys:
  "g \<in> fst ` set (members_by_group orders) \<longleftrightarrow> g \<noteq> '''' \<and> (\<exists>t\<in>task_id ` set orders. group_of (index_orders orders) t = g)"
proof -
  let ?f = "\<lambda>t. let g = group_of (index_orders orders) t in if g \<noteq> '''' then dappend g t else id"
  have "fst ` set (fold ?f ts d) = fst ` set d \<union> {g. g \<noteq> '''' \<and> (\<exists>t\<in>set ts. group_of (index_orders orders) t = g)}" for ts d
    by (induction ts arbitrary: d) (auto simp: Let_def dappend_def keys_update)
  from this [of "remdups (map task_id orders)" "[]"] show ?thesis by (auto simp: members_by_group_def)
qed

lemma failing_group_of:
  assumes "fresh_groups orders" "inf_task_id i = t"
  shows "t \<in> task_id ` set orders \<Longrightarrow> failing_group orders i = group_of (index_orders orders) t"
    and "t = group_of (index_orders orders) u \<Longrightarrow> t \<noteq> '''' \<Longrightarrow> failing_group orders i = t"
proof -
  have names: "group_of (index_orders orders) v \<noteq> '''' \<Longrightarrow> group_of (index_orders orders) v \<notin> task_id ` set orders" for v
  proof -
    assume "group_of (index_orders orders) v \<noteq> ''''"
    then obtain r where "index_orders orders v = Some r" "group_of (index_orders orders) v = alternative_group_ref r"
      "alternative_group_ref r \<noteq> ''''" by (auto simp: group_of_def split: option.splits)
    with index_orders_mem assms(1) show ?thesis unfolding fresh_groups_def by fastforce
  qed
  show "t \<in> task_id ` set orders \<Longrightarrow> failing_group orders i = group_of (index_orders orders) t"
  proof -
    assume "t \<in> task_id ` set orders"
    then have "t \<notin> fst ` set (members_by_group orders)" using names unfolding members_by_group_keys by metis
    then show ?thesis by (simp add: failing_group_def Let_def assms(2))
  qed
  assume t: "t = group_of (index_orders orders) u" "t \<noteq> ''''"
  then have "t \<in> fst ` set (members_by_group orders)" using group_of_mem by (auto simp: members_by_group_keys)
  moreover have "group_of (index_orders orders) t = ''''" using names [of u] t group_of_mem by blast
  ultimately show "failing_group orders i = t" by (simp add: failing_group_def assms(2))
qed

lemma collapse_reports:
  assumes i: "i \<in> set infs"
  shows "failing_group orders i = '''' \<Longrightarrow> i \<in> set (collapse_alternative_infeasible D infs orders)"
    and "failing_group orders i = g \<Longrightarrow> g \<in> fst ` set (members_by_group orders) \<Longrightarrow>
      g \<in> inf_task_id ` set (collapse_alternative_infeasible D infs orders) \<or> (\<exists>d\<in>set D. group_of (index_orders orders) (d_task_id d) = g)"
proof -
  show "failing_group orders i = '''' \<Longrightarrow> i \<in> set (collapse_alternative_infeasible D infs orders)"
    using i by (auto simp: collapse_alternative_infeasible_def Let_def)
  assume g: "failing_group orders i = g" "g \<in> fst ` set (members_by_group orders)"
  have g0: "g \<noteq> ''''" using g(2) by (simp add: members_by_group_keys)
  have ne: "members_by_group orders \<noteq> []" using g(2) by auto
  define served where "served = (\<lambda>d. group_of (index_orders orders) (d_task_id d)) ` set D - {''''}"
  define late where "late = filter (\<lambda>i. failing_group orders i \<noteq> '''' \<and> failing_group orders i \<notin> served) infs"
  have keys: "k \<in> fst ` set (fold (\<lambda>i. dappend (failing_group orders i) i) is' d) \<longleftrightarrow> k \<in> failing_group orders ` set is' \<or> k \<in> fst ` set d" for k is' d
    by (induction is' arbitrary: d) (auto simp: dappend_def keys_update)
  show "g \<in> inf_task_id ` set (collapse_alternative_infeasible D infs orders) \<or> (\<exists>d\<in>set D. group_of (index_orders orders) (d_task_id d) = g)"
  proof (cases "g \<in> served")
    case False
    then have "g \<in> fst ` set (fold (\<lambda>i. dappend (failing_group orders i) i) late [])"
      using i g(1) g0 by (auto simp: keys late_def)
    then obtain rs where "(g, rs) \<in> set (fold (\<lambda>i. dappend (failing_group orders i) i) late [])" by force
    then have "group_failure (g, rs) \<in> set (collapse_alternative_infeasible D infs orders)"
      using ne by (auto simp: collapse_alternative_infeasible_def Let_def served_def late_def)
    moreover have "inf_task_id (group_failure (g, rs)) = g" by (simp add: group_failure_def Let_def)
    ultimately show ?thesis by (metis image_eqI)
  qed (auto simp: served_def)
qed

lemma collapse_settles:
  assumes fresh: "fresh_groups orders" and t: "t \<in> task_id ` set orders"
    and s: "t \<in> d_task_id ` set D \<or> t \<in> inf_task_id ` set infs \<or> group_of (index_orders orders) t \<noteq> ''''
      \<and> (group_of (index_orders orders) t \<in> inf_task_id ` set infs
         \<or> (\<exists>u\<in>d_task_id ` set D \<union> inf_task_id ` set infs. group_of (index_orders orders) u = group_of (index_orders orders) t))"
  shows "t \<in> d_task_id ` set D \<or> t \<in> inf_task_id ` set (collapse_alternative_infeasible D infs orders)
    \<or> group_of (index_orders orders) t \<noteq> ''''
      \<and> (group_of (index_orders orders) t \<in> inf_task_id ` set (collapse_alternative_infeasible D infs orders)
         \<or> (\<exists>u\<in>d_task_id ` set D. group_of (index_orders orders) u = group_of (index_orders orders) t))"
proof -
  let ?g = "group_of (index_orders orders) t"
  have key: "?g \<noteq> '''' \<Longrightarrow> ?g \<in> fst ` set (members_by_group orders)" using t by (auto simp: members_by_group_keys)
  have settled: "?g \<in> inf_task_id ` set (collapse_alternative_infeasible D infs orders)
      \<or> (\<exists>u\<in>d_task_id ` set D. group_of (index_orders orders) u = ?g)" if "i \<in> set infs" "failing_group orders i = ?g" "?g \<noteq> ''''" for i
    using collapse_reports(2) [OF that(1,2) key [OF that(3)]] by auto
  consider (D) "t \<in> d_task_id ` set D" | (I) "t \<in> inf_task_id ` set infs"
    | (G) "?g \<noteq> ''''" "?g \<in> inf_task_id ` set infs"
    | (DG) u where "?g \<noteq> ''''" "u \<in> d_task_id ` set D" "group_of (index_orders orders) u = ?g"
    | (IG) u where "?g \<noteq> ''''" "u \<in> inf_task_id ` set infs" "group_of (index_orders orders) u = ?g"
    using s unfolding bex_Un by blast
  then show ?thesis
  proof cases
    case I
    then obtain i where i: "i \<in> set infs" "inf_task_id i = t" by blast
    have f: "failing_group orders i = ?g" by (rule failing_group_of(1) [OF fresh i(2) t])
    show ?thesis
    proof (cases "?g = ''''")
      case True
      then have "i \<in> set (collapse_alternative_infeasible D infs orders)" using collapse_reports(1) [OF i(1)] f by simp
      then show ?thesis using i(2) by blast
    next
      case False
      then show ?thesis using settled [OF i(1) f False] by blast
    qed
  next
    case G
    then obtain i where i: "i \<in> set infs" "inf_task_id i = ?g" by (metis imageE)
    have "failing_group orders i = ?g" by (rule failing_group_of(2) [OF fresh i(2) refl G(1)])
    from settled [OF i(1) this G(1)] G(1) show ?thesis by blast
  next
    case IG
    then obtain i where i: "i \<in> set infs" "inf_task_id i = u" by blast
    have "u \<in> task_id ` set orders" using IG(1,3) group_of_mem by metis
    from failing_group_of(1) [OF fresh i(2) this] IG(3) have "failing_group orders i = ?g" by simp
    from settled [OF i(1) this IG(1)] IG(1) show ?thesis by blast
  qed blast+
qed


subsection \<open>The chain accounts for every located task\<close>

lemma chain_run:
  assumes "run_solver_chain en store rows ep held p now = Some (r, store')"
  shows "\<exists>orders infs1 blocked L pairs scored clusters infs2 reserved sa packages infs3 records infs.
      admit_tasks en rows ep now = Some (orders, infs1, blocked)
      \<and> prepared_clusters en rows ep held p now L pairs scored orders = Some (clusters, infs2, reserved)
      \<and> sr_orders (sa_rows sa) = orders
      \<and> pool_solve (en_pool en) (en_cpu en) (en_memory_mb en) store (solve_cluster_instrumented (en_routing en) (en_rss en) sa)
          (en_executor en) (en_group_executor en) sa (Some (lns_time_limit_s p))
          (cluster_jobs (operator_wages (ch_operators rows)) clusters) = Some ((packages, infs3, records), store')
      \<and> enforce_dependency_outcomes packages (infs1 @ infs2 @ infs3) orders = (cr_dispatch r, infs)
      \<and> cr_infeasible r = collapse_alternative_infeasible (cr_dispatch r) infs (ch_tasks rows)
      \<and> cr_telemetry r = records \<and> cr_n_clusters r = length clusters"
proof -
  obtain orders infs1 blocked where a: "admit_tasks en rows ep now = Some (orders, infs1, blocked)"
    using assms by (cases "admit_tasks en rows ep now") (auto simp: run_solver_chain_def Let_def)
  note run = assms [unfolded run_solver_chain_def Let_def a option.case prod.case]
  obtain L pairs scored clusters infs2 reserved where
    b: "prepared_clusters en rows ep held p now L pairs scored orders = Some (clusters, infs2, reserved)"
    and run2: "\<exists>prices greedy K x. pool_solve (en_pool en) (en_cpu en) (en_memory_mb en) store
        (solve_cluster_instrumented (en_routing en) (en_rss en) (chain_args rows held p now L prices orders blocked greedy))
          (en_executor en) (en_group_executor en) (chain_args rows held p now L prices orders blocked greedy) (Some (lns_time_limit_s p))
          (cluster_jobs (operator_wages (ch_operators rows)) clusters) = Some (x, store')
      \<and> r = settle_chain (en_iso en) (ch_tasks rows) orders K greedy (length clusters) reserved (infs1 @ infs2) x"
    using run by (fastforce split: option.split_asm)
  then obtain prices greedy K packages infs3 records where
    c: "pool_solve (en_pool en) (en_cpu en) (en_memory_mb en) store
        (solve_cluster_instrumented (en_routing en) (en_rss en) (chain_args rows held p now L prices orders blocked greedy))
          (en_executor en) (en_group_executor en) (chain_args rows held p now L prices orders blocked greedy) (Some (lns_time_limit_s p))
          (cluster_jobs (operator_wages (ch_operators rows)) clusters) = Some ((packages, infs3, records), store')"
    and r: "r = settle_chain (en_iso en) (ch_tasks rows) orders K greedy (length clusters) reserved (infs1 @ infs2) (packages, infs3, records)"
    by (metis prod_cases3)
  obtain dispatch infs where e: "enforce_dependency_outcomes packages (infs1 @ infs2 @ infs3) orders = (dispatch, infs)" by fastforce
  have "sr_orders (sa_rows (chain_args rows held p now L prices orders blocked greedy)) = orders" by (simp add: chain_args_def)
  moreover have "cr_dispatch r = dispatch" "cr_infeasible r = collapse_alternative_infeasible dispatch infs (ch_tasks rows)"
    "cr_telemetry r = records" "cr_n_clusters r = length clusters"
    by (simp_all add: r settle_chain_def e Let_def)
  ultimately show ?thesis using a b c e by blast
qed


lemma same_group:
  assumes "distinct (map task_id tasks)" "splits tasks orders infs" "u \<in> task_id ` set orders"
  shows "group_of (index_orders orders) u = group_of (index_orders tasks) u"
proof -
  have "distinct (map task_id orders)"
    using assms(1,2) by (metis distinct_append mset_append mset_eq_imp_distinct_iff splits_def)
  then obtain t' where t': "t' \<in> set orders" "task_id t' = u" "index_orders orders u = Some t'"
    using assms(3) index_orders_distinct by blast
  obtain t where t: "t \<in> set tasks" "same_task t t'" using assms(2) t'(1) by (auto simp: splits_def)
  then have "index_orders tasks u = Some t" using index_orders_distinct [OF assms(1) t(1)] t'(2) by (simp add: same_task_def)
  with t'(3) t(2) show ?thesis by (simp add: group_of_def same_task_def)
qed

lemma cluster_jobs_same: "map cluster_id (cluster_jobs w cs) = map cluster_id cs" "map task_ids (cluster_jobs w cs) = map task_ids cs"
  by (simp_all add: cluster_jobs_def cluster_spec.extend_def)



subsection \<open>A closed instance\<close>

lemma clusters_built: "depots \<noteq> [] \<Longrightarrow> build_cluster_specs name env rt L target orders sites depots vehicles \<noteq> None"
proof -
  assume d: "depots \<noteq> []"
  have "assign_orders env L sites depots os a \<noteq> None" for os a
    using d by (induction os arbitrary: a) (auto simp: nearest_depot_def split: option.splits)
  then show ?thesis by (simp add: build_cluster_specs_def cluster_orders_by_depot_def)
qed

definition sample_chain_rows :: chain_rows where
  "sample_chain_rows =
     \<lparr>ch_prime_movers = [sample_mover], ch_related = [sample_implement],
      ch_tasks = [sample_task, sample_task\<lparr>task_id := ''B'', depends_on_task_ref := ''A''\<rparr>,
        sample_task\<lparr>task_id := ''C'', alternative_group_ref := ''G''\<rparr>,
        sample_task\<lparr>task_id := ''D'', location_ref := ''nowhere''\<rparr>],
      ch_depots = [sample_depot], ch_sites = [Clustering.sample_site], ch_operators = [sample_operator], ch_forecasts = [],
      ch_travel_links = [], ch_cost_rates = []\<rparr>"

definition letters :: "nat \<Rightarrow> string" where
  "letters n = replicate n (CHR ''c'')"

definition sample_chain_env :: "unit chain_env" where
  "sample_chain_env =
     \<lparr>en_routing = sample_routing_env, en_shapely = sample_shapely, en_cluster = sample_cluster_env, en_alloc = sample_alloc_config,
      en_cp_sat = (\<lambda>_. None), en_pool = sample_pool_constants, en_cpu = 4, en_memory_mb = None, en_rss = (\<lambda>_. None),
      en_executor = rough_executor, en_group_executor = rough_executor, en_name = letters, en_iso = (\<lambda>_. ''''),
      en_max_nodes = 100, en_max_geometry_ratio = 2, en_min_area_fraction = 1 / 10, en_power_margin_pct = 10,
      en_allow_overlap = False, en_default_prices = sample_prices\<rparr>"

definition sample_parameters :: solver_parameters where
  "sample_parameters =
     \<lparr>cluster_target_size = 1, score_weight_margin = 1, score_weight_reposition = 1, cluster_solve_time_limit_s = 30,
      lns_time_limit_s = 0, rolling_change_penalty = 0, assignment_count_priority = 1, optimization_objective = ''cost''\<rparr>"

definition sample_enforcement :: enforcement_policy where
  "sample_enforcement = \<lparr>ep_weather = None, operator_qualification = True, material_demand = []\<rparr>"

lemma sample_admitted: "map_option (map task_id \<circ> fst) (admit_tasks sample_chain_env sample_chain_rows sample_enforcement 0)
    = Some [''A'', ''B'', ''C'', ''D'']"
  by code_simp

lemma sample_pool_returns:
  "pool_solve sample_pool_constants cpu available store solve pool group_pool sa (Some 0) clusters \<noteq> None"
  using pool_returns [of clusters] by (cases "clusters = []") (simp_all add: pool_solve_def)

lemma chain_returns:
  assumes "admit_tasks en rows ep now = Some (orders, infs, blocked)"
    and "\<And>L pairs scored. prepared_clusters en rows ep held p now L pairs scored orders \<noteq> None"
    and "\<And>solve sa clusters. pool_solve (en_pool en) (en_cpu en) (en_memory_mb en) store solve (en_executor en)
          (en_group_executor en) sa (Some (lns_time_limit_s p)) clusters \<noteq> None"
  shows "run_solver_chain en store rows ep held p now \<noteq> None"
  unfolding run_solver_chain_def Let_def assms(1) option.case prod.case
  using assms(2,3) by (simp split: option.split del: not_None_eq)

lemma sample_chain_returns:
  "run_solver_chain sample_chain_env store sample_chain_rows sample_enforcement held sample_parameters 0 \<noteq> None"
proof -
  obtain orders infs blocked where a: "admit_tasks sample_chain_env sample_chain_rows sample_enforcement 0 = Some (orders, infs, blocked)"
    using sample_admitted by (cases "admit_tasks sample_chain_env sample_chain_rows sample_enforcement 0") auto
  have "ch_depots sample_chain_rows \<noteq> []" by (simp add: sample_chain_rows_def)
  from clusters_built [OF this] have p: "prepared_clusters sample_chain_env sample_chain_rows sample_enforcement held sample_parameters 0 L pairs scored orders \<noteq> None"
    for L pairs scored
    by (simp add: prepared_clusters_def Let_def)
  have e: "en_pool sample_chain_env = sample_pool_constants" "lns_time_limit_s sample_parameters = 0"
    by (simp_all add: sample_chain_env_def sample_parameters_def)
  show ?thesis
    by (rule chain_returns [OF a p]) (unfold e, rule sample_pool_returns)
qed


end
