(* ===== verification/Canonicalize.thy ===== *)
theory Canonicalize
  imports Canonical Events "HOL-Library.Monad_Syntax"
begin

text \<open>
  The mapping of source rows to canonical objects (\<open>mapping/\<close>): per row every binding is resolved by its
  missing-value policy, coerced by its quantity kind and routed into an accumulator, from which the entity's
  builder makes the canonical object. \<open>None\<close> is an exception, which ends the mapping of the dataset.
  The validation of optional fields by pydantic is a parameter.
\<close>

subsection \<open>Bindings\<close>

datatype missing_value_policy =
    ACCEPT_OPTIONAL | REJECT_FOR_PLANNING | ACCEPT_WITH_WARNING | ACCEPT_WITH_PENALTY
  | FALLBACK_TO_CONSERVATIVE_VALUE | IMPUTE | QUARANTINE | MANUAL_REVIEW

fun policy_value :: "missing_value_policy \<Rightarrow> string" where
  "policy_value ACCEPT_OPTIONAL = ''accept-optional''"
| "policy_value REJECT_FOR_PLANNING = ''reject-for-planning''"
| "policy_value ACCEPT_WITH_WARNING = ''accept-with-warning''"
| "policy_value ACCEPT_WITH_PENALTY = ''accept-with-penalty''"
| "policy_value FALLBACK_TO_CONSERVATIVE_VALUE = ''fallback-to-conservative-value''"
| "policy_value IMPUTE = ''impute''"
| "policy_value QUARANTINE = ''quarantine''"
| "policy_value MANUAL_REVIEW = ''manual-review''"

record xopt_binding = field_binding +
  xb_semantic_term :: string
  canonical_unit :: "string option"
  quantity_kind :: "string option"
  quality_policy_ref :: "string option"
  missing_policy :: "missing_value_policy option"

record mapping_table =
  mt_contract_id :: string
  mt_entity :: string
  mt_role :: "string option"
  mt_bindings :: "xopt_binding list"
  mt_metric_codes :: "(string, string) dict"

definition mt_key_field :: "mapping_table \<Rightarrow> string option" where
  "mt_key_field t = map_option source_field (find (\<lambda>b. ''identity'' \<in> set (planning_use b)) (mt_bindings t))"

text \<open>\<open>binding.split(".")\<close>.\<close>

fun path_tokens :: "string \<Rightarrow> string list" where
  "path_tokens [] = [[]]"
| "path_tokens (c # cs) =
     (if c = CHR ''.'' then [] # path_tokens cs
      else (case path_tokens cs of [] \<Rightarrow> [[c]] | t # ts \<Rightarrow> (c # t) # ts))"

subsection \<open>Missing values\<close>

record policy_outcome =
  po_value :: py_val
  drop_entity :: bool
  po_finding :: "quality_finding option"

definition is_missing :: "py_val \<Rightarrow> bool" where
  "is_missing v = (case v of VNone \<Rightarrow> True | VStr s \<Rightarrow> py_strip s = '''' | _ \<Rightarrow> False)"

definition conservative_fallback :: "(string, real) dict" where
  "conservative_fallback =
     [(''power'', 0), (''mass'', 0), (''volume'', 0), (''money'', 0), (''speed'', 1), (''area'', 0), (''flow-rate'', 0)]"

definition missing_finding ::
  "runtime \<Rightarrow> real \<Rightarrow> xopt_binding \<Rightarrow> string \<Rightarrow> nat \<Rightarrow> py_val \<Rightarrow> quality_severity \<Rightarrow> string \<Rightarrow> py_val \<Rightarrow> quality_finding" where
  "missing_finding rt now b entity seq raw severity action normalized =
     \<lparr>quality_finding_id = ''qf-'' @ entity @ ''-'' @ source_field b @ ''-'' @ py_str rt (VInt (int seq)),
      rule_id = (case quality_policy_ref b of Some (c # cs) \<Rightarrow> c # cs | _ \<Rightarrow> ''dq://default/missing-value''),
      qf_severity = severity, qf_entity_ref = entity, field_ref = Some (source_field b), detected_at = now,
      action_applied = action, original_value = raw, normalized_value = normalized, planning_impact = action,
      qf_source_ref = entity\<rparr>"

definition apply_missing_value_policy ::
  "runtime \<Rightarrow> real \<Rightarrow> xopt_binding \<Rightarrow> string \<Rightarrow> nat \<Rightarrow> py_val \<Rightarrow> policy_outcome" where
  "apply_missing_value_policy rt now b entity seq raw =
     (let finding = missing_finding rt now b entity seq raw in
      if \<not> is_missing raw then \<lparr>po_value = raw, drop_entity = False, po_finding = None\<rparr>
      else
        (case missing_policy b of
           Some ACCEPT_OPTIONAL \<Rightarrow> \<lparr>po_value = VNone, drop_entity = False, po_finding = None\<rparr>
         | None \<Rightarrow> \<lparr>po_value = VNone, drop_entity = True,
             po_finding = Some (finding ERROR ''reject-for-planning'' VNone)\<rparr>
         | Some REJECT_FOR_PLANNING \<Rightarrow> \<lparr>po_value = VNone, drop_entity = True,
             po_finding = Some (finding ERROR ''reject-for-planning'' VNone)\<rparr>
         | Some ACCEPT_WITH_WARNING \<Rightarrow> \<lparr>po_value = VNone, drop_entity = False,
             po_finding = Some (finding WARNING ''accept-with-warning'' VNone)\<rparr>
         | Some p \<Rightarrow>
             if p = FALLBACK_TO_CONSERVATIVE_VALUE \<or> p = IMPUTE then
               let fallback = VFloat (dget_default conservative_fallback
                     (case quantity_kind b of None \<Rightarrow> '''' | Some k \<Rightarrow> k) 0)
               in \<lparr>po_value = fallback, drop_entity = False, po_finding = Some (finding INFO (policy_value p) fallback)\<rparr>
             else \<lparr>po_value = VNone, drop_entity = True,
                    po_finding = Some (finding WARNING (policy_value p) VNone)\<rparr>))"

subsection \<open>Coercion\<close>

definition parse_list :: "runtime \<Rightarrow> py_val \<Rightarrow> py_val list" where
  "parse_list rt raw =
     (case raw of
        VList xs \<Rightarrow> xs
      | VStr s \<Rightarrow> (case literal_eval rt s of Some (VList xs) \<Rightarrow> xs | _ \<Rightarrow> [raw])
      | _ \<Rightarrow> [raw])"

definition add_rate :: "runtime \<Rightarrow> string \<times> py_val \<Rightarrow> (string, py_val) dict \<Rightarrow> (string, py_val) dict" where
  "add_rate rt kv d =
     (case py_float rt (snd kv) of
        None \<Rightarrow> d
      | Some x \<Rightarrow> if x > 0 then AList.update (fst kv) (VFloat x) d else d)"

definition parse_rate_map :: "runtime \<Rightarrow> py_val \<Rightarrow> (string, py_val) dict" where
  "parse_rate_map rt raw =
     (case (case raw of VStr s \<Rightarrow> literal_eval rt s | _ \<Rightarrow> Some raw) of
        Some (VDict d) \<Rightarrow> fold (add_rate rt) d []
      | _ \<Rightarrow> [])"

definition parse_timestamp :: "runtime \<Rightarrow> py_val \<Rightarrow> real option" where
  "parse_timestamp rt raw = (case raw of VTime t \<Rightarrow> Some t | _ \<Rightarrow> fromisoformat rt (replace_z (py_str rt raw)))"

definition numeric_kinds :: "string list" where
  "numeric_kinds = [''power'', ''mass'', ''volume'', ''money'', ''area'', ''speed'', ''length'', ''flow-rate'',
     ''angle'', ''ratio'', ''work'', ''duration'']"

definition integer_kinds :: "string list" where
  "integer_kinds = [''time'']"

definition coerce_value :: "runtime \<Rightarrow> string option \<Rightarrow> py_val \<Rightarrow> py_val option" where
  "coerce_value rt kind raw =
     (case kind of
        None \<Rightarrow> Some raw
      | Some k \<Rightarrow>
          if k = ''categorical-set'' \<or> k = ''interval-set'' then Some (VList (parse_list rt raw))
          else if k = ''rate-map'' then Some (VDict (parse_rate_map rt raw))
          else if k = ''timestamp'' then map_option VTime (parse_timestamp rt raw)
          else if k \<in> set integer_kinds then map_option (\<lambda>x. VInt (py_int x)) (py_float rt raw)
          else if k \<in> set numeric_kinds then map_option VFloat (py_float rt raw)
          else Some raw)"

text \<open>\<open>convert_to_canonical\<close>; \<open>None\<close> is the \<open>UnitConversionError\<close>.\<close>

definition conversion_factors :: "((string \<times> string) \<times> real) list" where
  "conversion_factors =
     [((''W'', ''kW''), 1 / 1000), ((''kW'', ''W''), 1000), ((''g'', ''kg''), 1 / 1000), ((''kg'', ''g''), 1000),
      ((''mL'', ''L''), 1 / 1000), ((''L'', ''mL''), 1000), ((''m2'', ''ha''), 1 / 10000), ((''ha'', ''m2''), 10000)]"

definition convert_to_canonical :: "real \<Rightarrow> string option \<Rightarrow> string option \<Rightarrow> real option" where
  "convert_to_canonical x canonical source =
     (case (canonical, source) of
        (Some c, Some s) \<Rightarrow> if s = c then Some x else map_option (\<lambda>f. x * f) (map_of conversion_factors (s, c))
      | _ \<Rightarrow> Some x)"

subsection \<open>The accumulator\<close>

record accumulator =
  acc_values :: "(string, py_val) dict"
  acc_capabilities :: "capability list"
  acc_inventory :: "(string \<times> string option \<times> py_val) list"

text \<open>\<open>None\<close> when there is no token or a value on the way is not a dict.\<close>

fun set_acc_path :: "(string, py_val) dict \<Rightarrow> string list \<Rightarrow> py_val \<Rightarrow> (string, py_val) dict option" where
  "set_acc_path d [] v = None"
| "set_acc_path d [t] v = Some (AList.update t v d)"
| "set_acc_path d (t # ts) v =
     (case dget_default d t (VDict []) of
        VDict e \<Rightarrow> map_option (\<lambda>e'. AList.update t (VDict e') d) (set_acc_path e ts v)
      | _ \<Rightarrow> None)"

definition route_value :: "xopt_binding \<Rightarrow> py_val \<Rightarrow> accumulator \<Rightarrow> accumulator option" where
  "route_value b v acc =
     (let tokens = path_tokens (binding_path b) in
      if ''capabilities'' \<in> set tokens \<or> ''availability'' \<in> set tokens \<or> ''state'' \<in> set tokens then
        Some (acc\<lparr>acc_capabilities := acc_capabilities acc @
          [\<lparr>capability_id = last tokens, semantic_term = xb_semantic_term b, cap_value = v,
            cap_unit = canonical_unit b, cap_confidence = None, cap_source_ref = ''''\<rparr>]\<rparr>)
      else if take 2 tokens = [''location'', ''inventory''] \<or> take 2 tokens = [''asset'', ''inventory''] then
        Some (acc\<lparr>acc_inventory := acc_inventory acc @ [(last tokens, canonical_unit b, v)]\<rparr>)
      else map_option (\<lambda>d. acc\<lparr>acc_values := d\<rparr>) (set_acc_path (acc_values acc) (tl tokens) v))"

text \<open>One binding's value: nothing, or the coerced value in its canonical unit.\<close>

definition binding_value :: "runtime \<Rightarrow> xopt_binding \<Rightarrow> py_val \<Rightarrow> py_val option" where
  "binding_value rt b resolved =
     Option.bind (coerce_value rt (quantity_kind b) resolved) (\<lambda>v.
       case v of
         VFloat x \<Rightarrow>
           if canonical_unit b \<noteq> None \<and> canonical_unit b \<noteq> Some ''''
           then map_option VFloat (convert_to_canonical x (canonical_unit b) None) else Some v
       | _ \<Rightarrow> Some v)"

record row_result =
  rr_acc :: "accumulator option"
  rr_findings :: "quality_finding list"

fun accumulate ::
  "runtime \<Rightarrow> real \<Rightarrow> row \<Rightarrow> string \<Rightarrow> nat \<Rightarrow> xopt_binding list \<Rightarrow> accumulator \<Rightarrow> quality_finding list \<Rightarrow> row_result option" where
  "accumulate rt now row entity seq [] acc fs = Some \<lparr>rr_acc = Some acc, rr_findings = fs\<rparr>"
| "accumulate rt now row entity seq (b # bs) acc fs =
     (let outcome = apply_missing_value_policy rt now b entity (Suc seq) (row_get row (source_field b));
          fs' = fs @ (case po_finding outcome of None \<Rightarrow> [] | Some f \<Rightarrow> [f])
      in if drop_entity outcome then Some \<lparr>rr_acc = None, rr_findings = fs'\<rparr>
         else if po_value outcome = VNone then accumulate rt now row entity (Suc seq) bs acc fs'
         else Option.bind (binding_value rt b (po_value outcome)) (\<lambda>v.
                Option.bind (route_value b v acc) (\<lambda>acc'. accumulate rt now row entity (Suc seq) bs acc' fs')))"

definition entity_ref_of :: "runtime \<Rightarrow> mapping_table \<Rightarrow> row \<Rightarrow> string" where
  "entity_ref_of rt t row =
     py_str rt (dget_default row (case mt_key_field t of None \<Rightarrow> '''' | Some k \<Rightarrow> k) (VStr ''<unknown>''))"

definition accumulate_row :: "runtime \<Rightarrow> real \<Rightarrow> mapping_table \<Rightarrow> row \<Rightarrow> row_result option" where
  "accumulate_row rt now t row =
     accumulate rt now row (entity_ref_of rt t row) 0 (mt_bindings t)
       \<lparr>acc_values = [], acc_capabilities = [], acc_inventory = []\<rparr> []"

subsection \<open>Builders\<close>

text \<open>What the builders take from the environment: \<open>int(s)\<close> of a text and pydantic's validation of a
  string, a number and a timestamp (\<open>None\<close> is its \<open>ValidationError\<close>).\<close>

record mapping_env =
  me_rt :: runtime
  me_now :: real
  int_of_str :: "string \<Rightarrow> int option"
  valid_str :: "py_val \<Rightarrow> string option"
  valid_float :: "py_val \<Rightarrow> real option"
  valid_datetime :: "py_val \<Rightarrow> real option"

definition optional :: "(py_val \<Rightarrow> 'a option) \<Rightarrow> py_val \<Rightarrow> 'a option option" where
  "optional valid v = (if v = VNone then Some None else map_option Some (valid v))"

definition text_of :: "mapping_env \<Rightarrow> (string, py_val) dict \<Rightarrow> string \<Rightarrow> string \<Rightarrow> string" where
  "text_of env acc key fallback = py_str (me_rt env) (dget_default acc key (VStr fallback))"

definition required_text :: "mapping_env \<Rightarrow> (string, py_val) dict \<Rightarrow> string \<Rightarrow> string option" where
  "required_text env acc key = map_option (py_str (me_rt env)) (map_of acc key)"

definition required_float :: "mapping_env \<Rightarrow> (string, py_val) dict \<Rightarrow> string \<Rightarrow> real option" where
  "required_float env acc key = Option.bind (map_of acc key) (py_float (me_rt env))"

text \<open>\<open>float(acc[k]) if k in acc else None\<close>, and \<open>str(acc.get(k) or "") or None\<close>.\<close>

definition float_if_present :: "mapping_env \<Rightarrow> (string, py_val) dict \<Rightarrow> string \<Rightarrow> real option option" where
  "float_if_present env acc key =
     (case map_of acc key of None \<Rightarrow> Some None | Some v \<Rightarrow> map_option Some (py_float (me_rt env) v))"

definition text_or_none :: "mapping_env \<Rightarrow> (string, py_val) dict \<Rightarrow> string \<Rightarrow> string option" where
  "text_or_none env acc key =
     (let v = row_get acc key; s = (if truthy v then py_str (me_rt env) v else '''')
      in if s = '''' then None else Some s)"

definition int_of_val :: "mapping_env \<Rightarrow> py_val \<Rightarrow> int option" where
  "int_of_val env v =
     (case v of VInt i \<Rightarrow> Some i | VFloat x \<Rightarrow> Some (py_int x) | VBool b \<Rightarrow> Some (if b then 1 else 0)
      | VStr s \<Rightarrow> int_of_str env s | _ \<Rightarrow> None)"

definition parse_interval :: "mapping_env \<Rightarrow> py_val \<Rightarrow> time_interval option" where
  "parse_interval env item =
     (case split_once (CHR ''/'') (py_str (me_rt env) item) of
        None \<Rightarrow> None
      | Some (p0, p1) \<Rightarrow>
          if p0 = '''' then None
          else (case (valid_datetime env (VStr p0), optional (valid_datetime env) (if p1 = '''' then VNone else VStr p1)) of
                  (Some a, Some b) \<Rightarrow> Some \<lparr>ti_from = a, ti_to = b\<rparr>
                | _ \<Rightarrow> None))"

definition parse_time_intervals :: "mapping_env \<Rightarrow> py_val \<Rightarrow> time_interval list option" where
  "parse_time_intervals env raw =
     (if \<not> truthy raw then Some [] else map_option (List.map_filter (parse_interval env)) (iterate raw))"

definition vertex :: "runtime \<Rightarrow> py_val \<Rightarrow> real list option" where
  "vertex rt pair =
     (case pair of
        VList (a # b # rest) \<Rightarrow> (case (py_float rt a, py_float rt b) of (Some x, Some y) \<Rightarrow> Some [x, y] | _ \<Rightarrow> None)
      | _ \<Rightarrow> None)"

definition vertices :: "runtime \<Rightarrow> py_val \<Rightarrow> real list list" where
  "vertices rt raw =
     (if \<not> truthy raw then []
      else (case (case raw of VStr s \<Rightarrow> literal_eval rt s | _ \<Rightarrow> Some raw) of
              Some (VList pairs) \<Rightarrow> List.map_filter (vertex rt) pairs
            | _ \<Rightarrow> []))"

definition canonical_polygon :: "runtime \<Rightarrow> py_val \<Rightarrow> real list list" where
  "canonical_polygon rt raw =
     (let points = vertices rt raw;
          ring = (if 2 \<le> length points \<and> hd points = last points then butlast points else points)
      in if 3 \<le> length ring then ring else [])"

definition canonical_route :: "runtime \<Rightarrow> py_val \<Rightarrow> real list list" where
  "canonical_route rt raw = (let points = vertices rt raw in if 2 \<le> length points then points else [])"

definition build_asset :: "mapping_env \<Rightarrow> mapping_table \<Rightarrow> accumulator \<Rightarrow> asset option" where
  "build_asset env t acc =
     (let v = acc_values acc; loc = row_get v ''location'' in
      do { geoloc \<leftarrow> (if \<not> truthy loc then Some None
             else case loc of
                    VDict e \<Rightarrow> do { x \<leftarrow> Option.bind (map_of e ''lat'') (valid_float env);
                                 y \<leftarrow> Option.bind (map_of e ''lon'') (valid_float env);
                                 Some (Some \<lparr>gl_lat = x, gl_lon = y, gl_location_ref = None\<rparr>) }
                  | _ \<Rightarrow> None);
           i \<leftarrow> required_text env v ''assetId'';
           home \<leftarrow> optional (valid_str env) (row_get v ''homeDepotRef'');
           Some \<lparr>asset_id = i, asset_type = text_of env v ''assetType'' '''',
                 roles = (case mt_role t of Some (c # cs) \<Rightarrow> [c # cs] | _ \<Rightarrow> []), asset_status = ''available'',
                 mobility = text_of env v ''mobility'' ''mobile'', capabilities = acc_capabilities acc,
                 asset_location = geoloc, home_depot_ref = home, availability = [],
                 asset_name = text_of env v ''name'' '''', asset_source_ref = mt_contract_id t @ '':'' @ i,
                 asset_valid_from = None, asset_valid_to = None\<rparr> })"

record mapping_result =
  mr_assets :: "asset list"
  mr_locations :: "location list"
  mr_tasks :: "task list"
  mr_forecasts :: "forecast list"
  mr_observations :: "observation list"
  mr_commitments :: "commitment list"
  mr_inventory :: "inventory_position list"
  mr_travel_links :: "travel_link list"
  mr_cost_rates :: "cost_rate list"
  mr_findings :: "quality_finding list"
  mr_excluded :: "(string, string list) dict"

definition inventory_position_of :: "mapping_env \<Rightarrow> string \<Rightarrow> string \<times> string option \<times> py_val \<Rightarrow> inventory_position option" where
  "inventory_position_of env i entry =
     (case entry of (material, unit, qty) \<Rightarrow>
        map_option (\<lambda>q. \<lparr>ip_location_ref = i, ip_material_type = material, available_quantity = q,
          ip_unit = (case unit of None \<Rightarrow> '''' | Some u \<Rightarrow> u), reserved_quantity = 0\<rparr>) (py_float (me_rt env) qty))"

definition build_location :: "mapping_env \<Rightarrow> mapping_table \<Rightarrow> accumulator \<Rightarrow> mapping_result \<Rightarrow> (location \<times> mapping_result) option" where
  "build_location env t acc result =
     (let v = acc_values acc; rt = me_rt env;
          kind = row_get v ''locationType'';
          loc_type = (if truthy kind then py_str rt kind else case mt_role t of Some (c # cs) \<Rightarrow> c # cs | _ \<Rightarrow> ''field'');
          operations = row_get v ''restrictedOperations''
      in do { i \<leftarrow> required_text env v ''locationId'';
              stock \<leftarrow> those (map (inventory_position_of env i) (acc_inventory acc));
              x \<leftarrow> required_float env v ''lat'';
              y \<leftarrow> required_float env v ''lon'';
              ha \<leftarrow> float_if_present env v ''areaHa'';
              ops \<leftarrow> (if truthy operations then iterate operations else Some []);
              windows \<leftarrow> parse_time_intervals env (row_get v ''restrictionWindows'');
              power \<leftarrow> float_if_present env v ''chargingPowerKw'';
              slots \<leftarrow> float_if_present env v ''chargingSlots'';
              Some (\<lparr>location_id = i, location_type = loc_type, loc_lat = x, loc_lon = y,
                     loc_name = text_of env v ''name'' '''', area_ha = ha,
                     loc_soil_type = text_of env v ''soilType'' '''',
                     loc_polygon = canonical_polygon rt (row_get v ''polygon''),
                     loc_restricted_operations = map (py_str rt) ops, loc_restriction_windows = windows,
                     charging_power_kw = power, charging_slots = map_option py_int slots,
                     loc_source_ref = mt_contract_id t @ '':'' @ i, loc_extra = []\<rparr>,
                    result\<lparr>mr_inventory := mr_inventory result @ stock\<rparr>) })"

definition build_task :: "mapping_env \<Rightarrow> mapping_table \<Rightarrow> accumulator \<Rightarrow> task option" where
  "build_task env t acc =
     (let v = acc_values acc; rt = me_rt env; duration = row_get v ''serviceDurationMinutes'' in
      do { i \<leftarrow> required_text env v ''taskId'';
           operation \<leftarrow> required_text env v ''operationType'';
           place \<leftarrow> required_text env v ''locationRef'';
           ha \<leftarrow> float_if_present env v ''areaHa'';
           work \<leftarrow> float_if_present env v ''workQuantity'';
           minutes \<leftarrow> (if truthy duration then map_option (\<lambda>x. Some (py_int x)) (py_float rt duration) else Some None);
           load \<leftarrow> float_if_present env v ''loadDemand'';
           windows \<leftarrow> parse_time_intervals env (row_get v ''timeWindows'');
           due \<leftarrow> optional (valid_datetime env) (row_get v ''deadline'');
           priority \<leftarrow> int_of_val env (dget_default v ''priorityClass'' (VInt 5));
           value \<leftarrow> py_float rt (dget_default v ''revenueValue'' (VFloat 0));
           penalty \<leftarrow> py_float rt (dget_default v ''penaltyPerDay'' (VFloat 0));
           Some \<lparr>tk_id = i, tk_order_id = text_of env v ''orderId'' '''',
                 tk_alternative_group_ref = text_of env v ''alternativeGroupRef'' '''',
                 tk_operation_type = operation, tk_location_ref = place, tk_area_ha = ha,
                 tk_work_area_geometry = canonical_route rt (row_get v ''workAreaGeometry''),
                 tk_covered_geometry = canonical_route rt (row_get v ''coveredGeometry''),
                 tk_work_quantity = work, tk_work_quantity_unit = text_of env v ''workQuantityUnit'' '''',
                 tk_service_duration_minutes = minutes, tk_load_demand_kg = load,
                 tk_load_material = text_of env v ''loadMaterial'' '''',
                 tk_pickup_location_ref = text_or_none env v ''pickupLocationRef'', tk_time_windows = windows,
                 tk_depends_on_task_ref = text_or_none env v ''dependsOnTaskRef'', tk_deadline = due,
                 tk_priority_class = priority, tk_mandatory = False, tk_requirements = [], tk_material_requirements = [],
                 tk_revenue_value_eur = value, tk_penalty_per_day_eur = penalty,
                 tk_status = text_of env v ''status'' ''pending'', tk_source_ref = mt_contract_id t @ '':'' @ i\<rparr> })"

definition build_forecast :: "mapping_env \<Rightarrow> mapping_table \<Rightarrow> accumulator \<Rightarrow> forecast option" where
  "build_forecast env t acc =
     (let v = acc_values acc in
      do { span \<leftarrow> (case dget_default v ''forecastFor'' (VDict []) of
                      VDict e \<Rightarrow>
                        if truthy (row_get e ''from'') then
                          do { a \<leftarrow> valid_datetime env (row_get e ''from'');
                               b \<leftarrow> optional (valid_datetime env) (row_get e ''to'');
                               Some (Some \<lparr>ti_from = a, ti_to = b\<rparr>) }
                        else Some None
                    | _ \<Rightarrow> None);
           i \<leftarrow> required_text env v ''forecastId'';
           place \<leftarrow> (case row_get v ''location'' of
                       VNone \<Rightarrow> Some None
                     | VDict e \<Rightarrow> map_option Some (those (map (\<lambda>(k, x). map_option (Pair k) (valid_float env x)) e))
                     | _ \<Rightarrow> None);
           measures \<leftarrow> (case dget_default v ''value'' (VDict []) of VDict e \<Rightarrow> Some e | _ \<Rightarrow> None);
           Some \<lparr>forecast_id = i, forecast_type = ''weather'', fc_location = place, issued_at = None,
                 forecast_for = span, fc_value = measures, fc_confidence = None,
                 fc_source_ref = mt_contract_id t @ '':'' @ i\<rparr> })"

definition build_observation :: "mapping_env \<Rightarrow> mapping_table \<Rightarrow> accumulator \<Rightarrow> observation option" where
  "build_observation env t acc =
     (let v = acc_values acc; metric_code = text_of env v ''metric'' '''' in
      do { i \<leftarrow> required_text env v ''observationId'';
           x \<leftarrow> optional (py_float (me_rt env)) (row_get v ''value'');
           u \<leftarrow> optional (valid_str env) (row_get v ''unit'');
           seen \<leftarrow> optional (valid_datetime env) (row_get v ''observedAt'');
           arrived \<leftarrow> optional (valid_datetime env) (row_get v ''ingestedAt'');
           Some \<lparr>observation_id = i, entity_ref = text_of env v ''entityRef'' '''',
                 metric = dget_default (mt_metric_codes t) metric_code metric_code, obs_value = x,
                 state_value = text_of env v ''stateValue'' '''', obs_unit = u, observed_at = seen,
                 ingested_at = arrived, quality_flag = text_of env v ''qualityFlag'' '''', obs_confidence = None,
                 obs_source_ref = mt_contract_id t @ '':'' @ i, window_min = None, window_mean = None,
                 window_max = None, window_n = None\<rparr> })"

definition build_travel_link :: "mapping_env \<Rightarrow> mapping_table \<Rightarrow> accumulator \<Rightarrow> travel_link option" where
  "build_travel_link env t acc =
     (let v = acc_values acc; rt = me_rt env;
          mode = dget_default v ''networkMode'' (VStr ''any''); toll = dget_default v ''tollEur'' (VFloat 0)
      in do { i \<leftarrow> required_text env v ''linkId'';
              a \<leftarrow> required_text env v ''fromLocationRef'';
              b \<leftarrow> required_text env v ''toLocationRef'';
              s \<leftarrow> required_float env v ''travelTimeS'';
              km \<leftarrow> float_if_present env v ''distanceKm'';
              eur \<leftarrow> (if truthy toll then py_float rt toll else Some 0);
              Some \<lparr>link_id = i, from_location_ref = a, to_location_ref = b, travel_time_s = s, distance_km = km,
                    network_mode = (if truthy mode then py_str rt mode else ''any''),
                    route_geometry = canonical_route rt (row_get v ''routeGeometry''), toll_eur = max 0 eur,
                    tl_source_ref = mt_contract_id t @ '':'' @ i\<rparr> })"

definition build_cost_rate :: "mapping_env \<Rightarrow> mapping_table \<Rightarrow> accumulator \<Rightarrow> cost_rate option" where
  "build_cost_rate env t acc =
     (let v = acc_values acc in
      do { i \<leftarrow> required_text env v ''costRateId'';
           kind \<leftarrow> required_text env v ''rateType'';
           price \<leftarrow> required_float env v ''unitPrice'';
           a \<leftarrow> optional (valid_datetime env) (row_get v ''validFrom'');
           b \<leftarrow> optional (valid_datetime env) (row_get v ''validTo'');
           Some \<lparr>cost_rate_id = i, rate_type = kind, unit_price_eur = price, per_unit = text_of env v ''perUnit'' '''',
                 cr_valid_from = a, cr_valid_to = b, cr_source_ref = mt_contract_id t @ '':'' @ i\<rparr> })"

definition hardness_of_value :: "string \<Rightarrow> commitment_hardness option" where
  "hardness_of_value s = map_of [(''hard'', HARD), (''medium'', MEDIUM), (''soft'', SOFT)] s"

definition build_commitment :: "mapping_env \<Rightarrow> mapping_table \<Rightarrow> accumulator \<Rightarrow> commitment option" where
  "build_commitment env t acc =
     (let v = acc_values acc;
          terms = filter (\<lambda>(k, x). x \<noteq> VNone) (map (\<lambda>k. (k, row_get v k)) [''deadline'', ''latenessPenalty''])
      in do { i \<leftarrow> required_text env v ''commitmentId'';
              ref \<leftarrow> optional (valid_str env) (row_get v ''taskRef'');
              h \<leftarrow> hardness_of_value (text_of env v ''hardness'' ''medium'');
              a \<leftarrow> optional (valid_datetime env) (row_get v ''validFrom'');
              b \<leftarrow> optional (valid_datetime env) (row_get v ''validTo'');
              Some \<lparr>commitment_id = i, contract_id = text_of env v ''contractRef'' '''', com_task_id = ref,
                    commitment_type = text_of env v ''commitmentType'' '''', hardness = h, com_value = terms,
                    penalty_rule_ref = None, com_valid_from = a, com_valid_to = b\<rparr> })"

subsection \<open>The engine\<close>

type_synonym entity_emitter =
  "mapping_env \<Rightarrow> mapping_table \<Rightarrow> accumulator \<Rightarrow> mapping_result \<Rightarrow> mapping_result option"

definition emit_asset :: entity_emitter where
  "emit_asset env t acc r = map_option (\<lambda>x. r\<lparr>mr_assets := mr_assets r @ [x]\<rparr>) (build_asset env t acc)"

definition emit_location :: entity_emitter where
  "emit_location env t acc r =
     map_option (\<lambda>(x, r'). r'\<lparr>mr_locations := mr_locations r' @ [x]\<rparr>) (build_location env t acc r)"

definition emit_task :: entity_emitter where
  "emit_task env t acc r = map_option (\<lambda>x. r\<lparr>mr_tasks := mr_tasks r @ [x]\<rparr>) (build_task env t acc)"

definition emit_forecast :: entity_emitter where
  "emit_forecast env t acc r = map_option (\<lambda>x. r\<lparr>mr_forecasts := mr_forecasts r @ [x]\<rparr>) (build_forecast env t acc)"

definition emit_observation :: entity_emitter where
  "emit_observation env t acc r = map_option (\<lambda>x. r\<lparr>mr_observations := mr_observations r @ [x]\<rparr>) (build_observation env t acc)"

definition emit_commitment :: entity_emitter where
  "emit_commitment env t acc r = map_option (\<lambda>x. r\<lparr>mr_commitments := mr_commitments r @ [x]\<rparr>) (build_commitment env t acc)"

definition emit_travel_link :: entity_emitter where
  "emit_travel_link env t acc r = map_option (\<lambda>x. r\<lparr>mr_travel_links := mr_travel_links r @ [x]\<rparr>) (build_travel_link env t acc)"

definition emit_cost_rate :: entity_emitter where
  "emit_cost_rate env t acc r = map_option (\<lambda>x. r\<lparr>mr_cost_rates := mr_cost_rates r @ [x]\<rparr>) (build_cost_rate env t acc)"

definition entity_emitters :: "(string, entity_emitter) dict" where
  "entity_emitters =
     [(''asset'', emit_asset), (''location'', emit_location), (''task'', emit_task), (''forecast'', emit_forecast),
      (''observation'', emit_observation), (''commitment'', emit_commitment), (''travel-link'', emit_travel_link),
      (''cost-rate'', emit_cost_rate)]"

definition register_entity_emitter ::
  "string \<Rightarrow> entity_emitter \<Rightarrow> (string, entity_emitter) dict \<Rightarrow> (string, entity_emitter) dict" where
  "register_entity_emitter entity f emitters = AList.update entity f emitters"

definition map_row :: "mapping_env \<Rightarrow> entity_emitter \<Rightarrow> mapping_table \<Rightarrow> row \<Rightarrow> mapping_result \<Rightarrow> mapping_result option" where
  "map_row env emit t row r =
     (case accumulate_row (me_rt env) (me_now env) t row of
        None \<Rightarrow> None
      | Some rr \<Rightarrow>
          let r' = r\<lparr>mr_findings := mr_findings r @ rr_findings rr\<rparr> in
          (case rr_acc rr of
             None \<Rightarrow> Some (r'\<lparr>mr_excluded := dappend (mt_contract_id t) (entity_ref_of (me_rt env) t row) (mr_excluded r')\<rparr>)
           | Some acc \<Rightarrow> emit env t acc r'))"

fun map_rows :: "mapping_env \<Rightarrow> entity_emitter \<Rightarrow> mapping_table \<Rightarrow> row list \<Rightarrow> mapping_result \<Rightarrow> mapping_result option" where
  "map_rows env emit t [] r = Some r"
| "map_rows env emit t (row # rows) r = Option.bind (map_row env emit t row r) (map_rows env emit t rows)"

text \<open>\<open>map_dataset\<close>: an entity without an emitter is logged and leaves the result as it is.\<close>

definition map_dataset ::
  "mapping_env \<Rightarrow> (string, entity_emitter) dict \<Rightarrow> mapping_table \<Rightarrow> row list \<Rightarrow> mapping_result \<Rightarrow> mapping_result option" where
  "map_dataset env emitters t rows r =
     (case map_of emitters (mt_entity t) of None \<Rightarrow> Some r | Some emit \<Rightarrow> map_rows env emit t rows r)"

subsection \<open>What a row's bindings yield\<close>

text \<open>The source of one binding's value: the row itself, or a recorded fallback.\<close>

definition fallback_of :: "xopt_binding \<Rightarrow> py_val" where
  "fallback_of b = VFloat (dget_default conservative_fallback (case quantity_kind b of None \<Rightarrow> '''' | Some k \<Rightarrow> k) 0)"

definition imputed :: "xopt_binding \<Rightarrow> string \<Rightarrow> quality_finding \<Rightarrow> bool" where
  "imputed b entity f \<longleftrightarrow> qf_severity f = INFO \<and> field_ref f = Some (source_field b) \<and> qf_entity_ref f = entity
     \<and> normalized_value f = fallback_of b \<and> action_applied f \<in> {''fallback-to-conservative-value'', ''impute''}"

definition sourced :: "runtime \<Rightarrow> row \<Rightarrow> string \<Rightarrow> quality_finding list \<Rightarrow> xopt_binding \<Rightarrow> py_val option \<Rightarrow> bool" where
  "sourced rt row entity fs b value \<longleftrightarrow>
     (let raw = row_get row (source_field b) in
      case value of
        None \<Rightarrow> is_missing raw
      | Some v \<Rightarrow> if is_missing raw then binding_value rt b (fallback_of b) = Some v \<and> (\<exists>f\<in>set fs. imputed b entity f)
                  else binding_value rt b raw = Some v)"

fun route_all :: "xopt_binding list \<Rightarrow> py_val option list \<Rightarrow> accumulator \<Rightarrow> accumulator option" where
  "route_all (b # bs) (Some v # vs) acc = Option.bind (route_value b v acc) (route_all bs vs)"
| "route_all (b # bs) (None # vs) acc = route_all bs vs acc"
| "route_all _ _ acc = Some acc"

lemma policy_cases:
  obtains (kept) "\<not> is_missing raw" "apply_missing_value_policy rt now b entity seq raw = \<lparr>po_value = raw, drop_entity = False, po_finding = None\<rparr>"
  | (absent) fs where "is_missing raw" "apply_missing_value_policy rt now b entity seq raw = \<lparr>po_value = VNone, drop_entity = False, po_finding = fs\<rparr>"
  | (fallback) f where "is_missing raw" "imputed b entity f"
      "apply_missing_value_policy rt now b entity seq raw = \<lparr>po_value = fallback_of b, drop_entity = False, po_finding = Some f\<rparr>"
  | (dropped) f where "is_missing raw" "apply_missing_value_policy rt now b entity seq raw = \<lparr>po_value = VNone, drop_entity = True, po_finding = Some f\<rparr>"
      "qf_entity_ref f = entity" "qf_severity f \<in> {WARNING, ERROR}"
proof (cases "is_missing raw")
  case False
  then show ?thesis by (intro kept) (simp_all add: apply_missing_value_policy_def)
next
  case missing: True
  note d = apply_missing_value_policy_def missing_finding_def imputed_def fallback_of_def Let_def
  let ?f = "missing_finding rt now b entity seq raw"
  show ?thesis
  proof (cases "missing_policy b")
    case None
    then show ?thesis using missing by (intro dropped [of "?f ERROR ''reject-for-planning'' VNone"]) (simp_all add: d)
  next
    case (Some p)
    note here = missing Some
    show ?thesis
    proof (cases p)
      case ACCEPT_OPTIONAL
      then show ?thesis using here by (intro absent [of None]) (simp_all add: d)
    next
      case ACCEPT_WITH_WARNING
      then show ?thesis using here by (intro absent [of "Some (?f WARNING ''accept-with-warning'' VNone)"]) (simp_all add: d)
    next
      case FALLBACK_TO_CONSERVATIVE_VALUE
      then show ?thesis using here by (intro fallback [of "?f INFO (policy_value p) (fallback_of b)"]) (simp_all add: d)
    next
      case IMPUTE
      then show ?thesis using here by (intro fallback [of "?f INFO (policy_value p) (fallback_of b)"]) (simp_all add: d)
    next
      case REJECT_FOR_PLANNING
      then show ?thesis using here by (intro dropped [of "?f ERROR ''reject-for-planning'' VNone"]) (simp_all add: d)
    qed (use here in \<open>intro dropped [of "?f WARNING (policy_value p) VNone"]; simp add: d\<close>)+
  qed
qed

lemma binding_value_accumulates:
  "accumulate rt now row entity seq bs acc fs = Some rr \<Longrightarrow> rr_acc rr = Some acc' \<Longrightarrow>
     \<exists>vs. length vs = length bs \<and> list_all2 (sourced rt row entity (rr_findings rr)) bs vs \<and> route_all bs vs acc = Some acc'
       \<and> set fs \<subseteq> set (rr_findings rr)"
proof (induction bs arbitrary: seq acc fs)
  case (Cons b bs)
  let ?raw = "row_get row (source_field b)"
  have step: ?case
    if vs: "length vs = length bs" "list_all2 (sourced rt row entity (rr_findings rr)) bs vs" "route_all (b # bs) (x # vs) acc = Some acc'"
      and sub: "set fs \<subseteq> set (rr_findings rr)" and x: "sourced rt row entity (rr_findings rr) b x" for x vs
    by (rule exI [of _ "x # vs"]) (simp add: vs sub x)
  show ?case
  proof (cases rule: policy_cases [of ?raw rt now b entity "Suc seq"])
    case kept
    have "?raw \<noteq> VNone" using kept(1) by (auto simp: is_missing_def)
    then obtain v acc1 where v: "binding_value rt b ?raw = Some v" "route_value b v acc = Some acc1"
      and rest: "accumulate rt now row entity (Suc seq) bs acc1 fs = Some rr"
      using Cons.prems(1) kept(2) by (auto split: bind_splits)
    from Cons.IH [OF rest Cons.prems(2)] obtain vs where
      "length vs = length bs" "list_all2 (sourced rt row entity (rr_findings rr)) bs vs" "route_all bs vs acc1 = Some acc'"
      "set fs \<subseteq> set (rr_findings rr)" by blast
    then show ?thesis using v kept(1) by (intro step [of vs "Some v"]) (auto simp: sourced_def)
  next
    case (absent fs1)
    define fs' where "fs' = fs @ (case fs1 of None \<Rightarrow> [] | Some f \<Rightarrow> [f])"
    have sub: "set fs \<subseteq> set fs'" by (simp add: fs'_def)
    have rest: "accumulate rt now row entity (Suc seq) bs acc fs' = Some rr"
      using Cons.prems(1) absent by (simp add: Let_def fs'_def)
    from Cons.IH [OF rest Cons.prems(2)] obtain vs where
      "length vs = length bs" "list_all2 (sourced rt row entity (rr_findings rr)) bs vs" "route_all bs vs acc = Some acc'"
      "set fs' \<subseteq> set (rr_findings rr)" by blast
    then show ?thesis using absent(1) sub by (intro step [of vs None]) (auto simp: sourced_def)
  next
    case (fallback f)
    then obtain v acc1 where v: "binding_value rt b (fallback_of b) = Some v" "route_value b v acc = Some acc1"
      and rest: "accumulate rt now row entity (Suc seq) bs acc1 (fs @ [f]) = Some rr"
      using Cons.prems(1) by (auto simp: fallback_of_def split: bind_splits)
    from Cons.IH [OF rest Cons.prems(2)] obtain vs where
      "length vs = length bs" "list_all2 (sourced rt row entity (rr_findings rr)) bs vs" "route_all bs vs acc1 = Some acc'"
      "set (fs @ [f]) \<subseteq> set (rr_findings rr)" by blast
    then show ?thesis using v fallback(1,2) by (intro step [of vs "Some v"]) (auto simp: sourced_def)
  next
    case (dropped f)
    then have "rr_acc rr = None" using Cons.prems(1) by auto
    with Cons.prems(2) show ?thesis by simp
  qed
qed auto

lemma accumulate_dropped:
  "accumulate rt now row entity seq bs acc fs = Some rr \<Longrightarrow> rr_acc rr = None \<Longrightarrow>
     \<exists>f\<in>set (rr_findings rr). qf_entity_ref f = entity \<and> qf_severity f \<in> {WARNING, ERROR}"
proof (induction bs arbitrary: seq acc fs)
  case (Cons b bs)
  let ?raw = "row_get row (source_field b)"
  show ?case
  proof (cases rule: policy_cases [of ?raw rt now b entity "Suc seq"])
    case kept
    have "?raw \<noteq> VNone" using kept(1) by (auto simp: is_missing_def)
    then show ?thesis using Cons.prems(1) kept(2) by (auto split: bind_splits dest!: Cons.IH [OF _ Cons.prems(2)])
  next
    case (absent fs1)
    then show ?thesis using Cons.prems(1) by (auto simp: Let_def dest!: Cons.IH [OF _ Cons.prems(2)])
  next
    case (fallback f)
    then show ?thesis using Cons.prems(1) by (auto simp: fallback_of_def split: bind_splits dest!: Cons.IH [OF _ Cons.prems(2)])
  next
    case (dropped f)
    then show ?thesis using Cons.prems(1) by auto
  qed
qed auto

text \<open>C38: No value is silently imputed: an accepted row's accumulator is exactly the routing, in binding
  order, of values each of which is the coerced value of the row's own field, or a conservative fallback
  recorded by a quality finding for that entity and field; a missing field without one routes nothing.\<close>

theorem no_silent_imputation:
  assumes "accumulate_row rt now t row = Some rr" "rr_acc rr = Some acc"
  shows "\<exists>vs. list_all2 (sourced rt row (entity_ref_of rt t row) (rr_findings rr)) (mt_bindings t) vs
    \<and> route_all (mt_bindings t) vs \<lparr>acc_values = [], acc_capabilities = [], acc_inventory = []\<rparr> = Some acc"
  using binding_value_accumulates [OF assms(1) [unfolded accumulate_row_def] assms(2)] by blast

subsection \<open>Every row is emitted or excluded\<close>

definition n_objects :: "mapping_result \<Rightarrow> nat" where
  "n_objects r = length (mr_assets r) + length (mr_locations r) + length (mr_tasks r) + length (mr_forecasts r)
     + length (mr_observations r) + length (mr_commitments r) + length (mr_travel_links r) + length (mr_cost_rates r)"

definition excluded_ids :: "string \<Rightarrow> mapping_result \<Rightarrow> string list" where
  "excluded_ids cid r = dget_default (mr_excluded r) cid []"

text \<open>From \<open>r\<close> to \<open>r'\<close> the contract's \<open>n\<close> rows were mapped: each is an object or an excluded id, each
  id newly excluded has a finding that says so, and nothing recorded before is lost.\<close>

definition mapped :: "string \<Rightarrow> nat \<Rightarrow> mapping_result \<Rightarrow> mapping_result \<Rightarrow> bool" where
  "mapped cid n r r' \<longleftrightarrow>
     n_objects r' + length (excluded_ids cid r') = n_objects r + length (excluded_ids cid r) + n
     \<and> (\<forall>c. c \<noteq> cid \<longrightarrow> excluded_ids c r' = excluded_ids c r)
     \<and> set (mr_findings r) \<subseteq> set (mr_findings r')
     \<and> set (excluded_ids cid r) \<subseteq> set (excluded_ids cid r')
     \<and> (\<forall>e\<in>set (excluded_ids cid r') - set (excluded_ids cid r).
          \<exists>f\<in>set (mr_findings r'). qf_entity_ref f = e \<and> qf_severity f \<in> {WARNING, ERROR})"

lemma mapped_refl: "mapped cid 0 r r"
  by (simp add: mapped_def)

lemma mapped_trans:
  assumes a: "mapped cid m r r1" and b: "mapped cid n r1 r2"
  shows "mapped cid (m + n) r r2"
proof -
  have "\<exists>f\<in>set (mr_findings r2). qf_entity_ref f = e \<and> qf_severity f \<in> {WARNING, ERROR}"
    if e: "e \<in> set (excluded_ids cid r2) - set (excluded_ids cid r)" for e
  proof (cases "e \<in> set (excluded_ids cid r1)")
    case True
    then obtain f where "f \<in> set (mr_findings r1)" "qf_entity_ref f = e" "qf_severity f \<in> {WARNING, ERROR}"
      using a e unfolding mapped_def by blast
    then show ?thesis using b unfolding mapped_def by blast
  next
    case False
    then show ?thesis using b e unfolding mapped_def by blast
  qed
  moreover have "set (mr_findings r) \<subseteq> set (mr_findings r2)" "set (excluded_ids cid r) \<subseteq> set (excluded_ids cid r2)"
    using a b unfolding mapped_def by (blast, blast)
  ultimately show ?thesis using a b by (simp add: mapped_def)
qed

text \<open>The contract of an emitter: one object, and neither a finding nor an exclusion.\<close>

locale emitter =
  fixes emit :: entity_emitter
  assumes one_object: "emit env t acc r = Some r' \<Longrightarrow>
    n_objects r' = Suc (n_objects r) \<and> mr_findings r' = mr_findings r \<and> mr_excluded r' = mr_excluded r"
begin

lemma row_mapped:
  assumes "map_row env emit t row r = Some r'"
  shows "mapped (mt_contract_id t) 1 r r'"
proof -
  obtain rr where rr: "accumulate_row (me_rt env) (me_now env) t row = Some rr"
    using assms by (auto simp: map_row_def split: option.splits)
  show ?thesis
  proof (cases "rr_acc rr")
    case None
    from accumulate_dropped [OF rr [unfolded accumulate_row_def] None] show ?thesis
      using assms rr None
      by (auto simp: map_row_def Let_def n_objects_def mapped_def excluded_ids_def dget_default_dappend)
  next
    case (Some acc)
    then have "emit env t acc (r\<lparr>mr_findings := mr_findings r @ rr_findings rr\<rparr>) = Some r'"
      using assms rr by (simp add: map_row_def Let_def)
    from one_object [OF this] show ?thesis by (auto simp: n_objects_def mapped_def excluded_ids_def)
  qed
qed

lemma rows_mapped: "map_rows env emit t rows r = Some r' \<Longrightarrow> mapped (mt_contract_id t) (length rows) r r'"
proof (induction rows arbitrary: r)
  case (Cons row rows)
  then obtain r1 where r1: "map_row env emit t row r = Some r1" "map_rows env emit t rows r1 = Some r'"
    by (auto split: bind_splits)
  from mapped_trans [OF row_mapped [OF r1(1)] Cons.IH [OF r1(2)]] show ?case by simp
qed (simp add: mapped_refl)

end

interpretation asset_emitter: emitter emit_asset
  by unfold_locales (auto simp: emit_asset_def n_objects_def)

interpretation location_emitter: emitter emit_location
  by unfold_locales (auto simp: emit_location_def build_location_def n_objects_def Let_def split: bind_splits)

interpretation task_emitter: emitter emit_task
  by unfold_locales (auto simp: emit_task_def n_objects_def)

interpretation forecast_emitter: emitter emit_forecast
  by unfold_locales (auto simp: emit_forecast_def n_objects_def)

interpretation observation_emitter: emitter emit_observation
  by unfold_locales (auto simp: emit_observation_def n_objects_def)

interpretation commitment_emitter: emitter emit_commitment
  by unfold_locales (auto simp: emit_commitment_def n_objects_def)

interpretation travel_link_emitter: emitter emit_travel_link
  by unfold_locales (auto simp: emit_travel_link_def n_objects_def)

interpretation cost_rate_emitter: emitter emit_cost_rate
  by unfold_locales (auto simp: emit_cost_rate_def n_objects_def)

lemma entity_emitters_sound: "map_of entity_emitters entity = Some emit \<Longrightarrow> emitter emit"
  by (auto simp: entity_emitters_def asset_emitter.emitter_axioms location_emitter.emitter_axioms
      task_emitter.emitter_axioms forecast_emitter.emitter_axioms observation_emitter.emitter_axioms
      commitment_emitter.emitter_axioms travel_link_emitter.emitter_axioms cost_rate_emitter.emitter_axioms split: if_splits)



subsection \<open>What the mapping does not do\<close>

text \<open>No conversion ever takes place: the accumulator declares no source unit.\<close>

lemma units_not_converted: "binding_value rt b v = coerce_value rt (quantity_kind b) v"
  by (auto simp: binding_value_def convert_to_canonical_def split: option.split py_val.split bind_splits)

lemma conversion_round_trip:
  assumes "convert_to_canonical x (Some b) (Some a) = Some y"
  shows "convert_to_canonical y (Some a) (Some b) = Some x"
proof (cases "a = b")
  case False
  then obtain f where f: "map_of conversion_factors (a, b) = Some f" and y: "y = x * f"
    using assms by (auto simp: convert_to_canonical_def)
  have nz: "f \<noteq> 0" using f by (auto simp: conversion_factors_def split: if_splits)
  have "map_of conversion_factors (b, a) = Some (1 / f)"
    using f nz by (auto simp: conversion_factors_def field_simps split: if_splits)
  with nz show ?thesis using False y by (simp add: convert_to_canonical_def)
qed (use assms in \<open>simp add: convert_to_canonical_def\<close>)

text \<open>A value that is present but cannot be coerced ends the dataset, whatever the field's policy.\<close>

lemma unparseable_value_ends_dataset:
  assumes "mt_bindings t = b # bs" "\<not> is_missing (row_get row (source_field b))"
    and "coerce_value (me_rt env) (quantity_kind b) (row_get row (source_field b)) = None"
    and "map_of emitters (mt_entity t) = Some emit"
  shows "map_dataset env emitters t (row # rows) r = None"
proof -
  have "row_get row (source_field b) \<noteq> VNone" using assms(2) by (auto simp: is_missing_def)
  then show ?thesis using assms
    by (simp add: map_dataset_def map_row_def accumulate_row_def apply_missing_value_policy_def binding_value_def)
qed

subsection \<open>A closed instance\<close>

definition sample_mapping_env :: mapping_env where
  "sample_mapping_env =
     \<lparr>me_rt = sample_runtime, me_now = 0, int_of_str = Map.empty,
      valid_str = (\<lambda>v. case v of VStr s \<Rightarrow> Some s | _ \<Rightarrow> None),
      valid_float = (\<lambda>v. case v of VFloat x \<Rightarrow> Some x | _ \<Rightarrow> None),
      valid_datetime = (\<lambda>v. case v of VTime x \<Rightarrow> Some x | _ \<Rightarrow> None)\<rparr>"

definition sample_binding :: "string \<Rightarrow> string \<Rightarrow> string list \<Rightarrow> string option \<Rightarrow> missing_value_policy option \<Rightarrow> xopt_binding" where
  "sample_binding column path use kind policy =
     \<lparr>source_field = column, binding_path = path, planning_use = use, xb_semantic_term = path, canonical_unit = None,
      quantity_kind = kind, quality_policy_ref = None, missing_policy = policy\<rparr>"

definition sample_mapping :: mapping_table where
  "sample_mapping =
     \<lparr>mt_contract_id = ''orders'', mt_entity = ''task'', mt_role = None,
      mt_bindings =
        [sample_binding ''id'' ''task.taskId'' [''identity''] None (Some REJECT_FOR_PLANNING),
         sample_binding ''op'' ''task.operationType'' [] None (Some QUARANTINE),
         sample_binding ''where'' ''task.locationRef'' [] None (Some REJECT_FOR_PLANNING),
         sample_binding ''due'' ''task.deadline'' [] (Some ''timestamp'') (Some ACCEPT_OPTIONAL),
         sample_binding ''ha'' ''task.areaHa'' [] (Some ''area'') (Some FALLBACK_TO_CONSERVATIVE_VALUE)],
      mt_metric_codes = []\<rparr>"

definition sample_source_rows :: "row list" where
  "sample_source_rows =
     [[(''id'', VStr ''A''), (''op'', VStr ''SPRAY''), (''where'', VStr ''field''), (''due'', VStr ''t3''), (''ha'', VFloat 5)],
      [(''id'', VStr ''B''), (''op'', VStr '' ''), (''where'', VStr ''field'')],
      [(''id'', VStr ''C''), (''op'', VStr ''SPRAY''), (''where'', VStr ''field'')]]"

definition no_result :: mapping_result where
  "no_result =
     \<lparr>mr_assets = [], mr_locations = [], mr_tasks = [], mr_forecasts = [], mr_observations = [], mr_commitments = [],
      mr_inventory = [], mr_travel_links = [], mr_cost_rates = [], mr_findings = [], mr_excluded = []\<rparr>"

lemma sample_mapped:
  "map_option (\<lambda>r. (map (\<lambda>k. (tk_id k, tk_area_ha k, tk_deadline k)) (mr_tasks r), mr_excluded r, map action_applied (mr_findings r)))
     (map_dataset sample_mapping_env entity_emitters sample_mapping sample_source_rows no_result)
   = Some ([(''A'', Some 5, Some 300), (''C'', Some 0, None)], [(''orders'', [''B''])],
       [''quarantine'', ''fallback-to-conservative-value''])"
  by code_simp


lemma sample_accumulated:
  "map_option (\<lambda>rr. map_option acc_values (rr_acc rr)) (accumulate_row sample_runtime 0 sample_mapping (sample_source_rows ! 2))
   = Some (Some [(''taskId'', VStr ''C''), (''operationType'', VStr ''SPRAY''), (''locationRef'', VStr ''field''), (''areaHa'', VFloat 0)])"
  by code_simp

lemma no_silent_imputation_witness:
  "\<exists>rr acc vs. accumulate_row sample_runtime 0 sample_mapping (sample_source_rows ! 2) = Some rr \<and> rr_acc rr = Some acc
     \<and> list_all2 (sourced sample_runtime (sample_source_rows ! 2) (entity_ref_of sample_runtime sample_mapping (sample_source_rows ! 2)) (rr_findings rr))
          (mt_bindings sample_mapping) vs
     \<and> route_all (mt_bindings sample_mapping) vs \<lparr>acc_values = [], acc_capabilities = [], acc_inventory = []\<rparr> = Some acc"
proof -
  obtain rr acc where rr: "accumulate_row sample_runtime 0 sample_mapping (sample_source_rows ! 2) = Some rr" "rr_acc rr = Some acc"
    using sample_accumulated by (auto simp del: nth_Cons_numeral)
  from no_silent_imputation [OF rr] rr show ?thesis by blast
qed

end
