(* ===== verification/Inputs.thy ===== *)
theory Inputs
  imports Chain Canonicalize Rolling
begin

text \<open>
  The projection of a snapshot into the typed rows of the solver chain (\<open>solver/inputs.py\<close>, the row
  classes of \<open>solver/types.py\<close>): each canonical entity is read binding by binding into a dict of canonical
  keys, which the row class completes with its defaults. The rendering of timestamps (\<open>isoformat\<close>), the
  registry's entries and the defaults set by the environment are parameters. A row is the dict of its
  fields; \<open>None\<close> is the \<open>TypeError\<close> of a missing required field.
\<close>

subsection \<open>Row classes\<close>

datatype annotation = TStr | TFloat | TOptStr | TOptFloat | TAny

definition is_text :: "py_val \<Rightarrow> bool" where
  "is_text v \<longleftrightarrow> (case v of VStr s \<Rightarrow> True | _ \<Rightarrow> False)"

definition is_number :: "py_val \<Rightarrow> bool" where
  "is_number v \<longleftrightarrow> (case v of VFloat x \<Rightarrow> True | VInt i \<Rightarrow> True | _ \<Rightarrow> False)"

lemma is_text_simps [simp]: "is_text (VStr s)" "\<not> is_text VNone" "\<not> is_text (VInt i)"
  by (simp_all add: is_text_def)

lemma is_number_simps [simp]: "is_number (VFloat x)" "is_number (VInt i)" "\<not> is_number VNone"
  by (simp_all add: is_number_def)

text \<open>A value agrees with a field's annotation; an integer is accepted for a float.\<close>

fun has_type :: "annotation \<Rightarrow> py_val \<Rightarrow> bool" where
  "has_type TStr v = is_text v"
| "has_type TFloat v = is_number v"
| "has_type TOptStr v = (v = VNone \<or> is_text v)"
| "has_type TOptFloat v = (v = VNone \<or> is_number v)"
| "has_type TAny v = True"

type_synonym row_class = "(string \<times> annotation \<times> py_val option) list"
type_synonym solver_row = "(string, py_val) dict"

record row_defaults =
  rd_fuel_consumption :: real
  rd_travel_speed :: real
  rd_working_width :: real
  rd_operating_speed :: real

definition prime_mover_class :: "row_defaults \<Rightarrow> row_class" where
  "prime_mover_class d =
     [(''asset_id'', TStr, None), (''asset_type'', TStr, Some (VStr '''')), (''name'', TStr, Some (VStr '''')),
      (''home_depot_ref'', TStr, Some (VStr '''')), (''lat'', TFloat, Some (VFloat 0)), (''lon'', TFloat, Some (VFloat 0)),
      (''rated_power'', TFloat, Some (VFloat 0)), (''fuel_tank_volume'', TFloat, Some (VFloat 0)),
      (''fuel_consumption_rate'', TFloat, Some (VFloat (rd_fuel_consumption d))),
      (''energy_resource_type'', TStr, Some (VStr ''fuel'')), (''energy_unit'', TStr, Some (VStr ''L'')),
      (''energy_capacity'', TFloat, Some (VFloat 0)), (''energy_consumption_rate'', TFloat, Some (VFloat 0)),
      (''machine_wear_eur_per_h'', TFloat, Some (VFloat 0)), (''travel_speed'', TFloat, Some (VFloat (rd_travel_speed d))),
      (''load_capacity'', TFloat, Some (VFloat 0)), (''load_capacities'', TAny, Some (VDict [])),
      (''compatible_operations'', TAny, Some (VList []))]"

definition related_class :: "row_defaults \<Rightarrow> row_class" where
  "related_class d =
     [(''asset_id'', TStr, None), (''asset_type'', TStr, Some (VStr '''')), (''name'', TStr, Some (VStr '''')),
      (''home_depot_ref'', TStr, Some (VStr '''')), (''required_power'', TFloat, Some (VFloat 0)),
      (''working_width'', TFloat, Some (VFloat (rd_working_width d))), (''min_speed'', TFloat, Some (VFloat 0)),
      (''max_speed'', TFloat, Some (VFloat (rd_operating_speed d))), (''material_capacity'', TFloat, Some (VFloat 0)),
      (''work_rates'', TAny, Some (VDict [])), (''compatible_operations'', TAny, Some (VList []))]"

definition operator_class :: row_class where
  "operator_class =
     [(''asset_id'', TStr, None), (''name'', TStr, Some (VStr '''')), (''home_depot_ref'', TStr, Some (VStr '''')),
      (''shift_start'', TStr, Some (VStr '''')), (''shift_end'', TStr, Some (VStr '''')),
      (''wage_eur_per_h'', TFloat, Some (VFloat 0)), (''certified_operations'', TAny, Some (VList []))]"

definition site_class :: row_class where
  "site_class =
     [(''location_id'', TStr, None), (''location_type'', TStr, Some (VStr ''field'')), (''name'', TStr, Some (VStr '''')),
      (''lat'', TFloat, Some (VFloat 0)), (''lon'', TFloat, Some (VFloat 0)), (''area'', TFloat, Some (VFloat 0)),
      (''soil_type'', TStr, Some (VStr '''')), (''polygon'', TAny, Some VNone),
      (''restricted_operations'', TAny, Some (VList [])), (''restriction_windows'', TAny, Some (VList []))]"

definition depot_class :: row_class where
  "depot_class =
     [(''location_id'', TStr, None), (''name'', TStr, Some (VStr '''')), (''lat'', TFloat, Some (VFloat 0)),
      (''lon'', TFloat, Some (VFloat 0)), (''inventory_fuel'', TFloat, Some (VFloat 0)),
      (''inventory_material'', TFloat, Some (VFloat 0)), (''inventory_energy'', TFloat, Some (VFloat 0)),
      (''energy_resource_type'', TStr, Some (VStr '''')), (''energy_unit'', TStr, Some (VStr ''''))]"

definition forecast_class :: row_class where
  "forecast_class =
     [(''forecast_id'', TStr, None), (''lat'', TFloat, Some (VFloat 0)), (''lon'', TFloat, Some (VFloat 0)),
      (''valid_from'', TOptStr, Some VNone), (''valid_to'', TOptStr, Some VNone), (''wind_speed'', TOptFloat, Some VNone),
      (''precipitation_rate'', TOptFloat, Some VNone), (''soil_moisture'', TOptFloat, Some VNone)]"

definition travel_link_class :: row_class where
  "travel_link_class =
     [(''link_id'', TStr, None), (''from_location_ref'', TStr, Some (VStr '''')), (''to_location_ref'', TStr, Some (VStr '''')),
      (''travel_time_s'', TFloat, Some (VFloat 0)), (''distance_km'', TFloat, Some (VFloat 0)),
      (''network_mode'', TStr, Some (VStr ''any'')), (''route_geometry'', TAny, Some (VList [])),
      (''toll_eur'', TFloat, Some (VFloat 0))]"

definition cost_rate_class :: row_class where
  "cost_rate_class =
     [(''rate_id'', TStr, None), (''rate_type'', TStr, Some (VStr '''')), (''unit_price'', TFloat, Some (VFloat 0)),
      (''per_unit'', TStr, Some (VStr '''')), (''valid_from'', TOptStr, Some VNone), (''valid_to'', TOptStr, Some VNone)]"

definition task_class :: row_class where
  "task_class =
     [(''task_id'', TStr, None), (''order_ref'', TStr, Some (VStr '''')), (''alternative_group_ref'', TStr, Some (VStr '''')),
      (''location_ref'', TStr, Some (VStr '''')), (''operation_type'', TStr, Some (VStr '''')), (''area'', TFloat, Some (VFloat 0)),
      (''work_area_geometry'', TAny, Some (VList [])), (''covered_geometry'', TAny, Some (VList [])),
      (''work_quantity'', TFloat, Some (VFloat 0)), (''work_quantity_unit'', TStr, Some (VStr '''')),
      (''service_duration_min'', TFloat, Some (VFloat 0)), (''time_windows'', TAny, Some (VList [])),
      (''depends_on_task_ref'', TStr, Some (VStr '''')), (''load_demand'', TFloat, Some (VFloat 0)),
      (''load_material'', TStr, Some (VStr '''')), (''pickup_location_ref'', TStr, Some (VStr '''')),
      (''deadline'', TOptStr, Some VNone), (''penalty_per_day'', TFloat, Some (VFloat 0)),
      (''priority_class'', TStr, Some (VStr '''')), (''status'', TStr, Some (VStr '''')), (''revenue'', TFloat, Some (VFloat 0))]"

definition from_canonical_dict :: "row_class \<Rightarrow> (string, py_val) dict \<Rightarrow> solver_row option" where
  "from_canonical_dict cls data =
     (if list_ex (\<lambda>(n, a, dflt). dflt = None \<and> map_of data n = None) cls then None
      else Some (map (\<lambda>(n, a, dflt). (n, case map_of data n of Some v \<Rightarrow> v | None \<Rightarrow> the dflt)) cls))"

subsection \<open>Binding paths\<close>

definition canonical_keys :: "(string \<times> string) list" where
  "canonical_keys =
     [(''asset.assetId'', ''asset_id''), (''asset.assetType'', ''asset_type''), (''asset.name'', ''name''),
      (''asset.homeDepotRef'', ''home_depot_ref''), (''asset.location.lat'', ''lat''),
      (''asset.location.lon'', ''lon''), (''asset.capabilities.ratedPower'', ''rated_power''),
      (''asset.capabilities.requiredPower'', ''required_power''),
      (''asset.capabilities.fuelTankVolume'', ''fuel_tank_volume''),
      (''asset.capabilities.fuelConsumptionRate'', ''fuel_consumption_rate''),
      (''asset.capabilities.energyResourceType'', ''energy_resource_type''),
      (''asset.capabilities.energyUnit'', ''energy_unit''),
      (''asset.capabilities.energyCapacity'', ''energy_capacity''),
      (''asset.capabilities.energyConsumptionRate'', ''energy_consumption_rate''),
      (''asset.capabilities.travelSpeed'', ''travel_speed''),
      (''asset.capabilities.workingWidth'', ''working_width''),
      (''asset.capabilities.minOperatingSpeed'', ''min_speed''),
      (''asset.capabilities.maxOperatingSpeed'', ''max_speed''),
      (''asset.capabilities.fertilizerCapacity'', ''material_capacity''),
      (''asset.capabilities.workRates'', ''work_rates''),
      (''asset.capabilities.loadCapacity'', ''load_capacity''),
      (''asset.capabilities.loadCapacities'', ''load_capacities''),
      (''asset.capabilities.machineWearEurPerH'', ''machine_wear_eur_per_h''),
      (''asset.capabilities.wageEurPerH'', ''wage_eur_per_h''),
      (''asset.capabilities.compatibleOperations'', ''compatible_operations''),
      (''asset.capabilities.certifiedOperations'', ''certified_operations''),
      (''asset.availability.shiftStart'', ''shift_start''), (''asset.availability.shiftEnd'', ''shift_end''),
      (''location.locationId'', ''location_id''), (''location.locationType'', ''location_type''),
      (''location.name'', ''name''), (''location.lat'', ''lat''), (''location.lon'', ''lon''),
      (''location.areaHa'', ''area''), (''location.soilType'', ''soil_type''),
      (''location.polygon'', ''polygon''), (''location.restrictedOperations'', ''restricted_operations''),
      (''location.restrictionWindows'', ''restriction_windows''),
      (''location.inventory.fuel'', ''inventory_fuel''),
      (''location.inventory.fertilizer'', ''inventory_material''),
      (''location.inventory.energy'', ''inventory_energy''), (''task.taskId'', ''task_id''),
      (''task.orderId'', ''order_ref''), (''task.alternativeGroupRef'', ''alternative_group_ref''),
      (''task.locationRef'', ''location_ref''), (''task.operationType'', ''operation_type''),
      (''task.areaHa'', ''area''), (''task.workAreaGeometry'', ''work_area_geometry''),
      (''task.coveredGeometry'', ''covered_geometry''), (''task.workQuantity'', ''work_quantity''),
      (''task.workQuantityUnit'', ''work_quantity_unit''),
      (''task.serviceDurationMinutes'', ''service_duration_min''), (''task.timeWindows'', ''time_windows''),
      (''task.dependsOnTaskRef'', ''depends_on_task_ref''), (''task.loadDemand'', ''load_demand''),
      (''task.loadMaterial'', ''load_material''), (''task.pickupLocationRef'', ''pickup_location_ref''),
      (''task.deadline'', ''deadline''), (''task.penaltyPerDay'', ''penalty_per_day''),
      (''task.priorityClass'', ''priority_class''), (''task.status'', ''status''),
      (''task.revenueValue'', ''revenue''), (''forecast.forecastId'', ''forecast_id''),
      (''forecast.location.lat'', ''lat''), (''forecast.location.lon'', ''lon''),
      (''forecast.forecastFor.from'', ''valid_from''), (''forecast.forecastFor.to'', ''valid_to''),
      (''forecast.value.windSpeed'', ''wind_speed''),
      (''forecast.value.precipitationRate'', ''precipitation_rate''),
      (''forecast.value.soilMoisture'', ''soil_moisture''), (''travelLink.linkId'', ''link_id''),
      (''travelLink.fromLocationRef'', ''from_location_ref''),
      (''travelLink.toLocationRef'', ''to_location_ref''), (''travelLink.travelTimeS'', ''travel_time_s''),
      (''travelLink.distanceKm'', ''distance_km''), (''travelLink.networkMode'', ''network_mode''),
      (''travelLink.routeGeometry'', ''route_geometry''), (''travelLink.tollEur'', ''toll_eur''),
      (''costRate.costRateId'', ''rate_id''), (''costRate.rateType'', ''rate_type''),
      (''costRate.unitPrice'', ''unit_price''), (''costRate.perUnit'', ''per_unit''),
      (''costRate.validFrom'', ''valid_from''), (''costRate.validTo'', ''valid_to'')]"

definition canonical_key :: "xopt_binding \<Rightarrow> string option" where
  "canonical_key b = map_of canonical_keys (binding_path b)"

subsection \<open>The value of a binding\<close>

definition opt_val :: "('a \<Rightarrow> py_val) \<Rightarrow> 'a option \<Rightarrow> py_val" where
  "opt_val f x = (case x of None \<Rightarrow> VNone | Some y \<Rightarrow> f y)"

definition value_at :: "(string list \<times> py_val) list \<Rightarrow> string list \<Rightarrow> py_val" where
  "value_at table toks = (case map_of table toks of None \<Rightarrow> VNone | Some v \<Rightarrow> v)"

definition asset_value :: "asset \<Rightarrow> xopt_binding \<Rightarrow> py_val" where
  "asset_value a b =
     (let tokens = path_tokens (binding_path b) in
      if ''capabilities'' \<in> set tokens \<or> ''availability'' \<in> set tokens then capability_value a (xb_semantic_term b)
      else value_at
        [([''assetId''], VStr (asset_id a)), ([''assetType''], VStr (asset_type a)), ([''name''], VStr (asset_name a)),
         ([''homeDepotRef''], opt_val VStr (home_depot_ref a)),
         ([''location'', ''lat''], opt_val (\<lambda>g. VFloat (gl_lat g)) (asset_location a)),
         ([''location'', ''lon''], opt_val (\<lambda>g. VFloat (gl_lon g)) (asset_location a))] (tl tokens))"

text \<open>\<open>_intervals_to_strings\<close>.\<close>

definition interval_texts :: "(real \<Rightarrow> string) \<Rightarrow> time_interval list \<Rightarrow> py_val" where
  "interval_texts isofmt ws =
     VList (map (\<lambda>w. VStr (isofmt (ti_from w) @ ''/'' @ (case ti_to w of None \<Rightarrow> '''' | Some x \<Rightarrow> isofmt x))) ws)"

definition points_val :: "real list list \<Rightarrow> py_val" where
  "points_val ps = VList (map (\<lambda>p. VList (map VFloat p)) ps)"

type_synonym stock_lookup = "((string \<times> string) \<times> real) list"

definition inventory_lookup :: "inventory_position list \<Rightarrow> stock_lookup" where
  "inventory_lookup ps = fold (\<lambda>p. AList.update (ip_location_ref p, ip_material_type p) (available_quantity p)) ps []"

definition location_value :: "(real \<Rightarrow> string) \<Rightarrow> stock_lookup \<Rightarrow> location \<Rightarrow> xopt_binding \<Rightarrow> py_val" where
  "location_value isofmt stock l b =
     (let toks = tl (path_tokens (binding_path b)) in
      if take 1 toks = [''inventory''] then VFloat (dget_default stock (location_id l, last toks) 0)
      else value_at
        [([''locationId''], VStr (location_id l)), ([''locationType''], VStr (location_type l)), ([''name''], VStr (loc_name l)),
         ([''lat''], VFloat (loc_lat l)), ([''lon''], VFloat (loc_lon l)), ([''areaHa''], opt_val VFloat (area_ha l)),
         ([''soilType''], VStr (loc_soil_type l)), ([''polygon''], points_val (loc_polygon l)),
         ([''restrictedOperations''], VList (map VStr (loc_restricted_operations l))),
         ([''restrictionWindows''], interval_texts isofmt (loc_restriction_windows l))] toks)"

definition forecast_value :: "(real \<Rightarrow> string) \<Rightarrow> forecast \<Rightarrow> xopt_binding \<Rightarrow> py_val" where
  "forecast_value isofmt f b =
     (let toks = tl (path_tokens (binding_path b)); place = (case fc_location f of None \<Rightarrow> [] | Some d \<Rightarrow> d) in
      if take 1 toks = [''value''] then row_get (fc_value f) (last toks)
      else value_at
        [([''forecastId''], VStr (forecast.forecast_id f)), ([''location'', ''lat''], opt_val VFloat (map_of place ''lat'')),
         ([''location'', ''lon''], opt_val VFloat (map_of place ''lon'')),
         ([''forecastFor'', ''from''], opt_val (\<lambda>w. VStr (isofmt (ti_from w))) (forecast_for f)),
         ([''forecastFor'', ''to''], opt_val (\<lambda>x. VStr (isofmt x)) (Option.bind (forecast_for f) ti_to))] toks)"

definition travel_link_value :: "travel_link \<Rightarrow> xopt_binding \<Rightarrow> py_val" where
  "travel_link_value l b = value_at
     [([''linkId''], VStr (link_id l)), ([''fromLocationRef''], VStr (from_location_ref l)),
      ([''toLocationRef''], VStr (to_location_ref l)), ([''travelTimeS''], VFloat (travel_time_s l)),
      ([''distanceKm''], opt_val VFloat (distance_km l)), ([''networkMode''], VStr (network_mode l)),
      ([''routeGeometry''], points_val (route_geometry l))] (tl (path_tokens (binding_path b)))"

definition cost_rate_value :: "(real \<Rightarrow> string) \<Rightarrow> cost_rate \<Rightarrow> xopt_binding \<Rightarrow> py_val" where
  "cost_rate_value isofmt r b = value_at
     [([''validFrom''], opt_val (\<lambda>x. VStr (isofmt x)) (cr_valid_from r)), ([''validTo''], opt_val (\<lambda>x. VStr (isofmt x)) (cr_valid_to r)),
      ([''costRateId''], VStr (cost_rate_id r)), ([''rateType''], VStr (cost_rate.rate_type r)),
      ([''unitPrice''], VFloat (unit_price_eur r)), ([''perUnit''], VStr (cost_rate.per_unit r))]
     (tl (path_tokens (binding_path b)))"

definition task_value :: "(real \<Rightarrow> string) \<Rightarrow> task \<Rightarrow> xopt_binding \<Rightarrow> py_val" where
  "task_value isofmt t b = value_at
     [([''deadline''], opt_val (\<lambda>x. VStr (isofmt x)) (tk_deadline t)), ([''timeWindows''], interval_texts isofmt (tk_time_windows t)),
      ([''taskId''], VStr (tk_id t)), ([''orderId''], VStr (tk_order_id t)),
      ([''alternativeGroupRef''], VStr (tk_alternative_group_ref t)), ([''locationRef''], VStr (tk_location_ref t)),
      ([''operationType''], VStr (tk_operation_type t)), ([''areaHa''], opt_val VFloat (tk_area_ha t)),
      ([''workAreaGeometry''], points_val (tk_work_area_geometry t)), ([''coveredGeometry''], points_val (tk_covered_geometry t)),
      ([''workQuantity''], opt_val VFloat (tk_work_quantity t)), ([''workQuantityUnit''], VStr (tk_work_quantity_unit t)),
      ([''serviceDurationMinutes''], opt_val VInt (tk_service_duration_minutes t)),
      ([''loadDemand''], opt_val VFloat (tk_load_demand_kg t)), ([''loadMaterial''], VStr (tk_load_material t)),
      ([''pickupLocationRef''], opt_val VStr (tk_pickup_location_ref t)),
      ([''dependsOnTaskRef''], opt_val VStr (tk_depends_on_task_ref t)),
      ([''penaltyPerDay''], VFloat (tk_penalty_per_day_eur t)), ([''priorityClass''], VInt (tk_priority_class t)),
      ([''status''], VStr (tk_status t)), ([''revenueValue''], VFloat (tk_revenue_value_eur t))]
     (tl (path_tokens (binding_path b)))"

subsection \<open>Projection\<close>

definition project :: "xopt_binding list \<Rightarrow> (xopt_binding \<Rightarrow> py_val) \<Rightarrow> (string, py_val) dict" where
  "project bs value =
     fold (\<lambda>b row. case canonical_key b of
        None \<Rightarrow> row | Some k \<Rightarrow> if value b = VNone then row else AList.update k (value b) row) bs []"

definition project_many :: "mapping_table list \<Rightarrow> (xopt_binding \<Rightarrow> py_val) \<Rightarrow> (string, py_val) dict" where
  "project_many ts value = fold (\<lambda>t row. fold (\<lambda>(k, v). AList.update k v) (project (mt_bindings t) value) row) ts []"

definition section_rows ::
  "row_class \<Rightarrow> mapping_table list \<Rightarrow> ('e \<Rightarrow> xopt_binding \<Rightarrow> py_val) \<Rightarrow> 'e list \<Rightarrow> solver_row list option" where
  "section_rows cls ts value xs =
     (if ts = [] then Some [] else those (map (\<lambda>x. from_canonical_dict cls (project_many ts (value x))) xs))"

text \<open>A registry entry: its contract's domain, whether it has a mapping document, and the table of it.\<close>

record registry_entry =
  re_contract_id :: string
  re_domain :: string
  re_mapping_ref :: "string option"
  re_table :: mapping_table

record registry =
  reg_entries :: "registry_entry list"
  active_domains :: "string list"

definition selected_domains :: "registry \<Rightarrow> string list option \<Rightarrow> string list" where
  "selected_domains reg domains = (case domains of None \<Rightarrow> active_domains reg | Some ds \<Rightarrow> ds)"

definition tables_for_entity :: "registry \<Rightarrow> string \<Rightarrow> string list option \<Rightarrow> mapping_table list" where
  "tables_for_entity reg entity domains =
     (let active = selected_domains reg domains in
      map re_table (filter (\<lambda>e. (active = [] \<or> re_domain e \<in> set active)
          \<and> re_mapping_ref e \<noteq> None \<and> re_mapping_ref e \<noteq> Some '''' \<and> mt_entity (re_table e) = entity) (reg_entries reg)))"

record solver_inputs =
  si_prime_movers :: "solver_row list"
  si_related :: "solver_row list"
  si_operators :: "solver_row list"
  si_sites :: "solver_row list"
  si_depots :: "solver_row list"
  si_tasks :: "solver_row list"
  si_forecasts :: "solver_row list"
  si_travel_links :: "solver_row list"
  si_cost_rates :: "solver_row list"

definition with_role :: "string \<Rightarrow> asset list \<Rightarrow> asset list" where
  "with_role role as = filter (\<lambda>a. role \<in> set (roles a)) as"

definition role_tables :: "registry \<Rightarrow> string list option \<Rightarrow> string \<Rightarrow> mapping_table list" where
  "role_tables reg domains role = filter (\<lambda>t. mt_role t = Some role) (tables_for_entity reg ''asset'' domains)"

definition place_tables :: "registry \<Rightarrow> string list option \<Rightarrow> bool \<Rightarrow> mapping_table list" where
  "place_tables reg domains depot =
     filter (\<lambda>t. (mt_role t = Some ''depot'') = depot) (tables_for_entity reg ''location'' domains)"

definition places :: "bool \<Rightarrow> planning_snapshot \<Rightarrow> location list" where
  "places depot sn = filter (\<lambda>l. (location_type l = ''depot'') = depot) (sn_locations sn)"

definition build_solver_inputs ::
  "row_defaults \<Rightarrow> (real \<Rightarrow> string) \<Rightarrow> registry \<Rightarrow> string list option \<Rightarrow> planning_snapshot \<Rightarrow> solver_inputs option" where
  "build_solver_inputs d isofmt reg domains sn =
     (let fleet = (\<lambda>cls role. section_rows cls (role_tables reg domains role) asset_value (with_role role (sn_assets sn)));
          place = location_value isofmt (inventory_lookup (sn_inventory sn))
      in do { movers \<leftarrow> fleet (prime_mover_class d) ''mobile-prime-mover'';
              related \<leftarrow> fleet (related_class d) ''implement'';
              operators \<leftarrow> fleet operator_class ''operator'';
              sites \<leftarrow> section_rows site_class (place_tables reg domains False) place (places False sn);
              depots \<leftarrow> section_rows depot_class (place_tables reg domains True) place (places True sn);
              tasks \<leftarrow> section_rows task_class (tables_for_entity reg ''task'' domains) (task_value isofmt) (sn_tasks sn);
              forecasts \<leftarrow> section_rows forecast_class (tables_for_entity reg ''forecast'' domains) (forecast_value isofmt) (sn_forecasts sn);
              links \<leftarrow> section_rows travel_link_class (tables_for_entity reg ''travel-link'' domains) travel_link_value (sn_travel_links sn);
              rates \<leftarrow> section_rows cost_rate_class (tables_for_entity reg ''cost-rate'' domains) (cost_rate_value isofmt) (sn_cost_rates sn);
              Some \<lparr>si_prime_movers = movers, si_related = related, si_operators = operators, si_sites = sites,
                    si_depots = depots, si_tasks = tasks, si_forecasts = forecasts, si_travel_links = links,
                    si_cost_rates = rates\<rparr> })"

subsection \<open>Rows of a source\<close>

definition contract_row_class :: "row_defaults \<Rightarrow> (string \<times> row_class) list" where
  "contract_row_class d =
     map (\<lambda>c. (c, prime_mover_class d)) [''vehicles'', ''machines'', ''drone-ugvs'', ''drone-uavs'']
     @ map (\<lambda>c. (c, related_class d)) [''implements'', ''attachments'', ''drone-payload-modules'']
     @ map (\<lambda>c. (c, operator_class)) [''operators'', ''construction-operators'', ''drone-operators'']
     @ map (\<lambda>c. (c, site_class)) [''fields'', ''sites'', ''drone-delivery-locations'', ''drone-restricted-zones'']
     @ map (\<lambda>c. (c, depot_class)) [''depots'', ''yards'', ''drone-logistics-hubs'']
     @ map (\<lambda>c. (c, task_class)) [''orders'', ''jobs'', ''drone-delivery-orders'']
     @ map (\<lambda>c. (c, travel_link_class)) [''routes'', ''drone-travel-links'']
     @ [(''drone-weather'', forecast_class)]
     @ map (\<lambda>c. (c, cost_rate_class)) [''prices'', ''drone-prices'']"

definition to_canonical_row :: "row_defaults \<Rightarrow> mapping_table \<Rightarrow> row \<Rightarrow> solver_row option" where
  "to_canonical_row d t r =
     Option.bind (map_of (contract_row_class d) (mt_contract_id t)) (\<lambda>cls.
       from_canonical_dict cls (fold (\<lambda>b out. case (canonical_key b, map_of r (source_field b)) of
          (Some k, Some v) \<Rightarrow> AList.update k v out | _ \<Rightarrow> out) (mt_bindings t) []))"

definition to_canonical_rows :: "row_defaults \<Rightarrow> mapping_table \<Rightarrow> row list \<Rightarrow> solver_row list option" where
  "to_canonical_rows d t rs = those (map (to_canonical_row d t) rs)"


subsection \<open>What a projection holds\<close>

lemma set_update_subset: "set (AList.update k v d) \<subseteq> insert (k, v) (set d)"
  by (induction d) auto

text \<open>Every entry of a projected dict is the value of a binding with that key.\<close>

definition projected :: "xopt_binding set \<Rightarrow> (xopt_binding \<Rightarrow> py_val) \<Rightarrow> (string, py_val) dict \<Rightarrow> bool" where
  "projected B value row \<longleftrightarrow> (\<forall>(k, v)\<in>set row. v \<noteq> VNone \<and> (\<exists>b\<in>B. canonical_key b = Some k \<and> value b = v))"

lemma projected_update:
  assumes "projected B value row" "v \<noteq> VNone" "\<exists>b\<in>B. canonical_key b = Some k \<and> value b = v"
  shows "projected B value (AList.update k v row)"
  using assms set_update_subset [of k v row] unfolding projected_def by fastforce

lemma project_projected: "projected (set bs) value (project bs value)"
proof -
  let ?f = "\<lambda>b row. case canonical_key b of
    None \<Rightarrow> row | Some k \<Rightarrow> if value b = VNone then row else AList.update k (value b) row"
  have "projected (set bs) value (fold ?f bs [])"
  proof (rule fold_invariant [where Q = "\<lambda>b. b \<in> set bs"])
    fix b row assume "b \<in> set bs" "projected (set bs) value row"
    then show "projected (set bs) value (?f b row)"
      by (auto split: option.split intro: projected_update)
  qed (simp_all add: projected_def)
  then show ?thesis by (simp add: project_def)
qed

lemma project_keys:
  "fst ` set (project bs value) = {k. \<exists>b\<in>set bs. canonical_key b = Some k \<and> value b \<noteq> VNone}"
proof -
  let ?f = "\<lambda>b row. case canonical_key b of
    None \<Rightarrow> row | Some k \<Rightarrow> if value b = VNone then row else AList.update k (value b) row"
  have "fst ` set (fold ?f bs row) = fst ` set row \<union> {k. \<exists>b\<in>set bs. canonical_key b = Some k \<and> value b \<noteq> VNone}" for row
  proof (induction bs arbitrary: row)
    case (Cons b bs)
    have "fst ` set (?f b row) = fst ` set row \<union> {k. canonical_key b = Some k \<and> value b \<noteq> VNone}"
      by (auto simp: keys_update split: option.split)
    then show ?case using Cons [of "?f b row"] by auto
  qed simp
  from this [of "[]"] show ?thesis by (simp add: project_def)
qed

lemma updates_keys: "fst ` set (fold (\<lambda>(k, v). AList.update k v) d row) = fst ` set row \<union> fst ` set d"
proof (induction d arbitrary: row)
  case (Cons kv d)
  obtain k v where kv: "kv = (k, v)" by fastforce
  show ?case using Cons [of "AList.update k v row"] by (simp add: kv keys_update)
qed simp

lemma project_many_projected: "projected (\<Union>t\<in>set ts. set (mt_bindings t)) value (project_many ts value)"
proof -
  let ?B = "\<Union>t\<in>set ts. set (mt_bindings t)"
  have upd: "projected ?B value (fold (\<lambda>(k, v). AList.update k v) d row)"
    if "projected ?B value d" "projected ?B value row" for d row
    using that
  proof (induction d arbitrary: row)
    case (Cons kv d)
    obtain k v where kv: "kv = (k, v)" by fastforce
    have "projected ?B value (AList.update k v row)"
      using Cons.prems by (intro projected_update) (auto simp: projected_def kv)
    moreover have "projected ?B value d" using Cons.prems(1) by (simp add: projected_def)
    ultimately show ?case using Cons.IH by (simp add: kv)
  qed simp
  have "projected ?B value (fold (\<lambda>t row. fold (\<lambda>(k, v). AList.update k v) (project (mt_bindings t) value) row) ts [])"
  proof (rule fold_invariant [where Q = "\<lambda>t. t \<in> set ts"])
    fix t row assume t: "t \<in> set ts" and row: "projected ?B value row"
    have "projected ?B value (project (mt_bindings t) value)"
      using project_projected [of "mt_bindings t" "value"] t unfolding projected_def by fast
    then show "projected ?B value (fold (\<lambda>(k, v). AList.update k v) (project (mt_bindings t) value) row)"
      using row by (rule upd)
  qed (simp_all add: projected_def)
  then show ?thesis by (simp add: project_many_def)
qed

lemma project_many_keys:
  "fst ` set (project_many ts value)
     = {k. \<exists>t\<in>set ts. \<exists>b\<in>set (mt_bindings t). canonical_key b = Some k \<and> value b \<noteq> VNone}"
proof -
  have "fst ` set (fold (\<lambda>t row. fold (\<lambda>(k, v). AList.update k v) (project (mt_bindings t) value) row) ts row)
      = fst ` set row \<union> {k. \<exists>t\<in>set ts. \<exists>b\<in>set (mt_bindings t). canonical_key b = Some k \<and> value b \<noteq> VNone}" for row
    by (induction ts arbitrary: row) (auto simp: updates_keys project_keys)
  from this [of "[]"] show ?thesis by (simp add: project_many_def)
qed

subsection \<open>Typed rows\<close>

definition typed_row :: "row_class \<Rightarrow> solver_row \<Rightarrow> bool" where
  "typed_row cls row \<longleftrightarrow> list_all2 (\<lambda>(n, a, _) (k, v). k = n \<and> has_type a v) cls row"

text \<open>The bindings that give an entity its identity.\<close>

definition identified :: "string \<Rightarrow> ('e \<Rightarrow> xopt_binding \<Rightarrow> py_val) \<Rightarrow> mapping_table list \<Rightarrow> 'e \<Rightarrow> bool" where
  "identified key value ts x \<longleftrightarrow> (\<exists>t\<in>set ts. \<exists>b\<in>set (mt_bindings t). canonical_key b = Some key \<and> value x b \<noteq> VNone)"

text \<open>The contract of a section: one required field, defaults of their type, and values of theirs.\<close>

locale projection =
  fixes cls :: row_class and key :: string and val_of :: "'e \<Rightarrow> xopt_binding \<Rightarrow> py_val"
    and typed :: "'e \<Rightarrow> xopt_binding \<Rightarrow> bool"
  assumes required: "(n, a, None) \<in> set cls \<Longrightarrow> n = key"
    and defaults: "(n, a, Some v) \<in> set cls \<Longrightarrow> has_type a v"
    and values_typed: "typed x b \<Longrightarrow> canonical_key b = Some k \<Longrightarrow> (k, a, dflt) \<in> set cls \<Longrightarrow> val_of x b \<noteq> VNone
      \<Longrightarrow> has_type a (val_of x b)"
begin

lemma row_typed:
  assumes "identified key val_of ts x" "\<And>t b. t \<in> set ts \<Longrightarrow> b \<in> set (mt_bindings t) \<Longrightarrow> typed x b"
  obtains row where "from_canonical_dict cls (project_many ts (val_of x)) = Some row" "typed_row cls row"
proof -
  let ?data = "project_many ts (val_of x)"
  have origin: "v \<noteq> VNone \<and> (\<exists>t\<in>set ts. \<exists>b\<in>set (mt_bindings t). canonical_key b = Some k \<and> val_of x b = v)"
    if "map_of ?data k = Some v" for k v
    using project_many_projected [of ts "val_of x"] map_of_SomeD [OF that] unfolding projected_def by fast
  have key: "map_of ?data key \<noteq> None"
    using assms(1) unfolding identified_def map_of_eq_None_iff project_many_keys by blast
  have all: "\<not> list_ex (\<lambda>(n, a, dflt). dflt = None \<and> map_of ?data n = None) cls"
    using key by (auto simp: list_ex_iff dest: required)
  let ?cell = "\<lambda>(n, a, dflt). (n, case map_of ?data n of Some v \<Rightarrow> v | None \<Rightarrow> the dflt)"
  have cell: "(\<lambda>(n, a, _) (k, v). k = n \<and> has_type a v) c (?cell c)" if c: "c \<in> set cls" for c
  proof -
    obtain n a dflt where cc: "c = (n, a, dflt)" by (metis prod_cases3)
    show ?thesis
    proof (cases "map_of ?data n")
      case None
      then have "dflt \<noteq> None" using required [of n a] key c by (cases dflt) (auto simp: cc)
      then obtain v where "dflt = Some v" by blast
      then show ?thesis using None defaults c by (simp add: cc)
    next
      case (Some v)
      from origin [OF this] obtain t b where b: "t \<in> set ts" "b \<in> set (mt_bindings t)" "canonical_key b = Some n" "val_of x b = v" "v \<noteq> VNone"
        by blast
      have "has_type a (val_of x b)"
        using values_typed [OF assms(2) [OF b(1,2)] b(3)] c b(4,5) unfolding cc by blast
      then show ?thesis using Some b(4) by (simp add: cc)
    qed
  qed
  have "typed_row cls (map ?cell cls)"
    unfolding typed_row_def list_all2_map2 by (rule list.rel_refl_strong [OF cell])
  moreover have "from_canonical_dict cls ?data = Some (map ?cell cls)" using all by (simp add: from_canonical_dict_def)
  ultimately show thesis using that by blast
qed

lemma section_typed:
  assumes "\<And>x. x \<in> set xs \<Longrightarrow> ts \<noteq> [] \<Longrightarrow> identified key val_of ts x"
    and "\<And>x t b. x \<in> set xs \<Longrightarrow> t \<in> set ts \<Longrightarrow> b \<in> set (mt_bindings t) \<Longrightarrow> typed x b"
  obtains rows where "section_rows cls ts val_of xs = Some rows" "list_all (typed_row cls) rows"
    "length rows = (if ts = [] then 0 else length xs)"
proof (cases "ts = []")
  case True
  then show thesis using that [of "[]"] by (simp add: section_rows_def)
next
  case False
  have "\<exists>rows. those (map (\<lambda>x. from_canonical_dict cls (project_many ts (val_of x))) xs) = Some rows
      \<and> list_all (typed_row cls) rows \<and> length rows = length xs"
    using assms(1) [OF _ False] assms(2)
  proof (induction xs)
    case (Cons x xs)
    then obtain rows where rows: "those (map (\<lambda>x. from_canonical_dict cls (project_many ts (val_of x))) xs) = Some rows"
      "list_all (typed_row cls) rows" "length rows = length xs" by fastforce
    obtain row where row: "from_canonical_dict cls (project_many ts (val_of x)) = Some row" "typed_row cls row"
      using row_typed Cons.prems by (metis list.set_intros(1))
    show ?case using rows row by simp
  qed simp
  then show thesis using that False by (auto simp: section_rows_def)
qed

end


subsection \<open>The sections are typed\<close>

text \<open>The types of an entity's values by path, and whether they suit the fields their keys name.\<close>

type_synonym path_types = "(string list \<times> annotation) list"

definition type_fits :: "annotation \<Rightarrow> annotation \<Rightarrow> bool" where
  "type_fits a b \<longleftrightarrow> a = b \<or> b = TAny \<or> a = TStr \<and> b = TOptStr \<or> a = TFloat \<and> b = TOptFloat"

lemma type_fits_type: "type_fits a b \<Longrightarrow> has_type a v \<Longrightarrow> has_type b v"
  by (auto simp: type_fits_def)

definition values_agree :: "(string list \<times> py_val) list \<Rightarrow> path_types \<Rightarrow> bool" where
  "values_agree table types \<longleftrightarrow> list_all2 (\<lambda>(p, v) (p', a). p = p' \<and> (v = VNone \<or> has_type a v)) table types"

definition field_fits :: "annotation \<Rightarrow> row_class \<Rightarrow> string \<Rightarrow> bool" where
  "field_fits a cls k \<longleftrightarrow> list_all (\<lambda>(n, b, _). n = k \<longrightarrow> type_fits a b) cls"

text \<open>The canonical paths below their entity, with their keys.\<close>

definition canonical_paths :: "(string list \<times> string) list" where
  "canonical_paths =
     [([''assetId''], ''asset_id''), ([''assetType''], ''asset_type''), ([''name''], ''name''),
      ([''homeDepotRef''], ''home_depot_ref''), ([''location'', ''lat''], ''lat''),
      ([''location'', ''lon''], ''lon''), ([''capabilities'', ''ratedPower''], ''rated_power''),
      ([''capabilities'', ''requiredPower''], ''required_power''),
      ([''capabilities'', ''fuelTankVolume''], ''fuel_tank_volume''),
      ([''capabilities'', ''fuelConsumptionRate''], ''fuel_consumption_rate''),
      ([''capabilities'', ''energyResourceType''], ''energy_resource_type''),
      ([''capabilities'', ''energyUnit''], ''energy_unit''),
      ([''capabilities'', ''energyCapacity''], ''energy_capacity''),
      ([''capabilities'', ''energyConsumptionRate''], ''energy_consumption_rate''),
      ([''capabilities'', ''travelSpeed''], ''travel_speed''),
      ([''capabilities'', ''workingWidth''], ''working_width''),
      ([''capabilities'', ''minOperatingSpeed''], ''min_speed''),
      ([''capabilities'', ''maxOperatingSpeed''], ''max_speed''),
      ([''capabilities'', ''fertilizerCapacity''], ''material_capacity''),
      ([''capabilities'', ''workRates''], ''work_rates''),
      ([''capabilities'', ''loadCapacity''], ''load_capacity''),
      ([''capabilities'', ''loadCapacities''], ''load_capacities''),
      ([''capabilities'', ''machineWearEurPerH''], ''machine_wear_eur_per_h''),
      ([''capabilities'', ''wageEurPerH''], ''wage_eur_per_h''),
      ([''capabilities'', ''compatibleOperations''], ''compatible_operations''),
      ([''capabilities'', ''certifiedOperations''], ''certified_operations''),
      ([''availability'', ''shiftStart''], ''shift_start''), ([''availability'', ''shiftEnd''], ''shift_end''),
      ([''locationId''], ''location_id''), ([''locationType''], ''location_type''), ([''name''], ''name''),
      ([''lat''], ''lat''), ([''lon''], ''lon''), ([''areaHa''], ''area''), ([''soilType''], ''soil_type''),
      ([''polygon''], ''polygon''), ([''restrictedOperations''], ''restricted_operations''),
      ([''restrictionWindows''], ''restriction_windows''), ([''inventory'', ''fuel''], ''inventory_fuel''),
      ([''inventory'', ''fertilizer''], ''inventory_material''),
      ([''inventory'', ''energy''], ''inventory_energy''), ([''taskId''], ''task_id''),
      ([''orderId''], ''order_ref''), ([''alternativeGroupRef''], ''alternative_group_ref''),
      ([''locationRef''], ''location_ref''), ([''operationType''], ''operation_type''),
      ([''areaHa''], ''area''), ([''workAreaGeometry''], ''work_area_geometry''),
      ([''coveredGeometry''], ''covered_geometry''), ([''workQuantity''], ''work_quantity''),
      ([''workQuantityUnit''], ''work_quantity_unit''),
      ([''serviceDurationMinutes''], ''service_duration_min''), ([''timeWindows''], ''time_windows''),
      ([''dependsOnTaskRef''], ''depends_on_task_ref''), ([''loadDemand''], ''load_demand''),
      ([''loadMaterial''], ''load_material''), ([''pickupLocationRef''], ''pickup_location_ref''),
      ([''deadline''], ''deadline''), ([''penaltyPerDay''], ''penalty_per_day''),
      ([''priorityClass''], ''priority_class''), ([''status''], ''status''), ([''revenueValue''], ''revenue''),
      ([''forecastId''], ''forecast_id''), ([''location'', ''lat''], ''lat''),
      ([''location'', ''lon''], ''lon''), ([''forecastFor'', ''from''], ''valid_from''),
      ([''forecastFor'', ''to''], ''valid_to''), ([''value'', ''windSpeed''], ''wind_speed''),
      ([''value'', ''precipitationRate''], ''precipitation_rate''),
      ([''value'', ''soilMoisture''], ''soil_moisture''), ([''linkId''], ''link_id''),
      ([''fromLocationRef''], ''from_location_ref''), ([''toLocationRef''], ''to_location_ref''),
      ([''travelTimeS''], ''travel_time_s''), ([''distanceKm''], ''distance_km''),
      ([''networkMode''], ''network_mode''), ([''routeGeometry''], ''route_geometry''),
      ([''tollEur''], ''toll_eur''), ([''costRateId''], ''rate_id''), ([''rateType''], ''rate_type''),
      ([''unitPrice''], ''unit_price''), ([''perUnit''], ''per_unit''), ([''validFrom''], ''valid_from''),
      ([''validTo''], ''valid_to'')]"

lemma canonical_paths: "map (\<lambda>(p, k). (tl (path_tokens p), k)) canonical_keys = canonical_paths"
  by code_simp

definition keys_fit :: "path_types \<Rightarrow> row_class \<Rightarrow> bool" where
  "keys_fit types cls \<longleftrightarrow> list_all (\<lambda>(toks, k).
     case map_of types toks of None \<Rightarrow> True | Some a \<Rightarrow> field_fits a cls k) canonical_paths"

definition prefix_fits :: "string \<Rightarrow> annotation \<Rightarrow> row_class \<Rightarrow> bool" where
  "prefix_fits pre a cls \<longleftrightarrow> list_all (\<lambda>(toks, k). take 1 toks = [pre] \<longrightarrow> field_fits a cls k) canonical_paths"

lemma canonical_keyD: "canonical_key b = Some k \<Longrightarrow> (tl (path_tokens (binding_path b)), k) \<in> set canonical_paths"
  unfolding canonical_key_def canonical_paths [symmetric] by (drule map_of_SomeD) force

lemma field_fitsD: "field_fits a cls k \<Longrightarrow> (k, b, d) \<in> set cls \<Longrightarrow> type_fits a b"
  by (auto simp: field_fits_def list_all_iff)

lemma values_agreeD:
  "values_agree table types \<Longrightarrow> value_at table toks \<noteq> VNone \<Longrightarrow>
     \<exists>a. map_of types toks = Some a \<and> has_type a (value_at table toks)"
  unfolding values_agree_def
  by (induction table types rule: list_all2_induct) (auto simp: value_at_def split: if_splits)

lemma table_typed:
  assumes "values_agree table types" "keys_fit types cls" "canonical_key b = Some k" "(k, ann, d) \<in> set cls"
    and "value_at table (tl (path_tokens (binding_path b))) \<noteq> VNone"
  shows "has_type ann (value_at table (tl (path_tokens (binding_path b))))"
proof -
  obtain a where a: "map_of types (tl (path_tokens (binding_path b))) = Some a"
    "has_type a (value_at table (tl (path_tokens (binding_path b))))" using values_agreeD [OF assms(1,5)] by blast
  have "field_fits a cls k"
    using assms(2) canonical_keyD [OF assms(3)] a(1) unfolding keys_fit_def list_all_iff by fastforce
  from type_fits_type [OF field_fitsD [OF this assms(4)] a(2)] show ?thesis .
qed

lemma prefix_typed:
  assumes "prefix_fits pre a cls" "canonical_key b = Some k" "(k, ann, d) \<in> set cls"
    and "take 1 (tl (path_tokens (binding_path b))) = [pre]" "has_type a v"
  shows "has_type ann v"
proof -
  have "field_fits a cls k" using assms(1,4) canonical_keyD [OF assms(2)] unfolding prefix_fits_def list_all_iff by fastforce
  from type_fits_type [OF field_fitsD [OF this assms(3)] assms(5)] show ?thesis .
qed

definition asset_types :: path_types where
  "asset_types = [([''assetId''], TStr), ([''assetType''], TStr), ([''name''], TStr), ([''homeDepotRef''], TStr),
     ([''location'', ''lat''], TFloat), ([''location'', ''lon''], TFloat)]"

definition location_types :: path_types where
  "location_types = [([''locationId''], TStr), ([''locationType''], TStr), ([''name''], TStr), ([''lat''], TFloat),
     ([''lon''], TFloat), ([''areaHa''], TFloat), ([''soilType''], TStr), ([''polygon''], TAny),
     ([''restrictedOperations''], TAny), ([''restrictionWindows''], TAny)]"

definition forecast_types :: path_types where
  "forecast_types = [([''forecastId''], TStr), ([''location'', ''lat''], TFloat), ([''location'', ''lon''], TFloat),
     ([''forecastFor'', ''from''], TStr), ([''forecastFor'', ''to''], TStr)]"

definition travel_link_types :: path_types where
  "travel_link_types = [([''linkId''], TStr), ([''fromLocationRef''], TStr), ([''toLocationRef''], TStr),
     ([''travelTimeS''], TFloat), ([''distanceKm''], TFloat), ([''networkMode''], TStr), ([''routeGeometry''], TAny)]"

definition cost_rate_types :: path_types where
  "cost_rate_types = [([''validFrom''], TStr), ([''validTo''], TStr), ([''costRateId''], TStr), ([''rateType''], TStr),
     ([''unitPrice''], TFloat), ([''perUnit''], TStr)]"

definition task_types :: path_types where
  "task_types = [([''deadline''], TStr), ([''timeWindows''], TAny), ([''taskId''], TStr), ([''orderId''], TStr),
     ([''alternativeGroupRef''], TStr), ([''locationRef''], TStr), ([''operationType''], TStr), ([''areaHa''], TFloat),
     ([''workAreaGeometry''], TAny), ([''coveredGeometry''], TAny), ([''workQuantity''], TFloat),
     ([''workQuantityUnit''], TStr), ([''serviceDurationMinutes''], TFloat), ([''loadDemand''], TFloat),
     ([''loadMaterial''], TStr), ([''pickupLocationRef''], TStr), ([''dependsOnTaskRef''], TStr),
     ([''penaltyPerDay''], TFloat), ([''priorityClass''], TFloat), ([''status''], TStr), ([''revenueValue''], TFloat)]"

text \<open>The annotation \<open>str\<close> of \<open>priority_class\<close> is not kept: the projection stores the task's integer.\<close>

definition task_class_read :: row_class where
  "task_class_read = map (\<lambda>(n, a, d). (n, if n = ''priority_class'' then TAny else a, d)) task_class"

lemma priority_class_not_text:
  "\<not> keys_fit task_types task_class" "keys_fit task_types task_class_read"
  by code_simp+

lemmas class_defs = prime_mover_class_def related_class_def operator_class_def site_class_def depot_class_def
  forecast_class_def travel_link_class_def cost_rate_class_def

lemma keys_fit_classes:
  "keys_fit location_types site_class" "keys_fit location_types depot_class" "keys_fit forecast_types forecast_class"
  "keys_fit travel_link_types travel_link_class" "keys_fit cost_rate_types cost_rate_class" "keys_fit asset_types operator_class"
  "prefix_fits ''inventory'' TFloat site_class" "prefix_fits ''inventory'' TFloat depot_class"
  "prefix_fits ''value'' TFloat forecast_class"
  by code_simp+

lemma keys_fit_fleet: "keys_fit asset_types (prime_mover_class d)" "keys_fit asset_types (related_class d)"
  unfolding prime_mover_class_def related_class_def by code_simp+


text \<open>A capability bound to a field of the class has the field's type; the measures of a forecast are numbers.\<close>

definition is_capability :: "xopt_binding \<Rightarrow> bool" where
  "is_capability b \<longleftrightarrow> (let tokens = path_tokens (binding_path b) in ''capabilities'' \<in> set tokens \<or> ''availability'' \<in> set tokens)"

definition capability_typed :: "row_class \<Rightarrow> asset \<Rightarrow> xopt_binding \<Rightarrow> bool" where
  "capability_typed cls a b \<longleftrightarrow>
     (let v = capability_value a (xb_semantic_term b) in
      is_capability b \<longrightarrow> (\<forall>(n, ann, dflt)\<in>set cls. canonical_key b = Some n \<longrightarrow> v = VNone \<or> has_type ann v))"

definition measures_typed :: "forecast \<Rightarrow> xopt_binding \<Rightarrow> bool" where
  "measures_typed f b \<longleftrightarrow> (\<forall>(k, v)\<in>set (fc_value f). v = VNone \<or> is_number v)"

lemma measures_typedD: "measures_typed f b \<Longrightarrow> row_get (fc_value f) k \<noteq> VNone \<Longrightarrow> is_number (row_get (fc_value f) k)"
  unfolding measures_typed_def row_get_def dget_default_def by (auto split: option.splits dest!: map_of_SomeD)

lemmas agree_defs = values_agree_def opt_val_def points_val_def interval_texts_def

lemma asset_value_typed:
  assumes "capability_typed cls x b" "keys_fit asset_types cls" "canonical_key b = Some k" "(k, ann, d) \<in> set cls"
    and "asset_value x b \<noteq> VNone"
  shows "has_type ann (asset_value x b)"
proof (cases "is_capability b")
  case True
  then have "asset_value x b = capability_value x (xb_semantic_term b)"
    unfolding asset_value_def is_capability_def Let_def by (rule if_P)
  then show ?thesis using assms(1,3,4,5) True unfolding capability_typed_def Let_def by fastforce
next
  case False
  show ?thesis
    using table_typed [OF _ assms(2-4)] assms(5) False
    unfolding asset_value_def is_capability_def Let_def by (simp add: agree_defs asset_types_def split: option.split)
qed

lemma location_value_typed:
  assumes "keys_fit location_types cls" "prefix_fits ''inventory'' TFloat cls" "canonical_key b = Some k" "(k, ann, d) \<in> set cls"
    and "location_value isofmt stock x b \<noteq> VNone"
  shows "has_type ann (location_value isofmt stock x b)"
proof (cases "take 1 (tl (path_tokens (binding_path b))) = [''inventory'']")
  case True
  from prefix_typed [OF assms(2-4) this] True show ?thesis unfolding location_value_def Let_def by simp
next
  case False
  then show ?thesis
    using table_typed [OF _ assms(1,3,4)] assms(5)
    unfolding location_value_def Let_def by (simp add: agree_defs location_types_def split: option.split)
qed

lemma forecast_value_typed:
  assumes "measures_typed x b" "canonical_key b = Some k" "(k, ann, d) \<in> set forecast_class" "forecast_value isofmt x b \<noteq> VNone"
  shows "has_type ann (forecast_value isofmt x b)"
proof (cases "take 1 (tl (path_tokens (binding_path b))) = [''value'']")
  case True
  from prefix_typed [OF keys_fit_classes(9) assms(2,3) this] True show ?thesis
    using measures_typedD [OF assms(1)] assms(4) unfolding forecast_value_def Let_def by simp
next
  case False
  then show ?thesis
    using table_typed [OF _ keys_fit_classes(3) assms(2,3)] assms(4)
    unfolding forecast_value_def Let_def by (simp add: agree_defs forecast_types_def split: option.split)
qed

lemma travel_link_value_typed:
  assumes "canonical_key b = Some k" "(k, ann, d) \<in> set travel_link_class" "travel_link_value x b \<noteq> VNone"
  shows "has_type ann (travel_link_value x b)"
  using table_typed [OF _ keys_fit_classes(4) assms(1,2)] assms(3)
  unfolding travel_link_value_def by (simp add: agree_defs travel_link_types_def split: option.split)

lemma cost_rate_value_typed:
  assumes "canonical_key b = Some k" "(k, ann, d) \<in> set cost_rate_class" "cost_rate_value isofmt x b \<noteq> VNone"
  shows "has_type ann (cost_rate_value isofmt x b)"
  using table_typed [OF _ keys_fit_classes(5) assms(1,2)] assms(3)
  unfolding cost_rate_value_def by (simp add: agree_defs cost_rate_types_def split: option.split)

lemma task_value_typed:
  assumes "canonical_key b = Some k" "(k, ann, d) \<in> set task_class_read" "task_value isofmt x b \<noteq> VNone"
  shows "has_type ann (task_value isofmt x b)"
  using table_typed [OF _ priority_class_not_text(2) assms(1,2)] assms(3)
  unfolding task_value_def by (simp add: agree_defs task_types_def split: option.split)

lemma projectionI:
  assumes "list_all (\<lambda>(n, a, d). case d of None \<Rightarrow> n = key | Some v \<Rightarrow> has_type a v) cls"
    and "\<And>x b k a d. typed x b \<Longrightarrow> canonical_key b = Some k \<Longrightarrow> (k, a, d) \<in> set cls \<Longrightarrow> val_of x b \<noteq> VNone
      \<Longrightarrow> has_type a (val_of x b)"
  shows "projection cls key val_of typed"
proof
  show "n = key" if "(n, a, None) \<in> set cls" for n a using assms(1) that by (auto simp: list_all_iff)
  show "has_type a v" if "(n, a, Some v) \<in> set cls" for n a v using assms(1) that by (auto simp: list_all_iff)
qed (rule assms(2))

interpretation prime_movers: projection "prime_mover_class d" "''asset_id''" asset_value "capability_typed (prime_mover_class d)" for d
  by (rule projectionI [OF _ asset_value_typed [OF _ keys_fit_fleet(1)]]) (simp_all add: prime_mover_class_def)

interpretation related_equipment: projection "related_class d" "''asset_id''" asset_value "capability_typed (related_class d)" for d
  by (rule projectionI [OF _ asset_value_typed [OF _ keys_fit_fleet(2)]]) (simp_all add: related_class_def)

interpretation operators: projection operator_class "''asset_id''" asset_value "capability_typed operator_class"
  by (rule projectionI [OF _ asset_value_typed [OF _ keys_fit_classes(6)]]) (simp_all add: operator_class_def)

interpretation sites: projection site_class "''location_id''" "location_value isofmt stock" "\<lambda>_ _. True" for isofmt stock
  by (rule projectionI [OF _ location_value_typed [OF keys_fit_classes(1,7)]]) (simp_all add: site_class_def)

interpretation depots: projection depot_class "''location_id''" "location_value isofmt stock" "\<lambda>_ _. True" for isofmt stock
  by (rule projectionI [OF _ location_value_typed [OF keys_fit_classes(2,8)]]) (simp_all add: depot_class_def)

interpretation forecasts: projection forecast_class "''forecast_id''" "forecast_value isofmt" measures_typed for isofmt
  by (rule projectionI [OF _ forecast_value_typed]) (simp_all add: forecast_class_def)

interpretation travel_links: projection travel_link_class "''link_id''" travel_link_value "\<lambda>_ _. True"
  by (rule projectionI [OF _ travel_link_value_typed]) (simp_all add: travel_link_class_def)

interpretation cost_rates: projection cost_rate_class "''rate_id''" "cost_rate_value isofmt" "\<lambda>_ _. True" for isofmt
  by (rule projectionI [OF _ cost_rate_value_typed]) (simp_all add: cost_rate_class_def)

interpretation tasks: projection task_class_read "''task_id''" "task_value isofmt" "\<lambda>_ _. True" for isofmt
  by (rule projectionI [OF _ task_value_typed]) (simp_all add: task_class_read_def task_class_def)


definition typed_inputs :: "row_defaults \<Rightarrow> solver_inputs \<Rightarrow> bool" where
  "typed_inputs d rows \<longleftrightarrow>
     list_all (typed_row (prime_mover_class d)) (si_prime_movers rows) \<and> list_all (typed_row (related_class d)) (si_related rows)
     \<and> list_all (typed_row operator_class) (si_operators rows) \<and> list_all (typed_row site_class) (si_sites rows)
     \<and> list_all (typed_row depot_class) (si_depots rows) \<and> list_all (typed_row task_class_read) (si_tasks rows)
     \<and> list_all (typed_row forecast_class) (si_forecasts rows) \<and> list_all (typed_row travel_link_class) (si_travel_links rows)
     \<and> list_all (typed_row cost_rate_class) (si_cost_rates rows)"

text \<open>The tables of a section, if there are any, bind the entity's identity.\<close>

definition binds :: "string \<Rightarrow> mapping_table list \<Rightarrow> bool" where
  "binds path_text ts \<longleftrightarrow> ts = [] \<or> (\<exists>t\<in>set ts. \<exists>b\<in>set (mt_bindings t). binding_path b = path_text)"

definition identities_bound :: "registry \<Rightarrow> string list option \<Rightarrow> bool" where
  "identities_bound reg domains \<longleftrightarrow>
     (\<forall>role\<in>{''mobile-prime-mover'', ''implement'', ''operator''}. binds ''asset.assetId'' (role_tables reg domains role))
     \<and> (\<forall>depot. binds ''location.locationId'' (place_tables reg domains depot))
     \<and> binds ''task.taskId'' (tables_for_entity reg ''task'' domains)
     \<and> binds ''forecast.forecastId'' (tables_for_entity reg ''forecast'' domains)
     \<and> binds ''travelLink.linkId'' (tables_for_entity reg ''travel-link'' domains)
     \<and> binds ''costRate.costRateId'' (tables_for_entity reg ''cost-rate'' domains)"

definition capabilities_typed :: "row_class \<Rightarrow> mapping_table list \<Rightarrow> asset list \<Rightarrow> bool" where
  "capabilities_typed cls ts as \<longleftrightarrow> (\<forall>a\<in>set as. \<forall>t\<in>set ts. \<forall>b\<in>set (mt_bindings t). capability_typed cls a b)"

definition snapshot_typed :: "row_defaults \<Rightarrow> registry \<Rightarrow> string list option \<Rightarrow> planning_snapshot \<Rightarrow> bool" where
  "snapshot_typed d reg domains sn \<longleftrightarrow>
     capabilities_typed (prime_mover_class d) (role_tables reg domains ''mobile-prime-mover'') (with_role ''mobile-prime-mover'' (sn_assets sn))
     \<and> capabilities_typed (related_class d) (role_tables reg domains ''implement'') (with_role ''implement'' (sn_assets sn))
     \<and> capabilities_typed operator_class (role_tables reg domains ''operator'') (with_role ''operator'' (sn_assets sn))
     \<and> (\<forall>f\<in>set (sn_forecasts sn). \<forall>b. measures_typed f b)"

lemma binds_identified:
  assumes "binds path_text ts" "ts \<noteq> []" "map_of canonical_keys path_text = Some key"
    and "\<And>b. binding_path b = path_text \<Longrightarrow> val_of x b \<noteq> VNone"
  shows "identified key val_of ts x"
  using assms unfolding binds_def identified_def canonical_key_def by metis

lemma task_section_relaxed: "section_rows task_class ts val_of xs = section_rows task_class_read ts val_of xs"
proof -
  have "from_canonical_dict task_class = from_canonical_dict task_class_read"
    by (rule ext) (simp add: from_canonical_dict_def task_class_read_def task_class_def)
  then show ?thesis by (simp add: section_rows_def)
qed

lemma identity_values:
  "binding_path b = ''asset.assetId'' \<Longrightarrow> asset_value a b = VStr (asset_id a)"
  "binding_path b = ''location.locationId'' \<Longrightarrow> location_value isofmt stock l b = VStr (location_id l)"
  "binding_path b = ''forecast.forecastId'' \<Longrightarrow> forecast_value isofmt f b = VStr (forecast.forecast_id f)"
  "binding_path b = ''travelLink.linkId'' \<Longrightarrow> travel_link_value k b = VStr (link_id k)"
  "binding_path b = ''costRate.costRateId'' \<Longrightarrow> cost_rate_value isofmt r b = VStr (cost_rate_id r)"
  "binding_path b = ''task.taskId'' \<Longrightarrow> task_value isofmt t b = VStr (tk_id t)"
  by (simp_all add: asset_value_def location_value_def forecast_value_def travel_link_value_def cost_rate_value_def
      task_value_def value_at_def)

lemma identity_keys:
  "map_of canonical_keys ''asset.assetId'' = Some ''asset_id''" "map_of canonical_keys ''location.locationId'' = Some ''location_id''"
  "map_of canonical_keys ''forecast.forecastId'' = Some ''forecast_id''" "map_of canonical_keys ''travelLink.linkId'' = Some ''link_id''"
  "map_of canonical_keys ''costRate.costRateId'' = Some ''rate_id''" "map_of canonical_keys ''task.taskId'' = Some ''task_id''"
  by (simp_all add: canonical_keys_def)

context projection
begin

lemma section_built:
  assumes "binds path_text ts" "map_of canonical_keys path_text = Some key"
    and "\<forall>x b. binding_path b = path_text \<longrightarrow> val_of x b \<noteq> VNone"
    and "\<forall>x\<in>set xs. \<forall>t\<in>set ts. \<forall>b\<in>set (mt_bindings t). typed x b"
  shows "\<exists>rows. section_rows cls ts val_of xs = Some rows \<and> list_all (typed_row cls) rows
    \<and> length rows = (if ts = [] then 0 else length xs)"
proof -
  have "identified key val_of ts x" if "ts \<noteq> []" for x
    using binds_identified [of path_text ts key val_of x] assms(1-3) that by blast
  moreover have "typed x b" if "x \<in> set xs" "t \<in> set ts" "b \<in> set (mt_bindings t)" for x t b
    using assms(4) that by blast
  ultimately show ?thesis using section_typed [of xs ts] by metis
qed

end



subsection \<open>A toll that never arrives\<close>

text \<open>The key of a travel link's toll is declared, but no binding ever yields a value for it.\<close>

lemma toll_never_projected:
  assumes "from_canonical_dict travel_link_class (project_many ts (travel_link_value l)) = Some row"
  shows "map_of canonical_keys ''travelLink.tollEur'' = Some ''toll_eur'' \<and> map_of row ''toll_eur'' = Some (VFloat 0)"
proof
  show "map_of canonical_keys ''travelLink.tollEur'' = Some ''toll_eur''" by (simp add: canonical_keys_def)
  have "map_of (project_many ts (travel_link_value l)) ''toll_eur'' = None"
  proof (rule ccontr)
    assume "map_of (project_many ts (travel_link_value l)) ''toll_eur'' \<noteq> None"
    then obtain v where "(''toll_eur'', v) \<in> set (project_many ts (travel_link_value l))" by (auto dest: map_of_SomeD)
    then obtain b where b: "canonical_key b = Some ''toll_eur''" "travel_link_value l b \<noteq> VNone"
      using project_many_projected [of ts "travel_link_value l"] unfolding projected_def by fast
    have "list_all (\<lambda>(toks, k). k = ''toll_eur'' \<longrightarrow> toks = [''tollEur'']) canonical_paths" by code_simp
    then have "tl (path_tokens (binding_path b)) = [''tollEur'']"
      using canonical_keyD [OF b(1)] by (auto simp: list_all_iff)
    then show False using b(2) by (simp add: travel_link_value_def value_at_def)
  qed
  then show "map_of row ''toll_eur'' = Some (VFloat 0)"
    using assms by (auto simp: from_canonical_dict_def travel_link_class_def split: if_splits)
qed

subsection \<open>A closed instance\<close>

definition sample_registry :: registry where
  "sample_registry =
     \<lparr>reg_entries = [\<lparr>re_contract_id = ''orders'', re_domain = ''farm'', re_mapping_ref = Some ''m'', re_table = sample_mapping\<rparr>],
      active_domains = [''farm'']\<rparr>"

definition sample_defaults :: row_defaults where
  "sample_defaults = \<lparr>rd_fuel_consumption = 20, rd_travel_speed = 40, rd_working_width = 3, rd_operating_speed = 10\<rparr>"

lemma sample_tables:
  "tables_for_entity sample_registry entity None = (if entity = ''task'' then [sample_mapping] else [])"
  by (auto simp: tables_for_entity_def selected_domains_def sample_registry_def sample_mapping_def)


end
