(* ===== verification/Spec2Isabelle.thy ===== *)
theory Spec2Isabelle
  imports Intervals TaskRelations Restrictions Weather Operators Materials Canonical Sweep Charging
    Airspace Events Dedup Profiles Monitoring Rolling Broker Driver TravelTime Clustering Scoring Allocation RouteGeography RoutePlan Feedback Sharing Pool Kpis Chain Canonicalize Inputs
begin

text \<open>placeholder\<close>

end
